(* ===== verification/Queue_Id.thy ===== *)
theory Queue_Id
  imports Relay_Prelude
begin

text \<open>
  \<open>internal/queueid/queueid.go\<close>: the validated queue identifier. \<open>Valid\<close> is the pattern
  \<open>^[A-Z2-7]{16}$\<close>, \<open>Parse\<close> its fallible form, and \<open>New\<close> the unpadded base32 encoding of
  ten random bytes, which are an argument (\<open>None\<close> when the random source fails).
  The lemmas show that every fresh identifier is valid and that the encoding loses nothing.
\<close>

type_synonym id = string

definition id_char :: "char \<Rightarrow> bool" where
  "id_char c \<longleftrightarrow> is_upper c \<or> 50 \<le> byte c \<and> byte c \<le> (55::nat)"

definition Valid :: "string \<Rightarrow> bool" where
  "Valid s \<longleftrightarrow> length s = 16 \<and> list_all id_char s"

definition Parse :: "string \<Rightarrow> id option" where
  "Parse s = (if Valid s then Some s else None)"

definition base32_digit :: "nat \<Rightarrow> char" where
  "base32_digit n = (if n < 26 then char_of (65 + n) else char_of (24 + n))"

definition base32_block :: "nat \<Rightarrow> nat \<Rightarrow> nat \<Rightarrow> nat \<Rightarrow> nat \<Rightarrow> string" where
  "base32_block a b c d e =
     (let v = (((a * 256 + b) * 256 + c) * 256 + d) * 256 + e
      in map (\<lambda>i. base32_digit (v div 32 ^ i mod 32)) [7, 6, 5, 4, 3, 2, 1, 0])"

text \<open>Whole blocks of five bytes; the ten bytes \<open>New\<close> reads are two of them.\<close>

fun EncodeToString :: "string \<Rightarrow> string" where
  "EncodeToString (a # b # c # d # e # rest) =
     base32_block (byte a) (byte b) (byte c) (byte d) (byte e) @ EncodeToString rest"
| "EncodeToString _ = []"

definition New :: "string option \<Rightarrow> id option" where
  "New rnd = map_option EncodeToString rnd"

section \<open>Fresh identifiers\<close>

lemma Parse_Some [simp]: "Parse s = Some i \<longleftrightarrow> Valid s \<and> i = s"
  by (auto simp: Parse_def)

lemma byte_digit: "n < 32 \<Longrightarrow> byte (base32_digit n) = (if n < 26 then 65 + n else 24 + n)"
  by (simp add: base32_digit_def of_char_of)

lemma id_char_digit: "n < 32 \<Longrightarrow> id_char (base32_digit n)"
  by (auto simp: id_char_def is_upper_def byte_digit)

lemma base32_digit_inj:
  assumes "m < 32" "n < 32" "base32_digit m = base32_digit n"
  shows "m = n"
proof -
  have "(if m < 26 then 65 + m else 24 + m) = (if n < 26 then 65 + n else 24 + n)"
    by (metis assms byte_digit)
  with assms(1,2) show ?thesis by (auto split: if_splits)
qed

lemma length_block [simp]: "length (base32_block a b c d e) = 8"
  by (simp add: base32_block_def Let_def)

lemma block_chars: "list_all id_char (base32_block a b c d e)"
  by (simp add: base32_block_def Let_def id_char_digit)

lemma ten_bytes:
  assumes "length bs = 10"
  obtains a b c d e f g h i j where "bs = [a, b, c, d, e, f, g, h, i, j]"
  using assms by (auto simp: numeral_eq_Suc length_Suc_conv)

lemma New_is_valid: "New (Some bs) = Some i \<Longrightarrow> length bs = 10 \<Longrightarrow> Valid i"
  by (elim ten_bytes) (auto simp: New_def Valid_def block_chars)

lemma digits_determine:
  fixes v w :: nat
  assumes "v < 32 ^ k" and "w < 32 ^ k"
    and "\<forall>i < k. v div 32 ^ i mod 32 = w div 32 ^ i mod 32"
  shows "v = w"
  using assms
proof (induction k arbitrary: v w)
  case (Suc k)
  have dig: "v div 32 ^ i mod 32 = w div 32 ^ i mod 32" if "i < Suc k" for i
    using Suc.prems(3) that by blast
  have "v mod 32 = w mod 32" using dig [of 0] by simp
  moreover have "v div 32 = w div 32"
  proof (rule Suc.IH)
    show "\<forall>i<k. v div 32 div 32 ^ i mod 32 = w div 32 div 32 ^ i mod 32"
    proof (intro allI impI)
      fix i assume "i < k"
      then show "v div 32 div 32 ^ i mod 32 = w div 32 div 32 ^ i mod 32"
        using dig [of "Suc i"] by (simp add: div_mult2_eq)
    qed
  qed (use Suc.prems in \<open>simp_all add: less_mult_imp_div_less mult.commute\<close>)
  ultimately show ?case by (metis div_mult_mod_eq)
qed simp

lemma byte_less: "byte c < 256"
  by simp

lemma char_eq_byte: "byte c = byte d \<Longrightarrow> c = d"
  by (metis char_of_char)

lemma all_less_8: "(\<forall>i < (8::nat). P i) \<longleftrightarrow> P 0 \<and> P 1 \<and> P 2 \<and> P 3 \<and> P 4 \<and> P 5 \<and> P 6 \<and> P 7"
proof -
  have "(\<forall>i < (8::nat). P i) \<longleftrightarrow> list_all P [0..<8]" by (auto simp: list_all_iff)
  then show ?thesis by (simp add: upt_rec eval_nat_numeral)
qed

lemma base256_inj:
  fixes a b :: nat
  assumes "a * 256 + b = a' * 256 + b'" "b < 256" "b' < 256"
  shows "a = a' \<and> b = b'"
proof -
  have "(a * 256 + b) div 256 = a" "(a' * 256 + b') div 256 = a'" using assms by simp_all
  with assms(1) show ?thesis by simp
qed

lemma block_inj:
  assumes eq: "base32_block a b c d e = base32_block a' b' c' d' e'"
    and "a < 256" "b < 256" "c < 256" "d < 256" "e < 256"
    and "a' < 256" "b' < 256" "c' < 256" "d' < 256" "e' < 256"
  shows "a = a' \<and> b = b' \<and> c = c' \<and> d = d' \<and> e = e'"
proof -
  define v where "v = (((a * 256 + b) * 256 + c) * 256 + d) * 256 + e"
  define w where "w = (((a' * 256 + b') * 256 + c') * 256 + d') * 256 + e'"
  have "\<forall>i < 8. v div 32 ^ i mod 32 = w div 32 ^ i mod 32"
    using eq unfolding all_less_8 base32_block_def v_def [symmetric] w_def [symmetric] Let_def list.map
    by (intro conjI) (rule base32_digit_inj; simp)+
  moreover have "v < 32 ^ 8" "w < 32 ^ 8" using assms by (simp_all add: v_def w_def)
  ultimately have "v = w" by (intro digits_determine [of _ 8])
  with assms(2-) show ?thesis unfolding v_def w_def by (metis base256_inj)
qed

lemma EncodeToString_inj:
  assumes "length xs = 10" "length ys = 10" "EncodeToString xs = EncodeToString ys"
  shows "xs = ys"
proof -
  from assms(1) obtain a b c d e f g h i j where xs: "xs = [a, b, c, d, e, f, g, h, i, j]"
    by (rule ten_bytes)
  from assms(2) obtain a' b' c' d' e' f' g' h' i' j'
    where ys: "ys = [a', b', c', d', e', f', g', h', i', j']" by (rule ten_bytes)
  from assms(3) have
    "base32_block (byte a) (byte b) (byte c) (byte d) (byte e) =
     base32_block (byte a') (byte b') (byte c') (byte d') (byte e')"
    "base32_block (byte f) (byte g) (byte h) (byte i) (byte j) =
     base32_block (byte f') (byte g') (byte h') (byte i') (byte j')"
    by (simp_all add: xs ys)
  then show ?thesis by (auto dest!: block_inj intro: char_eq_byte simp: xs ys byte_less)
qed


text \<open>Every identifier made from ten random bytes has the form the spool's file names rely on, so
  it parses back to itself, and two identifiers are equal only when their random bytes are.\<close>

theorem fresh_ids:
  assumes "length xs = 10" "length ys = 10" "New (Some xs) = Some i" "New (Some ys) = Some j"
  shows "Valid i \<and> Parse i = Some i \<and> (i = j \<longrightarrow> xs = ys)"
  using New_is_valid [OF assms(3,1)] EncodeToString_inj [OF assms(1,2)] assms(3,4) by (auto simp: New_def)

theorem fresh_ids_witness: "\<exists>i. New (Some (replicate 10 CR)) = Some i \<and> Valid i"
  using fresh_ids [of "replicate 10 CR" "replicate 10 CR"] by (simp add: New_def)

end
