(* ===== verification/Utf8.thy ===== *)
theory Utf8
  imports Relay_Prelude
begin

text \<open>
  UTF-8 as Go's \<open>utf8.DecodeRune\<close> reads it, and the coercion \<open>encoding/json\<close> applies to every
  string it writes: a byte that is not part of a well-formed rune becomes U+FFFD. The spool's
  metadata and the history store go through it.
\<close>

definition byte_in :: "nat \<Rightarrow> nat \<Rightarrow> char \<Rightarrow> bool" where
  "byte_in lo hi c \<longleftrightarrow> lo \<le> byte c \<and> byte c \<le> hi"

text \<open>The width of the rune at the head of a string, 0 when it is not well-formed.\<close>

fun rune_width :: "string \<Rightarrow> nat" where
  "rune_width [] = 0"
| "rune_width (a # s) =
     (let x = (byte a :: nat) in
      if x < 128 then 1
      else if 194 \<le> x \<and> x \<le> 223 then
        (case s of b # _ \<Rightarrow> if byte_in 128 191 b then 2 else 0 | _ \<Rightarrow> 0)
      else if 224 \<le> x \<and> x \<le> 239 then
        (case s of b # c # _ \<Rightarrow>
             if byte_in (if x = 224 then 160 else 128) (if x = 237 then 159 else 191) b
                \<and> byte_in 128 191 c then 3 else 0
           | _ \<Rightarrow> 0)
      else if 240 \<le> x \<and> x \<le> 244 then
        (case s of b # c # d # _ \<Rightarrow>
             if byte_in (if x = 240 then 144 else 128) (if x = 244 then 143 else 191) b
                \<and> byte_in 128 191 c \<and> byte_in 128 191 d then 4 else 0
           | _ \<Rightarrow> 0)
      else 0)"

declare rune_width.simps [simp del]

definition rune_error :: string where
  "rune_error = [CHR 0xEF, CHR 0xBF, CHR 0xBD]"

lemma rune_width_le: "rune_width s \<le> length s"
  by (cases s) (auto simp: rune_width.simps Let_def split: list.splits)

function json_string :: "string \<Rightarrow> string" where
  "json_string s =
     (if s = [] then []
      else if rune_width s = 0 then rune_error @ json_string (tl s)
      else take (rune_width s) s @ json_string (drop (rune_width s) s))"
  by pat_completeness auto
termination
  by (relation "measure length") auto

function valid_utf8 :: "string \<Rightarrow> bool" where
  "valid_utf8 s =
     (if s = [] then True
      else if rune_width s = 0 then False
      else valid_utf8 (drop (rune_width s) s))"
  by pat_completeness auto
termination
  by (relation "measure length") auto

declare json_string.simps [simp del] valid_utf8.simps [simp del]

lemma json_string_Nil [simp]: "json_string [] = []"
  by (simp add: json_string.simps)

lemma json_string_bad:
  "s \<noteq> [] \<Longrightarrow> rune_width s = 0 \<Longrightarrow> json_string s = rune_error @ json_string (tl s)"
  by (subst json_string.simps) simp

lemma json_string_good:
  "s \<noteq> [] \<Longrightarrow> rune_width s \<noteq> 0 \<Longrightarrow>
   json_string s = take (rune_width s) s @ json_string (drop (rune_width s) s)"
  by (subst json_string.simps) simp

lemma valid_utf8_Nil [simp]: "valid_utf8 []"
  by (simp add: valid_utf8.simps)

lemma valid_utf8_step:
  "s \<noteq> [] \<Longrightarrow> valid_utf8 s \<longleftrightarrow> rune_width s \<noteq> 0 \<and> valid_utf8 (drop (rune_width s) s)"
  by (subst valid_utf8.simps) simp

lemma rune_width_ascii [simp]: "byte a < (128::nat) \<Longrightarrow> rune_width (a # s) = 1"
  by (simp add: rune_width.simps)

lemma valid_utf8_ascii: "list_all (\<lambda>c. byte c < (128::nat)) s \<Longrightarrow> valid_utf8 s"
  by (induction s) (simp_all add: valid_utf8_step)

text \<open>Induction along the runes of a string.\<close>

lemma rune_induct [case_names Nil bad good]:
  assumes "P []"
    and "\<And>s. s \<noteq> [] \<Longrightarrow> rune_width s = 0 \<Longrightarrow> P (tl s) \<Longrightarrow> P s"
    and "\<And>s. s \<noteq> [] \<Longrightarrow> rune_width s \<noteq> 0 \<Longrightarrow> P (drop (rune_width s) s) \<Longrightarrow> P s"
  shows "P s"
proof (induction s rule: length_induct)
  case (1 s)
  consider "s = []" | "s \<noteq> []" "rune_width s = 0" | "s \<noteq> []" "rune_width s \<noteq> 0" by blast
  then show ?case
  proof cases
    case 2
    then show ?thesis using 1 assms(2) [of s] by simp
  next
    case 3
    then show ?thesis using 1 assms(3) [of s] by simp
  qed (simp add: assms(1))
qed

lemma json_string_valid: "valid_utf8 s \<Longrightarrow> json_string s = s"
proof (induction s rule: rune_induct)
  case (bad s)
  then show ?case using valid_utf8_step [of s] by blast
next
  case (good s)
  then have "json_string (drop (rune_width s) s) = drop (rune_width s) s"
    using valid_utf8_step [of s] by blast
  then show ?case using json_string_good [OF good.hyps(1,2)] by simp
qed simp

lemma json_string_length: "length s \<le> length (json_string s)"
proof (induction s rule: rune_induct)
  case (good s)
  then show ?case using rune_width_le [of s] by (simp add: json_string_good)
qed (simp_all add: json_string_bad rune_error_def)

text \<open>A string survives the coercion exactly when it is well-formed UTF-8.\<close>

lemma json_string_id_valid: "json_string s = s \<Longrightarrow> valid_utf8 s"
proof (induction s rule: rune_induct)
  case (bad s)
  have "length (rune_error @ json_string (tl s)) = 3 + length (json_string (tl s))"
    by (simp add: rune_error_def)
  then have "length s = 3 + length (json_string (tl s))"
    unfolding json_string_bad [OF bad.hyps(1,2), symmetric] bad.prems .
  moreover have "length s - 1 \<le> length (json_string (tl s))" using json_string_length [of "tl s"] by simp
  ultimately show ?case by simp
next
  case (good s)
  have "take (rune_width s) s @ json_string (drop (rune_width s) s) =
        take (rune_width s) s @ drop (rune_width s) s"
    using good.prems json_string_good [OF good.hyps(1,2)] by simp
  then have "json_string (drop (rune_width s) s) = drop (rune_width s) s" by blast
  then show ?case using good by (simp add: valid_utf8_step)
qed simp

lemma json_string_id_iff: "json_string s = s \<longleftrightarrow> valid_utf8 s"
  using json_string_id_valid json_string_valid by blast

end
