(* ===== verification/Spool_Meta.thy ===== *)
theory Spool_Meta
  imports Queue_Id Utf8
begin

text \<open>
  The persisted record of a queued message, \<open>Envelope\<close> and \<open>Meta\<close> of
  \<open>internal/spool/spool.go\<close>, with \<open>normalizeKind\<close>, which settles the message kind against its
  two legacy booleans, and the value that JSON encoding and decoding makes of a record.
\<close>

record envelope =
  envFrom :: string
  envTo :: "string list"
  envOrigin :: string
  envRoute :: string
  envListener :: string
  envRemoteAddr :: string
  envHelo :: string
  envTLS :: bool
  envSize :: int
  envReceived :: instant
  envOriginalFrom :: string
  envKind :: string
  envNotification :: bool
  envCanary :: bool

definition KindClient :: string where "KindClient = ''''"
definition KindNotification :: string where "KindNotification = ''notification''"
definition KindCanary :: string where "KindCanary = ''canary''"

lemmas kinds = KindClient_def KindNotification_def KindCanary_def

definition normalizeKind :: "envelope \<Rightarrow> envelope" where
  "normalizeKind e =
     (let k = (if envKind e \<noteq> '''' then envKind e
               else if envNotification e then KindNotification
               else if envCanary e then KindCanary
               else envKind e)
      in e\<lparr>envKind := k, envNotification := (k = KindNotification), envCanary := (k = KindCanary)\<rparr>)"

record meta =
  mID :: id
  mEnvelope :: envelope
  mAttempts :: int
  mLastError :: string
  mNextAttempt :: instant
  mExpires :: instant

abbreviation mSize :: "meta \<Rightarrow> int" where "mSize m \<equiv> envSize (mEnvelope m)"
abbreviation mRoute :: "meta \<Rightarrow> string" where "mRoute m \<equiv> envRoute (mEnvelope m)"
abbreviation mReceived :: "meta \<Rightarrow> instant" where "mReceived m \<equiv> envReceived (mEnvelope m)"

section \<open>The two spellings of the kind\<close>

definition kind_settled :: "envelope \<Rightarrow> bool" where
  "kind_settled e \<longleftrightarrow>
     envNotification e = (envKind e = KindNotification) \<and> envCanary e = (envKind e = KindCanary)"

lemma normalizeKind_settled [simp]: "kind_settled (normalizeKind e)"
  by (simp add: kind_settled_def normalizeKind_def Let_def)

lemma normalizeKind_id [simp]: "kind_settled e \<Longrightarrow> normalizeKind e = e"
  by (auto simp: kind_settled_def normalizeKind_def Let_def kinds)

lemma normalizeKind_frame [simp]:
  "envFrom (normalizeKind e) = envFrom e" "envTo (normalizeKind e) = envTo e"
  "envOrigin (normalizeKind e) = envOrigin e" "envRoute (normalizeKind e) = envRoute e"
  "envSize (normalizeKind e) = envSize e" "envReceived (normalizeKind e) = envReceived e"
  "envOriginalFrom (normalizeKind e) = envOriginalFrom e"
  by (simp_all add: normalizeKind_def Let_def)

lemma settled_exclusive: "kind_settled e \<Longrightarrow> \<not> (envNotification e \<and> envCanary e)"
  by (auto simp: kind_settled_def kinds)

section \<open>JSON\<close>

text \<open>
  \<open>json_envelope\<close> and \<open>json_meta\<close> are what \<open>json.Unmarshal\<close> reads back from what
  \<open>json.Marshal\<close> wrote: every string has been coerced to UTF-8, the other fields survive.
\<close>

definition json_envelope :: "envelope \<Rightarrow> envelope" where
  "json_envelope e = e\<lparr>envFrom := json_string (envFrom e), envTo := map json_string (envTo e),
     envOrigin := json_string (envOrigin e), envRoute := json_string (envRoute e),
     envListener := json_string (envListener e), envRemoteAddr := json_string (envRemoteAddr e),
     envHelo := json_string (envHelo e), envOriginalFrom := json_string (envOriginalFrom e),
     envKind := json_string (envKind e)\<rparr>"

definition json_meta :: "meta \<Rightarrow> meta" where
  "json_meta m = m\<lparr>mID := json_string (mID m), mEnvelope := json_envelope (mEnvelope m),
     mLastError := json_string (mLastError m)\<rparr>"

definition envelope_utf8 :: "envelope \<Rightarrow> bool" where
  "envelope_utf8 e \<longleftrightarrow> valid_utf8 (envFrom e) \<and> list_all valid_utf8 (envTo e) \<and>
     valid_utf8 (envOrigin e) \<and> valid_utf8 (envRoute e) \<and> valid_utf8 (envListener e) \<and>
     valid_utf8 (envRemoteAddr e) \<and> valid_utf8 (envHelo e) \<and> valid_utf8 (envOriginalFrom e) \<and>
     valid_utf8 (envKind e)"

definition meta_utf8 :: "meta \<Rightarrow> bool" where
  "meta_utf8 m \<longleftrightarrow> valid_utf8 (mID m) \<and> envelope_utf8 (mEnvelope m) \<and> valid_utf8 (mLastError m)"

lemma map_json_id: "map json_string xs = xs \<longleftrightarrow> list_all valid_utf8 xs"
  by (induction xs) (auto simp: json_string_id_iff)

lemma json_envelope_id_iff: "json_envelope e = e \<longleftrightarrow> envelope_utf8 e"
  by (cases e) (auto simp: json_envelope_def envelope_utf8_def json_string_id_iff map_json_id)

lemma json_meta_id_iff: "json_meta m = m \<longleftrightarrow> meta_utf8 m"
  by (cases m) (auto simp: json_meta_def meta_utf8_def json_string_id_iff json_envelope_id_iff)

lemma id_char_ascii: "id_char c \<Longrightarrow> byte c < (128::nat)"
  by (auto simp: id_char_def is_upper_def)

lemma Valid_utf8: "Valid i \<Longrightarrow> valid_utf8 i"
  by (rule valid_utf8_ascii) (auto simp: Valid_def list_all_iff intro: id_char_ascii)

lemma json_meta_ID [simp]: "Valid (mID m) \<Longrightarrow> mID (json_meta m) = mID m"
  by (simp add: json_meta_def json_string_valid Valid_utf8)

lemma json_meta_frame [simp]:
  "envSize (mEnvelope (json_meta m)) = envSize (mEnvelope m)"
  "envReceived (mEnvelope (json_meta m)) = envReceived (mEnvelope m)"
  "mAttempts (json_meta m) = mAttempts m" "mNextAttempt (json_meta m) = mNextAttempt m"
  "mExpires (json_meta m) = mExpires m"
  by (simp_all add: json_meta_def json_envelope_def)

end
