(* ===== verification/Filesys.thy ===== *)
theory Filesys
  imports Spool_Meta
begin

text \<open>
  The part of package \<open>os\<close> the spool uses, over the three spool directories, with every system
  call a fault point. A fault list says for each call in turn whether it works, fails without an
  effect, or is the moment the process dies: from a crash on every call fails and changes nothing,
  so the files are those of the crash and a later \<open>Open\<close> sees exactly them. An empty list is a
  run without faults. Writes are durable when the call returns; a power failure that loses pages
  the kernel has not yet written is not modelled.

  The record is extended by the spool's own state, so a call passes the whole state through and
  \<open>fs_only\<close> says that it touched nothing else.
\<close>

datatype dir = TmpDir | QueueDir | FailedDir

type_synonym path = "dir \<times> string"

datatype content = Bytes string | Json meta

record fnode =
  content :: content
  mtime :: instant

datatype fault = Fine | Fails | Crash

record fsys =
  files :: "path \<rightharpoonup> fnode"
  faults :: "fault list"
  dead :: bool
  clock :: instant

datatype oserr = ENOENT | EEXIST | EIO

datatype spool_err =
    ErrTooLarge | ErrNotFound | ErrQuotaExceeded | ErrBusy | ErrInvalid
  | ErrDiscarded | ErrRand | ErrJson | ErrIdMismatch id id
  | OsErr oserr | ErrRead read_err | ErrJoin spool_err spool_err

definition IsNotExist :: "spool_err \<Rightarrow> bool" where
  "IsNotExist e \<longleftrightarrow> e = OsErr ENOENT"

section \<open>System calls\<close>

definition sys_call :: "'a fsys_scheme \<Rightarrow> bool \<times> 'a fsys_scheme" where
  "sys_call w =
     (if dead w then (False, w)
      else case faults w of
             [] \<Rightarrow> (True, w)
           | Fine # fs \<Rightarrow> (True, w\<lparr>faults := fs\<rparr>)
           | Fails # fs \<Rightarrow> (False, w\<lparr>faults := fs\<rparr>)
           | Crash # fs \<Rightarrow> (False, w\<lparr>faults := fs, dead := True\<rparr>))"

definition os_remove :: "path \<Rightarrow> 'a fsys_scheme \<Rightarrow> spool_err option \<times> 'a fsys_scheme" where
  "os_remove p w =
     (case sys_call w of
        (False, w') \<Rightarrow> (Some (OsErr EIO), w')
      | (True, w') \<Rightarrow>
          if files w' p = None then (Some (OsErr ENOENT), w')
          else (None, w'\<lparr>files := (files w')(p := None)\<rparr>))"

definition os_rename :: "path \<Rightarrow> path \<Rightarrow> 'a fsys_scheme \<Rightarrow> spool_err option \<times> 'a fsys_scheme" where
  "os_rename src dst w =
     (case sys_call w of
        (False, w') \<Rightarrow> (Some (OsErr EIO), w')
      | (True, w') \<Rightarrow>
          (case files w' src of
             None \<Rightarrow> (Some (OsErr ENOENT), w')
           | Some f \<Rightarrow> (None, w'\<lparr>files := (files w')(src := None, dst := Some f)\<rparr>)))"

text \<open>Opening, reading or asking for the attributes of a file: an error, or the file.\<close>

definition os_read :: "path \<Rightarrow> 'a fsys_scheme \<Rightarrow> (spool_err + fnode) \<times> 'a fsys_scheme" where
  "os_read p w =
     (case sys_call w of
        (False, w') \<Rightarrow> (Inl (OsErr EIO), w')
      | (True, w') \<Rightarrow>
          (case files w' p of None \<Rightarrow> (Inl (OsErr ENOENT), w') | Some f \<Rightarrow> (Inr f, w')))"

text \<open>\<open>O_CREATE|O_EXCL\<close>, a write of the whole content, and \<open>Sync\<close>, \<open>Close\<close>, directory sync.\<close>

definition os_create :: "path \<Rightarrow> 'a fsys_scheme \<Rightarrow> spool_err option \<times> 'a fsys_scheme" where
  "os_create p w =
     (case sys_call w of
        (False, w') \<Rightarrow> (Some (OsErr EIO), w')
      | (True, w') \<Rightarrow>
          if files w' p \<noteq> None then (Some (OsErr EEXIST), w')
          else (None, w'\<lparr>files := (files w')(p \<mapsto> \<lparr>content = Bytes [], mtime = clock w'\<rparr>)\<rparr>))"

definition os_write :: "path \<Rightarrow> content \<Rightarrow> 'a fsys_scheme \<Rightarrow> spool_err option \<times> 'a fsys_scheme" where
  "os_write p c w =
     (case sys_call w of
        (False, w') \<Rightarrow> (Some (OsErr EIO), w')
      | (True, w') \<Rightarrow> (None, w'\<lparr>files := (files w')(p \<mapsto> \<lparr>content = c, mtime = clock w'\<rparr>)\<rparr>))"

definition os_sync :: "'a fsys_scheme \<Rightarrow> spool_err option \<times> 'a fsys_scheme" where
  "os_sync w = (case sys_call w of (works, w') \<Rightarrow> (if works then None else Some (OsErr EIO), w'))"

definition content_length :: "content \<Rightarrow> int" where
  "content_length c = (case c of Bytes s \<Rightarrow> int (length s) | Json m \<Rightarrow> 0)"

section \<open>Retrying and creating files\<close>

text \<open>\<open>removeRetry\<close> and \<open>renameRetry\<close>: up to five attempts; a missing file ends the loop.\<close>

fun remove_loop :: "nat \<Rightarrow> spool_err option \<Rightarrow> path \<Rightarrow> 'a fsys_scheme \<Rightarrow> spool_err option \<times> 'a fsys_scheme" where
  "remove_loop 0 err p w = (err, w)"
| "remove_loop (Suc n) err p w =
     (case os_remove p w of
        (None, w') \<Rightarrow> (None, w')
      | (Some e, w') \<Rightarrow> if IsNotExist e then (Some e, w') else remove_loop n (Some e) p w')"

definition removeRetry :: "path \<Rightarrow> 'a fsys_scheme \<Rightarrow> spool_err option \<times> 'a fsys_scheme" where
  "removeRetry p w = remove_loop 5 None p w"

fun rename_loop :: "nat \<Rightarrow> spool_err option \<Rightarrow> path \<Rightarrow> path \<Rightarrow> 'a fsys_scheme \<Rightarrow>
    spool_err option \<times> 'a fsys_scheme" where
  "rename_loop 0 err src dst w = (err, w)"
| "rename_loop (Suc n) err src dst w =
     (case os_rename src dst w of
        (None, w') \<Rightarrow> (None, w')
      | (Some e, w') \<Rightarrow> if IsNotExist e then (Some e, w') else rename_loop n (Some e) src dst w')"

definition renameRetry :: "path \<Rightarrow> path \<Rightarrow> 'a fsys_scheme \<Rightarrow> spool_err option \<times> 'a fsys_scheme" where
  "renameRetry src dst w = rename_loop 5 None src dst w"

text \<open>
  \<open>writeSynced\<close>: create the file fresh, write, sync, close, and remove it again on any failure.
  \<open>c\<close>, \<open>n\<close> and \<open>werr\<close> are what the callback writes, the count it returns and its own error.
\<close>

definition writeSynced ::
  "path \<Rightarrow> content \<Rightarrow> int \<Rightarrow> spool_err option \<Rightarrow> 'a fsys_scheme \<Rightarrow> (spool_err + int) \<times> 'a fsys_scheme" where
  "writeSynced p c n werr w =
     (case os_create p w of
        (Some e, w1) \<Rightarrow> (Inl e, w1)
      | (None, w1) \<Rightarrow>
          (case os_write p c w1 of (e2, w2) \<Rightarrow>
           (let err = (if e2 = None then werr else e2) in
            case (if err = None then os_sync w2 else (err, w2)) of (err3, w3) \<Rightarrow>
            (case os_sync w3 of (cerr, w4) \<Rightarrow>
             (case (if err3 = None then cerr else err3) of
                Some e \<Rightarrow> (case os_remove p w4 of (_, w5) \<Rightarrow> (Inl e, w5))
              | None \<Rightarrow> (Inr n, w4))))))"

fun firstRealError :: "spool_err option list \<Rightarrow> spool_err option" where
  "firstRealError [] = None"
| "firstRealError (None # es) = firstRealError es"
| "firstRealError (Some e # es) = (if IsNotExist e then firstRealError es else Some e)"

section \<open>What a call leaves alone\<close>

definition fs_only :: "'a fsys_scheme \<Rightarrow> 'a fsys_scheme \<Rightarrow> bool" where
  "fs_only w w' \<longleftrightarrow> w' = w\<lparr>files := files w', faults := faults w', dead := dead w'\<rparr>"

lemma fs_only_refl [simp]: "fs_only w w"
  by (simp add: fs_only_def)

lemma fs_only_trans: "fs_only u v \<Longrightarrow> fs_only v w \<Longrightarrow> fs_only u w"
  by (cases u; cases v; cases w) (simp add: fs_only_def)

lemma fs_onlyI [intro]: "w' = w\<lparr>files := F, faults := fl, dead := d\<rparr> \<Longrightarrow> fs_only w w'"
  by (simp add: fs_only_def)

lemma fs_only_clock: "fs_only w w' \<Longrightarrow> clock w' = clock w"
  unfolding fs_only_def by (metis fsys.select_convs(4) fsys.surjective fsys.update_convs(1,2,3))

text \<open>
  The outcome of a call, as the facts the component proofs use. \<open>hits\<close> counts the calls that are
  still to fail.
\<close>

abbreviation hits :: "'a fsys_scheme \<Rightarrow> nat" where
  "hits w \<equiv> count_list (faults w) Fails"

lemma sys_call_cases:
  obtains (works) fl where "sys_call w = (True, w\<lparr>faults := fl\<rparr>)" "\<not> dead w"
      "count_list fl Fails \<le> hits w"
  | (fails) fl d where "sys_call w = (False, w\<lparr>faults := fl, dead := d\<rparr>)" "dead w \<Longrightarrow> d"
      "count_list fl Fails \<le> hits w" "\<not> d \<Longrightarrow> hits w = Suc (count_list fl Fails)"
proof (cases "dead w")
  case True
  then have "sys_call w = (False, w\<lparr>faults := faults w, dead := True\<rparr>)"
    by (simp add: sys_call_def)
  then show ?thesis using fails [where fl = "faults w" and d = True] by simp
next
  case False
  show ?thesis
  proof (cases "faults w")
    case Nil
    then have "sys_call w = (True, w\<lparr>faults := []\<rparr>)" using False by (simp add: sys_call_def)
    then show ?thesis using works False Nil by simp
  next
    case (Cons f fs)
    show ?thesis
    proof (cases f)
      case Fine
      then show ?thesis using works [of fs] False Cons by (simp add: sys_call_def)
    next
      case Fails
      then have "sys_call w = (False, w\<lparr>faults := fs, dead := False\<rparr>)"
        using False Cons by (simp add: sys_call_def)
      then show ?thesis using fails [where fl = fs and d = False] False Cons Fails by simp
    next
      case Crash
      then have "sys_call w = (False, w\<lparr>faults := fs, dead := True\<rparr>)"
        using False Cons by (simp add: sys_call_def)
      then show ?thesis using fails [where fl = fs and d = True] False Cons Crash by simp
    qed
  qed
qed

lemma sys_call_fine [simp]: "faults w = [] \<Longrightarrow> \<not> dead w \<Longrightarrow> sys_call w = (True, w)"
  by (simp add: sys_call_def)

lemma sys_call_dead [simp]: "dead w \<Longrightarrow> sys_call w = (False, w)"
  by (simp add: sys_call_def)

lemma os_remove_cases:
  assumes "os_remove p w = (e, w')"
  obtains (ok) fl where "count_list fl Fails \<le> hits w" "e = None" "w' = w\<lparr>faults := fl, files := (files w)(p := None)\<rparr>"
      "files w p \<noteq> None" "\<not> dead w"
  | (missing) fl where "count_list fl Fails \<le> hits w"
      "e = Some (OsErr ENOENT)" "w' = w\<lparr>faults := fl\<rparr>" "files w p = None" "\<not> dead w"
  | (failed) fl d where "e = Some (OsErr EIO)" "w' = w\<lparr>faults := fl, dead := d\<rparr>" "dead w \<Longrightarrow> d"
      "count_list fl Fails \<le> hits w" "\<not> d \<Longrightarrow> hits w = Suc (count_list fl Fails)"
  using assms
  by (cases w rule: sys_call_cases) (auto simp: os_remove_def split: if_splits)

lemma os_rename_cases:
  assumes "os_rename src dst w = (e, w')"
  obtains (ok) fl f where "count_list fl Fails \<le> hits w" "e = None" "files w src = Some f" "\<not> dead w"
      "w' = w\<lparr>faults := fl, files := (files w)(src := None, dst := Some f)\<rparr>"
  | (missing) fl where "count_list fl Fails \<le> hits w"
      "e = Some (OsErr ENOENT)" "w' = w\<lparr>faults := fl\<rparr>" "files w src = None" "\<not> dead w"
  | (failed) fl d where "e = Some (OsErr EIO)" "w' = w\<lparr>faults := fl, dead := d\<rparr>" "dead w \<Longrightarrow> d"
      "count_list fl Fails \<le> hits w" "\<not> d \<Longrightarrow> hits w = Suc (count_list fl Fails)"
  using assms
  by (cases w rule: sys_call_cases) (auto simp: os_rename_def split: option.splits)

lemma os_read_cases:
  assumes "os_read p w = (r, w')"
  obtains (ok) fl f where "count_list fl Fails \<le> hits w" "r = Inr f" "files w p = Some f" "w' = w\<lparr>faults := fl\<rparr>" "\<not> dead w"
  | (missing) fl where "count_list fl Fails \<le> hits w"
      "r = Inl (OsErr ENOENT)" "files w p = None" "w' = w\<lparr>faults := fl\<rparr>" "\<not> dead w"
  | (failed) fl d where "r = Inl (OsErr EIO)" "w' = w\<lparr>faults := fl, dead := d\<rparr>" "dead w \<Longrightarrow> d"
      "count_list fl Fails \<le> hits w" "\<not> d \<Longrightarrow> hits w = Suc (count_list fl Fails)"
  using assms
  by (cases w rule: sys_call_cases) (auto simp: os_read_def split: option.splits)

lemma os_create_cases:
  assumes "os_create p w = (e, w')"
  obtains (ok) fl where "count_list fl Fails \<le> hits w" "e = None" "files w p = None" "\<not> dead w"
      "w' = w\<lparr>faults := fl, files := (files w)(p \<mapsto> \<lparr>content = Bytes [], mtime = clock w\<rparr>)\<rparr>"
  | (exists) fl where "count_list fl Fails \<le> hits w"
      "e = Some (OsErr EEXIST)" "files w p \<noteq> None" "w' = w\<lparr>faults := fl\<rparr>"
  | (failed) fl d where "e = Some (OsErr EIO)" "w' = w\<lparr>faults := fl, dead := d\<rparr>" "dead w \<Longrightarrow> d"
      "count_list fl Fails \<le> hits w" "\<not> d \<Longrightarrow> hits w = Suc (count_list fl Fails)"
  using assms
  by (cases w rule: sys_call_cases) (auto simp: os_create_def split: if_splits)

lemma os_write_cases:
  assumes "os_write p c w = (e, w')"
  obtains (ok) fl where "count_list fl Fails \<le> hits w" "e = None" "\<not> dead w"
      "w' = w\<lparr>faults := fl, files := (files w)(p \<mapsto> \<lparr>content = c, mtime = clock w\<rparr>)\<rparr>"
  | (failed) fl d where "e = Some (OsErr EIO)" "w' = w\<lparr>faults := fl, dead := d\<rparr>" "dead w \<Longrightarrow> d"
      "count_list fl Fails \<le> hits w" "\<not> d \<Longrightarrow> hits w = Suc (count_list fl Fails)"
  using assms by (cases w rule: sys_call_cases) (auto simp: os_write_def)

lemma os_sync_cases:
  assumes "os_sync w = (e, w')"
  obtains (ok) fl where "count_list fl Fails \<le> hits w" "e = None" "w' = w\<lparr>faults := fl\<rparr>" "\<not> dead w"
  | (failed) fl d where "e = Some (OsErr EIO)" "w' = w\<lparr>faults := fl, dead := d\<rparr>" "dead w \<Longrightarrow> d"
      "count_list fl Fails \<le> hits w" "\<not> d \<Longrightarrow> hits w = Suc (count_list fl Fails)"
  using assms by (cases w rule: sys_call_cases) (auto simp: os_sync_def)

section \<open>Effects on the files\<close>

text \<open>
  \<open>touches P w w'\<close>: only paths in \<open>P\<close> may differ, the rest of the state is the same apart from
  the fault list, and a dead process stays dead with its files frozen.
\<close>

definition touches :: "path set \<Rightarrow> 'a fsys_scheme \<Rightarrow> 'a fsys_scheme \<Rightarrow> bool" where
  "touches P w w' \<longleftrightarrow> fs_only w w' \<and> (\<forall>p. p \<notin> P \<longrightarrow> files w' p = files w p) \<and>
     (dead w \<longrightarrow> dead w' \<and> files w' = files w) \<and> hits w' \<le> hits w"

lemma touches_refl [simp]: "touches P w w"
  by (simp add: touches_def)

lemma touches_trans: "touches P u v \<Longrightarrow> touches Q v w \<Longrightarrow> touches (P \<union> Q) u w"
  unfolding touches_def by (auto intro: fs_only_trans)

lemma touches_mono: "touches P u v \<Longrightarrow> P \<subseteq> Q \<Longrightarrow> touches Q u v"
  unfolding touches_def by auto

lemma touches_chain: "touches P u v \<Longrightarrow> touches P v w \<Longrightarrow> touches P u w"
  using touches_trans [of P u v P w] by simp

lemma touches_other: "touches P w w' \<Longrightarrow> p \<notin> P \<Longrightarrow> files w' p = files w p"
  unfolding touches_def by blast

lemma touches_fs_only: "touches P w w' \<Longrightarrow> fs_only w w'"
  by (simp add: touches_def)

lemma touches_dead: "touches P w w' \<Longrightarrow> dead w \<Longrightarrow> dead w' \<and> files w' = files w"
  by (simp add: touches_def)

lemma touches_hits: "touches P w w' \<Longrightarrow> hits w' \<le> hits w"
  unfolding touches_def by blast

lemma touches_alive: "touches P w w' \<Longrightarrow> \<not> dead w' \<Longrightarrow> \<not> dead w"
  unfolding touches_def by blast

lemma os_remove_touches: "os_remove p w = (e, w') \<Longrightarrow> touches {p} w w'"
  by (erule os_remove_cases) (auto simp: touches_def fs_only_def)

lemma os_rename_touches: "os_rename src dst w = (e, w') \<Longrightarrow> touches {src, dst} w w'"
  by (erule os_rename_cases) (auto simp: touches_def fs_only_def)

lemma os_read_touches: "os_read p w = (r, w') \<Longrightarrow> touches {} w w'"
  by (erule os_read_cases) (auto simp: touches_def fs_only_def)

lemma os_create_touches: "os_create p w = (e, w') \<Longrightarrow> touches {p} w w'"
  by (erule os_create_cases) (auto simp: touches_def fs_only_def)

lemma os_write_touches: "os_write p c w = (e, w') \<Longrightarrow> touches {p} w w'"
  by (erule os_write_cases) (auto simp: touches_def fs_only_def)

lemma os_sync_touches: "os_sync w = (e, w') \<Longrightarrow> touches {} w w'"
  by (erule os_sync_cases) (auto simp: touches_def fs_only_def)

lemmas os_touches = os_remove_touches os_rename_touches os_read_touches os_create_touches
  os_write_touches os_sync_touches

end
