(* ===== verification/Spool_State.thy ===== *)
theory Spool_State
  imports Filesys
begin

text \<open>
  The state of the spool, \<open>Spool\<close>, \<open>failedStore\<close> and \<open>quotaLedger\<close> of \<open>internal/spool\<close>, with the
  operations on their in-memory parts: the two running byte totals kept in step with the two
  indexes, and the quota ledger. The three mutexes guard one operation each, so an operation here
  is one critical section.

  The invariant \<open>spool_inv\<close> says that each running total is the (64-bit) sum over its index and
  that every entry sits under its own valid identifier.
\<close>

record failedEntry =
  feSize :: int
  feAt :: instant

record RouteDepth =
  Queued :: int
  Deferred :: int
  OldestQueued :: instant

record spool = fsys +
  index :: "id \<rightharpoonup> meta"
  leased :: "id set"
  indexBytes :: int
  depthCache :: "(string \<rightharpoonup> RouteDepth) option"
  depthAt :: instant
  depthWindow :: duration
  fIndex :: "id \<rightharpoonup> failedEntry"
  fBytes :: int
  fTtl :: duration
  maxBytes :: int
  warnPercent :: int
  reserved :: int
  wake :: bool

section \<open>Paths\<close>

definition metaPath :: "id \<Rightarrow> path" where "metaPath i = (QueueDir, i @ ''.json'')"
definition dataPath :: "id \<Rightarrow> path" where "dataPath i = (QueueDir, i @ ''.eml'')"
definition failedPath :: "id \<Rightarrow> string \<Rightarrow> path" where "failedPath i ext = (FailedDir, i @ ext)"
definition tmpPath :: "id \<Rightarrow> string \<Rightarrow> path" where "tmpPath i ext = (TmpDir, i @ ext)"

lemmas path_defs = metaPath_def dataPath_def failedPath_def tmpPath_def

lemma append_ext_eq [simp]: "i @ ''.json'' = j @ ''.json'' \<longleftrightarrow> i = j" "i @ ''.eml'' = j @ ''.eml'' \<longleftrightarrow> i = j"
  by simp_all

lemma ext_last: "i @ ''.json'' \<noteq> j @ ''.eml''" "i @ ''.eml'' \<noteq> j @ ''.json''"
  "i @ ''.json'' \<noteq> j @ ''.staged''" "i @ ''.eml'' \<noteq> j @ ''.staged''"
  by (auto dest: arg_cong [where f = last])

lemma path_neq [simp]:
  "metaPath i \<noteq> dataPath j" "dataPath j \<noteq> metaPath i"
  "metaPath i \<noteq> tmpPath j e" "tmpPath j e \<noteq> metaPath i"
  "dataPath i \<noteq> tmpPath j e" "tmpPath j e \<noteq> dataPath i"
  "metaPath i \<noteq> failedPath j e" "failedPath j e \<noteq> metaPath i"
  "dataPath i \<noteq> failedPath j e" "failedPath j e \<noteq> dataPath i"
  "tmpPath i f \<noteq> failedPath j e" "failedPath j e \<noteq> tmpPath i f"
  "failedPath i ''.json'' \<noteq> failedPath j ''.eml''" "failedPath i ''.eml'' \<noteq> failedPath j ''.json''"
  "tmpPath i ''.json'' \<noteq> tmpPath j ''.eml''" "tmpPath i ''.eml'' \<noteq> tmpPath j ''.json''"
  "metaPath i = metaPath j \<longleftrightarrow> i = j" "dataPath i = dataPath j \<longleftrightarrow> i = j"
  "failedPath i e = failedPath j e \<longleftrightarrow> i = j" "tmpPath i e = tmpPath j e \<longleftrightarrow> i = j"
  "failedPath i e = failedPath i f \<longleftrightarrow> e = f" "tmpPath i e = tmpPath i f \<longleftrightarrow> e = f"
  using ext_last [of i j] ext_last [of j i] by (auto simp: path_defs)

section \<open>The live index\<close>

definition putLocked :: "meta \<Rightarrow> spool \<Rightarrow> spool" where
  "putLocked m s =
     (let freed = (case index s (mID m) of Some old \<Rightarrow> i64 (indexBytes s - mSize old)
                                         | None \<Rightarrow> indexBytes s)
      in s\<lparr>index := (index s)(mID m \<mapsto> m), indexBytes := i64 (freed + mSize m)\<rparr>)"

definition dropLocked :: "id \<Rightarrow> spool \<Rightarrow> spool" where
  "dropLocked i s =
     (case index s i of
        Some old \<Rightarrow> s\<lparr>index := (index s)(i := None), indexBytes := i64 (indexBytes s - mSize old)\<rparr>
      | None \<Rightarrow> s)"

definition Len :: "spool \<Rightarrow> nat" where
  "Len s = card (dom (index s))"

section \<open>The mirror of spool/failed\<close>

definition failed_put :: "id \<Rightarrow> failedEntry \<Rightarrow> spool \<Rightarrow> spool" where
  "failed_put i e s =
     (let freed = (case fIndex s i of Some old \<Rightarrow> i64 (fBytes s - feSize old) | None \<Rightarrow> fBytes s)
      in s\<lparr>fIndex := (fIndex s)(i \<mapsto> e), fBytes := i64 (freed + feSize e)\<rparr>)"

definition failed_drop :: "id \<Rightarrow> spool \<Rightarrow> failedEntry option \<times> spool" where
  "failed_drop i s =
     (case fIndex s i of
        Some e \<Rightarrow> (Some e, s\<lparr>fIndex := (fIndex s)(i := None), fBytes := i64 (fBytes s - feSize e)\<rparr>)
      | None \<Rightarrow> (None, s))"

definition failed_has :: "id \<Rightarrow> spool \<Rightarrow> bool" where
  "failed_has i s \<longleftrightarrow> fIndex s i \<noteq> None"

definition failed_occupied :: "spool \<Rightarrow> int" where
  "failed_occupied s = fBytes s"

definition setRetention :: "duration \<Rightarrow> spool \<Rightarrow> spool" where
  "setRetention d s = s\<lparr>fTtl := d\<rparr>"

text \<open>\<open>Has\<close> of the spool: live first, then permanently failed.\<close>

definition Has :: "id \<Rightarrow> spool \<Rightarrow> bool" where
  "Has i s = (if \<not> Valid i then False
              else if index s i \<noteq> None then True
              else failed_has i s)"

section \<open>The quota ledger\<close>

definition gib :: int where "gib = 1024 * 1024 * 1024"

definition quota_set :: "int \<Rightarrow> int \<Rightarrow> spool \<Rightarrow> spool" where
  "quota_set maxGB wp s =
     s\<lparr>warnPercent := wp,
       maxBytes := (if maxGB \<le> 0 then 0
                    else if maxGB > max_int64 div gib then max_int64
                    else i64 (maxGB * gib))\<rparr>"

definition quota_limits :: "spool \<Rightarrow> int \<times> int" where
  "quota_limits s = (maxBytes s, warnPercent s)"

definition quota_reserve :: "int \<Rightarrow> int \<Rightarrow> spool \<Rightarrow> spool_err option \<times> spool" where
  "quota_reserve n occupied s =
     (if maxBytes s > 0 \<and> i64 (i64 (occupied + reserved s) + n) > maxBytes s
      then (Some ErrQuotaExceeded, s)
      else (None, s\<lparr>reserved := i64 (reserved s + n)\<rparr>))"

definition quota_release :: "int \<Rightarrow> spool \<Rightarrow> spool" where
  "quota_release n s = s\<lparr>reserved := i64 (reserved s - n)\<rparr>"

definition liveAndFailedBytes :: "spool \<Rightarrow> int" where
  "liveAndFailedBytes s = i64 (indexBytes s + failed_occupied s)"

definition usedBytes :: "spool \<Rightarrow> int" where
  "usedBytes s = i64 (liveAndFailedBytes s + reserved s)"

definition reserveQuota :: "int \<Rightarrow> spool \<Rightarrow> spool_err option \<times> spool" where
  "reserveQuota n s = quota_reserve n (liveAndFailedBytes s) s"

definition releaseQuota :: "int \<Rightarrow> spool \<Rightarrow> spool" where
  "releaseQuota n s = quota_release n s"

definition QuotaWarning :: "spool \<Rightarrow> int \<times> int \<times> bool" where
  "QuotaWarning s =
     (case quota_limits s of (quota, wp) \<Rightarrow>
        if quota \<le> 0 \<or> wp \<le> 0 then (0, quota, False)
        else (let used = usedBytes s
              in (used, quota, used \<ge> i64 (go_div quota 100 * wp))))"

section \<open>The accounting invariant\<close>

definition index_total :: "(id \<rightharpoonup> meta) \<Rightarrow> int" where
  "index_total f = (\<Sum>i \<in> dom f. mSize (the (f i)))"

definition failed_total :: "(id \<rightharpoonup> failedEntry) \<Rightarrow> int" where
  "failed_total f = (\<Sum>i \<in> dom f. feSize (the (f i)))"

definition entry_ok :: "id \<Rightarrow> meta \<Rightarrow> bool" where
  "entry_ok i m \<longleftrightarrow> mID m = i \<and> Valid i \<and> kind_settled (mEnvelope m)"

definition spool_inv :: "spool \<Rightarrow> bool" where
  "spool_inv s \<longleftrightarrow> finite (dom (index s)) \<and> finite (dom (fIndex s)) \<and>
     indexBytes s = i64 (index_total (index s)) \<and> fBytes s = i64 (failed_total (fIndex s)) \<and>
     (\<forall>i m. index s i = Some m \<longrightarrow> entry_ok i m)"

lemma sum_dom_upd:
  fixes g :: "'a \<Rightarrow> int"
  assumes "finite (dom f)"
  shows "(\<Sum>i \<in> dom (f(k \<mapsto> v)). g (the ((f(k \<mapsto> v)) i))) =
    (\<Sum>i \<in> dom f. g (the (f i))) - (case f k of Some old \<Rightarrow> g old | None \<Rightarrow> 0) + g v"
proof -
  have rest: "(\<Sum>i \<in> dom f - {k}. g (the ((f(k \<mapsto> v)) i))) = (\<Sum>i \<in> dom f - {k}. g (the (f i)))"
    by (rule sum.cong) auto
  have "(\<Sum>i \<in> dom (f(k \<mapsto> v)). g (the ((f(k \<mapsto> v)) i))) = g v + (\<Sum>i \<in> dom f - {k}. g (the (f i)))"
    using assms rest by (simp add: sum.insert_remove)
  moreover have "(\<Sum>i \<in> dom f. g (the (f i))) =
      (case f k of Some old \<Rightarrow> g old | None \<Rightarrow> 0) + (\<Sum>i \<in> dom f - {k}. g (the (f i)))"
    proof (cases "f k")
    case None
    then have "dom f - {k} = dom f" by auto
    then show ?thesis using None by simp
  next
    case (Some old)
    then have "k \<in> dom f" by auto
    then show ?thesis using assms Some by (simp add: sum.remove)
  qed
  ultimately show ?thesis by simp
qed

lemma sum_dom_del:
  fixes g :: "'a \<Rightarrow> int"
  assumes "finite (dom f)" "f k = Some v"
  shows "(\<Sum>i \<in> dom (f(k := None)). g (the ((f(k := None)) i))) = (\<Sum>i \<in> dom f. g (the (f i))) - g v"
proof -
  have "(\<Sum>i \<in> dom f - {k}. g (the ((f(k := None)) i))) = (\<Sum>i \<in> dom f - {k}. g (the (f i)))"
    by (rule sum.cong) auto
  moreover have "(\<Sum>i \<in> dom f. g (the (f i))) = g v + (\<Sum>i \<in> dom f - {k}. g (the (f i)))"
    using assms by (subst sum.remove [of _ k]) auto
  ultimately show ?thesis by simp
qed

lemma putLocked_inv:
  assumes inv: "spool_inv s" and m: "entry_ok (mID m) m"
  shows "spool_inv (putLocked m s)"
proof -
  have "i64 (index_total ((index s)(mID m \<mapsto> m))) = indexBytes (putLocked m s)"
    using inv sum_dom_upd [of "index s" mSize "mID m" m]
    by (cases "index s (mID m)")
      (simp_all add: spool_inv_def putLocked_def index_total_def i64_simps)
  then show ?thesis
    using inv m by (auto simp: spool_inv_def putLocked_def)
qed

lemma dropLocked_inv: "spool_inv s \<Longrightarrow> spool_inv (dropLocked i s)"
  using sum_dom_del [of "index s" i _ mSize]
  by (cases "index s i") (auto simp: spool_inv_def dropLocked_def index_total_def i64_simps)

lemma failed_put_inv: "spool_inv s \<Longrightarrow> spool_inv (failed_put i e s)"
  using sum_dom_upd [of "fIndex s" feSize i e]
  by (cases "fIndex s i") (simp_all add: spool_inv_def failed_put_def failed_total_def i64_simps)

lemma failed_drop_inv: "spool_inv s \<Longrightarrow> spool_inv (snd (failed_drop i s))"
  using sum_dom_del [of "fIndex s" i _ feSize]
  by (cases "fIndex s i") (auto simp: spool_inv_def failed_drop_def failed_total_def i64_simps)

lemmas spool_inv_ops = putLocked_inv dropLocked_inv failed_put_inv failed_drop_inv

end
