(* ===== verification/Go_Heap.thy ===== *)
theory Go_Heap
  imports Relay_Prelude "HOL-Library.Multiset"
begin

text \<open>
  Go's \<open>container/heap\<close> over the slice \<open>newestFirst\<close> of \<open>internal/spool/spool.go\<close>: a binary
  max-heap by an integer key (the \<open>Received\<close> instant), whose root is the newest message kept.
  \<open>heap_up\<close>, \<open>heap_down\<close>, \<open>heap_push\<close>, \<open>heap_pop\<close> and \<open>heap_fix\<close> are the library's loops
  on an array; the lemmas show that each keeps the heap order and the multiset of elements, and
  that the root carries the largest key.
\<close>

definition swap :: "nat \<Rightarrow> nat \<Rightarrow> 'a list \<Rightarrow> 'a list" where
  "swap i j xs = xs[i := xs ! j, j := xs ! i]"

definition parent :: "nat \<Rightarrow> nat" where
  "parent j = (j - 1) div 2"

function heap_up :: "('a \<Rightarrow> int) \<Rightarrow> 'a list \<Rightarrow> nat \<Rightarrow> 'a list" where
  "heap_up key h j =
     (let i = parent j
      in if i = j \<or> \<not> key (h ! j) > key (h ! i) then h
         else heap_up key (swap i j h) i)"
  by pat_completeness auto
termination
  by (relation "measure (\<lambda>(key, h, j). j)") (auto simp: parent_def)

text \<open>The child of \<open>i\<close> that the loop of \<open>down\<close> compares with its parent.\<close>

definition larger_child :: "('a \<Rightarrow> int) \<Rightarrow> 'a list \<Rightarrow> nat \<Rightarrow> nat \<Rightarrow> nat" where
  "larger_child key h i n =
     (let j1 = 2 * i + 1
      in if j1 + 1 < n \<and> key (h ! (j1 + 1)) > key (h ! j1) then j1 + 1 else j1)"

lemma larger_child_bounds: "2 * i + 1 < n \<Longrightarrow> i < larger_child key h i n \<and> larger_child key h i n < n"
  by (simp add: larger_child_def Let_def)

function heap_down :: "('a \<Rightarrow> int) \<Rightarrow> 'a list \<Rightarrow> nat \<Rightarrow> nat \<Rightarrow> 'a list \<times> nat" where
  "heap_down key h i n =
     (let j = larger_child key h i n
      in if 2 * i + 1 \<ge> n \<or> \<not> key (h ! j) > key (h ! i) then (h, i)
         else heap_down key (swap i j h) j n)"
  by pat_completeness auto
termination
proof (relation "measure (\<lambda>(key, h, i, n). n - i)")
  fix key :: "'a \<Rightarrow> int" and h :: "'a list" and i n j
  assume j: "j = larger_child key h i n" and c: "\<not> (n \<le> 2 * i + 1 \<or> \<not> key (h ! i) < key (h ! j))"
  from c larger_child_bounds [of i n key h] j
  show "((key, swap i j h, j, n), key, h, i, n) \<in> measure (\<lambda>(key, h, i, n). n - i)"
    by auto
qed simp

declare heap_up.simps [simp del] heap_down.simps [simp del]

definition heap_push :: "('a \<Rightarrow> int) \<Rightarrow> 'a \<Rightarrow> 'a list \<Rightarrow> 'a list" where
  "heap_push key x h = heap_up key (h @ [x]) (length h)"

definition heap_pop :: "('a \<Rightarrow> int) \<Rightarrow> 'a list \<Rightarrow> 'a \<times> 'a list" where
  "heap_pop key h =
     (let n = length h - 1;
          h' = fst (heap_down key (swap 0 n h) 0 n)
      in (h' ! n, take n h'))"

definition heap_fix :: "('a \<Rightarrow> int) \<Rightarrow> 'a list \<Rightarrow> nat \<Rightarrow> 'a list" where
  "heap_fix key h i =
     (case heap_down key h i (length h) of
        (h', i') \<Rightarrow> if i' > i then h' else heap_up key h' i)"

section \<open>Heap order\<close>

definition heap_ordered :: "('a \<Rightarrow> int) \<Rightarrow> 'a list \<Rightarrow> nat \<Rightarrow> bool" where
  "heap_ordered key h n \<longleftrightarrow>
     n \<le> length h \<and> (\<forall>k. 0 < k \<and> k < n \<longrightarrow> key (h ! k) \<le> key (h ! parent k))"

abbreviation is_heap :: "('a \<Rightarrow> int) \<Rightarrow> 'a list \<Rightarrow> bool" where
  "is_heap key h \<equiv> heap_ordered key h (length h)"

lemma parent_less: "0 < k \<Longrightarrow> parent k < k"
  by (auto simp: parent_def)

lemma parent_eq_self [simp]: "parent j = j \<longleftrightarrow> j = 0"
  by (auto simp: parent_def)

lemma length_swap [simp]: "length (swap i j xs) = length xs"
  by (simp add: swap_def)

lemma nth_swap: "i < length xs \<Longrightarrow> j < length xs \<Longrightarrow>
  swap i j xs ! k = (if k = j then xs ! i else if k = i then xs ! j else xs ! k)"
  by (simp add: swap_def nth_list_update)

lemma mset_swap_eq [simp]: "i < length xs \<Longrightarrow> j < length xs \<Longrightarrow> mset (swap i j xs) = mset xs"
  by (simp add: swap_def mset_swap)

lemma root_is_max: "heap_ordered key h n \<Longrightarrow> k < n \<Longrightarrow> key (h ! k) \<le> key (h ! 0)"
proof (induction k rule: less_induct)
  case (less k)
  show ?case
  proof (cases "k = 0")
    case False
    then have "parent k < k" by (simp add: parent_less)
    moreover have "key (h ! k) \<le> key (h ! parent k)"
      using less.prems False by (simp add: heap_ordered_def)
    ultimately show ?thesis using less.IH [of "parent k"] less.prems by simp
  qed simp
qed

lemma heap_max: "is_heap key h \<Longrightarrow> x \<in> set h \<Longrightarrow> key x \<le> key (h ! 0)"
  by (metis in_set_conv_nth root_is_max)

subsection \<open>Sifting up\<close>

definition up_inv :: "('a \<Rightarrow> int) \<Rightarrow> 'a list \<Rightarrow> nat \<Rightarrow> nat \<Rightarrow> bool" where
  "up_inv key h j n \<longleftrightarrow> n \<le> length h \<and> j < n \<and>
     (\<forall>k. 0 < k \<and> k < n \<and> k \<noteq> j \<longrightarrow> key (h ! k) \<le> key (h ! parent k)) \<and>
     (\<forall>k. 0 < k \<and> k < n \<and> parent k = j \<and> 0 < j \<longrightarrow> key (h ! k) \<le> key (h ! parent j))"

lemma up_inv_step:
  assumes "up_inv key h j n" and "0 < j" and "key (h ! j) > key (h ! parent j)"
  shows "up_inv key (swap (parent j) j h) (parent j) n"
proof -
  let ?p = "parent j" and ?g = "swap (parent j) j h"
  have len: "n \<le> length h" "j < n" and pj: "?p < j"
    using assms by (auto simp: up_inv_def parent_less)
  have ord: "\<And>k. 0 < k \<Longrightarrow> k < n \<Longrightarrow> k \<noteq> j \<Longrightarrow> key (h ! k) \<le> key (h ! parent k)"
    and kids: "\<And>k. 0 < k \<Longrightarrow> k < n \<Longrightarrow> parent k = j \<Longrightarrow> key (h ! k) \<le> key (h ! ?p)"
    using assms by (auto simp: up_inv_def)
  have g: "\<And>k. ?g ! k = (if k = j then h ! ?p else if k = ?p then h ! j else h ! k)"
    using len pj by (simp add: nth_swap)
  have "key (?g ! k) \<le> key (?g ! parent k)" if "0 < k" "k < n" "k \<noteq> ?p" for k
    using that ord [of k] kids [of k] assms(3) parent_less [of k] g pj by auto
  moreover have "key (?g ! k) \<le> key (?g ! parent ?p)" if "0 < k" "k < n" "parent k = ?p" "0 < ?p" for k
    using that ord [of k] ord [of ?p] assms(3) parent_less [of ?p] g pj len by auto
  ultimately show ?thesis using len pj by (simp add: up_inv_def)
qed

lemma heap_up_ordered: "up_inv key h j n \<Longrightarrow> heap_ordered key (heap_up key h j) n"
proof (induction key h j rule: heap_up.induct)
  case (1 key h j)
  show ?case
  proof (cases "j = 0 \<or> \<not> key (h ! j) > key (h ! parent j)")
    case True
    then have "heap_up key h j = h" by (subst heap_up.simps) (auto simp: Let_def)
    moreover have "heap_ordered key h n"
      unfolding heap_ordered_def using True "1.prems" by (metis le_less_linear neq0_conv up_inv_def)
    ultimately show ?thesis by simp
  next
    case False
    then have "heap_up key h j = heap_up key (swap (parent j) j h) (parent j)"
      by (subst heap_up.simps) (simp add: Let_def)
    with False "1.IH" [OF refl] up_inv_step [OF "1.prems"] show ?thesis by simp
  qed
qed

lemma heap_up_mset: "j < length h \<Longrightarrow> mset (heap_up key h j) = mset h"
proof (induction key h j rule: heap_up.induct)
  case (1 key h j)
  then show ?case
    using parent_less [of j] by (subst heap_up.simps) (auto simp: Let_def)
qed

lemma heap_up_length [simp]: "length (heap_up key h j) = length h"
proof (induction key h j rule: heap_up.induct)
  case (1 key h j)
  then show ?case by (subst heap_up.simps) (auto simp: Let_def)
qed

subsection \<open>Sifting down\<close>

definition down_inv :: "('a \<Rightarrow> int) \<Rightarrow> 'a list \<Rightarrow> nat \<Rightarrow> nat \<Rightarrow> bool" where
  "down_inv key h i n \<longleftrightarrow> n \<le> length h \<and>
     (\<forall>k. 0 < k \<and> k < n \<and> parent k \<noteq> i \<longrightarrow> key (h ! k) \<le> key (h ! parent k)) \<and>
     (\<forall>k. 0 < k \<and> k < n \<and> parent k = i \<and> 0 < i \<longrightarrow> key (h ! k) \<le> key (h ! parent i))"

lemma parent_child: "0 < k \<Longrightarrow> parent k = i \<longleftrightarrow> k = 2 * i + 1 \<or> k = 2 * i + 2"
  by (auto simp: parent_def)

lemma down_inv_step:
  assumes inv: "down_inv key h i n" and j: "j < n" "0 < j" "parent j = i"
    and big: "key (h ! j) > key (h ! i)"
    and best: "\<And>k. 0 < k \<Longrightarrow> k < n \<Longrightarrow> parent k = i \<Longrightarrow> key (h ! k) \<le> key (h ! j)"
  shows "down_inv key (swap i j h) j n"
proof -
  let ?g = "swap i j h"
  have ij: "i < j" using j parent_less by blast
  have len: "n \<le> length h" and
    ord: "\<And>k. 0 < k \<Longrightarrow> k < n \<Longrightarrow> parent k \<noteq> i \<Longrightarrow> key (h ! k) \<le> key (h ! parent k)" and
    kids: "\<And>k. 0 < k \<Longrightarrow> k < n \<Longrightarrow> parent k = i \<Longrightarrow> 0 < i \<Longrightarrow> key (h ! k) \<le> key (h ! parent i)"
    using inv by (auto simp: down_inv_def)
  have g: "\<And>k. ?g ! k = (if k = j then h ! i else if k = i then h ! j else h ! k)"
    using len ij j by (simp add: nth_swap)
  have "key (?g ! k) \<le> key (?g ! parent k)" if k: "0 < k" "k < n" "parent k \<noteq> j" for k
  proof (cases "parent k = i")
    case True
    then show ?thesis using k best [of k] big g ij parent_less [of k] by auto
  next
    case False
    show ?thesis
    proof (cases "k = i")
      case True
      then show ?thesis using k kids [of j] j g parent_less [of k] False ij by auto
    next
      case kni: False
      then have "k \<noteq> j" using False j by auto
      then show ?thesis using k False kni ord [of k] g by auto
    qed
  qed
  moreover have "key (?g ! k) \<le> key (?g ! parent j)" if "0 < k" "k < n" "parent k = j" for k
    using that ord [of k] j g parent_less [of k] ij by auto
  ultimately show ?thesis using len by (simp add: down_inv_def)
qed

lemma down_inv_stop:
  assumes "down_inv key h i n"
    and "\<And>k. 0 < k \<Longrightarrow> k < n \<Longrightarrow> parent k = i \<Longrightarrow> key (h ! k) \<le> key (h ! i)"
  shows "heap_ordered key h n"
  unfolding heap_ordered_def using assms by (metis down_inv_def)

lemma heap_down_stop:
  "n \<le> 2 * i + 1 \<or> \<not> key (h ! larger_child key h i n) > key (h ! i) \<Longrightarrow> heap_down key h i n = (h, i)"
  by (subst heap_down.simps) (auto simp: Let_def)

lemma heap_down_go:
  "2 * i + 1 < n \<Longrightarrow> key (h ! larger_child key h i n) > key (h ! i) \<Longrightarrow>
   heap_down key h i n = heap_down key (swap i (larger_child key h i n) h) (larger_child key h i n) n"
  by (subst heap_down.simps) (auto simp: Let_def)

lemma larger_child_best:
  "0 < k \<Longrightarrow> k < n \<Longrightarrow> parent k = i \<Longrightarrow> key (h ! k) \<le> key (h ! larger_child key h i n)"
  by (auto simp: larger_child_def Let_def parent_child)

lemma larger_child_parent: "parent (larger_child key h i n) = i"
  by (simp add: larger_child_def Let_def parent_def)

text \<open>Induction along the loop: where it stops, and where it goes on to the larger child.\<close>

lemma heap_down_induct [case_names stop go]:
  assumes stop: "\<And>h i. n \<le> 2 * i + 1 \<or> \<not> key (h ! larger_child key h i n) > key (h ! i) \<Longrightarrow> P h i"
    and go: "\<And>h i. 2 * i + 1 < n \<Longrightarrow> key (h ! larger_child key h i n) > key (h ! i) \<Longrightarrow>
        P (swap i (larger_child key h i n) h) (larger_child key h i n) \<Longrightarrow> P h i"
  shows "P h i"
proof (induction "n - i" arbitrary: h i rule: less_induct)
  case less
  show ?case
  proof (cases "n \<le> 2 * i + 1 \<or> \<not> key (h ! larger_child key h i n) > key (h ! i)")
    case True
    then show ?thesis by (rule stop)
  next
    case False
    then have "2 * i + 1 < n" "key (h ! larger_child key h i n) > key (h ! i)" by auto
    moreover have "n - larger_child key h i n < n - i"
      using larger_child_bounds [of i n key h] \<open>2 * i + 1 < n\<close> by auto
    ultimately show ?thesis using go less by blast
  qed
qed

lemma heap_down_ordered:
  "down_inv key h i n \<Longrightarrow> heap_ordered key (fst (heap_down key h i n)) n"
proof (induction h i rule: heap_down_induct [of n key])
  case (stop h i)
  have "key (h ! k) \<le> key (h ! i)" if k: "0 < k" "k < n" "parent k = i" for k
  proof -
    from k have "2 * i + 1 < n" by (auto simp: parent_child)
    with stop.hyps have "key (h ! larger_child key h i n) \<le> key (h ! i)" by auto
    with larger_child_best [OF k, of key h] show ?thesis by simp
  qed
  with stop.prems have "heap_ordered key h n" by (rule down_inv_stop)
  then show ?case using stop.hyps by (simp add: heap_down_stop)
next
  case (go h i)
  let ?j = "larger_child key h i n"
  have j: "i < ?j" "?j < n" using go.hyps(1) larger_child_bounds by blast+
  have "down_inv key (swap i ?j h) ?j n"
    by (rule down_inv_step [OF go.prems j(2) _ larger_child_parent go.hyps(2) larger_child_best])
      (use j in simp_all)
  then have "heap_ordered key (fst (heap_down key (swap i ?j h) ?j n)) n" by (rule go.IH)
  then show ?case using go.hyps by (simp add: heap_down_go)
qed

lemma heap_down_mset: "n \<le> length h \<Longrightarrow> mset (fst (heap_down key h i n)) = mset h"
proof (induction h i rule: heap_down_induct [of n key])
  case (go h i)
  then show ?case using larger_child_bounds [of i n key h] by (simp add: heap_down_go)
qed (simp add: heap_down_stop)

lemma heap_down_length [simp]: "length (fst (heap_down key h i n)) = length h"
  by (induction h i rule: heap_down_induct [of n key]) (simp_all add: heap_down_stop heap_down_go)

text \<open>Sifting down inside the first \<open>n\<close> slots leaves the rest of the array alone.\<close>

lemma heap_down_beyond: "n \<le> k \<Longrightarrow> n \<le> length h \<Longrightarrow> fst (heap_down key h i n) ! k = h ! k"
proof (induction h i rule: heap_down_induct [of n key])
  case (go h i)
  then show ?case using larger_child_bounds [of i n key h] by (simp add: heap_down_go nth_swap)
qed (simp add: heap_down_stop)

section \<open>The three operations\<close>

lemma heap_push_is_heap: "is_heap key h \<Longrightarrow> is_heap key (heap_push key x h)"
proof -
  assume h: "is_heap key h"
  have "up_inv key (h @ [x]) (length h) (Suc (length h))"
    using h parent_less by (fastforce simp: up_inv_def heap_ordered_def nth_append parent_def)
  then show ?thesis using heap_up_ordered by (fastforce simp: heap_push_def)
qed

lemma heap_push_mset [simp]: "mset (heap_push key x h) = add_mset x (mset h)"
  by (simp add: heap_push_def heap_up_mset)

lemma heap_push_length [simp]: "length (heap_push key x h) = Suc (length h)"
  by (simp add: heap_push_def)

lemma heap_replace_is_heap:
  assumes "is_heap key h"
  shows "is_heap key (heap_fix key (h[0 := x]) 0)"
proof -
  let ?h = "h[0 := x]"
  have "down_inv key ?h 0 (length h)"
    using assms by (auto simp: down_inv_def heap_ordered_def nth_list_update)
  then have ord: "heap_ordered key (fst (heap_down key ?h 0 (length h))) (length h)"
    by (rule heap_down_ordered)
  have "heap_up key g 0 = g" for g by (subst heap_up.simps) (simp add: Let_def parent_def)
  then have "heap_fix key ?h 0 = fst (heap_down key ?h 0 (length h))"
    by (simp add: heap_fix_def split: prod.split)
  with ord show ?thesis by simp
qed

lemma heap_fix_mset [simp]: "mset (heap_fix key h 0) = mset h"
proof (cases "h = []")
  case True
  then show ?thesis
    by (simp add: heap_fix_def heap_up.simps heap_down.simps parent_def Let_def)
next
  case False
  have up: "heap_up key g 0 = g" for g by (subst heap_up.simps) (simp add: Let_def parent_def)
  have "heap_fix key h 0 = fst (heap_down key h 0 (length h))"
    by (simp add: heap_fix_def up split: prod.split)
  then show ?thesis by (simp add: heap_down_mset)
qed

lemma heap_pop_correct:
  assumes "is_heap key h" and "h \<noteq> []"
  shows "fst (heap_pop key h) = h ! 0" and "is_heap key (snd (heap_pop key h))"
    and "add_mset (h ! 0) (mset (snd (heap_pop key h))) = mset h"
    and "length (snd (heap_pop key h)) = length h - 1"
proof -
  let ?n = "length h - 1" and ?s = "swap 0 (length h - 1) h"
  let ?d = "fst (heap_down key ?s 0 ?n)"
  have n: "?n < length h" using assms(2) by simp
  have top: "?d ! ?n = h ! 0"
    using assms(2) by (cases "?n = 0") (simp_all add: heap_down_beyond nth_swap)
  have "down_inv key ?s 0 ?n"
    using assms n by (auto simp: down_inv_def heap_ordered_def nth_swap parent_def)
  then have ord: "heap_ordered key ?d ?n" by (rule heap_down_ordered)
  have m: "mset ?d = mset h" using n assms(2) by (simp add: heap_down_mset)
  have "?d = take ?n ?d @ [?d ! ?n]"
    using n by (metis heap_down_length length_swap take_Suc_conv_app_nth Suc_pred' assms(2)
        length_greater_0_conv take_all order_refl diff_Suc_1 minus_nat.diff_0 One_nat_def)
  then have split: "mset ?d = add_mset (?d ! ?n) (mset (take ?n ?d))"
    by (metis mset_append union_mset_add_mset_right add.right_neutral mset.simps)
  show "fst (heap_pop key h) = h ! 0" using top by (simp add: heap_pop_def Let_def)
  show "is_heap key (snd (heap_pop key h))"
    using ord parent_less by (force simp: heap_pop_def Let_def heap_ordered_def parent_def)
  show "add_mset (h ! 0) (mset (snd (heap_pop key h))) = mset h"
    using split top m by (simp add: heap_pop_def Let_def)
  show "length (snd (heap_pop key h)) = length h - 1" by (simp add: heap_pop_def Let_def)
qed

section \<open>Keeping the smallest elements in a bounded heap\<close>

text \<open>
  One element offered to a heap that keeps at most \<open>cap\<close> elements, and the heap emptied from
  its root: the two loops \<open>ClaimBatch\<close> runs over the index.
\<close>

definition heap_offer :: "('a \<Rightarrow> int) \<Rightarrow> nat \<Rightarrow> 'a \<Rightarrow> 'a list \<Rightarrow> 'a list" where
  "heap_offer key cap x h =
     (if length h < cap then heap_push key x h
      else if key x < key (h ! 0) then heap_fix key (h[0 := x]) 0
      else h)"

fun heap_drain :: "('a \<Rightarrow> int) \<Rightarrow> nat \<Rightarrow> 'a list \<Rightarrow> 'a list \<Rightarrow> 'a list" where
  "heap_drain key 0 h acc = acc"
| "heap_drain key (Suc n) h acc =
     (case heap_pop key h of (x, h') \<Rightarrow> heap_drain key n h' (x # acc))"

definition keeps_smallest :: "('a \<Rightarrow> int) \<Rightarrow> nat \<Rightarrow> 'a multiset \<Rightarrow> 'a list \<Rightarrow> bool" where
  "keeps_smallest key cap all h \<longleftrightarrow>
     is_heap key h \<and> length h = min cap (size all) \<and>
     (\<exists>rest. all = mset h + rest \<and> (\<forall>x \<in> set h. \<forall>y \<in># rest. key x \<le> key y))"

lemma keeps_smallest_empty: "keeps_smallest key cap {#} []"
  by (simp add: keeps_smallest_def heap_ordered_def)

lemma mset_replace_root: "h \<noteq> [] \<Longrightarrow> add_mset (h ! 0) (mset (h[0 := x])) = add_mset x (mset h)"
  by (cases h) auto

lemma keeps_smallestI:
  "is_heap key h \<Longrightarrow> length h = min cap (size all) \<Longrightarrow> all = mset h + rest \<Longrightarrow>
   \<forall>x \<in> set h. \<forall>y \<in># rest. key x \<le> key y \<Longrightarrow> keeps_smallest key cap all h"
  unfolding keeps_smallest_def by blast

lemma keeps_smallest_offer:
  assumes "keeps_smallest key cap all h" and "0 < cap"
  shows "keeps_smallest key cap (add_mset x all) (heap_offer key cap x h)"
proof -
  obtain rest where h: "is_heap key h" and len: "min cap (size all) = length h"
    and all: "all = mset h + rest" and le: "\<forall>a \<in> set h. \<forall>b \<in># rest. key a \<le> key b"
    using assms(1) unfolding keeps_smallest_def by metis
  have sz: "size all = length h + size rest" using all by simp
  consider (push) "length h < cap" | (replace) "\<not> length h < cap" "key x < key (h ! 0)"
    | (keep) "\<not> length h < cap" "\<not> key x < key (h ! 0)" by blast
  then show ?thesis
  proof cases
    case push
    have "size rest = 0" using push len sz by linarith
    then have "rest = {#}" by simp
    then show ?thesis
      using push len all
      by (intro keeps_smallestI [where rest = "{#}"])
        (simp_all add: heap_offer_def heap_push_is_heap [OF h, unfolded heap_push_length])
  next
    case replace
    let ?g = "heap_fix key (h[0 := x]) 0"
    have ne: "h \<noteq> []" using replace assms(2) by auto
    have g: "mset ?g = mset (h[0 := x])" by simp
    then have lg: "length ?g = length h" by (metis length_list_update size_mset)
    have root: "h ! 0 \<in> set h" using ne by (cases h) auto
    have sub: "set ?g \<subseteq> insert x (set h)"
      using set_update_subset_insert [of h 0 x] mset_eq_setD [OF g] by simp
    have top: "key a \<le> key (h ! 0)" if "a \<in> insert x (set h)" for a
      using that replace heap_max [OF h] by auto
    have "key a \<le> key b" if "a \<in> insert x (set h)" "b \<in># rest" for a b
      using top [OF that(1)] le root that replace(2) by fastforce
    then have ord: "\<forall>a \<in> set ?g. \<forall>b \<in># add_mset (h ! 0) rest. key a \<le> key b"
      using sub top by auto
    have "add_mset x all = mset ?g + add_mset (h ! 0) rest"
      using all g mset_replace_root [OF ne, of x] by simp
    moreover have "heap_offer key cap x h = ?g" using replace by (simp add: heap_offer_def)
    moreover have "length ?g = min cap (size (add_mset x all))"
      using lg len sz replace(1) by simp
    ultimately show ?thesis
      using heap_replace_is_heap [OF h, of x] lg ord by (metis (no_types, lifting) keeps_smallestI)
  next
    case keep
    have "\<forall>a \<in> set h. \<forall>b \<in># add_mset x rest. key a \<le> key b"
      using keep(2) heap_max [OF h] le by fastforce
    moreover have "heap_offer key cap x h = h" using keep by (simp add: heap_offer_def)
    moreover have "length h = min cap (size (add_mset x all))" using keep(1) len sz by simp
    moreover have "add_mset x all = mset h + add_mset x rest" using all by simp
    ultimately show ?thesis using h by (metis keeps_smallestI)
  qed
qed

lemma keeps_smallest_fold:
  "0 < cap \<Longrightarrow> keeps_smallest key cap all h \<Longrightarrow>
   keeps_smallest key cap (all + mset xs) (fold (heap_offer key cap) xs h)"
proof (induction xs arbitrary: all h)
  case (Cons x xs)
  then show ?case using keeps_smallest_offer [OF Cons.prems(2,1), of x] Cons.IH by fastforce
qed simp

lemma heap_drain_correct:
  "is_heap key h \<Longrightarrow> n = length h \<Longrightarrow> sorted (map key acc) \<Longrightarrow>
   \<forall>x \<in> set h. \<forall>y \<in> set acc. key x \<le> key y \<Longrightarrow>
   sorted (map key (heap_drain key n h acc)) \<and> mset (heap_drain key n h acc) = mset h + mset acc"
proof (induction n arbitrary: h acc)
  case (Suc n)
  then have ne: "h \<noteq> []" by auto
  obtain h' where pop: "heap_pop key h = (h ! 0, h')"
    using heap_pop_correct(1) [OF Suc.prems(1) ne] by (metis prod.collapse)
  note c = heap_pop_correct(2-4) [OF Suc.prems(1) ne, unfolded pop snd_conv]
  have sub: "set h' \<subseteq> set h" and top: "h ! 0 \<in> set h"
    using mset_eq_setD [of "h ! 0 # h'" h] c(2) ne by auto
  have acc': "sorted (map key (h ! 0 # acc))" using Suc.prems(3,4) top by simp
  have le': "\<forall>x \<in> set h'. \<forall>y \<in> set (h ! 0 # acc). key x \<le> key y"
    using Suc.prems(4) sub heap_max [OF Suc.prems(1)] by auto
  have n': "n = length h'" using c(3) Suc.prems(2) by simp
  show ?case
    using Suc.IH [OF c(1) n' acc' le'] pop c(2) [symmetric] by simp
qed simp

end
