(* ===== verification/Spool_Queue.thy ===== *)
theory Spool_Queue
  imports Spool_State Go_Heap
begin

text \<open>
  The operations of the live queue, \<open>internal/spool/spool.go\<close> and \<open>Fail\<close> of \<open>failed.go\<close>: staging
  and committing a message, claiming due ones, the four ways a leased message leaves a worker
  (\<open>Defer\<close>, \<open>Release\<close>, \<open>Remove\<close>, \<open>Fail\<close>), and the operator's \<open>Requeue\<close> and \<open>Discard\<close>. Every
  operation is a function of the whole state, its clock and its fault list; the order in which Go
  walks a map is an argument.
\<close>

section \<open>Staging and committing\<close>

text \<open>A body reader is what it delivers and the error, if any, it then ends with.\<close>

type_synonym reader = "string \<times> read_err option"

record staged =
  stPath :: "path option"
  stSize :: int

text \<open>\<open>io.Copy\<close> from an \<open>io.LimitReader\<close>: at the limit the reader is not asked again.\<close>

definition copyLimited :: "int \<Rightarrow> reader \<Rightarrow> reader" where
  "copyLimited lim r = (case r of (bs, e) \<Rightarrow>
     if lim \<le> int (length bs) then (take (nat lim) bs, None) else (bs, e))"

definition Stage :: "string option \<Rightarrow> reader \<Rightarrow> int \<Rightarrow> spool \<Rightarrow> (spool_err + staged) \<times> spool" where
  "Stage rnd body cap s =
     (case New rnd of
        None \<Rightarrow> (Inl ErrRand, s)
      | Some i \<Rightarrow>
          (case (if cap > 0 then copyLimited (i64 (cap + 1)) body else body) of (bs, rerr) \<Rightarrow>
           (let n = int (length bs);
                werr = (case rerr of
                          Some e \<Rightarrow> Some (ErrRead e)
                        | None \<Rightarrow> if cap > 0 \<and> n > cap then Some ErrTooLarge else None)
            in case writeSynced (tmpPath i ''.staged'') (Bytes bs) n werr s of
                 (Inl e, s') \<Rightarrow> (Inl e, s')
               | (Inr n', s') \<Rightarrow> (Inr \<lparr>stPath = Some (tmpPath i ''.staged''), stSize = n'\<rparr>, s'))))"

definition Staged_Discard :: "staged \<Rightarrow> spool \<Rightarrow> staged \<times> spool" where
  "Staged_Discard st s =
     (case stPath st of
        None \<Rightarrow> (st, s)
      | Some p \<Rightarrow> (st\<lparr>stPath := None\<rparr>, snd (os_remove p s)))"

definition writeMeta :: "meta \<Rightarrow> spool \<Rightarrow> spool_err option \<times> meta \<times> spool" where
  "writeMeta m s =
     (if \<not> Valid (mID m) then (Some ErrInvalid, m, s)
      else (let m' = m\<lparr>mEnvelope := normalizeKind (mEnvelope m)\<rparr>;
                tmp = tmpPath (mID m) ''.json''
            in case writeSynced tmp (Json (json_meta m')) 0 None s of
                 (Inl e, s1) \<Rightarrow> (Some e, m', s1)
               | (Inr _, s1) \<Rightarrow>
                   (case os_rename tmp (metaPath (mID m)) s1 of
                      (Some e, s2) \<Rightarrow> (Some e, m', snd (os_remove tmp s2))
                    | (None, s2) \<Rightarrow> (None, m', s2))))"

definition readMetaAt :: "path \<Rightarrow> id \<Rightarrow> spool \<Rightarrow> (spool_err + meta) \<times> spool" where
  "readMetaAt p i s =
     (case os_read p s of
        (Inl e, s1) \<Rightarrow> (Inl e, s1)
      | (Inr f, s1) \<Rightarrow>
          (case content f of
             Bytes _ \<Rightarrow> (Inl ErrJson, s1)
           | Json m \<Rightarrow>
               if mID m \<noteq> i then (Inl (ErrIdMismatch i (mID m)), s1)
               else (Inr (m\<lparr>mEnvelope := normalizeKind (mEnvelope m)\<rparr>), s1)))"

definition readMeta :: "id \<Rightarrow> spool \<Rightarrow> (spool_err + meta) \<times> spool" where
  "readMeta i s = (if \<not> Valid i then (Inl ErrInvalid, s) else readMetaAt (metaPath i) i s)"

definition OpenBody :: "id \<Rightarrow> spool \<Rightarrow> (spool_err + fnode) \<times> spool" where
  "OpenBody i s = (if \<not> Valid i then (Inl ErrInvalid, s) else os_read (dataPath i) s)"

fun content_bytes :: "content \<Rightarrow> string" where
  "content_bytes (Bytes bs) = bs"
| "content_bytes (Json m) = []"

text \<open>\<open>Commit\<close>, from the point where the copy sits complete in the temporary area.\<close>

definition publish :: "meta \<Rightarrow> spool \<Rightarrow> (spool_err + id) \<times> spool" where
  "publish m s =
     (let i = mID m; tmpData = tmpPath i ''.eml'' in
      case os_rename tmpData (dataPath i) s of
        (Some e, s1) \<Rightarrow> (Inl e, snd (os_remove tmpData s1))
      | (None, s1) \<Rightarrow>
          (case writeMeta m s1 of
             (Some e, _, s2) \<Rightarrow> (Inl e, snd (os_remove (dataPath i) s2))
           | (None, m', s2) \<Rightarrow>
               (case os_sync s2 of
                  (Some e, s3) \<Rightarrow>
                    (Inl e, snd (removeRetry (metaPath i) (snd (removeRetry (dataPath i) s3))))
                | (None, s3) \<Rightarrow> (Inr i, (putLocked m' s3)\<lparr>wake := True\<rparr>))))"

definition new_meta :: "id \<Rightarrow> envelope \<Rightarrow> int \<Rightarrow> duration \<Rightarrow> instant \<Rightarrow> meta" where
  "new_meta i env n lifetime now =
     \<lparr>mID = i, mEnvelope = normalizeKind (env\<lparr>envSize := n\<rparr>), mAttempts = 0, mLastError = [],
      mNextAttempt = now, mExpires = now + lifetime\<rparr>"

definition commit_copy ::
  "string option \<Rightarrow> path \<Rightarrow> envelope \<Rightarrow> duration \<Rightarrow> (id \<Rightarrow> string) option \<Rightarrow> spool \<Rightarrow> (spool_err + id) \<times> spool" where
  "commit_copy rnd src env lifetime pfx s =
     (case New rnd of
        None \<Rightarrow> (Inl ErrRand, s)
      | Some i \<Rightarrow>
          (case os_read src s of
             (Inl e, s1) \<Rightarrow> (Inl e, s1)
           | (Inr f, s1) \<Rightarrow>
               (let head = (case pfx of None \<Rightarrow> [] | Some p \<Rightarrow> p i);
                    body = head @ content_bytes (content f)
                in case writeSynced (tmpPath i ''.eml'') (Bytes body) (int (length body)) None s1 of
                     (Inl e, s2) \<Rightarrow> (Inl e, s2)
                   | (Inr n, s2) \<Rightarrow> publish (new_meta i env n lifetime (clock s2)) s2)))"

definition Commit ::
  "string option \<Rightarrow> staged \<Rightarrow> envelope \<Rightarrow> duration \<Rightarrow> (id \<Rightarrow> string) option \<Rightarrow> spool \<Rightarrow> (spool_err + id) \<times> spool" where
  "Commit rnd st env lifetime pfx s =
     (case stPath st of
        None \<Rightarrow> (Inl ErrDiscarded, s)
      | Some src \<Rightarrow>
          (case reserveQuota (stSize st) s of
             (Some e, s1) \<Rightarrow> (Inl e, s1)
           | (None, s1) \<Rightarrow>
               (case commit_copy rnd src env lifetime pfx s1 of
                  (r, s2) \<Rightarrow> (r, releaseQuota (stSize st) s2))))"

definition Enqueue ::
  "string option \<Rightarrow> string option \<Rightarrow> envelope \<Rightarrow> reader \<Rightarrow> int \<Rightarrow> duration \<Rightarrow> spool \<Rightarrow> (spool_err + id) \<times> spool" where
  "Enqueue rnd rnd' env body cap lifetime s =
     (case Stage rnd body cap s of
        (Inl e, s1) \<Rightarrow> (Inl e, s1)
      | (Inr st, s1) \<Rightarrow>
          (case Commit rnd' st env lifetime None s1 of
             (r, s2) \<Rightarrow> (r, snd (Staged_Discard st s2))))"

section \<open>Claiming\<close>

text \<open>\<open>order\<close> is the order in which the range over the index meets its keys.\<close>

definition due :: "instant \<Rightarrow> (string \<Rightarrow> bool) option \<Rightarrow> spool \<Rightarrow> meta \<Rightarrow> bool" where
  "due now skip s m \<longleftrightarrow> \<not> (mID m \<in> leased s \<or> mNextAttempt m > now) \<and>
     \<not> (case skip of None \<Rightarrow> False | Some f \<Rightarrow> f (mRoute m))"

definition ClaimBatch ::
  "id list \<Rightarrow> instant \<Rightarrow> int \<Rightarrow> (string \<Rightarrow> bool) option \<Rightarrow> spool \<Rightarrow> meta list \<times> spool" where
  "ClaimBatch order now cap skip s =
     (if cap \<le> 0 then ([], s)
      else (let ms = map (\<lambda>i. the (index s i)) order;
                h = fold (heap_offer mReceived (nat cap)) (filter (due now skip s) ms) [];
                out = heap_drain mReceived (length h) h []
            in (out, s\<lparr>leased := leased s \<union> mID ` set out\<rparr>)))"

definition Claim :: "id list \<Rightarrow> instant \<Rightarrow> spool \<Rightarrow> meta option \<times> spool" where
  "Claim order now s =
     (case ClaimBatch order now 1 None s of
        ([], s') \<Rightarrow> (None, s')
      | (m # _, s') \<Rightarrow> (Some m, s'))"

section \<open>How a leased message leaves a worker\<close>

definition Defer :: "meta \<Rightarrow> instant \<Rightarrow> spool \<Rightarrow> spool" where
  "Defer m until s =
     (let s1 = (case index s (mID m) of
                  Some cur \<Rightarrow> s\<lparr>index := (index s)(mID m \<mapsto> cur\<lparr>mNextAttempt := until\<rparr>)\<rparr>
                | None \<Rightarrow> s)
      in s1\<lparr>leased := leased s1 - {mID m}\<rparr>)"

definition releaseRetryDelay :: duration where "releaseRetryDelay = minute"

definition Release :: "meta \<Rightarrow> spool \<Rightarrow> spool_err option \<times> spool" where
  "Release m s =
     (case writeMeta m s of (err, m', s1) \<Rightarrow>
      (let floor = clock s1 + releaseRetryDelay;
           c = (if err \<noteq> None \<and> mNextAttempt m' < floor then m'\<lparr>mNextAttempt := floor\<rparr> else m');
           s2 = putLocked c s1
       in (err, s2\<lparr>leased := leased s2 - {mID m}\<rparr>)))"

definition Remove :: "id \<Rightarrow> spool \<Rightarrow> spool_err option \<times> spool" where
  "Remove i s =
     (if \<not> Valid i then (Some ErrInvalid, s)
      else (let s1 = dropLocked i s; s2 = s1\<lparr>leased := leased s1 - {i}\<rparr> in
            case removeRetry (dataPath i) s2 of (dataErr, s3) \<Rightarrow>
            (case removeRetry (metaPath i) s3 of (metaErr, s4) \<Rightarrow>
             (case firstRealError [dataErr, metaErr] of
                Some e \<Rightarrow> (Some e, s4)
              | None \<Rightarrow> os_sync s4))))"

text \<open>One turn of the loop of \<open>Fail\<close>: a failed move is recorded, not returned.\<close>

definition fail_move :: "path \<Rightarrow> path \<Rightarrow> spool_err option \<Rightarrow> spool \<Rightarrow> spool_err option \<times> spool" where
  "fail_move src dst moveErr s =
     (case renameRetry src dst s of (e, s') \<Rightarrow>
       ((case e of
           Some err \<Rightarrow> if \<not> IsNotExist err \<and> moveErr = None then Some err else moveErr
         | None \<Rightarrow> moveErr), s'))"

definition Fail :: "meta \<Rightarrow> string \<Rightarrow> spool \<Rightarrow> spool_err option \<times> spool" where
  "Fail m0 reason s =
     (case writeMeta (m0\<lparr>mLastError := reason\<rparr>) s of (_, m, s1) \<Rightarrow>
      (let i = mID m; s2 = dropLocked i s1; s3 = s2\<lparr>leased := leased s2 - {i}\<rparr> in
       case fail_move (metaPath i) (failedPath i ''.json'') None s3 of (moveErr, s4) \<Rightarrow>
       (case os_read (dataPath i) s4 of (st, s5) \<Rightarrow>
        (let onDisk = (case st of Inr f \<Rightarrow> content_length (content f) | Inl _ \<Rightarrow> 0) in
         case fail_move (dataPath i) (failedPath i ''.eml'') moveErr s5 of (moveErr', s6) \<Rightarrow>
         (let s7 = failed_put i \<lparr>feSize = onDisk, feAt = clock s6\<rparr> s6 in
          case moveErr' of Some e \<Rightarrow> (Some e, s7) | None \<Rightarrow> os_sync s7)))))"

section \<open>Queue depth\<close>

definition zero_depth :: RouteDepth where
  "zero_depth = \<lparr>Queued = 0, Deferred = 0, OldestQueued = 0\<rparr>"

definition depth_step ::
  "spool \<Rightarrow> instant \<Rightarrow> id \<Rightarrow> (string \<rightharpoonup> RouteDepth) \<Rightarrow> (string \<rightharpoonup> RouteDepth)" where
  "depth_step s now i out =
     (let m = the (index s i);
          d = (case out (mRoute m) of Some d \<Rightarrow> d | None \<Rightarrow> zero_depth);
          d' = (if i \<notin> leased s \<and> mNextAttempt m > now then d\<lparr>Deferred := Deferred d + 1\<rparr>
                else (let q = d\<lparr>Queued := Queued d + 1\<rparr> in
                      if OldestQueued q = 0 \<or> mReceived m < OldestQueued q
                      then q\<lparr>OldestQueued := mReceived m\<rparr> else q))
      in out(mRoute m \<mapsto> d'))"

definition depthCacheFloor :: duration where "depthCacheFloor = second"
definition depthScanBudget :: int where "depthScanBudget = 20"

text \<open>\<open>elapsed\<close> is how long the scan took by the process clock.\<close>

definition QueueDepth ::
  "id list \<Rightarrow> instant \<Rightarrow> duration \<Rightarrow> spool \<Rightarrow> (string \<rightharpoonup> RouteDepth) \<times> spool" where
  "QueueDepth order now elapsed s =
     (let age = time_sub now (depthAt s);
          fresh = (let out = fold (depth_step s now) order (\<lambda>_. None);
                       w = i64 (depthScanBudget * elapsed);
                       window = (if w < depthCacheFloor then depthCacheFloor else w)
                   in (out, s\<lparr>depthCache := Some out, depthAt := now, depthWindow := window\<rparr>))
      in case depthCache s of
           Some c \<Rightarrow> if age \<ge> 0 \<and> age < depthWindow s then (c, s) else fresh
         | None \<Rightarrow> fresh)"

section \<open>The operator's actions\<close>

definition tryLease :: "id \<Rightarrow> spool \<Rightarrow> spool_err option \<times> spool" where
  "tryLease i s = (if i \<in> leased s then (Some ErrBusy, s) else (None, s\<lparr>leased := insert i (leased s)\<rparr>))"

definition dropLease :: "id \<Rightarrow> spool \<Rightarrow> spool" where
  "dropLease i s = s\<lparr>leased := leased s - {i}\<rparr>"

definition reset_meta :: "meta \<Rightarrow> instant \<Rightarrow> meta" where
  "reset_meta m now = m\<lparr>mAttempts := 0, mNextAttempt := now, mLastError := []\<rparr>"

definition requeueLive :: "meta \<Rightarrow> spool \<Rightarrow> spool_err option \<times> spool" where
  "requeueLive m s =
     (case writeMeta (reset_meta m (clock s)) s of
        (Some e, _, s1) \<Rightarrow> (Some e, s1)
      | (None, m', s1) \<Rightarrow> (None, putLocked m' s1))"

definition requeueFailed :: "id \<Rightarrow> spool \<Rightarrow> spool_err option \<times> spool" where
  "requeueFailed i s =
     (let failedMeta = failedPath i ''.json''; failedBody = failedPath i ''.eml'' in
      case readMetaAt failedMeta i s of
        (Inl e, s1) \<Rightarrow> (Some (if IsNotExist e then ErrNotFound else e), s1)
      | (Inr m0, s1) \<Rightarrow>
          (case renameRetry failedBody (dataPath i) s1 of
             (Some e, s2) \<Rightarrow> (Some e, s2)
           | (None, s2) \<Rightarrow>
               (case writeMeta (reset_meta m0 (clock s1)) s2 of
                  (Some e, _, s3) \<Rightarrow>
                    (case renameRetry (dataPath i) failedBody s3 of
                       (Some rerr, s4) \<Rightarrow> (Some (ErrJoin e rerr), s4)
                     | (None, s4) \<Rightarrow> (Some e, s4))
                | (None, m, s3) \<Rightarrow>
                    (case os_remove failedMeta s3 of (rm, s4) \<Rightarrow>
                     (case firstRealError [rm] of
                        Some e \<Rightarrow> (Some e, s4)
                      | None \<Rightarrow>
                          (case os_sync s4 of
                             (Some e, s5) \<Rightarrow> (Some e, s5)
                           | (None, s5) \<Rightarrow>
                               (case os_sync s5 of
                                  (Some e, s6) \<Rightarrow> (Some e, s6)
                                | (None, s6) \<Rightarrow> (None, snd (failed_drop i (putLocked m s6))))))))))"

text \<open>
  \<open>committed\<close> is the caller's hook, run on its own state \<open>j\<close>; it is given the spool as it is at
  that moment, so that a property can speak about it.
\<close>

definition Requeue ::
  "id \<Rightarrow> (spool \<Rightarrow> 'j \<Rightarrow> 'j) option \<Rightarrow> spool \<Rightarrow> 'j \<Rightarrow> spool_err option \<times> spool \<times> 'j" where
  "Requeue i committed s j =
     (if \<not> Valid i then (Some ErrInvalid, s, j)
      else case tryLease i s of
             (Some e, s1) \<Rightarrow> (Some e, s1, j)
           | (None, s1) \<Rightarrow>
               (case (case index s1 i of Some cur \<Rightarrow> requeueLive cur s1 | None \<Rightarrow> requeueFailed i s1) of
                  (Some e, s2) \<Rightarrow> (Some e, dropLease i s2, j)
                | (None, s2) \<Rightarrow>
                    (None, dropLease i s2, (case committed of Some f \<Rightarrow> f s2 j | None \<Rightarrow> j))))"

definition removeOne :: "path \<Rightarrow> bool \<times> spool_err option \<times> spool \<Rightarrow> bool \<times> spool_err option \<times> spool" where
  "removeOne p acc = (case acc of (removed, failure, s) \<Rightarrow>
     case removeRetry p s of
       (None, s') \<Rightarrow> (True, failure, s')
     | (Some e, s') \<Rightarrow> (removed, if \<not> IsNotExist e \<and> failure = None then Some e else failure, s'))"

definition Discard :: "id \<Rightarrow> spool \<Rightarrow> spool_err option \<times> spool" where
  "Discard i s =
     (if \<not> Valid i then (Some ErrInvalid, s)
      else case tryLease i s of
             (Some e, s1) \<Rightarrow> (Some e, s1)
           | (None, s1) \<Rightarrow>
               (case removeOne (failedPath i ''.json'') (removeOne (failedPath i ''.eml'')
                      (removeOne (metaPath i) (removeOne (dataPath i) (False, None, s1)))) of
                  (removed, Some e, s2) \<Rightarrow> (Some e, dropLease i s2)
                | (removed, None, s2) \<Rightarrow>
                    (let s3 = snd (failed_drop i (dropLocked i s2)) in
                     if \<not> removed then (Some ErrNotFound, dropLease i s3)
                     else (case os_sync s3 of
                             (Some e, s4) \<Rightarrow> (Some e, dropLease i s4)
                           | (None, s4) \<Rightarrow>
                               (case os_sync s4 of (e, s5) \<Rightarrow> (e, dropLease i s5))))))"

end
