(* ===== verification/Spool_Frames.thy ===== *)
theory Spool_Frames
  imports Spool_Queue
begin

text \<open>
  What the operations of the spool leave alone. Every file operation only touches the paths it
  names (\<open>touches\<close>), so the in-memory part of the spool passes through it unchanged; the
  operations on the index then keep the accounting invariant \<open>spool_inv\<close>. The collection
  \<open>inv_intros\<close> carries the preservation proofs.
\<close>

named_theorems inv_dest \<open>preservation of the accounting invariant\<close>
named_theorems keeps_index \<open>operations that leave both indexes, the leases and the ledger alone\<close>

section \<open>Paths touched\<close>

lemma remove_loop_touches: "remove_loop n err p w = (e, w') \<Longrightarrow> touches {p} w w'"
proof (induction n arbitrary: err w)
  case (Suc n)
  obtain e1 w1 where c: "os_remove p w = (e1, w1)" by fastforce
  from os_remove_touches [OF c] Suc c show ?case
    by (auto split: option.splits if_splits intro: touches_chain)
qed simp

lemma removeRetry_touches: "removeRetry p w = (e, w') \<Longrightarrow> touches {p} w w'"
  unfolding removeRetry_def by (rule remove_loop_touches)

lemma rename_loop_touches: "rename_loop n err src dst w = (e, w') \<Longrightarrow> touches {src, dst} w w'"
proof (induction n arbitrary: err w)
  case (Suc n)
  obtain e1 w1 where c: "os_rename src dst w = (e1, w1)" by fastforce
  from os_rename_touches [OF c] Suc c show ?case
    by (auto split: option.splits if_splits intro: touches_chain)
qed simp

lemma renameRetry_touches: "renameRetry src dst w = (e, w') \<Longrightarrow> touches {src, dst} w w'"
  unfolding renameRetry_def by (rule rename_loop_touches)

lemma os_sync_touches_any: "os_sync w = (e, w') \<Longrightarrow> touches P w w'"
  by (rule touches_mono [OF os_sync_touches]) auto

lemma writeSynced_touches:
  assumes "writeSynced p c n werr w = (r, w')"
  shows "touches {p} w w'"
proof -
  obtain e1 w1 where c1: "os_create p w = (e1, w1)" by fastforce
  obtain e2 w2 where c2: "os_write p c w1 = (e2, w2)" by fastforce
  obtain e3 w3 where c3: "(if (if e2 = None then werr else e2) = None then os_sync w2
      else (if e2 = None then werr else e2, w2)) = (e3, w3)" by fastforce
  obtain e4 w4 where c4: "os_sync w3 = (e4, w4)" by fastforce
  obtain e5 w5 where c5: "os_remove p w4 = (e5, w5)" by fastforce
  have t1: "touches {p} w w1" by (rule os_create_touches [OF c1])
  have t2: "touches {p} w1 w2" by (rule os_write_touches [OF c2])
  have t3: "touches {p} w2 w3" using c3 by (auto split: if_splits intro: os_sync_touches_any)
  have t4: "touches {p} w3 w4" by (rule os_sync_touches_any [OF c4])
  have t5: "touches {p} w4 w5" by (rule os_remove_touches [OF c5])
  have t14: "touches {p} w w4" using t1 t2 t3 t4 by (blast intro: touches_chain)
  show ?thesis
    using assms t1 t14 touches_chain [OF t14 t5] c1 c2 c3 c4 c5
    by (auto simp: writeSynced_def Let_def split: option.splits prod.splits)
qed

lemma writeMeta_touches:
  assumes "writeMeta m s = (e, m', s')"
  shows "touches {tmpPath (mID m) ''.json'', metaPath (mID m)} s s'"
proof (cases "Valid (mID m)")
  case True
  let ?t = "tmpPath (mID m) ''.json''" and ?p = "metaPath (mID m)"
  let ?m = "m\<lparr>mEnvelope := normalizeKind (mEnvelope m)\<rparr>"
  obtain r1 s1 where c1: "writeSynced ?t (Json (json_meta ?m)) 0 None s = (r1, s1)" by fastforce
  obtain r2 s2 where c2: "os_rename ?t ?p s1 = (r2, s2)" by fastforce
  obtain r3 s3 where c3: "os_remove ?t s2 = (r3, s3)" by fastforce
  have t1: "touches {?t, ?p} s s1" by (rule touches_mono [OF writeSynced_touches [OF c1]]) auto
  have t2: "touches {?t, ?p} s1 s2" by (rule os_rename_touches [OF c2])
  have t3: "touches {?t, ?p} s2 s3" by (rule touches_mono [OF os_remove_touches [OF c3]]) auto
  show ?thesis
    using assms True c1 c2 c3 t1 touches_chain [OF t1 t2] touches_chain [OF touches_chain [OF t1 t2] t3]
    by (auto simp: writeMeta_def Let_def split: sum.splits option.splits)
qed (use assms in \<open>simp add: writeMeta_def\<close>)

lemma readMetaAt_touches: "readMetaAt p i s = (r, s') \<Longrightarrow> touches {} s s'"
  by (auto simp: readMetaAt_def split: prod.splits sum.splits content.splits if_splits
      dest: os_read_touches)

lemma fail_move_touches: "fail_move src dst e s = (r, s') \<Longrightarrow> touches {src, dst} s s'"
  by (auto simp: fail_move_def split: prod.splits dest: renameRetry_touches)

lemmas op_touches = os_touches removeRetry_touches renameRetry_touches writeSynced_touches
  writeMeta_touches readMetaAt_touches fail_move_touches

section \<open>The memory passes through a file operation\<close>

lemma fs_only_spool:
  fixes s s' :: spool
  assumes "fs_only s s'"
  shows "index s' = index s \<and> leased s' = leased s \<and> indexBytes s' = indexBytes s \<and>
    fIndex s' = fIndex s \<and> fBytes s' = fBytes s \<and> maxBytes s' = maxBytes s \<and>
    warnPercent s' = warnPercent s \<and> reserved s' = reserved s \<and> wake s' = wake s \<and>
    depthCache s' = depthCache s \<and> fTtl s' = fTtl s \<and> clock s' = clock s"
proof -
  obtain F fl d where "s' = s\<lparr>files := F, faults := fl, dead := d\<rparr>"
    using assms by (auto simp: fs_only_def)
  then show ?thesis by simp
qed

definition same_memory :: "spool \<Rightarrow> spool \<Rightarrow> bool" where
  "same_memory s s' \<longleftrightarrow> index s' = index s \<and> leased s' = leased s \<and> indexBytes s' = indexBytes s \<and>
    fIndex s' = fIndex s \<and> fBytes s' = fBytes s \<and> maxBytes s' = maxBytes s \<and>
    reserved s' = reserved s \<and> clock s' = clock s"

lemma touches_memory: "touches P s s' \<Longrightarrow> same_memory s s'"
  by (drule touches_fs_only, drule fs_only_spool) (simp add: same_memory_def)

lemma same_memory_refl [simp]: "same_memory s s"
  by (simp add: same_memory_def)

lemma same_memory_trans: "same_memory s t \<Longrightarrow> same_memory t u \<Longrightarrow> same_memory s u"
  by (simp add: same_memory_def)

lemma same_memory_inv: "same_memory s s' \<Longrightarrow> spool_inv s' \<longleftrightarrow> spool_inv s"
  by (simp add: same_memory_def spool_inv_def)

lemma op_memory [keeps_index]:
  fixes s :: spool
  shows "os_remove p s = (e, s') \<Longrightarrow> same_memory s s'"
    and "os_rename p q s = (e, s') \<Longrightarrow> same_memory s s'"
    and "os_read p s = (r, s') \<Longrightarrow> same_memory s s'"
    and "os_sync s = (e, s') \<Longrightarrow> same_memory s s'"
    and "removeRetry p s = (e, s') \<Longrightarrow> same_memory s s'"
    and "renameRetry p q s = (e, s') \<Longrightarrow> same_memory s s'"
    and "writeSynced p c n we s = (w, s') \<Longrightarrow> same_memory s s'"
    and "writeMeta m s = (e, m', s') \<Longrightarrow> same_memory s s'"
    and "readMetaAt p i s = (x, s') \<Longrightarrow> same_memory s s'"
    and "fail_move p q e0 s = (e, s') \<Longrightarrow> same_memory s s'"
  by (erule touches_memory [OF op_touches(1)] touches_memory [OF op_touches(2)]
      touches_memory [OF op_touches(3)] touches_memory [OF op_touches(6)]
      touches_memory [OF removeRetry_touches] touches_memory [OF renameRetry_touches]
      touches_memory [OF writeSynced_touches] touches_memory [OF writeMeta_touches]
      touches_memory [OF readMetaAt_touches] touches_memory [OF fail_move_touches])+

lemma same_memory_snd [simp]:
  fixes s :: spool
  shows "same_memory s (snd (os_remove p s))" "same_memory s (snd (removeRetry p s))"
  using op_memory(1,5) by (metis prod.collapse)+

lemma writeMeta_result:
  "writeMeta m s = (e, m', s') \<Longrightarrow> Valid (mID m) \<Longrightarrow>
   m' = m\<lparr>mEnvelope := normalizeKind (mEnvelope m)\<rparr>"
  by (auto simp: writeMeta_def Let_def split: prod.splits sum.splits option.splits)

lemma writeMeta_entry:
  "writeMeta m s = (e, m', s') \<Longrightarrow> Valid (mID m) \<Longrightarrow> entry_ok (mID m) m' \<and> mID m' = mID m"
  by (drule (1) writeMeta_result) (simp add: entry_ok_def)

lemma writeMeta_mID: "writeMeta m s = (e, m', s') \<Longrightarrow> mID m' = mID m"
  by (auto simp: writeMeta_def Let_def split: prod.splits sum.splits option.splits if_splits)

lemma writeMeta_ok_Valid: "writeMeta m s = (None, m', s') \<Longrightarrow> Valid (mID m)"
  by (auto simp: writeMeta_def split: if_splits)

lemma readMetaAt_entry: "readMetaAt p i s = (Inr m, s') \<Longrightarrow> Valid i \<Longrightarrow> entry_ok i m"
  by (auto simp: readMetaAt_def entry_ok_def split: prod.splits sum.splits content.splits if_splits)

lemma index_ops_frame [simp]:
  "files (putLocked m s) = files s" "files (dropLocked i s) = files s"
  "files (failed_put i e s) = files s" "files (snd (failed_drop i s)) = files s"
  "faults (putLocked m s) = faults s" "faults (dropLocked i s) = faults s"
  "faults (failed_put i e s) = faults s" "faults (snd (failed_drop i s)) = faults s"
  "dead (putLocked m s) = dead s" "dead (dropLocked i s) = dead s"
  "dead (failed_put i e s) = dead s" "dead (snd (failed_drop i s)) = dead s"
  "clock (putLocked m s) = clock s" "clock (dropLocked i s) = clock s"
  "clock (failed_put i e s) = clock s" "clock (snd (failed_drop i s)) = clock s"
  "leased (putLocked m s) = leased s" "leased (dropLocked i s) = leased s"
  "leased (failed_put i e s) = leased s" "leased (snd (failed_drop i s)) = leased s"
  "fIndex (putLocked m s) = fIndex s" "fIndex (dropLocked i s) = fIndex s"
  "fBytes (putLocked m s) = fBytes s" "fBytes (dropLocked i s) = fBytes s"
  "index (failed_put i e s) = index s" "index (snd (failed_drop i s)) = index s"
  "indexBytes (failed_put i e s) = indexBytes s" "indexBytes (snd (failed_drop i s)) = indexBytes s"
  "reserved (putLocked m s) = reserved s" "reserved (dropLocked i s) = reserved s"
  "reserved (failed_put i e s) = reserved s" "reserved (snd (failed_drop i s)) = reserved s"
  "maxBytes (putLocked m s) = maxBytes s" "maxBytes (dropLocked i s) = maxBytes s"
  "maxBytes (failed_put i e s) = maxBytes s" "maxBytes (snd (failed_drop i s)) = maxBytes s"
  by (simp_all add: putLocked_def dropLocked_def failed_put_def failed_drop_def Let_def
      split: option.split)

lemma index_ops_index [simp]:
  "index (putLocked m s) = (index s)(mID m \<mapsto> m)"
  "index (dropLocked i s) = (index s)(i := None)"
  "fIndex (failed_put i e s) = (fIndex s)(i \<mapsto> e)"
  "fIndex (snd (failed_drop i s)) = (fIndex s)(i := None)"
  by (auto simp: putLocked_def dropLocked_def failed_put_def failed_drop_def Let_def fun_eq_iff
      split: option.split)

section \<open>The accounting invariant\<close>

lemma spool_inv_upd [simp]:
  "spool_inv (s\<lparr>leased := L\<rparr>) = spool_inv s" "spool_inv (s\<lparr>wake := b\<rparr>) = spool_inv s"
  "spool_inv (s\<lparr>reserved := r\<rparr>) = spool_inv s" "spool_inv (s\<lparr>fTtl := d\<rparr>) = spool_inv s"
  "spool_inv (s\<lparr>maxBytes := mb\<rparr>) = spool_inv s" "spool_inv (s\<lparr>warnPercent := wp\<rparr>) = spool_inv s"
  "spool_inv (s\<lparr>clock := t\<rparr>) = spool_inv s" "spool_inv (s\<lparr>faults := fl\<rparr>) = spool_inv s"
  "spool_inv (s\<lparr>depthCache := c, depthAt := t, depthWindow := d\<rparr>) = spool_inv s"
  by (simp_all add: spool_inv_def)

lemma entry_ok_time [simp]: "entry_ok i (m\<lparr>mNextAttempt := t\<rparr>) = entry_ok i m"
  by (simp add: entry_ok_def)

lemma fs_inv [inv_dest]:
  fixes s :: spool
  shows "os_remove p s = (e, s') \<Longrightarrow> spool_inv s' = spool_inv s"
    and "os_rename p q s = (e, s') \<Longrightarrow> spool_inv s' = spool_inv s"
    and "os_read p s = (r, s') \<Longrightarrow> spool_inv s' = spool_inv s"
    and "os_sync s = (e, s') \<Longrightarrow> spool_inv s' = spool_inv s"
    and "removeRetry p s = (e, s') \<Longrightarrow> spool_inv s' = spool_inv s"
    and "renameRetry p q s = (e, s') \<Longrightarrow> spool_inv s' = spool_inv s"
    and "writeSynced p c n we s = (w, s') \<Longrightarrow> spool_inv s' = spool_inv s"
    and "fail_move p q e0 s = (e, s') \<Longrightarrow> spool_inv s' = spool_inv s"
  by (rule same_memory_inv; erule op_memory)+

lemma writeMeta_inv [inv_dest]:
  "writeMeta m s = (e, m', s') \<Longrightarrow> spool_inv s' = spool_inv s \<and> mID m' = mID m \<and>
    (Valid (mID m) \<longrightarrow> entry_ok (mID m) m') \<and> (e = None \<longrightarrow> Valid (mID m))"
  using same_memory_inv [OF op_memory(8)] writeMeta_entry [of m s e m' s'] writeMeta_mID [of m s e m' s']
    writeMeta_ok_Valid [of m s m' s'] by (intro conjI) auto

lemma readMetaAt_inv [inv_dest]:
  "readMetaAt p i s = (r, s') \<Longrightarrow> spool_inv s' = spool_inv s \<and>
    (\<forall>m. r = Inr m \<and> Valid i \<longrightarrow> entry_ok i m)"
  using op_memory(9) [of p i s r s'] readMetaAt_entry same_memory_inv by blast

lemma inv_snd_remove [simp]: 
  fixes s :: spool
  shows "spool_inv (snd (os_remove p s)) = spool_inv s" "spool_inv (snd (removeRetry p s)) = spool_inv s"
  by (rule same_memory_inv; simp)+

lemma entry_ok_mID: "entry_ok i m \<Longrightarrow> mID m = i"
  by (simp add: entry_ok_def)

lemma Stage_inv: "Stage rnd body cap s = (r, s') \<Longrightarrow> spool_inv s \<Longrightarrow> spool_inv s'"
  by (auto simp: Stage_def Let_def split: option.splits prod.splits sum.splits if_splits dest!: inv_dest)

lemma Staged_Discard_inv: "spool_inv s \<Longrightarrow> spool_inv (snd (Staged_Discard st s))"
  by (simp add: Staged_Discard_def split: option.splits)

lemma publish_inv: "publish m s = (r, s') \<Longrightarrow> spool_inv s \<Longrightarrow> spool_inv s'"
  by (auto simp: publish_def Let_def split: prod.splits option.splits dest!: inv_dest
      intro!: putLocked_inv)

lemma commit_copy_inv:
  "commit_copy rnd src env lt pfx s = (r, s') \<Longrightarrow> spool_inv s \<Longrightarrow> spool_inv s'"
  by (auto simp: commit_copy_def Let_def split: prod.splits option.splits sum.splits dest!: inv_dest
      dest: publish_inv)

lemma Commit_inv: "Commit rnd st env lt pfx s = (r, s') \<Longrightarrow> spool_inv s \<Longrightarrow> spool_inv s'"
  by (auto simp: Commit_def reserveQuota_def quota_reserve_def releaseQuota_def quota_release_def
      split: prod.splits option.splits if_splits dest!: commit_copy_inv)

lemma ClaimBatch_inv: "ClaimBatch order now cap skip s = (ms, s') \<Longrightarrow> spool_inv s \<Longrightarrow> spool_inv s'"
  by (auto simp: ClaimBatch_def Let_def split: if_splits)

lemma Defer_inv:
  assumes "spool_inv s"
  shows "spool_inv (Defer m until s)"
proof (cases "index s (mID m)")
  case (Some cur)
  let ?c = "cur\<lparr>mNextAttempt := until\<rparr>"
  have "entry_ok (mID m) cur" using assms Some by (simp add: spool_inv_def)
  moreover have "index_total ((index s)(mID m \<mapsto> ?c)) = index_total (index s)"
    using assms Some sum_dom_upd [of "index s" mSize "mID m" ?c]
    by (simp add: index_total_def spool_inv_def)
  ultimately show ?thesis
    using assms Some by (auto simp: Defer_def spool_inv_def)
qed (use assms in \<open>simp add: Defer_def\<close>)

lemma Release_inv: "Release m s = (e, s') \<Longrightarrow> spool_inv s \<Longrightarrow> Valid (mID m) \<Longrightarrow> spool_inv s'"
  by (auto simp: Release_def Let_def split: prod.splits if_splits dest!: inv_dest
      intro!: putLocked_inv)

lemma Remove_inv: "Remove i s = (e, s') \<Longrightarrow> spool_inv s \<Longrightarrow> spool_inv s'"
  by (auto simp: Remove_def Let_def split: prod.splits if_splits option.splits dest!: inv_dest
      intro: dropLocked_inv)

lemma Fail_inv: "Fail m reason s = (e, s') \<Longrightarrow> spool_inv s \<Longrightarrow> spool_inv s'"
  by (auto simp: Fail_def Let_def split: prod.splits option.splits sum.splits dest!: inv_dest
      intro!: dropLocked_inv failed_put_inv)

lemma requeueLive_inv: "requeueLive m s = (e, s') \<Longrightarrow> spool_inv s \<Longrightarrow> spool_inv s'"
  by (auto simp: requeueLive_def split: prod.splits option.splits dest!: inv_dest
      intro!: putLocked_inv)

lemma requeueFailed_inv: "requeueFailed i s = (e, s') \<Longrightarrow> spool_inv s \<Longrightarrow> spool_inv s'"
  by (auto simp: requeueFailed_def Let_def split: prod.splits option.splits sum.splits dest!: inv_dest
      intro!: putLocked_inv failed_drop_inv)

lemma Requeue_inv: "Requeue i f s j = (e, s', j') \<Longrightarrow> spool_inv s \<Longrightarrow> spool_inv s'"
  by (auto simp: Requeue_def tryLease_def dropLease_def split: prod.splits option.splits if_splits
      dest!: requeueLive_inv requeueFailed_inv)

lemma removeOne_inv: "removeOne p (b, f, s) = (b', f', s') \<Longrightarrow> spool_inv s' = spool_inv s"
  by (auto simp: removeOne_def split: prod.splits option.splits dest!: inv_dest)

lemma Discard_inv: 
  assumes "Discard i s = (e, s')" "spool_inv s" 
  shows "spool_inv s'"
proof -
  let ?s1 = "s\<lparr>leased := insert i (leased s)\<rparr>"
  obtain b1 f1 t1 where 1: "removeOne (dataPath i) (False, None, ?s1) = (b1, f1, t1)" by (metis prod_cases3)
  obtain b2 f2 t2 where 2: "removeOne (metaPath i) (b1, f1, t1) = (b2, f2, t2)" by (metis prod_cases3)
  obtain b3 f3 t3 where 3: "removeOne (failedPath i ''.eml'') (b2, f2, t2) = (b3, f3, t3)" by (metis prod_cases3)
  obtain b4 f4 t4 where 4: "removeOne (failedPath i ''.json'') (b3, f3, t3) = (b4, f4, t4)" by (metis prod_cases3)
  have "spool_inv t4"
    using assms(2) removeOne_inv [OF 1] removeOne_inv [OF 2] removeOne_inv [OF 3] removeOne_inv [OF 4]
    by simp
  then show ?thesis
    using assms 1 2 3 4
    by (auto simp: Discard_def tryLease_def dropLease_def Let_def split: option.splits if_splits prod.splits
        dest!: inv_dest intro!: failed_drop_inv dropLocked_inv)
qed

end
