(* ===== verification/Spool_Recovery.thy ===== *)
theory Spool_Recovery
  imports Spool_Frames
begin

text \<open>
  Opening a spool directory: \<open>Open\<close>, \<open>recover\<close> and \<open>scanQueue\<close> of \<open>internal/spool/spool.go\<close>,
  \<open>reindex\<close>, \<open>sweep\<close> and the retention of \<open>failed.go\<close>. The listing of a directory is an argument,
  in the order the file system returns it.

  \<open>queued_on_disk\<close> is the specification: which messages a set of files holds. \<open>Open\<close> without
  faults indexes exactly those.
\<close>

section \<open>Recovery\<close>

definition remove_names :: "dir \<Rightarrow> string list \<Rightarrow> spool \<Rightarrow> spool" where
  "remove_names d names s = fold (\<lambda>n s. snd (os_remove (d, n) s)) names s"

definition recoverBatch :: nat where "recoverBatch = 4096"

definition scan_entry :: "string \<Rightarrow> id list \<times> id list \<times> spool \<Rightarrow> id list \<times> id list \<times> spool" where
  "scan_entry name acc = (case acc of (metas, bodies, s) \<Rightarrow>
     if HasSuffix name ''.json'' then
       (case Parse (TrimSuffix name ''.json'') of
          Some i \<Rightarrow> (metas @ [i], bodies, s)
        | None \<Rightarrow> acc)
     else if HasSuffix name ''.eml'' then
       (case Parse (TrimSuffix name ''.eml'') of
          Some i \<Rightarrow> (metas, List.insert i bodies, s)
        | None \<Rightarrow> (metas, bodies, snd (os_remove (QueueDir, name) s)))
     else acc)"

text \<open>
  The loop over \<open>ReadDir(recoverBatch)\<close>. A call that fails returns no entries, and the loop ends
  on an empty batch before it looks at the error.
\<close>

function scan_loop :: "string list \<Rightarrow> id list \<times> id list \<times> spool \<Rightarrow> id list \<times> id list \<times> spool" where
  "scan_loop names (metas, bodies, s) =
     (case sys_call s of
        (False, s1) \<Rightarrow> (metas, bodies, s1)
      | (True, s1) \<Rightarrow>
          (let batch = take recoverBatch names in
           if batch = [] then (metas, bodies, s1)
           else scan_loop (drop recoverBatch names) (fold scan_entry batch (metas, bodies, s1))))"
  by pat_completeness auto
termination
  by (relation "measure (\<lambda>(names, acc). length names)") (auto simp: recoverBatch_def)

declare scan_loop.simps [simp del]

definition scanQueue :: "string list \<Rightarrow> spool \<Rightarrow> (spool_err + id list \<times> id list) \<times> spool" where
  "scanQueue names s =
     (case sys_call s of
        (False, s1) \<Rightarrow> (Inl (OsErr EIO), s1)
      | (True, s1) \<Rightarrow>
          (case scan_loop names ([], [], s1) of
             (metas, bodies, s2) \<Rightarrow> (Inr (metas, bodies), s2)))"

definition recover_meta :: "id list \<Rightarrow> id \<Rightarrow> id list \<times> spool \<Rightarrow> id list \<times> spool" where
  "recover_meta bodies i acc = (case acc of (indexed, s) \<Rightarrow>
     if i \<notin> set bodies then (indexed, snd (os_remove (metaPath i) s))
     else (case readMeta i s of
             (Inl _, s1) \<Rightarrow> (indexed, s1)
           | (Inr m, s1) \<Rightarrow> (i # indexed, putLocked m s1)))"

definition recover_body :: "id list \<Rightarrow> id \<Rightarrow> spool \<Rightarrow> spool" where
  "recover_body indexed i s = (if i \<in> set indexed then s else snd (os_remove (dataPath i) s))"

definition reindex_entry :: "string \<Rightarrow> spool \<Rightarrow> spool" where
  "reindex_entry name s =
     (if \<not> HasSuffix name ''.json'' then s
      else case Parse (TrimSuffix name ''.json'') of
             None \<Rightarrow> s
           | Some i \<Rightarrow>
               (case os_read (FailedDir, name) s of
                  (Inl _, s1) \<Rightarrow> s1
                | (Inr info, s1) \<Rightarrow>
                    (case os_read (failedPath i ''.eml'') s1 of (st, s2) \<Rightarrow>
                     (let size = (case st of Inr f \<Rightarrow> content_length (content f) | Inl _ \<Rightarrow> 0)
                      in failed_put i \<lparr>feSize = size, feAt = mtime info\<rparr> s2))))"

definition reindex :: "string list \<Rightarrow> spool \<Rightarrow> spool_err option \<times> spool" where
  "reindex names s =
     (case sys_call s of
        (False, s1) \<Rightarrow> (Some (OsErr EIO), s1)
      | (True, s1) \<Rightarrow> (None, fold reindex_entry names s1))"

definition recover :: "(dir \<Rightarrow> string list) \<Rightarrow> spool \<Rightarrow> spool_err option \<times> spool" where
  "recover ls s =
     (case sys_call s of
        (False, s1) \<Rightarrow> (Some (OsErr EIO), s1)
      | (True, s1) \<Rightarrow>
          (case scanQueue (ls QueueDir) (remove_names TmpDir (ls TmpDir) s1) of
             (Inl e, s2) \<Rightarrow> (Some e, s2)
           | (Inr (metas, bodies), s2) \<Rightarrow>
               (case fold (recover_meta bodies) metas ([], s2) of
                  (indexed, s3) \<Rightarrow>
                    reindex (ls FailedDir) (fold (recover_body indexed) bodies s3))))"

text \<open>
  \<open>boot\<close> is the state of a process just started over the files of a previous one; \<open>Open\<close> makes
  the three directories, restricts each to its owner, and recovers.
\<close>

definition boot :: "spool \<Rightarrow> spool" where
  "boot s = \<lparr>files = files s, faults = faults s, dead = False, clock = clock s,
     index = (\<lambda>_. None), leased = {}, indexBytes = 0, depthCache = None, depthAt = 0,
     depthWindow = 0, fIndex = (\<lambda>_. None), fBytes = 0, fTtl = 0, maxBytes = 0, warnPercent = 0,
     reserved = 0, wake = False\<rparr>"

fun make_dirs :: "nat \<Rightarrow> spool \<Rightarrow> spool_err option \<times> spool" where
  "make_dirs 0 s = (None, s)"
| "make_dirs (Suc n) s =
     (case os_sync s of
        (Some e, s1) \<Rightarrow> (Some e, s1)
      | (None, s1) \<Rightarrow>
          (case os_sync s1 of
             (Some e, s2) \<Rightarrow> (Some e, s2)
           | (None, s2) \<Rightarrow> make_dirs n s2))"

definition Open :: "(dir \<Rightarrow> string list) \<Rightarrow> spool \<Rightarrow> spool_err option \<times> spool" where
  "Open ls s =
     (case make_dirs 3 (boot s) of
        (Some e, s1) \<Rightarrow> (Some e, s1)
      | (None, s1) \<Rightarrow> recover ls s1)"

section \<open>The retention sweep\<close>

text \<open>\<open>order\<close> is the order in which the range over the failed index meets its keys.\<close>

definition sweep_one :: "id \<Rightarrow> int \<times> int \<times> spool \<Rightarrow> int \<times> int \<times> spool" where
  "sweep_one i acc = (case acc of (removed, freed, s) \<Rightarrow>
     case removeRetry (failedPath i ''.json'') s of (e1, s1) \<Rightarrow>
     (case removeRetry (failedPath i ''.eml'') s1 of (e2, s2) \<Rightarrow>
      if firstRealError [e1, e2] \<noteq> None then (removed, freed, s2)
      else (case failed_drop i s2 of
              (Some e, s3) \<Rightarrow> (removed + 1, i64 (freed + feSize e), s3)
            | (None, s3) \<Rightarrow> (removed, freed, s3))))"

definition SweepFailed :: "id list \<Rightarrow> instant \<Rightarrow> spool \<Rightarrow> int \<times> int \<times> spool" where
  "SweepFailed order now s =
     (if fTtl s \<le> 0 then (0, 0, s)
      else (let expired = filter (\<lambda>i. time_sub now (feAt (the (fIndex s i))) > fTtl s) order in
            case fold sweep_one expired (0, 0, s) of
              (removed, freed, s1) \<Rightarrow>
                (removed, freed, if removed > 0 then snd (os_sync s1) else s1)))"

section \<open>What the files hold\<close>

definition meta_on_disk :: "(path \<rightharpoonup> fnode) \<Rightarrow> id \<rightharpoonup> meta" where
  "meta_on_disk F i =
     (case F (metaPath i) of
        Some f \<Rightarrow>
          (case content f of
             Json m \<Rightarrow> if Valid i \<and> mID m = i then Some (m\<lparr>mEnvelope := normalizeKind (mEnvelope m)\<rparr>)
                       else None
           | Bytes _ \<Rightarrow> None)
      | None \<Rightarrow> None)"

definition queued_on_disk :: "(path \<rightharpoonup> fnode) \<Rightarrow> id \<rightharpoonup> meta" where
  "queued_on_disk F i = (if F (dataPath i) = None then None else meta_on_disk F i)"

definition failed_on_disk :: "(path \<rightharpoonup> fnode) \<Rightarrow> id \<rightharpoonup> failedEntry" where
  "failed_on_disk F i =
     (case F (failedPath i ''.json'') of
        Some f \<Rightarrow>
          if Valid i then
            Some \<lparr>feSize = (case F (failedPath i ''.eml'') of Some b \<Rightarrow> content_length (content b) | None \<Rightarrow> 0),
                  feAt = mtime f\<rparr>
          else None
      | None \<Rightarrow> None)"

definition listing_of :: "(path \<rightharpoonup> fnode) \<Rightarrow> (dir \<Rightarrow> string list) \<Rightarrow> bool" where
  "listing_of F ls \<longleftrightarrow> (\<forall>d. set (ls d) = {n. F (d, n) \<noteq> None})"

lemma queued_on_disk_cong:
  "F (metaPath i) = G (metaPath i) \<Longrightarrow> F (dataPath i) = G (dataPath i) \<Longrightarrow>
   queued_on_disk F i = queued_on_disk G i"
  by (simp add: queued_on_disk_def meta_on_disk_def)

lemma queued_on_disk_no_meta [simp]: "F (metaPath i) = None \<Longrightarrow> queued_on_disk F i = None"
  by (simp add: queued_on_disk_def meta_on_disk_def)

lemma queued_on_disk_no_body [simp]: "F (dataPath i) = None \<Longrightarrow> queued_on_disk F i = None"
  by (simp add: queued_on_disk_def)

section \<open>Runs without faults\<close>

definition calm :: "'a fsys_scheme \<Rightarrow> bool" where
  "calm w \<longleftrightarrow> faults w = [] \<and> \<not> dead w"

lemma calm_sys_call [simp]: "calm w \<Longrightarrow> sys_call w = (True, w)"
  by (simp add: calm_def)

lemma calm_remove: "calm w \<Longrightarrow> os_remove p w =
    (if files w p = None then (Some (OsErr ENOENT), w) else (None, w\<lparr>files := (files w)(p := None)\<rparr>))"
  by (simp add: os_remove_def)

lemma calm_read: "calm w \<Longrightarrow> os_read p w =
    (case files w p of None \<Rightarrow> (Inl (OsErr ENOENT), w) | Some f \<Rightarrow> (Inr f, w))"
  by (simp add: os_read_def)

lemma calm_sync [simp]: "calm w \<Longrightarrow> os_sync w = (None, w)"
  by (simp add: os_sync_def)

lemma calm_upd [simp]: "calm (w\<lparr>files := F\<rparr>) = calm w"
  by (simp add: calm_def)

lemma calm_snd_remove: "calm w \<Longrightarrow> snd (os_remove p w) = w\<lparr>files := (files w)(p := None)\<rparr>"
  by (cases w) (auto simp: calm_remove)

lemma calm_remove_names:
  "calm s \<Longrightarrow> remove_names d names s =
     s\<lparr>files := (\<lambda>p. if fst p = d \<and> snd p \<in> set names then None else files s p)\<rparr>"
proof (induction names arbitrary: s)
  case (Cons n names)
  have "remove_names d (n # names) s = remove_names d names (s\<lparr>files := (files s)((d, n) := None)\<rparr>)"
    using Cons.prems by (simp add: remove_names_def calm_snd_remove)
  then show ?case
    using Cons.prems by (auto simp: Cons.IH fun_eq_iff intro!: arg_cong [where f = "\<lambda>F. s\<lparr>files := F\<rparr>"])
qed (simp add: remove_names_def)

lemma suffix_name: "HasSuffix n e \<longleftrightarrow> (\<exists>i. n = i @ e)"
  unfolding HasSuffix_def HasPrefix_def
  by (metis append_eq_conv_conj append_take_drop_id length_rev rev_append rev_rev_ident)

lemma TrimSuffix_append [simp]: "TrimSuffix (i @ e) e = i"
  using suffix_name by (auto simp: TrimSuffix_def)

lemma HasSuffix_append [simp]: "HasSuffix (i @ e) e"
  using suffix_name by auto

definition json_id :: "string \<Rightarrow> id option" where
  "json_id n = (if HasSuffix n ''.json'' then Parse (TrimSuffix n ''.json'') else None)"

definition eml_id :: "string \<Rightarrow> id option" where
  "eml_id n = (if HasSuffix n ''.eml'' then Parse (TrimSuffix n ''.eml'') else None)"

lemma json_id_iff: "json_id n = Some i \<longleftrightarrow> n = i @ ''.json'' \<and> Valid i"
  by (auto simp: json_id_def suffix_name)

lemma eml_id_iff: "eml_id n = Some i \<longleftrightarrow> n = i @ ''.eml'' \<and> Valid i"
  by (auto simp: eml_id_def suffix_name)

lemma json_not_eml: "HasSuffix n ''.json'' \<Longrightarrow> \<not> HasSuffix n ''.eml''"
  using ext_last by (auto simp: suffix_name)

text \<open>The names a scan removes: bodies that belong to no identifier.\<close>

definition stray_body :: "string \<Rightarrow> bool" where
  "stray_body n \<longleftrightarrow> HasSuffix n ''.eml'' \<and> eml_id n = None"

lemma calm_scan_entry:
  "calm s \<Longrightarrow> scan_entry n (ms, bs, s) =
    (ms @ (case json_id n of Some i \<Rightarrow> [i] | None \<Rightarrow> []),
     (case eml_id n of Some i \<Rightarrow> List.insert i bs | None \<Rightarrow> bs),
     s\<lparr>files := (if stray_body n then (files s)((QueueDir, n) := None) else files s)\<rparr>)"
  using json_not_eml [of n]
  by (auto simp: scan_entry_def json_id_def eml_id_def stray_body_def calm_snd_remove Parse_def)

lemma calm_scan_fold:
  "calm s \<Longrightarrow> \<exists>bs'. fold scan_entry ns (ms, bs, s) =
     (ms @ List.map_filter json_id ns, bs',
      s\<lparr>files := (\<lambda>p. if fst p = QueueDir \<and> snd p \<in> set ns \<and> stray_body (snd p) then None else files s p)\<rparr>)
   \<and> set bs' = set bs \<union> {i. \<exists>n \<in> set ns. eml_id n = Some i}"
proof (induction ns arbitrary: ms bs s)
  case (Cons n ns)
  let ?ms = "ms @ (case json_id n of Some i \<Rightarrow> [i] | None \<Rightarrow> [])"
  let ?bs = "case eml_id n of Some i \<Rightarrow> List.insert i bs | None \<Rightarrow> bs"
  let ?s = "s\<lparr>files := (if stray_body n then (files s)((QueueDir, n) := None) else files s)\<rparr>"
  have "calm ?s" using Cons.prems by simp
  from Cons.IH [OF this, of ?ms ?bs] obtain bs' where
    f: "fold scan_entry ns (?ms, ?bs, ?s) = (?ms @ List.map_filter json_id ns, bs',
      ?s\<lparr>files := (\<lambda>p. if fst p = QueueDir \<and> snd p \<in> set ns \<and> stray_body (snd p) then None else files ?s p)\<rparr>)"
    and b: "set bs' = set ?bs \<union> {i. \<exists>n \<in> set ns. eml_id n = Some i}" by blast
  have "?ms @ List.map_filter json_id ns = ms @ List.map_filter json_id (n # ns)"
    by (simp add: List.map_filter_simps split: option.split)
  moreover have "set bs' = set bs \<union> {i. \<exists>n' \<in> set (n # ns). eml_id n' = Some i}"
    using b by (auto split: option.splits)
  moreover have "?s\<lparr>files := (\<lambda>p. if fst p = QueueDir \<and> snd p \<in> set ns \<and> stray_body (snd p) then None else files ?s p)\<rparr>
    = s\<lparr>files := (\<lambda>p. if fst p = QueueDir \<and> snd p \<in> set (n # ns) \<and> stray_body (snd p) then None else files s p)\<rparr>"
    by (auto simp: fun_eq_iff intro!: arg_cong [where f = "\<lambda>F. s\<lparr>files := F\<rparr>"])
  ultimately show ?case using f calm_scan_entry [OF Cons.prems, of n ms bs] by auto
qed (simp add: List.map_filter_simps)

lemma calm_scan_loop:
  "calm s \<Longrightarrow> scan_loop ns (ms, bs, s) = fold scan_entry ns (ms, bs, s)"
proof (induction ns "(ms, bs, s)" arbitrary: ms bs s rule: scan_loop.induct)
  case (1 ns ms bs s)
  show ?case
  proof (cases "ns = []")
    case True
    then show ?thesis using 1 by (simp add: scan_loop.simps)
  next
    case False
    obtain bs' where f: "fold scan_entry (take recoverBatch ns) (ms, bs, s) =
      (ms @ List.map_filter json_id (take recoverBatch ns), bs', s\<lparr>files := (\<lambda>p. if fst p = QueueDir \<and>
        snd p \<in> set (take recoverBatch ns) \<and> stray_body (snd p) then None else files s p)\<rparr>)"
      using calm_scan_fold [OF 1(2)] by blast
    have "take recoverBatch ns \<noteq> []" using False by (simp add: recoverBatch_def)
    then have "scan_loop ns (ms, bs, s) =
        scan_loop (drop recoverBatch ns) (fold scan_entry (take recoverBatch ns) (ms, bs, s))"
      using 1(2) by (simp add: scan_loop.simps)
    also have "\<dots> = fold scan_entry (drop recoverBatch ns) (fold scan_entry (take recoverBatch ns) (ms, bs, s))"
      unfolding f by (rule 1(1)) (use 1(2) \<open>take recoverBatch ns \<noteq> []\<close> f in auto)
    also have "\<dots> = fold scan_entry ns (ms, bs, s)"
      by (metis append_take_drop_id comp_apply fold_append)
    finally show ?thesis .
  qed
qed


lemma calm_ops [simp]:
  "calm (putLocked m s) = calm s" "calm (failed_put i e s) = calm s"
  by (simp_all add: calm_def)

lemma calm_readMeta:
  "calm s \<Longrightarrow> \<exists>e. readMeta i s = (case meta_on_disk (files s) i of Some m \<Rightarrow> (Inr m, s) | None \<Rightarrow> (Inl e, s))"
  by (auto simp: readMeta_def readMetaAt_def meta_on_disk_def calm_read
      split: option.splits content.splits)

lemma meta_on_disk_entry: "meta_on_disk F i = Some m \<Longrightarrow> entry_ok i m"
  by (auto simp: meta_on_disk_def entry_ok_def split: option.splits content.splits if_splits)

lemma meta_on_disk_mID: "meta_on_disk F i = Some m \<Longrightarrow> mID m = i"
  by (drule meta_on_disk_entry) (simp add: entry_ok_def)

lemma meta_on_disk_upd:
  "p \<noteq> metaPath i \<Longrightarrow> meta_on_disk (F(p := x)) i = meta_on_disk F i"
  by (simp add: meta_on_disk_def)

lemma calm_recover_meta:
  assumes "calm s"
  shows "recover_meta B i (ix, s) =
    (if i \<notin> set B then (ix, s\<lparr>files := (files s)(metaPath i := None)\<rparr>)
     else case meta_on_disk (files s) i of Some m \<Rightarrow> (i # ix, putLocked m s) | None \<Rightarrow> (ix, s))"
proof -
  obtain e where "readMeta i s =
      (case meta_on_disk (files s) i of Some m \<Rightarrow> (Inr m, s) | None \<Rightarrow> (Inl e, s))"
    using calm_readMeta [OF assms] by blast
  then show ?thesis
    using assms by (auto simp: recover_meta_def calm_snd_remove split: option.splits)
qed

text \<open>The loop over the metadata, as a predicate on its start and its end.\<close>

definition metas_recovered :: "id list \<Rightarrow> id set \<Rightarrow> id list \<times> spool \<Rightarrow> id list \<times> spool \<Rightarrow> bool" where
  "metas_recovered B M a b \<longleftrightarrow>
     set (fst b) = set (fst a) \<union> {i \<in> M. i \<in> set B \<and> meta_on_disk (files (snd a)) i \<noteq> None} \<and>
     files (snd b) = (\<lambda>p. if p \<in> metaPath ` (M - set B) then None else files (snd a) p) \<and>
     index (snd b) = (\<lambda>i. if i \<in> M \<and> i \<in> set B \<and> meta_on_disk (files (snd a)) i \<noteq> None
                          then meta_on_disk (files (snd a)) i else index (snd a) i) \<and>
     calm (snd b) \<and> fIndex (snd b) = fIndex (snd a) \<and> leased (snd b) = leased (snd a) \<and>
     (spool_inv (snd a) \<longrightarrow> spool_inv (snd b))"

lemma metas_recovered_step:
  assumes "calm s"
  shows "metas_recovered B {i} (ix, s) (recover_meta B i (ix, s))"
proof (cases "i \<in> set B")
  case False
  then show ?thesis
    using assms by (auto simp: metas_recovered_def calm_recover_meta fun_eq_iff spool_inv_def)
next
  case True
  then show ?thesis
  proof (cases "meta_on_disk (files s) i")
    case (Some m)
    then show ?thesis
      using True assms meta_on_disk_entry [OF Some] meta_on_disk_mID [OF Some]
      by (auto simp: metas_recovered_def calm_recover_meta fun_eq_iff intro: putLocked_inv)
  qed (use True assms in \<open>auto simp: metas_recovered_def calm_recover_meta fun_eq_iff\<close>)
qed

lemma metas_recovered_trans:
  assumes "metas_recovered B M a b" "metas_recovered B N b c"
  shows "metas_recovered B (M \<union> N) a c"
proof -
  have keep: "meta_on_disk (files (snd b)) i = meta_on_disk (files (snd a)) i" if "i \<in> set B" for i
    using assms(1) that by (auto simp: metas_recovered_def meta_on_disk_def)
  show ?thesis
    using assms keep unfolding metas_recovered_def by (auto simp: fun_eq_iff)
qed

lemma metas_recovered_fold:
  "calm s \<Longrightarrow> metas_recovered B (set ms) (ix, s) (fold (recover_meta B) ms (ix, s))"
proof (induction ms arbitrary: ix s)
  case Nil
  then show ?case by (auto simp: metas_recovered_def)
next
  case (Cons i ms)
  obtain ix1 s1 where r: "recover_meta B i (ix, s) = (ix1, s1)" by fastforce
  have step: "metas_recovered B {i} (ix, s) (ix1, s1)"
    using metas_recovered_step [OF Cons.prems, of B i ix] r by simp
  then have "calm s1" by (simp add: metas_recovered_def)
  from metas_recovered_trans [OF step Cons.IH [OF this]] r show ?case by simp
qed

lemma calm_recover_bodies:
  "calm s \<Longrightarrow> fold (recover_body ix) bs s =
     s\<lparr>files := (\<lambda>p. if p \<in> dataPath ` (set bs - set ix) then None else files s p)\<rparr>"
proof (induction bs arbitrary: s)
  case (Cons i bs)
  have "recover_body ix i s = s\<lparr>files := (\<lambda>p. if p \<in> dataPath ` ({i} - set ix) then None else files s p)\<rparr>"
    using Cons.prems by (cases s) (auto simp: recover_body_def calm_snd_remove fun_eq_iff)
  then show ?case
    using Cons.prems by (auto simp: Cons.IH fun_eq_iff intro!: arg_cong [where f = "\<lambda>F. s\<lparr>files := F\<rparr>"])
qed simp

lemma calm_reindex_entry:
  assumes "calm s"
  shows "reindex_entry n s =
     (case json_id n of
        None \<Rightarrow> s
      | Some i \<Rightarrow> (case failed_on_disk (files s) i of None \<Rightarrow> s | Some e \<Rightarrow> failed_put i e s))"
proof (cases "json_id n")
  case None
  then show ?thesis by (auto simp: reindex_entry_def json_id_def Parse_def split: if_splits)
next
  case (Some i)
  then have n: "n = i @ ''.json''" "Valid i" by (simp_all add: json_id_iff)
  show ?thesis
    unfolding Some option.case using assms n
    by (auto simp: reindex_entry_def failed_on_disk_def calm_read failedPath_def Parse_def
        split: option.splits)
qed

lemma calm_reindex_fold:
  "calm s \<Longrightarrow> fold reindex_entry ns s = s' \<Longrightarrow>
    calm s' \<and> files s' = files s \<and> index s' = index s \<and> leased s' = leased s \<and>
    (spool_inv s \<longrightarrow> spool_inv s') \<and>
    fIndex s' = (\<lambda>i. if (\<exists>n \<in> set ns. json_id n = Some i) \<and> failed_on_disk (files s) i \<noteq> None
                     then failed_on_disk (files s) i else fIndex s i)"
proof (induction ns arbitrary: s)
  case (Cons n ns)
  let ?s1 = "reindex_entry n s"
  have s1: "calm ?s1" "files ?s1 = files s" "index ?s1 = index s" "leased ?s1 = leased s"
    "spool_inv s \<Longrightarrow> spool_inv ?s1"
    "fIndex ?s1 = (\<lambda>i. if json_id n = Some i \<and> failed_on_disk (files s) i \<noteq> None
                     then failed_on_disk (files s) i else fIndex s i)"
    using Cons.prems(1)
    by (auto simp: calm_reindex_entry fun_eq_iff intro: failed_put_inv split: option.splits)
  have "fold reindex_entry ns ?s1 = s'" using Cons.prems(2) by simp
  from Cons.IH [OF s1(1) this] s1(5) show ?case
    unfolding s1(2,3,4,6) by (auto simp del: split_paired_All intro!: ext)
qed simp

lemma calm_make_dirs [simp]: "calm s \<Longrightarrow> make_dirs n s = (None, s)"
  by (induction n) auto

lemma boot_inv [simp]: "spool_inv (boot s)"
  by (simp add: boot_def spool_inv_def index_total_def failed_total_def i64_simps)

lemma boot_frame [simp]:
  "files (boot s) = files s" "index (boot s) = Map.empty" "fIndex (boot s) = Map.empty"
  "leased (boot s) = {}" "calm (boot s) \<longleftrightarrow> faults s = []"
  by (auto simp: boot_def calm_def)

lemma spool_inv_files [simp]: "spool_inv (s\<lparr>files := F\<rparr>) = spool_inv s"
  by (simp add: spool_inv_def)

text \<open>
  The whole of \<open>Open\<close> over the files \<open>F\<close>: the indexes are what the files hold, the temporary
  area is empty, and a body is in the queue directory exactly when its message is indexed.
\<close>

lemma Open_calm:
  assumes fl: "faults s = []" and ls: "listing_of (files s) ls"
  obtains s' where "Open ls s = (None, s')" "index s' = queued_on_disk (files s)"
    "fIndex s' = failed_on_disk (files s)" "leased s' = {}" "spool_inv s'" "calm s'"
    "\<And>n. files s' (TmpDir, n) = None" "\<And>n. files s' (FailedDir, n) = files s (FailedDir, n)"
    "\<And>i. files s' (dataPath i) = (if index s' i = None then None else files s (dataPath i))"
    "\<And>i. index s' i \<noteq> None \<Longrightarrow> files s' (metaPath i) = files s (metaPath i)"
proof -
  let ?F = "files s"
  define s1 where "s1 = remove_names TmpDir (ls TmpDir) (boot s)"
  have s1: "s1 = (boot s)\<lparr>files := (\<lambda>p. if fst p = TmpDir \<and> snd p \<in> set (ls TmpDir) then None else ?F p)\<rparr>"
    unfolding s1_def using fl by (simp add: calm_remove_names cong: if_cong)
  have c1: "calm s1" using fl s1 by simp
  from calm_scan_fold [OF c1, of "ls QueueDir" "[]" "[]"] calm_scan_loop [OF c1] obtain bs s2 where
    scan: "scan_loop (ls QueueDir) ([], [], s1) = (List.map_filter json_id (ls QueueDir), bs, s2)"
    and s2: "s2 = s1\<lparr>files := (\<lambda>p. if fst p = QueueDir \<and> snd p \<in> set (ls QueueDir) \<and> stray_body (snd p)
                               then None else files s1 p)\<rparr>"
    and bs: "set bs = {i. \<exists>n \<in> set (ls QueueDir). eml_id n = Some i}" by fastforce
  have c2: "calm s2" using c1 s2 by simp
  let ?ms = "List.map_filter json_id (ls QueueDir)"
  have ms: "set ?ms = {i. \<exists>n \<in> set (ls QueueDir). json_id n = Some i}"
    by (auto simp: List.map_filter_def image_iff) (metis option.sel option.simps(3))
  obtain ix s3 where f3: "fold (recover_meta bs) ?ms ([], s2) = (ix, s3)" by fastforce
  have r3: "metas_recovered bs (set ?ms) ([], s2) (ix, s3)"
    using metas_recovered_fold [OF c2, of bs ?ms "[]"] f3 by simp
  then have c3: "calm s3" by (simp add: metas_recovered_def)
  define s4 where "s4 = fold (recover_body ix) bs s3"
  have s4: "s4 = s3\<lparr>files := (\<lambda>p. if p \<in> dataPath ` (set bs - set ix) then None else files s3 p)\<rparr>"
    unfolding s4_def by (rule calm_recover_bodies [OF c3])
  have c4: "calm s4" using s4 c3 by simp
  define s5 where "s5 = fold reindex_entry (ls FailedDir) s4"
  note r5 = calm_reindex_fold [OF c4 s5_def [symmetric]]
  have "Open ls s = (None, s5)"
    using fl c1 c2 c4 scan f3
    by (simp add: Open_def recover_def scanQueue_def reindex_def s5_def s4_def flip: s1_def)
  have lsq: "n \<in> set (ls d) \<longleftrightarrow> ?F (d, n) \<noteq> None" for d n
    using ls by (simp add: listing_of_def)
  have B: "i \<in> set bs \<longleftrightarrow> Valid i \<and> ?F (dataPath i) \<noteq> None" for i
    by (auto simp: bs eml_id_iff lsq dataPath_def)
  have M: "i \<in> set ?ms \<longleftrightarrow> Valid i \<and> ?F (metaPath i) \<noteq> None" for i
    by (auto simp: ms json_id_iff lsq metaPath_def)
  have nstray: "\<not> stray_body (i @ ''.json'')" for i
    using json_not_eml [OF HasSuffix_append [of i "''.json''"]] by (simp add: stray_body_def)
  have nstray': "Valid i \<Longrightarrow> \<not> stray_body (i @ ''.eml'')" for i
    by (auto simp: stray_body_def eml_id_def Parse_def)
  have F2: "files s2 (metaPath i) = ?F (metaPath i)" for i
    using nstray by (simp add: s2 s1 metaPath_def)
  have F2d: "files s2 (dataPath i) = ?F (dataPath i)" if "Valid i" for i
    using nstray' [OF that] by (simp add: s2 s1 dataPath_def)
  from F2 have D: "meta_on_disk (files s2) i = meta_on_disk ?F i" for i
    by (simp add: meta_on_disk_def)
  have mem2: "index s2 = Map.empty" "fIndex s2 = Map.empty" "leased s2 = {}"
    by (simp_all add: s2 s1)
  have q: "queued_on_disk ?F i = (if i \<in> set ?ms \<and> i \<in> set bs then meta_on_disk ?F i else None)" for i
    unfolding B M by (auto simp: queued_on_disk_def meta_on_disk_def split: option.splits content.splits)
  have ix: "index s5 = queued_on_disk ?F"
    using r5 r3 by (auto simp: metas_recovered_def s4 D q mem2 intro!: ext)
  have setix: "set ix = {i. queued_on_disk ?F i \<noteq> None}"
    using r3 by (auto simp: metas_recovered_def D q)
  have F5: "files s5 p = (if p \<in> dataPath ` (set bs - set ix) then None
      else if p \<in> metaPath ` (set ?ms - set bs) then None else files s2 p)" for p
    using r5 r3 by (auto simp: metas_recovered_def s4)
  have fFailed: "files s5 (FailedDir, n) = ?F (FailedDir, n)" for n
    by (auto simp: F5 s2 s1 path_defs)
  have "files s5 (TmpDir, n) = None" for n
    using lsq by (auto simp: F5 s2 s1 path_defs)
  have "files s5 (dataPath i) = (if index s5 i = None then None else ?F (dataPath i))" for i
  proof (cases "index s5 i")
    case None
    show ?thesis
    proof (cases "i \<in> set bs")
      case True
      then show ?thesis using None by (auto simp: F5 setix ix)
    next
      case False
      have "files s2 (dataPath i) = None"
      proof (cases "Valid i")
        case True
        then show ?thesis using False B [of i] by (simp add: s2 s1 dataPath_def)
      next
        case False
        then have "stray_body (i @ ''.eml'')" by (simp add: stray_body_def eml_id_def Parse_def)
        then show ?thesis using lsq by (simp add: s2 s1 dataPath_def)
      qed
      then show ?thesis using None by (auto simp: F5)
    qed
  next
    case (Some m)
    then have "queued_on_disk ?F i \<noteq> None" using ix by simp
    then have "i \<in> set ix" "i \<in> set bs" using q [of i] by (auto simp: setix split: if_splits)
    then show ?thesis
      using Some F2d [of i] B [of i] by (auto simp: F5)
  qed
  have "files s5 (metaPath i) = ?F (metaPath i)" if "index s5 i \<noteq> None" for i
    using that q [of i] by (auto simp: F5 F2 ix split: if_splits)
  have "fIndex s5 = failed_on_disk ?F"
  proof
    fix i
    have "failed_on_disk (files s4) i = failed_on_disk ?F i"
    proof -
      have "files s4 (FailedDir, n) = ?F (FailedDir, n)" for n using fFailed r5 by simp
      then show ?thesis by (simp only: failed_on_disk_def failedPath_def)
    qed
    moreover have "fIndex s4 = Map.empty" using r3 by (simp add: s4 metas_recovered_def mem2)
    moreover have "(\<exists>n \<in> set (ls FailedDir). json_id n = Some i) \<or> failed_on_disk ?F i = None"
      using lsq [of "i @ ''.json''" FailedDir]
      by (auto simp: failed_on_disk_def failedPath_def json_id_iff split: option.splits)
    ultimately show "fIndex s5 i = failed_on_disk ?F i" using r5 by auto
  qed
  have "spool_inv s2" by (simp add: s2 s1)
  then have "spool_inv s4" using r3 by (simp add: metas_recovered_def s4)
  then have "leased s5 = {}" "calm s5" "spool_inv s5"
    using r5 r3 by (simp_all add: metas_recovered_def s4 mem2)
  show ?thesis
    by (rule that [of s5]; fact)
qed

end
