(* ===== verification/Spool_Crash.thy ===== *)
theory Spool_Crash
  imports Spool_Recovery
begin

text \<open>
  What the files hold after an operation that was cut short: by failing system calls, which the
  operation handles, or by a crash at any of them. The statements are about \<open>queued_on_disk\<close>,
  which is what the next \<open>Open\<close> indexes (theory \<open>Spool_Recovery\<close>).
\<close>

section \<open>Outcomes of the file operations\<close>

lemma writeSynced_ok:
  assumes "writeSynced p c n werr w = (Inr k, w')"
  shows "files w' = (files w)(p \<mapsto> \<lparr>content = c, mtime = clock w\<rparr>)" "k = n" "\<not> dead w'" "files w p = None"
proof -
  obtain e1 w1 where c1: "os_create p w = (e1, w1)" by fastforce
  obtain e2 w2 where c2: "os_write p c w1 = (e2, w2)" by fastforce
  obtain e3 w3 where c3: "os_sync w2 = (e3, w3)" by fastforce
  obtain e4 w4 where c4: "os_sync w3 = (e4, w4)" by fastforce
  have e: "e1 = None" "e2 = None" "e3 = None" "e4 = None" "w' = w4" "k = n"
    using assms c1 c2 c3 c4
    by (auto simp: writeSynced_def Let_def split: option.splits prod.splits if_splits)
  have 1: "files w p = None" "files w1 = (files w)(p \<mapsto> \<lparr>content = Bytes [], mtime = clock w\<rparr>)" "clock w1 = clock w"
    using c1 e(1) by (auto elim!: os_create_cases)
  have 2: "files w2 = (files w1)(p \<mapsto> \<lparr>content = c, mtime = clock w1\<rparr>)"
    using c2 e(2) by (auto elim!: os_write_cases)
  have 3: "files w3 = files w2" using c3 e(3) by (auto elim!: os_sync_cases)
  have 4: "files w4 = files w3" "\<not> dead w4" using c4 e(4) by (auto elim!: os_sync_cases)
  show "files w' = (files w)(p \<mapsto> \<lparr>content = c, mtime = clock w\<rparr>)" "k = n" "\<not> dead w'" "files w p = None"
    using 1 2 3 4 e by simp_all
qed

lemma os_rename_result:
  "os_rename p q w = (e, w') \<Longrightarrow>
    (case e of None \<Rightarrow> files w p \<noteq> None \<and> files w' = (files w)(p := None, q := files w p) \<and> \<not> dead w'
             | Some _ \<Rightarrow> files w' = files w)"
  by (erule os_rename_cases) auto

lemma os_remove_result:
  "os_remove p w = (e, w') \<Longrightarrow>
    files w' = (case e of None \<Rightarrow> (files w)(p := None) | Some _ \<Rightarrow> files w) \<and>
    (files w' p = None \<or> dead w' \<or> hits w = Suc (hits w'))"
  by (erule os_remove_cases) auto

lemma os_sync_result:
  "os_sync w = (e, w') \<Longrightarrow> files w' = files w \<and> (e = None \<or> dead w' \<or> hits w = Suc (hits w'))"
  by (erule os_sync_cases) auto

lemma remove_loop_result:
  "remove_loop n err p w = (e, w') \<Longrightarrow> files w' p \<in> {None, files w p} \<and>
    (files w' p = None \<or> dead w' \<or> hits w = n + hits w')"
proof (induction n arbitrary: err w)
  case (Suc n)
  obtain e1 w1 where c: "os_remove p w = (e1, w1)" by fastforce
  note r = os_remove_result [OF c]
  show ?case
  proof (cases e1)
    case None
    then show ?thesis using Suc.prems c r by auto
  next
    case (Some e1')
    show ?thesis
    proof (cases "IsNotExist e1'")
      case True
      then have "files w p = None" "w' = w1" using Suc.prems c Some
        by (auto simp: IsNotExist_def elim: os_remove_cases)
      then show ?thesis using r Some by simp
    next
      case False
      then have l: "remove_loop n (Some e1') p w1 = (e, w')" using Suc.prems c Some by simp
      have "dead w1 \<Longrightarrow> dead w'"
        using touches_dead [OF remove_loop_touches [OF l]] by blast
      then show ?thesis using Suc.IH [OF l] r Some by auto
    qed
  qed
qed auto

lemma removeRetry_result:
  "removeRetry p w = (e, w') \<Longrightarrow> files w' p \<in> {None, files w p} \<and>
    (files w' p = None \<or> dead w' \<or> hits w = 5 + hits w')"
  unfolding removeRetry_def by (rule remove_loop_result)

lemma rename_loop_result:
  "rename_loop n err p q w = (e, w') \<Longrightarrow> p \<noteq> q \<Longrightarrow> (e = None \<Longrightarrow> n \<noteq> 0 \<or> err = None) \<Longrightarrow>
    files w' = files w \<and> (e \<noteq> None \<or> n = 0) \<or>
    e = None \<and> files w p \<noteq> None \<and> files w' = (files w)(p := None, q := files w p)"
proof (induction n arbitrary: err w)
  case (Suc n)
  obtain e1 w1 where c: "os_rename p q w = (e1, w1)" by fastforce
  note r = os_rename_result [OF c]
  show ?case
  proof (cases e1)
    case None
    then show ?thesis using Suc.prems c r by auto
  next
    case (Some e1')
    show ?thesis
    proof (cases "IsNotExist e1' \<or> n = 0")
      case True
      then show ?thesis using Suc.prems c r Some by (auto split: if_splits)
    next
      case False
      then have l: "rename_loop n (Some e1') p q w1 = (e, w')" using Suc.prems c Some by simp
      from Suc.IH [OF l Suc.prems(2)] False r Some show ?thesis by auto
    qed
  qed
qed auto

lemma renameRetry_result:
  assumes "renameRetry p q w = (e, w')" "p \<noteq> q"
  shows "case e of None \<Rightarrow> files w p \<noteq> None \<and> files w' = (files w)(p := None, q := files w p)
                 | Some _ \<Rightarrow> files w' = files w"
  using rename_loop_result [of 5 None p q w e w'] assms by (auto simp: renameRetry_def split: option.split)

lemma writeMeta_files:
  assumes "writeMeta m s = (e, m', s')"
  shows "case e of
      None \<Rightarrow> files s' (metaPath (mID m)) = Some \<lparr>content = Json (json_meta m'), mtime = clock s\<rparr> \<and> \<not> dead s'
    | Some _ \<Rightarrow> files s' (metaPath (mID m)) = files s (metaPath (mID m))"
proof (cases "Valid (mID m)")
  case True
  let ?t = "tmpPath (mID m) ''.json''" and ?p = "metaPath (mID m)"
  let ?m = "m\<lparr>mEnvelope := normalizeKind (mEnvelope m)\<rparr>"
  obtain r1 s1 where c1: "writeSynced ?t (Json (json_meta ?m)) 0 None s = (r1, s1)" by fastforce
  obtain r2 s2 where c2: "os_rename ?t ?p s1 = (r2, s2)" by fastforce
  obtain r3 s3 where c3: "os_remove ?t s2 = (r3, s3)" by fastforce
  have k1: "files s1 ?p = files s ?p" by (rule touches_other [OF writeSynced_touches [OF c1]]) simp
  have k3: "files s3 ?p = files s2 ?p" by (rule touches_other [OF os_remove_touches [OF c3]]) simp
  show ?thesis
  proof (cases r1)
    case (Inl e1)
    then show ?thesis using assms True c1 k1 by (auto simp: writeMeta_def Let_def)
  next
    case (Inr n)
    note w = writeSynced_ok [OF c1 [unfolded Inr]]
    show ?thesis
      using assms True c1 c2 c3 k1 k3 Inr w os_rename_result [OF c2]
      by (cases r2) (auto simp: writeMeta_def Let_def)
  qed
qed (use assms in \<open>auto simp: writeMeta_def\<close>)

section \<open>Commit\<close>

text \<open>The pair of files the queue directory holds for one message.\<close>

definition pair_of :: "spool \<Rightarrow> id \<Rightarrow> fnode option \<times> fnode option" where
  "pair_of s i = (files s (dataPath i), files s (metaPath i))"

lemma publish_outcome:
  assumes p: "publish m s = (r, s')" and ok: "Valid (mID m)" "kind_settled (mEnvelope m)"
    and tmp: "files s (tmpPath (mID m) ''.eml'') = Some f" and fresh: "pair_of s (mID m) = (None, None)"
  shows "fst (pair_of s' (mID m)) \<in> {None, Some f}"
    and "snd (pair_of s' (mID m)) \<in> {None, Some \<lparr>content = Json (json_meta m), mtime = clock s\<rparr>}"
    and "r = Inr j \<Longrightarrow> j = mID m \<and> index s' = (index s)(mID m \<mapsto> m) \<and> \<not> dead s' \<and> fst (pair_of s' (mID m)) \<noteq> None \<and>
           snd (pair_of s' (mID m)) \<noteq> None"
    and "r = Inl e \<Longrightarrow> fst (pair_of s' (mID m)) \<noteq> None \<Longrightarrow> snd (pair_of s' (mID m)) \<noteq> None \<Longrightarrow>
           dead s' \<or> hits s \<ge> 11"
proof -
  let ?i = "mID m"
  let ?t = "tmpPath ?i ''.eml''" and ?d = "dataPath ?i" and ?p = "metaPath ?i"
  have m: "m\<lparr>mEnvelope := normalizeKind (mEnvelope m)\<rparr> = m" using ok(2) by simp
  obtain e1 s1 where c1: "os_rename ?t ?d s = (e1, s1)" by fastforce
  obtain x1 s1' where c1': "os_remove ?t s1 = (x1, s1')" by fastforce
  obtain e2 m2 s2 where c2: "writeMeta m s1 = (e2, m2, s2)" by (metis prod_cases3)
  obtain x2 s2' where c2': "os_remove ?d s2 = (x2, s2')" by fastforce
  obtain e3 s3 where c3: "os_sync s2 = (e3, s3)" by fastforce
  obtain x3 s4 where c4: "removeRetry ?d s3 = (x3, s4)" by fastforce
  obtain x4 s5 where c5: "removeRetry ?p s4 = (x4, s5)" by fastforce
  have m2: "m2 = m" using writeMeta_result [OF c2 ok(1)] m by simp
  have fr: "files s ?d = None" "files s ?p = None" using fresh by (simp_all add: pair_of_def)
  have clk: "clock s1 = clock s" using op_memory(2) [OF c1] by (simp add: same_memory_def)
  have ix: "index s3 = index s"
    using op_memory(2) [OF c1] op_memory(8) [OF c2] op_memory(4) [OF c3] by (simp add: same_memory_def)
  note t2 = writeMeta_touches [OF c2] and r2 = writeMeta_files [OF c2]
  have d2: "files s2 ?d = files s1 ?d" by (rule touches_other [OF t2]) simp
  consider (a) e where "e1 = Some e" | (b) e where "e1 = None" "e2 = Some e"
    | (c) e where "e1 = None" "e2 = None" "e3 = Some e" | (d) "e1 = None" "e2 = None" "e3 = None"
    by (cases e1; cases e2; cases e3) auto
  then have "fst (pair_of s' ?i) \<in> {None, Some f} \<and>
    snd (pair_of s' ?i) \<in> {None, Some \<lparr>content = Json (json_meta m), mtime = clock s\<rparr>} \<and>
    (r = Inr j \<longrightarrow> j = ?i \<and> index s' = (index s)(?i \<mapsto> m) \<and> \<not> dead s' \<and> fst (pair_of s' ?i) \<noteq> None \<and> snd (pair_of s' ?i) \<noteq> None) \<and>
    (r = Inl e \<longrightarrow> fst (pair_of s' ?i) \<noteq> None \<longrightarrow> snd (pair_of s' ?i) \<noteq> None \<longrightarrow> dead s' \<or> hits s \<ge> 11)"
  proof cases
    case (a e)
    then have "s' = s1'" "r = Inl e" using p c1 c1' by (auto simp: publish_def Let_def)
    moreover have "files s1' ?d = None" "files s1' ?p = None"
      using os_rename_result [OF c1] a fr touches_other [OF os_remove_touches [OF c1'], of ?d]
        touches_other [OF os_remove_touches [OF c1'], of ?p] by auto
    ultimately show ?thesis by (simp add: pair_of_def)
  next
    case (b e)
    then have "s' = s2'" "r = Inl e" using p c1 c2 c2' by (auto simp: publish_def Let_def)
    moreover have "files s2' ?p = None"
      using os_rename_result [OF c1] b fr r2 touches_other [OF os_remove_touches [OF c2'], of ?p] by auto
    moreover have "files s2' ?d \<in> {None, Some f}"
      using os_rename_result [OF c1] b tmp d2 os_remove_result [OF c2'] by (auto split: option.splits)
    ultimately show ?thesis by (simp add: pair_of_def)
  next
    case (c e)
    then have s': "s' = s5" "r = Inl e" using p c1 c2 c3 c4 c5 by (auto simp: publish_def Let_def)
    have f3: "files s3 ?d = Some f" "files s3 ?p = Some \<lparr>content = Json (json_meta m), mtime = clock s\<rparr>"
      using os_rename_result [OF c1] c tmp d2 r2 m2 clk os_sync_result [OF c3] by auto
    have t4: "files s4 ?p = files s3 ?p" by (rule touches_other [OF removeRetry_touches [OF c4]]) simp
    have t5: "files s5 ?d = files s4 ?d" by (rule touches_other [OF removeRetry_touches [OF c5]]) simp
    have dd: "dead s3 \<Longrightarrow> dead s4" "dead s4 \<Longrightarrow> dead s5"
      using touches_dead [OF removeRetry_touches [OF c4]] touches_dead [OF removeRetry_touches [OF c5]] by blast+
    have h: "hits s1 \<le> hits s" "hits s2 \<le> hits s1"
      using touches_hits [OF os_rename_touches [OF c1]] touches_hits [OF t2] by blast+
    show ?thesis
      using s' f3 t4 t5 dd h removeRetry_result [OF c4] removeRetry_result [OF c5] os_sync_result [OF c3] c
      by (auto simp: pair_of_def)
  next
    case d
    then have s': "s' = (putLocked m s3)\<lparr>wake := True\<rparr>" "r = Inr ?i"
      using p c1 c2 c3 m2 by (auto simp: publish_def Let_def)
    have f3: "files s3 ?d = Some f" "files s3 ?p = Some \<lparr>content = Json (json_meta m), mtime = clock s\<rparr>"
      using os_rename_result [OF c1] d tmp d2 r2 m2 clk os_sync_result [OF c3] by auto
    have "\<not> dead s3" using c3 d by (auto elim!: os_sync_cases)
    then show ?thesis using s' f3 ix by (auto simp: pair_of_def)
  qed
  then show "fst (pair_of s' ?i) \<in> {None, Some f}"
    and "snd (pair_of s' ?i) \<in> {None, Some \<lparr>content = Json (json_meta m), mtime = clock s\<rparr>}"
    and "r = Inr j \<Longrightarrow> j = ?i \<and> index s' = (index s)(?i \<mapsto> m) \<and> \<not> dead s' \<and> fst (pair_of s' ?i) \<noteq> None \<and> snd (pair_of s' ?i) \<noteq> None"
    and "r = Inl e \<Longrightarrow> fst (pair_of s' ?i) \<noteq> None \<Longrightarrow> snd (pair_of s' ?i) \<noteq> None \<Longrightarrow> dead s' \<or> hits s \<ge> 11"
    by blast+
qed

text \<open>What the metadata of a message reads back as: JSON's value of it, its kind settled.\<close>

definition stored :: "meta \<Rightarrow> meta" where
  "stored m = (json_meta m)\<lparr>mEnvelope := normalizeKind (mEnvelope (json_meta m))\<rparr>"

lemma queued_pair:
  assumes "fst (pair_of s i) \<in> {None, Some f}"
    and "snd (pair_of s i) \<in> {None, Some \<lparr>content = Json (json_meta m), mtime = t\<rparr>}"
    and "Valid i" "mID m = i"
  shows "queued_on_disk (files s) i =
    (if fst (pair_of s i) \<noteq> None \<and> snd (pair_of s i) \<noteq> None then Some (stored m) else None)"
  using assms by (auto simp: pair_of_def queued_on_disk_def meta_on_disk_def stored_def)

definition commit_paths :: "id \<Rightarrow> path set" where
  "commit_paths i = {tmpPath i ''.eml'', tmpPath i ''.json'', dataPath i, metaPath i}"

lemma publish_touches:
  assumes p: "publish m s = (r, s')"
  shows "p \<notin> commit_paths (mID m) \<Longrightarrow> files s' p = files s p"
proof -
  assume n: "p \<notin> commit_paths (mID m)"
  let ?i = "mID m"
  obtain e1 s1 where c1: "os_rename (tmpPath ?i ''.eml'') (dataPath ?i) s = (e1, s1)" by fastforce
  obtain x1 s1' where c1': "os_remove (tmpPath ?i ''.eml'') s1 = (x1, s1')" by fastforce
  obtain e2 m2 s2 where c2: "writeMeta m s1 = (e2, m2, s2)" by (metis prod_cases3)
  obtain x2 s2' where c2': "os_remove (dataPath ?i) s2 = (x2, s2')" by fastforce
  obtain e3 s3 where c3: "os_sync s2 = (e3, s3)" by fastforce
  obtain x3 s4 where c4: "removeRetry (dataPath ?i) s3 = (x3, s4)" by fastforce
  obtain x4 s5 where c5: "removeRetry (metaPath ?i) s4 = (x4, s5)" by fastforce
  have "files s1 p = files s p" "files s1' p = files s1 p" "files s2 p = files s1 p"
    "files s2' p = files s2 p" "files s3 p = files s2 p" "files s4 p = files s3 p" "files s5 p = files s4 p"
    using n touches_other [OF os_rename_touches [OF c1], of p] touches_other [OF os_remove_touches [OF c1'], of p]
      touches_other [OF writeMeta_touches [OF c2], of p] touches_other [OF os_remove_touches [OF c2'], of p]
      touches_other [OF os_sync_touches [OF c3], of p] touches_other [OF removeRetry_touches [OF c4], of p]
      touches_other [OF removeRetry_touches [OF c5], of p]
    by (auto simp: commit_paths_def)
  then show ?thesis
    using p c1 c1' c2 c2' c3 c4 c5
    by (auto simp: publish_def Let_def split: option.splits prod.splits dest: writeMeta_mID)
qed

definition copy_body :: "id \<Rightarrow> (id \<Rightarrow> string) option \<Rightarrow> fnode \<Rightarrow> string" where
  "copy_body i pfx f0 = (case pfx of None \<Rightarrow> [] | Some h \<Rightarrow> h i) @ content_bytes (content f0)"

text \<open>
  \<open>commit_copy\<close> is \<open>publish\<close> after two steps that can only touch the temporary area.
\<close>

lemma commit_copy_cases:
  assumes "commit_copy rnd src env lt pfx s = (r, s')" "New rnd = Some i" "files s src = Some f0"
  obtains (early) e where "r = Inl e" "touches {tmpPath i ''.eml''} s s'"
  | (late) s2 where "touches {tmpPath i ''.eml''} s s2" "\<not> dead s2"
      "files s2 (tmpPath i ''.eml'') = Some \<lparr>content = Bytes (copy_body i pfx f0), mtime = clock s\<rparr>"
      "publish (new_meta i env (int (length (copy_body i pfx f0))) lt (clock s)) s2 = (r, s')"
proof -
  obtain r1 s1 where c1: "os_read src s = (r1, s1)" by fastforce
  have t1: "touches {tmpPath i ''.eml''} s s1" by (rule touches_mono [OF os_read_touches [OF c1]]) simp
  show thesis
  proof (cases r1)
    case (Inl e)
    then show thesis using assms c1 t1 early by (auto simp: commit_copy_def)
  next
    case (Inr f)
    then have f: "f = f0" using c1 assms(3) by (auto elim: os_read_cases)
    let ?b = "copy_body i pfx f0"
    obtain r2 s2 where c2: "writeSynced (tmpPath i ''.eml'') (Bytes ?b) (int (length ?b)) None s1 = (r2, s2)"
      by fastforce
    have t2: "touches {tmpPath i ''.eml''} s s2" by (rule touches_chain [OF t1 writeSynced_touches [OF c2]])
    have clk: "clock s1 = clock s" "clock s2 = clock s"
      using touches_memory [OF t1] touches_memory [OF t2] by (simp_all add: same_memory_def)
    show thesis
    proof (cases r2)
      case (Inl e)
      then show thesis using assms c1 c2 Inr f t2 early
        by (auto simp: commit_copy_def copy_body_def Let_def)
    next
      case (Inr n)
      note w = writeSynced_ok [OF c2 [unfolded Inr]]
      have "publish (new_meta i env (int (length ?b)) lt (clock s)) s2 = (r, s')"
        using assms c1 c2 \<open>r1 = Inr f\<close> f Inr w(2) clk
        by (auto simp: commit_copy_def copy_body_def Let_def)
      with late [of s2] t2 w clk show thesis by simp
    qed
  qed
qed

lemma new_meta_simps [simp]:
  "mID (new_meta i env n lt now) = i" "kind_settled (mEnvelope (new_meta i env n lt now))"
  by (simp_all add: new_meta_def)

lemma commit_copy_outcome:
  fixes pfx env lt i and s :: spool
  assumes c: "commit_copy rnd src env lt pfx s = (r, s')" and i: "New rnd = Some i" "Valid i"
    and src: "files s src = Some f0" and fresh: "pair_of s i = (None, None)"
  defines "b \<equiv> copy_body i pfx f0"
  defines "m \<equiv> new_meta i env (int (length b)) lt (clock s)"
  shows "queued_on_disk (files s') i \<in> {None, Some (stored m)}" (is ?A)
    and "queued_on_disk (files s') i \<noteq> None \<Longrightarrow>
           files s' (dataPath i) = Some \<lparr>content = Bytes b, mtime = clock s\<rparr>" (is "_ \<Longrightarrow> ?B")
    and "r = Inr j \<Longrightarrow> j = i \<and> \<not> dead s' \<and> index s' = (index s)(i \<mapsto> m) \<and>
           queued_on_disk (files s') i = Some (stored m)" (is "_ \<Longrightarrow> ?C")
    and "r = Inl e \<Longrightarrow> queued_on_disk (files s') i = None \<or> dead s' \<or> hits s \<ge> 11" (is "_ \<Longrightarrow> ?D")
proof -
  have "?A \<and> (queued_on_disk (files s') i \<noteq> None \<longrightarrow> ?B) \<and> (r = Inr j \<longrightarrow> ?C) \<and> (r = Inl e \<longrightarrow> ?D)"
    using c i(1) src
  proof (cases rule: commit_copy_cases)
    case (early e')
    have "files s' (dataPath i) = None"
      using touches_other [OF early(2), of "dataPath i"] fresh by (simp add: pair_of_def)
    then show ?thesis using early by simp
  next
    case (late s2)
    have m: "publish m s2 = (r, s')" using late(4) by (simp add: m_def b_def)
    have fr: "pair_of s2 (mID m) = (None, None)"
      using touches_other [OF late(1), of "dataPath i"] touches_other [OF late(1), of "metaPath i"] fresh
      by (simp add: pair_of_def m_def)
    have mid: "mID m = i" "kind_settled (mEnvelope m)" by (simp_all add: m_def)
    have mem: "index s2 = index s" "clock s2 = clock s"
      using touches_memory [OF late(1)] by (simp_all add: same_memory_def)
    have tmp: "files s2 (tmpPath (mID m) ''.eml'') = Some \<lparr>content = Bytes b, mtime = clock s\<rparr>"
      using late(3) by (simp add: b_def mid)
    note o = publish_outcome [OF m _ mid(2) tmp fr, unfolded mid mem, OF i(2)]
    have q: "queued_on_disk (files s') i = (if fst (pair_of s' i) \<noteq> None \<and> snd (pair_of s' i) \<noteq> None
        then Some (stored m) else None)"
      by (rule queued_pair [OF o(1,2) i(2) mid(1)])
    have "queued_on_disk (files s') i \<noteq> None \<Longrightarrow> ?B"
      using o(1) q by (auto simp: pair_of_def split: if_splits)
    moreover have "r = Inr j \<Longrightarrow> ?C" using o(3) [of j] q by auto
    moreover have "r = Inl e \<Longrightarrow> ?D"
      using o(4) [of e] q touches_hits [OF late(1)] by auto
    ultimately show ?thesis using q by auto
  qed
  then show ?A and "queued_on_disk (files s') i \<noteq> None \<Longrightarrow> ?B" and "r = Inr j \<Longrightarrow> ?C" and "r = Inl e \<Longrightarrow> ?D"
    by blast+
qed

lemma commit_copy_others:
  assumes c: "commit_copy rnd src env lt pfx s = (r, s')" and i: "New rnd = Some i"
    and src: "files s src = Some f0" and p: "p \<notin> commit_paths i"
  shows "files s' p = files s p"
  using c i src
proof (cases rule: commit_copy_cases)
  case (early e)
  then show ?thesis using p by (auto intro: touches_other simp: commit_paths_def)
next
  case (late s2)
  then have "files s2 p = files s p" using p by (auto intro: touches_other simp: commit_paths_def)
  then show ?thesis using publish_touches [OF late(4), of p] p by simp
qed

section \<open>What a commit leaves behind\<close>

text \<open>A spool with one staged body, for the witnesses.\<close>

definition demo_id :: id where "demo_id = ''AAAAAAAAAAAAAAAA''"

definition demo_rnd :: "string option" where
  "demo_rnd = Some [CHR 0x00, CHR 0x00, CHR 0x00, CHR 0x00, CHR 0x00,
     CHR 0x00, CHR 0x00, CHR 0x00, CHR 0x00, CHR 0x00]"

definition demo_stage :: staged where
  "demo_stage = \<lparr>stPath = Some (TmpDir, ''S.staged''), stSize = 5\<rparr>"

definition demo_env :: envelope where
  "demo_env = \<lparr>envFrom = ''a@x'', envTo = [''b@y''], envOrigin = ''app'', envRoute = ''main'',
     envListener = ''in'', envRemoteAddr = ''10.0.0.1'', envHelo = ''h'', envTLS = False, envSize = 0,
     envReceived = 7, envOriginalFrom = [], envKind = [], envNotification = False, envCanary = False\<rparr>"

definition demo_spool :: "fault list \<Rightarrow> spool" where
  "demo_spool fl = \<lparr>files = [(TmpDir, ''S.staged'') \<mapsto> \<lparr>content = Bytes ''hello'', mtime = 1\<rparr>],
     faults = fl, dead = False, clock = 10,
     index = (\<lambda>_. None), leased = {}, indexBytes = 0, depthCache = None, depthAt = 0,
     depthWindow = 0, fIndex = (\<lambda>_. None), fBytes = 0, fTtl = 0, maxBytes = 100, warnPercent = 0,
     reserved = 0, wake = False\<rparr>"

lemma demo_New [simp]: "New demo_rnd = Some demo_id"
proof -
  have "char_of (65::nat) = CHR ''A''" by (simp add: char_of_def bit_0)
  then show ?thesis
    by (simp add: demo_rnd_def demo_id_def New_def base32_block_def base32_digit_def)
qed

lemma demo_Valid [simp]: "Valid demo_id"
  by (simp add: demo_id_def Valid_def id_char_def is_upper_def)

lemma demo_fresh [simp]: "pair_of (demo_spool fl) demo_id = (None, None)"
  by (simp add: pair_of_def demo_spool_def path_defs)

text \<open>C1: A commit that is cut short anywhere, by failing system calls or by a crash at any of
  them, leaves every other message on disk as it was, and of its own message either nothing that
  recovery would index or the complete metadata beside the complete body (head and staged octets);
  success means the message is on disk and indexed, and an error answered to the client means it
  is not, short of a crash or of eleven failing calls.\<close>

theorem Commit_crash_safe:
  assumes c: "Commit rnd st env lt pfx s = (r, s')" and i: "New rnd = Some i" "Valid i"
    and st: "stPath st = Some src" "files s src = Some f0" and fresh: "pair_of s i = (None, None)"
  defines "b \<equiv> copy_body i pfx f0"
  defines "m \<equiv> new_meta i env (int (length b)) lt (clock s)"
  shows "(\<forall>j. j \<noteq> i \<longrightarrow> queued_on_disk (files s') j = queued_on_disk (files s) j \<and>
                  files s' (dataPath j) = files s (dataPath j)) \<and>
    queued_on_disk (files s') i \<in> {None, Some (stored m)} \<and>
    (queued_on_disk (files s') i \<noteq> None \<longrightarrow>
       files s' (dataPath i) = Some \<lparr>content = Bytes b, mtime = clock s\<rparr>) \<and>
    (case r of
       Inr j \<Rightarrow> j = i \<and> index s' = (index s)(i \<mapsto> m) \<and> queued_on_disk (files s') i = Some (stored m)
     | Inl e \<Rightarrow> queued_on_disk (files s') i = None \<or> dead s' \<or> hits s \<ge> 11)"
proof (cases "reserveQuota (stSize st) s")
  case (Pair e s1)
  show ?thesis
  proof (cases e)
    case (Some err)
    then have "r = Inl err" "s' = s" using c st Pair
      by (auto simp: Commit_def reserveQuota_def quota_reserve_def split: if_splits)
    then show ?thesis using fresh by (simp add: pair_of_def)
  next
    case None
    obtain s2 where c2: "commit_copy rnd src env lt pfx s1 = (r, s2)" and s': "s' = releaseQuota (stSize st) s2"
      using c st Pair None by (auto simp: Commit_def split: prod.splits)
    have s1: "files s1 = files s" "clock s1 = clock s" "index s1 = index s" "faults s1 = faults s"
      using Pair None by (auto simp: reserveQuota_def quota_reserve_def split: if_splits)
    have s2: "files s' = files s2" "index s' = index s2" "dead s' = dead s2"
      by (simp_all add: s' releaseQuota_def quota_release_def)
    have src: "files s1 src = Some f0" and fr: "pair_of s1 i = (None, None)"
      using st fresh s1 by (simp_all add: pair_of_def)
    have other: "files s' p = files s p" if "p \<notin> commit_paths i" for p
      using commit_copy_others [OF c2 i(1) src that] s1 s2 by simp
    have "queued_on_disk (files s') j = queued_on_disk (files s) j \<and>
        files s' (dataPath j) = files s (dataPath j)" if "j \<noteq> i" for j
      using that by (intro conjI queued_on_disk_cong other) (simp_all add: commit_paths_def)
    moreover note o = commit_copy_outcome [OF c2 i src fr, unfolded s1 s2 [symmetric], folded b_def, folded m_def]
    have "case r of
       Inr j \<Rightarrow> j = i \<and> index s' = (index s)(i \<mapsto> m) \<and> queued_on_disk (files s') i = Some (stored m)
     | Inl e \<Rightarrow> queued_on_disk (files s') i = None \<or> dead s' \<or> hits s \<ge> 11"
      using o(3,4) by (cases r) (simp_all only: sum.case, blast+)
    ultimately show ?thesis using o(1,2) by blast
  qed
qed

theorem Commit_crash_safe_witness:
  "queued_on_disk (files (snd (Commit demo_rnd demo_stage demo_env 60 None
      (demo_spool [Fine, Fine, Fine, Fine, Fine, Fine, Fine, Crash])))) demo_id \<in>
    {None, Some (stored (new_meta demo_id demo_env 5 60 10))}"
proof -
  let ?s = "demo_spool [Fine, Fine, Fine, Fine, Fine, Fine, Fine, Crash]"
  let ?f = "\<lparr>content = Bytes ''hello'', mtime = 1\<rparr>"
  have "files ?s (TmpDir, ''S.staged'') = Some ?f" "clock ?s = 10" by (simp_all add: demo_spool_def)
  moreover have "stPath demo_stage = Some (TmpDir, ''S.staged'')" by (simp add: demo_stage_def)
  moreover have "copy_body demo_id None ?f = ''hello''" by (simp add: copy_body_def)
  ultimately show ?thesis
    using Commit_crash_safe [OF surjective_pairing demo_New demo_Valid, of demo_stage _ ?s ?f demo_env 60 None]
    by simp
qed

end
