(* ===== verification/Spool_Claim.thy ===== *)
theory Spool_Claim
  imports Spool_Crash
begin

text \<open>
  Claiming, leases and reachability: what \<open>ClaimBatch\<close> returns, that a lease keeps every other
  actor away, and that every sequence of operations from an opened spool keeps the accounting
  invariant, whatever system calls fail on the way.
\<close>

section \<open>Claiming\<close>

definition complete_order :: "id list \<Rightarrow> (id \<rightharpoonup> 'v) \<Rightarrow> bool" where
  "complete_order order f \<longleftrightarrow> distinct order \<and> set order = dom f"

lemma ClaimBatch_frame: "ClaimBatch order now cap skip s = (out, s') \<Longrightarrow>
    s' = s\<lparr>leased := leased s \<union> mID ` set out\<rparr>"
  by (auto simp: ClaimBatch_def Let_def split: if_splits)

lemma ClaimBatch_select:
  assumes "ClaimBatch order now cap skip s = (out, s')" "0 < cap"
  defines "cands \<equiv> filter (due now skip s) (map (\<lambda>i. the (index s i)) order)"
  shows "sorted (map mReceived out) \<and> length out = min (nat cap) (length cands) \<and>
    (\<exists>rest. mset cands = mset out + rest \<and> (\<forall>m \<in> set out. \<forall>m' \<in># rest. mReceived m \<le> mReceived m'))"
proof -
  define h where "h = fold (heap_offer mReceived (nat cap)) cands []"
  have out: "out = heap_drain mReceived (length h) h []"
    using assms by (auto simp: ClaimBatch_def Let_def h_def)
  have "keeps_smallest mReceived (nat cap) ({#} + mset cands) h"
    unfolding h_def using assms(2) by (intro keeps_smallest_fold keeps_smallest_empty) simp
  then obtain rest where h: "is_heap mReceived h" and len: "length h = min (nat cap) (length cands)"
    and all: "mset cands = mset h + rest" and le: "\<forall>m \<in> set h. \<forall>m' \<in># rest. mReceived m \<le> mReceived m'"
    by (auto simp: keeps_smallest_def)
  have d: "sorted (map mReceived out)" "mset out = mset h"
    unfolding out using heap_drain_correct [OF h, of "length h" "[]"] by auto
  have "set out = set h" "length out = length h"
    using d(2) mset_eq_setD size_mset by metis+
  then show ?thesis using d all le len by auto
qed

lemma claimed_props:
  assumes c: "ClaimBatch order now cap skip s = (out, s')" "0 < cap"
    and ord: "complete_order order (index s)" and inv: "spool_inv s"
  shows "\<forall>m \<in> set out. index s (mID m) = Some m \<and> due now skip s m"
    and "distinct (map mID out)"
    and "\<forall>m \<in> set out. \<forall>i m'. index s i = Some m' \<longrightarrow> due now skip s m' \<longrightarrow> m' \<notin> set out \<longrightarrow>
           mReceived m \<le> mReceived m'"
    and "length out = min (nat cap) (card {i. \<exists>m. index s i = Some m \<and> due now skip s m})"
proof -
  define cands where "cands = filter (due now skip s) (map (\<lambda>i. the (index s i)) order)"
  have entry: "index s i = Some m \<Longrightarrow> mID m = i" for i m
    using inv by (simp add: spool_inv_def entry_ok_def)
  have mem: "m \<in> set cands \<longleftrightarrow> index s (mID m) = Some m \<and> due now skip s m" for m
  proof
    assume "m \<in> set cands"
    then obtain i where "i \<in> set order" "m = the (index s i)" "due now skip s m" by (auto simp: cands_def)
    moreover from this obtain m' where "index s i = Some m'" using ord by (auto simp: complete_order_def)
    ultimately show "index s (mID m) = Some m \<and> due now skip s m" using entry by simp
  next
    assume m: "index s (mID m) = Some m \<and> due now skip s m"
    then have "mID m \<in> set order" using ord by (auto simp: complete_order_def)
    then show "m \<in> set cands" using m unfolding cands_def by (auto intro!: image_eqI [of _ _ "mID m"])
  qed
  have "map mID (map (\<lambda>i. the (index s i)) order) = order"
    unfolding map_map
  proof (rule map_idI)
    fix i assume "i \<in> set order"
    then obtain m where "index s i = Some m" using ord by (auto simp: complete_order_def)
    then show "(mID \<circ> (\<lambda>i. the (index s i))) i = i" using entry by simp
  qed
  then have "distinct (map mID (map (\<lambda>i. the (index s i)) order))"
    using ord by (simp add: complete_order_def del: map_map)
  then have dc: "distinct (map mID cands)" unfolding cands_def by (rule distinct_map_filter)
  obtain rest where all: "mset cands = mset out + rest" and len: "length out = min (nat cap) (length cands)"
    and le: "\<forall>m \<in> set out. \<forall>m' \<in># rest. mReceived m \<le> mReceived m'"
    using ClaimBatch_select [OF c] by (auto simp: cands_def)
  have sub: "set out \<subseteq> set cands" using all by (metis mset_subset_eq_add_left set_mset_mono set_mset_mset)
  show 1: "\<forall>m \<in> set out. index s (mID m) = Some m \<and> due now skip s m" using sub mem by blast
  have "mset (map mID cands) = mset (map mID out) + image_mset mID rest" using all by simp
  moreover obtain ys where "mset ys = image_mset mID rest" using ex_mset by blast
  ultimately have "mset (map mID cands) = mset (map mID out @ ys)" by simp
  then show "distinct (map mID out)" using dc mset_eq_imp_distinct_iff distinct_append by metis
  show "\<forall>m \<in> set out. \<forall>i m'. index s i = Some m' \<longrightarrow> due now skip s m' \<longrightarrow> m' \<notin> set out \<longrightarrow>
      mReceived m \<le> mReceived m'"
  proof (intro ballI allI impI)
    fix m i m' assume m: "m \<in> set out" and i: "index s i = Some m'" "due now skip s m'" "m' \<notin> set out"
    then have "m' \<in> set cands" using mem entry by auto
    then have "m' \<in># mset out + rest" using all by (metis set_mset_mset)
    then show "mReceived m \<le> mReceived m'" using i(3) m le by auto
  qed
  have "mID ` set cands = {i. \<exists>m. index s i = Some m \<and> due now skip s m}"
    using mem entry by (auto simp: image_iff) 
  then have "card {i. \<exists>m. index s i = Some m \<and> due now skip s m} = length cands"
    using dc by (metis distinct_card length_map set_map)
  then show "length out = min (nat cap) (card {i. \<exists>m. index s i = Some m \<and> due now skip s m})"
    using len by simp
qed

section \<open>Leases\<close>

lemma leased_not_claimed:
  "ClaimBatch order now cap skip s = (out, s') \<Longrightarrow> i \<in> leased s \<Longrightarrow> i \<notin> mID ` set out"
proof (cases "0 < cap")
  case True
  assume c: "ClaimBatch order now cap skip s = (out, s')" and i: "i \<in> leased s"
  from ClaimBatch_select [OF c True] obtain rest where
    "mset (filter (due now skip s) (map (\<lambda>i. the (index s i)) order)) = mset out + rest" by blast
  then have "set out \<subseteq> set (filter (due now skip s) (map (\<lambda>i. the (index s i)) order))"
    by (metis mset_subset_eq_add_left set_mset_mono set_mset_mset)
  then show ?thesis using i by (auto simp: due_def)
qed (auto simp: ClaimBatch_def)

lemma busy_Requeue: "Valid i \<Longrightarrow> i \<in> leased s \<Longrightarrow> Requeue i f s j = (Some ErrBusy, s, j)"
  by (simp add: Requeue_def tryLease_def)

lemma busy_Discard: "Valid i \<Longrightarrow> i \<in> leased s \<Longrightarrow> Discard i s = (Some ErrBusy, s)"
  by (simp add: Discard_def tryLease_def)

section \<open>Every run keeps the accounts\<close>

inductive spool_step :: "spool \<Rightarrow> spool \<Rightarrow> bool" where
  s_stage: "Stage rnd body cap s = (r, s') \<Longrightarrow> spool_step s s'"
| s_discard_stage: "Staged_Discard st s = (st', s') \<Longrightarrow> spool_step s s'"
| s_commit: "Commit rnd st env lt pfx s = (r, s') \<Longrightarrow> spool_step s s'"
| s_claim: "ClaimBatch order now cap skip s = (ms, s') \<Longrightarrow> spool_step s s'"
| s_defer: "spool_step s (Defer m until s)"
| s_release: "Valid (mID m) \<Longrightarrow> Release m s = (e, s') \<Longrightarrow> spool_step s s'"
| s_remove: "Remove i s = (e, s') \<Longrightarrow> spool_step s s'"
| s_fail: "Fail m reason s = (e, s') \<Longrightarrow> spool_step s s'"
| s_requeue: "Requeue i None s () = (e, s', j') \<Longrightarrow> spool_step s s'"
| s_discard: "Discard i s = (e, s') \<Longrightarrow> spool_step s s'"
| s_sweep: "SweepFailed order now s = (n, b, s') \<Longrightarrow> spool_step s s'"
| s_depth: "QueueDepth order now el s = (d, s') \<Longrightarrow> spool_step s s'"
| s_quota: "spool_step s (quota_set gb wp s)"
| s_retention: "spool_step s (setRetention d s)"
| s_tick: "spool_step s (s\<lparr>clock := t\<rparr>)"
| s_trouble: "spool_step s (s\<lparr>faults := fl\<rparr>)"
| s_restart: "Open ls s = (e, s') \<Longrightarrow> spool_step s s'"

inductive_cases spool_stepE: "spool_step s s'"

lemma recover_meta_inv: "recover_meta bs i (ix, s) = (ix', s') \<Longrightarrow> spool_inv s \<Longrightarrow> spool_inv s'"
  by (auto simp: recover_meta_def readMeta_def split: if_splits prod.splits sum.splits
      dest!: inv_dest intro!: putLocked_inv simp: entry_ok_def)

lemma recover_metas_inv:
  "fold (recover_meta bs) ms (ix, s) = (ix', s') \<Longrightarrow> spool_inv s \<Longrightarrow> spool_inv s'"
proof (induction ms arbitrary: ix s)
  case (Cons i ms)
  then show ?case by (cases "recover_meta bs i (ix, s)") (auto dest: recover_meta_inv)
qed simp

lemma recover_bodies_inv: "spool_inv s \<Longrightarrow> spool_inv (fold (recover_body ix) bs s)"
  by (induction bs arbitrary: s) (auto simp: recover_body_def)

lemma reindex_inv: "spool_inv s \<Longrightarrow> spool_inv (fold reindex_entry ns s)"
proof (induction ns arbitrary: s)
  case (Cons n ns)
  have "spool_inv (reindex_entry n s)"
    using Cons.prems by (auto simp: reindex_entry_def Let_def split: option.splits prod.splits sum.splits
        dest!: inv_dest intro: failed_put_inv)
  then show ?case using Cons.IH by simp
qed simp

lemma sys_call_inv: 
  fixes s :: spool
  shows "sys_call s = (b, s') \<Longrightarrow> spool_inv s' = spool_inv s"
  by (cases s rule: sys_call_cases) (auto simp: spool_inv_def)

lemma scan_entry_inv: "scan_entry n (ms, bs, s) = (ms', bs', s') \<Longrightarrow> spool_inv s' = spool_inv s"
  by (auto simp: scan_entry_def split: if_splits option.splits)

lemma scan_fold_inv: "fold scan_entry ns (ms, bs, s) = (ms', bs', s') \<Longrightarrow> spool_inv s' = spool_inv s"
proof (induction ns arbitrary: ms bs s)
  case (Cons n ns)
  obtain ms1 bs1 s1 where "scan_entry n (ms, bs, s) = (ms1, bs1, s1)" by (metis prod_cases3)
  with Cons scan_entry_inv [OF this] show ?case by auto
qed simp

lemma scan_loop_inv: "scan_loop ns (ms, bs, s) = (ms', bs', s') \<Longrightarrow> spool_inv s' = spool_inv s"
proof (induction ns "(ms, bs, s)" arbitrary: ms bs s rule: scan_loop.induct)
  case (1 ns ms bs s)
  obtain b s1 where c: "sys_call s = (b, s1)" by fastforce
  obtain ms2 bs2 s2 where f: "fold scan_entry (take recoverBatch ns) (ms, bs, s1) = (ms2, bs2, s2)"
    by (metis prod_cases3)
  show ?case
    using 1(1) [OF c [symmetric]] 1(2) c f sys_call_inv [OF c] scan_fold_inv [OF f]
    by (auto simp: scan_loop.simps [of ns] Let_def split: bool.splits if_splits)
qed

lemma remove_names_inv: "spool_inv (remove_names d ns s) = spool_inv s"
  unfolding remove_names_def by (induction ns arbitrary: s) auto

lemma recover_inv:
  assumes "recover ls s = (e, s')" "spool_inv s"
  shows "spool_inv s'"
  using assms
  by (auto simp: recover_def scanQueue_def reindex_def remove_names_inv split: prod.splits bool.splits sum.splits
      dest!: sys_call_inv scan_loop_inv recover_metas_inv intro!: reindex_inv recover_bodies_inv)

lemma make_dirs_inv: "make_dirs n s = (e, s') \<Longrightarrow> spool_inv s' = spool_inv s"
proof (induction n arbitrary: s)
  case (Suc n)
  then show ?case by (auto split: prod.splits option.splits dest!: inv_dest)
qed simp

lemma Open_inv: "Open ls s = (e, s') \<Longrightarrow> spool_inv s'"
  by (auto simp: Open_def split: prod.splits option.splits dest!: make_dirs_inv dest: recover_inv)

lemma sweep_one_inv: "sweep_one i (n, b, s) = (n', b', s') \<Longrightarrow> spool_inv s \<Longrightarrow> spool_inv s'"
  by (auto simp: sweep_one_def split: prod.splits option.splits if_splits dest!: inv_dest)
    (metis failed_drop_inv snd_conv)+

lemma sweep_fold_inv: "fold sweep_one ids (n, b, s) = (n', b', s') \<Longrightarrow> spool_inv s \<Longrightarrow> spool_inv s'"
proof (induction ids arbitrary: n b s)
  case (Cons i ids)
  obtain n1 b1 s1 where "sweep_one i (n, b, s) = (n1, b1, s1)" by (metis prod_cases3)
  with Cons sweep_one_inv [OF this] show ?case by auto
qed simp

lemma SweepFailed_inv: "SweepFailed order now s = (n, b, s') \<Longrightarrow> spool_inv s \<Longrightarrow> spool_inv s'"
  by (auto simp: SweepFailed_def Let_def split: if_splits prod.splits dest!: sweep_fold_inv)
    (metis fs_inv(4) prod.collapse)

lemma spool_step_inv: "spool_step s s' \<Longrightarrow> spool_inv s \<Longrightarrow> spool_inv s'"
proof (induction rule: spool_step.induct)
  case (s_depth order now el s d s')
  then show ?case by (auto simp: QueueDepth_def Let_def split: option.splits if_splits)
next
  case (s_discard_stage st s st' s')
  then show ?case using Staged_Discard_inv by (metis snd_conv)
qed (auto intro: Stage_inv Commit_inv ClaimBatch_inv Defer_inv Release_inv Remove_inv Fail_inv
    Requeue_inv Discard_inv SweepFailed_inv Open_inv simp: quota_set_def setRetention_def)

end
