(* ===== verification/Spool_Fates.thy ===== *)
theory Spool_Fates
  imports Spool_Claim
begin

text \<open>
  Where a message ends up: the results of \<open>Remove\<close>, \<open>Discard\<close>, \<open>Fail\<close> and \<open>Requeue\<close> in memory and
  on disk, with any pattern of failing calls, and the exact effect of a run without faults.
\<close>

section \<open>Removal\<close>

lemma remove_loop_gone:
  "remove_loop n err p w = (e, w') \<Longrightarrow> (n = 0 \<Longrightarrow> err \<noteq> None \<and> \<not> IsNotExist (the err)) \<Longrightarrow>
   (\<And>x. e = Some x \<Longrightarrow> IsNotExist x) \<Longrightarrow> files w' p = None"
proof (induction n arbitrary: err w)
  case (Suc n)
  obtain e1 w1 where c: "os_remove p w = (e1, w1)" by fastforce
  show ?case
  proof (cases e1)
    case None
    then show ?thesis using Suc.prems(1) c os_remove_result [OF c] by auto
  next
    case (Some x)
    show ?thesis
    proof (cases "IsNotExist x")
      case True
      then show ?thesis using Suc.prems(1) c Some by (auto simp: IsNotExist_def elim: os_remove_cases)
    next
      case False
      then have "remove_loop n (Some x) p w1 = (e, w')" using Suc.prems(1) c Some by simp
      from Suc.IH [OF this] False Suc.prems(3) show ?thesis by simp
    qed
  qed
qed auto

lemma removeRetry_gone:
  "removeRetry p w = (e, w') \<Longrightarrow> (\<And>x. e = Some x \<Longrightarrow> IsNotExist x) \<Longrightarrow> files w' p = None"
  unfolding removeRetry_def by (rule remove_loop_gone) auto

lemma firstRealError_None: "firstRealError es = None \<longleftrightarrow> (\<forall>x. Some x \<in> set es \<longrightarrow> IsNotExist x)"
  by (induction es rule: firstRealError.induct) auto

lemma Remove_result:
  assumes r: "Remove i s = (e, s')" and v: "Valid i"
  shows "index s' = (index s)(i := None) \<and> leased s' = leased s - {i}"
    and "p \<notin> {dataPath i, metaPath i} \<Longrightarrow> files s' p = files s p"
    and "e = None \<Longrightarrow> pair_of s' i = (None, None)"
    and "queued_on_disk (files s') i \<noteq> None \<Longrightarrow> dead s' \<or> hits s \<ge> 10"
proof -
  define s2 where "s2 = (dropLocked i s)\<lparr>leased := leased s - {i}\<rparr>"
  obtain e3 s3 where c3: "removeRetry (dataPath i) s2 = (e3, s3)" by fastforce
  obtain e4 s4 where c4: "removeRetry (metaPath i) s3 = (e4, s4)" by fastforce
  obtain e5 s5 where c5: "os_sync s4 = (e5, s5)" by fastforce
  have s': "(e, s') = (case firstRealError [e3, e4] of Some x \<Rightarrow> (Some x, s4) | None \<Rightarrow> (e5, s5))"
    using r v c3 c4 c5 by (auto simp: Remove_def Let_def s2_def [symmetric] split: option.splits)
  have m: "same_memory s2 s3" "same_memory s3 s4" "same_memory s4 s5"
    using op_memory(5) [OF c3] op_memory(5) [OF c4] op_memory(4) [OF c5] by blast+
  have s2: "index s2 = (index s)(i := None)" "leased s2 = leased s - {i}" "files s2 = files s"
    "faults s2 = faults s" by (simp_all add: s2_def)
  then show "index s' = (index s)(i := None) \<and> leased s' = leased s - {i}"
    using s' m by (auto simp: same_memory_def split: option.splits)
  have f5: "files s5 = files s4" using os_sync_result [OF c5] by blast
  then have s'4: "files s' = files s4" using s' by (auto split: option.splits)
  show "files s' p = files s p" if "p \<notin> {dataPath i, metaPath i}"
    using that s'4 s2 touches_other [OF removeRetry_touches [OF c3], of p]
      touches_other [OF removeRetry_touches [OF c4], of p] by simp
  have k: "files s4 (dataPath i) = files s3 (dataPath i)"
    by (rule touches_other [OF removeRetry_touches [OF c4]]) simp
  show "pair_of s' i = (None, None)" if "e = None"
  proof -
    have "firstRealError [e3, e4] = None" using s' that by (auto split: option.splits)
    then have "\<And>x. e3 = Some x \<Longrightarrow> IsNotExist x" "\<And>x. e4 = Some x \<Longrightarrow> IsNotExist x"
      using firstRealError_None [of "[e3, e4]"] by auto
    then show ?thesis
      using removeRetry_gone [OF c3] removeRetry_gone [OF c4] k s'4 by (simp add: pair_of_def)
  qed
  show "dead s' \<or> hits s \<ge> 10" if q: "queued_on_disk (files s') i \<noteq> None"
  proof -
    have ne: "files s3 (dataPath i) \<noteq> None" "files s4 (metaPath i) \<noteq> None"
      using q s'4 k queued_on_disk_no_body queued_on_disk_no_meta by metis+
    have dd: "dead s3 \<Longrightarrow> dead s4" "dead s4 \<Longrightarrow> dead s5"
      using touches_dead [OF removeRetry_touches [OF c4]] touches_dead [OF os_sync_touches [OF c5]] by blast+
    have "dead s4 \<Longrightarrow> dead s'" using s' dd by (auto split: option.splits)
    then show ?thesis
      using removeRetry_result [OF c3] removeRetry_result [OF c4] ne dd s2(4) by auto
  qed
qed

section \<open>Discard\<close>

lemma removeOne_result:
  assumes "removeOne p (b, f, s) = (b', f', s')"
  shows "same_memory s s'" and "touches {p} s s'" and "f' = None \<Longrightarrow> f = None \<and> files s' p = None"
    and "f \<noteq> None \<Longrightarrow> f' = f"
proof -
  obtain e t where c: "removeRetry p s = (e, t)" by fastforce
  have t: "s' = t" using assms c by (auto simp: removeOne_def split: option.splits)
  show "same_memory s s'" "touches {p} s s'"
    using t op_memory(5) [OF c] removeRetry_touches [OF c] by simp_all
  show "f' = None \<Longrightarrow> f = None \<and> files s' p = None"
    using assms c t removeRetry_gone [OF c]
    by (auto simp: removeOne_def split: option.splits if_splits)
  show "f \<noteq> None \<Longrightarrow> f' = f"
    using assms c by (auto simp: removeOne_def split: option.splits if_splits)
qed

definition message_files :: "id \<Rightarrow> path set" where
  "message_files i = {dataPath i, metaPath i, failedPath i ''.eml'', failedPath i ''.json''}"

lemma remove_loop_OsErr:
  assumes "remove_loop n err p w = (Some e, w')" "\<And>x. err = Some x \<Longrightarrow> x \<notin> {ErrBusy, ErrNotFound}"
  shows "e \<notin> {ErrBusy, ErrNotFound}"
  using assms
proof (induction n arbitrary: err w)
  case (Suc n)
  obtain r w1 where r: "os_remove p w = (r, w1)" by fastforce
  have "x \<notin> {ErrBusy, ErrNotFound}" if "r = Some x" for x
    using r that by (auto simp: os_remove_def split: prod.splits bool.splits if_splits)
  then show ?case using Suc r by (auto split: option.splits if_splits)
qed auto

lemma removeOne_OsErr:
  assumes "removeOne p (b, f, s) = (b', f', s')" "\<forall>x. f = Some x \<longrightarrow> x \<notin> {ErrBusy, ErrNotFound}"
  shows "\<forall>x. f' = Some x \<longrightarrow> x \<notin> {ErrBusy, ErrNotFound}"
proof -
  obtain r w where r: "removeRetry p s = (r, w)" by fastforce
  have "x \<notin> {ErrBusy, ErrNotFound}" if "r = Some x" for x
    using remove_loop_OsErr [of 5 None p s x w] r that by (simp add: removeRetry_def)
  then show ?thesis using assms r by (auto simp: removeOne_def split: option.splits if_splits)
qed

lemma Discard_result:
  assumes d: "Discard i s = (e, s')" and v: "Valid i" and free: "i \<notin> leased s"
  shows "(\<forall>p \<in> message_files i. files s' p = None) \<and>
           index s' = (index s)(i := None) \<and> fIndex s' = (fIndex s)(i := None) \<or>
         e \<noteq> None \<and> e \<noteq> Some ErrNotFound \<and> index s' = index s \<and> fIndex s' = fIndex s \<and>
           indexBytes s' = indexBytes s \<and> fBytes s' = fBytes s"
    and "leased s' = leased s" and "p \<notin> message_files i \<Longrightarrow> files s' p = files s p" and "e \<noteq> Some ErrBusy"
proof -
  let ?s1 = "s\<lparr>leased := insert i (leased s)\<rparr>"
  obtain b1 f1 t1 where 1: "removeOne (dataPath i) (False, None, ?s1) = (b1, f1, t1)" by (metis prod_cases3)
  obtain b2 f2 t2 where 2: "removeOne (metaPath i) (b1, f1, t1) = (b2, f2, t2)" by (metis prod_cases3)
  obtain b3 f3 t3 where 3: "removeOne (failedPath i ''.eml'') (b2, f2, t2) = (b3, f3, t3)" by (metis prod_cases3)
  obtain b4 f4 t4 where 4: "removeOne (failedPath i ''.json'') (b3, f3, t3) = (b4, f4, t4)" by (metis prod_cases3)
  define u where "u = snd (failed_drop i (dropLocked i t4))"
  obtain e5 s5 where c5: "os_sync u = (e5, s5)" by fastforce
  obtain e6 s6 where c6: "os_sync s5 = (e6, s6)" by fastforce
  have D: "(e, s') = (case f4 of
      Some x \<Rightarrow> (Some x, dropLease i t4)
    | None \<Rightarrow> if \<not> b4 then (Some ErrNotFound, dropLease i u)
              else case e5 of Some x \<Rightarrow> (Some x, dropLease i s5) | None \<Rightarrow> (e6, dropLease i s6))"
    using d v free 1 2 3 4 c5 c6
    by (auto simp: Discard_def tryLease_def Let_def u_def [symmetric] split: option.splits if_splits)
  have f4: "x \<notin> {ErrBusy, ErrNotFound}" if "f4 = Some x" for x
    using removeOne_OsErr [OF 4 removeOne_OsErr [OF 3 removeOne_OsErr [OF 2 removeOne_OsErr [OF 1]]]] that by simp
  have sync: "x \<notin> {ErrBusy, ErrNotFound}" if "e5 = Some x \<or> e6 = Some x" for x
    using c5 c6 that by (auto simp: os_sync_def split: prod.splits if_splits)
  show "e \<noteq> Some ErrBusy" using D f4 sync by (auto split: option.splits if_splits)
  have m: "same_memory ?s1 t4"
    using removeOne_result(1) [OF 1] removeOne_result(1) [OF 2] removeOne_result(1) [OF 3]
      removeOne_result(1) [OF 4] same_memory_trans by blast
  have mu: "same_memory u s5" "same_memory s5 s6"
    using op_memory(4) [OF c5] op_memory(4) [OF c6] by blast+
  have fu: "files s5 = files u" "files s6 = files u" "files u = files t4"
    using os_sync_result [OF c5] os_sync_result [OF c6] by (simp_all add: u_def)
  have lu: "leased u = leased t4" by (simp add: u_def)
  show "leased s' = leased s"
    using D m mu lu free by (auto simp: same_memory_def dropLease_def split: option.splits if_splits)
  show "files s' p = files s p" if "p \<notin> message_files i"
  proof -
    have "files t4 p = files s p"
      using that touches_other [OF removeOne_result(2) [OF 1], of p] touches_other [OF removeOne_result(2) [OF 2], of p]
        touches_other [OF removeOne_result(2) [OF 3], of p] touches_other [OF removeOne_result(2) [OF 4], of p]
      by (simp add: message_files_def)
    then show ?thesis using D fu by (auto simp: dropLease_def split: option.splits if_splits)
  qed
  show "(\<forall>p \<in> message_files i. files s' p = None) \<and>
           index s' = (index s)(i := None) \<and> fIndex s' = (fIndex s)(i := None) \<or>
         e \<noteq> None \<and> e \<noteq> Some ErrNotFound \<and> index s' = index s \<and> fIndex s' = fIndex s \<and>
           indexBytes s' = indexBytes s \<and> fBytes s' = fBytes s"
  proof (cases f4)
    case (Some x)
    then show ?thesis using D m f4 [OF Some] by (auto simp: same_memory_def dropLease_def)
  next
    case None
    have f: "files t1 (dataPath i) = None" "files t2 (metaPath i) = None"
      "files t3 (failedPath i ''.eml'') = None" "files t4 (failedPath i ''.json'') = None"
      using None removeOne_result(3) [OF 1] removeOne_result(3) [OF 2] removeOne_result(3) [OF 3]
        removeOne_result(3) [OF 4] by blast+
    have "files t4 p = None" if "p \<in> message_files i" for p
      using that f touches_other [OF removeOne_result(2) [OF 2], of "dataPath i"]
        touches_other [OF removeOne_result(2) [OF 3], of "dataPath i"] touches_other [OF removeOne_result(2) [OF 4], of "dataPath i"]
        touches_other [OF removeOne_result(2) [OF 3], of "metaPath i"] touches_other [OF removeOne_result(2) [OF 4], of "metaPath i"]
        touches_other [OF removeOne_result(2) [OF 4], of "failedPath i ''.eml''"]
      by (auto simp: message_files_def)
    moreover have "index u = (index s)(i := None)" "fIndex u = (fIndex s)(i := None)"
      using m by (simp_all add: u_def same_memory_def)
    ultimately have "(\<forall>p \<in> message_files i. files s' p = None) \<and>
           index s' = (index s)(i := None) \<and> fIndex s' = (fIndex s)(i := None)"
      using None D fu mu by (auto simp: same_memory_def dropLease_def split: option.splits if_splits)
    then show ?thesis by blast
  qed
qed

section \<open>Requeueing a failed message\<close>

text \<open>
  Where a body can be while its message is brought back: in spool/failed or in the queue.
\<close>

definition body_somewhere :: "spool \<Rightarrow> id \<Rightarrow> fnode \<Rightarrow> bool" where
  "body_somewhere s i b \<longleftrightarrow> files s (dataPath i) = Some b \<or> files s (failedPath i ''.eml'') = Some b"

definition failed_pair :: "spool \<Rightarrow> id \<Rightarrow> fnode option \<times> fnode option" where
  "failed_pair s i = (files s (failedPath i ''.eml''), files s (failedPath i ''.json''))"

lemma requeueFailed_body:
  assumes r: "requeueFailed i s = (e, s')" and b: "files s (failedPath i ''.eml'') = Some b"
  shows "body_somewhere s' i b"
proof -
  let ?fm = "failedPath i ''.json''" and ?fb = "failedPath i ''.eml''"
  obtain r1 s1 where c1: "readMetaAt ?fm i s = (r1, s1)" by fastforce
  have f1: "files s1 ?fb = Some b" using touches_other [OF readMetaAt_touches [OF c1], of ?fb] b by simp
  show ?thesis
  proof (cases r1)
    case (Inl x)
    then show ?thesis using r c1 f1 by (auto simp: requeueFailed_def Let_def body_somewhere_def)
  next
    case (Inr m0)
    have id0: "mID m0 = i" using c1 Inr by (auto simp: readMetaAt_def split: prod.splits sum.splits content.splits if_splits)
    obtain r2 s2 where c2: "renameRetry ?fb (dataPath i) s1 = (r2, s2)" by fastforce
    note q2 = renameRetry_result [OF c2]
    obtain e3 m3 s3 where c3: "writeMeta (reset_meta m0 (clock s1)) s2 = (e3, m3, s3)" by (metis prod_cases3)
    have t3: "touches {tmpPath i ''.json'', metaPath i} s2 s3"
      using writeMeta_touches [OF c3] id0 by (simp add: reset_meta_def)
    show ?thesis
    proof (cases r2)
      case (Some x)
      then show ?thesis using r c1 Inr c2 f1 q2
        by (auto simp: requeueFailed_def Let_def body_somewhere_def)
    next
      case None
      have f3: "files s3 (dataPath i) = Some b"
        using q2 None f1 touches_other [OF t3, of "dataPath i"] by simp
      obtain r4 s4 where c4: "renameRetry (dataPath i) ?fb s3 = (r4, s4)" by fastforce
      obtain r5 s5 where c5: "os_remove ?fm s3 = (r5, s5)" by fastforce
      obtain r6 s6 where c6: "os_sync s5 = (r6, s6)" by fastforce
      obtain r7 s7 where c7: "os_sync s6 = (r7, s7)" by fastforce
      have "body_somewhere s4 i b"
        using renameRetry_result [OF c4] f3 by (auto simp: body_somewhere_def split: option.splits)
      moreover have "files s5 (dataPath i) = Some b"
        using touches_other [OF os_remove_touches [OF c5], of "dataPath i"] f3 by simp
      ultimately show ?thesis
        using r c1 Inr c2 None c3 c4 c5 c6 c7 os_sync_result [OF c6] os_sync_result [OF c7]
        by (auto simp: requeueFailed_def Let_def body_somewhere_def split: option.splits)
    qed
  qed
qed

lemma requeueFailed_ok:
  assumes r: "requeueFailed i s = (None, s')" and v: "Valid i"
  shows "\<exists>m. index s' = (index s)(i \<mapsto> m) \<and> mAttempts m = 0 \<and> mNextAttempt m = clock s \<and> mLastError m = [] \<and>
      queued_on_disk (files s') i = Some (stored m) \<and> files s' (dataPath i) = files s (failedPath i ''.eml'')"
    and "fIndex s' = (fIndex s)(i := None)" and "failed_pair s' i = (None, None)"
proof -
  let ?fm = "failedPath i ''.json''" and ?fb = "failedPath i ''.eml''"
  obtain m0 s1 where c1: "readMetaAt ?fm i s = (Inr m0, s1)"
    using r by (auto simp: requeueFailed_def Let_def split: prod.splits sum.splits)
  obtain s2 where c2: "renameRetry ?fb (dataPath i) s1 = (None, s2)"
    using r c1 by (auto simp: requeueFailed_def Let_def split: prod.splits option.splits)
  obtain m3 s3 where c3: "writeMeta (reset_meta m0 (clock s1)) s2 = (None, m3, s3)"
    using r c1 c2 by (auto simp: requeueFailed_def Let_def split: prod.splits option.splits)
  obtain r5 s5 where c5: "os_remove ?fm s3 = (r5, s5)" by fastforce
  have g5: "firstRealError [r5] = None"
    using r c1 c2 c3 c5 by (auto simp: requeueFailed_def Let_def split: option.splits)
  obtain s6 where c6: "os_sync s5 = (None, s6)"
    using r c1 c2 c3 c5 g5 by (auto simp: requeueFailed_def Let_def split: prod.splits option.splits)
  obtain s7 where c7: "os_sync s6 = (None, s7)"
    using r c1 c2 c3 c5 g5 c6 by (auto simp: requeueFailed_def Let_def split: prod.splits option.splits)
  have s': "s' = snd (failed_drop i (putLocked m3 s7))"
    using r c1 c2 c3 c5 g5 c6 c7 by (auto simp: requeueFailed_def Let_def)
  have id0: "mID m0 = i" using readMetaAt_entry [OF c1 v] by (simp add: entry_ok_def)
  have m3: "m3 = (reset_meta m0 (clock s1))\<lparr>mEnvelope := normalizeKind (mEnvelope m0)\<rparr>"
    using writeMeta_result [OF c3] v id0 by (simp add: reset_meta_def)
  have mem: "index s7 = index s" "fIndex s7 = fIndex s" "clock s1 = clock s"
    using op_memory(9) [OF c1] op_memory(6) [OF c2] op_memory(8) [OF c3] op_memory(1) [OF c5]
      op_memory(4) [OF c6] op_memory(4) [OF c7] by (simp_all add: same_memory_def)
  have t3: "touches {tmpPath i ''.json'', metaPath i} s2 s3"
    using writeMeta_touches [OF c3] id0 by (simp add: reset_meta_def)
  have f7: "files s7 = files s5" using os_sync_result [OF c6] os_sync_result [OF c7] by simp
  have q2: "files s2 = (files s1)(?fb := None, dataPath i := files s1 ?fb)" "files s1 ?fb \<noteq> None"
    using renameRetry_result [OF c2] by auto
  have d1: "files s1 ?fb = files s ?fb" using touches_other [OF readMetaAt_touches [OF c1], of ?fb] by simp
  have k5: "files s5 p = files s3 p" if "p \<noteq> ?fm" for p
    using touches_other [OF os_remove_touches [OF c5], of p] that by simp
  have d7: "files s7 (dataPath i) = files s ?fb"
    using k5 [of "dataPath i"] touches_other [OF t3, of "dataPath i"] q2 d1 f7 by simp
  have p7: "files s7 (metaPath i) = Some \<lparr>content = Json (json_meta m3), mtime = clock s2\<rparr>"
    using writeMeta_files [OF c3] k5 [of "metaPath i"] f7 id0 by (simp add: reset_meta_def)
  have idm3: "mID m3 = i" by (simp add: m3 id0 reset_meta_def)
  have "queued_on_disk (files s') i = Some (stored m3)"
    using d7 p7 q2(2) d1 v idm3 by (simp add: s' queued_on_disk_def meta_on_disk_def stored_def)
  moreover have "index s' = (index s)(i \<mapsto> m3)" using mem idm3 by (simp add: s')
  ultimately show "\<exists>m. index s' = (index s)(i \<mapsto> m) \<and> mAttempts m = 0 \<and> mNextAttempt m = clock s \<and> mLastError m = [] \<and>
      queued_on_disk (files s') i = Some (stored m) \<and> files s' (dataPath i) = files s (failedPath i ''.eml'')"
    using d7 mem by (intro exI [of _ m3] conjI) (simp_all add: s', simp_all add: m3 reset_meta_def)
  show "fIndex s' = (fIndex s)(i := None)" using mem by (simp add: s')
  have "files s5 ?fm = None"
    using c5 by (cases rule: os_remove_cases) (use g5 in \<open>simp_all add: IsNotExist_def\<close>)
  moreover have "files s5 ?fb = None"
    using k5 [of ?fb] touches_other [OF t3, of ?fb] q2 by simp
  ultimately show "failed_pair s' i = (None, None)" using f7 by (simp add: failed_pair_def s')
qed

section \<open>Failing\<close>

lemma Fail_memory:
  assumes "Fail m reason s = (e, s')"
  shows "index s' = (index s)(mID m := None) \<and> leased s' = leased s - {mID m} \<and>
    (\<exists>n. fIndex s' = (fIndex s)(mID m \<mapsto> \<lparr>feSize = n, feAt = clock s\<rparr>))"
proof -
  obtain e1 m1 s1 where c1: "writeMeta (m\<lparr>mLastError := reason\<rparr>) s = (e1, m1, s1)" by (metis prod_cases3)
  let ?i = "mID m"
  define s3 where "s3 = (dropLocked ?i s1)\<lparr>leased := leased s1 - {?i}\<rparr>"
  obtain e4 s4 where c4: "fail_move (metaPath ?i) (failedPath ?i ''.json'') None s3 = (e4, s4)" by fastforce
  obtain r5 s5 where c5: "os_read (dataPath ?i) s4 = (r5, s5)" by fastforce
  obtain e6 s6 where c6: "fail_move (dataPath ?i) (failedPath ?i ''.eml'') e4 s5 = (e6, s6)" by fastforce
  let ?n = "case r5 of Inr f \<Rightarrow> content_length (content f) | Inl _ \<Rightarrow> 0"
  define s7 where "s7 = failed_put ?i \<lparr>feSize = ?n, feAt = clock s6\<rparr> s6"
  obtain e8 s8 where c8: "os_sync s7 = (e8, s8)" by fastforce
  have "mID m1 = ?i" using writeMeta_mID [OF c1] by simp
  then have s': "s' = (if e6 = None then s8 else s7)"
    using assms c1 c4 c5 c6 c8
    by (auto simp: Fail_def Let_def s3_def [symmetric] s7_def [symmetric] split: option.splits)
  have mem: "same_memory s s1" "same_memory s3 s4" "same_memory s4 s5" "same_memory s5 s6" "same_memory s7 s8"
    using op_memory(8) [OF c1] op_memory(10) [OF c4] op_memory(3) [OF c5] op_memory(10) [OF c6]
      op_memory(4) [OF c8] by blast+
  then have "index s6 = (index s)(?i := None)" "leased s6 = leased s - {?i}" "fIndex s6 = fIndex s" "clock s6 = clock s"
    by (simp_all add: same_memory_def s3_def)
  then show ?thesis using s' mem(5) by (auto simp: same_memory_def s7_def)
qed

end
