(* ===== verification/Spool_Limits.thy ===== *)
theory Spool_Limits
  imports Spool_Fates
begin

text \<open>
  Runs without faults, computed exactly: the way of a message through \<open>Fail\<close> and back through
  \<open>Requeue\<close>; and concrete runs at the edge of what recovery promises, where a single failing read
  or a crash between two renames costs a message that had been accepted.
\<close>

section \<open>Runs without faults\<close>

lemma calm_create: "calm w \<Longrightarrow> files w p = None \<Longrightarrow>
    os_create p w = (None, w\<lparr>files := (files w)(p \<mapsto> \<lparr>content = Bytes [], mtime = clock w\<rparr>)\<rparr>)"
  by (simp add: os_create_def)

lemma calm_write: "calm w \<Longrightarrow>
    os_write p c w = (None, w\<lparr>files := (files w)(p \<mapsto> \<lparr>content = c, mtime = clock w\<rparr>)\<rparr>)"
  by (simp add: os_write_def)

lemma calm_writeSynced: "calm w \<Longrightarrow> files w p = None \<Longrightarrow>
    writeSynced p c n None w = (Inr n, w\<lparr>files := (files w)(p \<mapsto> \<lparr>content = c, mtime = clock w\<rparr>)\<rparr>)"
  by (simp add: writeSynced_def calm_create calm_write)

lemma calm_rename: "calm w \<Longrightarrow> files w p = Some f \<Longrightarrow>
    os_rename p q w = (None, w\<lparr>files := (files w)(p := None, q := Some f)\<rparr>)"
  by (simp add: os_rename_def)

lemma calm_renameRetry: "calm w \<Longrightarrow> files w p = Some f \<Longrightarrow>
    renameRetry p q w = (None, w\<lparr>files := (files w)(p := None, q := Some f)\<rparr>)"
  unfolding renameRetry_def by (simp add: numeral_eq_Suc calm_rename)

lemma calm_writeMeta:
  assumes "calm s" "Valid (mID m)" "files s (tmpPath (mID m) ''.json'') = None"
  defines "m' \<equiv> m\<lparr>mEnvelope := normalizeKind (mEnvelope m)\<rparr>"
  shows "writeMeta m s = (None, m', s\<lparr>files := (files s)(metaPath (mID m) \<mapsto>
           \<lparr>content = Json (json_meta m'), mtime = clock s\<rparr>)\<rparr>)"
  using assms(1-3)
  by (auto simp: writeMeta_def Let_def calm_writeSynced calm_rename m'_def fun_upd_idem
      intro!: arg_cong [where f = "\<lambda>F. s\<lparr>files := F\<rparr>"])

lemma calm_index_upd [simp]:
  "calm (s\<lparr>leased := L\<rparr>) = calm s" "calm (dropLocked i s) = calm s"
  "calm (snd (failed_drop i s)) = calm s"
  by (simp_all add: calm_def)

section \<open>There and back\<close>

text \<open>The message as \<open>Fail\<close> writes it and as \<open>Requeue\<close> brings it back.\<close>

definition failed_copy :: "meta \<Rightarrow> string \<Rightarrow> meta" where
  "failed_copy m reason = stored (m\<lparr>mLastError := reason, mEnvelope := normalizeKind (mEnvelope m)\<rparr>)"

lemma stored_ID [simp]: "Valid (mID m) \<Longrightarrow> mID (stored m) = mID m"
  by (simp add: stored_def)

lemma calm_Fail:
  assumes c: "calm s" and v: "Valid (mID m)" and t: "files s (tmpPath (mID m) ''.json'') = None"
    and b: "files s (dataPath (mID m)) = Some bf" and s': "Fail m reason s = (e, s')"
  defines "i \<equiv> mID m"
  defines "m1 \<equiv> m\<lparr>mLastError := reason, mEnvelope := normalizeKind (mEnvelope m)\<rparr>"
  shows "e = None" and "calm s'" and "clock s' = clock s"
    and "files s' = (files s)(metaPath i := None, failedPath i ''.json'' \<mapsto> \<lparr>content = Json (json_meta m1), mtime = clock s\<rparr>,
           dataPath i := None, failedPath i ''.eml'' \<mapsto> bf)"
    and "index s' = (index s)(i := None)" and "leased s' = leased s - {i}"
    and "fIndex s' = (fIndex s)(i \<mapsto> \<lparr>feSize = content_length (content bf), feAt = clock s\<rparr>)"
proof -
  let ?m = "m\<lparr>mLastError := reason\<rparr>"
  let ?f = "\<lparr>content = Json (json_meta m1), mtime = clock s\<rparr>"
  let ?s1 = "s\<lparr>files := (files s)(metaPath i \<mapsto> ?f)\<rparr>"
  have wm: "writeMeta ?m s = (None, m1, ?s1)"
    using calm_writeMeta [OF c, of ?m] v t by (simp add: m1_def i_def)
  have idm1: "mID m1 = i" by (simp add: m1_def i_def)
  define s3 where "s3 = (dropLocked i ?s1)\<lparr>leased := leased s - {i}\<rparr>"
  have c3: "calm s3" and f3: "files s3 = (files s)(metaPath i \<mapsto> ?f)" and k3: "clock s3 = clock s"
    using c by (simp_all add: s3_def)
  let ?s4 = "s3\<lparr>files := (files s3)(metaPath i := None, failedPath i ''.json'' := Some ?f)\<rparr>"
  have m4: "fail_move (metaPath i) (failedPath i ''.json'') None s3 = (None, ?s4)"
    using calm_renameRetry [OF c3] f3 by (simp add: fail_move_def)
  have b4: "files ?s4 (dataPath i) = Some bf" using b f3 by (simp add: i_def)
  have r5: "os_read (dataPath i) ?s4 = (Inr bf, ?s4)" using calm_read [of ?s4 "dataPath i"] c3 b4 by simp
  let ?s6 = "?s4\<lparr>files := (files ?s4)(dataPath i := None, failedPath i ''.eml'' := Some bf)\<rparr>"
  have "calm ?s4" using c3 by simp
  from calm_renameRetry [OF this b4]
  have m6: "fail_move (dataPath i) (failedPath i ''.eml'') None ?s4 = (None, ?s6)"
    by (simp only: fail_move_def prod.case option.case)
  define s7 where "s7 = failed_put i \<lparr>feSize = content_length (content bf), feAt = clock s\<rparr> ?s6"
  have c7: "calm s7" using c3 by (simp add: s7_def)
  have s7: "s' = s7" "e = None"
    using s' wm m4 r5 m6 c3 k3 idm1
    by (auto simp: Fail_def Let_def s3_def [symmetric] s7_def)
  then show "e = None" "calm s'" "clock s' = clock s" using c7 k3 by (simp_all add: s7_def)
  show "files s' = (files s)(metaPath i := None, failedPath i ''.json'' \<mapsto> ?f,
           dataPath i := None, failedPath i ''.eml'' \<mapsto> bf)"
    using f3 by (simp add: s7 s7_def)
  show "index s' = (index s)(i := None)" "leased s' = leased s - {i}"
    "fIndex s' = (fIndex s)(i \<mapsto> \<lparr>feSize = content_length (content bf), feAt = clock s\<rparr>)"
    by (simp_all add: s7 s7_def s3_def)
qed

lemma calm_readMetaAt:
  assumes "calm s" "files s p = Some \<lparr>content = Json (json_meta m), mtime = t\<rparr>" "Valid (mID m)"
  shows "readMetaAt p (mID m) s = (Inr (stored m), s)"
  using assms by (simp add: readMetaAt_def calm_read stored_def)

lemma calm_requeueFailed:
  assumes c: "calm s" and v: "Valid (mID m)" and i: "i = mID m"
    and j: "files s (failedPath i ''.json'') = Some \<lparr>content = Json (json_meta m), mtime = t\<rparr>"
    and b: "files s (failedPath i ''.eml'') = Some bf" and tm: "files s (tmpPath i ''.json'') = None"
  defines "m1 \<equiv> reset_meta (stored m) (clock s)"
  shows "fst (requeueFailed i s) = None"
    and "index (snd (requeueFailed i s)) = (index s)(i \<mapsto> m1)"
    and "files (snd (requeueFailed i s)) (dataPath i) = Some bf"
proof -
  let ?fb = "failedPath i ''.eml''" and ?fm = "failedPath i ''.json''"
  let ?s1 = "s\<lparr>files := (files s)(?fb := None, dataPath i := Some bf)\<rparr>"
  have k: "mEnvelope m1 = normalizeKind (mEnvelope m1)" "mID m1 = i"
    using v i by (simp_all add: m1_def reset_meta_def stored_def)
  then have m1: "m1\<lparr>mEnvelope := normalizeKind (mEnvelope m1)\<rparr> = m1" by simp
  let ?s2 = "?s1\<lparr>files := (files ?s1)(metaPath i \<mapsto> \<lparr>content = Json (json_meta m1), mtime = clock s\<rparr>)\<rparr>"
  have c1: "calm ?s1" "calm ?s2" using c by simp_all
  have rd: "readMetaAt ?fm i s = (Inr (stored m), s)" using calm_readMetaAt [OF c j [unfolded i] v] i by simp
  have rn: "renameRetry ?fb (dataPath i) s = (None, ?s1)" by (rule calm_renameRetry [OF c b])
  have wm: "writeMeta m1 ?s1 = (None, m1, ?s2)"
    using calm_writeMeta [OF c1(1), of m1] v i k m1 tm by simp
  let ?s3 = "?s2\<lparr>files := (files ?s2)(?fm := None)\<rparr>"
  have rm: "os_remove ?fm ?s2 = (None, ?s3)" using calm_remove [OF c1(2), of ?fm] j by simp
  have c3: "calm ?s3" using c by simp
  then have "requeueFailed i s = (None, snd (failed_drop i (putLocked m1 ?s3)))"
    using rd rn wm rm by (simp add: requeueFailed_def Let_def m1_def [symmetric] del: calm_upd)
  then show "fst (requeueFailed i s) = None" "index (snd (requeueFailed i s)) = (index s)(i \<mapsto> m1)"
    "files (snd (requeueFailed i s)) (dataPath i) = Some bf"
    using k by simp_all
qed

lemma reset_failed_copy:
  assumes "envelope_utf8 (mEnvelope m)" "kind_settled (mEnvelope m)" "Valid (mID m)"
  shows "reset_meta (stored (m\<lparr>mLastError := r, mEnvelope := normalizeKind (mEnvelope m)\<rparr>)) t = reset_meta m t"
proof -
  have "json_envelope (mEnvelope m) = mEnvelope m" using assms(1) json_envelope_id_iff by blast
  moreover have "json_string (mID m) = mID m" using assms(3) by (simp add: json_string_valid Valid_utf8)
  ultimately show ?thesis using assms(2) by (cases m) (simp add: reset_meta_def stored_def json_meta_def)
qed

text \<open>A message that failed permanently leaves the queue but stays on the books and on disk,
  and the operator's requeue brings exactly it back: the same body, the same envelope, no attempts
  behind it, due at once, and its lease free again.\<close>

theorem fail_requeue_roundtrip:
  assumes c: "calm s" and v: "Valid (mID m)"
    and u: "envelope_utf8 (mEnvelope m)" "kind_settled (mEnvelope m)"
    and t: "files s (tmpPath (mID m) ''.json'') = None" and b: "files s (dataPath (mID m)) = Some bf"
    and f: "Fail m reason s = (e1, s1)" and q: "Requeue (mID m) None s1 () = (e2, s2, x)"
  shows "e1 = None \<and> index s1 (mID m) = None \<and> Has (mID m) s1 \<and>
    fIndex s1 (mID m) = Some \<lparr>feSize = content_length (content bf), feAt = clock s\<rparr> \<and>
    e2 = None \<and> index s2 (mID m) = Some (reset_meta m (clock s)) \<and>
    files s2 (dataPath (mID m)) = Some bf \<and> mID m \<notin> leased s2"
proof -
  let ?i = "mID m" and ?m1 = "m\<lparr>mLastError := reason, mEnvelope := normalizeKind (mEnvelope m)\<rparr>"
  note F = calm_Fail [OF c v t b f]
  let ?s = "s1\<lparr>leased := insert ?i (leased s1)\<rparr>"
  have j: "files ?s (failedPath ?i ''.json'') = Some \<lparr>content = Json (json_meta ?m1), mtime = clock s\<rparr>"
    "files ?s (failedPath ?i ''.eml'') = Some bf" "files ?s (tmpPath ?i ''.json'') = None"
    using t by (simp_all add: F(4))
  note R = calm_requeueFailed [of ?s ?m1 ?i, OF _ _ _ j]
  have r: "fst (requeueFailed ?i ?s) = None"
    "index (snd (requeueFailed ?i ?s)) = (index s1)(?i \<mapsto> reset_meta m (clock s))"
    "files (snd (requeueFailed ?i ?s)) (dataPath ?i) = Some bf"
  proof -
    have "calm ?s" "Valid (mID ?m1)" "?i = mID ?m1" "clock ?s = clock s" "index ?s = index s1"
      using F(2,3) v by simp_all
    note R = R [OF this(1-3)] and k = this(4,5)
    show "fst (requeueFailed ?i ?s) = None" by (rule R(1))
    show "index (snd (requeueFailed ?i ?s)) = (index s1)(?i \<mapsto> reset_meta m (clock s))"
      using R(2) unfolding k reset_failed_copy [OF u v] .
    show "files (snd (requeueFailed ?i ?s)) (dataPath ?i) = Some bf" by (rule R(3))
  qed
  have "e2 = None \<and> s2 = dropLease ?i (snd (requeueFailed ?i ?s))"
  proof -
    obtain e' s' where rf: "requeueFailed ?i ?s = (e', s')" by fastforce
    then show ?thesis using q r(1) v F(5,6) by (simp add: Requeue_def tryLease_def)
  qed
  then have "e2 = None" "index s2 = index (snd (requeueFailed ?i ?s))" "?i \<notin> leased s2"
    "files s2 = files (snd (requeueFailed ?i ?s))"
    by (simp_all add: dropLease_def)
  moreover have "Has ?i s1" using F(7) v by (simp add: Has_def failed_has_def)
  ultimately show ?thesis using F(1,5,7) r(2,3) by simp
qed

definition demo_meta :: meta where
  "demo_meta = \<lparr>mID = demo_id, mEnvelope = demo_env, mAttempts = 3, mLastError = ''451'',
     mNextAttempt = 10, mExpires = 70\<rparr>"

definition queued_spool :: "fault list \<Rightarrow> spool" where
  "queued_spool fl = (demo_spool fl)\<lparr>files :=
     [metaPath demo_id \<mapsto> \<lparr>content = Json demo_meta, mtime = 1\<rparr>,
      dataPath demo_id \<mapsto> \<lparr>content = Bytes ''hello'', mtime = 1\<rparr>]\<rparr>"

lemma demo_meta_ID [simp]: "mID demo_meta = demo_id" "mEnvelope demo_meta = demo_env"
  by (simp_all add: demo_meta_def)

lemma demo_env_ok [simp]: "envelope_utf8 demo_env" "kind_settled demo_env"
  by code_simp+

theorem fail_requeue_roundtrip_witness:
  "index (fst (snd (Requeue demo_id None (snd (Fail demo_meta ''550'' (queued_spool []))) ()))) demo_id =
     Some (reset_meta demo_meta 10)"
proof -
  have s: "calm (queued_spool [])" "files (queued_spool []) (tmpPath demo_id ''.json'') = None"
    "files (queued_spool []) (dataPath demo_id) = Some \<lparr>content = Bytes ''hello'', mtime = 1\<rparr>"
    "clock (queued_spool []) = 10"
    by (simp_all add: queued_spool_def demo_spool_def calm_def)
  obtain e1 s1 where f: "Fail demo_meta ''550'' (queued_spool []) = (e1, s1)" by fastforce
  obtain e2 s2 x where q: "Requeue demo_id None s1 () = (e2, s2, x)" by (metis prod_cases3)
  show ?thesis
    using fail_requeue_roundtrip [of "queued_spool []" demo_meta "\<lparr>content = Bytes ''hello'', mtime = 1\<rparr>" "''550''" e1 s1 e2 s2 x]
      s f q by simp
qed

section \<open>Where recovery loses a message\<close>

definition queued_listing :: "dir \<Rightarrow> string list" where
  "queued_listing d = (if d = QueueDir then [demo_id @ ''.json'', demo_id @ ''.eml''] else [])"

text \<open>The limit of recovery under a failing read. When one metadata file cannot be read at
  start, \<open>Open\<close> reports success, the message is not indexed and its body has been deleted; when the
  directory read fails with an empty batch, the scan ends as if the directory were read to its end
  and \<open>Open\<close> reports success over an empty queue. Without the failure the message is recovered.\<close>

theorem recovery_hides_read_faults:
  "(let (e, s) = Open queued_listing (queued_spool (replicate 10 Fine @ [Fails]))
    in e = None \<and> index s demo_id = None \<and> files s (dataPath demo_id) = None \<and>
       files s (metaPath demo_id) \<noteq> None) \<and>
   (let (e, s) = Open queued_listing (queued_spool (replicate 8 Fine @ [Fails]))
    in e = None \<and> index s demo_id = None \<and> files s (metaPath demo_id) \<noteq> None \<and>
       files s (dataPath demo_id) \<noteq> None) \<and>
   (let (e, s) = Open queued_listing (queued_spool [])
    in e = None \<and> index s demo_id \<noteq> None \<and> files s (dataPath demo_id) \<noteq> None)"
  by code_simp

definition failed_spool :: "fault list \<Rightarrow> spool" where
  "failed_spool fl = (demo_spool fl)\<lparr>files :=
     [failedPath demo_id ''.json'' \<mapsto> \<lparr>content = Json demo_meta, mtime = 1\<rparr>,
      failedPath demo_id ''.eml'' \<mapsto> \<lparr>content = Bytes ''hello'', mtime = 1\<rparr>]\<rparr>"

definition split_listing :: "dir \<Rightarrow> string list" where
  "split_listing d = (case d of QueueDir \<Rightarrow> [demo_id @ ''.eml''] | FailedDir \<Rightarrow> [demo_id @ ''.json''] | TmpDir \<Rightarrow> [])"

text \<open>The limit of crash safety on the failed side. A crash inside \<open>Requeue\<close>, between moving the
  body back and writing its metadata, and a crash inside \<open>Fail\<close>, between moving the metadata and
  moving the body, each leave a body in the queue directory without metadata there: the next start
  deletes it, and spool/failed keeps listing a message that has no body.\<close>

theorem crash_windows_lose_body:
  "(let (e1, s1, x) = Requeue demo_id None (failed_spool [Fine, Fine, Crash]) ();
        (e2, s2) = Open split_listing s1
    in dead s1 \<and> e2 = None \<and> files s2 (dataPath demo_id) = None \<and>
       files s2 (failedPath demo_id ''.eml'') = None \<and> Has demo_id s2) \<and>
   (let (e1, s1) = Fail demo_meta ''550'' (queued_spool (replicate 7 Fine @ [Crash]));
        (e2, s2) = Open split_listing s1
    in dead s1 \<and> e2 = None \<and> files s2 (dataPath demo_id) = None \<and>
       files s2 (failedPath demo_id ''.eml'') = None \<and> Has demo_id s2)"
  by code_simp

end
