(* ===== verification/Spool_Quota.thy ===== *)
theory Spool_Quota
  imports Spool_Limits
begin

text \<open>
  The ceiling on the spool and the per-route depth, \<open>internal/spool/quota.go\<close> and \<open>QueueDepth\<close>.
  Commits one after another stay within the quota; commits interleaved step by step, as their
  separate locks allow, can pass it by more than one message. The depth is the same for every
  order in which the index is walked.
\<close>

section \<open>Commits one after another\<close>

lemma publish_bytes:
  assumes "publish m s = (Inr j, s')" "kind_settled (mEnvelope m)" "index s (mID m) = None"
  shows "indexBytes s' = i64 (indexBytes s + mSize m) \<and> fBytes s' = fBytes s \<and>
    reserved s' = reserved s \<and> maxBytes s' = maxBytes s"
proof -
  obtain s1 where c1: "os_rename (tmpPath (mID m) ''.eml'') (dataPath (mID m)) s = (None, s1)"
    using assms(1) by (auto simp: publish_def Let_def split: prod.splits option.splits)
  obtain m2 s2 where c2: "writeMeta m s1 = (None, m2, s2)"
    using assms(1) c1 by (auto simp: publish_def Let_def split: prod.splits option.splits)
  obtain s3 where c3: "os_sync s2 = (None, s3)"
    using assms(1) c1 c2 by (auto simp: publish_def Let_def split: prod.splits option.splits)
  have m2: "m2 = m" using writeMeta_result [OF c2] writeMeta_ok_Valid [OF c2] assms(2) by simp
  have s': "s' = (putLocked m s3)\<lparr>wake := True\<rparr>"
    using assms(1) c1 c2 c3 m2 by (simp add: publish_def Let_def)
  have "same_memory s s3"
    using op_memory(2) [OF c1] op_memory(8) [OF c2] op_memory(4) [OF c3] same_memory_trans by blast
  then show ?thesis using assms(3) by (simp add: s' same_memory_def putLocked_def)
qed

lemma Commit_bytes:
  assumes c: "Commit rnd st env lt pfx s = (Inr j, s')" and i: "New rnd = Some i"
    and st: "stPath st = Some src" "files s src = Some f0" and new: "index s i = None"
  shows "reserveQuota (stSize st) s \<noteq> (Some ErrQuotaExceeded, s)"
    and "indexBytes s' = i64 (indexBytes s + int (length (copy_body i pfx f0)))"
    and "fBytes s' = fBytes s" and "maxBytes s' = maxBytes s"
    and "reserved s' = i64 (i64 (reserved s + stSize st) - stSize st)"
proof -
  obtain e s1 where q: "reserveQuota (stSize st) s = (e, s1)" by fastforce
  have e: "e = None" using c st q by (auto simp: Commit_def split: option.splits)
  then show "reserveQuota (stSize st) s \<noteq> (Some ErrQuotaExceeded, s)" using q by simp
  obtain s2 where c2: "commit_copy rnd src env lt pfx s1 = (Inr j, s2)" and s': "s' = releaseQuota (stSize st) s2"
    using c st q e by (auto simp: Commit_def split: prod.splits)
  have s1: "s1 = s\<lparr>reserved := i64 (reserved s + stSize st)\<rparr>"
    using q e by (auto simp: reserveQuota_def quota_reserve_def split: if_splits)
  have src: "files s1 src = Some f0" using st(2) s1 by simp
  let ?m = "new_meta i env (int (length (copy_body i pfx f0))) lt (clock s1)"
  have "indexBytes s2 = i64 (indexBytes s1 + mSize ?m) \<and> fBytes s2 = fBytes s1 \<and>
      reserved s2 = reserved s1 \<and> maxBytes s2 = maxBytes s1"
    using c2 i src
  proof (cases rule: commit_copy_cases)
    case (late t)
    have "same_memory s1 t" using touches_memory [OF late(1)] .
    then show ?thesis
      using publish_bytes [OF late(4)] new s1 by (simp add: same_memory_def)
  qed simp
  then show "indexBytes s' = i64 (indexBytes s + int (length (copy_body i pfx f0)))"
    "fBytes s' = fBytes s" "maxBytes s' = maxBytes s"
    "reserved s' = i64 (i64 (reserved s + stSize st) - stSize st)"
    by (simp_all add: s' s1 releaseQuota_def quota_release_def new_meta_def)
qed

text \<open>With a quota configured and commits one after another, a message is only accepted while
  queued and failed bodies, reservations and the new message together fit, and afterwards the
  spool occupies at most the quota plus the header prepended to this copy.\<close>

theorem commit_within_quota:
  assumes c: "Commit rnd st env lt pfx s = (Inr j, s')" and i: "New rnd = Some i"
    and st: "stPath st = Some src" "files s src = Some f0" "stSize st = int (length (content_bytes (content f0)))"
    and new: "index s i = None" and quota: "0 < maxBytes s"
    and range: "0 \<le> indexBytes s" "0 \<le> fBytes s" "0 \<le> reserved s"
      "indexBytes s + fBytes s + reserved s + int (length (copy_body i pfx f0)) < 2 ^ 63"
  shows "indexBytes s + fBytes s + reserved s + stSize st \<le> maxBytes s \<and>
    usedBytes s' \<le> maxBytes s' + int (length (copy_body i pfx f0)) - stSize st"
proof -
  note B = Commit_bytes [OF c i st(1,2) new]
  have le: "stSize st \<le> int (length (copy_body i pfx f0))" "0 \<le> stSize st"
    using st(3) by (simp_all add: copy_body_def)
  have "indexBytes s + fBytes s + reserved s + stSize st \<le> maxBytes s"
    using B(1) quota range le
    by (auto simp: reserveQuota_def quota_reserve_def liveAndFailedBytes_def failed_occupied_def i64_id
        split: if_splits)
  moreover have "usedBytes s' = indexBytes s + fBytes s + reserved s + int (length (copy_body i pfx f0))"
    using B(2-5) range le by (simp add: usedBytes_def liveAndFailedBytes_def failed_occupied_def i64_id)
  ultimately show ?thesis using B(4) by simp
qed

lemma demo_commit_ok:
  "fst (Commit demo_rnd demo_stage demo_env 60 None (demo_spool [])) = Inr demo_id"
  unfolding Commit_def commit_copy_def demo_New option.case by code_simp

theorem commit_within_quota_witness:
  "usedBytes (snd (Commit demo_rnd demo_stage demo_env 60 None (demo_spool []))) \<le> 100"
proof -
  let ?f = "\<lparr>content = Bytes ''hello'', mtime = 1\<rparr>"
  obtain s' where c: "Commit demo_rnd demo_stage demo_env 60 None (demo_spool []) = (Inr demo_id, s')"
    using demo_commit_ok by (metis prod.collapse)
  have "files (demo_spool []) (TmpDir, ''S.staged'') = Some ?f" "index (demo_spool []) demo_id = None"
    "maxBytes (demo_spool []) = 100" "indexBytes (demo_spool []) = 0" "fBytes (demo_spool []) = 0"
    "reserved (demo_spool []) = 0" "stPath demo_stage = Some (TmpDir, ''S.staged'')" "stSize demo_stage = 5"
    "copy_body demo_id None ?f = ''hello''" "content_bytes (content ?f) = ''hello''"
    by (simp_all add: demo_spool_def demo_stage_def copy_body_def)
  moreover have "maxBytes s' = 100"
    using Commit_bytes(4) [OF c demo_New] calculation by simp
  ultimately show ?thesis using commit_within_quota [OF c demo_New, of _ ?f] c by simp
qed

section \<open>Commits interleaved\<close>

text \<open>
  The steps of the commits of several connections, each under its own lock: read what is occupied,
  reserve against the reading, enter the index, release the reservation. \<open>phase\<close> is what one
  commit has done; a commit is its size and its message.
\<close>

datatype phase = Begun | HasRead int | Admitted | Indexed | Ended

definition commit_turn :: "meta \<Rightarrow> phase \<Rightarrow> spool \<Rightarrow> phase \<times> spool" where
  "commit_turn m ph s =
     (case ph of
        Begun \<Rightarrow> (HasRead (liveAndFailedBytes s), s)
      | HasRead occ \<Rightarrow>
          (case quota_reserve (mSize m) occ s of
             (None, s') \<Rightarrow> (Admitted, s')
           | (Some _, s') \<Rightarrow> (Ended, s'))
      | Admitted \<Rightarrow> (Indexed, putLocked m s)
      | Indexed \<Rightarrow> (Ended, quota_release (mSize m) s)
      | Ended \<Rightarrow> (Ended, s))"

fun interleave :: "(nat \<Rightarrow> meta) \<Rightarrow> nat list \<Rightarrow> (nat \<Rightarrow> phase) \<Rightarrow> spool \<Rightarrow> spool" where
  "interleave ms [] ph s = s"
| "interleave ms (k # ks) ph s =
     (case commit_turn (ms k) (ph k) s of (p, s') \<Rightarrow> interleave ms ks (ph(k := p)) s')"

definition sized_meta :: "int \<Rightarrow> nat \<Rightarrow> meta" where
  "sized_meta n k = \<lparr>mID = replicate k CHR ''A'', mEnvelope = demo_env\<lparr>envSize := n\<rparr>, mAttempts = 0,
     mLastError = [], mNextAttempt = 10, mExpires = 70\<rparr>"

text \<open>Interleaved commits can pass the quota by more than one message. Four messages of 40 against a quota of 100: two are admitted while the other two have already
  read an empty spool; the first two are indexed and released, then the others reserve against
  their old reading. The spool ends with 160, past the quota by more than one message.
\<close>

theorem quota_overshoot:
  "usedBytes (interleave (sized_meta 40) [0, 1, 2, 3, 0, 1, 0, 1, 0, 1, 2, 3, 2, 3, 2, 3]
      (\<lambda>_. Begun) (demo_spool [])) = 160 \<and> maxBytes (demo_spool []) = 100"
  by code_simp

section \<open>Depth\<close>

definition waiting :: "spool \<Rightarrow> instant \<Rightarrow> id \<Rightarrow> bool" where
  "waiting s now i \<longleftrightarrow> i \<notin> leased s \<and> mNextAttempt (the (index s i)) > now"

definition on_route :: "spool \<Rightarrow> string \<Rightarrow> id \<Rightarrow> bool" where
  "on_route s r i \<longleftrightarrow> mRoute (the (index s i)) = r"

definition depth_of :: "spool \<Rightarrow> instant \<Rightarrow> string \<Rightarrow> id set \<Rightarrow> RouteDepth option" where
  "depth_of s now r I =
     (let Q = {i \<in> I. on_route s r i \<and> \<not> waiting s now i}; D = {i \<in> I. on_route s r i \<and> waiting s now i}
      in if Q \<union> D = {} then None
         else Some \<lparr>Queued = int (card Q), Deferred = int (card D),
                    OldestQueued = (if Q = {} then 0 else Min ((\<lambda>i. mReceived (the (index s i))) ` Q))\<rparr>)"

definition oldest_of :: "instant \<Rightarrow> instant \<Rightarrow> instant" where
  "oldest_of old new = (if old = 0 \<or> new < old then new else old)"

lemma oldest_of_min: "(Q \<noteq> {} \<Longrightarrow> m \<noteq> 0) \<Longrightarrow>
    oldest_of (if Q = {} then 0 else m) new = (if Q = {} then new else min new m)"
  by (cases "Q = {}") (simp_all add: oldest_of_def min_def)

lemma depth_step_eq:
  assumes "finite I" "i \<notin> I" and pos: "\<forall>j \<in> insert i I. 0 < mReceived (the (index s j))"
    and out: "\<forall>r. out r = depth_of s now r I"
  shows "depth_step s now i out r = depth_of s now r (insert i I)"
proof (cases "on_route s r i")
  case False
  then have "{j \<in> insert i I. on_route s r j \<and> P j} = {j \<in> I. on_route s r j \<and> P j}" for P by auto
  then have "depth_of s now r (insert i I) = depth_of s now r I" by (simp add: depth_of_def)
  moreover have "depth_step s now i out r = out r" using False by (simp add: depth_step_def on_route_def Let_def)
  ultimately show ?thesis using out by simp
next
  case True
  let ?rc = "\<lambda>i. mReceived (the (index s i))"
  let ?Q = "{j \<in> I. on_route s r j \<and> \<not> waiting s now j}" and ?D = "{j \<in> I. on_route s r j \<and> waiting s now j}"
  have r: "mRoute (the (index s i)) = r" using True by (simp add: on_route_def)
  have fin: "finite ?Q" "finite ?D" and ni: "i \<notin> ?Q" "i \<notin> ?D" using assms(1,2) by auto
  have pQ: "?Q \<noteq> {} \<Longrightarrow> Min (?rc ` ?Q) \<noteq> 0"
    using Min_in [of "?rc ` ?Q"] fin(1) pos by fastforce
  show ?thesis
  proof (cases "waiting s now i")
    case True
    then have "{j \<in> insert i I. on_route s r j \<and> waiting s now j} = insert i ?D"
      "{j \<in> insert i I. on_route s r j \<and> \<not> waiting s now j} = ?Q" using \<open>on_route s r i\<close> by auto
    then have "depth_of s now r (insert i I) = Some \<lparr>Queued = int (card ?Q), Deferred = int (card ?D) + 1,
        OldestQueued = (if ?Q = {} then 0 else Min (?rc ` ?Q))\<rparr>"
      using fin ni by (simp add: depth_of_def Let_def)
    moreover have "depth_step s now i out r = Some \<lparr>Queued = int (card ?Q), Deferred = int (card ?D) + 1,
        OldestQueued = (if ?Q = {} then 0 else Min (?rc ` ?Q))\<rparr>"
    proof (cases "?Q \<union> ?D = {}")
      case True
      then have "out r = None" unfolding out [rule_format] depth_of_def Let_def by (rule if_P)
      moreover have z: "?Q = {}" "?D = {}" using True by blast+
      moreover have "i \<notin> leased s \<and> now < mNextAttempt (the (index s i))"
        using \<open>waiting s now i\<close> by (simp add: waiting_def)
      ultimately show ?thesis unfolding z using r
        by (simp add: depth_step_def zero_depth_def Let_def)
    next
      case False
      then have "out r = Some \<lparr>Queued = int (card ?Q), Deferred = int (card ?D),
          OldestQueued = (if ?Q = {} then 0 else Min (?rc ` ?Q))\<rparr>"
        unfolding out [rule_format] depth_of_def Let_def by (rule if_not_P)
      moreover have "i \<notin> leased s \<and> now < mNextAttempt (the (index s i))"
        using \<open>waiting s now i\<close> by (simp add: waiting_def)
      ultimately show ?thesis using r by (simp add: depth_step_def Let_def)
    qed
    ultimately show ?thesis by simp
  next
    case False
    then have e: "{j \<in> insert i I. on_route s r j \<and> waiting s now j} = ?D"
      "{j \<in> insert i I. on_route s r j \<and> \<not> waiting s now j} = insert i ?Q" using \<open>on_route s r i\<close> by auto
    have mn: "Min (?rc ` insert i ?Q) = (if ?Q = {} then ?rc i else min (?rc i) (Min (?rc ` ?Q)))"
    proof (cases "?Q = {}")
      case True
      show ?thesis unfolding True by simp
    next
      case False
      have "finite (?rc ` ?Q)" by (rule finite_imageI [OF fin(1)])
      moreover have "?rc ` ?Q \<noteq> {}" using False by blast
      ultimately show ?thesis unfolding if_not_P [OF False] image_insert by (rule Min_insert)
    qed
    let ?res = "Some \<lparr>Queued = int (card ?Q) + 1, Deferred = int (card ?D),
        OldestQueued = (if ?Q = {} then ?rc i else min (?rc i) (Min (?rc ` ?Q)))\<rparr>"
    have "depth_of s now r (insert i I) = ?res"
      unfolding depth_of_def e Let_def mn using fin ni by simp
    moreover have "depth_step s now i out r = ?res"
    proof (cases "?Q \<union> ?D = {}")
      case True
      then have "out r = None" unfolding out [rule_format] depth_of_def Let_def by (rule if_P)
      moreover have z: "?Q = {}" "?D = {}" using True by blast+
      moreover have "\<not> (i \<notin> leased s \<and> now < mNextAttempt (the (index s i)))"
        using \<open>\<not> waiting s now i\<close> by (simp add: waiting_def)
      ultimately show ?thesis unfolding z using r
        by (simp add: depth_step_def zero_depth_def Let_def)
    next
      case False
      then have "out r = Some \<lparr>Queued = int (card ?Q), Deferred = int (card ?D),
          OldestQueued = (if ?Q = {} then 0 else Min (?rc ` ?Q))\<rparr>"
        unfolding out [rule_format] depth_of_def Let_def by (rule if_not_P)
      moreover have "\<not> (i \<notin> leased s \<and> now < mNextAttempt (the (index s i)))"
        using \<open>\<not> waiting s now i\<close> by (simp add: waiting_def)
      ultimately have "depth_step s now i out r = Some \<lparr>Queued = int (card ?Q) + 1, Deferred = int (card ?D),
          OldestQueued = oldest_of (if ?Q = {} then 0 else Min (?rc ` ?Q)) (?rc i)\<rparr>"
        using r by (simp add: depth_step_def Let_def oldest_of_def)
      moreover have "oldest_of (if ?Q = {} then 0 else Min (?rc ` ?Q)) (?rc i) =
          (if ?Q = {} then ?rc i else min (?rc i) (Min (?rc ` ?Q)))"
        by (rule oldest_of_min [OF pQ])
      ultimately show ?thesis by presburger
    qed
    ultimately show ?thesis by simp
  qed
qed

lemma depth_fold:
  "distinct xs \<Longrightarrow> \<forall>i \<in> set xs. 0 < mReceived (the (index s i)) \<Longrightarrow>
   fold (depth_step s now) xs (\<lambda>_. None) r = depth_of s now r (set xs)"
proof (induction xs arbitrary: r rule: rev_induct)
  case Nil
  show ?case by (simp add: depth_of_def)
next
  case (snoc i xs)
  have "\<forall>r. fold (depth_step s now) xs (\<lambda>_. None) r = depth_of s now r (set xs)"
    using snoc by simp
  from depth_step_eq [OF _ _ _ this, of i r] snoc.prems show ?case by simp
qed

text \<open>A freshly computed depth counts, for each route that has messages, the claimable or
  leased ones and the waiting ones apart, with the oldest claimable arrival, whatever the order in
  which the index is walked; asked again within the cache window, the answer is that same one.\<close>

theorem queue_depth_counts:
  assumes ord: "complete_order order (index s)" and pos: "\<forall>i m. index s i = Some m \<longrightarrow> 0 < mReceived m"
    and none: "depthCache s = None" and q: "QueueDepth order now el s = (d, s')"
    and later: "now \<le> t" "t < now + second"
  shows "d r = depth_of s now r (dom (index s)) \<and> fst (QueueDepth order' t el' s') = d"
proof -
  let ?w = "let w = i64 (depthScanBudget * el) in if w < depthCacheFloor then depthCacheFloor else w"
  have d: "d = fold (depth_step s now) order (\<lambda>_. None)"
    and s': "depthCache s' = Some d" "depthAt s' = now" "depthWindow s' = ?w"
    using q none by (auto simp: QueueDepth_def Let_def)
  have "second \<le> ?w" by (simp add: depthCacheFloor_def Let_def)
  then have "0 \<le> time_sub t now \<and> time_sub t now < ?w"
    using later by (auto simp: time_sub_def max_int64_def time_units)
  then have "fst (QueueDepth order' t el' s') = d" using s' by (simp add: QueueDepth_def Let_def)
  moreover have "d r = depth_of s now r (dom (index s))"
  proof -
    have "\<forall>i \<in> set order. 0 < mReceived (the (index s i))" using ord pos by (force simp: complete_order_def)
    then show ?thesis unfolding d using depth_fold [of order s now r] ord by (simp add: complete_order_def)
  qed
  ultimately show ?thesis by simp
qed

definition indexed_spool :: spool where
  "indexed_spool = (queued_spool [])\<lparr>index := [demo_id \<mapsto> demo_meta]\<rparr>"

theorem queue_depth_counts_witness:
  "fst (QueueDepth [demo_id] 20 5 indexed_spool) ''main'' =
     depth_of indexed_spool 20 ''main'' (dom (index indexed_spool))"
proof -
  have "complete_order [demo_id] (index indexed_spool)"
    "\<forall>i m. index indexed_spool i = Some m \<longrightarrow> 0 < mReceived m" "depthCache indexed_spool = None"
    by (auto simp: indexed_spool_def complete_order_def queued_spool_def demo_spool_def demo_env_def)
  then show ?thesis
    using queue_depth_counts [of "[demo_id]" indexed_spool 20 5 "fst (QueueDepth [demo_id] 20 5 indexed_spool)"
        "snd (QueueDepth [demo_id] 20 5 indexed_spool)" 20 "''main''" "[]" 0]
    by (simp add: time_units)
qed

end
