(* ===== verification/Spool_Properties.thy ===== *)
theory Spool_Properties
  imports Spool_Quota
begin

text \<open>
  What the spool promises its callers, over the definitions of the spool theories: recovery,
  claiming, leases, the accounts, and the removal, discarding and requeueing of a message under
  any pattern of failing system calls.
\<close>

text \<open>C3: Opening a spool directory without faults indexes exactly the messages whose metadata and
  body are both on disk, accounts for every failed message, empties the temporary area, and leaves
  a body in the queue directory only for an indexed message.\<close>

theorem open_recovers_disk:
  assumes "faults s = []" and "listing_of (files s) ls"
  shows "fst (Open ls s) = None \<and> index (snd (Open ls s)) = queued_on_disk (files s) \<and>
    fIndex (snd (Open ls s)) = failed_on_disk (files s) \<and> leased (snd (Open ls s)) = {} \<and>
    (\<forall>n. files (snd (Open ls s)) (TmpDir, n) = None) \<and>
    (\<forall>i. files (snd (Open ls s)) (dataPath i) =
       (if queued_on_disk (files s) i = None then None else files s (dataPath i)))"
  by (rule Open_calm [OF assms]) simp

lemma queued_listing_ok: "listing_of (files (queued_spool [])) queued_listing"
  by (auto simp: listing_of_def queued_listing_def queued_spool_def path_defs split: if_splits)

theorem open_recovers_disk_witness:
  "index (snd (Open queued_listing (queued_spool []))) demo_id = Some (stored demo_meta)"
proof -
  have "faults (queued_spool []) = []" by (simp add: queued_spool_def demo_spool_def)
  from open_recovers_disk [OF this queued_listing_ok]
  have "index (snd (Open queued_listing (queued_spool []))) demo_id = queued_on_disk (files (queued_spool [])) demo_id"
    by simp
  also have "\<dots> = Some (stored demo_meta)" by code_simp
  finally show ?thesis .
qed

text \<open>C4: A batch claim returns at most the number asked for and never fewer than there are due
  messages to fill it, all of them queued, due, unleased and on a route not skipped, each once,
  oldest first; no due message left behind is older than one returned; and exactly the returned
  ones become leased.\<close>

theorem claim_batch_oldest:
  assumes c: "ClaimBatch order now cap skip s = (out, s')" and "0 < cap"
    and ord: "complete_order order (index s)" and inv: "spool_inv s"
  shows "sorted (map mReceived out) \<and> distinct (map mID out) \<and>
    length out = min (nat cap) (card {i. \<exists>m. index s i = Some m \<and> due now skip s m}) \<and>
    (\<forall>m \<in> set out. index s (mID m) = Some m \<and> due now skip s m) \<and>
    (\<forall>m \<in> set out. \<forall>i m'. index s i = Some m' \<and> due now skip s m' \<and> m' \<notin> set out \<longrightarrow>
       mReceived m \<le> mReceived m') \<and>
    s' = s\<lparr>leased := leased s \<union> mID ` set out\<rparr>"
  using ClaimBatch_select [OF c \<open>0 < cap\<close>] claimed_props [OF assms] ClaimBatch_frame [OF c] by blast

lemma indexed_spool_inv: "spool_inv indexed_spool"
proof -
  have "index_total (index indexed_spool) = 0"
    by (simp add: index_total_def indexed_spool_def demo_env_def)
  then show ?thesis
    by (auto simp: spool_inv_def indexed_spool_def queued_spool_def demo_spool_def failed_total_def
        entry_ok_def i64_def)
qed

lemma indexed_order: "complete_order [demo_id] (index indexed_spool)"
  by (simp add: complete_order_def indexed_spool_def)

theorem claim_batch_oldest_witness:
  "leased (snd (ClaimBatch [demo_id] 20 5 None indexed_spool)) =
     mID ` set (fst (ClaimBatch [demo_id] 20 5 None indexed_spool))"
  using claim_batch_oldest [OF surjective_pairing _ indexed_order indexed_spool_inv, of 5 20 None]
  by (simp add: indexed_spool_def queued_spool_def demo_spool_def)

text \<open>C5: A leased message belongs to the worker that holds it: an operator's requeue or discard is
  refused as busy and changes nothing, and no later claim returns it; in particular two claims in a
  row share no message.\<close>

theorem lease_excludes:
  assumes "Valid i" "i \<in> leased s"
  shows "Requeue i f s j = (Some ErrBusy, s, j) \<and> Discard i s = (Some ErrBusy, s) \<and>
    i \<notin> mID ` set (fst (ClaimBatch order now cap skip s)) \<and>
    mID ` set (fst (ClaimBatch order now cap skip s)) \<inter>
    mID ` set (fst (ClaimBatch order' now' cap' skip' (snd (ClaimBatch order now cap skip s)))) = {}"
proof -
  obtain out s1 where c1: "ClaimBatch order now cap skip s = (out, s1)" by fastforce
  obtain out2 s2 where c2: "ClaimBatch order' now' cap' skip' s1 = (out2, s2)" by fastforce
  have "k \<notin> mID ` set out2" if "k \<in> mID ` set out" for k
    using leased_not_claimed [OF c2] ClaimBatch_frame [OF c1] that by simp
  then show ?thesis
    using busy_Requeue [OF assms] busy_Discard [OF assms] leased_not_claimed [OF c1 assms(2)] c1 c2 by auto
qed

theorem lease_excludes_witness:
  "Discard demo_id (indexed_spool\<lparr>leased := {demo_id}\<rparr>) = (Some ErrBusy, indexed_spool\<lparr>leased := {demo_id}\<rparr>)"
  using lease_excludes [of demo_id "indexed_spool\<lparr>leased := {demo_id}\<rparr>" None "()" "[]" 0 0 None "[]" 0 0 None]
  by simp

text \<open>C6: From an opened spool, any sequence of operations under any faults, restarts included,
  keeps the two running byte totals equal to the sums over the two indexes, and every indexed entry
  under its own valid identifier with one settled kind.\<close>

theorem accounts_always_balance:
  assumes "Open ls s0 = (e, s1)" and "spool_step\<^sup>*\<^sup>* s1 s"
  shows "indexBytes s = i64 (\<Sum>i \<in> dom (index s). mSize (the (index s i))) \<and>
    fBytes s = i64 (\<Sum>i \<in> dom (fIndex s). feSize (the (fIndex s i))) \<and>
    (\<forall>i m. index s i = Some m \<longrightarrow> mID m = i \<and> Valid i \<and> kind_settled (mEnvelope m))"
proof -
  have "spool_inv s"
    using assms(2) by (induction rule: rtranclp_induct) (use Open_inv [OF assms(1)] spool_step_inv in auto)
  then show ?thesis by (simp add: spool_inv_def index_total_def failed_total_def entry_ok_def)
qed

theorem accounts_always_balance_witness:
  "indexBytes (quota_set 1 80 (snd (Open queued_listing (queued_spool [])))) =
    i64 (\<Sum>i \<in> dom (index (quota_set 1 80 (snd (Open queued_listing (queued_spool []))))).
      mSize (the (index (quota_set 1 80 (snd (Open queued_listing (queued_spool [])))) i)))"
  using accounts_always_balance [OF surjective_pairing r_into_rtranclp, OF s_quota] by blast

text \<open>Removing a delivered message takes it out of the index and frees its lease at once, touches
  no other file, leaves neither of its files when it reports success, and lets recovery find the
  message again only after a crash or ten failed unlinks.\<close>

theorem remove_is_final:
  assumes "Remove i s = (e, s')" and "Valid i"
  shows "index s' = (index s)(i := None) \<and> leased s' = leased s - {i} \<and>
    (\<forall>p. p \<notin> {dataPath i, metaPath i} \<longrightarrow> files s' p = files s p) \<and>
    (e = None \<longrightarrow> files s' (dataPath i) = None \<and> files s' (metaPath i) = None) \<and>
    (queued_on_disk (files s') i \<noteq> None \<longrightarrow> dead s' \<or> hits s \<ge> 10)"
  using Remove_result [OF assms] by (auto simp: pair_of_def)

theorem remove_is_final_witness:
  "index (snd (Remove demo_id indexed_spool)) demo_id = None"
  using remove_is_final [OF surjective_pairing demo_Valid, of indexed_spool] by simp

text \<open>Discarding a message that is not leased either removes all four of its files and both index
  entries together, or reports an error and leaves both indexes and both byte totals as they were,
  so that files still on disk stay charged; leases and other messages' files are untouched.\<close>

theorem discard_keeps_books:
  assumes "Discard i s = (e, s')" and "Valid i" and "i \<notin> leased s"
  shows "((\<forall>p \<in> message_files i. files s' p = None) \<and>
           index s' = (index s)(i := None) \<and> fIndex s' = (fIndex s)(i := None) \<or>
         e \<noteq> None \<and> index s' = index s \<and> fIndex s' = fIndex s \<and>
           indexBytes s' = indexBytes s \<and> fBytes s' = fBytes s) \<and>
    leased s' = leased s \<and> (\<forall>p. p \<notin> message_files i \<longrightarrow> files s' p = files s p)"
  using Discard_result [OF assms] by blast

theorem discard_keeps_books_witness:
  "leased (snd (Discard demo_id indexed_spool)) = leased indexed_spool"
  using discard_keeps_books [OF surjective_pairing demo_Valid, of indexed_spool]
  by (simp add: indexed_spool_def queued_spool_def demo_spool_def)

lemma op_leased:
  fixes s :: spool
  shows "os_remove p s = (e, s') \<Longrightarrow> leased s' = leased s"
    and "os_sync s = (e, s') \<Longrightarrow> leased s' = leased s"
    and "renameRetry p q s = (e, s') \<Longrightarrow> leased s' = leased s"
    and "writeMeta m s = (e, m', s') \<Longrightarrow> leased s' = leased s"
    and "readMetaAt p i s = (x, s') \<Longrightarrow> leased s' = leased s"
  by (drule op_memory, simp add: same_memory_def)+

lemma requeueFailed_leased: "requeueFailed i s = (e, s') \<Longrightarrow> leased s' = leased s"
  by (auto simp: requeueFailed_def Let_def split: prod.splits option.splits sum.splits dest!: op_leased)

text \<open>C7: Requeueing a failed message never deletes its body: whatever calls fail and wherever the
  process dies, the body is afterwards in spool/failed or in the queue directory; on success the
  message is queued on disk and in the index with no attempts behind it, due at once, and gone from
  the failed side, and the caller's hook has run while the message was still leased.\<close>

theorem requeue_keeps_body:
  assumes q: "Requeue i (Some (\<lambda>s j. (leased s, index s) # j)) s [] = (e, s', j')"
    and v: "Valid i" and free: "i \<notin> leased s" and failed: "index s i = None"
    and b: "files s (failedPath i ''.eml'') = Some b"
  shows "(files s' (dataPath i) = Some b \<or> files s' (failedPath i ''.eml'') = Some b) \<and>
    leased s' = leased s \<and>
    (e = None \<longrightarrow> files s' (dataPath i) = Some b \<and> files s' (failedPath i ''.json'') = None \<and>
       fIndex s' i = None \<and> j' = [(insert i (leased s), index s')] \<and>
       (\<exists>m. index s' i = Some m \<and> mAttempts m = 0 \<and> mNextAttempt m = clock s \<and>
            queued_on_disk (files s') i = Some (stored m)))"
proof -
  let ?s1 = "s\<lparr>leased := insert i (leased s)\<rparr>"
  obtain e2 s2 where r: "requeueFailed i ?s1 = (e2, s2)" by fastforce
  have D: "e = e2 \<and> s' = dropLease i s2 \<and> (e = None \<longrightarrow> j' = [(leased s2, index s2)])"
    using q v free failed r by (auto simp: Requeue_def tryLease_def split: option.splits)
  have l: "leased s2 = insert i (leased s)"
    using requeueFailed_leased [OF r] by simp
  have body: "body_somewhere s2 i b" by (rule requeueFailed_body [OF r]) (simp add: b)
  show ?thesis
  proof (cases e)
    case None
    then have r': "requeueFailed i ?s1 = (None, s2)" using D r by simp
    show ?thesis
      using requeueFailed_ok [OF r' v] D l None free body b
      by (auto simp: dropLease_def failed_pair_def body_somewhere_def)
  next
    case (Some x)
    then show ?thesis using D l free body by (auto simp: dropLease_def body_somewhere_def)
  qed
qed

theorem requeue_keeps_body_witness:
  "\<exists>b. files (fst (snd (Requeue demo_id (Some (\<lambda>s j. (leased s, index s) # j)) (failed_spool [Fine, Fine, Crash]) [])))
     (dataPath demo_id) = b \<and> b \<noteq> None \<or>
   files (fst (snd (Requeue demo_id (Some (\<lambda>s j. (leased s, index s) # j)) (failed_spool [Fine, Fine, Crash]) [])))
     (failedPath demo_id ''.eml'') = b \<and> b \<noteq> None"
proof -
  obtain e s' j' where q: "Requeue demo_id (Some (\<lambda>s j. (leased s, index s) # j))
      (failed_spool [Fine, Fine, Crash]) [] = (e, s', j')" by (rule prod_cases3)
  have "files (failed_spool [Fine, Fine, Crash]) (failedPath demo_id ''.eml'') =
      Some \<lparr>content = Bytes ''hello'', mtime = 1\<rparr>" "index (failed_spool [Fine, Fine, Crash]) demo_id = None"
    "leased (failed_spool [Fine, Fine, Crash]) = {}"
    by (simp_all add: failed_spool_def demo_spool_def)
  then show ?thesis using requeue_keeps_body [OF q demo_Valid] q by auto
qed

lemma stored_id_iff:
  assumes "kind_settled (mEnvelope m)" "Valid (mID m)" "mLastError m = []"
  shows "stored m = m \<longleftrightarrow> envelope_utf8 (mEnvelope m)"
proof
  assume "envelope_utf8 (mEnvelope m)"
  then have "json_envelope (mEnvelope m) = mEnvelope m" using json_envelope_id_iff by blast
  moreover have "json_string (mID m) = mID m" using assms(2) by (simp add: json_string_valid Valid_utf8)
  ultimately show "stored m = m" using assms(1,3) by (cases m) (simp add: stored_def json_meta_def)
next
  assume "stored m = m"
  then have e: "normalizeKind (json_envelope (mEnvelope m)) = mEnvelope m"
    by (cases m) (simp add: stored_def json_meta_def)
  have "envKind (json_envelope (mEnvelope m)) = envKind (mEnvelope m) \<Longrightarrow> kind_settled (json_envelope (mEnvelope m))"
    using assms(1) by (simp add: kind_settled_def json_envelope_def)
  moreover have "envKind (json_envelope (mEnvelope m)) = envKind (mEnvelope m)"
  proof (cases "envKind (json_envelope (mEnvelope m)) = []")
    case True
    then have "envKind (mEnvelope m) = []"
      using json_string_length [of "envKind (mEnvelope m)"] by (simp add: json_envelope_def)
    then show ?thesis by (simp add: json_envelope_def)
  next
    case False
    then have "envKind (normalizeKind (json_envelope (mEnvelope m))) = envKind (json_envelope (mEnvelope m))"
      by (simp add: normalizeKind_def Let_def)
    then show ?thesis using e by simp
  qed
  ultimately have "json_envelope (mEnvelope m) = mEnvelope m" using e by simp
  then show "envelope_utf8 (mEnvelope m)" using json_envelope_id_iff by blast
qed

lemma envelope_utf8_kind:
  "envelope_utf8 (normalizeKind (e\<lparr>envSize := n\<rparr>)) \<longleftrightarrow> envelope_utf8 e"
proof -
  have "valid_utf8 KindNotification" "valid_utf8 KindCanary" by (rule valid_utf8_ascii, simp add: kinds)+
  then show ?thesis by (auto simp: envelope_utf8_def normalizeKind_def Let_def)
qed

text \<open>C2: A message whose commit succeeded is there after a restart in which no file operation fails: recovery
  indexes it under its identifier with the complete body, and with the very metadata it was accepted with exactly when
  the envelope's strings are valid UTF-8, because JSON coerces the others. A read that fails
  during the restart is the exception: recovery then deletes the body (\<open>recovery_hides_read_faults\<close>).\<close>

theorem commit_survives_restart:
  assumes c: "Commit rnd st env lt pfx s = (Inr j, s')" and i: "New rnd = Some i" "Valid i"
    and st: "stPath st = Some src" "files s src = Some f0" and fresh: "pair_of s i = (None, None)"
    and ls: "listing_of (files s') ls"
  defines "b \<equiv> copy_body i pfx f0"
  defines "m \<equiv> new_meta i env (int (length b)) lt (clock s)"
  shows "\<exists>m'. index (snd (Open ls (s'\<lparr>faults := []\<rparr>))) i = Some m' \<and>
      files (snd (Open ls (s'\<lparr>faults := []\<rparr>))) (dataPath i) = Some \<lparr>content = Bytes b, mtime = clock s\<rparr> \<and>
      (m' = m \<longleftrightarrow> envelope_utf8 env)"
proof -
  obtain s1 where q: "reserveQuota (stSize st) s = (None, s1)"
    using c st by (cases "reserveQuota (stSize st) s") (auto simp: Commit_def split: option.splits)
  obtain s2 where c2: "commit_copy rnd src env lt pfx s1 = (Inr j, s2)" and s': "s' = releaseQuota (stSize st) s2"
    using c st q by (auto simp: Commit_def split: prod.splits)
  have s1: "files s1 = files s" "clock s1 = clock s"
    using q by (auto simp: reserveQuota_def quota_reserve_def split: if_splits)
  have F: "files s' = files s2" by (simp add: s' releaseQuota_def quota_release_def)
  have "files s1 src = Some f0" "pair_of s1 i = (None, None)" using st fresh s1 by (simp_all add: pair_of_def)
  note o = commit_copy_outcome [OF c2 i this, unfolded s1, folded b_def, folded m_def]
  have disk: "queued_on_disk (files s') i = Some (stored m)"
    "files s' (dataPath i) = Some \<lparr>content = Bytes b, mtime = clock s\<rparr>"
    using o(2) o(3) [of j] F by auto
  have "mLastError m = []" "mID m = i" by (simp_all add: m_def new_meta_def)
  then have "stored m = m \<longleftrightarrow> envelope_utf8 (mEnvelope m)"
    using i(2) by (intro stored_id_iff) (simp_all add: m_def)
  also have "\<dots> \<longleftrightarrow> envelope_utf8 env" by (simp add: m_def new_meta_def envelope_utf8_kind)
  finally have eq: "stored m = m \<longleftrightarrow> envelope_utf8 env" .
  have "faults (s'\<lparr>faults := []\<rparr>) = []" "listing_of (files (s'\<lparr>faults := []\<rparr>)) ls" using ls by simp_all
  then show ?thesis by (rule Open_calm) (use disk eq in auto)
qed

lemma finite_listing:
  assumes "finite (dom F)"
  obtains ls where "listing_of F ls"
proof -
  have "\<forall>d. \<exists>ns. set ns = {n. F (d, n) \<noteq> None}"
  proof
    fix d
    have "{n. F (d, n) \<noteq> None} \<subseteq> snd ` dom F" by force
    then have "finite {n. F (d, n) \<noteq> None}" using assms finite_subset by blast
    then show "\<exists>ns. set ns = {n. F (d, n) \<noteq> None}" by (rule finite_list)
  qed
  then show thesis using that by (metis listing_of_def)
qed

theorem commit_survives_restart_witness:
  "\<exists>ls m'. index (snd (Open ls ((snd (Commit demo_rnd demo_stage demo_env 60 None (demo_spool [])))\<lparr>faults := []\<rparr>))) demo_id =
     Some m' \<and> envelope_utf8 demo_env"
proof -
  let ?f = "\<lparr>content = Bytes ''hello'', mtime = 1\<rparr>"
  obtain s' where c: "Commit demo_rnd demo_stage demo_env 60 None (demo_spool []) = (Inr demo_id, s')"
    using demo_commit_ok by (metis prod.collapse)
  have st: "stPath demo_stage = Some (TmpDir, ''S.staged'')" "files (demo_spool []) (TmpDir, ''S.staged'') = Some ?f"
    by (simp_all add: demo_stage_def demo_spool_def)
  obtain s1 s2 where "reserveQuota 5 (demo_spool []) = (None, s1)"
    "commit_copy demo_rnd (TmpDir, ''S.staged'') demo_env 60 None s1 = (Inr demo_id, s2)" "files s' = files s2"
    using c by (auto simp: Commit_def demo_stage_def releaseQuota_def quota_release_def split: prod.splits option.splits)
  moreover from this(1) have "files s1 = files (demo_spool [])"
    by (auto simp: reserveQuota_def quota_reserve_def split: if_splits)
  ultimately have "dom (files s') \<subseteq> dom (files (demo_spool [])) \<union> commit_paths demo_id"
    using commit_copy_others [of demo_rnd "(TmpDir, ''S.staged'')" demo_env 60 None s1 "Inr demo_id" s2 demo_id ?f] st(2)
    by (auto simp: domIff)
  moreover have "finite (dom (files (demo_spool [])) \<union> commit_paths demo_id)"
    by (simp add: demo_spool_def commit_paths_def)
  ultimately obtain ls where "listing_of (files s') ls" using finite_listing finite_subset by metis
  from commit_survives_restart [OF c demo_New demo_Valid st demo_fresh this]
  show ?thesis using c by auto
qed

end
