(* ===== verification/Rate_Limit.thy ===== *)
theory Rate_Limit
  imports Relay_Prelude
begin

text \<open>
  \<open>internal/ratelimit/ratelimit.go\<close>: the per-minute token bucket that both the listener
  (per client) and the delivery dispatcher (per route) pace themselves with. The limiter is the
  map of buckets, \<open>Allow\<close> returns the wait, the verdict and the new map.

  The locale \<open>pacer\<close> is the interface the two callers rely on. The lemmas bound what a bucket
  hands out: at most \<open>limit\<close> between two refills, and at most twice that in any minute.
\<close>

definition window :: duration where "window = minute"
definition minWait :: duration where "minWait = second"

record bucket =
  tokens :: int
  refilled :: instant

type_synonym limiter = "string \<rightharpoonup> bucket"

definition New_limiter :: limiter where
  "New_limiter = Map.empty"

definition Allow :: "string \<Rightarrow> int \<Rightarrow> instant \<Rightarrow> limiter \<Rightarrow> duration \<times> bool \<times> limiter" where
  "Allow key limit now l =
     (if limit \<le> 0 then (0, True, l)
      else
        let b = (case l key of
                   None \<Rightarrow> \<lparr>tokens = limit, refilled = now\<rparr>
                 | Some b \<Rightarrow> if time_sub now (refilled b) \<ge> window
                             then \<lparr>tokens = limit, refilled = now\<rparr> else b);
            l' = l(key \<mapsto> b)
        in if tokens b \<le> 0
           then let wait = i64 (window - time_sub now (refilled b))
                in (if wait < minWait then minWait else wait, False, l')
           else (0, True, l'(key \<mapsto> b\<lparr>tokens := tokens b - 1\<rparr>)))"

section \<open>The interface\<close>

text \<open>
  What the listener and the dispatcher rely on: a limit of zero or less never refuses, a refusal
  names a wait of at least \<open>floor\<close>, and keys do not interfere.
\<close>

locale pacer =
  fixes allow :: "'k \<Rightarrow> int \<Rightarrow> instant \<Rightarrow> 'l \<Rightarrow> duration \<times> bool \<times> 'l"
    and level :: "'l \<Rightarrow> 'k \<Rightarrow> 'b"
    and floor :: duration
  assumes unlimited: "limit \<le> 0 \<Longrightarrow> allow k limit now l = (0, True, l)"
    and refusal_waits: "allow k limit now l = (w, False, l') \<Longrightarrow> floor \<le> w"
    and other_keys: "allow k limit now l = (w, ok, l') \<Longrightarrow> k' \<noteq> k \<Longrightarrow> level l' k' = level l k'"
    and floor_pos: "0 < floor"
begin

lemma refused_later: "allow k limit now l = (w, False, l') \<Longrightarrow> now < now + w"
  using refusal_waits floor_pos by fastforce

lemma refused_limited: "allow k limit now l = (w, False, l') \<Longrightarrow> 0 < limit"
  using unlimited [of limit k now l] by (cases "limit \<le> 0") auto

end

lemma Allow_refused: "Allow k limit now l = (w, False, l') \<Longrightarrow> minWait \<le> w"
  by (auto simp: Allow_def Let_def split: if_splits)

lemma Allow_other: "Allow k limit now l = (w, ok, l') \<Longrightarrow> k' \<noteq> k \<Longrightarrow> l' k' = l k'"
  by (auto simp: Allow_def Let_def split: if_splits)

interpretation rl: pacer Allow "\<lambda>l. l" minWait
proof (unfold_locales, goal_cases)
  case 1 then show ?case by (simp add: Allow_def)
next
  case 2 then show ?case by (rule Allow_refused)
next
  case 3 then show ?case by (rule Allow_other)
next
  case 4 show ?case by (simp add: minWait_def time_units)
qed

section \<open>How many a bucket hands out\<close>

text \<open>The verdicts of a run of calls for one key, at the given instants.\<close>

fun allowed_run :: "string \<Rightarrow> int \<Rightarrow> instant list \<Rightarrow> limiter \<Rightarrow> nat" where
  "allowed_run key limit [] l = 0"
| "allowed_run key limit (t # ts) l =
     (case Allow key limit t l of
        (w, ok, l') \<Rightarrow> (if ok then 1 else 0) + allowed_run key limit ts l')"

definition bucket_wf :: "int \<Rightarrow> bucket \<Rightarrow> bool" where
  "bucket_wf limit b \<longleftrightarrow> 0 \<le> tokens b \<and> tokens b \<le> limit"

definition key_wf :: "string \<Rightarrow> int \<Rightarrow> limiter \<Rightarrow> bool" where
  "key_wf key limit l \<longleftrightarrow> (case l key of None \<Rightarrow> True | Some b \<Rightarrow> bucket_wf limit b)"

lemma Allow_wf: "key_wf key limit l \<Longrightarrow> Allow key limit now l = (w, ok, l') \<Longrightarrow> key_wf key limit l'"
  by (auto simp: Allow_def key_wf_def bucket_wf_def Let_def split: if_splits option.splits)

lemma Allow_steps:
  assumes "0 < limit"
  shows "Allow key limit now l =
    (case l key of
       Some b \<Rightarrow>
         if window \<le> time_sub now (refilled b)
         then (0, True, l(key \<mapsto> \<lparr>tokens = limit - 1, refilled = now\<rparr>))
         else if tokens b \<le> 0
         then (max minWait (i64 (window - time_sub now (refilled b))), False, l)
         else (0, True, l(key \<mapsto> b\<lparr>tokens := tokens b - 1\<rparr>))
     | None \<Rightarrow> (0, True, l(key \<mapsto> \<lparr>tokens = limit - 1, refilled = now\<rparr>)))"
  using assms by (auto simp: Allow_def Let_def fun_upd_idem split: option.splits)

text \<open>Before the window of the current bucket ends, only its tokens are handed out.\<close>

lemma run_within_window:
  assumes "0 < limit"
  shows "l key = Some b \<Longrightarrow> 0 \<le> tokens b \<Longrightarrow> \<forall>t \<in> set ts. t < refilled b + window \<Longrightarrow>
         int (allowed_run key limit ts l) \<le> tokens b"
proof (induction ts arbitrary: l b)
  case (Cons t ts)
  have old: "\<not> window \<le> time_sub t (refilled b)"
    using Cons.prems(3) time_sub_less [of window t "refilled b"]
    by (simp add: window_def time_units max_int64_def)
  show ?case
  proof (cases "tokens b \<le> 0")
    case True
    then have "allowed_run key limit (t # ts) l = allowed_run key limit ts l"
      using old Cons.prems(1) assms by (simp add: Allow_steps)
    then show ?thesis using Cons by simp
  next
    case False
    let ?b = "b\<lparr>tokens := tokens b - 1\<rparr>"
    have "allowed_run key limit (t # ts) l = 1 + allowed_run key limit ts (l(key \<mapsto> ?b))"
      using old Cons.prems(1) assms False by (simp add: Allow_steps)
    moreover have "int (allowed_run key limit ts (l(key \<mapsto> ?b))) \<le> tokens ?b"
      using Cons.prems False by (intro Cons.IH) auto
    ultimately show ?thesis by simp
  qed
qed simp

text \<open>From any state, at most one refill can fall into a span shorter than the window.\<close>

lemma run_span:
  assumes "0 < limit" and "key_wf key limit l" and "sorted ts"
    and "\<forall>t \<in> set ts. t < hi" and "\<forall>t \<in> set ts. hi \<le> t + window"
  shows "int (allowed_run key limit ts l) \<le>
         (case l key of None \<Rightarrow> 0 | Some b \<Rightarrow> tokens b) + limit"
  using assms(2-)
proof (induction ts arbitrary: l)
  case Nil
  then show ?case using assms(1) by (auto simp: key_wf_def bucket_wf_def split: option.splits)
next
  case (Cons t ts)
  let ?fresh = "\<lparr>tokens = limit - 1, refilled = t\<rparr>"
  have later: "\<forall>u \<in> set ts. u < refilled ?fresh + window"
    using Cons.prems(3,4) by fastforce
  have refill: "int (allowed_run key limit ts (l(key \<mapsto> ?fresh))) \<le> limit - 1"
    using run_within_window [of limit "l(key \<mapsto> ?fresh)" key ?fresh ts] assms(1) later by simp
  have wf': "key_wf key limit (snd (snd (Allow key limit t l)))"
    using Allow_wf [OF Cons.prems(1)] by (metis prod.collapse)
  note IH = Cons.IH [OF wf']
  show ?case
    using refill IH Cons.prems assms(1)
    by (auto simp: Allow_steps key_wf_def bucket_wf_def split: option.splits if_splits)
qed

text \<open>The limiter after a run.\<close>

fun after_run :: "string \<Rightarrow> int \<Rightarrow> instant list \<Rightarrow> limiter \<Rightarrow> limiter" where
  "after_run key limit [] l = l"
| "after_run key limit (t # ts) l = after_run key limit ts (snd (snd (Allow key limit t l)))"

lemma after_run_wf: "key_wf key limit l \<Longrightarrow> key_wf key limit (after_run key limit ts l)"
proof (induction ts arbitrary: l)
  case (Cons t ts)
  obtain w ok l' where a: "Allow key limit t l = (w, ok, l')" by (rule prod_cases3)
  show ?case using Cons.IH [OF Allow_wf [OF Cons.prems a]] a by simp
qed simp



end
