(* ===== verification/Mail_Addr.thy ===== *)
theory Mail_Addr
  imports Relay_Prelude
begin

text \<open>
  Address syntax: \<open>internal/mailaddr/mailaddr.go\<close>, which governs what an operator may write into a
  header, and \<open>internal/listener/address.go\<close>, which parses the argument of MAIL FROM and RCPT TO
  and is deliberately looser. The lemmas say which octets an accepted address can hold, which is
  what header composition and the outgoing envelope rely on.
\<close>

section \<open>mailaddr.go\<close>

definition maxLocalPart :: nat where "maxLocalPart = 64"
definition maxDomainLen :: nat where "maxDomainLen = 255"
definition maxPathLen :: nat where "maxPathLen = 254"
definition maxDisplay :: nat where "maxDisplay = 128"

definition ldh :: "char \<Rightarrow> bool" where
  "ldh c \<longleftrightarrow> is_lower c \<or> is_upper c \<or> is_digit c \<or> c = CHR ''.'' \<or> c = CHR ''-''"

definition ValidDomain :: "string \<Rightarrow> bool" where
  "ValidDomain d \<longleftrightarrow>
     \<not> (d = [] \<or> length d > maxDomainLen) \<and>
     \<not> (HasPrefix d ''.'' \<or> HasSuffix d ''.'' \<or> Contains d ''..'') \<and>
     Contains d ''.'' \<and> list_all ldh d"

definition printable :: "char \<Rightarrow> bool" where
  "printable c \<longleftrightarrow> 0x21 \<le> byte c \<and> byte c \<le> (0x7e::nat)"

definition ValidAddress :: "string \<Rightarrow> bool" where
  "ValidAddress s =
     (if s = [] \<or> length s > maxPathLen then False
      else if \<not> list_all printable s then False
      else case LastIndexByte s (CHR ''@'') of
             None \<Rightarrow> False
           | Some at \<Rightarrow>
               if at = 0 \<or> at = length s - 1 then False
               else (let local = take at s; domain = drop (at + 1) s
                     in if length local > maxLocalPart \<or> ContainsAny local ([CHR ''<'', CHR ''>'', CHR '','', CHR '';'', CHR '':'', DQUOTE, BACKSLASH])
                        then False
                        else ValidDomain domain))"

definition DomainOf :: "string \<Rightarrow> string" where
  "DomainOf a =
     (case LastIndexByte a (CHR ''@'') of
        None \<Rightarrow> []
      | Some at \<Rightarrow> if at = length a - 1 then [] else ToLower (drop (at + 1) a))"

definition display_char :: "char \<Rightarrow> bool" where
  "display_char c \<longleftrightarrow> \<not> (byte c < (0x20::nat) \<or> byte c > (0x7e::nat) \<or> c = CHR ''<'' \<or> c = CHR ''>'' \<or>
     c = DQUOTE \<or> c = BACKSLASH)"

definition SplitMailbox :: "string \<Rightarrow> (string \<times> string) option" where
  "SplitMailbox s0 =
     (let s = TrimSpace s0 in
      if s = [] then None
      else case (case LastIndexByte s (CHR ''<'') of
                   Some i \<Rightarrow>
                     (case LastIndexByte s (CHR ''>'') of
                        None \<Rightarrow> None
                      | Some j \<Rightarrow> if j \<le> i then None
                                 else Some (TrimSpace (take i s), TrimSpace (take (j - (i + 1)) (drop (i + 1) s))))
                 | None \<Rightarrow> Some ([], s)) of
             None \<Rightarrow> None
           | Some (display, addr) \<Rightarrow>
               if \<not> ValidAddress addr then None
               else if length display > maxDisplay then None
               else if \<not> list_all display_char display then None
               else Some (display, addr))"

definition ValidSenderPattern :: "string \<Rightarrow> bool" where
  "ValidSenderPattern s = (if HasPrefix s ''*@'' then ValidDomain (drop 2 s) else ValidAddress s)"

section \<open>address.go\<close>

definition validateAddress :: "string \<Rightarrow> bool \<Rightarrow> bool" where
  "validateAddress a allowEmpty =
     (if a = [] then allowEmpty
      else if length a > maxPathLen then False
      else if list_ex (\<lambda>c. byte c < (0x20::nat) \<or> byte c = (0x7f::nat)) a then False
      else case LastIndexByte a (CHR ''@'') of
             None \<Rightarrow> False
           | Some at \<Rightarrow>
               if at = 0 \<or> at = length a - 1 then False
               else (let local = take at a; domain = drop (at + 1) a
                     in if length local > maxLocalPart then False
                        else if length domain > maxDomainLen then False
                        else \<not> (ContainsAny domain [CHR '' '', TAB, CHR ''<'', CHR ''>'', CHR '','', CHR '';'', DQUOTE, BACKSLASH] \<or>
                                 Contains domain ''..'' \<or> HasPrefix domain ''.'' \<or> HasSuffix domain ''.'')))"

text \<open>\<open>None\<close> is \<open>errBadAddress\<close>; otherwise the address and the ESMTP parameters behind it.\<close>

definition parsePath :: "string \<Rightarrow> (string \<times> string list) option" where
  "parsePath arg0 =
     (let arg = TrimLeftP (\<lambda>c. c = CHR '' '' \<or> c = TAB) arg0 in
      if \<not> HasPrefix arg ''<'' then None
      else case IndexByte arg (CHR ''>'') of
             None \<Rightarrow> None
           | Some e \<Rightarrow>
               (let addr = take (e - 1) (drop 1 arg); rest = TrimSpace (drop (e + 1) arg)
                in if validateAddress addr True then Some (addr, if rest \<noteq> [] then Fields rest else [])
                   else None))"

section \<open>What an accepted address can hold\<close>

definition no_line_break :: "string \<Rightarrow> bool" where
  "no_line_break s \<longleftrightarrow> CR \<notin> set s \<and> LF \<notin> set s \<and> NUL \<notin> set s"

lemma LastIndexByte_None: "LastIndexByte s c = None \<longleftrightarrow> c \<notin> set s"
  by (induction s) (auto split: option.splits)

lemma LastIndexByte_Some:
  "LastIndexByte s c = Some i \<Longrightarrow> i < length s \<and> s ! i = c \<and> c \<notin> set (drop (Suc i) s)"
proof (induction s arbitrary: i)
  case (Cons x s)
  then show ?case using LastIndexByte_None [of s c] by (cases "LastIndexByte s c") (auto split: if_splits)
qed simp

lemma IndexByte_Some: "IndexByte s c = Some i \<Longrightarrow> i < length s \<and> s ! i = c \<and> c \<notin> set (take i s)"
proof (induction s arbitrary: i)
  case (Cons x s)
  then show ?case by (cases "x = c") auto
qed simp

lemma IndexByte_None: "IndexByte s c = None \<longleftrightarrow> c \<notin> set s"
  by (induction s) auto

lemma printable_no_break: "list_all printable s \<Longrightarrow> no_line_break s"
  by (auto simp: list_all_iff no_line_break_def printable_def CR_def LF_def NUL_def)

lemma ValidAddress_printable: "ValidAddress s \<Longrightarrow> list_all printable s"
  by (auto simp: ValidAddress_def split: if_splits)

lemma ValidAddress_shape:
  assumes "ValidAddress s"
  obtains l d where "s = l @ CHR ''@'' # d" "l \<noteq> []" "ValidDomain d" "length s \<le> maxPathLen"
    "list_all printable s" "CHR ''<'' \<notin> set s" "CHR ''>'' \<notin> set s"
proof -
  obtain at where at: "LastIndexByte s (CHR ''@'') = Some at" "at \<noteq> 0"
    and l: "\<not> ContainsAny (take at s) [CHR ''<'', CHR ''>'', CHR '','', CHR '';'', CHR '':'', DQUOTE, BACKSLASH]"
    and d: "ValidDomain (drop (at + 1) s)" and len: "length s \<le> maxPathLen"
    using assms by (auto simp: ValidAddress_def Let_def split: if_splits option.splits)
  note a = LastIndexByte_Some [OF at(1)]
  have s: "s = take at s @ CHR ''@'' # drop (at + 1) s"
    using a by (metis Suc_eq_plus1 id_take_nth_drop)
  have dd: "c \<in> set (drop (at + 1) s) \<Longrightarrow> ldh c" for c
    using d by (auto simp: ValidDomain_def list_all_iff)
  have "\<not> ldh CHR ''<''" "\<not> ldh CHR ''>''"
    by (simp_all add: ldh_def is_lower_def is_upper_def is_digit_def)
  then have "CHR ''<'' \<notin> set (drop (at + 1) s)" "CHR ''>'' \<notin> set (drop (at + 1) s)" using dd by blast+
  moreover have "CHR ''<'' \<notin> set (take at s)" "CHR ''>'' \<notin> set (take at s)"
    using l by (auto simp: ContainsAny_def list_ex_iff)
  ultimately have "CHR ''<'' \<notin> set s" "CHR ''>'' \<notin> set s"
    by (subst s, simp)+
  moreover have "take at s \<noteq> []" using at(2) a by auto
  ultimately show thesis using that s d len ValidAddress_printable [OF assms] by metis
qed

lemma validateAddress_clean:
  "validateAddress a e \<Longrightarrow> no_line_break a"
  by (auto simp: validateAddress_def no_line_break_def list_ex_iff CR_def LF_def NUL_def split: if_splits)

lemma parsePath_addr:
  assumes "parsePath arg = Some (a, ps)"
  shows "validateAddress a True" "CHR ''>'' \<notin> set a"
proof -
  let ?arg = "TrimLeftP (\<lambda>c. c = CHR '' '' \<or> c = TAB) arg"
  obtain e where e: "IndexByte ?arg (CHR ''>'') = Some e" "a = take (e - 1) (drop 1 ?arg)" "validateAddress a True"
    using assms by (auto simp: parsePath_def Let_def split: if_splits option.splits)
  show "validateAddress a True" by (rule e(3))
  have "set a \<subseteq> set (take e ?arg)"
    unfolding e(2) by (cases e; cases ?arg) auto
  then show "CHR ''>'' \<notin> set a" using IndexByte_Some [OF e(1)] by auto
qed

text \<open>The operator's syntax is the narrower of the two.\<close>

lemma ContainsAny_subset:
  "(\<And>c. c \<in> set s \<Longrightarrow> c \<notin> set cs) \<Longrightarrow> \<not> ContainsAny s cs"
  by (auto simp: ContainsAny_def list_ex_iff)

lemma ValidAddress_validate:
  assumes "ValidAddress s"
  shows "validateAddress s e"
proof -
  obtain at where at: "LastIndexByte s (CHR ''@'') = Some at" "at \<noteq> 0" "at \<noteq> length s - 1" "s \<noteq> []"
    and len: "length s \<le> maxPathLen" "length (take at s) \<le> maxLocalPart"
    and p: "list_all printable s" and d: "ValidDomain (drop (at + 1) s)"
    using assms by (auto simp: ValidAddress_def Let_def split: if_splits option.splits)
  have "\<not> list_ex (\<lambda>c. byte c < (0x20::nat) \<or> byte c = (0x7f::nat)) s"
    using p by (auto simp: list_ex_iff list_all_iff printable_def)
  moreover have "\<not> ContainsAny (drop (at + 1) s) [CHR '' '', TAB, CHR ''<'', CHR ''>'', CHR '','', CHR '';'', DQUOTE, BACKSLASH]"
  proof (rule ContainsAny_subset)
    fix c assume "c \<in> set (drop (at + 1) s)"
    then have "ldh c" using d by (auto simp: ValidDomain_def list_all_iff)
    then show "c \<notin> set [CHR '' '', TAB, CHR ''<'', CHR ''>'', CHR '','', CHR '';'', DQUOTE, BACKSLASH]"
      by (auto simp: ldh_def is_lower_def is_upper_def is_digit_def TAB_def DQUOTE_def BACKSLASH_def)
  qed
  ultimately show ?thesis
    using at len d by (simp add: validateAddress_def ValidDomain_def not_less)
qed

lemma display_char_not: "\<not> display_char CR" "\<not> display_char LF" "\<not> display_char NUL"
  "\<not> display_char DQUOTE" "\<not> display_char BACKSLASH"
  by (simp_all add: display_char_def CR_def LF_def NUL_def)

lemma SplitMailbox_result:
  assumes "SplitMailbox m = Some (d, a)"
  shows "ValidAddress a \<and> list_all display_char d"
proof -
  obtain d' a' where "(if \<not> ValidAddress a' then None else if length d' > maxDisplay then None
      else if \<not> list_all display_char d' then None else Some (d', a')) = Some (d, a)"
    using assms unfolding SplitMailbox_def Let_def by (simp split: if_split_asm option.split_asm prod.split_asm)
  then show ?thesis by (simp split: if_split_asm)
qed

text \<open>C14: No address the relay accepts, from an operator's file or from a client's envelope command,
  can break a line: it has no CR, LF or NUL, an envelope address has no closing bracket, an
  operator's address is printable ASCII without angle brackets and is also acceptable on the
  wire, and a display name cannot leave its quotes.\<close>

theorem accepted_addresses_are_inert:
  "(ValidAddress s \<longrightarrow> list_all printable s \<and> no_line_break s \<and> CHR ''<'' \<notin> set s \<and> CHR ''>'' \<notin> set s \<and>
      validateAddress s False) \<and>
   (\<forall>a ps. parsePath arg = Some (a, ps) \<longrightarrow> no_line_break a \<and> CHR ''>'' \<notin> set a) \<and>
   (\<forall>d a. SplitMailbox m = Some (d, a) \<longrightarrow> ValidAddress a \<and> no_line_break d \<and> DQUOTE \<notin> set d \<and> BACKSLASH \<notin> set d)"
proof (intro conjI impI allI)
  assume v: "ValidAddress s"
  show "list_all printable s" by (rule ValidAddress_printable [OF v])
  then show "no_line_break s" by (rule printable_no_break)
  show "CHR ''<'' \<notin> set s" "CHR ''>'' \<notin> set s" using v by (auto elim: ValidAddress_shape)
  show "validateAddress s False" by (rule ValidAddress_validate [OF v])
next
  fix a ps assume "parsePath arg = Some (a, ps)"
  from parsePath_addr [OF this] validateAddress_clean
  show "no_line_break a" "CHR ''>'' \<notin> set a" by auto
next
  fix d a assume "SplitMailbox m = Some (d, a)"
  then have v: "ValidAddress a" and d: "list_all display_char d"
    using SplitMailbox_result by blast+
  show "ValidAddress a" by (rule v)
  show "no_line_break d" "DQUOTE \<notin> set d" "BACKSLASH \<notin> set d"
    using d display_char_not unfolding no_line_break_def list_all_iff by blast+
qed

theorem accepted_addresses_are_inert_witness:
  "ValidAddress ''a@b.c'' \<and> no_line_break ''a@b.c'' \<and> parsePath ''<a@b.c> SIZE=5'' = Some (''a@b.c'', [''SIZE=5''])"
proof -
  have "ValidAddress ''a@b.c''" "parsePath ''<a@b.c> SIZE=5'' = Some (''a@b.c'', [''SIZE=5''])" by code_simp+
  then show ?thesis
    using accepted_addresses_are_inert [of "''a@b.c''" "''<a@b.c> SIZE=5''" "''x''"] by simp
qed

end
