(* ===== verification/Net_Ip.thy ===== *)
theory Net_Ip
  imports Relay_Prelude "HOL-Library.Word"
begin

unbundle bit_operations_syntax

text \<open>
  The addresses and prefixes of package \<open>net/netip\<close> the relay compares: \<open>Unmap\<close>, \<open>Masked\<close>,
  \<open>Contains\<close>, \<open>Overlaps\<close> and \<open>IsLoopback\<close>, on 32 and 128-bit words. Parsing their textual form
  is an argument of the definitions that read a configuration.

  Two prefixes that contain a common address overlap, which is what makes a table of prefixes
  checked pairwise for overlap unambiguous.
\<close>

datatype addr = V4 "32 word" | V6 "128 word" string

record ip_prefix =
  pfAddr :: addr
  pfBits :: nat

definition Is4In6 :: "128 word \<Rightarrow> bool" where
  "Is4In6 w \<longleftrightarrow> drop_bit 32 w = 0xffff"

fun Unmap :: "addr \<Rightarrow> addr" where
  "Unmap (V4 w) = V4 w"
| "Unmap (V6 w z) = (if Is4In6 w then V4 (ucast w) else V6 w z)"

fun IsLoopback :: "addr \<Rightarrow> bool" where
  "IsLoopback (V4 w) = (drop_bit 24 w = 127)"
| "IsLoopback (V6 w z) = (if Is4In6 w then drop_bit 24 (ucast w :: 32 word) = 127 else w = 1)"

text \<open>The first \<open>n\<close> bits of two addresses of one family agree.\<close>

fun agree :: "nat \<Rightarrow> addr \<Rightarrow> addr \<Rightarrow> bool" where
  "agree n (V4 a) (V4 b) = (drop_bit (32 - n) (a XOR b) = 0)"
| "agree n (V6 a z) (V6 b y) = (drop_bit (128 - n) (a XOR b) = 0)"
| "agree n _ _ = False"

fun has_zone :: "addr \<Rightarrow> bool" where
  "has_zone (V4 a) = False"
| "has_zone (V6 a z) = (z \<noteq> [])"

definition Contains_ip :: "ip_prefix \<Rightarrow> addr \<Rightarrow> bool" where
  "Contains_ip p a \<longleftrightarrow> \<not> has_zone a \<and> agree (pfBits p) (pfAddr p) a"

definition Overlaps :: "ip_prefix \<Rightarrow> ip_prefix \<Rightarrow> bool" where
  "Overlaps p q \<longleftrightarrow> agree (min (pfBits p) (pfBits q)) (pfAddr p) (pfAddr q)"

fun mask_addr :: "nat \<Rightarrow> addr \<Rightarrow> addr" where
  "mask_addr n (V4 a) = V4 (push_bit (32 - n) (drop_bit (32 - n) a))"
| "mask_addr n (V6 a z) = V6 (push_bit (128 - n) (drop_bit (128 - n) a)) []"

definition Masked :: "ip_prefix \<Rightarrow> ip_prefix" where
  "Masked p = p\<lparr>pfAddr := mask_addr (pfBits p) (pfAddr p)\<rparr>"

section \<open>Agreement on leading bits\<close>

lemma xor_zero:
  fixes a b :: "'a::len word"
  shows "a XOR b = 0 \<longleftrightarrow> a = b"
proof
  assume "a XOR b = 0"
  then have "(a XOR b) XOR b = 0 XOR b" by simp
  then show "a = b" by (simp add: xor.assoc)
qed simp

lemma agree_iff:
  "agree n (V4 a) (V4 b) \<longleftrightarrow> drop_bit (32 - n) a = drop_bit (32 - n) b"
  "agree n (V6 c z) (V6 d y) \<longleftrightarrow> drop_bit (128 - n) c = drop_bit (128 - n) d"
  by (simp_all add: drop_bit_xor xor_zero)

declare agree.simps(1,2) [simp del] agree_iff [simp]

lemma drop_more:
  fixes a b :: "'a::len word"
  assumes "drop_bit k a = drop_bit k b" "k \<le> l"
  shows "drop_bit l a = drop_bit l b"
proof -
  have "drop_bit l x = drop_bit (l - k) (drop_bit k x)" for x :: "'a word"
    using assms(2) by (simp add: drop_bit_drop_bit)
  then show ?thesis using assms(1) by (simp only:)
qed

lemma agree_refl: "\<not> has_zone a \<Longrightarrow> agree n a a"
  by (cases a) simp_all

lemma agree_sym: "agree n a b = agree n b a"
  by (cases a; cases b) auto

lemma agree_less: "agree n a b \<Longrightarrow> m \<le> n \<Longrightarrow> agree m a b"
proof (cases a; cases b)
  fix x y assume "a = V4 x" "b = V4 y" "agree n a b" "m \<le> n"
  then show ?thesis using drop_more [of "32 - n" x y "32 - m"] by simp
next
  fix x z y w assume "a = V6 x z" "b = V6 y w" "agree n a b" "m \<le> n"
  then show ?thesis using drop_more [of "128 - n" x y "128 - m"] by simp
qed auto

lemma agree_trans: "agree n a b \<Longrightarrow> agree n b c \<Longrightarrow> agree n a c"
  by (cases a; cases b; cases c) simp_all

lemma overlap_of_common:
  assumes "Contains_ip p a" "Contains_ip q a"
  shows "Overlaps p q"
proof -
  let ?n = "min (pfBits p) (pfBits q)"
  have "agree ?n (pfAddr p) a" "agree ?n (pfAddr q) a"
    using assms by (auto simp: Contains_ip_def intro: agree_less)
  then show ?thesis unfolding Overlaps_def using agree_sym agree_trans by blast
qed

lemma Overlaps_sym: "Overlaps p q = Overlaps q p"
  by (simp add: Overlaps_def agree_sym min.commute)

lemma drop_push_drop:
  fixes a :: "'a::len word"
  shows "drop_bit k (push_bit k (drop_bit k a)) = drop_bit k a"
  by (rule bit_eqI) (auto simp: bit_drop_bit_eq bit_push_bit_iff dest: bit_imp_le_length)

lemma agree_mask: "agree n (mask_addr n a) b = agree n a b"
  by (cases a; cases b) (simp_all add: drop_push_drop)

lemma Contains_Masked [simp]: "Contains_ip (Masked p) a = Contains_ip p a"
  by (simp add: Contains_ip_def Masked_def agree_mask)

lemma pfBits_Masked [simp]: "pfBits (Masked p) = pfBits p"
  by (simp add: Masked_def)

lemma agree_mask_min:
  "m \<le> n \<Longrightarrow> agree m (mask_addr n a) b = agree m a b"
proof -
  assume m: "m \<le> n"
  have "agree m (mask_addr n a) (case a of V4 w \<Rightarrow> V4 w | V6 w z \<Rightarrow> V6 w [])"
    by (rule agree_less [OF _ m]) (cases a; simp add: drop_push_drop)
  then show ?thesis by (cases a; cases b) simp_all
qed

lemma Overlaps_Masked [simp]: "Overlaps (Masked p) q = Overlaps p q" "Overlaps q (Masked p) = Overlaps q p"
proof -
  show "Overlaps (Masked p) q = Overlaps p q"
    by (simp add: Overlaps_def Masked_def agree_mask_min)
  then show "Overlaps q (Masked p) = Overlaps q p" by (metis Overlaps_sym)
qed

end
