(* ===== verification/Config_Types.thy ===== *)
theory Config_Types
  imports Mail_Addr Net_Ip
begin

text \<open>
  The configuration of \<open>internal/config\<close> as its structs have it, the defaults of \<open>Defaults\<close>, the
  per-element defaults \<open>Normalize\<close> fills in, and the small parsers of the package. A secret is its
  reference and the value resolved from it. Go's \<open>int\<close> fields are \<open>int\<close>.
\<close>

record Secret =
  secRef :: string
  secValue :: string

record Service =
  DataDir :: string
  LogLevel :: string
  Hostname :: string
  Timezone :: string

record Log =
  logFile :: string
  MaxSizeMB :: int
  MaxBackups :: int
  MaxAgeDays :: int

record Listener =
  lName :: string
  lAddress :: string
  lTLS :: string
  lMinTLS :: string
  RequireTLS :: bool

record TLS =
  CertFile :: string
  KeyFile :: string

record Rewrite =
  Mode :: string
  AllowedSenders :: "string list"
  EnvelopeFrom :: string
  HeaderFrom :: string
  ReplyTo :: string

record Client =
  clName :: string
  CIDR :: "string list"
  clRoute :: string
  clMaxMessageMB :: int
  MaxRecipients :: int
  clRateLimitPerMin :: int
  clMaxConnections :: int
  clRewrite :: Rewrite
  clNotify :: "string list"

record OAuth2 =
  TenantID :: string
  ClientID :: string
  ClientSecret :: Secret
  SecretExpires :: string
  Scope :: string
  Mailbox :: string

record Credentials =
  Username :: string
  Password :: Secret

record Route =
  rName :: string
  Default :: bool
  Host :: string
  Port :: int
  rTLS :: string
  rMinTLS :: string
  Auth :: string
  Domains :: "string list"
  Sources :: "string list"
  MaxConcurrent :: int
  rRateLimitPerMin :: int
  CAPin :: string
  rOAuth2 :: OAuth2
  rCredentials :: Credentials

record Queue =
  RetryScheduleMin :: "int list"
  MaxLifetimeHours :: int
  FailedRetentionHours :: int

record Bounce =
  bSender :: string
  bNotify :: "string list"
  NotifyRoute :: string
  DigestMinutes :: int
  MaxPerHour :: int

record Canary =
  cnName :: string
  cnSender :: string
  cnRecipient :: string
  cnRoute :: string
  IntervalMinutes :: int
  DailyAt :: "string list"

record Theme =
  thMode :: string
  thColors :: "(string \<times> string) list"

record Token =
  tkName :: string
  tkScope :: string
  tkSHA256 :: string

record Web =
  webAddress :: string
  webEnabled :: bool
  webTheme :: Theme
  Tokens :: "Token list"

record Metrics =
  metAddress :: string
  metPath :: string
  metEnabled :: bool

record History =
  RetentionDays :: int
  RetainSubjects :: bool

record Limits =
  limMaxMessageMB :: int
  MaxHops :: int
  MaxHeaders :: int
  MaxHeaderBytes :: int
  limMaxConnections :: int
  ReadTimeoutSec :: int
  WriteTimeoutSec :: int
  DataTimeoutSec :: int
  DeliveryTimeoutSec :: int
  SpoolMaxGB :: int
  SpoolWarnPercent :: int

record Config =
  cService :: Service
  cLog :: Log
  Listeners :: "Listener list"
  cTLS :: TLS
  Clients :: "Client list"
  Routes :: "Route list"
  cQueue :: Queue
  cBounce :: Bounce
  Canaries :: "Canary list"
  cWeb :: Web
  cMetrics :: Metrics
  cHistory :: History
  WarnDays :: int
  cLimits :: Limits

section \<open>Vocabulary\<close>

definition TLSNone :: string where "TLSNone = ''none''"
definition TLSStartTLS :: string where "TLSStartTLS = ''starttls''"
definition TLSImplicit :: string where "TLSImplicit = ''implicit''"
definition AuthNone :: string where "AuthNone = ''none''"
definition AuthPlain :: string where "AuthPlain = ''plain''"
definition AuthLogin :: string where "AuthLogin = ''login''"
definition AuthXOAUTH2 :: string where "AuthXOAUTH2 = ''xoauth2''"
definition RewriteOff :: string where "RewriteOff = ''off''"
definition RewriteIfUnauthorized :: string where "RewriteIfUnauthorized = ''if_unauthorized''"
definition RewriteForce :: string where "RewriteForce = ''force''"
definition HeaderFromKeep :: string where "HeaderFromKeep = ''keep''"
definition ReplyToPreserve :: string where "ReplyToPreserve = ''preserve''"
definition ReplyToDrop :: string where "ReplyToDrop = ''drop''"
definition ReplyToFixed :: string where "ReplyToFixed = ''fixed''"
definition ScopeRead :: string where "ScopeRead = ''read''"
definition ScopeAdmin :: string where "ScopeAdmin = ''admin''"
definition DefaultScope :: string where "DefaultScope = ''https://outlook.office365.com/.default''"
definition SourceExpiryWatch :: string where "SourceExpiryWatch = ''expiry-watch''"

lemmas tls_words = TLSNone_def TLSStartTLS_def TLSImplicit_def
lemmas auth_words = AuthNone_def AuthPlain_def AuthLogin_def AuthXOAUTH2_def
lemmas rewrite_words = RewriteOff_def RewriteIfUnauthorized_def RewriteForce_def HeaderFromKeep_def
  ReplyToPreserve_def ReplyToDrop_def ReplyToFixed_def

definition UsesOAuth2 :: "Route \<Rightarrow> bool" where
  "UsesOAuth2 r \<longleftrightarrow> Auth r = AuthXOAUTH2"

definition ScopeSatisfies :: "string \<Rightarrow> string \<Rightarrow> bool" where
  "ScopeSatisfies have need \<longleftrightarrow> have = ScopeAdmin \<or> have = need"

definition HasReadableToken :: "Config \<Rightarrow> bool" where
  "HasReadableToken c \<longleftrightarrow> list_ex (\<lambda>t. ScopeSatisfies (tkScope t) ScopeRead) (Tokens (cWeb c))"

definition Secret_Empty :: "Secret \<Rightarrow> bool" where
  "Secret_Empty s \<longleftrightarrow> secRef s = []"

text \<open>TLS versions are crypto/tls's code points.\<close>

definition ParseTLSVersion :: "string \<Rightarrow> int option" where
  "ParseTLSVersion s =
     (if s = ''1.0'' then Some 0x0301 else if s = ''1.1'' then Some 0x0302
      else if s = ''1.2'' then Some 0x0303 else if s = ''1.3'' then Some 0x0304 else None)"

definition VersionTLS12 :: int where "VersionTLS12 = 0x0303"

definition ParseLevel :: "string \<Rightarrow> int option" where
  "ParseLevel s =
     (if s = ''debug'' then Some (-4) else if s = ''info'' \<or> s = [] then Some 0
      else if s = ''warn'' then Some 4 else if s = ''error'' then Some 8 else None)"

definition maxNameLen :: nat where "maxNameLen = 64"

definition ValidName :: "string \<Rightarrow> bool" where
  "ValidName s \<longleftrightarrow> \<not> (s = [] \<or> length s > maxNameLen) \<and>
     list_all (\<lambda>c. \<not> (byte c < (0x20::nat) \<or> byte c > (0x7e::nat) \<or> c = DQUOTE \<or> c = BACKSLASH)) s"

text \<open>\<open>%q\<close> of a name: \<open>ValidName\<close> leaves nothing in it to escape.\<close>

definition quoted :: "string \<Rightarrow> string" where
  "quoted s = [DQUOTE] @ s @ [DQUOTE]"

definition printableASCII :: "string \<Rightarrow> bool" where
  "printableASCII s \<longleftrightarrow> s \<noteq> [] \<and> list_all printable s"

text \<open>The disposition and, for \<open>fixed:\<close>, the address; \<open>None\<close> is one of the two errors.\<close>

definition ParseReplyTo :: "string \<Rightarrow> (string \<times> string) option" where
  "ParseReplyTo s =
     (let rt = TrimSpace s in
      if rt = [] \<or> rt = ReplyToPreserve then Some (ReplyToPreserve, [])
      else if rt = ReplyToDrop then Some (ReplyToDrop, [])
      else if HasPrefix rt (ReplyToFixed @ '':'') then
        (let addr = TrimSpace (TrimPrefix rt (ReplyToFixed @ '':'')) in
         if \<not> ValidAddress addr then None else Some (ReplyToFixed, addr))
      else None)"

section \<open>Times of day\<close>

definition digits :: "string \<Rightarrow> bool" where
  "digits s \<longleftrightarrow> list_all is_digit s"

definition parseTimeOfDay :: "string \<Rightarrow> nat option" where
  "parseTimeOfDay s =
     (if length s \<noteq> 5 \<or> s ! 2 \<noteq> CHR '':'' \<or> \<not> digits (take 2 s) \<or> \<not> digits (drop 3 s) then None
      else (let h = (byte (s ! 0) - 48) * 10 + (byte (s ! 1) - 48);
                m = (byte (s ! 3) - 48) * 10 + (byte (s ! 4) - 48)
            in if h > 23 \<or> m > 59 then None else Some (h * 60 + m)))"

fun daily_minutes :: "string list \<Rightarrow> nat list \<Rightarrow> nat list option" where
  "daily_minutes [] out = Some out"
| "daily_minutes (s # ss) out =
     (case parseTimeOfDay s of
        None \<Rightarrow> None
      | Some m \<Rightarrow> if m \<in> set out then daily_minutes ss out else daily_minutes ss (out @ [m]))"

definition DailyAt_Minutes :: "string list \<Rightarrow> nat list option" where
  "DailyAt_Minutes ss = map_option sort (daily_minutes ss [])"

section \<open>Colours\<close>

definition hex_digit :: "char \<Rightarrow> bool" where
  "hex_digit c \<longleftrightarrow> is_digit c \<or> 97 \<le> byte c \<and> byte c \<le> (102::nat) \<or> 65 \<le> byte c \<and> byte c \<le> (70::nat)"

definition IsHexColor :: "string \<Rightarrow> bool" where
  "IsHexColor s \<longleftrightarrow> (length s = 4 \<or> length s = 7) \<and> hd s = CHR ''#'' \<and> list_all hex_digit (tl s)"

section \<open>Defaults and normalisation\<close>

definition defaultRoutePort :: int where "defaultRoutePort = 587"
definition defaultRouteConcurrency :: int where "defaultRouteConcurrency = 4"
definition defaultMinTLS :: string where "defaultMinTLS = ''1.2''"
definition defaultClientMaxRecipients :: int where "defaultClientMaxRecipients = 100"
definition defaultReadTimeoutSec :: int where "defaultReadTimeoutSec = 60"
definition defaultWriteTimeoutSec :: int where "defaultWriteTimeoutSec = 60"
definition defaultDataTimeoutSec :: int where "defaultDataTimeoutSec = 300"

definition Defaults :: Config where
  "Defaults = \<lparr>
     cService = \<lparr>DataDir = [], LogLevel = ''info'', Hostname = [], Timezone = []\<rparr>,
     cLog = \<lparr>logFile = ''smtprelayd.log'', MaxSizeMB = 50, MaxBackups = 10, MaxAgeDays = 90\<rparr>,
     Listeners = [], cTLS = \<lparr>CertFile = [], KeyFile = []\<rparr>, Clients = [], Routes = [],
     cQueue = \<lparr>RetryScheduleMin = [1, 5, 15, 30, 60, 120], MaxLifetimeHours = 96,
               FailedRetentionHours = 168\<rparr>,
     cBounce = \<lparr>bSender = [], bNotify = [], NotifyRoute = [], DigestMinutes = 15, MaxPerHour = 12\<rparr>,
     Canaries = [],
     cWeb = \<lparr>webAddress = ''127.0.0.1:8025'', webEnabled = False,
             webTheme = \<lparr>thMode = ''auto'', thColors = []\<rparr>, Tokens = []\<rparr>,
     cMetrics = \<lparr>metAddress = ''127.0.0.1:9025'', metPath = ''/metrics'', metEnabled = False\<rparr>,
     cHistory = \<lparr>RetentionDays = 90, RetainSubjects = True\<rparr>,
     WarnDays = 30,
     cLimits = \<lparr>limMaxMessageMB = 50, MaxHops = 25, MaxHeaders = 200, MaxHeaderBytes = 262144,
                limMaxConnections = 200, ReadTimeoutSec = defaultReadTimeoutSec,
                WriteTimeoutSec = defaultWriteTimeoutSec, DataTimeoutSec = defaultDataTimeoutSec,
                DeliveryTimeoutSec = 600, SpoolMaxGB = 10, SpoolWarnPercent = 80\<rparr>\<rparr>"

definition norm_listener :: "Listener \<Rightarrow> Listener" where
  "norm_listener l0 =
     (let l = (if lTLS l0 = [] then l0\<lparr>lTLS := TLSNone\<rparr> else l0)
      in if lTLS l \<noteq> TLSNone \<and> lMinTLS l = [] then l\<lparr>lMinTLS := defaultMinTLS\<rparr> else l)"

definition norm_client :: "Client \<Rightarrow> Client" where
  "norm_client c0 =
     (let c = (if Mode (clRewrite c0) = [] then c0\<lparr>clRewrite := (clRewrite c0)\<lparr>Mode := RewriteOff\<rparr>\<rparr> else c0)
      in if MaxRecipients c = 0 then c\<lparr>MaxRecipients := defaultClientMaxRecipients\<rparr> else c)"

definition norm_route :: "Route \<Rightarrow> Route" where
  "norm_route r0 =
     (let r1 = (if Port r0 = 0 then r0\<lparr>Port := defaultRoutePort\<rparr> else r0);
          r2 = (if rTLS r1 = [] then r1\<lparr>rTLS := TLSStartTLS\<rparr> else r1);
          r3 = (if MaxConcurrent r2 \<le> 0 then r2\<lparr>MaxConcurrent := defaultRouteConcurrency\<rparr> else r2);
          r4 = (if rTLS r3 \<noteq> TLSNone \<and> rMinTLS r3 = [] then r3\<lparr>rMinTLS := defaultMinTLS\<rparr> else r3);
          r5 = (if UsesOAuth2 r4 \<and> Scope (rOAuth2 r4) = []
                then r4\<lparr>rOAuth2 := (rOAuth2 r4)\<lparr>Scope := DefaultScope\<rparr>\<rparr> else r4)
      in r5\<lparr>Domains := map (\<lambda>d. ToLower (TrimSpace d)) (Domains r5)\<rparr>)"

definition norm_limits :: "Limits \<Rightarrow> Limits" where
  "norm_limits l =
     l\<lparr>ReadTimeoutSec := (if ReadTimeoutSec l \<le> 0 then defaultReadTimeoutSec else ReadTimeoutSec l),
       WriteTimeoutSec := (if WriteTimeoutSec l \<le> 0 then defaultWriteTimeoutSec else WriteTimeoutSec l),
       DataTimeoutSec := (if DataTimeoutSec l \<le> 0 then defaultDataTimeoutSec else DataTimeoutSec l)\<rparr>"

text \<open>\<open>osHostname\<close> is what \<open>os.Hostname\<close> answers, if it does.\<close>

definition Normalize :: "string option \<Rightarrow> Config \<Rightarrow> Config" where
  "Normalize osHostname c =
     c\<lparr>cService := (if Hostname (cService c) = [] then
                      (case osHostname of
                         Some h \<Rightarrow> if h \<noteq> [] then (cService c)\<lparr>Hostname := h\<rparr> else cService c
                       | None \<Rightarrow> cService c)
                    else cService c),
       Listeners := map norm_listener (Listeners c),
       Clients := map norm_client (Clients c),
       Routes := map norm_route (Routes c),
       cLimits := norm_limits (cLimits c)\<rparr>"

text \<open>\<open>Config.Route\<close>: by name, or the default route for the empty name.\<close>

definition find_route :: "Config \<Rightarrow> string \<Rightarrow> Route option" where
  "find_route c name =
     (case find (\<lambda>r. rName r = name) (Routes c) of
        Some r \<Rightarrow> Some r
      | None \<Rightarrow> if name = [] then find Default (Routes c) else None)"

section \<open>Normalisation settles once\<close>

lemma lower_char_idem [simp]: "lower_char (lower_char c) = lower_char c"
  by (auto simp: lower_char_def is_upper_def of_char_of)

lemma is_space_lower [simp]: "is_space (lower_char c) = is_space c"
  by (auto simp: lower_char_def is_upper_def is_space_def of_char_of)

lemma ToLower_idem [simp]: "ToLower (ToLower s) = ToLower s"
  by (simp add: ToLower_def)

lemma dropWhile_lower: "dropWhile is_space (ToLower s) = ToLower (dropWhile is_space s)"
  by (induction s) (auto simp: ToLower_def)

lemma ToLower_rev: "rev (ToLower s) = ToLower (rev s)"
  by (simp add: ToLower_def rev_map)

lemma TrimSpace_lower: "TrimSpace (ToLower s) = ToLower (TrimSpace s)"
  by (simp add: TrimSpace_def TrimRightP_def TrimLeftP_def dropWhile_lower ToLower_rev)

lemma dropWhile_suffix_hd: "dropWhile p s \<noteq> [] \<Longrightarrow> \<not> p (hd (dropWhile p s))"
  by (metis dropWhile_eq_Nil_conv hd_dropWhile)

lemma dropWhile_id_iff: "dropWhile p s = s \<longleftrightarrow> s = [] \<or> \<not> p (hd s)"
proof (cases s)
  case (Cons x xs)
  have "length (dropWhile p xs) \<le> length xs" by (rule length_dropWhile_le)
  then show ?thesis using Cons by auto
qed simp

lemma TrimSpace_idem [simp]: "TrimSpace (TrimSpace s) = TrimSpace s"
proof -
  define l where "l = dropWhile is_space s"
  define u where "u = rev (dropWhile is_space (rev l))"
  have t: "TrimSpace s = u" by (simp add: TrimSpace_def TrimRightP_def TrimLeftP_def l_def u_def)
  have "l = u @ rev (takeWhile is_space (rev l))"
    unfolding u_def by (metis rev_append rev_rev_ident takeWhile_dropWhile_id)
  then have "u = [] \<or> hd u = hd l" "u \<noteq> [] \<Longrightarrow> l \<noteq> []" by (metis hd_append2, auto)
  then have "u = [] \<or> \<not> is_space (hd u)" using dropWhile_suffix_hd [of is_space s] l_def by metis
  then have 1: "dropWhile is_space u = u" using dropWhile_id_iff by blast
  have "dropWhile is_space (rev u) = rev u" by (simp add: u_def)
  then show ?thesis unfolding t using 1 by (simp add: TrimSpace_def TrimRightP_def TrimLeftP_def)
qed

lemma norm_listener_idem: "norm_listener (norm_listener l) = norm_listener l"
  by (simp add: norm_listener_def Let_def tls_words defaultMinTLS_def)

lemma norm_client_idem: "norm_client (norm_client c) = norm_client c"
  by (simp add: norm_client_def Let_def rewrite_words defaultClientMaxRecipients_def)

lemma norm_route_eq:
  "norm_route r = r\<lparr>Port := (if Port r = 0 then defaultRoutePort else Port r),
     rTLS := (if rTLS r = [] then TLSStartTLS else rTLS r),
     MaxConcurrent := (if MaxConcurrent r \<le> 0 then defaultRouteConcurrency else MaxConcurrent r),
     rMinTLS := (if rTLS r \<noteq> TLSNone \<and> rMinTLS r = [] then defaultMinTLS else rMinTLS r),
     rOAuth2 := (if Auth r = AuthXOAUTH2 \<and> Scope (rOAuth2 r) = [] then (rOAuth2 r)\<lparr>Scope := DefaultScope\<rparr> else rOAuth2 r),
     Domains := map (\<lambda>d. ToLower (TrimSpace d)) (Domains r)\<rparr>"
proof -
  have n: "(if rTLS r = [] then TLSStartTLS else rTLS r) \<noteq> TLSNone \<longleftrightarrow> rTLS r \<noteq> TLSNone"
    by (simp add: tls_words)
  have u: "(if c then q\<lparr>Port := p\<rparr> else q) = q\<lparr>Port := (if c then p else Port q)\<rparr>"
    "(if c then q\<lparr>rTLS := s\<rparr> else q) = q\<lparr>rTLS := (if c then s else rTLS q)\<rparr>"
    "(if c then q\<lparr>MaxConcurrent := p\<rparr> else q) = q\<lparr>MaxConcurrent := (if c then p else MaxConcurrent q)\<rparr>"
    "(if c then q\<lparr>rMinTLS := s\<rparr> else q) = q\<lparr>rMinTLS := (if c then s else rMinTLS q)\<rparr>"
    "(if c then q\<lparr>rOAuth2 := x\<rparr> else q) = q\<lparr>rOAuth2 := (if c then x else rOAuth2 q)\<rparr>"
    for q :: Route and c p s x by simp_all
  show ?thesis
    unfolding norm_route_def Let_def UsesOAuth2_def u by (simp add: n split del: if_split cong del: if_weak_cong)
qed

lemma norm_route_idem: "norm_route (norm_route r) = norm_route r"
proof -
  have d: "ToLower (TrimSpace (ToLower (TrimSpace d))) = ToLower (TrimSpace d)" for d
    by (simp add: TrimSpace_lower)
  have n: "TLSStartTLS \<noteq> []" "TLSNone \<noteq> []" "TLSStartTLS \<noteq> TLSNone" "defaultMinTLS \<noteq> []" "DefaultScope \<noteq> []"
    "defaultRoutePort \<noteq> 0" "\<not> defaultRouteConcurrency \<le> 0"
    by (simp_all add: tls_words defaultMinTLS_def DefaultScope_def defaultRoutePort_def defaultRouteConcurrency_def)
  show ?thesis unfolding norm_route_eq by (cases r) (simp add: n d comp_def)
qed

lemma norm_limits_idem: "norm_limits (norm_limits l) = norm_limits l"
  by (simp add: norm_limits_def defaultReadTimeoutSec_def defaultWriteTimeoutSec_def defaultDataTimeoutSec_def)

lemma Normalize_idem: "Normalize h (Normalize h c) = Normalize h c"
  by (auto simp: Normalize_def comp_def norm_listener_idem norm_client_idem norm_route_idem
      norm_limits_idem split: option.splits)

end
