(* ===== verification/Smtp_Wire.thy ===== *)
theory Smtp_Wire
  imports Config_Types
begin

text \<open>
  The SMTP wire format, \<open>internal/listener/wire.go\<close>: command lines, header lines and the DATA
  stream. A connection is the bytes still to come and the error it then ends with; how the bytes
  are cut into packets does not matter, because \<open>bufio.Reader\<close> fills its buffer before it answers.
  The lemmas say where the DATA phase ends, what the body reader yields and what a scanned header
  block can hold.
\<close>

section \<open>Reading lines\<close>

record stream =
  sIn :: string
  sEnd :: read_err

definition bufSize :: nat where "bufSize = 4096"
definition maxLineOctet :: nat where "maxLineOctet = 1000"

datatype slice_end = Delim | BufferFull | Failed read_err

text \<open>\<open>bufio.Reader.ReadSlice\<close> of a line feed, with a buffer of 4096 bytes.\<close>

definition ReadSlice :: "stream \<Rightarrow> string \<times> slice_end \<times> stream" where
  "ReadSlice s =
     (case IndexByte (take bufSize (sIn s)) LF of
        Some i \<Rightarrow> (take (i + 1) (sIn s), Delim, s\<lparr>sIn := drop (i + 1) (sIn s)\<rparr>)
      | None \<Rightarrow>
          if bufSize \<le> length (sIn s)
          then (take bufSize (sIn s), BufferFull, s\<lparr>sIn := drop bufSize (sIn s)\<rparr>)
          else (sIn s, Failed (sEnd s), s\<lparr>sIn := []\<rparr>))"

function read_chunks :: "nat \<Rightarrow> string \<Rightarrow> stream \<Rightarrow> (read_err + string) \<times> stream" where
  "read_chunks lim sb s =
     (case ReadSlice s of (chunk, e, s') \<Rightarrow>
        if length sb + length chunk > lim then (Inl errLineTooLong, s')
        else (case e of
                BufferFull \<Rightarrow> read_chunks lim (sb @ chunk) s'
              | Failed err \<Rightarrow> (Inl err, s')
              | Delim \<Rightarrow> (Inr (sb @ chunk), s')))"
  by pat_completeness auto

termination
  by (relation "measure (\<lambda>(_, _, s). length (sIn s))")
    (auto simp: ReadSlice_def bufSize_def split: option.splits if_splits)

declare read_chunks.simps [simp del]

definition splitCommand :: "string \<Rightarrow> string \<times> string" where
  "splitCommand line0 =
     (let line = TrimLeftP (\<lambda>c. c = CHR '' '' \<or> c = TAB) line0 in
      case IndexAny line [CHR '' '', TAB] of
        Some i \<Rightarrow> (ToUpper (take i line), drop (i + 1) line)
      | None \<Rightarrow> (ToUpper line, []))"

definition readLineLimited :: "stream \<Rightarrow> nat \<Rightarrow> (read_err + string \<times> bool) \<times> stream" where
  "readLineLimited br lim =
     (case read_chunks lim [] br of
        (Inl e, br') \<Rightarrow> (Inl e, br')
      | (Inr sb, br') \<Rightarrow>
          (let s0 = TrimSuffix sb [LF];
               crlf = HasSuffix s0 [CR];
               s = (if crlf then TrimSuffix s0 [CR] else s0)
           in if NUL \<in> set s then (Inl errNulByte, br') else (Inr (s, crlf), br')))"

definition readStructuredLine :: "stream \<Rightarrow> nat \<Rightarrow> (read_err + string) \<times> stream" where
  "readStructuredLine br lim =
     (case readLineLimited br lim of
        (Inl e, br') \<Rightarrow> (Inl e, br')
      | (Inr (s, _), br') \<Rightarrow> if CR \<in> set s then (Inl errBareCR, br') else (Inr s, br'))"

section \<open>The body of a message\<close>

record dotReader =
  dBr :: stream
  dRest :: string
  dDone :: bool
  prevCRLF :: bool
  smuggled :: bool

definition newDotReader :: "stream \<Rightarrow> dotReader" where
  "newDotReader br = \<lparr>dBr = br, dRest = [], dDone = False, prevCRLF = True, smuggled = False\<rparr>"

text \<open>One turn of the loop in \<open>Read\<close>: either bytes in \<open>dRest\<close> or the error to return.\<close>

definition dot_fill :: "dotReader \<Rightarrow> read_err option \<times> dotReader" where
  "dot_fill d =
     (if dDone d then (Some EOF, d)
      else case readLineLimited (dBr d) maxLineOctet of
             (Inl e, br') \<Rightarrow> (Some e, d\<lparr>dBr := br', dDone := True\<rparr>)
           | (Inr (line, crlf), br') \<Rightarrow>
               if line = ''.'' then
                 (Some EOF, d\<lparr>dBr := br', dDone := True, smuggled := \<not> crlf \<or> \<not> prevCRLF d\<rparr>)
               else (None, d\<lparr>dBr := br', prevCRLF := crlf, dRest := TrimPrefix line ''.'' @ CRLF\<rparr>))"

text \<open>\<open>Read\<close> with room for \<open>n\<close> bytes. The loop turns at most once: a filled \<open>dRest\<close> is not empty.\<close>

definition Read :: "nat \<Rightarrow> dotReader \<Rightarrow> string \<times> read_err option \<times> dotReader" where
  "Read n d =
     (case (if dRest d = [] then dot_fill d else (None, d)) of
        (Some e, d1) \<Rightarrow> ([], Some e, d1)
      | (None, d1) \<Rightarrow> (take n (dRest d1), None, d1\<lparr>dRest := drop n (dRest d1)\<rparr>))"

text \<open>
  Reading to the end with buffers of the sizes \<open>n 0\<close>, \<open>n 1\<close>, and so on: everything delivered, the error
  at the end, the reader afterwards. Zero sizes are taken as one.
\<close>

lemma read_chunks_consumes: "read_chunks lim sb s = (Inr l, s') \<Longrightarrow> length (sIn s') < length (sIn s)"
proof (induction lim sb s rule: read_chunks.induct)
  case (1 lim sb s)
  obtain chunk e s1 where r: "ReadSlice s = (chunk, e, s1)" by (rule prod_cases3)
  have le: "length (sIn s1) \<le> length (sIn s)" "e = Delim \<Longrightarrow> length (sIn s1) < length (sIn s)"
    using r by (auto simp: ReadSlice_def split: option.splits if_splits dest!: IndexByte_Some)
  show ?case
    using 1(1) [OF r [symmetric] refl] 1(2) le r unfolding read_chunks.simps [of lim sb s]
    by (auto split: slice_end.splits if_splits intro: less_le_trans)
qed

lemma readLineLimited_consumes: "readLineLimited s lim = (Inr x, s') \<Longrightarrow> length (sIn s') < length (sIn s)"
  by (auto simp: readLineLimited_def Let_def split: sum.splits prod.splits if_splits dest: read_chunks_consumes)

lemma Read_progress:
  assumes "Read n d = (bs, None, d')" "0 < n"
  shows "length (sIn (dBr d')) < length (sIn (dBr d)) \<or>
    length (sIn (dBr d')) = length (sIn (dBr d)) \<and> length (dRest d') < length (dRest d)"
  using assms readLineLimited_consumes [of "dBr d" maxLineOctet]
  by (auto simp: Read_def dot_fill_def split: if_splits option.splits prod.splits sum.splits)

function drain :: "(nat \<Rightarrow> nat) \<Rightarrow> dotReader \<Rightarrow> string \<times> read_err \<times> dotReader" where
  "drain n d =
     (case Read (max 1 (n 0)) d of
        (bs, Some e, d') \<Rightarrow> (bs, e, d')
      | (bs, None, d') \<Rightarrow> (case drain (\<lambda>i. n (Suc i)) d' of (bs', e, d'') \<Rightarrow> (bs @ bs', e, d'')))"
  by pat_completeness auto

termination
  by (relation "measures [\<lambda>(_, d). length (sIn (dBr d)), \<lambda>(_, d). length (dRest d)]")
    (auto dest!: Read_progress [OF sym])

declare drain.simps [simp del]

section \<open>Header blocks\<close>

record scan =
  scOut :: string
  scReceived :: nat
  scCount :: int
  scSize :: int
  scDropping :: bool

definition scan_name :: "string \<Rightarrow> string" where
  "scan_name line = ToLower (TrimSpace (case IndexByte line (CHR '':'') of Some i \<Rightarrow> take i line | None \<Rightarrow> line))"

definition folded :: "string \<Rightarrow> bool" where
  "folded line \<longleftrightarrow> HasPrefix line '' '' \<or> HasPrefix line [TAB]"

text \<open>One line that is not the empty one: the next state, or \<open>errTooManyHdrs\<close>.\<close>

definition scan_line :: "Limits \<Rightarrow> string \<Rightarrow> scan \<Rightarrow> scan option" where
  "scan_line lim line st =
     (let st1 = (if folded line then Some st
                 else if scCount st + 1 > MaxHeaders lim then None
                 else (let n = scan_name line; st0 = st\<lparr>scCount := scCount st + 1\<rparr> in
                       Some (if n = ''received'' then st0\<lparr>scReceived := scReceived st0 + 1, scDropping := False\<rparr>
                             else if n = ''return-path'' \<or> n = ''x-original-from'' then st0\<lparr>scDropping := True\<rparr>
                             else st0\<lparr>scDropping := False\<rparr>)))
      in map_option (\<lambda>s. if scDropping s then s else s\<lparr>scOut := scOut s @ line @ CRLF\<rparr>) st1)"

lemma readStructuredLine_consumes: "readStructuredLine s lim = (Inr x, s') \<Longrightarrow> length (sIn s') < length (sIn s)"
  by (auto simp: readStructuredLine_def split: sum.splits prod.splits if_splits dest: readLineLimited_consumes)

function scan_loop :: "Limits \<Rightarrow> scan \<Rightarrow> stream \<Rightarrow> (read_err + string \<times> nat) \<times> stream" where
  "scan_loop lim st br =
     (case readStructuredLine br maxLineOctet of
        (Inl e, br') \<Rightarrow> (if e = EOF then Inr (scOut st, scReceived st) else Inl e, br')
      | (Inr line, br') \<Rightarrow>
          (let st1 = st\<lparr>scSize := scSize st + int (length line) + 2\<rparr> in
           if scSize st1 > MaxHeaderBytes lim then (Inl errHdrTooLarge, br')
           else if line = [] then (Inr (scOut st1 @ CRLF, scReceived st1), br')
           else case scan_line lim line st1 of
                  None \<Rightarrow> (Inl errTooManyHdrs, br')
                | Some st2 \<Rightarrow> scan_loop lim st2 br'))"
  by pat_completeness auto

termination
  by (relation "measure (\<lambda>(_, _, s). length (sIn s))") (auto dest!: readStructuredLine_consumes [OF sym])

declare scan_loop.simps [simp del]

definition scanHeaders :: "stream \<Rightarrow> Limits \<Rightarrow> (read_err + string \<times> nat) \<times> stream" where
  "scanHeaders br lim =
     scan_loop lim \<lparr>scOut = [], scReceived = 0, scCount = 0, scSize = 0, scDropping = False\<rparr> br"

section \<open>One line\<close>

lemma IndexByte_append: "c \<notin> set u \<Longrightarrow> IndexByte (u @ c # r) c = Some (length u)"
  by (induction u) auto

lemma IndexByte_split: "IndexByte s c = Some i \<Longrightarrow> s = take i s @ c # drop (Suc i) s \<and> c \<notin> set (take i s)"
  using IndexByte_Some [of s c i] by (metis id_take_nth_drop)

lemma read_chunks_Inr:
  "read_chunks lim sb s = (Inr l, s') \<Longrightarrow> LF \<notin> set sb \<Longrightarrow>
   \<exists>u. l = sb @ u @ [LF] \<and> LF \<notin> set u \<and> sIn s = u @ LF # sIn s' \<and> sEnd s' = sEnd s \<and> length l \<le> lim"
proof (induction lim sb s rule: read_chunks.induct)
  case (1 lim sb s)
  show ?case
  proof (cases "IndexByte (take bufSize (sIn s)) LF")
    case (Some i)
    from IndexByte_Some [OF Some] have "i < bufSize" "i < length (sIn s)" by simp_all
    with IndexByte_Some [OF Some] have i: "i < bufSize" "i < length (sIn s)" "sIn s ! i = LF" "LF \<notin> set (take i (sIn s))"
      by (simp_all add: min_absorb1)
    then have t: "take (Suc i) (sIn s) = take i (sIn s) @ [LF]" "sIn s = take i (sIn s) @ LF # drop (Suc i) (sIn s)"
      by (simp add: take_Suc_conv_app_nth) (metis i(2,3) id_take_nth_drop)
    show ?thesis using 1(2) i t unfolding read_chunks.simps [of lim sb s]
      by (auto simp: ReadSlice_def Some split: if_splits intro!: exI [of _ "take i (sIn s)"])
  next
    case None
    then have n: "LF \<notin> set (take bufSize (sIn s))" by (simp add: IndexByte_None)
    have big: "bufSize \<le> length (sIn s)" and small: "\<not> lim < length sb + length (take bufSize (sIn s))"
      and r: "read_chunks lim (sb @ take bufSize (sIn s)) (s\<lparr>sIn := drop bufSize (sIn s)\<rparr>) = (Inr l, s')"
      using 1(2) unfolding read_chunks.simps [of lim sb s] by (auto simp: ReadSlice_def None split: if_splits)
    have "ReadSlice s = (take bufSize (sIn s), BufferFull, s\<lparr>sIn := drop bufSize (sIn s)\<rparr>)"
      using None big by (simp add: ReadSlice_def)
    from 1(1) [OF this [symmetric] refl small refl r] n 1(3) obtain u where
      "l = (sb @ take bufSize (sIn s)) @ u @ [LF]" "LF \<notin> set u" "drop bufSize (sIn s) = u @ LF # sIn s'"
      "sEnd s' = sEnd s" "length l \<le> lim" by auto
    then show ?thesis using n
      by (intro exI [of _ "take bufSize (sIn s) @ u"]) (auto, metis append_assoc append_take_drop_id append_Cons)
  qed
qed

lemma read_chunks_line:
  assumes "sIn s = u @ LF # r" "LF \<notin> set u" "length u < lim" "lim \<le> bufSize"
  shows "read_chunks lim [] s = (Inr (u @ [LF]), s\<lparr>sIn := r\<rparr>)"
proof -
  have l: "length u < bufSize" using assms by simp
  then have "take bufSize (sIn s) = u @ LF # take (bufSize - length u - 1) r"
    unfolding assms(1) by (simp add: take_Cons')
  then have "IndexByte (take bufSize (sIn s)) LF = Some (length u)" using assms(2) by (simp add: IndexByte_append)
  then have "ReadSlice s = (u @ [LF], Delim, s\<lparr>sIn := r\<rparr>)" by (simp add: ReadSlice_def assms(1))
  then show ?thesis using assms(3) by (subst read_chunks.simps) simp
qed

lemma HasSuffix_snoc: "HasSuffix (s @ [c]) [d] \<longleftrightarrow> c = d"
  by (simp add: HasSuffix_def HasPrefix_def)

lemma TrimSuffix_snoc [simp]: "TrimSuffix (s @ [c]) [c] = s"
  by (simp add: TrimSuffix_def HasSuffix_snoc)

lemma HasSuffix_Nil: "\<not> HasSuffix [] [c]"
  by (simp add: HasSuffix_def HasPrefix_def)

lemma HasSuffix_iff: "HasSuffix s [c] \<longleftrightarrow> (\<exists>t. s = t @ [c])"
  by (cases s rule: rev_cases) (auto simp: HasSuffix_snoc HasSuffix_Nil)

text \<open>A line that was read, in terms of the bytes it took from the connection.\<close>

definition term_of :: "bool \<Rightarrow> string" where
  "term_of crlf = (if crlf then CRLF else [LF])"

lemma readLineLimited_Inr:
  assumes "readLineLimited s lim = (Inr (line, crlf), s')"
  shows "sIn s = line @ term_of crlf @ sIn s'" "LF \<notin> set line" "NUL \<notin> set line" "sEnd s' = sEnd s"
    "length line + length (term_of crlf) \<le> lim" "\<not> crlf \<Longrightarrow> \<not> HasSuffix line [CR]"
proof -
  obtain l where r: "read_chunks lim [] s = (Inr l, s')"
    using assms by (auto simp: readLineLimited_def Let_def split: prod.splits sum.splits if_splits)
  from read_chunks_Inr [OF r] obtain u where u: "l = u @ [LF]" "LF \<notin> set u" "sIn s = u @ LF # sIn s'"
    "sEnd s' = sEnd s" "length l \<le> lim" by auto
  have f: "crlf = HasSuffix u [CR]" "line = (if HasSuffix u [CR] then TrimSuffix u [CR] else u)" "NUL \<notin> set line"
    using assms by (auto simp: readLineLimited_def Let_def r u(1) split: if_splits)
  have "u @ [LF] = line @ term_of crlf"
    unfolding f(2) f(1) by (auto simp: term_of_def CRLF_def HasSuffix_iff)
  then show "sIn s = line @ term_of crlf @ sIn s'" "LF \<notin> set line" "length line + length (term_of crlf) \<le> lim"
    using u f by (auto simp: TrimSuffix_def dest: in_set_takeD)
  show "NUL \<notin> set line" "sEnd s' = sEnd s" "\<not> crlf \<Longrightarrow> \<not> HasSuffix line [CR]" using u f by auto
qed

lemma readLineLimited_line:
  assumes "sIn s = line @ CRLF @ r" "LF \<notin> set line" "NUL \<notin> set line" "length line + 2 \<le> lim" "lim \<le> bufSize"
  shows "readLineLimited s lim = (Inr (line, True), s\<lparr>sIn := r\<rparr>)"
proof -
  have "read_chunks lim [] s = (Inr ((line @ [CR]) @ [LF]), s\<lparr>sIn := r\<rparr>)"
    using assms by (intro read_chunks_line) (auto simp: CRLF_def)
  then show ?thesis using assms(3)
    by (auto simp: readLineLimited_def Let_def HasSuffix_snoc simp del: append_assoc)
qed

section \<open>The body as one pass over the lines\<close>

text \<open>
  What a body reader delivers, line by line: the bytes, the error at the end, whether the end was
  smuggled, and the connection afterwards. \<open>prev\<close> is the terminator of the line before.
\<close>

function dot_run :: "bool \<Rightarrow> stream \<Rightarrow> string \<times> read_err \<times> bool \<times> stream" where
  "dot_run prev br =
     (case readLineLimited br maxLineOctet of
        (Inl e, br') \<Rightarrow> ([], e, False, br')
      | (Inr (line, crlf), br') \<Rightarrow>
          if line = ''.'' then ([], EOF, \<not> crlf \<or> \<not> prev, br')
          else (case dot_run crlf br' of (bs, e, sm, br'') \<Rightarrow> (TrimPrefix line ''.'' @ CRLF @ bs, e, sm, br'')))"
  by pat_completeness auto

termination
  by (relation "measure (\<lambda>(_, s). length (sIn s))") (auto dest!: readLineLimited_consumes [OF sym])

declare dot_run.simps [simp del]

lemma drain_dot_run:
  "\<not> dDone d \<Longrightarrow> \<not> smuggled d \<Longrightarrow> dot_run (prevCRLF d) (dBr d) = (bs, e, sm, br') \<Longrightarrow>
   \<exists>d'. drain n d = (dRest d @ bs, e, d') \<and> dBr d' = br' \<and> smuggled d' = sm \<and> dDone d'"
proof (induction n d arbitrary: bs rule: drain.induct)
  case (1 n d)
  show ?case
  proof (cases "dRest d = []")
    case False
    let ?d = "d\<lparr>dRest := drop (max 1 (n 0)) (dRest d)\<rparr>"
    have r: "Read (max 1 (n 0)) d = (take (max 1 (n 0)) (dRest d), None, ?d)" using False by (simp add: Read_def)
    from 1(1) [OF r [symmetric] refl refl, of bs] 1(2-4) r show ?thesis
      by (subst drain.simps) (auto simp: r simp flip: append_assoc)
  next
    case True
    show ?thesis
    proof (cases "readLineLimited (dBr d) maxLineOctet")
      case (Pair res br1)
      show ?thesis
      proof (cases res)
        case (Inl x)
        then show ?thesis using 1(2-4) True Pair
          by (subst drain.simps) (auto simp: Read_def dot_fill_def dot_run.simps [of "prevCRLF d" "dBr d"])
      next
        case (Inr p)
        obtain line crlf where p: "p = (line, crlf)" by fastforce
        show ?thesis
        proof (cases "line = ''.''")
          case eod: True
          then show ?thesis using 1(2-4) True Pair Inr p
            by (subst drain.simps) (auto simp: Read_def dot_fill_def dot_run.simps [of "prevCRLF d" "dBr d"])
        next
          case False
          let ?out = "TrimPrefix line ''.'' @ CRLF"
          let ?d = "d\<lparr>dBr := br1, prevCRLF := crlf, dRest := drop (max 1 (n 0)) ?out\<rparr>"
          obtain bs1 where b: "dot_run crlf br1 = (bs1, e, sm, br')" "bs = ?out @ bs1"
            using 1(4) Pair Inr p False by (auto simp: dot_run.simps [of "prevCRLF d" "dBr d"] split: prod.splits)
          have r: "Read (max 1 (n 0)) d = (take (max 1 (n 0)) ?out, None, ?d)"
            using 1(2) True Pair Inr p False by (simp add: Read_def dot_fill_def)
          from 1(1) [OF r [symmetric] refl refl, of bs1] 1(2,3) b obtain d' where
            d': "drain (\<lambda>i. n (Suc i)) ?d = (drop (max 1 (n 0)) ?out @ bs1, e, d')" "dBr d' = br'" "smuggled d' = sm" "dDone d'"
            by auto
          have "drain n d = (take (max 1 (n 0)) ?out @ drop (max 1 (n 0)) ?out @ bs1, e, d')"
            by (subst drain.simps) (simp only: r prod.case option.case d'(1))
          then have "drain n d = (?out @ bs1, e, d')"
            unfolding append_assoc [of _ _ bs1, symmetric] append_take_drop_id .
          then show ?thesis using d' b(2) True by simp
        qed
      qed
    qed
  qed
qed

section \<open>Where the body ends\<close>

definition ends_in :: "string \<Rightarrow> string \<Rightarrow> bool" where
  "ends_in s t \<longleftrightarrow> (\<exists>u. s = u @ t)"

definition DOT :: string where "DOT = ''.''"
definition EOD :: string where "EOD = CRLF @ DOT @ CRLF"

text \<open>
  The bytes taken by the body reader: they end with the dot line, or the connection ended or a
  line was refused first. \<open>prev\<close> stands for what came before the body.
\<close>

definition body_end :: "bool \<Rightarrow> stream \<Rightarrow> string \<Rightarrow> read_err \<Rightarrow> bool \<Rightarrow> stream \<Rightarrow> bool" where
  "body_end prev br used e sm br' \<longleftrightarrow>
     sIn br = used @ sIn br' \<and>
     ((\<exists>pre crlf. used = pre @ DOT @ term_of crlf \<and> (pre = [] \<or> ends_in pre [LF]) \<and> e = EOF \<and>
          sm = (\<not> (crlf \<and> (pre = [] \<and> prev \<or> pre \<noteq> [] \<and> ends_in pre CRLF)))) \<or>
      \<not> sm \<and> (e = sEnd br \<and> sIn br' = [] \<or> e = errLineTooLong \<or> e = errNulByte))"

lemma ends_in_append: "ends_in t u \<Longrightarrow> ends_in (s @ t) u"
  by (auto simp: ends_in_def)

lemma ends_in_term: "ends_in (l @ term_of crlf) [LF]"
  by (auto simp: ends_in_def term_of_def CRLF_def)

lemma ends_in_CRLF: "\<not> HasSuffix l [CR] \<Longrightarrow> ends_in (l @ [LF]) CRLF \<longleftrightarrow> False"
  by (auto simp: ends_in_def CRLF_def HasSuffix_iff)

lemma read_chunks_Inl:
  "read_chunks lim sb s = (Inl e, s') \<Longrightarrow> (\<exists>w. sIn s = w @ sIn s') \<and> (e = errLineTooLong \<or> e = sEnd s \<and> sIn s' = [])"
proof (induction lim sb s rule: read_chunks.induct)
  case (1 lim sb s)
  obtain chunk r s1 where rs: "ReadSlice s = (chunk, r, s1)" by (rule prod_cases3)
  have c: "sIn s = chunk @ sIn s1" "sEnd s1 = sEnd s" "\<And>x. r = Failed x \<Longrightarrow> x = sEnd s \<and> sIn s1 = []"
    using rs by (auto simp: ReadSlice_def split: option.splits if_splits)
  show ?case
    using 1(1) [OF rs [symmetric] refl] 1(2) c unfolding read_chunks.simps [of lim sb s] rs prod.case
    by (auto split: slice_end.splits if_splits)
qed

lemma readLineLimited_Inl:
  assumes "readLineLimited s lim = (Inl e, s')"
  shows "(\<exists>w. sIn s = w @ sIn s') \<and> (e = errLineTooLong \<or> e = errNulByte \<or> e = sEnd s \<and> sIn s' = [])"
proof (cases "read_chunks lim [] s")
  case (Pair r s1)
  show ?thesis
  proof (cases r)
    case (Inl x)
    then show ?thesis using assms Pair read_chunks_Inl [of lim "[]" s x s1] by (auto simp: readLineLimited_def)
  next
    case (Inr l)
    then show ?thesis using assms Pair read_chunks_Inr [of lim "[]" s l s1]
      by (auto simp: readLineLimited_def Let_def split: if_splits intro: exI [of _ "u @ [LF]" for u])
  qed
qed

lemma body_end_line:
  assumes b: "body_end crlf br1 used e sm br'" and s: "sIn br = line @ term_of crlf @ sIn br1" "sEnd br1 = sEnd br"
    and c: "\<not> crlf \<Longrightarrow> \<not> HasSuffix line [CR]"
  shows "body_end prev br (line @ term_of crlf @ used) e sm br'"
proof -
  have ends: "ends_in ((line @ term_of crlf) @ pre) CRLF = (if pre = [] then crlf else ends_in pre CRLF)"
    if pl: "pre = [] \<or> ends_in pre [LF]" for pre
  proof (cases "pre = []")
    case True
    then show ?thesis using c ends_in_CRLF [of line] by (cases crlf) (auto simp: term_of_def ends_in_def)
  next
    case False
    then obtain q where q: "pre = q @ [LF]" using pl by (auto simp: ends_in_def)
    show ?thesis
    proof (cases "q = []")
      case True
      have "\<not> ends_in ((line @ term_of crlf) @ [LF]) CRLF"
        using c by (cases crlf) (auto simp: term_of_def ends_in_def CRLF_def)
      then show ?thesis using True q by (auto simp: ends_in_def CRLF_def)
    next
      case False
      then obtain q' z where "q = q' @ [z]" by (cases q rule: rev_cases) auto
      then show ?thesis using q by (auto simp: ends_in_def CRLF_def)
    qed
  qed
  have i: "sIn br1 = used @ sIn br'" using b by (simp add: body_end_def)
  from b consider (dot) pre crlf' where "used = pre @ DOT @ term_of crlf'" "pre = [] \<or> ends_in pre [LF]" "e = EOF"
      "sm = (\<not> (crlf' \<and> (pre = [] \<and> crlf \<or> pre \<noteq> [] \<and> ends_in pre CRLF)))"
    | (other) "\<not> sm" "e = sEnd br1 \<and> sIn br' = [] \<or> e = errLineTooLong \<or> e = errNulByte"
    unfolding body_end_def by blast
  then show ?thesis
  proof cases
    case (dot pre crlf')
    define p1 where "p1 = (line @ term_of crlf) @ pre"
    have "ends_in p1 [LF]"
      unfolding p1_def using dot(2) ends_in_term [of line crlf] ends_in_append [of pre "[LF]" "line @ term_of crlf"] by auto
    moreover have "p1 \<noteq> []" by (simp add: p1_def term_of_def CRLF_def)
    moreover have "ends_in p1 CRLF = (pre = [] \<and> crlf \<or> pre \<noteq> [] \<and> ends_in pre CRLF)"
      using ends [OF dot(2)] by (simp add: p1_def)
    moreover have "line @ term_of crlf @ used = p1 @ DOT @ term_of crlf'" by (simp add: p1_def dot(1))
    moreover have "sIn br = (line @ term_of crlf @ used) @ sIn br'" using i s(1) by simp
    ultimately show ?thesis unfolding body_end_def using dot(3,4) by blast
  next
    case other
    then show ?thesis unfolding body_end_def using s i by auto
  qed
qed

lemma dot_run_end:
  "dot_run prev br = (bs, e, sm, br') \<Longrightarrow> \<exists>used. body_end prev br used e sm br'"
proof (induction prev br arbitrary: bs rule: dot_run.induct)
  case (1 prev br)
  obtain res br1 where r: "readLineLimited br maxLineOctet = (res, br1)" by fastforce
  show ?case
  proof (cases res)
    case (Inl x)
    then show ?thesis
      using 1(2) r readLineLimited_Inl [of br maxLineOctet x br1] unfolding dot_run.simps [of prev br] body_end_def by auto
  next
    case (Inr p)
    obtain line crlf where p: "p = (line, crlf)" by fastforce
    note l = readLineLimited_Inr [OF r [unfolded Inr p]]
    show ?thesis
    proof (cases "line = ''.''")
      case True
      then show ?thesis using 1(2) r Inr p l(1) unfolding dot_run.simps [of prev br] body_end_def
        by (intro exI [of _ "DOT @ term_of crlf"]) (auto simp: DOT_def)
    next
      case False
      obtain bs1 where b: "dot_run crlf br1 = (bs1, e, sm, br')"
        using 1(2) r Inr p False by (auto simp: dot_run.simps [of prev br] split: prod.splits)
      from 1(1) [OF r [symmetric] Inr p [symmetric] False b] obtain used where "body_end crlf br1 used e sm br'" by blast
      from body_end_line [OF this l(1,4,6)] show ?thesis by blast
    qed
  qed
qed

text \<open>What is delivered: lines that end in CRLF, without NUL and with no other line feed.\<close>

definition crlf_lines :: "string list \<Rightarrow> string" where
  "crlf_lines ls = concat (map (\<lambda>l. l @ CRLF) ls)"

lemma crlf_lines_Cons [simp]: "crlf_lines (l # ls) = l @ CRLF @ crlf_lines ls"
  by (simp add: crlf_lines_def)

lemma crlf_lines_Nil [simp]: "crlf_lines [] = []"
  by (simp add: crlf_lines_def)

lemma TrimPrefix_set: "c \<notin> set l \<Longrightarrow> c \<notin> set (TrimPrefix l p)"
  by (auto simp: TrimPrefix_def dest: in_set_dropD)

lemma TrimPrefix_length: "length (TrimPrefix l p) \<le> length l"
  by (simp add: TrimPrefix_def)

lemma dot_run_lines:
  "dot_run prev br = (bs, e, sm, br') \<Longrightarrow>
   \<exists>ls. bs = crlf_lines ls \<and> (\<forall>l \<in> set ls. LF \<notin> set l \<and> NUL \<notin> set l \<and> length l < maxLineOctet)"
proof (induction prev br arbitrary: bs rule: dot_run.induct)
  case (1 prev br)
  obtain res br1 where r: "readLineLimited br maxLineOctet = (res, br1)" by fastforce
  show ?case
  proof (cases res)
    case (Inl x)
    then show ?thesis using 1(2) r unfolding dot_run.simps [of prev br] by (intro exI [of _ "[]"]) simp
  next
    case (Inr p)
    obtain line crlf where p: "p = (line, crlf)" by fastforce
    note l = readLineLimited_Inr [OF r [unfolded Inr p]]
    show ?thesis
    proof (cases "line = ''.''")
      case True
      then show ?thesis using 1(2) r Inr p unfolding dot_run.simps [of prev br] by (intro exI [of _ "[]"]) simp
    next
      case False
      obtain bs1 where b: "dot_run crlf br1 = (bs1, e, sm, br')" "bs = TrimPrefix line ''.'' @ CRLF @ bs1"
        using 1(2) r Inr p False by (auto simp: dot_run.simps [of prev br] split: prod.splits)
      from 1(1) [OF r [symmetric] Inr p [symmetric] False b(1)] obtain ls where
        ls: "bs1 = crlf_lines ls" "\<forall>l \<in> set ls. LF \<notin> set l \<and> NUL \<notin> set l \<and> length l < maxLineOctet" by blast
      have "length (TrimPrefix line ''.'') < maxLineOctet"
        using TrimPrefix_length [of line "''.''"] l(5) by (auto simp: term_of_def CRLF_def split: if_splits)
      then show ?thesis using ls b(2) l(2,3) TrimPrefix_set by (intro exI [of _ "TrimPrefix line ''.'' # ls"]) auto
    qed
  qed
qed

text \<open>
  The client's side of the DATA phase: each line dot-stuffed and ended by CRLF, then the dot line.
\<close>

definition dot_stuff :: "string \<Rightarrow> string" where
  "dot_stuff l = (if HasPrefix l DOT then DOT @ l else l)"

definition dot_encode :: "string list \<Rightarrow> string" where
  "dot_encode ls = crlf_lines (map dot_stuff ls) @ DOT @ CRLF"

definition sendable :: "string \<Rightarrow> bool" where
  "sendable l \<longleftrightarrow> LF \<notin> set l \<and> NUL \<notin> set l \<and> length (dot_stuff l) + 2 \<le> maxLineOctet"

lemma dot_stuff_props: "dot_stuff l \<noteq> DOT" "TrimPrefix (dot_stuff l) DOT = l" "set (dot_stuff l) \<subseteq> insert CHR ''.'' (set l)"
  by (auto simp: dot_stuff_def TrimPrefix_def HasPrefix_def DOT_def)

lemma dot_run_encode:
  "\<forall>l \<in> set ls. sendable l \<Longrightarrow> sIn br = dot_encode ls @ rest \<Longrightarrow>
   dot_run True br = (crlf_lines ls, EOF, False, br\<lparr>sIn := rest\<rparr>)"
proof (induction ls arbitrary: br)
  case Nil
  have "readLineLimited br maxLineOctet = (Inr (DOT, True), br\<lparr>sIn := rest\<rparr>)"
    by (rule readLineLimited_line) (use Nil in \<open>auto simp: dot_encode_def DOT_def LF_def NUL_def maxLineOctet_def bufSize_def\<close>)
  then show ?case by (subst dot_run.simps) (simp add: DOT_def)
next
  case (Cons l ls)
  have d: "LF \<notin> set (dot_stuff l)" "NUL \<notin> set (dot_stuff l)" "length (dot_stuff l) + 2 \<le> maxLineOctet"
    using Cons.prems(1) dot_stuff_props(3) [of l] by (auto simp: sendable_def LF_def NUL_def)
  have "readLineLimited br maxLineOctet = (Inr (dot_stuff l, True), br\<lparr>sIn := dot_encode ls @ rest\<rparr>)"
    by (rule readLineLimited_line) (use Cons.prems(2) d in \<open>auto simp: dot_encode_def maxLineOctet_def bufSize_def\<close>)
  moreover have "dot_run True (br\<lparr>sIn := dot_encode ls @ rest\<rparr>) = (crlf_lines ls, EOF, False, br\<lparr>sIn := rest\<rparr>)"
    using Cons.IH [of "br\<lparr>sIn := dot_encode ls @ rest\<rparr>"] Cons.prems(1) by simp
  ultimately show ?case using dot_stuff_props(1,2) [of l] by (subst dot_run.simps) (simp flip: DOT_def)
qed

text \<open>C10: Whatever buffers it is read with, the body reader undoes the client's dot-stuffing exactly: a
  message sent as lines of at most 1000 octets arrives as the same lines, nothing is flagged as
  smuggled, and the first byte after the dot line is the next thing the command loop will read,
  whatever the client pipelined behind it.\<close>

theorem dot_stuffing_roundtrip:
  assumes "\<forall>l \<in> set ls. sendable l"
  shows "\<exists>d'. drain n (newDotReader \<lparr>sIn = dot_encode ls @ rest, sEnd = fin\<rparr>) = (crlf_lines ls, EOF, d') \<and>
    dBr d' = \<lparr>sIn = rest, sEnd = fin\<rparr> \<and> \<not> smuggled d'"
proof -
  have "dot_run True \<lparr>sIn = dot_encode ls @ rest, sEnd = fin\<rparr> = (crlf_lines ls, EOF, False, \<lparr>sIn = rest, sEnd = fin\<rparr>)"
    using dot_run_encode [OF assms, of "\<lparr>sIn = dot_encode ls @ rest, sEnd = fin\<rparr>" rest] by simp
  from drain_dot_run [of "newDotReader \<lparr>sIn = dot_encode ls @ rest, sEnd = fin\<rparr>" _ _ _ _ n, unfolded newDotReader_def, simplified, OF this]
  show ?thesis by (auto simp: newDotReader_def)
qed

theorem dot_stuffing_roundtrip_witness:
  "\<exists>d'. drain (\<lambda>i. i) (newDotReader \<lparr>sIn = dot_encode [''.'', ''a'', []] @ ''QUIT'', sEnd = EOF\<rparr>) =
     (crlf_lines [''.'', ''a'', []], EOF, d')"
  using dot_stuffing_roundtrip [of "[''.'', ''a'', []]" "\<lambda>i. i" "''QUIT''" EOF]
  by (auto simp: sendable_def dot_stuff_def DOT_def HasPrefix_def maxLineOctet_def LF_def NUL_def)

text \<open>C9: The body reader delivers only whole lines ended by CRLF, without a NUL byte or any other line
  feed. It stops either at a line that is a single dot, or with an error, or where the connection
  ends; and unless it says so by \<open>smuggled\<close>, a dot line counted only when it was preceded by
  CRLF (or was the first line) and itself ended by CRLF, so that a body that has merely bare line
  feeds around a dot never hands the rest of the stream to the command loop unmarked.\<close>

theorem body_ends_at_the_dot_line:
  assumes "drain n (newDotReader br) = (bs, e, d')"
  shows "(\<exists>ls. bs = crlf_lines ls \<and> (\<forall>l \<in> set ls. LF \<notin> set l \<and> NUL \<notin> set l \<and> length l < maxLineOctet)) \<and>
    (\<exists>used. sIn br = used @ sIn (dBr d') \<and>
       ((\<exists>pre crlf. used = pre @ DOT @ term_of crlf \<and> (pre = [] \<or> ends_in pre [LF]) \<and> e = EOF \<and>
           smuggled d' = (\<not> (crlf \<and> (pre = [] \<or> ends_in pre CRLF)))) \<or>
        \<not> smuggled d' \<and> (e = sEnd br \<and> sIn (dBr d') = [] \<or> e = errLineTooLong \<or> e = errNulByte)))"
proof -
  obtain bs1 e1 sm br' where r: "dot_run True br = (bs1, e1, sm, br')" by (metis prod_cases4)
  from drain_dot_run [of "newDotReader br" bs1 e1 sm br' n] r assms
  have eq: "bs = bs1" "e = e1" "smuggled d' = sm" "dBr d' = br'" by (auto simp: newDotReader_def)
  from dot_run_end [OF r] obtain used where "body_end True br used e1 sm br'" by blast
  then have "sIn br = used @ sIn (dBr d') \<and>
       ((\<exists>pre crlf. used = pre @ DOT @ term_of crlf \<and> (pre = [] \<or> ends_in pre [LF]) \<and> e = EOF \<and>
           smuggled d' = (\<not> (crlf \<and> (pre = [] \<or> ends_in pre CRLF)))) \<or>
        \<not> smuggled d' \<and> (e = sEnd br \<and> sIn (dBr d') = [] \<or> e = errLineTooLong \<or> e = errNulByte))"
    unfolding eq body_end_def by blast
  then show ?thesis using dot_run_lines [OF r] eq by blast
qed

text \<open>A bare line feed after the dot ends the body, but what follows is not trusted.\<close>

definition demo_smuggle :: stream where
  "demo_smuggle = \<lparr>sIn = ''a'' @ CRLF @ DOT @ [LF] @ ''MAIL FROM:<x@y.z>'' @ CRLF, sEnd = EOF\<rparr>"

theorem body_ends_at_the_dot_line_witness:
  "smuggled (snd (snd (drain (\<lambda>_. 1) (newDotReader demo_smuggle)))) \<and>
   (\<exists>used. sIn demo_smuggle = used @ sIn (dBr (snd (snd (drain (\<lambda>_. 1) (newDotReader demo_smuggle))))))"
proof -
  obtain bs e d' where r: "drain (\<lambda>_. 1) (newDotReader demo_smuggle) = (bs, e, d')" by (rule prod_cases3)
  have "smuggled (snd (snd (drain (\<lambda>_. 1) (newDotReader demo_smuggle))))" by code_simp
  then show ?thesis using body_ends_at_the_dot_line [OF r] r by auto
qed

end
