(* ===== verification/Header_Block.thy ===== *)
theory Header_Block
  imports Smtp_Wire
begin

text \<open>
  Header blocks as \<open>internal/rewrite/header.go\<close> parses, edits and prints them. A field keeps its
  lines verbatim, so that an untouched header is printed byte for byte; a line that is no header
  is kept as a field without a name. The lemmas relate a block to its text and say what an edit
  changes.
\<close>

record hfield =
  fName :: string
  fLines :: "string list"

record hblock =
  bFields :: "hfield list"
  bBlank :: bool

datatype header_err = errTrailingData

section \<open>Parsing and printing\<close>

text \<open>One line of the block that is not the empty line.\<close>

definition add_line :: "string \<Rightarrow> hfield list \<Rightarrow> hfield list" where
  "add_line line fs =
     (if hd line = CHR '' '' \<or> hd line = TAB then
        (if fs = [] then [\<lparr>fName = [], fLines = [line]\<rparr>]
         else butlast fs @ [(last fs)\<lparr>fLines := fLines (last fs) @ [line]\<rparr>])
      else case IndexByte line (CHR '':'') of
             None \<Rightarrow> fs @ [\<lparr>fName = [], fLines = [line]\<rparr>]
           | Some c \<Rightarrow>
               if c = 0 then fs @ [\<lparr>fName = [], fLines = [line]\<rparr>]
               else fs @ [\<lparr>fName = ToLower (TrimSpace (take c line)), fLines = [line]\<rparr>])"

text \<open>The first line of \<open>rest\<close> and what follows it.\<close>

definition cut_line :: "string \<Rightarrow> string \<times> string" where
  "cut_line rest = (case Index rest CRLF of None \<Rightarrow> (rest, []) | Some i \<Rightarrow> (take i rest, drop (i + 2) rest))"

lemma Index_le: "Index s p = Some i \<Longrightarrow> i + length p \<le> length s"
proof (induction s arbitrary: i)
  case (Cons x s)
  show ?case
  proof (cases "HasPrefix (x # s) p")
    case True
    then have "length p \<le> length (x # s)" by (metis HasPrefix_def length_take min.absorb_iff2 min.commute nat_le_linear)
    then show ?thesis using Cons.prems True by simp
  qed (use Cons in \<open>auto split: option.splits\<close>)
qed (auto split: if_splits)

lemma cut_line_shorter: "rest \<noteq> [] \<Longrightarrow> length (snd (cut_line rest)) < length rest"
  using Index_le [of rest CRLF] by (fastforce simp: cut_line_def CRLF_def split: option.split)

function parse_loop :: "string \<Rightarrow> hfield list \<Rightarrow> header_err + hblock" where
  "parse_loop rest fs =
     (if rest = [] then Inr \<lparr>bFields = fs, bBlank = False\<rparr>
      else (case cut_line rest of (line, rest') \<Rightarrow>
              if line = [] then (if rest' \<noteq> [] then Inl errTrailingData else Inr \<lparr>bFields = fs, bBlank = True\<rparr>)
              else parse_loop rest' (add_line line fs)))"
  by pat_completeness auto

termination
  by (relation "measure (\<lambda>(rest, _). length rest)") (auto dest: cut_line_shorter simp: prod_eq_iff)

declare parse_loop.simps [simp del]

definition parseBlock :: "string \<Rightarrow> header_err + hblock" where
  "parseBlock s = parse_loop s []"

definition hblock_String :: "hblock \<Rightarrow> string" where
  "hblock_String b = concat (map (\<lambda>f. crlf_lines (fLines f)) (bFields b)) @ (if bBlank b then CRLF else [])"

section \<open>Reading and editing\<close>

definition blk_count :: "hblock \<Rightarrow> string \<Rightarrow> nat" where
  "blk_count b n = length (filter (\<lambda>f. fName f = n) (bFields b))"

definition blk_has :: "hblock \<Rightarrow> string \<Rightarrow> bool" where
  "blk_has b n \<longleftrightarrow> blk_count b n > 0"

fun unfold :: "string list \<Rightarrow> string" where
  "unfold [] = []"
| "unfold (l # ls) =
     (case IndexByte l (CHR '':'') of
        None \<Rightarrow> []
      | Some c \<Rightarrow> TrimSpace (TrimSpace (drop (c + 1) l) @ concat (map (\<lambda>x. '' '' @ TrimSpace x) ls)))"

definition blk_value :: "hblock \<Rightarrow> string \<Rightarrow> string" where
  "blk_value b n = (case find (\<lambda>f. fName f = n) (bFields b) of None \<Rightarrow> [] | Some f \<Rightarrow> unfold (fLines f))"

fun set_fields :: "string \<Rightarrow> hfield \<Rightarrow> bool \<Rightarrow> hfield list \<Rightarrow> hfield list \<times> bool" where
  "set_fields lower new replaced [] = ([], replaced)"
| "set_fields lower new replaced (f # fs) =
     (if fName f = lower then
        (if replaced then set_fields lower new replaced fs
         else (case set_fields lower new True fs of (out, r) \<Rightarrow> (new # out, r)))
      else (case set_fields lower new replaced fs of (out, r) \<Rightarrow> (f # out, r)))"

definition blk_set :: "string \<Rightarrow> string \<Rightarrow> hblock \<Rightarrow> hblock" where
  "blk_set name v b =
     (let new = \<lparr>fName = ToLower name, fLines = [name @ '': '' @ v]\<rparr> in
      case set_fields (ToLower name) new False (bFields b) of (out, replaced) \<Rightarrow>
        b\<lparr>bFields := (if replaced then out else out @ [new])\<rparr>)"

definition blk_remove :: "string \<Rightarrow> hblock \<Rightarrow> hblock" where
  "blk_remove n b = b\<lparr>bFields := filter (\<lambda>f. fName f \<noteq> n) (bFields b)\<rparr>"

text \<open>\<open>Parsed\<close>: the best-effort reader of the history journal.\<close>

definition ParseHeaders :: "string \<Rightarrow> hblock option" where
  "ParseHeaders h = (case parseBlock h of Inl _ \<Rightarrow> None | Inr b \<Rightarrow> Some b)"

definition Parsed_Value :: "hblock option \<Rightarrow> string \<Rightarrow> string" where
  "Parsed_Value p n = (case p of None \<Rightarrow> [] | Some b \<Rightarrow> blk_value b (ToLower n))"

definition Parsed_Count :: "hblock option \<Rightarrow> nat" where
  "Parsed_Count p = (case p of None \<Rightarrow> 0 | Some b \<Rightarrow> length (bFields b))"

definition HeaderValue :: "string \<Rightarrow> string \<Rightarrow> string" where
  "HeaderValue h n = Parsed_Value (ParseHeaders h) n"

definition HeaderCount :: "string \<Rightarrow> nat" where
  "HeaderCount h = Parsed_Count (ParseHeaders h)"

section \<open>A block and its text\<close>

text \<open>Lines that can stand in a block: not empty and without CR or LF.\<close>

definition plain_line :: "string \<Rightarrow> bool" where
  "plain_line l \<longleftrightarrow> l \<noteq> [] \<and> CR \<notin> set l \<and> LF \<notin> set l"

lemma HasPrefix_CRLF: "HasPrefix (x # s) CRLF \<longleftrightarrow> x = CR \<and> (\<exists>t. s = LF # t)"
  by (cases s) (auto simp: HasPrefix_def CRLF_def)

lemma Index_CRLF: "CR \<notin> set l \<Longrightarrow> Index (l @ CRLF @ r) CRLF = Some (length l)"
proof (induction l)
  case Nil
  then show ?case by (simp add: CRLF_def HasPrefix_def)
next
  case (Cons x l)
  then show ?case by (auto simp: HasPrefix_CRLF)
qed

lemma cut_line_plain: "CR \<notin> set l \<Longrightarrow> cut_line (l @ CRLF @ r) = (l, r)"
  by (simp add: cut_line_def Index_CRLF) (simp add: CRLF_def)

lemma parse_loop_lines:
  assumes "\<forall>l \<in> set ls. plain_line l"
  shows "parse_loop (crlf_lines ls @ rest) fs = parse_loop rest (fold add_line ls fs)"
  using assms
proof (induction ls arbitrary: fs)
  case (Cons l ls)
  have "cut_line (crlf_lines (l # ls) @ rest) = (l, crlf_lines ls @ rest)"
    using cut_line_plain [of l "crlf_lines ls @ rest"] Cons.prems by (simp add: plain_line_def)
  moreover have "crlf_lines (l # ls) @ rest \<noteq> []" by (simp add: CRLF_def)
  ultimately show ?case
    using Cons by (subst parse_loop.simps) (simp add: plain_line_def)
qed simp

lemma parse_loop_end: "parse_loop [] fs = Inr \<lparr>bFields = fs, bBlank = False\<rparr>"
    "parse_loop CRLF fs = Inr \<lparr>bFields = fs, bBlank = True\<rparr>"
proof -
  have "cut_line CRLF = ([], [])" using cut_line_plain [of "[]" "[]"] by simp
  then show "parse_loop CRLF fs = Inr \<lparr>bFields = fs, bBlank = True\<rparr>"
    by (subst parse_loop.simps) (simp add: CRLF_def)
qed (simp add: parse_loop.simps)

definition block_of :: "string list \<Rightarrow> bool \<Rightarrow> hblock" where
  "block_of ls blank = \<lparr>bFields = fold add_line ls [], bBlank = blank\<rparr>"

lemma parseBlock_lines:
  "\<forall>l \<in> set ls. plain_line l \<Longrightarrow>
    parseBlock (crlf_lines ls @ (if blank then CRLF else [])) = Inr (block_of ls blank)"
  by (simp add: parseBlock_def parse_loop_lines parse_loop_end block_of_def)

text \<open>The lines of a list of fields, in order.\<close>

definition lines_of :: "hfield list \<Rightarrow> string list" where
  "lines_of fs = concat (map fLines fs)"

lemma crlf_lines_append: "crlf_lines (xs @ ys) = crlf_lines xs @ crlf_lines ys"
  by (simp add: crlf_lines_def)

lemma String_lines: "hblock_String b = crlf_lines (lines_of (bFields b)) @ (if bBlank b then CRLF else [])"
proof -
  have "concat (map (\<lambda>f. crlf_lines (fLines f)) fs) = crlf_lines (lines_of fs)" for fs
    by (induction fs) (simp_all add: lines_of_def crlf_lines_append)
  then show ?thesis by (simp add: hblock_String_def)
qed

lemma lines_of_append: "lines_of (xs @ ys) = lines_of xs @ lines_of ys"
  by (simp add: lines_of_def)

lemma lines_of_add_line: "lines_of (add_line l fs) = lines_of fs @ [l]"
proof (cases fs rule: rev_cases)
  case Nil
  then show ?thesis by (auto simp: add_line_def lines_of_def split: option.split)
next
  case (snoc gs f)
  then show ?thesis by (auto simp: add_line_def lines_of_def split: option.split)
qed

lemma lines_of_fold: "lines_of (fold add_line ls fs) = lines_of fs @ ls"
  by (induction ls arbitrary: fs) (simp_all add: lines_of_add_line)

lemma String_block_of: "hblock_String (block_of ls blank) = crlf_lines ls @ (if blank then CRLF else [])"
  by (simp add: String_lines block_of_def lines_of_fold) (simp add: lines_of_def)

text \<open>
  A block whose text parses to itself: each field starts with the line its name was read from and
  goes on with continuation lines.
\<close>

definition starts_folded :: "string \<Rightarrow> bool" where
  "starts_folded l \<longleftrightarrow> hd l = CHR '' '' \<or> hd l = TAB"

definition line_name :: "string \<Rightarrow> string" where
  "line_name l = (case IndexByte l (CHR '':'') of None \<Rightarrow> [] | Some c \<Rightarrow> if c = 0 then [] else ToLower (TrimSpace (take c l)))"

definition field_ok :: "hfield \<Rightarrow> bool" where
  "field_ok f \<longleftrightarrow> fLines f \<noteq> [] \<and> (\<forall>l \<in> set (fLines f). plain_line l) \<and>
     \<not> starts_folded (hd (fLines f)) \<and> (\<forall>l \<in> set (tl (fLines f)). starts_folded l) \<and>
     fName f = line_name (hd (fLines f))"

text \<open>A folded line with nothing before it is only possible at the very start.\<close>

definition stray_ok :: "hfield \<Rightarrow> bool" where
  "stray_ok f \<longleftrightarrow> fLines f \<noteq> [] \<and> (\<forall>l \<in> set (fLines f). plain_line l \<and> starts_folded l) \<and> fName f = []"

definition fields_ok :: "hfield list \<Rightarrow> bool" where
  "fields_ok fs \<longleftrightarrow> (case fs of [] \<Rightarrow> True | f # gs \<Rightarrow> (field_ok f \<or> stray_ok f) \<and> (\<forall>g \<in> set gs. field_ok g))"

lemma add_line_eq:
  "plain_line l \<Longrightarrow> add_line l fs =
     (if starts_folded l then
        (if fs = [] then [\<lparr>fName = [], fLines = [l]\<rparr>] else butlast fs @ [(last fs)\<lparr>fLines := fLines (last fs) @ [l]\<rparr>])
      else fs @ [\<lparr>fName = line_name l, fLines = [l]\<rparr>])"
  by (auto simp: add_line_def starts_folded_def line_name_def split: option.split)

lemma fields_ok_snoc: "fields_ok (gs @ [f]) \<longleftrightarrow> (if gs = [] then field_ok f \<or> stray_ok f else fields_ok gs \<and> field_ok f)"
  by (cases gs) (auto simp: fields_ok_def)

lemma field_ok_more: "field_ok f \<Longrightarrow> plain_line l \<Longrightarrow> starts_folded l \<Longrightarrow> field_ok (f\<lparr>fLines := fLines f @ [l]\<rparr>)"
  by (cases "fLines f") (auto simp: field_ok_def)

lemma stray_ok_more: "stray_ok f \<Longrightarrow> plain_line l \<Longrightarrow> starts_folded l \<Longrightarrow> stray_ok (f\<lparr>fLines := fLines f @ [l]\<rparr>)"
  by (auto simp: stray_ok_def)

lemma add_line_ok:
  assumes l: "plain_line l" and fs: "fields_ok fs"
  shows "fields_ok (add_line l fs)"
proof (cases fs rule: rev_cases)
  case Nil
  then show ?thesis using l by (auto simp: add_line_eq fields_ok_def field_ok_def stray_ok_def)
next
  case (snoc gs f)
  show ?thesis
  proof (cases "starts_folded l")
    case True
    then show ?thesis
      using snoc l fs field_ok_more [of f l] stray_ok_more [of f l] by (auto simp: add_line_eq fields_ok_snoc)
  next
    case False
    then have "field_ok \<lparr>fName = line_name l, fLines = [l]\<rparr>" using l by (simp add: field_ok_def)
    moreover have "fs \<noteq> []" using snoc by simp
    ultimately show ?thesis using False l fs by (simp add: add_line_eq fields_ok_snoc)
  qed
qed

lemma block_of_ok: "\<forall>l \<in> set ls. plain_line l \<Longrightarrow> fields_ok (bFields (block_of ls blank))"
proof -
  have "\<forall>l \<in> set ls. plain_line l \<Longrightarrow> fields_ok fs \<Longrightarrow> fields_ok (fold add_line ls fs)" for fs
    by (induction ls arbitrary: fs) (simp_all add: add_line_ok)
  then show "\<forall>l \<in> set ls. plain_line l \<Longrightarrow> ?thesis" by (simp add: block_of_def fields_ok_def)
qed

lemma fold_folded: "\<forall>l \<in> set ls. plain_line l \<and> starts_folded l \<Longrightarrow>
    fold add_line ls (gs @ [f]) = gs @ [f\<lparr>fLines := fLines f @ ls\<rparr>]"
proof (induction ls arbitrary: f)
  case (Cons l ls)
  then show ?case by (simp add: add_line_eq)
qed simp

lemma fold_field: "field_ok f \<Longrightarrow> fold add_line (fLines f) gs = gs @ [f]"
proof -
  assume f: "field_ok f"
  obtain l ls where l: "fLines f = l # ls" using f by (cases "fLines f") (auto simp: field_ok_def)
  have "add_line l gs = gs @ [\<lparr>fName = fName f, fLines = [l]\<rparr>]"
    using f l by (simp add: add_line_eq field_ok_def)
  moreover have "fold add_line ls (gs @ [\<lparr>fName = fName f, fLines = [l]\<rparr>]) = gs @ [\<lparr>fName = fName f, fLines = l # ls\<rparr>]"
    using fold_folded [of ls gs "\<lparr>fName = fName f, fLines = [l]\<rparr>"] f l by (simp add: field_ok_def)
  ultimately show ?thesis using l by simp
qed

lemma fold_fields: "\<forall>f \<in> set fs. field_ok f \<Longrightarrow> fold add_line (lines_of fs) gs = gs @ fs"
  by (induction fs arbitrary: gs) (simp_all add: lines_of_def fold_field)

lemma block_of_lines: "fields_ok fs \<Longrightarrow> fold add_line (lines_of fs) [] = fs"
proof (cases fs)
  case (Cons f gs)
  assume ok: "fields_ok fs"
  have "fold add_line (fLines f) [] = [f]"
  proof (cases "field_ok f")
    case True
    then show ?thesis using fold_field [of f "[]"] by simp
  next
    case False
    then have s: "stray_ok f" using ok Cons by (simp add: fields_ok_def)
    then obtain l ls where l: "fLines f = l # ls" by (cases "fLines f") (auto simp: stray_ok_def)
    have "fold add_line ls ([] @ [\<lparr>fName = fName f, fLines = [l]\<rparr>]) = [] @ [\<lparr>fName = fName f, fLines = l # ls\<rparr>]"
      using fold_folded [of ls "[]" "\<lparr>fName = fName f, fLines = [l]\<rparr>"] s l by (simp add: stray_ok_def)
    then show ?thesis using s l by (simp add: stray_ok_def add_line_eq)
  qed
  moreover have "\<forall>g \<in> set gs. field_ok g" using ok Cons by (simp add: fields_ok_def)
  ultimately show ?thesis using Cons fold_fields [of gs "[f]"] by (simp add: lines_of_def)
qed (simp add: lines_of_def)

lemma fields_ok_lines: "fields_ok fs \<Longrightarrow> \<forall>l \<in> set (lines_of fs). plain_line l"
  by (cases fs) (auto simp: fields_ok_def field_ok_def stray_ok_def lines_of_def)

lemma parse_String:
  assumes "fields_ok (bFields b)"
  shows "parseBlock (hblock_String b) = Inr b"
  using parseBlock_lines [OF fields_ok_lines [OF assms], of "bBlank b"] block_of_lines [OF assms]
  by (simp add: String_lines block_of_def)

section \<open>What an edit changes\<close>

definition keep_others :: "string \<Rightarrow> hblock \<Rightarrow> hfield list" where
  "keep_others n b = filter (\<lambda>f. fName f \<noteq> n) (bFields b)"

definition named :: "string \<Rightarrow> hblock \<Rightarrow> hfield list" where
  "named n b = filter (\<lambda>f. fName f = n) (bFields b)"

lemma set_fields_seen:
  "fName new = lower \<Longrightarrow> set_fields lower new True fs = (filter (\<lambda>f. fName f \<noteq> lower) fs, True)"
  by (induction fs) auto

lemma set_fields_spec:
  assumes "fName new = lower"
  shows "set_fields lower new False fs = (out, r) \<Longrightarrow>
    filter (\<lambda>f. fName f \<noteq> lower) out = filter (\<lambda>f. fName f \<noteq> lower) fs \<and>
    filter (\<lambda>f. fName f = lower) out = (if r then [new] else []) \<and> r = (\<exists>f \<in> set fs. fName f = lower)"
proof (induction fs arbitrary: out r)
  case (Cons f fs)
  show ?case
  proof (cases "fName f = lower")
    case True
    then show ?thesis using Cons.prems set_fields_seen [OF assms] assms by (auto simp: filter_empty_conv)
  next
    case False
    obtain out1 r1 where "set_fields lower new False fs = (out1, r1)" by fastforce
    then show ?thesis using False Cons.prems Cons.IH by auto
  qed
qed auto

lemma blk_set_spec:
  "keep_others (ToLower n) (blk_set n v b) = keep_others (ToLower n) b"
  "named (ToLower n) (blk_set n v b) = [\<lparr>fName = ToLower n, fLines = [n @ '': '' @ v]\<rparr>]"
  "bBlank (blk_set n v b) = bBlank b"
proof -
  let ?new = "\<lparr>fName = ToLower n, fLines = [n @ '': '' @ v]\<rparr>"
  obtain out r where s: "set_fields (ToLower n) ?new False (bFields b) = (out, r)" by fastforce
  have eq: "blk_set n v b = b\<lparr>bFields := (if r then out else out @ [?new])\<rparr>"
    unfolding blk_set_def Let_def s prod.case ..
  from set_fields_spec [of ?new "ToLower n", OF _ s]
  show "keep_others (ToLower n) (blk_set n v b) = keep_others (ToLower n) b"
    "named (ToLower n) (blk_set n v b) = [?new]" "bBlank (blk_set n v b) = bBlank b"
    unfolding eq by (auto simp: keep_others_def named_def split: if_splits)
qed

lemma named_other: "m \<noteq> ToLower n \<Longrightarrow> named m (blk_set n v b) = named m b"
proof -
  assume m: "m \<noteq> ToLower n"
  have "named m x = filter (\<lambda>f. fName f = m) (keep_others (ToLower n) x)" for x
    using m by (auto simp: named_def keep_others_def intro: filter_cong)
  then show ?thesis using blk_set_spec(1) by metis
qed

lemma blk_remove_spec:
  "keep_others n (blk_remove n b) = keep_others n b" "named n (blk_remove n b) = []"
  "m \<noteq> n \<Longrightarrow> named m (blk_remove n b) = named m b" "bBlank (blk_remove n b) = bBlank b"
  by (auto simp: blk_remove_def keep_others_def named_def filter_empty_conv intro: filter_cong)

lemma set_fields_set: "set_fields lower new r0 fs = (out, r) \<Longrightarrow> set out \<subseteq> insert new (set fs)"
  by (induction fs arbitrary: r0 out r) (auto split: if_splits prod.splits, fastforce+)

lemma blk_set_ok:
  assumes ok: "fields_ok (bFields b)" and new: "field_ok \<lparr>fName = ToLower n, fLines = [n @ '': '' @ v]\<rparr>" and n: "n \<noteq> []"
  shows "fields_ok (bFields (blk_set n v b))"
proof -
  let ?new = "\<lparr>fName = ToLower n, fLines = [n @ '': '' @ v]\<rparr>"
  obtain out r where s: "set_fields (ToLower n) ?new False (bFields b) = (out, r)" by fastforce
  have "fields_ok (if r then out else out @ [?new])"
  proof (cases "bFields b")
    case Nil
    then show ?thesis using s new by (auto simp: fields_ok_def)
  next
    case (Cons f gs)
    have gs: "\<forall>g \<in> set gs. field_ok g" using ok Cons by (simp add: fields_ok_def)
    show ?thesis
    proof (cases "fName f = ToLower n")
      case True
      then show ?thesis using s Cons gs new set_fields_seen [of ?new "ToLower n" gs] by (auto simp: fields_ok_def)
    next
      case False
      obtain out1 where o: "set_fields (ToLower n) ?new False gs = (out1, r)" "out = f # out1"
        using s Cons False by (auto split: prod.splits)
      then show ?thesis using set_fields_set [OF o(1)] ok Cons gs new by (auto simp: fields_ok_def)
    qed
  qed
  then show ?thesis unfolding blk_set_def Let_def s prod.case by simp
qed

lemma blk_remove_ok:
  assumes "fields_ok (bFields b)"
  shows "fields_ok (bFields (blk_remove n b))"
  using assms by (cases "bFields b") (auto simp: blk_remove_def fields_ok_def split: list.split dest: filter_eq_ConsD)

section \<open>What the header scanner passes on\<close>

text \<open>A header block as the listener hands it over: plain lines, each ended by CRLF, and a blank line.\<close>

definition header_text :: "string list \<Rightarrow> bool \<Rightarrow> string" where
  "header_text ls blank = crlf_lines ls @ (if blank then CRLF else [])"

lemma readStructuredLine_Inr:
  "readStructuredLine s lim = (Inr l, s') \<Longrightarrow> CR \<notin> set l \<and> LF \<notin> set l \<and> NUL \<notin> set l"
  by (auto simp: readStructuredLine_def split: prod.splits sum.splits if_splits dest: readLineLimited_Inr)

lemma starts_folded_eq: "l \<noteq> [] \<Longrightarrow> folded l = starts_folded l"
  by (cases l) (auto simp: folded_def starts_folded_def HasPrefix_def)

lemma line_name_scan: "line_name l = [] \<or> line_name l = scan_name l"
  by (auto simp: line_name_def scan_name_def split: option.split)

definition relay_owned :: "string set" where
  "relay_owned = {''return-path'', ''x-original-from''}"

text \<open>The lines passed on so far, as a block would hold them.\<close>

definition scanned :: "Limits \<Rightarrow> scan \<Rightarrow> string list \<Rightarrow> bool" where
  "scanned lim st ls \<longleftrightarrow>
     scOut st = crlf_lines ls \<and> (\<forall>l \<in> set ls. plain_line l \<and> NUL \<notin> set l) \<and>
     (\<forall>f \<in> set (fold add_line ls []). fName f \<notin> relay_owned) \<and>
     length (filter (\<lambda>f. fName f = ''received'') (fold add_line ls [])) \<le> scReceived st \<and>
     int (length (fold add_line ls [])) \<le> scCount st + 1 \<and>
     int (length (crlf_lines ls)) \<le> scSize st \<and> 0 \<le> scCount st \<and> scCount st \<le> MaxHeaders lim"

lemma add_line_names:
  "plain_line l \<Longrightarrow> starts_folded l \<Longrightarrow> fs \<noteq> [] \<Longrightarrow> map fName (add_line l fs) = map fName fs"
  by (cases fs rule: rev_cases) (simp_all add: add_line_eq)

lemma filter_name_length: "length (filter (\<lambda>f. fName f = n) fs) = length (filter (\<lambda>x. x = n) (map fName fs))"
  by (simp add: filter_map comp_def)

lemma scanned_step:
  assumes s: "scanned lim st ls" and l: "plain_line l" "NUL \<notin> set l"
    and n: "scan_line lim l (st\<lparr>scSize := scSize st + int (length l) + 2\<rparr>) = Some st'"
  shows "\<exists>ls'. scanned lim st' ls'"
proof -
  let ?fs = "fold add_line ls []"
  have ne: "l \<noteq> []" using l by (simp add: plain_line_def)
  have crlf: "length CRLF = 2" by (simp add: CRLF_def)
  note f = s [unfolded scanned_def]
  show ?thesis
  proof (cases "folded l")
    case True
    then have fo: "starts_folded l" using starts_folded_eq [OF ne] by simp
    show ?thesis
    proof (cases "scDropping st")
      case True
      then have "st' = st\<lparr>scSize := scSize st + int (length l) + 2\<rparr>"
        using n \<open>folded l\<close> by (simp add: scan_line_def)
      then have "scanned lim st' ls" using f by (simp add: scanned_def)
      then show ?thesis ..
    next
      case False
      then have st': "st' = st\<lparr>scSize := scSize st + int (length l) + 2, scOut := scOut st @ l @ CRLF\<rparr>"
        using n \<open>folded l\<close> by (simp add: scan_line_def)
      have "map fName (add_line l ?fs) = (if ?fs = [] then [[]] else map fName ?fs)"
        using add_line_names [OF l(1) fo] l(1) fo by (simp add: add_line_eq)
      then have names: "set (map fName (add_line l ?fs)) \<subseteq> insert [] (fName ` set ?fs)"
        "length (filter (\<lambda>f. fName f = ''received'') (add_line l ?fs)) = length (filter (\<lambda>f. fName f = ''received'') ?fs)"
        "length (add_line l ?fs) \<le> max 1 (length ?fs)"
        unfolding filter_name_length by (auto split: if_splits dest: arg_cong [where f = length])
      have "scanned lim st' (ls @ [l])"
        using f l names crlf unfolding scanned_def st'
        by (auto simp: crlf_lines_append relay_owned_def)
      then show ?thesis ..
    qed
  next
    case False
    then have nf: "\<not> starts_folded l" using starts_folded_eq [OF ne] by simp
    have add: "add_line l ?fs = ?fs @ [\<lparr>fName = line_name l, fLines = [l]\<rparr>]" using nf l(1) by (simp add: add_line_eq)
    show ?thesis
    proof (cases "scan_name l \<in> relay_owned")
      case True
      then have "scOut st' = scOut st" "scReceived st' = scReceived st" "scCount st' = scCount st + 1"
        "scSize st' = scSize st + int (length l) + 2" "scCount st + 1 \<le> MaxHeaders lim"
        using n False by (auto simp: scan_line_def Let_def relay_owned_def split: if_splits)
      then have "scanned lim st' ls" using f by (simp add: scanned_def)
      then show ?thesis ..
    next
      case keep: False
      have st': "scOut st' = scOut st @ l @ CRLF" "scCount st' = scCount st + 1" "scSize st' = scSize st + int (length l) + 2"
        "scReceived st' = (if scan_name l = ''received'' then Suc (scReceived st) else scReceived st)"
        "scCount st + 1 \<le> MaxHeaders lim"
        using n False keep by (auto simp: scan_line_def Let_def relay_owned_def split: if_splits)
      have "line_name l \<notin> relay_owned" using keep line_name_scan [of l] by (auto simp: relay_owned_def)
      moreover have "line_name l = ''received'' \<longrightarrow> scan_name l = ''received''" using line_name_scan [of l] by auto
      ultimately have "scanned lim st' (ls @ [l])"
        using f l st' crlf by (auto simp: scanned_def add crlf_lines_append)
      then show ?thesis ..
    qed
  qed
qed

lemma scan_loop_clean:
  "scan_loop lim st br = (Inr (h, n), br') \<Longrightarrow> scanned lim st ls \<Longrightarrow> scSize st \<le> MaxHeaderBytes lim \<Longrightarrow>
   \<exists>st' ls' blank. scanned lim st' ls' \<and> h = header_text ls' blank \<and> n = scReceived st' \<and>
     int (length h) \<le> MaxHeaderBytes lim"
proof (induction lim st br arbitrary: ls rule: scan_loop.induct)
  case (1 lim st br)
  obtain res br1 where r: "readStructuredLine br maxLineOctet = (res, br1)" by fastforce
  note f = 1(3) [unfolded scanned_def]
  show ?case
  proof (cases res)
    case (Inl e)
    then have "h = scOut st" "n = scReceived st" using 1(2) r by (auto simp: scan_loop.simps split: if_splits)
    then show ?thesis using 1(3,4) f by (intro exI [of _ st] exI [of _ ls] exI [of _ False]) (auto simp: header_text_def)
  next
    case (Inr line)
    let ?st1 = "st\<lparr>scSize := scSize st + int (length line) + 2\<rparr>"
    note l = readStructuredLine_Inr [OF r [unfolded Inr]]
    have sz: "\<not> scSize ?st1 > MaxHeaderBytes lim" using 1(2) r Inr by (auto simp: scan_loop.simps [of lim st] Let_def split: if_splits)
    show ?thesis
    proof (cases "line = []")
      case True
      then have "h = scOut st @ CRLF" "n = scReceived st"
        using 1(2) r Inr sz by (auto simp: scan_loop.simps [of lim st] Let_def)
      moreover have "int (length (scOut st @ CRLF)) \<le> MaxHeaderBytes lim" using f sz True by (simp add: CRLF_def)
      ultimately show ?thesis using 1(3) f
        by (intro exI [of _ st] exI [of _ ls] exI [of _ True]) (auto simp: header_text_def)
    next
      case False
      obtain st2 where st2: "scan_line lim line ?st1 = Some st2" "scan_loop lim st2 br1 = (Inr (h, n), br')"
        using 1(2) r Inr False sz by (auto simp: scan_loop.simps [of lim st] Let_def split: option.splits)
      have pl: "plain_line line" using l False by (simp add: plain_line_def)
      from scanned_step [OF 1(3) pl _ st2(1)] l obtain ls2 where s2: "scanned lim st2 ls2" by blast
      have "scSize st2 \<le> MaxHeaderBytes lim"
        using sz st2(1) by (auto simp: scan_line_def Let_def split: if_splits)
      from 1(1) [OF r [symmetric] Inr refl sz False st2(1,2) s2 this] show ?thesis .
    qed
  qed
qed

text \<open>A header block the scanner lets through is safe to edit and to send on: it is plain lines (no
  CR, LF or NUL inside one) each ended by CRLF and possibly a blank line, within the configured
  size and number of fields; it has no Return-Path and no X-Original-From, which the relay owns;
  and the hop count it is judged by is never less than the Received fields it carries.\<close>

theorem scanned_headers_clean:
  assumes "scanHeaders br lim = (Inr (h, n), br')" "0 \<le> MaxHeaders lim" "0 \<le> MaxHeaderBytes lim"
  shows "\<exists>ls blank b. h = header_text ls blank \<and> (\<forall>l \<in> set ls. plain_line l \<and> NUL \<notin> set l) \<and>
    parseBlock h = Inr b \<and> hblock_String b = h \<and> blk_count b ''received'' \<le> n \<and>
    blk_count b ''return-path'' = 0 \<and> blk_count b ''x-original-from'' = 0 \<and>
    int (length (bFields b)) \<le> MaxHeaders lim + 1 \<and> int (length h) \<le> MaxHeaderBytes lim"
proof -
  define st where "st = \<lparr>scOut = [], scReceived = 0, scCount = 0, scSize = 0, scDropping = False\<rparr>"
  have "scanned lim st []" using assms(2) by (simp add: scanned_def st_def)
  from scan_loop_clean [OF assms(1) [unfolded scanHeaders_def, folded st_def] this] assms(3)
  obtain st' ls blank where s: "scanned lim st' ls" and h: "h = header_text ls blank" and n: "n = scReceived st'"
    and len: "int (length h) \<le> MaxHeaderBytes lim" by (auto simp: st_def)
  note f = s [unfolded scanned_def]
  have pl: "\<forall>l \<in> set ls. plain_line l" using f by blast
  show ?thesis
  proof (intro exI conjI)
    show "h = header_text ls blank" by (rule h)
    show "parseBlock h = Inr (block_of ls blank)" unfolding h header_text_def by (rule parseBlock_lines [OF pl])
    show "hblock_String (block_of ls blank) = h" by (simp add: h header_text_def String_block_of)
    show "blk_count (block_of ls blank) ''return-path'' = 0" "blk_count (block_of ls blank) ''x-original-from'' = 0"
      using f by (auto simp: blk_count_def block_of_def filter_empty_conv relay_owned_def)
  qed (use f n len in \<open>auto simp: blk_count_def block_of_def\<close>)
qed

definition demo_limits :: Limits where
  "demo_limits = cLimits Defaults"

theorem scanned_headers_clean_witness:
  "\<exists>h n br'. scanHeaders \<lparr>sIn = ''Return-Path: <x>'' @ CRLF @ '' more'' @ CRLF @ ''Received: a'' @ CRLF @ CRLF @ ''body'', sEnd = EOF\<rparr>
     demo_limits = (Inr (h, n), br') \<and> (\<exists>b. parseBlock h = Inr b \<and> blk_count b ''return-path'' = 0) \<and> n = 1"
proof -
  let ?br = "\<lparr>sIn = ''Return-Path: <x>'' @ CRLF @ '' more'' @ CRLF @ ''Received: a'' @ CRLF @ CRLF @ ''body'', sEnd = EOF\<rparr>"
  have "case scanHeaders ?br demo_limits of (Inr (h, n), _) \<Rightarrow> n = 1 | _ \<Rightarrow> False" by code_simp
  then obtain h br' where s: "scanHeaders ?br demo_limits = (Inr (h, 1), br')"
    by (auto split: prod.splits sum.splits)
  have "0 \<le> MaxHeaders demo_limits" "0 \<le> MaxHeaderBytes demo_limits" by (simp_all add: demo_limits_def Defaults_def)
  from scanned_headers_clean [OF s this] show ?thesis using s by auto
qed

text \<open>Parsing and printing a header block are inverse, so that an edit of one field leaves every
  other byte alone: a block of plain lines prints to the text it was parsed from, and a block of
  well-formed fields parses back to itself from its text.\<close>

theorem header_block_roundtrip:
  "((\<forall>l \<in> set ls. plain_line l) \<longrightarrow>
     (\<exists>b. parseBlock (header_text ls blank) = Inr b \<and> hblock_String b = header_text ls blank \<and> fields_ok (bFields b))) \<and>
   (fields_ok (bFields b) \<longrightarrow> parseBlock (hblock_String b) = Inr b)"
  using parseBlock_lines [of ls blank] String_block_of [of ls blank] block_of_ok [of ls blank] parse_String [of b]
  by (auto simp: header_text_def)

theorem header_block_roundtrip_witness:
  "\<exists>b. parseBlock (header_text [''A: 1'', '' 2'', ''B: 3''] True) = Inr b \<and> length (bFields b) = 2 \<and>
     hblock_String b = header_text [''A: 1'', '' 2'', ''B: 3''] True"
proof -
  have "\<forall>l \<in> set [''A: 1'', '' 2'', ''B: 3'']. plain_line l" by (simp add: plain_line_def CR_def LF_def)
  with header_block_roundtrip obtain b where b: "parseBlock (header_text [''A: 1'', '' 2'', ''B: 3''] True) = Inr b"
    "hblock_String b = header_text [''A: 1'', '' 2'', ''B: 3''] True" by blast
  have "case parseBlock (header_text [''A: 1'', '' 2'', ''B: 3''] True) of Inr b \<Rightarrow> length (bFields b) = 2 | Inl _ \<Rightarrow> False"
    by code_simp
  then show ?thesis using b by auto
qed

end
