(* ===== verification/Router.thy ===== *)
theory Router
  imports Config_Types
begin

text \<open>
  Who may relay and where their mail goes: \<open>internal/router/router.go\<close>, the client matcher
  \<open>internal/listener/match.go\<close> and the connection counter \<open>internal/listener/admission.go\<close>.
  Parsing a prefix is the argument \<open>parse\<close>. The lemmas say that the tables \<open>New\<close> builds are
  unambiguous and that \<open>Split\<close> partitions the recipients of a message.
\<close>

section \<open>router.go\<close>

record router =
  byDomain :: "string \<rightharpoonup> string"
  rSources :: "(ip_prefix \<times> string) list"
  rDef :: string

record Decision =
  decRoute :: string
  decReason :: string

record Group =
  gRoute :: string
  gReason :: string
  gRecipients :: "string list"

datatype router_err =
    DupDomain string string string | BadSource string string | SourceOverlap string string
  | TwoDefaults string string | NoRoute string

fun add_domains :: "string \<Rightarrow> string list \<Rightarrow> router \<Rightarrow> router_err + router" where
  "add_domains name [] r = Inr r"
| "add_domains name (d0 # ds) r =
     (let d = ToLower (TrimSpace d0) in
      if d = [] then add_domains name ds r
      else case byDomain r d of
             Some owner \<Rightarrow> Inl (DupDomain d owner name)
           | None \<Rightarrow> add_domains name ds (r\<lparr>byDomain := (byDomain r)(d \<mapsto> name)\<rparr>))"

fun add_sources :: "(string \<Rightarrow> ip_prefix option) \<Rightarrow> string \<Rightarrow> string list \<Rightarrow> router \<Rightarrow> router_err + router" where
  "add_sources parse name [] r = Inr r"
| "add_sources parse name (s # ss) r =
     (case parse s of
        None \<Rightarrow> Inl (BadSource name s)
      | Some p0 \<Rightarrow>
          (let p = Masked p0 in
           case find (\<lambda>o'. Overlaps (fst o') p) (rSources r) of
             Some o' \<Rightarrow> Inl (SourceOverlap name (snd o'))
           | None \<Rightarrow> add_sources parse name ss (r\<lparr>rSources := rSources r @ [(p, name)]\<rparr>)))"

fun add_routes :: "(string \<Rightarrow> ip_prefix option) \<Rightarrow> Route list \<Rightarrow> router \<Rightarrow> router_err + router" where
  "add_routes parse [] r = Inr r"
| "add_routes parse (rt # rts) r =
     (case add_domains (rName rt) (Domains rt) r of
        Inl e \<Rightarrow> Inl e
      | Inr r1 \<Rightarrow>
          (case add_sources parse (rName rt) (Sources rt) r1 of
             Inl e \<Rightarrow> Inl e
           | Inr r2 \<Rightarrow>
               if Default rt then
                 (if rDef r2 \<noteq> [] then Inl (TwoDefaults (rDef r2) (rName rt))
                  else add_routes parse rts (r2\<lparr>rDef := rName rt\<rparr>))
               else add_routes parse rts r2))"

definition New_router :: "(string \<Rightarrow> ip_prefix option) \<Rightarrow> Route list \<Rightarrow> router_err + router" where
  "New_router parse rts = add_routes parse rts \<lparr>byDomain = Map.empty, rSources = [], rDef = []\<rparr>"

definition domainOf :: "string \<Rightarrow> string" where
  "domainOf a =
     (case LastIndexByte a (CHR ''@'') of
        None \<Rightarrow> []
      | Some at \<Rightarrow> if at = length a - 1 then [] else ToLower (drop (at + 1) a))"

definition match_source :: "router \<Rightarrow> addr \<Rightarrow> string \<times> int \<times> bool" where
  "match_source r a =
     fold (\<lambda>(p, name) (route, bits, ok).
             if Contains_ip p a \<and> int (pfBits p) > bits then (name, int (pfBits p), True)
             else (route, bits, ok))
       (rSources r) ([], -1, False)"

definition Resolve :: "router \<Rightarrow> string \<Rightarrow> addr \<Rightarrow> string \<Rightarrow> int \<Rightarrow> Decision option" where
  "Resolve r rcpt src clientRoute clientBits =
     (let d = domainOf rcpt;
          rest = (case match_source r (Unmap src) of (name, bits, ok) \<Rightarrow>
                    if ok \<and> (clientRoute = [] \<or> bits > clientBits) then Some \<lparr>decRoute = name, decReason = ''source''\<rparr>
                    else if clientRoute \<noteq> [] then Some \<lparr>decRoute = clientRoute, decReason = ''client''\<rparr>
                    else if rDef r \<noteq> [] then Some \<lparr>decRoute = rDef r, decReason = ''default''\<rparr>
                    else None)
      in if d \<noteq> [] then
           (case byDomain r d of
              Some name \<Rightarrow> Some \<lparr>decRoute = name, decReason = ''domain''\<rparr>
            | None \<Rightarrow> rest)
         else rest)"

fun split_loop ::
  "router \<Rightarrow> addr \<Rightarrow> string \<Rightarrow> int \<Rightarrow> string list \<Rightarrow> Group list \<Rightarrow> (string \<rightharpoonup> nat) \<Rightarrow> router_err + Group list" where
  "split_loop r src cr cb [] groups at = Inr groups"
| "split_loop r src cr cb (rcpt # rcpts) groups at =
     (case Resolve r rcpt src cr cb of
        None \<Rightarrow> Inl (NoRoute (domainOf rcpt))
      | Some d \<Rightarrow>
          (let (groups1, at1, i) =
             (case at (decRoute d) of
                Some i \<Rightarrow> (groups, at, i)
              | None \<Rightarrow> (groups @ [\<lparr>gRoute = decRoute d, gReason = decReason d, gRecipients = []\<rparr>],
                         at(decRoute d \<mapsto> length groups), length groups))
           in split_loop r src cr cb rcpts
                (groups1[i := (groups1 ! i)\<lparr>gRecipients := gRecipients (groups1 ! i) @ [rcpt]\<rparr>]) at1))"

definition Split :: "router \<Rightarrow> string list \<Rightarrow> addr \<Rightarrow> string \<Rightarrow> int \<Rightarrow> router_err + Group list" where
  "Split r rcpts src clientRoute clientBits = split_loop r src clientRoute clientBits rcpts [] Map.empty"

section \<open>match.go\<close>

type_synonym matcher = "(ip_prefix \<times> Client) list"

fun client_entries :: "(string \<Rightarrow> ip_prefix option) \<Rightarrow> Client \<Rightarrow> string list \<Rightarrow> matcher option" where
  "client_entries parse c [] = Some []"
| "client_entries parse c (s # ss) =
     (case parse s of
        None \<Rightarrow> None
      | Some p \<Rightarrow> map_option (\<lambda>es. (Masked p, c) # es) (client_entries parse c ss))"

fun NewMatcher :: "(string \<Rightarrow> ip_prefix option) \<Rightarrow> Client list \<Rightarrow> matcher option" where
  "NewMatcher parse [] = Some []"
| "NewMatcher parse (c # cs) =
     (case client_entries parse c (CIDR c) of
        None \<Rightarrow> None
      | Some es \<Rightarrow> map_option (\<lambda>m. es @ m) (NewMatcher parse cs))"

definition Match :: "matcher \<Rightarrow> addr \<Rightarrow> Client option \<times> int \<times> bool" where
  "Match m a0 =
     (let a = Unmap a0;
          (best, bits) =
            fold (\<lambda>(p, c) (best, bits).
                    if Contains_ip p a \<and> int (pfBits p) > bits then (Some c, int (pfBits p)) else (best, bits))
              m (None, -1)
      in (best, bits, best \<noteq> None))"

section \<open>admission.go\<close>

type_synonym connCounter = "string \<rightharpoonup> int"

definition connKeyClient :: "string \<Rightarrow> string" where "connKeyClient name = ''client:'' @ name"
definition connKeyUnmatched :: "string \<Rightarrow> string" where "connKeyUnmatched a = ''unmatched:'' @ a"

definition conn_count :: "connCounter \<Rightarrow> string \<Rightarrow> int" where
  "conn_count n k = (case n k of Some v \<Rightarrow> v | None \<Rightarrow> 0)"

definition acquire :: "string \<Rightarrow> int \<Rightarrow> connCounter \<Rightarrow> bool \<times> connCounter" where
  "acquire k limit n =
     (if limit \<le> 0 then (True, n)
      else if conn_count n k \<ge> limit then (False, n)
      else (True, n(k \<mapsto> conn_count n k + 1)))"

definition conn_release :: "string \<Rightarrow> int \<Rightarrow> connCounter \<Rightarrow> connCounter" where
  "conn_release k limit n =
     (if limit \<le> 0 then n
      else if conn_count n k > 1 then n(k \<mapsto> conn_count n k - 1)
      else n(k := None))"

section \<open>Tables without ambiguity\<close>

definition disjoint_prefixes :: "(ip_prefix \<times> 'a) list \<Rightarrow> bool" where
  "disjoint_prefixes es \<longleftrightarrow>
     (\<forall>i j. i < j \<longrightarrow> j < length es \<longrightarrow> \<not> Overlaps (fst (es ! i)) (fst (es ! j)))"

lemma disjoint_snoc:
  "disjoint_prefixes es \<Longrightarrow> (\<forall>e \<in> set es. \<not> Overlaps (fst e) p) \<Longrightarrow> disjoint_prefixes (es @ [(p, x)])"
  by (auto simp: disjoint_prefixes_def nth_append less_Suc_eq)

lemma disjoint_Cons:
  "disjoint_prefixes (e # es) \<longleftrightarrow> (\<forall>f \<in> set es. \<not> Overlaps (fst e) (fst f)) \<and> disjoint_prefixes es"
proof
  assume d: "disjoint_prefixes (e # es)"
  have "\<not> Overlaps (fst e) (fst f)" if "f \<in> set es" for f
  proof -
    obtain k where "k < length es" "f = es ! k" using \<open>f \<in> set es\<close> by (auto simp: in_set_conv_nth)
    then show ?thesis using d [unfolded disjoint_prefixes_def, rule_format, of 0 "Suc k"] by simp
  qed
  moreover have "disjoint_prefixes es"
    unfolding disjoint_prefixes_def
  proof (intro allI impI)
    fix i j assume "i < j" "j < length es"
    then show "\<not> Overlaps (fst (es ! i)) (fst (es ! j))"
      using d [unfolded disjoint_prefixes_def, rule_format, of "Suc i" "Suc j"] by simp
  qed
  ultimately show "(\<forall>f \<in> set es. \<not> Overlaps (fst e) (fst f)) \<and> disjoint_prefixes es" by blast
next
  assume d: "(\<forall>f \<in> set es. \<not> Overlaps (fst e) (fst f)) \<and> disjoint_prefixes es"
  show "disjoint_prefixes (e # es)"
    unfolding disjoint_prefixes_def
  proof (intro allI impI)
    fix i j assume ij: "i < j" "j < length (e # es)"
    then obtain j' where j: "j = Suc j'" "j' < length es" by (cases j) auto
    show "\<not> Overlaps (fst ((e # es) ! i)) (fst ((e # es) ! j))"
      using d ij j by (cases i) (auto simp: disjoint_prefixes_def)
  qed
qed

text \<open>With disjoint prefixes, a longest-prefix scan finds the one entry that contains the address.\<close>

definition owners :: "(ip_prefix \<times> 'a) list \<Rightarrow> addr \<Rightarrow> (ip_prefix \<times> 'a) list" where
  "owners es a = filter (\<lambda>e. Contains_ip (fst e) a) es"

lemma owners_single: "disjoint_prefixes es \<Longrightarrow> length (owners es a) \<le> 1"
proof (induction es)
  case (Cons e es)
  show ?case
  proof (cases "Contains_ip (fst e) a")
    case True
    have "filter (\<lambda>e. Contains_ip (fst e) a) es = []"
      using Cons.prems True overlap_of_common by (auto simp: disjoint_Cons filter_empty_conv)
    then show ?thesis using True by (simp add: owners_def)
  qed (use Cons in \<open>auto simp: disjoint_Cons owners_def\<close>)
qed (simp add: owners_def)

lemma scan_owners:
  assumes "length (owners es a) \<le> 1"
  shows "fold (\<lambda>(p, c) (best, bits). if Contains_ip p a \<and> int (pfBits p) > bits
            then (Some c, int (pfBits p)) else (best, bits)) es (None, -1) =
         (case owners es a of [] \<Rightarrow> (None, -1) | (p, c) # _ \<Rightarrow> (Some c, int (pfBits p)))"
proof -
  let ?f = "\<lambda>(p, c) (best, bits). if Contains_ip p a \<and> int (pfBits p) > bits
            then (Some c, int (pfBits p)) else (best, bits)"
  have skip: "owners es a = [] \<Longrightarrow> fold ?f es z = z" for es and z :: "'a option \<times> int"
    by (induction es arbitrary: z) (auto simp: owners_def split: if_splits prod.splits)
  show ?thesis using assms
  proof (induction es)
    case (Cons e es)
    obtain p c where e: "e = (p, c)" by fastforce
    show ?case
    proof (cases "Contains_ip p a")
      case True
      then have "owners es a = []" using Cons.prems e by (simp add: owners_def)
      then show ?thesis using True e skip by (simp add: owners_def)
    next
      case False
      then show ?thesis using Cons e by (simp add: owners_def)
    qed
  qed (simp add: owners_def)
qed

lemma match_owner:
  assumes "disjoint_prefixes m"
  shows "Match m a = (case owners m (Unmap a) of
      [] \<Rightarrow> (None, -1, False) | (p, c) # _ \<Rightarrow> (Some c, int (pfBits p), True))"
  unfolding Match_def Let_def scan_owners [OF owners_single [OF assms]]
  by (auto split: list.split)

lemma add_domains_sources: "add_domains name ds r = Inr r' \<Longrightarrow> rSources r' = rSources r \<and> rDef r' = rDef r"
  by (induction name ds r rule: add_domains.induct) (auto simp: Let_def split: if_splits option.splits)

lemma add_sources_disjoint:
  "add_sources parse name ss r = Inr r' \<Longrightarrow> disjoint_prefixes (rSources r) \<Longrightarrow> disjoint_prefixes (rSources r')"
proof (induction parse name ss r rule: add_sources.induct)
  case (2 parse name s ss r)
  obtain p where p: "parse s = Some p" using 2(2) by (auto split: option.splits)
  have f: "find (\<lambda>o'. Overlaps (fst o') (Masked p)) (rSources r) = None"
    using 2(2) p by (auto simp: Let_def split: option.splits)
  have "disjoint_prefixes (rSources r @ [(Masked p, name)])"
    by (rule disjoint_snoc [OF 2(3)]) (use f in \<open>auto simp: find_None_iff\<close>)
  then show ?case using 2(1) [OF p refl f] 2(2) p f by simp
qed simp

lemma add_routes_disjoint:
  "add_routes parse rts r = Inr r' \<Longrightarrow> disjoint_prefixes (rSources r) \<Longrightarrow> disjoint_prefixes (rSources r')"
proof (induction rts arbitrary: r)
  case (Cons rt rts)
  obtain r1 where r1: "add_domains (rName rt) (Domains rt) r = Inr r1" using Cons.prems(1) by (auto split: sum.splits)
  obtain r2 where r2: "add_sources parse (rName rt) (Sources rt) r1 = Inr r2"
    using Cons.prems(1) r1 by (auto split: sum.splits)
  have "disjoint_prefixes (rSources r2)"
    using add_sources_disjoint [OF r2] add_domains_sources [OF r1] Cons.prems(2) by simp
  then show ?case using Cons.IH Cons.prems(1) r1 r2 by (auto split: if_splits)
qed simp

lemma New_router_disjoint: "New_router parse rts = Inr r \<Longrightarrow> disjoint_prefixes (rSources r)"
  unfolding New_router_def by (erule add_routes_disjoint) (simp add: disjoint_prefixes_def)

lemma scan3_owners:
  fixes es :: "(ip_prefix \<times> string) list"
  assumes "length (owners es a) \<le> 1"
  shows "fold (\<lambda>(p, n) (route, bits, ok). if Contains_ip p a \<and> int (pfBits p) > bits
            then (n, int (pfBits p), True) else (route, bits, ok)) es ([], -1, False) =
         (case owners es a of [] \<Rightarrow> ([], -1, False) | (p, n) # _ \<Rightarrow> (n, int (pfBits p), True))"
proof -
  let ?f = "\<lambda>(p, n) (route, bits, ok). if Contains_ip p a \<and> int (pfBits p) > bits
            then (n, int (pfBits p), True) else (route, bits, ok)"
  have skip: "owners es a = [] \<Longrightarrow> fold ?f es z = z" for es and z :: "string \<times> int \<times> bool"
    by (induction es arbitrary: z) (auto simp: owners_def split: if_splits prod.splits)
  show ?thesis using assms
  proof (induction es)
    case (Cons e es)
    obtain p n where e: "e = (p, n)" by fastforce
    show ?case
    proof (cases "Contains_ip p a")
      case True
      then have "owners es a = []" using Cons.prems e by (simp add: owners_def)
      then show ?thesis using True e skip [of es "(n, int (pfBits p), True)"] by (simp add: owners_def)
    next
      case False
      then show ?thesis using Cons e by (simp add: owners_def)
    qed
  qed (simp add: owners_def)
qed

lemma match_source_owner:
  assumes "disjoint_prefixes (rSources r)"
  shows "match_source r a = (case owners (rSources r) a of
      [] \<Rightarrow> ([], -1, False) | (p, n) # _ \<Rightarrow> (n, int (pfBits p), True))"
  unfolding match_source_def by (rule scan3_owners [OF owners_single [OF assms]])

section \<open>Splitting a message\<close>

definition routed :: "router \<Rightarrow> addr \<Rightarrow> string \<Rightarrow> int \<Rightarrow> string \<Rightarrow> string option" where
  "routed r src cr cb rcpt = map_option decRoute (Resolve r rcpt src cr cb)"

text \<open>What the loop of \<open>Split\<close> holds after the recipients \<open>seen\<close>, for the routing function \<open>f\<close>.\<close>

definition grouped :: "(string \<Rightarrow> string option) \<Rightarrow> string list \<Rightarrow> Group list \<Rightarrow> (string \<rightharpoonup> nat) \<Rightarrow> bool" where
  "grouped f seen gs at \<longleftrightarrow>
     (\<forall>rt i. at rt = Some i \<longleftrightarrow> i < length gs \<and> gRoute (gs ! i) = rt) \<and>
     (\<forall>g \<in> set gs. gRecipients g = filter (\<lambda>r. f r = Some (gRoute g)) seen \<and> gRecipients g \<noteq> []) \<and>
     (\<forall>r \<in> set seen. \<exists>g \<in> set gs. f r = Some (gRoute g))"

lemma grouped_old:
  assumes g: "grouped f seen gs at" and f: "f r = Some rt" and i: "at rt = Some i"
  shows "grouped f (seen @ [r]) (gs[i := (gs ! i)\<lparr>gRecipients := gRecipients (gs ! i) @ [r]\<rparr>]) at"
proof -
  let ?g = "(gs ! i)\<lparr>gRecipients := gRecipients (gs ! i) @ [r]\<rparr>"
  have il: "i < length gs" "gRoute (gs ! i) = rt" using g i by (auto simp: grouped_def)
  have uniq: "j < length gs \<Longrightarrow> gRoute (gs ! j) = rt \<Longrightarrow> j = i" for j
    using g i unfolding grouped_def by (metis option.inject)
  have routes: "gRoute (gs[i := ?g] ! j) = gRoute (gs ! j)" if "j < length gs" for j
    using that by (cases "j = i") simp_all
  have "gRecipients h = filter (\<lambda>x. f x = Some (gRoute h)) (seen @ [r]) \<and> gRecipients h \<noteq> []"
    if "h \<in> set (gs[i := ?g])" for h
  proof -
    obtain j where j: "j < length gs" "h = gs[i := ?g] ! j" using \<open>h \<in> set (gs[i := ?g])\<close> by (auto simp: in_set_conv_nth)
    have old: "gRecipients (gs ! j) = filter (\<lambda>x. f x = Some (gRoute (gs ! j))) seen \<and> gRecipients (gs ! j) \<noteq> []"
      using g nth_mem [OF j(1)] unfolding grouped_def by blast
    show ?thesis
    proof (cases "j = i")
      case True
      then show ?thesis using j il old f by simp
    next
      case False
      then have "gRoute (gs ! j) \<noteq> rt" using uniq j(1) by blast
      then have "filter (\<lambda>x. f x = Some (gRoute (gs ! j))) (seen @ [r]) = filter (\<lambda>x. f x = Some (gRoute (gs ! j))) seen"
        using f by simp
      then show ?thesis using False j old by (metis nth_list_update_neq)
    qed
  qed
  moreover have "\<exists>h \<in> set (gs[i := ?g]). f x = Some (gRoute h)" if "x \<in> set (seen @ [r])" for x
  proof -
    have "\<exists>h \<in> set gs. f x = Some (gRoute h)"
    proof (cases "x = r")
      case True
      then show ?thesis using f il nth_mem [OF il(1)] by blast
    next
      case False
      then have "x \<in> set seen" using that by simp
      then show ?thesis using g unfolding grouped_def by blast
    qed
    then obtain j where "j < length gs" "f x = Some (gRoute (gs ! j))" by (metis in_set_conv_nth)
    then show ?thesis using routes by (metis length_list_update nth_mem)
  qed
  moreover have "at rt' = Some j \<longleftrightarrow> j < length (gs[i := ?g]) \<and> gRoute (gs[i := ?g] ! j) = rt'" for rt' j
    using g routes by (auto simp: grouped_def)
  ultimately show ?thesis unfolding grouped_def by blast
qed

lemma grouped_new:
  assumes g: "grouped f seen gs at" and f: "f r = Some rt" and i: "at rt = None"
  shows "grouped f (seen @ [r]) (gs @ [\<lparr>gRoute = rt, gReason = why, gRecipients = [r]\<rparr>]) (at(rt \<mapsto> length gs))"
proof -
  let ?n = "\<lparr>gRoute = rt, gReason = why, gRecipients = [r]\<rparr>"
  have none: "gRoute h \<noteq> rt" if "h \<in> set gs" for h
    using that g i unfolding grouped_def in_set_conv_nth by (metis option.distinct(1))
  then have no: "filter (\<lambda>x. f x = Some rt) seen = []"
    using g by (fastforce simp: grouped_def filter_empty_conv)
  have "(at(rt \<mapsto> length gs)) rt' = Some j \<longleftrightarrow> j < length (gs @ [?n]) \<and> gRoute ((gs @ [?n]) ! j) = rt'" for rt' j
    using g none by (auto simp: grouped_def nth_append less_Suc_eq)
  moreover have "\<forall>h \<in> set (gs @ [?n]). gRecipients h = filter (\<lambda>x. f x = Some (gRoute h)) (seen @ [r]) \<and> gRecipients h \<noteq> []"
    using g none no f by (auto simp: grouped_def)
  moreover have "\<forall>x \<in> set (seen @ [r]). \<exists>h \<in> set (gs @ [?n]). f x = Some (gRoute h)"
    using g f by (auto simp: grouped_def)
  ultimately show ?thesis unfolding grouped_def by blast
qed

lemma split_loop_grouped:
  "split_loop r src cr cb rcpts gs at = Inr gs' \<Longrightarrow> grouped (routed r src cr cb) seen gs at \<Longrightarrow>
   \<exists>at'. grouped (routed r src cr cb) (seen @ rcpts) gs' at'"
proof (induction rcpts arbitrary: gs at seen)
  case (Cons x xs)
  obtain d where d: "Resolve r x src cr cb = Some d" using Cons.prems(1) by (auto split: option.splits)
  then have f: "routed r src cr cb x = Some (decRoute d)" by (simp add: routed_def)
  show ?case
  proof (cases "at (decRoute d)")
    case (Some i)
    from grouped_old [OF Cons.prems(2) f Some] Cons.prems(1) d Some
    show ?thesis using Cons.IH [of _ _ "seen @ [x]"] by (simp add: Let_def)
  next
    case None
    from grouped_new [OF Cons.prems(2) f None, of "decReason d"] Cons.prems(1) d None
    show ?thesis using Cons.IH [of _ _ "seen @ [x]"] by (simp add: Let_def)
  qed
qed auto

lemma split_loop_total:
  "(\<exists>e. split_loop r src cr cb rcpts gs at = Inl e) \<longleftrightarrow> (\<exists>x \<in> set rcpts. routed r src cr cb x = None)"
  by (induction rcpts arbitrary: gs at) (auto simp: routed_def Let_def split: option.splits)

lemma grouped_distinct: "grouped f seen gs at \<Longrightarrow> distinct (map gRoute gs)"
  unfolding grouped_def distinct_conv_nth by (metis length_map nth_map option.inject)

lemma split_groups:
  assumes "Split r rcpts src cr cb = Inr gs"
  shows "distinct (map gRoute gs) \<and>
    (\<forall>g \<in> set gs. gRecipients g \<noteq> [] \<and> gRecipients g = filter (\<lambda>x. routed r src cr cb x = Some (gRoute g)) rcpts) \<and>
    (\<forall>x \<in> set rcpts. \<exists>g \<in> set gs. routed r src cr cb x = Some (gRoute g) \<and> x \<in> set (gRecipients g))"
proof -
  have "grouped (routed r src cr cb) [] [] Map.empty" by (simp add: grouped_def)
  then obtain at' where g: "grouped (routed r src cr cb) rcpts gs at'"
    using split_loop_grouped [of r src cr cb rcpts "[]" Map.empty gs "[]"] assms by (auto simp: Split_def)
  then have each: "gRecipients h = filter (\<lambda>x. routed r src cr cb x = Some (gRoute h)) rcpts \<and> gRecipients h \<noteq> []"
    if "h \<in> set gs" for h
    using that unfolding grouped_def by blast
  have "\<exists>h \<in> set gs. routed r src cr cb x = Some (gRoute h) \<and> x \<in> set (gRecipients h)" if x: "x \<in> set rcpts" for x
  proof -
    have "\<exists>h \<in> set gs. routed r src cr cb x = Some (gRoute h)" using g x unfolding grouped_def by blast
    then show ?thesis using each x by auto
  qed
  then show ?thesis using each grouped_distinct [OF g] by blast
qed

text \<open>C11: Splitting the recipients of a message by route loses, duplicates and reorders nothing: there
  is one group per route that occurs, each holding exactly the recipients of its route in the order
  given and never empty; and it fails exactly when some recipient has no route.\<close>

theorem split_partitions:
  "case Split r rcpts src cr cb of
     Inl e \<Rightarrow> \<exists>x \<in> set rcpts. Resolve r x src cr cb = None
   | Inr gs \<Rightarrow> distinct (map gRoute gs) \<and>
       (\<forall>g \<in> set gs. gRecipients g \<noteq> [] \<and>
          gRecipients g = filter (\<lambda>x. routed r src cr cb x = Some (gRoute g)) rcpts) \<and>
       (\<forall>x \<in> set rcpts. \<exists>g \<in> set gs. routed r src cr cb x = Some (gRoute g) \<and> x \<in> set (gRecipients g))"
proof (cases "Split r rcpts src cr cb")
  case (Inl e)
  then show ?thesis using split_loop_total [of r src cr cb rcpts "[]" Map.empty]
    by (auto simp: Split_def routed_def)
next
  case (Inr gs)
  show ?thesis unfolding Inr sum.case by (rule split_groups [OF Inr])
qed

theorem split_partitions_witness:
  "\<exists>gs. Split \<lparr>byDomain = [''b.c'' \<mapsto> ''m365''], rSources = [], rDef = ''main''\<rparr>
       [''x@b.c'', ''y@z.d'', ''w@B.C''] (V4 0) [] (-1) = Inr gs \<and> distinct (map gRoute gs) \<and> length gs = 2"
proof -
  have "map_option (map gRecipients) (case Split \<lparr>byDomain = [''b.c'' \<mapsto> ''m365''], rSources = [], rDef = ''main''\<rparr>
       [''x@b.c'', ''y@z.d'', ''w@B.C''] (V4 0) [] (-1) of Inr gs \<Rightarrow> Some gs | Inl _ \<Rightarrow> None) =
     Some [[''x@b.c'', ''w@B.C''], [''y@z.d'']]" by code_simp
  then show ?thesis
    using split_partitions [where r = "\<lparr>byDomain = [''b.c'' \<mapsto> ''m365''], rSources = [], rDef = ''main''\<rparr>"
        and rcpts = "[''x@b.c'', ''y@z.d'', ''w@B.C'']" and src = "V4 0" and cr = "[]" and cb = "-1"]
    by (auto split: sum.splits dest: arg_cong [where f = length])
qed

text \<open>A router built from a configuration decides by the documented precedence, and by nothing
  that depends on the order of its tables: the recipient's domain first, then the one source network
  that contains the client's address if it is more specific than the client's own, then the
  client's route, then the default; at most one source network can contain an address.\<close>

theorem resolve_precedence:
  assumes "New_router parse rts = Inr r"
  shows "length (owners (rSources r) (Unmap src)) \<le> 1 \<and>
    Resolve r rcpt src cr cb =
      (case (if domainOf rcpt = [] then None else byDomain r (domainOf rcpt)) of
         Some n \<Rightarrow> Some \<lparr>decRoute = n, decReason = ''domain''\<rparr>
       | None \<Rightarrow>
           (case owners (rSources r) (Unmap src) of
              (p, n) # _ \<Rightarrow>
                if cr = [] \<or> int (pfBits p) > cb then Some \<lparr>decRoute = n, decReason = ''source''\<rparr>
                else Some \<lparr>decRoute = cr, decReason = ''client''\<rparr>
            | [] \<Rightarrow>
                if cr \<noteq> [] then Some \<lparr>decRoute = cr, decReason = ''client''\<rparr>
                else if rDef r \<noteq> [] then Some \<lparr>decRoute = rDef r, decReason = ''default''\<rparr> else None))"
proof -
  have d: "disjoint_prefixes (rSources r)" by (rule New_router_disjoint [OF assms])
  show ?thesis
    using owners_single [OF d]
    by (auto simp: Resolve_def Let_def match_source_owner [OF d] split: option.split list.split)
qed

text \<open>Prefixes in decimal, for the witnesses: an address and a length.\<close>

definition demo_parse :: "string \<Rightarrow> ip_prefix option" where
  "demo_parse s = (if s = ''10.0.0.0/8'' then Some \<lparr>pfAddr = V4 0x0A000000, pfBits = 8\<rparr>
     else if s = ''10.1.0.0/16'' then Some \<lparr>pfAddr = V4 0x0A010000, pfBits = 16\<rparr>
     else if s = ''192.168.0.0/16'' then Some \<lparr>pfAddr = V4 0xC0A80000, pfBits = 16\<rparr> else None)"

definition demo_route :: "string \<Rightarrow> string list \<Rightarrow> bool \<Rightarrow> Route" where
  "demo_route n srcs d = \<lparr>rName = n, Default = d, Host = ''h'', Port = 587, rTLS = TLSStartTLS, rMinTLS = ''1.2'',
     Auth = AuthNone, Domains = [], Sources = srcs, MaxConcurrent = 1, rRateLimitPerMin = 0, CAPin = [],
     rOAuth2 = \<lparr>TenantID = [], ClientID = [], ClientSecret = \<lparr>secRef = [], secValue = []\<rparr>, SecretExpires = [],
                Scope = [], Mailbox = []\<rparr>,
     rCredentials = \<lparr>Username = [], Password = \<lparr>secRef = [], secValue = []\<rparr>\<rparr>\<rparr>"

theorem resolve_precedence_witness:
  "\<exists>r. New_router demo_parse [demo_route ''site'' [''10.0.0.0/8''] False, demo_route ''main'' [] True] = Inr r \<and>
     length (owners (rSources r) (V4 0x0A010203)) \<le> 1"
proof -
  have "\<not> (case New_router demo_parse [demo_route ''site'' [''10.0.0.0/8''] False, demo_route ''main'' [] True]
      of Inl e \<Rightarrow> True | Inr r \<Rightarrow> False)"
    by (simp add: New_router_def demo_route_def demo_parse_def Let_def)
  then obtain r where "New_router demo_parse [demo_route ''site'' [''10.0.0.0/8''] False, demo_route ''main'' [] True] = Inr r"
    by (auto split: sum.splits)
  with resolve_precedence [OF this, of "V4 0x0A010203" "''a@b.c''" "[]" "-1"] show ?thesis by auto
qed

section \<open>Connection counts\<close>

text \<open>
  What the connections hold: \<open>held k\<close> is how many connections took a place under key \<open>k\<close>.
\<close>

inductive conn_run :: "(string \<Rightarrow> int) \<Rightarrow> connCounter \<Rightarrow> (string \<Rightarrow> nat) \<Rightarrow> bool" for limit where
  start: "conn_run limit Map.empty (\<lambda>_. 0)"
| opened: "conn_run limit n held \<Longrightarrow> acquire k (limit k) n = (True, n') \<Longrightarrow> 0 < limit k \<Longrightarrow>
     conn_run limit n' (held(k := held k + 1))"
| turned_away: "conn_run limit n held \<Longrightarrow> acquire k (limit k) n = (False, n') \<Longrightarrow> conn_run limit n' held"
| closed: "conn_run limit n held \<Longrightarrow> 0 < held k \<Longrightarrow>
     conn_run limit (conn_release k (limit k) n) (held(k := held k - 1))"

text \<open>The connection counter is exact and bounded: after any sequence of connections opening, being
  turned away and closing, each key counts the connections that hold a place, never more than its
  limit, and a key nobody holds has no entry.\<close>

theorem connections_counted:
  assumes "conn_run limit n held"
  shows "n k = (if held k = 0 then None else Some (int (held k))) \<and> (0 < held k \<longrightarrow> int (held k) \<le> limit k)"
  using assms
proof (induction arbitrary: k rule: conn_run.induct)
  case (opened n held k' n')
  show ?case
    using opened.hyps(2,3) opened.IH [of k] opened.IH [of k']
    by (auto simp: acquire_def conn_count_def split: if_splits option.splits)
next
  case (turned_away n held k' n')
  then show ?case by (auto simp: acquire_def split: if_splits)
next
  case (closed n held k')
  show ?case
    using closed.hyps(2) closed.IH [of k] closed.IH [of k']
    by (auto simp: conn_release_def conn_count_def split: if_splits)
qed simp

theorem connections_counted_witness:
  "\<exists>n. conn_run (\<lambda>_. 2) n ((\<lambda>_. 0)(''client:a'' := 1)) \<and> n ''client:a'' = Some 1"
proof -
  have "acquire ''client:a'' 2 Map.empty = (True, [''client:a'' \<mapsto> 1])" by (simp add: acquire_def conn_count_def)
  from conn_run.opened [OF conn_run.start, of "''client:a''" "\<lambda>_. 2", OF this]
  have r: "conn_run (\<lambda>_. 2) [''client:a'' \<mapsto> 1] ((\<lambda>_. 0)(''client:a'' := 1))" by simp
  show ?thesis using connections_counted [OF r, of "''client:a''"] r by auto
qed

lemma conn_keys_apart: "connKeyClient a \<noteq> connKeyUnmatched b"
  by (simp add: connKeyClient_def connKeyUnmatched_def)

end
