(* ===== verification/Config_Validate.thy ===== *)
theory Config_Validate
  imports Router
begin

text \<open>
  \<open>internal/config/validate.go\<close>: every rule a configuration has to satisfy, section by section in
  the order of \<open>Validate\<close>, which matters because sections leave state for later ones. What lies
  outside the package is the record \<open>cfg_env\<close>: parsing of prefixes, addresses, host:port pairs and
  dates, the certificate pair, the time zone database and the path functions. A complaint is its
  place and its text; the quoting of \<open>%q\<close> is left out.
\<close>

record cfg_env =
  ParsePrefix :: "string \<Rightarrow> ip_prefix option"
  ParseAddr :: "string \<Rightarrow> addr option"
  SplitHostPort :: "string \<Rightarrow> (string \<times> string) option"
  ParseDate :: "string \<Rightarrow> int option"
  LoadX509KeyPair :: "string \<Rightarrow> string \<Rightarrow> bool"
  LoadLocation :: "string \<Rightarrow> bool"
  IsAbs :: "string \<Rightarrow> bool"
  VolumeName :: "string \<Rightarrow> string"
  CleanJoin :: "string \<Rightarrow> string \<Rightarrow> string"
  Rel :: "string \<Rightarrow> string \<Rightarrow> string option"
  osHostname :: "string option"

section \<open>Helpers\<close>

definition loopback_Host :: "cfg_env \<Rightarrow> string \<Rightarrow> bool" where
  "loopback_Host E host =
     (if host = [] then False
      else if host = ''localhost'' then True
      else case ParseAddr E host of None \<Rightarrow> False | Some a \<Rightarrow> IsLoopback a)"

definition HostHeader :: "cfg_env \<Rightarrow> string \<Rightarrow> bool" where
  "HostHeader E h =
     loopback_Host E (case SplitHostPort E h of
        Some (host, _) \<Rightarrow> host
      | None \<Rightarrow> TrimSuffix (TrimPrefix h ''['') '']'')"

fun path_elems :: "string \<Rightarrow> string \<Rightarrow> string list" where
  "path_elems [] acc = (if acc = [] then [] else [rev acc])"
| "path_elems (c # cs) acc =
     (if c = CHR ''/'' \<or> c = BACKSLASH then (if acc = [] then path_elems cs [] else rev acc # path_elems cs [])
      else path_elems cs (c # acc))"

definition LogPath :: "cfg_env \<Rightarrow> string \<Rightarrow> string \<Rightarrow> string option" where
  "LogPath E dataDir file =
     (if file = [] then Some []
      else if dataDir = [] then None
      else if NUL \<in> set file then None
      else if IsAbs E file \<or> VolumeName E file \<noteq> [] then None
      else if ''..'' \<in> set (path_elems file []) then None
      else (let full = CleanJoin E dataDir file in
            case Rel E dataDir full of
              None \<Rightarrow> None
            | Some rel \<Rightarrow> if rel = ''.'' \<or> rel = ''..'' \<or> HasPrefix rel ''../'' then None else Some full))"

definition ParseTimezone :: "cfg_env \<Rightarrow> string \<Rightarrow> bool" where
  "ParseTimezone E s \<longleftrightarrow> s = [] \<or> LoadLocation E s"

definition alnum :: "char \<Rightarrow> bool" where
  "alnum c \<longleftrightarrow> is_upper c \<or> is_lower c \<or> is_digit c"

definition ValidTenantID :: "string \<Rightarrow> bool" where
  "ValidTenantID s \<longleftrightarrow> s \<noteq> [] \<and> length s \<le> 128 \<and> alnum (hd s) \<and>
     list_all (\<lambda>c. alnum c \<or> c = CHR ''.'' \<or> c = CHR ''-'') (tl s)"

text \<open>\<open>hex.DecodeString\<close>: the number of bytes, if the text is hexadecimal of even length.\<close>

definition hex_len :: "string \<Rightarrow> nat option" where
  "hex_len s = (if list_all hex_digit s \<and> even (length s) then Some (length s div 2) else None)"

definition reservedName :: "string \<Rightarrow> bool" where
  "reservedName n \<longleftrightarrow> n = SourceExpiryWatch"

definition maxExpiryWarnDays :: int where "maxExpiryWarnDays = 3650"
definition maxSpoolGB :: int where "maxSpoolGB = 2 ^ 30"

section \<open>The validator\<close>

record validator =
  errs :: "(string \<times> string) list"
  needsCert :: bool
  anyPublic :: bool
  clientNames :: "string set"
  routeNames :: "string set"
  v_defaults :: nat

definition add_err :: "string \<Rightarrow> string \<Rightarrow> validator \<Rightarrow> validator" where
  "add_err loc msg v = v\<lparr>errs := errs v @ [(loc, msg)]\<rparr>"

definition refuse :: "bool \<Rightarrow> string \<Rightarrow> string \<Rightarrow> validator \<Rightarrow> validator" where
  "refuse bad loc msg v = (if bad then add_err loc msg v else v)"

definition place :: "string \<Rightarrow> nat \<Rightarrow> string \<Rightarrow> string" where
  "place sect i name = sect @ ''['' @ dec_nat i @ ''] '' @ name"

definition bad_name :: string where
  "bad_name = ''name must be 1 to 64 printable ASCII characters without a quote or backslash''"

definition v_service :: "cfg_env \<Rightarrow> Config \<Rightarrow> validator \<Rightarrow> validator" where
  "v_service E c v0 =
     (let s = cService c;
          v1 = (if DataDir s = [] then add_err ''service.data_dir'' ''is required'' v0
                else refuse (\<not> IsAbs E (DataDir s)) ''service.data_dir'' ''must be an absolute path'' v0);
          v2 = refuse (ParseLevel (LogLevel s) = None) ''service.log_level'' ''unsupported'' v1;
          v3 = refuse (\<not> ParseTimezone E (Timezone s)) ''service.timezone'' ''unsupported'' v2;
          v4 = refuse (Hostname s = []) ''service.hostname'' ''is required'' v3;
          v5 = refuse (ContainsAny (Hostname s) [CR, LF, NUL]) ''service.hostname'' ''must not contain CR, LF or NUL'' v4
      in refuse (DataDir s \<noteq> [] \<and> LogPath E (DataDir s) (logFile (cLog c)) = None) ''log.file'' ''not inside the data directory'' v5)"

definition v_listener :: "cfg_env \<Rightarrow> string \<Rightarrow> Listener \<Rightarrow> string set \<times> validator \<Rightarrow> string set \<times> validator" where
  "v_listener E w l acc = (case acc of (names, v0) \<Rightarrow>
     (let v1 = (if \<not> ValidName (lName l) then add_err w bad_name v0
                else refuse (lName l \<in> names) w ''duplicate listener name'' v0);
          v2 = (case SplitHostPort E (lAddress l) of
                  None \<Rightarrow> add_err w ''address'' v1
                | Some (host, _) \<Rightarrow> if \<not> loopback_Host E host then v1\<lparr>anyPublic := True\<rparr> else v1);
          v3 = refuse (lTLS l \<noteq> TLSNone \<and> lTLS l \<noteq> TLSStartTLS \<and> lTLS l \<noteq> TLSImplicit) w ''tls must be none, starttls or implicit'' v2;
          v4 = (if lTLS l \<noteq> TLSNone then v3\<lparr>needsCert := True\<rparr> else v3);
          v5 = refuse (RequireTLS l \<and> lTLS l = TLSNone) w ''require_tls is set but tls is none'' v4
      in (insert (lName l) names,
          refuse (lMinTLS l \<noteq> [] \<and> ParseTLSVersion (lMinTLS l) = None) w ''min_tls'' v5)))"

fun v_listener_loop :: "cfg_env \<Rightarrow> nat \<Rightarrow> Listener list \<Rightarrow> string set \<times> validator \<Rightarrow> validator" where
  "v_listener_loop E i [] acc = snd acc"
| "v_listener_loop E i (l # ls) acc = v_listener_loop E (i + 1) ls (v_listener E (place ''listener'' i (lName l)) l acc)"

definition v_listeners :: "cfg_env \<Rightarrow> Config \<Rightarrow> validator \<Rightarrow> validator" where
  "v_listeners E c v =
     v_listener_loop E 0 (Listeners c) ({}, refuse (Listeners c = []) ''listener'' ''at least one is required'' v)"

definition v_tls :: "cfg_env \<Rightarrow> Config \<Rightarrow> validator \<Rightarrow> validator" where
  "v_tls E c v =
     (if needsCert v then
        (if CertFile (cTLS c) = [] \<or> KeyFile (cTLS c) = [] then add_err ''tls'' ''cert_file and key_file are required'' v
         else refuse (\<not> LoadX509KeyPair E (CertFile (cTLS c)) (KeyFile (cTLS c))) ''tls'' ''cannot be loaded'' v)
      else v)"

text \<open>The CIDRs of one client, against the prefixes claimed so far with their owners.\<close>

fun v_prefixes ::
  "cfg_env \<Rightarrow> string \<Rightarrow> string \<Rightarrow> string list \<Rightarrow> (ip_prefix \<times> string) list \<times> validator \<Rightarrow> (ip_prefix \<times> string) list \<times> validator" where
  "v_prefixes E w owner [] acc = acc"
| "v_prefixes E w owner (s # ss) (claimed, v) =
     (case ParsePrefix E s of
        None \<Rightarrow> v_prefixes E w owner ss (claimed, add_err w ''not a prefix'' v)
      | Some p \<Rightarrow>
          if pfAddr p \<noteq> pfAddr (Masked p) then v_prefixes E w owner ss (claimed, add_err w ''has host bits set'' v)
          else v_prefixes E w owner ss (claimed @ [(p, owner)],
                 fold (\<lambda>o' v. refuse (Overlaps (fst o') p) w ''overlaps: matching would be ambiguous'' v) claimed v))"

fun refuse_each :: "('a \<Rightarrow> bool) \<Rightarrow> string \<Rightarrow> string \<Rightarrow> 'a list \<Rightarrow> validator \<Rightarrow> validator" where
  "refuse_each bad w msg [] v = v"
| "refuse_each bad w msg (x # xs) v = refuse_each bad w msg xs (refuse (bad x) w msg v)"

definition v_clientRewrite :: "Client \<Rightarrow> string \<Rightarrow> validator \<Rightarrow> validator" where
  "v_clientRewrite cl w v0 =
     (let rw = clRewrite cl;
          v1 = (if Mode rw = RewriteOff then v0
                else if Mode rw = RewriteForce \<or> Mode rw = RewriteIfUnauthorized then
                  (let a = (if EnvelopeFrom rw = [] then add_err w ''rewrite.envelope_from is required'' v0
                            else refuse (\<not> ValidAddress (EnvelopeFrom rw)) w ''rewrite.envelope_from is not a valid address'' v0);
                       b = refuse (Mode rw = RewriteIfUnauthorized \<and> AllowedSenders rw = []) w ''if_unauthorized requires allowed_senders'' a;
                       hf = TrimSpace (HeaderFrom rw)
                   in if hf \<noteq> [] \<and> hf \<noteq> HeaderFromKeep then
                        (case SplitMailbox hf of
                           None \<Rightarrow> add_err w ''rewrite.header_from'' b
                         | Some (_, addr) \<Rightarrow> refuse (DomainOf addr \<noteq> DomainOf (EnvelopeFrom rw)) w ''rewrite.header_from domain does not match'' b)
                      else b)
                else add_err w ''rewrite.mode must be off, if_unauthorized or force'' v0);
          v2 = refuse_each (\<lambda>p. \<not> ValidSenderPattern p) w ''rewrite.allowed_senders'' (AllowedSenders rw) v1
      in refuse (ParseReplyTo (ReplyTo rw) = None) w ''rewrite.reply_to'' v2)"

definition v_client ::
  "cfg_env \<Rightarrow> string \<Rightarrow> Client \<Rightarrow> (ip_prefix \<times> string) list \<times> validator \<Rightarrow> (ip_prefix \<times> string) list \<times> validator" where
  "v_client E w cl acc = (case acc of (claimed, v0) \<Rightarrow>
     (let n = clName cl;
          v1 = (if \<not> ValidName n then add_err w bad_name v0
                else if n \<in> clientNames v0 then add_err w ''duplicate client name'' v0
                else refuse (reservedName n) w ''name is reserved'' v0);
          v2 = v1\<lparr>clientNames := insert n (clientNames v1)\<rparr>;
          v3 = refuse (CIDR cl = []) w ''at least one cidr is required'' v2
      in case v_prefixes E w n (CIDR cl) (claimed, v3) of (claimed', v4) \<Rightarrow>
           (claimed', refuse (clMaxMessageMB cl < 0 \<or> MaxRecipients cl < 0 \<or> clRateLimitPerMin cl < 0 \<or> clMaxConnections cl < 0)
                        w ''limits must not be negative'' (v_clientRewrite cl w v4))))"

fun v_client_loop :: "cfg_env \<Rightarrow> nat \<Rightarrow> Client list \<Rightarrow> (ip_prefix \<times> string) list \<times> validator \<Rightarrow> (ip_prefix \<times> string) list \<times> validator" where
  "v_client_loop E i [] acc = acc"
| "v_client_loop E i (cl # cls) acc = v_client_loop E (i + 1) cls (v_client E (place ''client'' i (clName cl)) cl acc)"

definition v_clients :: "cfg_env \<Rightarrow> Config \<Rightarrow> validator \<Rightarrow> validator" where
  "v_clients E c v =
     snd (v_client_loop E 0 (Clients c) ([],
       (if Clients c = [] then
          (if anyPublic v then add_err ''client'' ''no client but a public listener: this would be an open relay'' v
           else add_err ''client'' ''at least one is required'' v)
        else v)))"

section \<open>Routes\<close>

definition v_routeIdentity :: "Route \<Rightarrow> string \<Rightarrow> validator \<Rightarrow> validator" where
  "v_routeIdentity r w v0 =
     (let v1 = (if \<not> ValidName (rName r) then add_err w bad_name v0
                else refuse (rName r \<in> routeNames v0) w ''duplicate route name'' v0);
          v2 = v1\<lparr>routeNames := insert (rName r) (routeNames v1)\<rparr>;
          v3 = (if Default r then v2\<lparr>v_defaults := v_defaults v2 + 1\<rparr> else v2);
          v4 = refuse (Host r = []) w ''host is required'' v3
      in refuse (Port r < 1 \<or> Port r > 65535) w ''port is out of range'' v4)"

definition v_routeTLS :: "Route \<Rightarrow> string \<Rightarrow> validator \<Rightarrow> validator" where
  "v_routeTLS r w v0 =
     (let v1 = (if rTLS r = TLSStartTLS \<or> rTLS r = TLSImplicit then v0
                else if rTLS r = TLSNone then
                  refuse (CAPin r \<noteq> []) w ''ca_pin is meaningless with tls none''
                    (refuse (rMinTLS r \<noteq> []) w ''min_tls is meaningless with tls none'' v0)
                else add_err w ''tls must be none, starttls or implicit'' v0)
      in if rTLS r = TLSNone then
           refuse (Auth r \<noteq> [] \<and> Auth r \<noteq> AuthNone) w ''auth requires tls starttls or implicit'' v1
         else case ParseTLSVersion (rMinTLS r) of
                None \<Rightarrow> add_err w ''min_tls'' v1
              | Some ver \<Rightarrow> refuse (ver < VersionTLS12) w ''min_tls must be at least 1.2'' v1)"

definition v_routeAuth :: "cfg_env \<Rightarrow> Route \<Rightarrow> string \<Rightarrow> validator \<Rightarrow> validator" where
  "v_routeAuth E r w v =
     (if Auth r = AuthNone then v
      else if Auth r = AuthPlain \<or> Auth r = AuthLogin then
        refuse (Username (rCredentials r) = [] \<or> Secret_Empty (Password (rCredentials r))) w ''auth requires username and password'' v
      else if Auth r = AuthXOAUTH2 then
        (let a = rOAuth2 r in
         if TenantID a = [] \<or> ClientID a = [] \<or> Secret_Empty (ClientSecret a) \<or> Mailbox a = []
         then add_err w ''auth xoauth2 requires oauth2 settings'' v
         else (let v1 = refuse (\<not> ValidTenantID (TenantID a)) w ''oauth2.tenant_id'' v;
                   v2 = refuse (\<not> printableASCII (Mailbox a) \<or> \<not> Contains (Mailbox a) ''@'') w ''oauth2.mailbox'' v1;
                   v3 = refuse (\<not> HasPrefix (Scope a) ''https://'' \<or> \<not> HasSuffix (Scope a) ''/.default'') w ''oauth2.scope'' v2
               in refuse (SecretExpires a \<noteq> [] \<and> ParseDate E (SecretExpires a) = None) w ''oauth2.secret_expires'' v3))
      else if Auth r = [] then add_err w ''auth is required'' v
      else add_err w ''auth must be none, plain, login or xoauth2'' v)"

definition v_routeCAPin :: "Route \<Rightarrow> string \<Rightarrow> validator \<Rightarrow> validator" where
  "v_routeCAPin r w v =
     (if CAPin r \<noteq> [] then
        (case hex_len (filter (\<lambda>c. c \<noteq> CHR '':'') (CAPin r)) of
           None \<Rightarrow> add_err w ''ca_pin must be a hex SHA-256 fingerprint'' v
         | Some n \<Rightarrow> refuse (n \<noteq> 32) w ''ca_pin must be a SHA-256 fingerprint'' v)
      else v)"

fun v_routeDomains :: "string \<Rightarrow> string \<Rightarrow> string list \<Rightarrow> (string \<rightharpoonup> string) \<times> validator \<Rightarrow> (string \<rightharpoonup> string) \<times> validator" where
  "v_routeDomains w name [] acc = acc"
| "v_routeDomains w name (d # ds) (owner, v) =
     (if \<not> ValidDomain d then v_routeDomains w name ds (owner, add_err w ''not a valid domain name'' v)
      else case owner d of
             Some _ \<Rightarrow> v_routeDomains w name ds (owner, add_err w ''domain is already routed'' v)
           | None \<Rightarrow> v_routeDomains w name ds (owner(d \<mapsto> name), v))"

text \<open>What the loop over the routes carries: domains claimed, networks claimed, the validator.\<close>

type_synonym route_state = "(string \<rightharpoonup> string) \<times> (ip_prefix \<times> string) list \<times> validator"

definition v_route :: "cfg_env \<Rightarrow> string \<Rightarrow> Route \<Rightarrow> route_state \<Rightarrow> route_state" where
  "v_route E w r acc = (case acc of (owner, claimed, v0) \<Rightarrow>
     (let v1 = v_routeCAPin r w (v_routeAuth E r w (v_routeTLS r w (v_routeIdentity r w v0)));
          v2 = refuse (rRateLimitPerMin r < 0) w ''rate_limit_per_min must not be negative'' v1
      in case v_routeDomains w (rName r) (Domains r) (owner, v2) of (owner', v3) \<Rightarrow>
         (case v_prefixes E w (rName r) (Sources r) (claimed, v3) of (claimed', v4) \<Rightarrow> (owner', claimed', v4))))"

fun v_route_loop :: "cfg_env \<Rightarrow> nat \<Rightarrow> Route list \<Rightarrow> route_state \<Rightarrow> route_state" where
  "v_route_loop E i [] acc = acc"
| "v_route_loop E i (r # rs) acc = v_route_loop E (i + 1) rs (v_route E (place ''route'' i (rName r)) r acc)"

definition v_routes :: "cfg_env \<Rightarrow> Config \<Rightarrow> validator \<Rightarrow> validator" where
  "v_routes E c v0 =
     (let v1 = snd (snd (v_route_loop E 0 (Routes c) (Map.empty, [], v0)));
          v2 = refuse (Routes c = []) ''route'' ''at least one is required'' v1
      in refuse (v_defaults v2 > 1) ''route'' ''more than one route is marked default'' v2)"

fun v_clientRoutes :: "Client list \<Rightarrow> validator \<Rightarrow> validator" where
  "v_clientRoutes [] v = v"
| "v_clientRoutes (cl # cls) v =
     v_clientRoutes cls
       (if clRoute cl = [] then refuse (v_defaults v = 0) (clName cl) ''has no route and no default route exists'' v
        else refuse (clRoute cl \<notin> routeNames v) (clName cl) ''references unknown route'' v)"

section \<open>The other sections\<close>

definition v_queue :: "Config \<Rightarrow> validator \<Rightarrow> validator" where
  "v_queue c v0 =
     (let q = cQueue c;
          v1 = refuse (RetryScheduleMin q = []) ''queue.retry_schedule_min'' ''must not be empty'' v0;
          v2 = refuse_each (\<lambda>m. m \<le> 0) ''queue.retry_schedule_min'' ''must contain positive values'' (RetryScheduleMin q) v1;
          v3 = refuse (MaxLifetimeHours q \<le> 0) ''queue.max_lifetime_hours'' ''must be positive'' v2
      in refuse (FailedRetentionHours q < 0) ''queue.failed_retention_hours'' ''must not be negative'' v3)"

definition v_token :: "string \<Rightarrow> Token \<Rightarrow> validator \<Rightarrow> validator" where
  "v_token w t v0 =
     (let v1 = refuse (\<not> ValidName (tkName t)) w bad_name v0;
          v2 = refuse (tkScope t \<noteq> ScopeRead \<and> tkScope t \<noteq> ScopeAdmin) w ''scope must be read or admin'' v1
      in if length (tkSHA256 t) \<noteq> 64 then add_err w ''sha256 must be a 64 character hex digest'' v2
         else refuse (hex_len (tkSHA256 t) = None) w ''sha256 is not valid hex'' v2)"

fun v_tokens :: "nat \<Rightarrow> Token list \<Rightarrow> validator \<Rightarrow> validator" where
  "v_tokens i [] v = v"
| "v_tokens i (t # ts) v = v_tokens (i + 1) ts (v_token (place ''web.token'' i (tkName t)) t v)"

definition v_web :: "cfg_env \<Rightarrow> Config \<Rightarrow> validator \<Rightarrow> validator" where
  "v_web E c v0 =
     (let w = cWeb c;
          v1 = (if webEnabled w then
                  (case SplitHostPort E (webAddress w) of
                     None \<Rightarrow> add_err ''web.address'' ''not an address'' v0
                   | Some (host, _) \<Rightarrow> refuse (\<not> loopback_Host E host) ''web.address'' ''binds beyond loopback'' v0)
                else v0);
          v2 = refuse (thMode (webTheme w) \<notin> {[], ''auto'', ''light'', ''dark''}) ''web.theme.mode'' ''must be auto, light or dark'' v1;
          v3 = refuse_each (\<lambda>(k, x). x \<noteq> [] \<and> \<not> IsHexColor x) ''web.theme'' ''must be a hex colour'' (thColors (webTheme w)) v2
      in v_tokens 0 (Tokens w) v3)"

definition v_metrics :: "cfg_env \<Rightarrow> Config \<Rightarrow> validator \<Rightarrow> validator" where
  "v_metrics E c v0 =
     (let m = cMetrics c in
      if metEnabled m then
        (let v1 = (case SplitHostPort E (metAddress m) of
                     None \<Rightarrow> add_err ''metrics.address'' ''not an address'' v0
                   | Some (host, _) \<Rightarrow>
                       if \<not> loopback_Host E host then
                         refuse (CertFile (cTLS c) = [] \<or> KeyFile (cTLS c) = []) ''metrics.address'' ''no TLS certificate is configured''
                           (refuse (\<not> HasReadableToken c) ''metrics.address'' ''no token with read scope is configured'' v0)
                       else v0)
         in refuse (\<not> HasPrefix (metPath m) ''/'') ''metrics.path'' ''must start with /'' v1)
      else v0)"

definition v_history :: "Config \<Rightarrow> validator \<Rightarrow> validator" where
  "v_history c v0 =
     refuse (WarnDays c < 0 \<or> WarnDays c > maxExpiryWarnDays) ''expiry.warn_days'' ''out of range''
       (refuse (RetentionDays (cHistory c) \<le> 0) ''history.retention_days'' ''must be positive'' v0)"

fun v_client_notify :: "Client list \<Rightarrow> bool \<times> validator \<Rightarrow> bool \<times> validator" where
  "v_client_notify [] acc = acc"
| "v_client_notify (cl # cls) (n, v) =
     v_client_notify cls (n \<or> clNotify cl \<noteq> [],
       refuse_each (\<lambda>a. \<not> ValidAddress a) (clName cl) ''bounce.notify is not a valid email address'' (clNotify cl) v)"

definition v_bounce :: "Config \<Rightarrow> validator \<Rightarrow> validator" where
  "v_bounce c v0 =
     (let b = cBounce c in
      case v_client_notify (Clients c) (False, v0) of (clientNotifies, v1) \<Rightarrow>
      (let v2 = refuse_each (\<lambda>a. \<not> ValidAddress a) ''bounce.notify'' ''is not a valid email address'' (bNotify b) v1
       in if bNotify b \<noteq> [] \<or> clientNotifies then
            (let v3 = (if bSender b = [] then add_err ''bounce.sender'' ''is required'' v2
                       else refuse (\<not> ValidAddress (bSender b)) ''bounce.sender'' ''is not a valid email address'' v2);
                 v4 = refuse (DigestMinutes b \<le> 0) ''bounce.digest_minutes'' ''must be positive'' v3;
                 v5 = refuse (MaxPerHour b \<le> 0) ''bounce.max_per_hour'' ''must be positive'' v4
             in if NotifyRoute b = [] then add_err ''bounce.notify_route'' ''is required'' v5
                else refuse (NotifyRoute b \<notin> routeNames v5) ''bounce.notify_route'' ''references an unknown route'' v5)
          else v2))"

definition v_canary :: "string \<Rightarrow> Canary \<Rightarrow> string set \<times> validator \<Rightarrow> string set \<times> validator" where
  "v_canary w cn acc = (case acc of (names, v0) \<Rightarrow>
     (let n = cnName cn;
          (names', v1) =
            (if \<not> ValidName n then (names, add_err w bad_name v0)
             else if n \<in> names then (names, add_err w ''name is used by more than one canary'' v0)
             else if reservedName n then (names, add_err w ''name is reserved'' v0)
             else if n \<in> clientNames v0 then (names, add_err w ''name is also a client name'' v0)
             else (insert n names, v0));
          v2 = refuse (\<not> ValidAddress (cnRecipient cn)) w ''recipient is not a valid email address'' v1;
          v3 = (if cnSender cn = [] then add_err w ''sender is required'' v2
                else refuse (\<not> ValidAddress (cnSender cn)) w ''sender is not a valid email address'' v2);
          v4 = (if cnRoute cn = [] then add_err w ''route is required'' v3
                else refuse (cnRoute cn \<notin> routeNames v3) w ''references an unknown route'' v3)
      in (names',
          (if DailyAt cn \<noteq> [] \<and> IntervalMinutes cn \<noteq> 0 then add_err w ''interval_minutes and daily_at are mutually exclusive'' v4
           else if DailyAt cn \<noteq> [] then refuse (DailyAt_Minutes (DailyAt cn) = None) w ''daily_at'' v4
           else if IntervalMinutes cn > 0 then v4
           else add_err w ''a schedule is required'' v4))))"

fun v_canary_loop :: "nat \<Rightarrow> Canary list \<Rightarrow> string set \<times> validator \<Rightarrow> validator" where
  "v_canary_loop i [] acc = snd acc"
| "v_canary_loop i (cn # cns) acc = v_canary_loop (i + 1) cns (v_canary (place ''canary'' i (cnName cn)) cn acc)"

definition v_canaries :: "Config \<Rightarrow> validator \<Rightarrow> validator" where
  "v_canaries c v =
     v_canary_loop 0 (Canaries c) ({},
       refuse (Canaries c \<noteq> [] \<and> bNotify (cBounce c) = []) ''canary'' ''bounce.notify must be configured too'' v)"

definition v_limits :: "Config \<Rightarrow> validator \<Rightarrow> validator" where
  "v_limits c v0 =
     (let l = cLimits c;
          v1 = refuse (MaxHops l \<le> 0 \<or> limMaxConnections l \<le> 0) ''limits'' ''max_hops and max_connections must be positive'' v0;
          v2 = refuse (limMaxMessageMB l \<le> 0) ''limits.max_message_mb'' ''must be positive'' v1;
          v3 = refuse (MaxHeaders l \<le> 0) ''limits.max_headers'' ''must be positive'' v2;
          v4 = refuse (MaxHeaderBytes l \<le> 0) ''limits.max_header_bytes'' ''must be positive'' v3;
          v5 = (if DeliveryTimeoutSec l \<le> 0 then add_err ''limits.delivery_timeout_sec'' ''must be positive'' v4
                else refuse (limMaxMessageMB l > 0 \<and> DeliveryTimeoutSec l < limMaxMessageMB l + 30)
                       ''limits.delivery_timeout_sec'' ''is too small for limits.max_message_mb'' v4);
          v6 = (if SpoolMaxGB l < 0 then add_err ''limits.spool_max_gb'' ''must not be negative'' v5
                else refuse (SpoolMaxGB l > maxSpoolGB) ''limits.spool_max_gb'' ''is beyond any real filesystem'' v5);
          v7 = refuse (SpoolWarnPercent l < 0 \<or> SpoolWarnPercent l > 100) ''limits.spool_warn_percent'' ''must be between 0 and 100'' v6
      in refuse_each (\<lambda>cl. clMaxMessageMB cl > limMaxMessageMB l) ''client'' ''max_message_mb exceeds limits.max_message_mb'' (Clients c) v7)"

definition newValidator :: validator where
  "newValidator = \<lparr>errs = [], needsCert = False, anyPublic = False, clientNames = {}, routeNames = {}, v_defaults = 0\<rparr>"

text \<open>The settled configuration and everything wrong with it.\<close>

definition Validate :: "cfg_env \<Rightarrow> Config \<Rightarrow> Config \<times> (string \<times> string) list" where
  "Validate E c0 =
     (let c = Normalize (osHostname E) c0;
          v1 = v_service E c newValidator;
          v2 = v_listeners E c v1;
          v3 = v_tls E c v2;
          v4 = v_clients E c v3;
          v5 = v_routes E c v4;
          v6 = v_clientRoutes (Clients c) v5;
          v7 = v_queue c v6;
          v8 = v_web E c v7;
          v9 = v_metrics E c v8;
          v10 = v_history c v9;
          v11 = v_bounce c v10;
          v12 = v_canaries c v11
      in (c, errs (v_limits c v12)))"

section \<open>Reading a verdict\<close>

text \<open>
  A configuration is accepted when no section complained; \<open>no_errs\<close> turns the absence of
  complaints at the end of a chain of checks into the facts the checks established.
\<close>

named_theorems no_errs \<open>what an empty list of complaints says\<close>
named_theorems v_frame \<open>what a check leaves alone in the validator\<close>

lemma errs_add [no_errs]: "errs (add_err w m v) = [] \<longleftrightarrow> False"
  by (simp add: add_err_def)

lemma errs_refuse [no_errs]: "errs (refuse b w m v) = [] \<longleftrightarrow> \<not> b \<and> errs v = []"
  by (simp add: refuse_def errs_add)

lemma errs_refuse_each [no_errs]: "errs (refuse_each bad w m xs v) = [] \<longleftrightarrow> (\<forall>x \<in> set xs. \<not> bad x) \<and> errs v = []"
  by (induction xs arbitrary: v) (auto simp: errs_refuse)

lemma errs_upd [no_errs]:
  "errs (v\<lparr>needsCert := b\<rparr>) = errs v" "errs (v\<lparr>anyPublic := b\<rparr>) = errs v"
  "errs (v\<lparr>clientNames := s\<rparr>) = errs v" "errs (v\<lparr>routeNames := s\<rparr>) = errs v" "errs (v\<lparr>v_defaults := n\<rparr>) = errs v"
  by simp_all

lemma add_frame [v_frame]:
  "routeNames (add_err w m v) = routeNames v" "v_defaults (add_err w m v) = v_defaults v"
  "clientNames (add_err w m v) = clientNames v"
  by (simp_all add: add_err_def)

lemma refuse_frame [v_frame]:
  "routeNames (refuse b w m v) = routeNames v" "v_defaults (refuse b w m v) = v_defaults v"
  "clientNames (refuse b w m v) = clientNames v"
  by (simp_all add: refuse_def add_frame)

lemma refuse_each_frame [v_frame]:
  "routeNames (refuse_each bad w m xs v) = routeNames v" "v_defaults (refuse_each bad w m xs v) = v_defaults v"
  by (induction xs arbitrary: v) (simp_all add: refuse_frame)

lemma fold_overlaps [no_errs]:
  "errs (fold (\<lambda>o' v. refuse (Overlaps (fst o') p) w m v) es v) = [] \<longleftrightarrow>
    (\<forall>e \<in> set es. \<not> Overlaps (fst e) p) \<and> errs v = []"
  by (induction es arbitrary: v) (auto simp: errs_refuse)

lemma fold_overlaps_frame [v_frame]:
  "routeNames (fold (\<lambda>o' v. refuse (Overlaps (fst o') p) w m v) es v) = routeNames v"
  "v_defaults (fold (\<lambda>o' v. refuse (Overlaps (fst o') p) w m v) es v) = v_defaults v"
  by (induction es arbitrary: v) (simp_all add: refuse_frame)

text \<open>Every section only adds complaints.\<close>

lemma v_prefixes_grows: "v_prefixes E w n ss (cl, v) = (cl', v') \<Longrightarrow> errs v' = [] \<Longrightarrow> errs v = []"
proof (induction E w n ss "(cl, v)" arbitrary: cl v rule: v_prefixes.induct)
  case (2 E w n s ss cl v)
  then show ?case by (auto simp: no_errs split: option.splits if_splits)
qed simp

lemma v_prefixes_ok:
  "v_prefixes E w n ss (cl, v) = (cl', v') \<Longrightarrow> errs v' = [] \<Longrightarrow> disjoint_prefixes cl \<Longrightarrow>
    errs v = [] \<and> disjoint_prefixes cl' \<and>
    (\<exists>ps. map (ParsePrefix E) ss = map Some ps \<and> cl' = cl @ map (\<lambda>p. (p, n)) ps)"
proof (induction E w n ss "(cl, v)" arbitrary: cl v rule: v_prefixes.induct)
  case (2 E w n s ss cl v)
  show ?case
  proof (cases "ParsePrefix E s")
    case None
    then show ?thesis using 2(1) [OF None] 2(4-6) by (simp add: no_errs)
  next
    case (Some p)
    show ?thesis
    proof (cases "pfAddr p = pfAddr (Masked p)")
      case False
      then show ?thesis using 2(2) [OF Some] 2(4-6) Some by (simp add: no_errs)
    next
      case True
      let ?v = "fold (\<lambda>o' v. refuse (Overlaps (fst o') p) w ''overlaps: matching would be ambiguous'' v) cl v"
      have step: "v_prefixes E w n ss (cl @ [(p, n)], ?v) = (cl', v')" using 2(4) Some True by simp
      have errs: "errs ?v = []"
      proof (rule ccontr)
        assume "errs ?v \<noteq> []"
        then show False using step 2(5) v_prefixes_grows by blast
      qed
      then have d: "disjoint_prefixes (cl @ [(p, n)])" using 2(6) by (intro disjoint_snoc) (simp_all add: no_errs)
      from 2(3) [OF Some _ step 2(5) d] True obtain ps where
        "errs v = []" "disjoint_prefixes cl'" "map (ParsePrefix E) ss = map Some ps" "cl' = (cl @ [(p, n)]) @ map (\<lambda>p. (p, n)) ps"
        using errs by (auto simp: no_errs)
      then show ?thesis using Some by (intro conjI exI [of _ "p # ps"]) simp_all
    qed
  qed
qed simp

end
