(* ===== verification/Config_Accepted.thy ===== *)
theory Config_Accepted
  imports Config_Validate
begin

text \<open>
  What an accepted configuration guarantees to the code that runs on it: the matcher and the router
  are built without error and without ambiguity, every client's mail has a route that exists, no
  credential is configured for a clear-text route, and the numbers stay in range.
\<close>

section \<open>Sections that only complain\<close>

text \<open>
  \<open>later v v'\<close>: \<open>v'\<close> has every complaint \<open>v\<close> had, as far as having none is concerned. The rules
  follow the shape of the checks, bindings included, so that a section needs no unfolding.
\<close>

named_theorems later_intros \<open>how a check extends the list of complaints\<close>

definition later :: "validator \<Rightarrow> validator \<Rightarrow> bool" where
  "later v v' \<longleftrightarrow> (errs v' = [] \<longrightarrow> errs v = [])"

lemma laterD: "later v v' \<Longrightarrow> errs v' = [] \<Longrightarrow> errs v = []"
  by (simp add: later_def)

lemma later_refl [later_intros]: "later v v"
  by (simp add: later_def)

lemma later_refuse [later_intros]: "later v v' \<Longrightarrow> later v (refuse b w m v')"
  by (simp add: later_def errs_refuse)

lemma later_add [later_intros]: "later v (add_err w m v')"
  by (simp add: later_def errs_add)

lemma later_refuse_each [later_intros]: "later v v' \<Longrightarrow> later v (refuse_each bad w m xs v')"
  by (simp add: later_def errs_refuse_each)

lemma later_fold [later_intros]: "later v v' \<Longrightarrow> later v (fold (\<lambda>o' v. refuse (Overlaps (fst o') p) w m v) es v')"
  by (simp add: later_def fold_overlaps)

lemma later_upd [later_intros]:
  "later v v' \<Longrightarrow> later v (v'\<lparr>needsCert := b\<rparr>)" "later v v' \<Longrightarrow> later v (v'\<lparr>anyPublic := b\<rparr>)"
  "later v v' \<Longrightarrow> later v (v'\<lparr>clientNames := s\<rparr>)" "later v v' \<Longrightarrow> later v (v'\<lparr>routeNames := s\<rparr>)"
  "later v v' \<Longrightarrow> later v (v'\<lparr>v_defaults := n\<rparr>)"
  by (simp_all add: later_def errs_upd)

lemma later_if [later_intros]: "later v x \<Longrightarrow> later v y \<Longrightarrow> later v (if b then x else y)"
  by simp

lemma later_option [later_intros]: "later v x \<Longrightarrow> (\<And>a. later v (f a)) \<Longrightarrow> later v (case q of None \<Rightarrow> x | Some a \<Rightarrow> f a)"
  by (cases q) simp_all

lemma later_prod [later_intros]: "(\<And>a b. later v (f a b)) \<Longrightarrow> later v (case q of (a, b) \<Rightarrow> f a b)"
  by (cases q) simp

lemma later_bind [later_intros]: "later v t \<Longrightarrow> (\<And>x. later v x \<Longrightarrow> later v (f x)) \<Longrightarrow> later v (let x = t in f x)"
  by simp

lemma later_const: "(\<And>x. later v (f x)) \<Longrightarrow> later v (let x = t in f x)"
  by simp

text \<open>The same for a check that carries something beside the validator.\<close>

lemma later_snd [later_intros]: "later v b \<Longrightarrow> later v (snd (a, b))"
  by simp

lemma later_snd_if [later_intros]: "later v (snd x) \<Longrightarrow> later v (snd y) \<Longrightarrow> later v (snd (if b then x else y))"
  by simp

lemma later_snd_let [later_intros]:
  "later v t \<Longrightarrow> (\<And>x. later v x \<Longrightarrow> later v (snd (f x))) \<Longrightarrow> later v (snd (let x = t in f x))"
  by simp

lemma later_snd_pair [later_intros]:
  "later v (snd p) \<Longrightarrow> (\<And>a b. later v b \<Longrightarrow> later v (snd (f a b))) \<Longrightarrow> later v (snd (case p of (a, b) \<Rightarrow> f a b))"
  by (cases p) simp

lemma later_snd_letp [later_intros]:
  "later v (snd t) \<Longrightarrow> (\<And>x. later v (snd x) \<Longrightarrow> later v (snd (f x))) \<Longrightarrow> later v (snd (let x = t in f x))"
  by simp

lemma v_tokens_later: "later v v' \<Longrightarrow> later v (v_tokens i ts v')"
proof (induction ts arbitrary: i v')
  case (Cons t ts)
  have "later v (v_token (place ''web.token'' i (tkName t)) t v')"
    unfolding v_token_def by (intro later_intros Cons.prems | assumption)+
  then show ?case using Cons.IH by simp
qed simp

lemma v_canary_later: "later v v' \<Longrightarrow> later v (snd (v_canary w cn (names, v')))"
  unfolding v_canary_def prod.case Let_def [of "cnName cn"]
  by (intro later_intros | assumption)+

lemma v_canary_loop_later: "later v (snd acc) \<Longrightarrow> later v (v_canary_loop i cns acc)"
proof (induction cns arbitrary: i acc)
  case (Cons cn cns)
  then show ?case using v_canary_later by (cases acc) simp
qed simp

lemma v_canaries_later: "later v (v_canaries c v)"
  unfolding v_canaries_def by (intro v_canary_loop_later later_intros)

lemma v_client_notify_later: "later v v' \<Longrightarrow> later v (snd (v_client_notify cls (n, v')))"
  by (induction cls arbitrary: n v') (simp_all add: later_refuse_each)

lemma v_bounce_later: "later v (v_bounce c v)"
proof -
  obtain n v1 where v1: "v_client_notify (Clients c) (False, v) = (n, v1)" by fastforce
  have "later v v1" using v_client_notify_later [of v v "Clients c" False] v1 by (simp add: later_refl)
  then show ?thesis
    unfolding v_bounce_def Let_def [of "cBounce c"] v1 prod.case by (intro later_intros | assumption)+
qed

lemma v_history_later: "later v (v_history c v)"
  unfolding v_history_def by (intro later_intros)

lemma v_metrics_later: "later v (v_metrics E c v)"
  unfolding v_metrics_def Let_def [of "cMetrics c"] by (intro later_intros | assumption)+

lemma v_web_later: "later v (v_web E c v)"
  unfolding v_web_def Let_def [of "cWeb c"] by (intro v_tokens_later later_intros | assumption)+

lemma v_queue_ok: "errs (v_queue c v) = [] \<Longrightarrow>
    errs v = [] \<and> RetryScheduleMin (cQueue c) \<noteq> [] \<and> (\<forall>m \<in> set (RetryScheduleMin (cQueue c)). 0 < m) \<and>
    0 < MaxLifetimeHours (cQueue c)"
  by (auto simp: v_queue_def Let_def no_errs)

lemma v_limits_ok: "errs (v_limits c v) = [] \<Longrightarrow>
    errs v = [] \<and> 0 \<le> SpoolMaxGB (cLimits c) \<and> SpoolMaxGB (cLimits c) \<le> 2 ^ 30 \<and>
    0 < limMaxMessageMB (cLimits c) \<and> (\<forall>cl \<in> set (Clients c). clMaxMessageMB cl \<le> limMaxMessageMB (cLimits c))"
  by (auto simp: v_limits_def Let_def no_errs maxSpoolGB_def split: if_split_asm)

section \<open>The clients\<close>

lemma v_prefixes_later: "later v v' \<Longrightarrow> later v (snd (v_prefixes E w n ss (cl, v')))"
  by (cases "v_prefixes E w n ss (cl, v')") (auto simp: later_def dest: v_prefixes_grows)

lemma v_clientRewrite_later: "later v v' \<Longrightarrow> later v (v_clientRewrite cl w v')"
  unfolding v_clientRewrite_def Let_def [of "clRewrite cl"] Let_def [of "TrimSpace q" for q]
  by (intro later_intros | assumption)+

lemma v_client_later: "later v v' \<Longrightarrow> later v (snd (v_client E w cl (claimed, v')))"
  unfolding v_client_def prod.case Let_def [of "clName cl"]
  by (intro v_prefixes_later v_clientRewrite_later later_intros | assumption)+

lemma v_client_loop_later: "later v (snd acc) \<Longrightarrow> later v (snd (v_client_loop E i cls acc))"
proof (induction cls arbitrary: i acc)
  case (Cons cl cls)
  then show ?case using v_client_later by (cases acc) simp
qed simp

lemma v_client_ok:
  assumes "v_client E w cl (claimed, v) = (claimed', v')" "errs v' = []" "disjoint_prefixes claimed"
  shows "disjoint_prefixes claimed' \<and> CIDR cl \<noteq> [] \<and>
    (\<exists>ps. map (ParsePrefix E) (CIDR cl) = map Some ps \<and> claimed' = claimed @ map (\<lambda>p. (p, clName cl)) ps)"
proof -
  define v1 where "v1 = (if \<not> ValidName (clName cl) then add_err w bad_name v
                else if clName cl \<in> clientNames v then add_err w ''duplicate client name'' v
                else refuse (reservedName (clName cl)) w ''name is reserved'' v)"
  define v3 where "v3 = refuse (CIDR cl = []) w ''at least one cidr is required'' (v1\<lparr>clientNames := insert (clName cl) (clientNames v1)\<rparr>)"
  obtain cl4 v4 where p: "v_prefixes E w (clName cl) (CIDR cl) (claimed, v3) = (cl4, v4)" by fastforce
  have c: "claimed' = cl4" and e: "errs (v_clientRewrite cl w v4) = []"
    using assms(1,2) unfolding v_client_def Let_def prod.case v1_def [symmetric] v3_def [symmetric] p
    by (auto simp: no_errs)
  have "errs v4 = []" using laterD [OF v_clientRewrite_later [OF later_refl] e] .
  from v_prefixes_ok [OF p this assms(3)] c
  show ?thesis by (simp add: v3_def no_errs)
qed

text \<open>The matcher the listener builds holds exactly the prefixes the validator saw.\<close>

lemma client_entries_map:
  "map parse ss = map Some ps \<Longrightarrow> client_entries parse cl ss = Some (map (\<lambda>p. (Masked p, cl)) ps)"
  by (induction ss arbitrary: ps) auto

lemma v_client_loop_ok:
  "v_client_loop E i cls (claimed, v) = (claimed', v') \<Longrightarrow> errs v' = [] \<Longrightarrow> disjoint_prefixes claimed \<Longrightarrow>
   disjoint_prefixes claimed' \<and> (\<forall>cl \<in> set cls. CIDR cl \<noteq> []) \<and>
   (\<exists>m. NewMatcher (ParsePrefix E) cls = Some m \<and>
        map (\<lambda>e. Masked (fst e)) claimed' = map (\<lambda>e. Masked (fst e)) claimed @ map fst m)"
proof (induction cls arbitrary: i claimed v)
  case (Cons cl cls)
  obtain cl1 v1 where s: "v_client E (place ''client'' i (clName cl)) cl (claimed, v) = (cl1, v1)" by fastforce
  have r: "v_client_loop E (i + 1) cls (cl1, v1) = (claimed', v')" using Cons.prems(1) s by simp
  have "errs v1 = []"
    using laterD [OF v_client_loop_later [OF later_snd [OF later_refl]]] r Cons.prems(2) by (metis snd_conv)
  note one = v_client_ok [OF s this Cons.prems(3)]
  obtain ps where ps: "map (ParsePrefix E) (CIDR cl) = map Some ps" "cl1 = claimed @ map (\<lambda>p. (p, clName cl)) ps"
    using one by blast
  from Cons.IH [OF r Cons.prems(2)] one obtain m where
    m: "NewMatcher (ParsePrefix E) cls = Some m"
       "map (\<lambda>e. Masked (fst e)) claimed' = map (\<lambda>e. Masked (fst e)) cl1 @ map fst m" by blast
  have "NewMatcher (ParsePrefix E) (cl # cls) = Some (map (\<lambda>p. (Masked p, cl)) ps @ m)"
    using client_entries_map [OF ps(1)] m(1) by simp
  moreover have "map (\<lambda>e. Masked (fst e)) claimed' =
      map (\<lambda>e. Masked (fst e)) claimed @ map fst (map (\<lambda>p. (Masked p, cl)) ps @ m)"
    using m(2) ps(2) by (simp add: comp_def)
  ultimately show ?case using Cons.IH [OF r Cons.prems(2)] one by auto
qed simp

lemma v_client_loop_rewrites:
  "errs (snd (v_client_loop E i cls acc)) = [] \<Longrightarrow> \<forall>cl \<in> set cls. \<exists>w v. errs (v_clientRewrite cl w v) = []"
proof (induction cls arbitrary: i acc)
  case (Cons cl cls)
  obtain claimed v where a: "acc = (claimed, v)" by fastforce
  let ?w = "place ''client'' i (clName cl)"
  have rest: "errs (snd (v_client_loop E (i + 1) cls (v_client E ?w cl acc))) = []" using Cons.prems by simp
  then have "errs (snd (v_client E ?w cl (claimed, v))) = []"
    using laterD [OF v_client_loop_later [OF later_refl]] a by blast
  then have "\<exists>w v. errs (v_clientRewrite cl w v) = []"
    unfolding v_client_def prod.case Let_def by (auto simp: no_errs split: prod.splits)
  then show ?case using Cons.IH [OF rest] by simp
qed simp

lemma disjoint_prefixes_map:
  assumes "map (\<lambda>e. Masked (fst e)) es = map fst fs" "disjoint_prefixes es"
  shows "disjoint_prefixes fs"
  unfolding disjoint_prefixes_def
proof (intro allI impI)
  fix i j :: nat assume ij: "i < j" "j < length fs"
  have l: "length es = length fs" using assms(1) by (metis length_map)
  have "fst (fs ! k) = Masked (fst (es ! k))" if "k < length fs" for k
    using arg_cong [OF assms(1), of "\<lambda>xs. xs ! k"] that l by simp
  then have "fst (fs ! i) = Masked (fst (es ! i))" "fst (fs ! j) = Masked (fst (es ! j))" using ij by simp_all
  then show "\<not> Overlaps (fst (fs ! i)) (fst (fs ! j))"
    using assms(2) ij l by (simp add: disjoint_prefixes_def)
qed

lemma v_clients_ok:
  assumes "errs (v_clients E c v) = []"
  shows "Clients c \<noteq> [] \<and> (\<forall>cl \<in> set (Clients c). CIDR cl \<noteq> []) \<and>
    (\<exists>m. NewMatcher (ParsePrefix E) (Clients c) = Some m \<and> disjoint_prefixes m)"
    and "\<forall>cl \<in> set (Clients c). \<exists>w v. errs (v_clientRewrite cl w v) = []"
proof -
  let ?v = "if Clients c = [] then
      (if anyPublic v then add_err ''client'' ''no client but a public listener: this would be an open relay'' v
       else add_err ''client'' ''at least one is required'' v) else v"
  obtain claimed v' where l: "v_client_loop E 0 (Clients c) ([], ?v) = (claimed, v')" by fastforce
  then have e: "errs v' = []" using assms unfolding v_clients_def by simp
  have "errs ?v = []" using laterD [OF v_client_loop_later [OF later_snd [OF later_refl]]] l e by (metis snd_conv)
  then have ne: "Clients c \<noteq> []" by (auto simp: no_errs split: if_split_asm)
  from v_client_loop_ok [OF l e] show "Clients c \<noteq> [] \<and> (\<forall>cl \<in> set (Clients c). CIDR cl \<noteq> []) \<and>
    (\<exists>m. NewMatcher (ParsePrefix E) (Clients c) = Some m \<and> disjoint_prefixes m)"
    using ne disjoint_prefixes_map [of claimed] by (fastforce simp: disjoint_prefixes_def)
  show "\<forall>cl \<in> set (Clients c). \<exists>w v. errs (v_clientRewrite cl w v) = []"
    by (rule v_client_loop_rewrites [of E 0 _ "([], ?v)"]) (simp add: l e)
qed

section \<open>The routes\<close>

lemma v_prefixes_frame [v_frame]:
  "routeNames (snd (v_prefixes E w n ss acc)) = routeNames (snd acc)"
  "v_defaults (snd (v_prefixes E w n ss acc)) = v_defaults (snd acc)"
  by (induction E w n ss acc rule: v_prefixes.induct) (simp_all add: v_frame split: option.split)

lemma v_routeDomains_frame [v_frame]:
  "routeNames (snd (v_routeDomains w n ds acc)) = routeNames (snd acc)"
  "v_defaults (snd (v_routeDomains w n ds acc)) = v_defaults (snd acc)"
  by (induction w n ds acc rule: v_routeDomains.induct) (simp_all add: v_frame split: option.split)

lemma v_routeTLS_frame [v_frame]:
  "routeNames (v_routeTLS r w v) = routeNames v" "v_defaults (v_routeTLS r w v) = v_defaults v"
  by (simp_all add: v_routeTLS_def Let_def v_frame split: option.split)

lemma v_routeAuth_frame [v_frame]:
  "routeNames (v_routeAuth E r w v) = routeNames v" "v_defaults (v_routeAuth E r w v) = v_defaults v"
  by (simp_all add: v_routeAuth_def Let_def v_frame)

lemma v_routeCAPin_frame [v_frame]:
  "routeNames (v_routeCAPin r w v) = routeNames v" "v_defaults (v_routeCAPin r w v) = v_defaults v"
  by (simp_all add: v_routeCAPin_def v_frame split: option.split)

lemma v_routeIdentity_frame [v_frame]:
  "routeNames (v_routeIdentity r w v) = insert (rName r) (routeNames v)"
  "v_defaults (v_routeIdentity r w v) = v_defaults v + (if Default r then 1 else 0)"
  by (simp_all add: v_routeIdentity_def Let_def v_frame)

lemma v_routeIdentity_ok: "errs (v_routeIdentity r w v) = [] \<Longrightarrow>
    errs v = [] \<and> ValidName (rName r) \<and> rName r \<notin> routeNames v \<and> Host r \<noteq> [] \<and> 1 \<le> Port r \<and> Port r \<le> 65535"
  by (simp add: v_routeIdentity_def Let_def no_errs v_frame split: if_split_asm)

text \<open>What every accepted route satisfies about its credentials.\<close>

definition route_secure :: "Route \<Rightarrow> bool" where
  "route_secure r \<longleftrightarrow>
     (if rTLS r = TLSNone then Auth r = AuthNone
      else (rTLS r = TLSStartTLS \<or> rTLS r = TLSImplicit) \<and>
        (\<exists>ver. ParseTLSVersion (rMinTLS r) = Some ver \<and> VersionTLS12 \<le> ver))"

lemma v_routeAuth_ok: "errs (v_routeAuth E r w v) = [] \<Longrightarrow> errs v = [] \<and> Auth r \<noteq> []"
  by (auto simp: v_routeAuth_def Let_def no_errs auth_words split: if_split_asm)

lemma v_routeAuth_later: "later v v' \<Longrightarrow> later v (v_routeAuth E r w v')"
  unfolding later_def using v_routeAuth_ok by blast

lemma v_routeTLS_ok: "errs (v_routeTLS r w v) = [] \<Longrightarrow> Auth r \<noteq> [] \<Longrightarrow> errs v = [] \<and> route_secure r"
  by (auto simp: v_routeTLS_def Let_def no_errs route_secure_def split: if_split_asm option.split_asm)

lemma v_routeCAPin_later: "later v v' \<Longrightarrow> later v (v_routeCAPin r w v')"
  unfolding v_routeCAPin_def by (intro later_intros | assumption)+

lemma v_routeTLS_later: "later v v' \<Longrightarrow> later v (v_routeTLS r w v')"
  unfolding v_routeTLS_def by (intro later_intros | assumption)+

lemma v_routeIdentity_later: "later v v' \<Longrightarrow> later v (v_routeIdentity r w v')"
  unfolding v_routeIdentity_def by (intro later_intros | assumption)+

lemma v_routeDomains_later: "later v (snd acc) \<Longrightarrow> later v (snd (v_routeDomains w n ds acc))"
  by (induction w n ds acc rule: v_routeDomains.induct) (simp_all add: later_add split: option.split)

lemma v_routeDomains_ok:
  "v_routeDomains w n ds (owner, v) = (owner', v') \<Longrightarrow> errs v' = [] \<Longrightarrow> \<forall>d \<in> set ds. ToLower (TrimSpace d) = d \<Longrightarrow>
   byDomain r = owner \<Longrightarrow> add_domains n ds r = Inr (r\<lparr>byDomain := owner'\<rparr>) \<and> ran owner' \<subseteq> insert n (ran owner)"
proof (induction ds arbitrary: owner v r)
  case (Cons d ds)
  have bad: "\<not> errs v' = []" if "v_routeDomains w n ds (owner, add_err w m u) = (owner', v')" for m u
    using v_routeDomains_later [of "add_err w m u" "(owner, add_err w m u)" w n ds] that
    by (auto simp: later_def errs_add)
  have v: "ValidDomain d" "owner d = None"
    using Cons.prems(1,2) bad by (auto split: if_split_asm option.split_asm)
  have "d \<noteq> []" using v(1) by (auto simp: ValidDomain_def)
  have step: "v_routeDomains w n ds (owner(d \<mapsto> n), v) = (owner', v')" using Cons.prems(1) v by simp
  have new: "ran (owner(d \<mapsto> n)) \<subseteq> insert n (ran owner)" by (auto simp: ran_def split: if_split_asm)
  from Cons.IH [OF step Cons.prems(2), of "r\<lparr>byDomain := (byDomain r)(d \<mapsto> n)\<rparr>"] Cons.prems(3,4)
  have "add_domains n ds (r\<lparr>byDomain := (byDomain r)(d \<mapsto> n)\<rparr>) = Inr (r\<lparr>byDomain := owner'\<rparr>)"
    "ran owner' \<subseteq> insert n (ran (owner(d \<mapsto> n)))" by (auto simp del: fun_upd_apply)
  then show ?case using new v \<open>d \<noteq> []\<close> Cons.prems(3,4) by (auto simp: Let_def simp del: fun_upd_apply)
qed auto

definition masked_entries :: "(ip_prefix \<times> 'a) list \<Rightarrow> (ip_prefix \<times> 'a) list" where
  "masked_entries es = map (\<lambda>(p, n). (Masked p, n)) es"

lemma add_sources_ok:
  "map parse ss = map Some ps \<Longrightarrow> disjoint_prefixes (es @ map (\<lambda>p. (p, n)) ps) \<Longrightarrow> rSources r = masked_entries es \<Longrightarrow>
   add_sources parse n ss r = Inr (r\<lparr>rSources := masked_entries (es @ map (\<lambda>p. (p, n)) ps)\<rparr>)"
proof (induction ss arbitrary: ps es r)
  case (Cons s ss)
  obtain p ps' where ps: "ps = p # ps'" "parse s = Some p" "map parse ss = map Some ps'" using Cons.prems(1) by auto
  have "\<not> Overlaps (fst e) p" if "e \<in> set es" for e
  proof -
    obtain k where k: "k < length es" "e = es ! k" using \<open>e \<in> set es\<close> by (auto simp: in_set_conv_nth)
    then show ?thesis
      using Cons.prems(2) [unfolded disjoint_prefixes_def ps(1), rule_format, of k "length es"] by (simp add: nth_append)
  qed
  then have f: "find (\<lambda>o'. Overlaps (fst o') (Masked p)) (rSources r) = None"
    by (auto simp: Cons.prems(3) masked_entries_def find_None_iff)
  have "disjoint_prefixes ((es @ [(p, n)]) @ map (\<lambda>p. (p, n)) ps')" using Cons.prems(2) ps(1) by simp
  from Cons.IH [OF ps(3) this, of "r\<lparr>rSources := rSources r @ [(Masked p, n)]\<rparr>"] Cons.prems(3)
  show ?case using ps f by (simp add: masked_entries_def)
qed (simp add: masked_entries_def)

text \<open>The router after some routes, against what the validator has seen of them.\<close>

definition route_sim :: "route_state \<Rightarrow> router \<Rightarrow> bool" where
  "route_sim st r = (case st of (owner, claimed, v) \<Rightarrow>
     byDomain r = owner \<and> rSources r = masked_entries claimed \<and> disjoint_prefixes claimed \<and>
     (rDef r = [] \<longleftrightarrow> v_defaults v = 0) \<and> ran owner \<subseteq> routeNames v \<and> snd ` set claimed \<subseteq> routeNames v \<and>
     (rDef r \<noteq> [] \<longrightarrow> rDef r \<in> routeNames v))"

lemma v_route_later: "later v (snd (snd acc)) \<Longrightarrow> later v (snd (snd (v_route E w r acc)))"
proof -
  assume l: "later v (snd (snd acc))"
  obtain owner claimed v0 where a: "acc = (owner, claimed, v0)" by (cases acc)
  let ?v2 = "refuse (rRateLimitPerMin r < 0) w ''rate_limit_per_min must not be negative''
    (v_routeCAPin r w (v_routeAuth E r w (v_routeTLS r w (v_routeIdentity r w v0))))"
  have l2: "later v ?v2"
    using l a by (intro later_refuse v_routeCAPin_later v_routeAuth_later v_routeTLS_later v_routeIdentity_later) simp
  obtain o' v3 where d: "v_routeDomains w (rName r) (Domains r) (owner, ?v2) = (o', v3)" by fastforce
  have "later v v3" using v_routeDomains_later [of v "(owner, ?v2)" w "rName r" "Domains r"] l2 d by simp
  then have "later v (snd (v_prefixes E w (rName r) (Sources r) (claimed, v3)))" by (rule v_prefixes_later)
  then show ?thesis unfolding v_route_def Let_def a prod.case d by (simp split: prod.split)
qed

lemma v_route_loop_later: "later v (snd (snd acc)) \<Longrightarrow> later v (snd (snd (v_route_loop E i rs acc)))"
proof (induction rs arbitrary: i acc)
  case (Cons r rs)
  then show ?case using v_route_later by (cases acc) simp
qed simp

lemma v_route_ok:
  assumes r: "v_route E w rt (owner, claimed, v) = (owner', claimed', v')" and e: "errs v' = []"
    and norm: "\<forall>d \<in> set (Domains rt). ToLower (TrimSpace d) = d"
    and sim: "route_sim (owner, claimed, v) r"
  shows "route_secure rt \<and> routeNames v' = insert (rName rt) (routeNames v) \<and>
    v_defaults v' = v_defaults v + (if Default rt then 1 else 0) \<and>
    (\<exists>r2. (case add_domains (rName rt) (Domains rt) r of Inl x \<Rightarrow> Inl x | Inr r1 \<Rightarrow> add_sources (ParsePrefix E) (rName rt) (Sources rt) r1) = Inr r2 \<and>
       rDef r2 = rDef r \<and>
       (Default rt \<longrightarrow> v_defaults v = 0 \<longrightarrow> route_sim (owner', claimed', v') (r2\<lparr>rDef := rName rt\<rparr>)) \<and>
       (\<not> Default rt \<longrightarrow> route_sim (owner', claimed', v') r2))"
proof -
  let ?i = "v_routeIdentity rt w v"
  let ?v2 = "refuse (rRateLimitPerMin rt < 0) w ''rate_limit_per_min must not be negative''
    (v_routeCAPin rt w (v_routeAuth E rt w (v_routeTLS rt w ?i)))"
  obtain o1 v3 where d: "v_routeDomains w (rName rt) (Domains rt) (owner, ?v2) = (o1, v3)" by fastforce
  have p: "v_prefixes E w (rName rt) (Sources rt) (claimed, v3) = (claimed', v')" and o: "o1 = owner'"
    using r unfolding v_route_def Let_def prod.case d by (simp_all split: prod.split_asm)
  have dj: "disjoint_prefixes claimed" using sim by (simp add: route_sim_def)
  from v_prefixes_ok [OF p e dj] obtain ps where
    e3: "errs v3 = []" and dj': "disjoint_prefixes claimed'"
    and ps: "map (ParsePrefix E) (Sources rt) = map Some ps" "claimed' = claimed @ map (\<lambda>p. (p, rName rt)) ps" by blast
  have "errs ?v2 = []"
    using laterD [OF v_routeDomains_later [of ?v2 "(owner, ?v2)" w "rName rt" "Domains rt"]] d e3 by (simp add: later_refl)
  then have "errs (v_routeAuth E rt w (v_routeTLS rt w ?i)) = []"
    unfolding errs_refuse using laterD [OF v_routeCAPin_later [OF later_refl]] by blast
  then have t: "errs (v_routeTLS rt w ?i) = []" "Auth rt \<noteq> []" using v_routeAuth_ok by blast+
  then have sec: "route_secure rt" and i: "errs ?i = []" using v_routeTLS_ok by blast+
  have vn: "rName rt \<noteq> []" using v_routeIdentity_ok [OF i] by (auto simp: ValidName_def)
  have names: "routeNames v' = insert (rName rt) (routeNames v)"
    "v_defaults v' = v_defaults v + (if Default rt then 1 else 0)"
    using v_prefixes_frame [of E w "rName rt" "Sources rt" "(claimed, v3)"]
      v_routeDomains_frame [of w "rName rt" "Domains rt" "(owner, ?v2)"] p d by (simp_all add: v_frame)
  from v_routeDomains_ok [OF d e3 norm, of r] sim o
  have ad: "add_domains (rName rt) (Domains rt) r = Inr (r\<lparr>byDomain := owner'\<rparr>)" "ran owner' \<subseteq> insert (rName rt) (ran owner)"
    by (auto simp: route_sim_def)
  have as: "add_sources (ParsePrefix E) (rName rt) (Sources rt) (r\<lparr>byDomain := owner'\<rparr>) =
      Inr (r\<lparr>byDomain := owner', rSources := masked_entries claimed'\<rparr>)"
    using add_sources_ok [OF ps(1), of claimed "rName rt" "r\<lparr>byDomain := owner'\<rparr>"] dj' ps(2) sim
    by (simp add: route_sim_def)
  have own: "ran owner' \<subseteq> routeNames v'" "snd ` set claimed' \<subseteq> routeNames v'"
    using ad(2) ps(2) names(1) sim by (auto simp: route_sim_def)
  show ?thesis
    using sec names ad(1) as own dj' sim vn by (auto simp: route_sim_def)
qed

lemma v_route_defaults: "v_defaults (snd (snd acc)) \<le> v_defaults (snd (snd (v_route E w x acc)))"
proof -
  obtain owner claimed v where a: "acc = (owner, claimed, v)" by (cases acc)
  let ?v2 = "refuse (rRateLimitPerMin x < 0) w ''rate_limit_per_min must not be negative''
    (v_routeCAPin x w (v_routeAuth E x w (v_routeTLS x w (v_routeIdentity x w v))))"
  obtain o1 v3 where d: "v_routeDomains w (rName x) (Domains x) (owner, ?v2) = (o1, v3)" by fastforce
  have "v_defaults v3 = v_defaults ?v2"
    using v_routeDomains_frame(2) [of w "rName x" "Domains x" "(owner, ?v2)"] d by simp
  moreover have "v_defaults (snd (v_prefixes E w (rName x) (Sources x) (claimed, v3))) = v_defaults v3"
    using v_prefixes_frame(2) [of E w "rName x" "Sources x" "(claimed, v3)"] by simp
  moreover have "snd (snd (v_route E w x acc)) = snd (v_prefixes E w (rName x) (Sources x) (claimed, v3))"
    unfolding v_route_def Let_def a prod.case d by (simp split: prod.split)
  ultimately show ?thesis by (simp add: a v_frame)
qed

lemma v_route_loop_ok:
  "v_route_loop E i rts (owner, claimed, v) = (owner', claimed', v') \<Longrightarrow> errs v' = [] \<Longrightarrow> v_defaults v' \<le> 1 \<Longrightarrow>
   \<forall>rt \<in> set rts. \<forall>d \<in> set (Domains rt). ToLower (TrimSpace d) = d \<Longrightarrow> route_sim (owner, claimed, v) r \<Longrightarrow>
   \<exists>r'. add_routes (ParsePrefix E) rts r = Inr r' \<and> route_sim (owner', claimed', v') r' \<and>
     (\<forall>rt \<in> set rts. route_secure rt) \<and> routeNames v' = routeNames v \<union> rName ` set rts \<and> v_defaults v \<le> v_defaults v'"
proof (induction rts arbitrary: i owner claimed v r)
  case (Cons rt rts)
  obtain o1 c1 v1 where s: "v_route E (place ''route'' i (rName rt)) rt (owner, claimed, v) = (o1, c1, v1)"
    by (cases "v_route E (place ''route'' i (rName rt)) rt (owner, claimed, v)") auto
  have l: "v_route_loop E (i + 1) rts (o1, c1, v1) = (owner', claimed', v')" using Cons.prems(1) s by simp
  have e1: "errs v1 = []"
    using laterD [OF v_route_loop_later [of v1 "(o1, c1, v1)" E "i + 1" rts]] l Cons.prems(2) by (simp add: later_refl)
  from v_route_ok [OF s e1 _ Cons.prems(5)] Cons.prems(4) obtain r2 where
    sec: "route_secure rt" and n: "routeNames v1 = insert (rName rt) (routeNames v)"
    and df: "v_defaults v1 = v_defaults v + (if Default rt then 1 else 0)"
    and r2: "(case add_domains (rName rt) (Domains rt) r of Inl x \<Rightarrow> Inl x
              | Inr r1 \<Rightarrow> add_sources (ParsePrefix E) (rName rt) (Sources rt) r1) = Inr r2" "rDef r2 = rDef r"
    and d: "Default rt \<Longrightarrow> v_defaults v = 0 \<Longrightarrow> route_sim (o1, c1, v1) (r2\<lparr>rDef := rName rt\<rparr>)"
    and nd: "\<not> Default rt \<Longrightarrow> route_sim (o1, c1, v1) r2" by auto
  have step: "add_routes (ParsePrefix E) (rt # rts) r =
      (if Default rt then (if rDef r \<noteq> [] then Inl (TwoDefaults (rDef r2) (rName rt))
                           else add_routes (ParsePrefix E) rts (r2\<lparr>rDef := rName rt\<rparr>))
       else add_routes (ParsePrefix E) rts r2)"
    using r2 by (auto split: sum.splits)
  have norm: "\<forall>rt \<in> set rts. \<forall>d \<in> set (Domains rt). ToLower (TrimSpace d) = d" using Cons.prems(4) by simp
  have mono: "v_defaults v1 \<le> v_defaults v'"
  proof -
    have "v_defaults (snd (snd acc)) \<le> v_defaults (snd (snd (v_route_loop E k rts acc)))" for k acc
    proof (induction rts arbitrary: k acc)
      case (Cons x xs)
      show ?case
        using order_trans [OF v_route_defaults [of acc E "place ''route'' k (rName x)" x]
            Cons.IH [of "v_route E (place ''route'' k (rName x)) x acc" "k + 1"]] by simp
    qed simp
    from this [of "(o1, c1, v1)" "i + 1"] l show ?thesis by simp
  qed
  show ?case
  proof (cases "Default rt")
    case True
    then have z: "v_defaults v = 0" using df mono Cons.prems(3) by simp
    then have "rDef r = []" using Cons.prems(5) by (simp add: route_sim_def)
    then show ?thesis
      using Cons.IH [OF l Cons.prems(2,3) norm d [OF True z]] step True sec n df by auto
  next
    case False
    then show ?thesis using Cons.IH [OF l Cons.prems(2,3) norm nd [OF False]] step sec n df by auto
  qed
qed auto

lemma snd_masked: "snd ` set (masked_entries es) = snd ` set es"
  by (simp add: masked_entries_def image_image split_def)

lemma v_routes_ok:
  assumes e: "errs (v_routes E c v) = []" and v: "routeNames v = {}" "v_defaults v = 0"
    and norm: "\<forall>rt \<in> set (Routes c). \<forall>d \<in> set (Domains rt). ToLower (TrimSpace d) = d"
  shows "errs v = [] \<and> Routes c \<noteq> [] \<and> (\<forall>rt \<in> set (Routes c). route_secure rt) \<and>
    routeNames (v_routes E c v) = rName ` set (Routes c) \<and>
    (\<exists>r. New_router (ParsePrefix E) (Routes c) = Inr r \<and>
       (rDef r = [] \<longleftrightarrow> v_defaults (v_routes E c v) = 0) \<and> ran (byDomain r) \<subseteq> rName ` set (Routes c) \<and>
       snd ` set (rSources r) \<subseteq> rName ` set (Routes c) \<and> (rDef r \<noteq> [] \<longrightarrow> rDef r \<in> rName ` set (Routes c)))"
proof -
  obtain o1 c1 v1 where l: "v_route_loop E 0 (Routes c) (Map.empty, [], v) = (o1, c1, v1)"
    by (cases "v_route_loop E 0 (Routes c) (Map.empty, [], v)") auto
  have out: "v_routes E c v = refuse (v_defaults v1 > 1) ''route'' ''more than one route is marked default''
      (refuse (Routes c = []) ''route'' ''at least one is required'' v1)"
    by (simp add: v_routes_def Let_def l v_frame)
  have e1: "errs v1 = []" "Routes c \<noteq> []" "v_defaults v1 \<le> 1" using e unfolding out by (auto simp: no_errs)
  have z: "errs v = []"
    using laterD [OF v_route_loop_later [of v "(Map.empty, [], v)" E 0 "Routes c"]] l e1(1) by (simp add: later_refl)
  have "route_sim (Map.empty, [], v) \<lparr>byDomain = Map.empty, rSources = [], rDef = []\<rparr>"
    using v by (simp add: route_sim_def masked_entries_def disjoint_prefixes_def)
  from v_route_loop_ok [OF l e1(1,3) norm this] obtain r where
    r: "New_router (ParsePrefix E) (Routes c) = Inr r" "route_sim (o1, c1, v1) r"
       "\<forall>rt \<in> set (Routes c). route_secure rt" "routeNames v1 = rName ` set (Routes c)"
    using v by (auto simp: New_router_def)
  have "snd ` set (rSources r) = snd ` set c1"
    using r(2) by (simp add: route_sim_def snd_masked)
  moreover have "rDef r = [] \<longleftrightarrow> v_defaults v1 = 0" "ran (byDomain r) \<subseteq> routeNames v1" "snd ` set c1 \<subseteq> routeNames v1"
    "rDef r \<noteq> [] \<longrightarrow> rDef r \<in> routeNames v1"
    using r(2) by (simp_all add: route_sim_def)
  moreover have "routeNames (v_routes E c v) = routeNames v1" "v_defaults (v_routes E c v) = v_defaults v1"
    unfolding out by (simp_all add: v_frame)
  ultimately show ?thesis
    unfolding r(4) by (intro conjI exI [of _ r] z e1(2) r(1,3)) simp_all
qed

section \<open>Accepted configurations\<close>

lemma v_clientRoutes_ok:
  "errs (v_clientRoutes cls v) = [] \<Longrightarrow>
    errs v = [] \<and> (\<forall>cl \<in> set cls. if clRoute cl = [] then v_defaults v \<noteq> 0 else clRoute cl \<in> routeNames v)"
proof (induction cls arbitrary: v)
  case (Cons cl cls)
  let ?v = "if clRoute cl = [] then refuse (v_defaults v = 0) (clName cl) ''has no route and no default route exists'' v
        else refuse (clRoute cl \<notin> routeNames v) (clName cl) ''references unknown route'' v"
  have f: "v_defaults ?v = v_defaults v" "routeNames ?v = routeNames v" by (simp_all add: v_frame)
  have "errs ?v = []" "\<forall>cl \<in> set cls. if clRoute cl = [] then v_defaults v \<noteq> 0 else clRoute cl \<in> routeNames v"
    using Cons.IH [of ?v] Cons.prems unfolding f by (metis v_clientRoutes.simps(2))+
  then show ?case by (auto simp: no_errs split: if_split_asm)
qed simp

lemma v_listener_loop_frame: "routeNames (v_listener_loop E i ls acc) = routeNames (snd acc) \<and>
    v_defaults (v_listener_loop E i ls acc) = v_defaults (snd acc)"
proof (induction ls arbitrary: i acc)
  case (Cons l ls)
  have "routeNames (snd (v_listener E w l acc)) = routeNames (snd acc) \<and> v_defaults (snd (v_listener E w l acc)) = v_defaults (snd acc)" for w
    by (cases acc) (simp add: v_listener_def Let_def v_frame split: option.split prod.split)
  then show ?case using Cons.IH by simp
qed simp

lemma v_clientRewrite_frame: "routeNames (v_clientRewrite cl w v) = routeNames v \<and> v_defaults (v_clientRewrite cl w v) = v_defaults v"
  by (simp add: v_clientRewrite_def Let_def v_frame split: option.split prod.split)

lemma v_client_loop_frame: "routeNames (snd (v_client_loop E i cls acc)) = routeNames (snd acc) \<and>
    v_defaults (snd (v_client_loop E i cls acc)) = v_defaults (snd acc)"
proof (induction cls arbitrary: i acc)
  case (Cons cl cls)
  have "routeNames (snd (v_client E w cl acc)) = routeNames (snd acc) \<and> v_defaults (snd (v_client E w cl acc)) = v_defaults (snd acc)" for w
  proof -
    obtain claimed v where a: "acc = (claimed, v)" by fastforce
    define v1 where "v1 = (if \<not> ValidName (clName cl) then add_err w bad_name v
                else if clName cl \<in> clientNames v then add_err w ''duplicate client name'' v
                else refuse (reservedName (clName cl)) w ''name is reserved'' v)"
    define v3 where "v3 = refuse (CIDR cl = []) w ''at least one cidr is required'' (v1\<lparr>clientNames := insert (clName cl) (clientNames v1)\<rparr>)"
    have 3: "routeNames v3 = routeNames v" "v_defaults v3 = v_defaults v" by (simp_all add: v3_def v1_def v_frame)
    obtain c4 v4 where p: "v_prefixes E w (clName cl) (CIDR cl) (claimed, v3) = (c4, v4)" by fastforce
    have 4: "routeNames v4 = routeNames v3" "v_defaults v4 = v_defaults v3"
      using v_prefixes_frame [of E w "clName cl" "CIDR cl" "(claimed, v3)"] p by simp_all
    show ?thesis
      unfolding a v_client_def prod.case Let_def v1_def [symmetric] v3_def [symmetric] p
      by (simp add: v_frame v_clientRewrite_frame 3 4)
  qed
  then show ?case using Cons.IH by simp
qed simp

lemma early_frame:
  "routeNames (v_clients E c (v_tls E c (v_listeners E c (v_service E c newValidator)))) = {}"
  "v_defaults (v_clients E c (v_tls E c (v_listeners E c (v_service E c newValidator)))) = 0"
proof -
  have s: "routeNames (v_service E c newValidator) = {} \<and> v_defaults (v_service E c newValidator) = 0"
    by (simp add: v_service_def Let_def v_frame newValidator_def)
  have l: "routeNames (v_listeners E c v) = routeNames v \<and> v_defaults (v_listeners E c v) = v_defaults v" for v
    using v_listener_loop_frame by (simp add: v_listeners_def v_frame)
  have t: "routeNames (v_tls E c v) = routeNames v \<and> v_defaults (v_tls E c v) = v_defaults v" for v
    by (simp add: v_tls_def v_frame)
  have cl: "routeNames (v_clients E c v) = routeNames v \<and> v_defaults (v_clients E c v) = v_defaults v" for v
    using v_client_loop_frame by (simp add: v_clients_def v_frame)
  show "routeNames (v_clients E c (v_tls E c (v_listeners E c (v_service E c newValidator)))) = {}"
    "v_defaults (v_clients E c (v_tls E c (v_listeners E c (v_service E c newValidator)))) = 0"
    using s l t cl by simp_all
qed

lemma Normalize_domains:
  "rt \<in> set (Routes (Normalize h c)) \<Longrightarrow> d \<in> set (Domains rt) \<Longrightarrow> ToLower (TrimSpace d) = d"
  by (auto simp: Normalize_def norm_route_eq TrimSpace_lower)

lemma Validate_ok:
  assumes "snd (Validate E c0) = []" and "c = fst (Validate E c0)"
  shows "c = Normalize (osHostname E) c0"
    and "Clients c \<noteq> [] \<and> (\<forall>cl \<in> set (Clients c). CIDR cl \<noteq> []) \<and>
      (\<exists>m. NewMatcher (ParsePrefix E) (Clients c) = Some m \<and> disjoint_prefixes m)"
    and "\<exists>r. New_router (ParsePrefix E) (Routes c) = Inr r \<and>
       ran (byDomain r) \<subseteq> rName ` set (Routes c) \<and> snd ` set (rSources r) \<subseteq> rName ` set (Routes c) \<and>
       (rDef r \<noteq> [] \<longrightarrow> rDef r \<in> rName ` set (Routes c)) \<and>
       (\<forall>cl \<in> set (Clients c). if clRoute cl = [] then rDef r \<noteq> [] else clRoute cl \<in> rName ` set (Routes c))"
    and "\<forall>rt \<in> set (Routes c). route_secure rt"
    and "0 \<le> SpoolMaxGB (cLimits c) \<and> SpoolMaxGB (cLimits c) \<le> 2 ^ 30"
    and "RetryScheduleMin (cQueue c) \<noteq> [] \<and> (\<forall>m \<in> set (RetryScheduleMin (cQueue c)). 0 < m) \<and> 0 < MaxLifetimeHours (cQueue c)"
    and "\<forall>cl \<in> set (Clients c). \<exists>w v. errs (v_clientRewrite cl w v) = []"
proof -
  show c: "c = Normalize (osHostname E) c0" using assms(2) by (simp add: Validate_def Let_def)
  define v3 where "v3 = v_tls E c (v_listeners E c (v_service E c newValidator))"
  define v4 where "v4 = v_clients E c v3"
  define v5 where "v5 = v_routes E c v4"
  define v6 where "v6 = v_clientRoutes (Clients c) v5"
  define v7 where "v7 = v_queue c v6"
  define v12 where "v12 = v_canaries c (v_bounce c (v_history c (v_metrics E c (v_web E c v7))))"
  have e: "errs (v_limits c v12) = []"
    using assms(1) unfolding Validate_def Let_def snd_conv c [symmetric]
      v3_def [symmetric] v4_def [symmetric] v5_def [symmetric] v6_def [symmetric] v7_def [symmetric] v12_def [symmetric] .
  from v_limits_ok [OF this] have lim: "errs v12 = []" "0 \<le> SpoolMaxGB (cLimits c) \<and> SpoolMaxGB (cLimits c) \<le> 2 ^ 30" by blast+
  have e7: "errs v7 = []"
    using lim(1) unfolding v12_def
    by (metis laterD v_canaries_later v_bounce_later v_history_later v_metrics_later v_web_later)
  from v_queue_ok [OF e7 [unfolded v7_def]] have
    q: "errs v6 = []" "RetryScheduleMin (cQueue c) \<noteq> [] \<and> (\<forall>m \<in> set (RetryScheduleMin (cQueue c)). 0 < m) \<and> 0 < MaxLifetimeHours (cQueue c)"
    by blast+
  from v_clientRoutes_ok [OF q(1) [unfolded v6_def]] have
    cr: "errs v5 = []" "\<forall>cl \<in> set (Clients c). if clRoute cl = [] then v_defaults v5 \<noteq> 0 else clRoute cl \<in> routeNames v5" by blast+
  have fr: "routeNames v4 = {}" "v_defaults v4 = 0" unfolding v4_def v3_def by (rule early_frame)+
  have nd: "\<forall>rt \<in> set (Routes c). \<forall>d \<in> set (Domains rt). ToLower (TrimSpace d) = d"
    unfolding c using Normalize_domains by blast
  note ro = v_routes_ok [OF cr(1) [unfolded v5_def] fr nd]
  show "\<forall>rt \<in> set (Routes c). route_secure rt" using ro by blast
  show "\<exists>r. New_router (ParsePrefix E) (Routes c) = Inr r \<and>
       ran (byDomain r) \<subseteq> rName ` set (Routes c) \<and> snd ` set (rSources r) \<subseteq> rName ` set (Routes c) \<and>
       (rDef r \<noteq> [] \<longrightarrow> rDef r \<in> rName ` set (Routes c)) \<and>
       (\<forall>cl \<in> set (Clients c). if clRoute cl = [] then rDef r \<noteq> [] else clRoute cl \<in> rName ` set (Routes c))"
    using ro cr(2) unfolding v5_def by metis
  show "Clients c \<noteq> [] \<and> (\<forall>cl \<in> set (Clients c). CIDR cl \<noteq> []) \<and>
      (\<exists>m. NewMatcher (ParsePrefix E) (Clients c) = Some m \<and> disjoint_prefixes m)"
    using ro v_clients_ok(1) [of E c v3] unfolding v4_def by blast
  show "\<forall>cl \<in> set (Clients c). \<exists>w v. errs (v_clientRewrite cl w v) = []"
    using ro v_clients_ok(2) [of E c v3] unfolding v4_def by blast
  show "0 \<le> SpoolMaxGB (cLimits c) \<and> SpoolMaxGB (cLimits c) \<le> 2 ^ 30" by (rule lim(2))
  show "RetryScheduleMin (cQueue c) \<noteq> [] \<and> (\<forall>m \<in> set (RetryScheduleMin (cQueue c)). 0 < m) \<and> 0 < MaxLifetimeHours (cQueue c)"
    by (rule q(2))
qed

lemma find_route_some: "n \<in> rName ` set (Routes c) \<Longrightarrow> \<exists>r. find_route c n = Some r \<and> r \<in> set (Routes c) \<and> rName r = n"
proof -
  assume n: "n \<in> rName ` set (Routes c)"
  then obtain r where "find (\<lambda>r. rName r = n) (Routes c) = Some r" by (metis (mono_tags, lifting) find_None_iff image_iff option.exhaust)
  moreover from this have "r \<in> set (Routes c)" "rName r = n" by (auto simp: find_Some_iff)
  ultimately show ?thesis by (simp add: find_route_def)
qed

text \<open>Whatever \<open>Resolve\<close> answers is one of the names the tables and the client carry.\<close>

lemma Resolve_names:
  assumes d: "disjoint_prefixes (rSources r)" and "Resolve r rcpt src cr cb = Some dec"
  shows "decRoute dec \<in> ran (byDomain r) \<union> snd ` set (rSources r) \<union> ({cr, rDef r} - {[]})"
proof -
  define S where "S = ran (byDomain r) \<union> snd ` set (rSources r) \<union> ({cr, rDef r} - {[]})"
  have o: "n \<in> S" if "owners (rSources r) (Unmap src) = (p, n) # es" for p n es
  proof -
    have "(p, n) \<in> set (owners (rSources r) (Unmap src))" using that by simp
    then show ?thesis by (force simp: owners_def S_def)
  qed
  have m: "byDomain r x = Some n \<Longrightarrow> n \<in> S" for x n by (auto simp: S_def intro: ranI)
  have c: "cr \<noteq> [] \<Longrightarrow> cr \<in> S" "rDef r \<noteq> [] \<Longrightarrow> rDef r \<in> S" by (simp_all add: S_def)
  show ?thesis
    using assms(2) o m c unfolding Resolve_def Let_def match_source_owner [OF d] S_def [symmetric]
    by (auto split: if_split_asm option.split_asm list.split_asm)
qed

lemma Resolve_total: "clRoute' \<noteq> [] \<or> rDef r \<noteq> [] \<Longrightarrow> Resolve r rcpt src clRoute' cb \<noteq> None"
  by (auto simp: Resolve_def Let_def split: option.split prod.split)

text \<open>C12: A configuration that validates can be run: it names at least one client, the matcher
  and the router are built from it without error, no client address has two owners, and a message
  of any client to any recipients is split without failing into routes that the configuration has,
  so that the delivery side finds every route it is asked for.\<close>

theorem accepted_config_routes_everything:
  assumes ok: "snd (Validate E c0) = []" and c: "c = fst (Validate E c0)"
  shows "Clients c \<noteq> [] \<and>
    (\<exists>m r. NewMatcher (ParsePrefix E) (Clients c) = Some m \<and> New_router (ParsePrefix E) (Routes c) = Inr r \<and>
       (\<forall>a. length (owners m a) \<le> 1) \<and>
       (\<forall>cl \<in> set (Clients c). \<forall>rcpts src bits. \<exists>gs. Split r rcpts src (clRoute cl) bits = Inr gs \<and>
          (\<forall>g \<in> set gs. \<exists>rt. find_route c (gRoute g) = Some rt \<and> rName rt = gRoute g)))"
proof -
  from Validate_ok(2) [OF ok c] obtain m where
    m: "Clients c \<noteq> []" "NewMatcher (ParsePrefix E) (Clients c) = Some m" "disjoint_prefixes m" by blast
  from Validate_ok(3) [OF ok c] obtain r where r: "New_router (ParsePrefix E) (Routes c) = Inr r"
    "ran (byDomain r) \<subseteq> rName ` set (Routes c)" "snd ` set (rSources r) \<subseteq> rName ` set (Routes c)"
    "rDef r \<noteq> [] \<longrightarrow> rDef r \<in> rName ` set (Routes c)"
    "\<forall>cl \<in> set (Clients c). if clRoute cl = [] then rDef r \<noteq> [] else clRoute cl \<in> rName ` set (Routes c)" by blast
  have "\<exists>gs. Split r rcpts src (clRoute cl) bits = Inr gs \<and>
      (\<forall>g \<in> set gs. \<exists>rt. find_route c (gRoute g) = Some rt \<and> rName rt = gRoute g)"
    if cl: "cl \<in> set (Clients c)" for cl rcpts src bits
  proof -
    have tot: "Resolve r x src (clRoute cl) bits \<noteq> None" for x
      using r(5) cl by (intro Resolve_total) metis
    obtain gs where gs: "Split r rcpts src (clRoute cl) bits = Inr gs"
      using split_loop_total [of r src "clRoute cl" bits rcpts "[]" Map.empty] tot
      by (cases "Split r rcpts src (clRoute cl) bits") (auto simp: Split_def routed_def)
    have "\<exists>rt. find_route c (gRoute g) = Some rt \<and> rName rt = gRoute g" if g: "g \<in> set gs" for g
    proof -
      have "gRecipients g \<noteq> []" "gRecipients g = filter (\<lambda>x. routed r src (clRoute cl) bits x = Some (gRoute g)) rcpts"
        using split_groups [OF gs] g by blast+
      then obtain x where "x \<in> set (filter (\<lambda>x. routed r src (clRoute cl) bits x = Some (gRoute g)) rcpts)"
        by (metis list.set_sel(1))
      then have "routed r src (clRoute cl) bits x = Some (gRoute g)" by simp
      then obtain dec where "Resolve r x src (clRoute cl) bits = Some dec" "decRoute dec = gRoute g"
        by (auto simp: routed_def)
      with Resolve_names [OF New_router_disjoint [OF r(1)]] have
        "gRoute g \<in> ran (byDomain r) \<union> snd ` set (rSources r) \<union> ({clRoute cl, rDef r} - {[]})" by metis
      then have "gRoute g \<in> rName ` set (Routes c) \<or> gRoute g = clRoute cl \<and> clRoute cl \<noteq> []"
        using r(2-4) by auto
      then have "gRoute g \<in> rName ` set (Routes c)" using bspec [OF r(5) cl] by presburger
      then show ?thesis using find_route_some by blast
    qed
    then show ?thesis using gs by blast
  qed
  then show ?thesis using m r(1) owners_single by blast
qed

text \<open>A small configuration and the outside world it is read in, for the witnesses.\<close>

definition demo_cfg_env :: cfg_env where
  "demo_cfg_env = \<lparr>ParsePrefix = demo_parse, ParseAddr = (\<lambda>_. None),
     SplitHostPort = (\<lambda>s. if s = ''localhost:25'' then Some (''localhost'', ''25'') else None),
     ParseDate = (\<lambda>_. None), LoadX509KeyPair = (\<lambda>_ _. True), LoadLocation = (\<lambda>_. True),
     IsAbs = (\<lambda>s. HasPrefix s ''/''), VolumeName = (\<lambda>_. []), CleanJoin = (\<lambda>a b. a @ ''/'' @ b),
     Rel = (\<lambda>a b. Some (drop (length a + 1) b)), osHostname = Some ''relay''\<rparr>"

definition demo_client :: "string \<Rightarrow> string list \<Rightarrow> string \<Rightarrow> Client" where
  "demo_client n cidr rt = \<lparr>clName = n, CIDR = cidr, clRoute = rt, clMaxMessageMB = 0, MaxRecipients = 0,
     clRateLimitPerMin = 0, clMaxConnections = 0,
     clRewrite = \<lparr>Mode = [], AllowedSenders = [], EnvelopeFrom = [], HeaderFrom = [], ReplyTo = []\<rparr>, clNotify = []\<rparr>"

definition demo_config :: Config where
  "demo_config = Defaults\<lparr>cService := \<lparr>DataDir = ''/var'', LogLevel = ''info'', Hostname = [], Timezone = []\<rparr>,
     Listeners := [\<lparr>lName = ''in'', lAddress = ''localhost:25'', lTLS = [], lMinTLS = [], RequireTLS = False\<rparr>],
     Clients := [demo_client ''app'' [''10.0.0.0/8''] [], demo_client ''site'' [''192.168.0.0/16''] ''main''],
     Routes := [demo_route ''main'' [] True]\<rparr>"

lemma demo_config_valid: "snd (Validate demo_cfg_env demo_config) = []"
  by code_simp

theorem accepted_config_routes_everything_witness:
  "\<exists>m. NewMatcher demo_parse (Clients (fst (Validate demo_cfg_env demo_config))) = Some m"
  using accepted_config_routes_everything [OF demo_config_valid refl] by (auto simp: demo_cfg_env_def)

text \<open>C13: A configuration that validates never sends a password or token in clear and never overflows:
  a route without TLS has no credentials and one with TLS insists on version 1.2; the spool quota in
  bytes fits 64 bits; the retry schedule is not empty, positive, and the lifetime is positive; and
  every client has at least one network to be recognised by.\<close>

theorem accepted_config_is_safe:
  assumes ok: "snd (Validate E c0) = []" and c: "c = fst (Validate E c0)"
  shows "(\<forall>r \<in> set (Routes c). (rTLS r = TLSNone \<longrightarrow> Auth r = AuthNone) \<and>
            (rTLS r \<noteq> TLSNone \<longrightarrow> (\<exists>ver \<ge> VersionTLS12. ParseTLSVersion (rMinTLS r) = Some ver))) \<and>
    i64 (SpoolMaxGB (cLimits c) * 2 ^ 30) = SpoolMaxGB (cLimits c) * 2 ^ 30 \<and>
    RetryScheduleMin (cQueue c) \<noteq> [] \<and> (\<forall>m \<in> set (RetryScheduleMin (cQueue c)). 0 < m) \<and>
    0 < MaxLifetimeHours (cQueue c) \<and> (\<forall>cl \<in> set (Clients c). CIDR cl \<noteq> [])"
proof -
  have "\<forall>r \<in> set (Routes c). (rTLS r = TLSNone \<longrightarrow> Auth r = AuthNone) \<and>
            (rTLS r \<noteq> TLSNone \<longrightarrow> (\<exists>ver \<ge> VersionTLS12. ParseTLSVersion (rMinTLS r) = Some ver))"
    using Validate_ok(4) [OF ok c] unfolding route_secure_def by (metis (mono_tags, lifting))
  moreover have "i64 (SpoolMaxGB (cLimits c) * 2 ^ 30) = SpoolMaxGB (cLimits c) * 2 ^ 30"
    using Validate_ok(5) [OF ok c] by (intro i64_id) auto
  ultimately show ?thesis using Validate_ok(2,6) [OF ok c] by blast
qed

theorem accepted_config_is_safe_witness:
  "i64 (SpoolMaxGB (cLimits (fst (Validate demo_cfg_env demo_config))) * 2 ^ 30) =
     SpoolMaxGB (cLimits (fst (Validate demo_cfg_env demo_config))) * 2 ^ 30"
  using accepted_config_is_safe [OF demo_config_valid refl] by blast

end
