(* ===== verification/Sender_Rewrite.thy ===== *)
theory Sender_Rewrite
  imports Header_Block Config_Accepted
begin

text \<open>
  Per-client sender rewriting, \<open>internal/rewrite/rewrite.go\<close>: compiling a policy, deciding whether it
  applies, and editing the header block. The lemmas say that an edit cannot inject a header, that
  the sender a smarthost sees is the configured one and agrees with the envelope, and that a
  configuration that validates always compiles.
\<close>

definition maxPreservedFrom :: nat where "maxPreservedFrom = 512"

datatype rewrite_err = ErrAmbiguousFrom | ErrUnsafeHeader | ErrHeaderTooLong | ErrBlock header_err

datatype compile_err =
    UnknownMode string | BadEnvelopeFrom string | BadHeaderFrom string | DomainMismatch string string
  | BadPattern string | NoAllowedSenders | BadReplyTo

record pat =
  patLocal :: string
  patDomain :: string

record Rules =
  rlMode :: string
  rlAllowed :: "pat list"
  rlEnvFrom :: string
  rlHeaderFrom :: string
  rlReplyTo :: string
  rlReplyFixed :: string

section \<open>Compiling\<close>

definition atext :: string where
  "atext = ''!#$%&'' @ [CHR 0x27] @ ''*+-/=?^_`{|}~''"

definition needsQuoting :: "string \<Rightarrow> bool" where
  "needsQuoting display \<longleftrightarrow>
     list_ex (\<lambda>c. \<not> (is_lower c \<or> is_upper c \<or> is_digit c \<or> c = CHR '' '' \<or> c \<in> set atext)) display"

definition formatMailbox :: "string \<Rightarrow> string \<Rightarrow> string" where
  "formatMailbox display addr =
     (if display = [] then ''<'' @ addr @ ''>''
      else if needsQuoting display then [DQUOTE] @ display @ [DQUOTE] @ '' <'' @ addr @ ''>''
      else display @ '' <'' @ addr @ ''>'')"

definition compilePattern :: "string \<Rightarrow> compile_err + pat" where
  "compilePattern s0 =
     (let s = TrimSpace s0 in
      if HasPrefix s ''*@'' then
        (let d = ToLower (drop 2 s) in
         if \<not> ValidDomain d then Inl (BadPattern s) else Inr \<lparr>patLocal = [], patDomain = d\<rparr>)
      else if \<not> ValidAddress s then Inl (BadPattern s)
      else (case LastIndexByte s (CHR ''@'') of
              Some at \<Rightarrow> Inr \<lparr>patLocal = take at s, patDomain = ToLower (drop (at + 1) s)\<rparr>
            | None \<Rightarrow> Inl (BadPattern s)))"

fun compile_patterns :: "string list \<Rightarrow> compile_err + pat list" where
  "compile_patterns [] = Inr []"
| "compile_patterns (s # ss) =
     (case compilePattern s of
        Inl e \<Rightarrow> Inl e
      | Inr p \<Rightarrow> (case compile_patterns ss of Inl e \<Rightarrow> Inl e | Inr ps \<Rightarrow> Inr (p # ps)))"

definition compile_header_from :: "string \<Rightarrow> string \<Rightarrow> compile_err + string" where
  "compile_header_from envFrom headerFrom =
     (if headerFrom \<noteq> [] \<and> headerFrom \<noteq> HeaderFromKeep then
        (case SplitMailbox headerFrom of
           None \<Rightarrow> Inl (BadHeaderFrom headerFrom)
         | Some (display, addr) \<Rightarrow>
             if DomainOf addr \<noteq> DomainOf envFrom then Inl (DomainMismatch (DomainOf addr) (DomainOf envFrom))
             else Inr (formatMailbox display addr))
      else Inr headerFrom)"

definition Compile :: "Rewrite \<Rightarrow> compile_err + Rules" where
  "Compile r =
     (let mode = (if Mode r = [] then RewriteOff else Mode r);
          out = \<lparr>rlMode = mode, rlAllowed = [], rlEnvFrom = TrimSpace (EnvelopeFrom r),
                 rlHeaderFrom = TrimSpace (HeaderFrom r), rlReplyTo = [], rlReplyFixed = []\<rparr>
      in if mode = RewriteOff then Inr out
         else if mode \<noteq> RewriteIfUnauthorized \<and> mode \<noteq> RewriteForce then Inl (UnknownMode (Mode r))
         else if \<not> ValidAddress (rlEnvFrom out) then Inl (BadEnvelopeFrom (EnvelopeFrom r))
         else case compile_header_from (rlEnvFrom out) (rlHeaderFrom out) of
                Inl e \<Rightarrow> Inl e
              | Inr hf \<Rightarrow>
                  (case compile_patterns (AllowedSenders r) of
                     Inl e \<Rightarrow> Inl e
                   | Inr ps \<Rightarrow>
                       if mode = RewriteIfUnauthorized \<and> ps = [] then Inl NoAllowedSenders
                       else (case ParseReplyTo (ReplyTo r) of
                               None \<Rightarrow> Inl BadReplyTo
                             | Some (rt, fixed) \<Rightarrow>
                                 Inr (out\<lparr>rlHeaderFrom := hf, rlAllowed := ps, rlReplyTo := rt, rlReplyFixed := fixed\<rparr>))))"

section \<open>Applying\<close>

definition splitAddress :: "string \<Rightarrow> string \<times> string" where
  "splitAddress addr =
     (case LastIndexByte addr (CHR ''@'') of
        None \<Rightarrow> ([], [])
      | Some at \<Rightarrow> if at = 0 \<or> at = length addr - 1 then ([], []) else (take at addr, ToLower (drop (at + 1) addr)))"

definition Authorized :: "Rules option \<Rightarrow> string \<Rightarrow> bool" where
  "Authorized ro sender =
     (case ro of
        None \<Rightarrow> True
      | Some r \<Rightarrow>
          (case splitAddress sender of (local, domain) \<Rightarrow>
             domain \<noteq> [] \<and>
             list_ex (\<lambda>p. patDomain p = domain \<and> (patLocal p = [] \<or> EqualFold (patLocal p) local)) (rlAllowed r)))"

definition addrOfMailbox :: "string \<Rightarrow> string" where
  "addrOfMailbox s0 =
     (let s = TrimSpace s0 in
      if s = [] then []
      else case LastIndexByte s (CHR ''<'') of
             Some i \<Rightarrow>
               (case IndexByte (drop i s) (CHR ''>'') of
                  None \<Rightarrow> []
                | Some j \<Rightarrow> TrimSpace (take (j - 1) (drop (i + 1) s)))
           | None \<Rightarrow> if ContainsAny s ''(),;:'' then [] else s)"

definition checkHeaderValue :: "string \<Rightarrow> bool" where
  "checkHeaderValue s \<longleftrightarrow> \<not> list_ex (\<lambda>c. byte c < (0x20::nat) \<or> byte c = (0x7f::nat)) s"

definition keepsFrom :: "Rules \<Rightarrow> string \<Rightarrow> bool" where
  "keepsFrom r orig =
     (if rlHeaderFrom r \<noteq> HeaderFromKeep \<or> orig = [] then False
      else (let a = addrOfMailbox orig in
            if \<not> ValidAddress a then False else DomainOf a = DomainOf (rlEnvFrom r)))"

definition fromValue :: "Rules \<Rightarrow> string" where
  "fromValue r = (if rlHeaderFrom r \<noteq> [] \<and> rlHeaderFrom r \<noteq> HeaderFromKeep then rlHeaderFrom r
                  else ''<'' @ rlEnvFrom r @ ''>'')"

definition replyAddress :: "Rules \<Rightarrow> string \<Rightarrow> string \<Rightarrow> string" where
  "replyAddress r orig envelope =
     (let a = addrOfMailbox orig in
      if ValidAddress a then (if \<not> EqualFold a (rlEnvFrom r) then a else [])
      else if ValidAddress envelope \<and> \<not> EqualFold envelope (rlEnvFrom r) then envelope
      else [])"

record Result =
  resFrom :: string
  resHeaders :: string
  Rewritten :: bool
  OriginalFrom :: string

definition apply_reply :: "Rules \<Rightarrow> string \<Rightarrow> string \<Rightarrow> hblock \<Rightarrow> hblock" where
  "apply_reply r orig envelope b =
     (if rlReplyTo r = ReplyToDrop then blk_remove ''reply-to'' b
      else if rlReplyTo r = ReplyToFixed then blk_set ''Reply-To'' (''<'' @ rlReplyFixed r @ ''>'') b
      else if \<not> blk_has b ''reply-to'' then
        (let a = replyAddress r orig envelope in
         if a \<noteq> [] then blk_set ''Reply-To'' (''<'' @ a @ ''>'') b else b)
      else b)"

definition Apply :: "Rules option \<Rightarrow> string \<Rightarrow> string \<Rightarrow> rewrite_err + Result" where
  "Apply ro from headers =
     (let same = \<lparr>resFrom = from, resHeaders = headers, Rewritten = False, OriginalFrom = []\<rparr> in
      case ro of
        None \<Rightarrow> Inr same
      | Some r \<Rightarrow>
          if rlMode r = RewriteOff \<or> from = [] then Inr same
          else if rlMode r = RewriteIfUnauthorized \<and> Authorized (Some r) from then Inr same
          else case parseBlock headers of
                 Inl e \<Rightarrow> Inl (ErrBlock e)
               | Inr blk \<Rightarrow>
                   if blk_count blk ''from'' > 1 then Inl ErrAmbiguousFrom
                   else (let orig = TrimSpace (blk_value blk ''from'') in
                         if orig \<noteq> [] \<and> length orig > maxPreservedFrom then Inl ErrHeaderTooLong
                         else if orig \<noteq> [] \<and> \<not> checkHeaderValue orig then Inl ErrUnsafeHeader
                         else (let blk' = (if keepsFrom r orig then blk
                                           else apply_reply r orig from
                                                  (let b = blk_set ''From'' (fromValue r) blk
                                                   in if orig \<noteq> [] then blk_set ''X-Original-From'' orig b else b))
                               in Inr \<lparr>resFrom = rlEnvFrom r, resHeaders = hblock_String blk', Rewritten = True,
                                       OriginalFrom = from\<rparr>)))"

section \<open>Values that stay on their line\<close>

lemma TrimSpace_id:
  assumes "s = [] \<or> \<not> is_space (hd s) \<and> \<not> is_space (last s)"
  shows "TrimSpace s = s"
proof (cases "s = []")
  case False
  then have "dropWhile is_space s = s" "dropWhile is_space (rev s) = rev s"
    using assms by (auto simp: dropWhile_id_iff hd_rev)
  then show ?thesis by (simp add: TrimSpace_def TrimRightP_def TrimLeftP_def)
qed (simp add: TrimSpace_def TrimRightP_def TrimLeftP_def)

lemma TrimSpace_Nil [simp]: "TrimSpace [] = []"
  by (simp add: TrimSpace_def TrimRightP_def TrimLeftP_def)

lemma TrimSpace_blank: "TrimSpace (CHR '' '' # s) = TrimSpace s"
  by (simp add: TrimSpace_def TrimLeftP_def is_space_def)

lemma set_TrimSpace: "set (TrimSpace s) \<subseteq> set s"
  by (auto simp: TrimSpace_def TrimRightP_def TrimLeftP_def dest!: set_dropWhileD)

lemma TrimSpace_hd: "TrimSpace s \<noteq> [] \<Longrightarrow> \<not> is_space (hd (TrimSpace s))"
  by (metis TrimSpace_idem TrimSpace_def TrimRightP_def TrimLeftP_def dropWhile_id_iff dropWhile_eq_Nil_conv
      dropWhile_suffix_hd hd_dropWhile rev_is_Nil_conv append_Nil hd_append2 rev_append rev_rev_ident takeWhile_dropWhile_id)

lemma printable_not_space: "printable c \<Longrightarrow> \<not> is_space c"
  by (auto simp: printable_def is_space_def)

lemma printable_trim: "list_all printable s \<Longrightarrow> TrimSpace s = s"
  by (rule TrimSpace_id) (auto simp: list_all_iff dest: printable_not_space hd_in_set last_in_set)

definition on_one_line :: "string \<Rightarrow> bool" where
  "on_one_line v \<longleftrightarrow> CR \<notin> set v \<and> LF \<notin> set v"

lemma header_field_ok:
  assumes "on_one_line v" and n: "n \<in> {''From'', ''X-Original-From'', ''Reply-To''}"
  shows "field_ok \<lparr>fName = ToLower n, fLines = [n @ '': '' @ v]\<rparr>"
proof -
  have k: "is_upper c \<longleftrightarrow> 65 \<le> byte c \<and> byte c \<le> (90::nat)" "is_space c \<longleftrightarrow> byte c = (32::nat) \<or> 9 \<le> byte c \<and> byte c \<le> (13::nat)" for c
    by (simp_all add: is_upper_def is_space_def)
  have "TrimSpace n = n" using n by (intro TrimSpace_id) (auto simp: k)
  then show ?thesis
    using assms by (auto simp: field_ok_def plain_line_def starts_folded_def line_name_def on_one_line_def CR_def LF_def TAB_def)
qed

section \<open>The address in a From value\<close>

lemma LastIndexByte_append: "c \<notin> set t \<Longrightarrow> LastIndexByte (s @ c # t) c = Some (length s)"
proof (induction s)
  case Nil
  then have "LastIndexByte t c = None" by (simp add: LastIndexByte_None)
  then show ?case by simp
qed simp

lemma TrimSpace_angle: "TrimSpace (p @ CHR ''<'' # a @ ''>'') = dropWhile is_space p @ CHR ''<'' # a @ ''>''"
proof -
  have s: "\<not> is_space CHR ''<''" "\<not> is_space CHR ''>''" by (simp_all add: is_space_def)
  have "dropWhile is_space (p @ CHR ''<'' # a @ ''>'') = dropWhile is_space p @ CHR ''<'' # a @ ''>''"
    using s by (induction p) auto
  then show ?thesis using s by (simp add: TrimSpace_def TrimRightP_def TrimLeftP_def)
qed

lemma addrOfMailbox_angle:
  assumes "ValidAddress a"
  shows "addrOfMailbox (p @ CHR ''<'' # a @ ''>'') = a"
proof -
  have a: "CHR ''<'' \<notin> set (a @ ''>'')" "CHR ''>'' \<notin> set a" "list_all printable a"
    using assms by (auto elim: ValidAddress_shape)
  let ?q = "dropWhile is_space p"
  have s: "TrimSpace (p @ CHR ''<'' # a @ ''>'') = ?q @ CHR ''<'' # a @ ''>''" by (rule TrimSpace_angle)
  have i: "LastIndexByte (?q @ CHR ''<'' # a @ ''>'') (CHR ''<'') = Some (length ?q)"
    using a(1) by (rule LastIndexByte_append)
  have j: "IndexByte (a @ ''>'') (CHR ''>'') = Some (length a)"
    using IndexByte_append [OF a(2), of "[]"] by simp
  show ?thesis
    unfolding addrOfMailbox_def s Let_def i using a(3) by (simp add: j printable_trim)
qed

lemma formatMailbox_shape: "\<exists>p. formatMailbox d a = p @ CHR ''<'' # a @ ''>'' \<and> set p \<subseteq> set d \<union> {CHR '' '', DQUOTE}"
proof -
  consider "d = []" | "d \<noteq> []" "needsQuoting d" | "d \<noteq> []" "\<not> needsQuoting d" by blast
  then show ?thesis
  proof cases
    case 1
    then show ?thesis by (intro exI [of _ "[]"]) (simp add: formatMailbox_def)
  next
    case 2
    then show ?thesis by (intro exI [of _ "[DQUOTE] @ d @ [DQUOTE] @ '' ''"]) (auto simp: formatMailbox_def)
  next
    case 3
    then show ?thesis by (intro exI [of _ "d @ '' ''"]) (auto simp: formatMailbox_def)
  qed
qed

lemma ValidAddress_one_line: "ValidAddress a \<Longrightarrow> on_one_line a"
  using ValidAddress_printable printable_no_break by (auto simp: on_one_line_def no_line_break_def)

section \<open>Compiled policies\<close>

definition rules_ok :: "Rules \<Rightarrow> bool" where
  "rules_ok r \<longleftrightarrow> rlMode r = RewriteOff \<or>
     ValidAddress (rlEnvFrom r) \<and>
     (\<exists>p a. fromValue r = p @ CHR ''<'' # a @ ''>'' \<and> on_one_line p \<and> ValidAddress a \<and> DomainOf a = DomainOf (rlEnvFrom r)) \<and>
     (rlReplyTo r = ReplyToFixed \<longrightarrow> ValidAddress (rlReplyFixed r))"

lemma display_one_line: "list_all display_char d \<Longrightarrow> on_one_line d"
  using display_char_not by (auto simp: on_one_line_def list_all_iff)

lemma ParseReplyTo_fixed: "ParseReplyTo s = Some (ReplyToFixed, a) \<Longrightarrow> ValidAddress a"
  by (auto simp: ParseReplyTo_def Let_def rewrite_words split: if_splits)

lemma compile_header_from_ok:
  assumes c: "compile_header_from env hf = Inr h" and env: "ValidAddress env"
    and v: "v = (if h \<noteq> [] \<and> h \<noteq> HeaderFromKeep then h else ''<'' @ env @ ''>'')"
  shows "\<exists>p a. v = p @ CHR ''<'' # a @ ''>'' \<and> on_one_line p \<and> ValidAddress a \<and> DomainOf a = DomainOf env"
proof (cases "h \<noteq> [] \<and> h \<noteq> HeaderFromKeep")
  case True
  then obtain d a where "SplitMailbox hf = Some (d, a)" "DomainOf a = DomainOf env" "h = formatMailbox d a"
    using c by (auto simp: compile_header_from_def split: if_splits option.splits prod.splits)
  moreover obtain p where "formatMailbox d a = p @ CHR ''<'' # a @ ''>''" "set p \<subseteq> set d \<union> {CHR '' '', DQUOTE}"
    using formatMailbox_shape by blast
  moreover from calculation have "ValidAddress a" "on_one_line d" using SplitMailbox_result display_one_line by blast+
  ultimately show ?thesis using True v
    by (intro exI [of _ p] exI [of _ a]) (auto simp: on_one_line_def CR_def LF_def DQUOTE_def)
next
  case False
  then show ?thesis using v env by (intro exI [of _ "[]"] exI [of _ env]) (auto simp: on_one_line_def)
qed

lemma Compile_ok: "Compile rw = Inr r \<Longrightarrow> rules_ok r"
proof -
  assume c: "Compile rw = Inr r"
  show ?thesis
  proof (cases "(if Mode rw = [] then RewriteOff else Mode rw) = RewriteOff")
    case True
    then show ?thesis using c by (auto simp: Compile_def Let_def rules_ok_def)
  next
    case False
    then obtain hf ps rt fixed where
      v: "ValidAddress (TrimSpace (EnvelopeFrom rw))"
      and h: "compile_header_from (TrimSpace (EnvelopeFrom rw)) (TrimSpace (HeaderFrom rw)) = Inr hf"
      and rt: "ParseReplyTo (ReplyTo rw) = Some (rt, fixed)"
      and r: "rlEnvFrom r = TrimSpace (EnvelopeFrom rw)" "rlHeaderFrom r = hf" "rlReplyTo r = rt" "rlReplyFixed r = fixed"
      using c by (auto simp: Compile_def Let_def split: if_split_asm sum.splits option.splits prod.splits)
    have "fromValue r = (if hf \<noteq> [] \<and> hf \<noteq> HeaderFromKeep then hf else ''<'' @ TrimSpace (EnvelopeFrom rw) @ ''>'')"
      by (simp add: fromValue_def r)
    from compile_header_from_ok [OF h v this] v rt r show ?thesis
      using ParseReplyTo_fixed by (auto simp: rules_ok_def)
  qed
qed

section \<open>What a rewritten message carries\<close>

lemma blk_value_named: "blk_value b n = (case named n b of [] \<Rightarrow> [] | f # _ \<Rightarrow> unfold (fLines f))"
proof -
  have "(case find P fs of None \<Rightarrow> [] | Some f \<Rightarrow> g f) = (case filter P fs of [] \<Rightarrow> [] | f # _ \<Rightarrow> g f)" for P fs and g :: "hfield \<Rightarrow> string"
    by (induction fs) auto
  then show ?thesis by (simp add: blk_value_def named_def)
qed

lemma unfold_single:
  "n \<in> {''From'', ''X-Original-From'', ''Reply-To''} \<Longrightarrow> unfold [n @ '': '' @ v] = TrimSpace v"
  by (auto simp: TrimSpace_blank)

lemma ToLower_names: "ToLower ''From'' = ''from''" "ToLower ''X-Original-From'' = ''x-original-from''"
    "ToLower ''Reply-To'' = ''reply-to''"
  by code_simp+

lemma replyAddress_valid: "replyAddress r orig env = a \<Longrightarrow> a \<noteq> [] \<Longrightarrow> ValidAddress a"
  by (auto simp: replyAddress_def Let_def split: if_splits)

lemma angle_one_line: "ValidAddress a \<Longrightarrow> on_one_line (''<'' @ a @ ''>'')"
  using ValidAddress_one_line by (auto simp: on_one_line_def CR_def LF_def)

lemma checkHeaderValue_one_line: "checkHeaderValue v \<Longrightarrow> on_one_line v"
  by (auto simp: checkHeaderValue_def on_one_line_def list_ex_iff CR_def LF_def)

text \<open>The edits of a replaced From, each field by itself.\<close>

lemma apply_reply_spec:
  assumes "fields_ok (bFields b)" and "rules_ok r" "rlMode r \<noteq> RewriteOff"
  shows "fields_ok (bFields (apply_reply r orig env b))" "bBlank (apply_reply r orig env b) = bBlank b"
    "keep_others ''reply-to'' (apply_reply r orig env b) = keep_others ''reply-to'' b"
    "m \<noteq> ''reply-to'' \<Longrightarrow> named m (apply_reply r orig env b) = named m b"
proof -
  let ?b = "apply_reply r orig env b"
  have set: "fields_ok (bFields (blk_set ''Reply-To'' (''<'' @ a @ ''>'') b))" if "ValidAddress a" for a
    by (rule blk_set_ok [OF assms(1) header_field_ok [OF angle_one_line [OF that]]]) simp_all
  show "fields_ok (bFields ?b)"
    using assms set replyAddress_valid blk_remove_ok by (auto simp: apply_reply_def Let_def rules_ok_def)
  show "bBlank ?b = bBlank b"
    by (auto simp: apply_reply_def Let_def blk_set_spec blk_remove_spec)
  show "keep_others ''reply-to'' ?b = keep_others ''reply-to'' b"
    using blk_set_spec(1) [of "''Reply-To''", unfolded ToLower_names]
    by (auto simp: apply_reply_def Let_def blk_remove_spec)
  show "named m ?b = named m b" if "m \<noteq> ''reply-to''"
    using named_other [of m "''Reply-To''", unfolded ToLower_names] that
    by (auto simp: apply_reply_def Let_def blk_remove_spec)
qed

lemma keep_others_twice: "keep_others m x = keep_others m y \<Longrightarrow>
    filter (\<lambda>f. fName f \<noteq> n) (keep_others m x) = filter (\<lambda>f. fName f \<noteq> n) (keep_others m y)"
  by simp

definition touched_names :: "string set" where
  "touched_names = {''from'', ''x-original-from'', ''reply-to''}"

definition untouched :: "hblock \<Rightarrow> hfield list" where
  "untouched b = filter (\<lambda>f. fName f \<notin> touched_names) (bFields b)"

lemma untouched_cong: "keep_others n x = keep_others n y \<Longrightarrow> n \<in> touched_names \<Longrightarrow> untouched x = untouched y"
proof -
  assume k: "keep_others n x = keep_others n y" and n: "n \<in> touched_names"
  have "untouched z = filter (\<lambda>f. fName f \<notin> touched_names) (keep_others n z)" for z
    using n by (auto simp: untouched_def keep_others_def intro: filter_cong)
  then show ?thesis using k by simp
qed

lemma Apply_replaced:
  assumes b: "fields_ok (bFields b)" and r: "rules_ok r" "rlMode r \<noteq> RewriteOff"
    and o: "orig = [] \<or> checkHeaderValue orig"
    and b': "b' = apply_reply r orig env (let x = blk_set ''From'' (fromValue r) b
               in if orig \<noteq> [] then blk_set ''X-Original-From'' orig x else x)"
  shows "fields_ok (bFields b')" "bBlank b' = bBlank b" "untouched b' = untouched b"
    "named ''from'' b' = [\<lparr>fName = ''from'', fLines = [''From: '' @ fromValue r]\<rparr>]"
    "orig \<noteq> [] \<Longrightarrow> named ''x-original-from'' b' = [\<lparr>fName = ''x-original-from'', fLines = [''X-Original-From: '' @ orig]\<rparr>]"
proof -
  define x where "x = blk_set ''From'' (fromValue r) b"
  define y where "y = (if orig \<noteq> [] then blk_set ''X-Original-From'' orig x else x)"
  have by': "b' = apply_reply r orig env y" using b' by (simp add: y_def x_def)
  obtain p a where fv: "fromValue r = p @ CHR ''<'' # a @ ''>''" "on_one_line p" "ValidAddress a"
    using r by (auto simp: rules_ok_def)
  have "on_one_line (fromValue r)"
    using fv ValidAddress_one_line [OF fv(3)] by (auto simp: on_one_line_def CR_def LF_def)
  then have x: "fields_ok (bFields x)"
    unfolding x_def by (intro blk_set_ok [OF b header_field_ok]) simp_all
  then have y: "fields_ok (bFields y)"
    using o checkHeaderValue_one_line by (auto simp: y_def intro!: blk_set_ok header_field_ok)
  note s = apply_reply_spec(1-3) [OF y r, of orig env, folded by']
  have s4: "named m b' = named m y" if "m \<noteq> ''reply-to''" for m
    unfolding by' by (rule apply_reply_spec(4) [OF y r that])
  show "fields_ok (bFields b')" by (rule s(1))
  show "bBlank b' = bBlank b" using s(2) by (simp add: y_def x_def blk_set_spec)
  have "untouched b' = untouched y" by (rule untouched_cong [OF s(3)]) (simp add: touched_names_def)
  moreover have "untouched (blk_set ''X-Original-From'' orig x) = untouched x"
    by (rule untouched_cong [OF blk_set_spec(1) [of "''X-Original-From''"]]) (simp add: touched_names_def ToLower_names)
  moreover have "untouched x = untouched b"
    unfolding x_def by (rule untouched_cong [OF blk_set_spec(1) [of "''From''"]]) (simp add: touched_names_def ToLower_names)
  ultimately show "untouched b' = untouched b" by (simp add: y_def)
  have "named ''from'' x = [\<lparr>fName = ''from'', fLines = [''From: '' @ fromValue r]\<rparr>]"
    using blk_set_spec(2) [of "''From''" "fromValue r" b] by (simp add: x_def ToLower_names)
  then show "named ''from'' b' = [\<lparr>fName = ''from'', fLines = [''From: '' @ fromValue r]\<rparr>]"
    using s4 [of "''from''"] named_other [of "''from''" "''X-Original-From''" orig x] by (simp add: y_def ToLower_names)
  show "orig \<noteq> [] \<Longrightarrow> named ''x-original-from'' b' = [\<lparr>fName = ''x-original-from'', fLines = [''X-Original-From: '' @ orig]\<rparr>]"
    using s4 [of "''x-original-from''"] blk_set_spec(2) [of "''X-Original-From''" orig x] by (simp add: y_def ToLower_names)
qed

lemma block_of_text: "\<forall>l \<in> set ls. plain_line l \<Longrightarrow> parseBlock (header_text ls blank) = Inr (block_of ls blank)"
  by (simp add: header_text_def parseBlock_lines)

lemma addrOfMailbox_trim: "addrOfMailbox (TrimSpace s) = addrOfMailbox s"
  by (simp add: addrOfMailbox_def)

lemma blk_count_named: "blk_count b n = length (named n b)"
  by (simp add: blk_count_def named_def)

text \<open>C15: Rewriting changes the sender and nothing else, and cannot inject a header. A message that the
  policy leaves alone (mode off, the null reverse path, an authorised sender) is untouched. A
  rewritten one has the configured envelope sender; its new header block parses to exactly one
  From, whose address is in the envelope sender's domain; every header that is not From,
  X-Original-From or Reply-To is still there, byte for byte and in order; and when From was
  replaced its old value is kept in a single X-Original-From.\<close>

theorem rewrite_changes_only_the_sender:
  assumes c: "Compile rw = Inr r" and ls: "\<forall>l \<in> set ls. plain_line l"
    and a: "Apply (Some r) from (header_text ls blank) = Inr res"
  shows "if Rewritten res
    then ValidAddress (resFrom res) \<and> resFrom res = rlEnvFrom r \<and> OriginalFrom res = from \<and> from \<noteq> [] \<and>
      (\<exists>b b'. parseBlock (header_text ls blank) = Inr b \<and> parseBlock (resHeaders res) = Inr b' \<and>
         bBlank b' = blank \<and> untouched b' = untouched b \<and> blk_count b' ''from'' = 1 \<and>
         DomainOf (addrOfMailbox (blk_value b' ''from'')) = DomainOf (resFrom res) \<and>
         (b' = b \<or> TrimSpace (blk_value b ''from'') = [] \<or>
            named ''x-original-from'' b' =
              [\<lparr>fName = ''x-original-from'', fLines = [''X-Original-From: '' @ TrimSpace (blk_value b ''from'')]\<rparr>]))
    else res = \<lparr>resFrom = from, resHeaders = header_text ls blank, Rewritten = False, OriginalFrom = []\<rparr> \<and>
      (rlMode r = RewriteOff \<or> from = [] \<or> Authorized (Some r) from)"
proof (cases "rlMode r = RewriteOff \<or> from = [] \<or> rlMode r = RewriteIfUnauthorized \<and> Authorized (Some r) from")
  case True
  have "res = \<lparr>resFrom = from, resHeaders = header_text ls blank, Rewritten = False, OriginalFrom = []\<rparr>"
  proof (cases "rlMode r = RewriteOff \<or> from = []")
    case triv: True
    then show ?thesis using a unfolding Apply_def Let_def option.case if_P [OF triv] by simp
  next
    case neither: False
    then have "rlMode r = RewriteIfUnauthorized \<and> Authorized (Some r) from" using True by blast
    then show ?thesis using a unfolding Apply_def Let_def option.case if_not_P [OF neither] by simp
  qed
  then show ?thesis using True by auto
next
  case False
  let ?b = "block_of ls blank"
  define orig where "orig = TrimSpace (blk_value ?b ''from'')"
  define b' where "b' = (if keepsFrom r orig then ?b else apply_reply r orig from
      (let x = blk_set ''From'' (fromValue r) ?b in if orig \<noteq> [] then blk_set ''X-Original-From'' orig x else x))"
  have p: "parseBlock (header_text ls blank) = Inr ?b" by (rule block_of_text [OF ls])
  have ap: "\<not> blk_count ?b ''from'' > 1" "orig = [] \<or> checkHeaderValue orig"
    "res = \<lparr>resFrom = rlEnvFrom r, resHeaders = hblock_String b', Rewritten = True, OriginalFrom = from\<rparr>"
    using a False p unfolding Apply_def Let_def [of "\<lparr>resFrom = from, resHeaders = h, Rewritten = False, OriginalFrom = []\<rparr>" for h]
    by (simp_all add: orig_def [symmetric] b'_def Let_def [of "TrimSpace s" for s] split: if_split_asm)
  have r: "rules_ok r" "rlMode r \<noteq> RewriteOff" using Compile_ok [OF c] False by auto
  then have v: "ValidAddress (rlEnvFrom r)" by (simp add: rules_ok_def)
  have fo: "fields_ok (bFields ?b)" by (rule block_of_ok [OF ls])
  have bb: "bBlank ?b = blank" by (simp add: block_of_def)
  have "fields_ok (bFields b') \<and> bBlank b' = blank \<and> untouched b' = untouched ?b \<and> blk_count b' ''from'' = 1 \<and>
      DomainOf (addrOfMailbox (blk_value b' ''from'')) = DomainOf (rlEnvFrom r) \<and>
      (b' = ?b \<or> orig = [] \<or> named ''x-original-from'' b' = [\<lparr>fName = ''x-original-from'', fLines = [''X-Original-From: '' @ orig]\<rparr>])"
  proof (cases "keepsFrom r orig")
    case True
    then have o: "orig \<noteq> []" "DomainOf (addrOfMailbox orig) = DomainOf (rlEnvFrom r)"
      by (auto simp: keepsFrom_def Let_def split: if_splits)
    then have "named ''from'' ?b \<noteq> []" by (auto simp: orig_def blk_value_named)
    then have "blk_count ?b ''from'' = 1" using ap(1) by (cases "named ''from'' ?b") (auto simp: blk_count_named)
    then show ?thesis using True o fo bb by (simp add: b'_def orig_def addrOfMailbox_trim)
  next
    case False
    then have b': "b' = apply_reply r orig from
        (let x = blk_set ''From'' (fromValue r) ?b in if orig \<noteq> [] then blk_set ''X-Original-From'' orig x else x)"
      by (simp add: b'_def)
    note e = Apply_replaced [OF fo r ap(2) b']
    obtain q m where fv: "fromValue r = q @ CHR ''<'' # m @ ''>''" "ValidAddress m" "DomainOf m = DomainOf (rlEnvFrom r)"
      using r by (auto simp: rules_ok_def)
    have "blk_value b' ''from'' = TrimSpace (fromValue r)"
      using unfold_single [of "''From''" "fromValue r"] by (simp add: blk_value_named e(4))
    then have "addrOfMailbox (blk_value b' ''from'') = m"
      using addrOfMailbox_angle [OF fv(2), of q] by (simp add: addrOfMailbox_trim fv(1))
    then show ?thesis using e(1,2,3,5) fv(3) bb by (simp add: blk_count_named e(4)) blast
  qed
  then show ?thesis using p v ap(3) False parse_String [of b'] by (auto simp: orig_def)
qed

definition demo_rewrite :: Rewrite where
  "demo_rewrite = \<lparr>Mode = RewriteForce, AllowedSenders = [], EnvelopeFrom = ''relay@corp.example'',
     HeaderFrom = ''Printers <print@corp.example>'', ReplyTo = []\<rparr>"

theorem rewrite_changes_only_the_sender_witness:
  "\<exists>r res. Compile demo_rewrite = Inr r \<and>
     Apply (Some r) ''lp@local'' (header_text [''From: lp@printer.local'', ''Subject: x''] True) = Inr res \<and>
     Rewritten res \<and> resFrom res = ''relay@corp.example''"
proof -
  define h where "h = header_text [''From: lp@printer.local'', ''Subject: x''] True"
  have e: "case Compile demo_rewrite of Inl _ \<Rightarrow> False | Inr r \<Rightarrow> rlEnvFrom r = ''relay@corp.example'' \<and>
      (case Apply (Some r) ''lp@local'' (header_text [''From: lp@printer.local'', ''Subject: x''] True) of
         Inl _ \<Rightarrow> False | Inr res \<Rightarrow> Rewritten res)" by code_simp
  then obtain r where r: "Compile demo_rewrite = Inr r" by (auto split: sum.splits)
  then obtain res where a: "Apply (Some r) ''lp@local'' (header_text [''From: lp@printer.local'', ''Subject: x''] True) = Inr res"
    "Rewritten res" "rlEnvFrom r = ''relay@corp.example''" using e by (auto split: sum.splits)
  have "\<forall>l \<in> set [''From: lp@printer.local'', ''Subject: x'']. plain_line l"
    by (simp add: plain_line_def CR_def LF_def)
  from rewrite_changes_only_the_sender [OF r this a(1)] show ?thesis using r a by (auto simp: a(2))
qed

section \<open>Accepted policies compile\<close>

lemma dot_lower: "lower_char c = CHR ''.'' \<longleftrightarrow> c = CHR ''.''"
proof -
  have "is_upper c \<Longrightarrow> char_of (byte c + (32::nat)) \<noteq> CHR ''.''"
    by (auto simp: is_upper_def dest!: arg_cong [where f = "of_char :: char \<Rightarrow> nat"])
  then show ?thesis by (auto simp: lower_char_def is_upper_def)
qed

lemma HasPrefix_dots: "HasPrefix (ToLower d) (replicate n (CHR ''.'')) = HasPrefix d (replicate n (CHR ''.''))"
proof (induction n arbitrary: d)
  case (Suc n)
  then show ?case by (cases d) (auto simp: HasPrefix_def ToLower_def dot_lower)
qed (simp add: HasPrefix_def)

lemma Contains_dots: "Contains (ToLower d) (replicate n (CHR ''.'')) = Contains d (replicate n (CHR ''.''))"
proof (induction d)
  case (Cons c d)
  have p: "HasPrefix (lower_char c # ToLower d) (replicate n (CHR ''.'')) = HasPrefix (c # d) (replicate n (CHR ''.''))"
    using HasPrefix_dots [of "c # d" n] by (simp add: ToLower_def)
  then show ?case using Cons by (auto simp: Contains_def ToLower_def)
qed (simp add: ToLower_def)

lemma ldh_lower: "ldh c \<Longrightarrow> ldh (lower_char c)"
  by (auto simp: ldh_def lower_char_def is_lower_def is_upper_def)

lemma ValidDomain_lower: "ValidDomain d \<Longrightarrow> ValidDomain (ToLower d)"
proof -
  assume v: "ValidDomain d"
  have r1: "replicate 1 (CHR ''.'') = ''.''" and r2: "replicate 2 (CHR ''.'') = ''..''" by (simp_all add: numeral_2_eq_2)
  have "HasSuffix (ToLower d) ''.'' = HasSuffix d ''.''"
    using HasPrefix_dots [of "rev d" 1] by (simp add: HasSuffix_def ToLower_rev)
  then show ?thesis
    using v HasPrefix_dots [of d 1] Contains_dots [of d 1] Contains_dots [of d 2] ldh_lower
    unfolding r1 r2 by (auto simp: ValidDomain_def ToLower_def list_all_iff)
qed

lemma ValidSenderPattern_compiles: "ValidSenderPattern s \<Longrightarrow> \<exists>p. compilePattern s = Inr p"
proof -
  assume v: "ValidSenderPattern s"
  have pr: "list_all printable s"
  proof (cases "HasPrefix s ''*@''")
    case True
    then have s: "s = ''*@'' @ drop 2 s" by (metis HasPrefix_def append_take_drop_id length_Cons list.size(3) numeral_2_eq_2)
    have "list_all ldh (drop 2 s)" using v True by (simp add: ValidSenderPattern_def ValidDomain_def)
    then have "list_all printable (drop 2 s)"
      by (auto simp: list_all_iff ldh_def printable_def is_lower_def is_upper_def is_digit_def)
    then show ?thesis by (subst s) (simp add: printable_def)
  next
    case False
    then show ?thesis using v by (simp add: ValidSenderPattern_def ValidAddress_printable)
  qed
  have "\<exists>at. LastIndexByte s (CHR ''@'') = Some at" if "ValidAddress s"
    using that by (auto simp: ValidAddress_def split: if_splits option.splits)
  then show ?thesis
    using v ValidDomain_lower by (auto simp: compilePattern_def Let_def printable_trim [OF pr] ValidSenderPattern_def)
qed

lemma compile_patterns_ok: "\<forall>s \<in> set ss. ValidSenderPattern s \<Longrightarrow> \<exists>ps. compile_patterns ss = Inr ps \<and> length ps = length ss"
proof (induction ss)
  case (Cons s ss)
  then obtain p ps where "compilePattern s = Inr p" "compile_patterns ss = Inr ps" "length ps = length ss"
    using ValidSenderPattern_compiles by force
  then show ?case by simp
qed simp

lemma v_clientRewrite_compiles:
  assumes "errs (v_clientRewrite cl w v) = []"
  shows "\<exists>r. Compile (clRewrite cl) = Inr r"
proof (cases "Mode (clRewrite cl) = RewriteOff \<or> Mode (clRewrite cl) = []")
  case True
  then show ?thesis by (auto simp: Compile_def Let_def)
next
  case False
  let ?rw = "clRewrite cl"
  let ?hf = "TrimSpace (HeaderFrom ?rw)"
  have f: "Mode ?rw = RewriteForce \<or> Mode ?rw = RewriteIfUnauthorized" "ValidAddress (EnvelopeFrom ?rw)"
    "Mode ?rw = RewriteIfUnauthorized \<longrightarrow> AllowedSenders ?rw \<noteq> []"
    "\<forall>p \<in> set (AllowedSenders ?rw). ValidSenderPattern p" "\<exists>x y. ParseReplyTo (ReplyTo ?rw) = Some (x, y)"
    "?hf \<noteq> [] \<and> ?hf \<noteq> HeaderFromKeep \<longrightarrow> (\<exists>d a. SplitMailbox ?hf = Some (d, a) \<and> DomainOf a = DomainOf (EnvelopeFrom ?rw))"
    using assms False unfolding v_clientRewrite_def Let_def
    by (auto simp: no_errs split: if_split_asm option.split_asm prod.split_asm)
  have e: "TrimSpace (EnvelopeFrom ?rw) = EnvelopeFrom ?rw" using f(2) by (simp add: ValidAddress_printable printable_trim)
  have "\<exists>hf. compile_header_from (EnvelopeFrom ?rw) ?hf = Inr hf"
  proof (cases "?hf \<noteq> [] \<and> ?hf \<noteq> HeaderFromKeep")
    case True
    then obtain d a where "SplitMailbox ?hf = Some (d, a)" "DomainOf a = DomainOf (EnvelopeFrom ?rw)" using f(6) by blast
    then show ?thesis using True by (simp add: compile_header_from_def)
  next
    case False
    then show ?thesis by (auto simp: compile_header_from_def)
  qed
  then obtain hf where h: "compile_header_from (EnvelopeFrom ?rw) ?hf = Inr hf" by blast
  from compile_patterns_ok [OF f(4)] obtain ps where ps: "compile_patterns (AllowedSenders ?rw) = Inr ps"
    "length ps = length (AllowedSenders ?rw)" by blast
  then have "Mode ?rw = RewriteIfUnauthorized \<longrightarrow> ps \<noteq> []" using f(3) by auto
  then show ?thesis using False f(1,2,5) e h ps(1) by (auto simp: Compile_def Let_def)
qed

text \<open>Every client's rewriting policy in a configuration that validates compiles, so the listener,
  which compiles all of them before it binds a socket, cannot fail on one the validator passed.\<close>

theorem accepted_policies_compile:
  assumes "snd (Validate E c0) = []" and "cl \<in> set (Clients (fst (Validate E c0)))"
  shows "\<exists>r. Compile (clRewrite cl) = Inr r"
  using Validate_ok(7) [OF assms(1) refl] assms(2) v_clientRewrite_compiles by blast

theorem accepted_policies_compile_witness:
  "\<exists>r. Compile (clRewrite (hd (Clients (fst (Validate demo_cfg_env demo_config))))) = Inr r"
proof (rule accepted_policies_compile [OF demo_config_valid])
  show "hd (Clients (fst (Validate demo_cfg_env demo_config))) \<in> set (Clients (fst (Validate demo_cfg_env demo_config)))"
    by (simp add: Validate_def Let_def Normalize_def demo_config_def)
qed

end
