(* ===== verification/Journal_Store.thy ===== *)
theory Journal_Store
  imports Queue_Id
begin

text \<open>
  The history journal, \<open>internal/store\<close>: the tables \<open>messages\<close>, \<open>attempts\<close> and \<open>audit\<close>, the
  statements that write them, the classes of \<open>class.go\<close>, the retention sweep and the backfill of the
  summary columns. A table is the list of its rows in the order they were inserted (the row id). A
  time column holds RFC 3339 text, that is, whole seconds, and compares as its instant.

  Every call into the database can fail: \<open>dbFaults\<close> says which of the calls to come do. A statement
  inside a transaction that fails undoes the transaction.
\<close>

section \<open>Classes and statuses\<close>

definition ClassDelivered :: string where "ClassDelivered = ''delivered''"
definition ClassTemporary :: string where "ClassTemporary = ''temporary''"
definition ClassPermanent :: string where "ClassPermanent = ''permanent''"
definition ClassExpired :: string where "ClassExpired = ''expired''"
definition ClassRemoved :: string where "ClassRemoved = ''removed''"
definition ClassRequeued :: string where "ClassRequeued = ''requeued''"
definition StatusQueued :: string where "StatusQueued = ''queued''"
definition StatusDeferred :: string where "StatusDeferred = ''deferred''"
definition StatusDelivered :: string where "StatusDelivered = ''delivered''"
definition StatusBounced :: string where "StatusBounced = ''bounced''"
definition StatusRemoved :: string where "StatusRemoved = ''removed''"
definition StatusActive :: string where "StatusActive = ''active''"

lemmas classes = ClassDelivered_def ClassTemporary_def ClassPermanent_def ClassExpired_def
  ClassRemoved_def ClassRequeued_def
lemmas statuses = StatusQueued_def StatusDeferred_def StatusDelivered_def StatusBounced_def
  StatusRemoved_def StatusActive_def

definition classStatus :: "string \<rightharpoonup> string" where
  "classStatus = [ClassDelivered \<mapsto> StatusDelivered, ClassTemporary \<mapsto> StatusDeferred,
     ClassPermanent \<mapsto> StatusBounced, ClassExpired \<mapsto> StatusBounced, ClassRemoved \<mapsto> StatusRemoved,
     ClassRequeued \<mapsto> StatusQueued]"

definition all_classes :: "string list" where
  "all_classes = [ClassDelivered, ClassTemporary, ClassPermanent, ClassExpired, ClassRemoved, ClassRequeued]"

text \<open>\<open>statusClasses\<close>, the inverse table: the classes behind a status, \<open>None\<close> for no entry.\<close>

definition statusClasses :: "string \<Rightarrow> string list option" where
  "statusClasses st =
     (let cs = filter (\<lambda>c. classStatus c = Some st) all_classes
      in if cs = [] then None else Some cs)"

definition classToStatus :: "string option \<Rightarrow> string" where
  "classToStatus c =
     (case c of
        None \<Rightarrow> StatusQueued
      | Some k \<Rightarrow> (case classStatus k of Some s \<Rightarrow> s | None \<Rightarrow> StatusDeferred))"

definition ValidBounceClass :: "string \<Rightarrow> bool" where
  "ValidBounceClass s \<longleftrightarrow> s = [] \<or> classStatus s = Some StatusBounced"

definition ValidStatus :: "string \<Rightarrow> bool" where
  "ValidStatus s \<longleftrightarrow> statusClasses s \<noteq> None \<or> s = [] \<or> s = StatusActive"

section \<open>Tables\<close>

record MessageRecord =
  recQueueID :: id
  recOrigin :: string
  recRoute :: string
  recFrom :: string
  recOriginalFrom :: string
  recRecipients :: "string list"
  recSubject :: string
  recListener :: string
  recRemoteAddr :: string
  recMessageID :: string
  recContentType :: string
  recSizeBytes :: int
  recHeaderCount :: int
  recHelo :: string
  recReceivedAt :: instant
  recExpiresAt :: instant
  recTLS :: bool

record summary =
  suCount :: nat
  suFirst :: "int option"
  suLast :: "int option"
  suClass :: "string option"
  suCode :: "int option"
  suResp :: "string option"
  suBounced :: bool

record msg_row =
  rowRec :: MessageRecord
  rowReceived :: int
  rowExpires :: int
  rowCreated :: int
  rowSum :: summary

record att_row =
  atQueue :: id
  atNum :: nat
  atTime :: int
  atCode :: "int option"
  atResp :: string
  atClass :: string
  atNext :: "int option"

record audit_row =
  auTime :: int
  auToken :: string
  auSource :: string
  auAction :: string
  auQueue :: id
  auDetails :: string

record store =
  messages :: "msg_row list"
  attempts :: "att_row list"
  audits :: "audit_row list"
  storeNow :: instant
  retainSubjects :: bool
  retentionTTL :: duration
  lastCleanup :: instant
  dbFaults :: "bool list"

datatype store_err = DbFault | DbUnique | DbForeignKey | UnknownStatus | ScanNull

abbreviation rowID :: "msg_row \<Rightarrow> id" where "rowID r \<equiv> recQueueID (rowRec r)"

text \<open>RFC 3339 keeps whole seconds.\<close>

definition rfc3339 :: "instant \<Rightarrow> int" where
  "rfc3339 t = t div second"

text \<open>One call into the driver: whether it works, and the faults left.\<close>

definition db_call :: "store \<Rightarrow> bool \<times> store" where
  "db_call s = (case dbFaults s of [] \<Rightarrow> (True, s) | f # fs \<Rightarrow> (\<not> f, s\<lparr>dbFaults := fs\<rparr>))"

definition empty_summary :: summary where
  "empty_summary = \<lparr>suCount = 0, suFirst = None, suLast = None, suClass = None, suCode = None, suResp = None,
     suBounced = False\<rparr>"

definition has_message :: "id \<Rightarrow> store \<Rightarrow> bool" where
  "has_message i s \<longleftrightarrow> i \<in> set (map rowID (messages s))"

definition upd_message :: "id \<Rightarrow> (summary \<Rightarrow> summary) \<Rightarrow> msg_row list \<Rightarrow> msg_row list" where
  "upd_message i f rs = map (\<lambda>r. if rowID r = i then r\<lparr>rowSum := f (rowSum r)\<rparr> else r) rs"

section \<open>Writing\<close>

definition RecordMessage :: "MessageRecord \<Rightarrow> store \<Rightarrow> store_err option \<times> store" where
  "RecordMessage rec0 s =
     (let rec1 = (if retainSubjects s then rec0 else rec0\<lparr>recSubject := []\<rparr>);
          row = \<lparr>rowRec = rec1, rowReceived = rfc3339 (recReceivedAt rec0), rowExpires = rfc3339 (recExpiresAt rec0),
                 rowCreated = rfc3339 (storeNow s), rowSum = empty_summary\<rparr>
      in case db_call s of
           (False, s1) \<Rightarrow> (Some DbFault, s1)
         | (True, s1) \<Rightarrow>
             if has_message (recQueueID rec0) s1 then (Some DbUnique, s1)
             else (None, s1\<lparr>messages := messages s1 @ [row]\<rparr>))"

text \<open>\<open>insertAttemptSQL\<close>: the number is computed inside the statement.\<close>

definition next_num :: "id \<Rightarrow> att_row list \<Rightarrow> nat" where
  "next_num i as = fold max (map atNum (filter (\<lambda>a. atQueue a = i) as)) 0 + 1"

definition insert_attempt ::
  "id \<Rightarrow> int \<Rightarrow> int option \<Rightarrow> string \<Rightarrow> string \<Rightarrow> int option \<Rightarrow> store \<Rightarrow> store_err option \<times> store" where
  "insert_attempt i at code resp class nxt s =
     (case db_call s of
        (False, s1) \<Rightarrow> (Some DbFault, s1)
      | (True, s1) \<Rightarrow>
          if \<not> has_message i s1 then (Some DbForeignKey, s1)
          else (None, s1\<lparr>attempts := attempts s1 @
                 [\<lparr>atQueue = i, atNum = next_num i (attempts s1), atTime = at, atCode = code, atResp = resp,
                   atClass = class, atNext = nxt\<rparr>]\<rparr>))"

definition update_message :: "id \<Rightarrow> (summary \<Rightarrow> summary) \<Rightarrow> store \<Rightarrow> store_err option \<times> store" where
  "update_message i f s =
     (case db_call s of
        (False, s1) \<Rightarrow> (Some DbFault, s1)
      | (True, s1) \<Rightarrow> (None, s1\<lparr>messages := upd_message i f (messages s1)\<rparr>))"

text \<open>A transaction: begin, two statements, commit; anything else rolls the tables back.\<close>

definition rollback :: "store \<Rightarrow> store \<Rightarrow> store" where
  "rollback s0 s = s\<lparr>messages := messages s0, attempts := attempts s0\<rparr>"

definition in_tx ::
  "(store \<Rightarrow> store_err option \<times> store) \<Rightarrow> (store \<Rightarrow> store_err option \<times> store) \<Rightarrow> store \<Rightarrow> store_err option \<times> store" where
  "in_tx f g s =
     (case db_call s of
        (False, s1) \<Rightarrow> (Some DbFault, s1)
      | (True, s1) \<Rightarrow>
          (case f s1 of
             (Some e, s2) \<Rightarrow> (Some e, rollback s s2)
           | (None, s2) \<Rightarrow>
               (case g s2 of
                  (Some e, s3) \<Rightarrow> (Some e, rollback s s3)
                | (None, s3) \<Rightarrow>
                    (case db_call s3 of
                       (False, s4) \<Rightarrow> (Some DbFault, rollback s s4)
                     | (True, s4) \<Rightarrow> (None, s4)))))"

definition attempt_summary :: "int \<Rightarrow> string \<Rightarrow> int option \<Rightarrow> string \<Rightarrow> summary \<Rightarrow> summary" where
  "attempt_summary at class code resp u =
     u\<lparr>suCount := suCount u + 1,
       suFirst := (case suFirst u of Some t \<Rightarrow> Some t | None \<Rightarrow> Some at),
       suLast := Some at, suClass := Some class, suCode := code, suResp := Some resp,
       suBounced := (suBounced u \<or> classStatus class = Some StatusBounced)\<rparr>"

definition RecordAttempt :: "id \<Rightarrow> int \<Rightarrow> string \<Rightarrow> string \<Rightarrow> instant option \<Rightarrow> store \<Rightarrow> store_err option \<times> store" where
  "RecordAttempt i smtpCode resp class nxt s =
     (let at = rfc3339 (storeNow s);
          code = (if smtpCode > 0 then Some smtpCode else None)
      in in_tx (insert_attempt i at code resp class (map_option rfc3339 nxt))
               (update_message i (attempt_summary at class code resp)) s)"

definition RecordRemoval :: "id \<Rightarrow> store \<Rightarrow> store_err option \<times> store" where
  "RecordRemoval i s = RecordAttempt i 0 [] ClassRemoved None s"

definition requeue_summary :: "int \<Rightarrow> summary \<Rightarrow> summary" where
  "requeue_summary at u = u\<lparr>suClass := Some ClassRequeued, suLast := Some at\<rparr>"

definition RecordRequeue :: "id \<Rightarrow> store \<Rightarrow> store_err option \<times> store" where
  "RecordRequeue i s =
     (let at = rfc3339 (storeNow s) in
      in_tx (insert_attempt i at None [] ClassRequeued None) (update_message i (requeue_summary at)) s)"

definition RecordAudit :: "string \<Rightarrow> string \<Rightarrow> string \<Rightarrow> id \<Rightarrow> string \<Rightarrow> store \<Rightarrow> store_err option \<times> store" where
  "RecordAudit token source act i details s =
     (case db_call s of
        (False, s1) \<Rightarrow> (Some DbFault, s1)
      | (True, s1) \<Rightarrow> (None, s1\<lparr>audits := audits s1 @
          [\<lparr>auTime = rfc3339 (storeNow s), auToken = token, auSource = source, auAction = act, auQueue = i,
            auDetails = details\<rparr>]\<rparr>))"

section \<open>Retention\<close>

definition claimCleanup :: "instant \<Rightarrow> store \<Rightarrow> bool \<times> store" where
  "claimCleanup now s =
     (if time_sub now (lastCleanup s) \<le> hour then (False, s) else (True, s\<lparr>lastCleanup := now\<rparr>))"

definition retentionChunk :: nat where "retentionChunk = 5000"

text \<open>The rows one chunk deletes, and the messages and attempts left (attempts follow their message).\<close>

definition delete_chunk :: "int \<Rightarrow> store \<Rightarrow> nat \<times> store" where
  "delete_chunk cutoff s =
     (let old = take retentionChunk (map rowID (filter (\<lambda>r. rowCreated r < cutoff) (messages s))) in
      (length (filter (\<lambda>r. rowID r \<in> set old) (messages s)),
       s\<lparr>messages := filter (\<lambda>r. rowID r \<notin> set old) (messages s),
         attempts := filter (\<lambda>a. atQueue a \<notin> set old) (attempts s)\<rparr>))"

lemma filter_shrinks: "filter P xs \<noteq> [] \<Longrightarrow> length (filter (\<lambda>x. \<not> P x) xs) < length xs"
  using sum_length_filter_compl [of P xs] by (cases "filter P xs") auto

lemma delete_chunk_shrinks: "delete_chunk cutoff s = (n, s') \<Longrightarrow> n \<noteq> 0 \<Longrightarrow> length (messages s') < length (messages s)"
  by (auto simp: delete_chunk_def Let_def filter_shrinks)

lemma db_call_tables:
  "db_call s = (ok, s') \<Longrightarrow> messages s' = messages s \<and> attempts s' = attempts s \<and> audits s' = audits s \<and>
     storeNow s' = storeNow s \<and> retainSubjects s' = retainSubjects s"
  by (auto simp: db_call_def split: list.splits)

function retention_loop :: "int \<Rightarrow> nat \<Rightarrow> store \<Rightarrow> nat \<times> store" where
  "retention_loop cutoff sofar s =
     (case db_call s of
        (False, s1) \<Rightarrow> (sofar, s1)
      | (True, s1) \<Rightarrow>
          (case delete_chunk cutoff s1 of
             (affected, s2) \<Rightarrow>
               if affected = 0 then (sofar, s2)
               else if affected < retentionChunk then (sofar + affected, s2)
               else retention_loop cutoff (sofar + affected) s2))"
  by pat_completeness auto

termination
  by (relation "measure (\<lambda>(_, _, s). length (messages s))")
     (auto dest!: delete_chunk_shrinks [OF sym] db_call_tables [OF sym])

declare retention_loop.simps [simp del]

definition RetentionSweep :: "instant \<Rightarrow> store \<Rightarrow> nat \<times> store" where
  "RetentionSweep now s =
     (case claimCleanup now s of
        (False, s1) \<Rightarrow> (0, s1)
      | (True, s1) \<Rightarrow> retention_loop (rfc3339 (now - retentionTTL s)) 0 s1)"

section \<open>Reading one message\<close>

definition Redacted :: string where "Redacted = ''[redacted]''"

definition redactSubject :: "string \<Rightarrow> store \<Rightarrow> string" where
  "redactSubject subject s = (if retainSubjects s then subject else Redacted)"

record Message =
  mgRow :: msg_row
  mgSubject :: string
  mgStatus :: string
  mgAttempts :: "att_row list"
  mgCount :: nat
  mgLastCode :: int
  mgLastErr :: string

definition scan_message :: "store \<Rightarrow> att_row list \<Rightarrow> msg_row \<Rightarrow> Message" where
  "scan_message s as r =
     \<lparr>mgRow = r, mgSubject = redactSubject (recSubject (rowRec r)) s, mgStatus = classToStatus (suClass (rowSum r)),
      mgAttempts = as, mgCount = suCount (rowSum r),
      mgLastCode = (case suCode (rowSum r) of Some c \<Rightarrow> c | None \<Rightarrow> 0),
      mgLastErr = (case suResp (rowSum r) of Some e \<Rightarrow> e | None \<Rightarrow> [])\<rparr>"

definition FindMessageByID :: "id \<Rightarrow> store \<Rightarrow> (store_err + Message option) \<times> store" where
  "FindMessageByID i s =
     (case db_call s of
        (False, s1) \<Rightarrow> (Inl DbFault, s1)
      | (True, s1) \<Rightarrow>
          (case find (\<lambda>r. rowID r = i) (messages s1) of
             None \<Rightarrow> (Inr None, s1)
           | Some r \<Rightarrow>
               (case db_call s1 of
                  (False, s2) \<Rightarrow> (Inl DbFault, s2)
                | (True, s2) \<Rightarrow>
                    (Inr (Some (scan_message s2 (sort_key atTime (filter (\<lambda>a. atQueue a = i) (attempts s2))) r)), s2))))"

definition ReconcileRemoved :: "id \<Rightarrow> store \<Rightarrow> (store_err + bool) \<times> store" where
  "ReconcileRemoved i s =
     (case FindMessageByID i s of
        (Inl e, s1) \<Rightarrow> (Inl e, s1)
      | (Inr None, s1) \<Rightarrow> (Inr False, s1)
      | (Inr (Some m), s1) \<Rightarrow>
          if mgStatus m = StatusQueued \<or> mgStatus m = StatusDeferred then
            (case RecordRemoval i s1 of
               (Some e, s2) \<Rightarrow> (Inl e, s2)
             | (None, s2) \<Rightarrow> (Inr True, s2))
          else (Inr False, s1))"

section \<open>Backfilling the summary columns\<close>

definition history :: "id \<Rightarrow> att_row list \<Rightarrow> att_row list" where
  "history i as = filter (\<lambda>a. atQueue a = i) as"

definition counted :: "att_row list \<Rightarrow> att_row list" where
  "counted as = filter (\<lambda>a. atClass a \<noteq> ClassRequeued) as"

text \<open>What the statements of \<open>backfillSummaries\<close> compute for a row, from its attempts.\<close>

definition backfill_summary :: "att_row list \<Rightarrow> summary" where
  "backfill_summary as =
     (let c = counted as in
      \<lparr>suCount = length c,
       suFirst = (if c = [] then None else Some (Min (set (map atTime c)))),
       suLast = (if as = [] then None else Some (Max (set (map atTime as)))),
       suClass = (if as = [] then None else Some (atClass (last as))),
       suCode = (if c = [] then None else atCode (last c)),
       suResp = (if c = [] then None else Some (atResp (last c))),
       suBounced = list_ex (\<lambda>a. atClass a = ClassPermanent \<or> atClass a = ClassExpired) as\<rparr>)"

definition pending :: "att_row list \<Rightarrow> msg_row \<Rightarrow> bool" where
  "pending as r \<longleftrightarrow> suClass (rowSum r) = None \<and> history (rowID r) as \<noteq> []"

definition backfill_row :: "att_row list \<Rightarrow> msg_row \<Rightarrow> msg_row" where
  "backfill_row as r =
     (if pending as r
      then (let u = backfill_summary (history (rowID r) as)
            in r\<lparr>rowSum := u\<lparr>suBounced := (suBounced u \<or> suBounced (rowSum r))\<rparr>\<rparr>)
      else r)"

text \<open>Eight calls after the check: begin, seven statements in one transaction and the commit.\<close>

fun db_calls :: "nat \<Rightarrow> store \<Rightarrow> bool \<times> store" where
  "db_calls 0 s = (True, s)"
| "db_calls (Suc n) s = (case db_call s of (False, s1) \<Rightarrow> (False, s1) | (True, s1) \<Rightarrow> db_calls n s1)"

definition backfillSummaries :: "store \<Rightarrow> store_err option \<times> store" where
  "backfillSummaries s =
     (case db_call s of
        (False, s1) \<Rightarrow> (Some DbFault, s1)
      | (True, s1) \<Rightarrow>
          if \<not> list_ex (pending (attempts s1)) (messages s1) then (None, s1)
          else (case db_calls 9 s1 of
                  (False, s2) \<Rightarrow> (Some DbFault, s2)
                | (True, s2) \<Rightarrow> (None, s2\<lparr>messages := map (backfill_row (attempts s2)) (messages s2)\<rparr>)))"

end
