(* ===== verification/Journal_Run.thy ===== *)
theory Journal_Run
  imports Journal_Store "HOL-Library.Multiset"
begin

text \<open>
  What a journal looks like after any history of writes: every summary column is a function of the
  attempts of its message. The environment may fail any call, restart the program, change its settings and
  set the clock: \<open>storeNow\<close> is the wall clock and may step back, and where an answer depends on that the
  theorems say so.
\<close>

section \<open>Summaries as functions of the attempts\<close>

definition write_summary :: "att_row list \<Rightarrow> summary" where
  "write_summary as =
     (let c = counted as in
      \<lparr>suCount = length c,
       suFirst = (case c of [] \<Rightarrow> None | a # _ \<Rightarrow> Some (atTime a)),
       suLast = (if as = [] then None else Some (atTime (last as))),
       suClass = (if as = [] then None else Some (atClass (last as))),
       suCode = (if c = [] then None else atCode (last c)),
       suResp = (if c = [] then None else Some (atResp (last c))),
       suBounced = list_ex (\<lambda>a. classStatus (atClass a) = Some StatusBounced) as\<rparr>)"

lemma write_summary_Nil: "write_summary [] = empty_summary"
  by (simp add: write_summary_def counted_def empty_summary_def)

lemma counted_append: "counted (as @ bs) = counted as @ counted bs"
  by (simp add: counted_def)

lemma write_summary_attempt:
  assumes "atClass a \<noteq> ClassRequeued"
  shows "attempt_summary (atTime a) (atClass a) (atCode a) (atResp a) (write_summary as) = write_summary (as @ [a])"
  using assms by (auto simp: attempt_summary_def write_summary_def counted_append Let_def counted_def split: list.splits)

lemma write_summary_requeue:
  assumes "atClass a = ClassRequeued"
  shows "requeue_summary (atTime a) (write_summary as) = write_summary (as @ [a])"
  using assms
  by (auto simp: requeue_summary_def write_summary_def counted_append Let_def counted_def classes statuses classStatus_def
      split: list.splits)

lemma bounced_class: "classStatus c = Some StatusBounced \<longleftrightarrow> c = ClassPermanent \<or> c = ClassExpired"
  by (auto simp: classStatus_def classes statuses)

text \<open>With the attempts in the order of their times the backfill computes the same columns.\<close>

lemma backfill_is_write:
  assumes "sorted (map atTime as)"
  shows "backfill_summary as = write_summary as"
proof -
  have mn: "Min (set (map atTime bs)) = atTime (hd bs)" if "bs \<noteq> []" "sorted (map atTime bs)" for bs
    using that by (cases bs) (auto intro!: Min_eqI)
  have mx: "Max (set (map atTime as)) = atTime (last as)" if "as \<noteq> []"
    using that assms by (cases as rule: rev_cases) (auto simp: sorted_append intro!: Max_eqI)
  have "sorted (map atTime (counted as))"
    using assms by (simp add: counted_def sorted_filter)
  then show ?thesis
    using mn [of "counted as"] mx
    by (auto simp: backfill_summary_def write_summary_def Let_def bounced_class split: list.splits)
qed

section \<open>One write\<close>

lemma history_append: "history i (as @ bs) = history i as @ history i bs"
  by (simp add: history_def)

lemma history_filter:
  "history i (filter (\<lambda>a. atQueue a \<notin> S) as) = (if i \<in> S then [] else history i as)"
  by (auto simp: history_def filter_empty_conv intro!: filter_cong)

lemma rowID_upd [simp]: "map rowID (upd_message i f rs) = map rowID rs"
  by (auto simp: upd_message_def)

lemma db_call_keeps:
  assumes "db_call s = (ok, s')"
  shows "messages s' = messages s" "attempts s' = attempts s" "storeNow s' = storeNow s" "has_message i s' = has_message i s"
  using db_call_tables [OF assms] by (simp_all add: has_message_def)

lemma insert_attempt_cases:
  assumes "insert_attempt i at code resp class nx s = (e, s')"
  shows "storeNow s' = storeNow s \<and> messages s' = messages s \<and>
    (e = None \<longrightarrow> has_message i s \<and> attempts s' = attempts s @ [\<lparr>atQueue = i, atNum = next_num i (attempts s),
       atTime = at, atCode = code, atResp = resp, atClass = class, atNext = nx\<rparr>])"
proof -
  obtain ok s1 where d: "db_call s = (ok, s1)" by fastforce
  show ?thesis
    using assms db_call_keeps(1-3) [OF d] db_call_keeps(4) [OF d, where i = i] unfolding insert_attempt_def d
    by (cases ok; cases "has_message i s1") auto
qed

lemma update_message_cases:
  assumes "update_message i f s = (e, s')"
  shows "storeNow s' = storeNow s \<and> attempts s' = attempts s \<and>
    (e = None \<longrightarrow> messages s' = upd_message i f (messages s))"
proof -
  obtain ok s1 where d: "db_call s = (ok, s1)" by fastforce
  show ?thesis
    using assms db_call_keeps [OF d] unfolding update_message_def d by (cases ok) auto
qed

lemma in_tx_cases:
  assumes "in_tx (insert_attempt i at code resp class nx) (update_message i f) s = (e, s')"
  shows "storeNow s' = storeNow s \<and>
    (e \<noteq> None \<and> messages s' = messages s \<and> attempts s' = attempts s \<or>
     e = None \<and> has_message i s \<and> messages s' = upd_message i f (messages s) \<and>
       attempts s' = attempts s @ [\<lparr>atQueue = i, atNum = next_num i (attempts s), atTime = at, atCode = code,
         atResp = resp, atClass = class, atNext = nx\<rparr>])"
proof -
  obtain ok s1 where d: "db_call s = (ok, s1)" by fastforce
  obtain e1 s2 where i: "insert_attempt i at code resp class nx s1 = (e1, s2)" by fastforce
  obtain e2 s3 where u: "update_message i f s2 = (e2, s3)" by fastforce
  obtain ok2 s4 where c: "db_call s3 = (ok2, s4)" by fastforce
  note k = db_call_keeps(1-3) [OF d] db_call_keeps(4) [OF d, where i = i] db_call_keeps(1-3) [OF c]
  note ic = insert_attempt_cases [OF i] and uc = update_message_cases [OF u]
  have eq: "in_tx (insert_attempt i at code resp class nx) (update_message i f) s =
    (if \<not> ok then (Some DbFault, s1) else if e1 \<noteq> None then (e1, rollback s s2)
     else if e2 \<noteq> None then (e2, rollback s s3) else if \<not> ok2 then (Some DbFault, rollback s s4) else (None, s4))"
    unfolding in_tx_def d prod.case by (cases ok; cases e1; cases e2; cases ok2) (simp_all add: i u c)
  show ?thesis
  proof (cases "ok \<and> e1 = None \<and> e2 = None \<and> ok2")
    case True
    then show ?thesis using assms ic uc k unfolding eq by simp
  next
    case False
    have "storeNow s2 = storeNow s" "storeNow s3 = storeNow s" "storeNow s4 = storeNow s" using ic uc k by simp_all
    then show ?thesis using assms False k(1-3) unfolding eq by (auto simp: rollback_def split: if_split_asm)
  qed
qed

section \<open>The invariant\<close>

definition journal_ok :: "store \<Rightarrow> bool" where
  "journal_ok s \<longleftrightarrow>
     distinct (map rowID (messages s)) \<and>
     (\<forall>a \<in> set (attempts s). has_message (atQueue a) s) \<and>
     (\<forall>a \<in> set (attempts s). classStatus (atClass a) \<noteq> None) \<and>
     (\<forall>r \<in> set (messages s). rowSum r = write_summary (history (rowID r) (attempts s))) \<and>
     (\<forall>i. map atNum (history i (attempts s)) = [1..<Suc (length (history i (attempts s)))])"

lemma journal_okD:
  assumes "journal_ok s"
  shows "distinct (map rowID (messages s))"
    and "\<And>a. a \<in> set (attempts s) \<Longrightarrow> has_message (atQueue a) s"
    and "\<And>r. r \<in> set (messages s) \<Longrightarrow> rowSum r = write_summary (history (rowID r) (attempts s))"
    and "\<And>i. map atNum (history i (attempts s)) = [1..<Suc (length (history i (attempts s)))]"
    and "\<And>a. a \<in> set (attempts s) \<Longrightarrow> classStatus (atClass a) \<noteq> None"
  using assms by (auto simp: journal_ok_def)

lemma fold_max_upt: "fold max [1..<Suc n] 0 = n"
  by (induction n) auto

lemma next_num_history: "next_num i as = fold max (map atNum (history i as)) 0 + 1"
  by (simp add: next_num_def history_def)

lemma history_fresh:
  assumes "journal_ok s" "\<not> has_message i s"
  shows "history i (attempts s) = []"
  using journal_okD(2) [OF assms(1)] assms(2) by (auto simp: history_def filter_empty_conv)

lemma attempt_keeps_ok:
  assumes ok: "journal_ok s" and h: "has_message i s" and q: "atQueue a = i"
    and n: "atNum a = next_num i (attempts s)"
    and k: "classStatus (atClass a) \<noteq> None"
    and f: "\<And>as. f (write_summary as) = write_summary (as @ [a])"
    and m: "messages s' = upd_message i f (messages s)" and as: "attempts s' = attempts s @ [a]"
  shows "journal_ok s'"
proof -
  note o = journal_okD [OF ok]
  have hist: "history j (attempts s') = (if j = i then history i (attempts s) @ [a] else history j (attempts s))" for j
    using q by (auto simp: as history_append history_def)
  have ids: "map rowID (messages s') = map rowID (messages s)" by (simp add: m)
  have "rowSum r = write_summary (history (rowID r) (attempts s'))" if "r \<in> set (messages s')" for r
  proof -
    obtain r0 where r0: "r0 \<in> set (messages s)" "r = (if rowID r0 = i then r0\<lparr>rowSum := f (rowSum r0)\<rparr> else r0)"
      using \<open>r \<in> set (messages s')\<close> by (auto simp: m upd_message_def)
    show ?thesis using r0(2) o(3) [OF r0(1)] by (auto simp: hist f)
  qed
  moreover have "map atNum (history j (attempts s')) = [1..<Suc (length (history j (attempts s')))]" for j
  proof (cases "j = i")
    case True
    then have "atNum a = Suc (length (history i (attempts s)))"
      by (simp only: n next_num_history o(4) fold_max_upt)
    then show ?thesis using True by (simp add: hist o(4) del: upt_Suc) simp
  qed (simp add: hist o(4) del: upt_Suc)
  moreover have "has_message (atQueue b) s'" if "b \<in> set (attempts s')" for b
    using that o(2) [of b] h q ids by (auto simp: as has_message_def)
  moreover have "classStatus (atClass b) \<noteq> None" if "b \<in> set (attempts s')" for b
    using that o(5) [of b] k by (auto simp: as)
  ultimately show ?thesis using o(1) ids unfolding journal_ok_def by simp
qed

lemma same_tables_ok:
  assumes "journal_ok s" "messages s' = messages s" "attempts s' = attempts s"
  shows "journal_ok s'"
  using assms by (force simp: journal_ok_def has_message_def)

lemma RecordAttempt_ok:
  assumes "journal_ok s" "class \<noteq> ClassRequeued" "classStatus class \<noteq> None" "RecordAttempt i code resp class nx s = (e, s')"
  shows "journal_ok s'"
  using in_tx_cases [OF assms(4) [unfolded RecordAttempt_def Let_def]]
proof (elim conjE disjE)
  assume h: "has_message i s"
    and m: "messages s' = upd_message i (attempt_summary (rfc3339 (storeNow s)) class (if code > 0 then Some code else None) resp) (messages s)"
    and a: "attempts s' = attempts s @ [\<lparr>atQueue = i, atNum = next_num i (attempts s), atTime = rfc3339 (storeNow s),
      atCode = if code > 0 then Some code else None, atResp = resp, atClass = class, atNext = map_option rfc3339 nx\<rparr>]"
  show ?thesis
    by (rule attempt_keeps_ok [OF assms(1) h _ _ _ _ m a]) (use assms(2,3) in \<open>simp_all flip: write_summary_attempt\<close>)
qed (use assms(1) in \<open>auto intro: same_tables_ok\<close>)

lemma RecordRequeue_ok:
  assumes "journal_ok s" "RecordRequeue i s = (e, s')"
  shows "journal_ok s'"
  using in_tx_cases [OF assms(2) [unfolded RecordRequeue_def Let_def]]
proof (elim conjE disjE)
  assume h: "has_message i s"
    and m: "messages s' = upd_message i (requeue_summary (rfc3339 (storeNow s))) (messages s)"
    and a: "attempts s' = attempts s @ [\<lparr>atQueue = i, atNum = next_num i (attempts s), atTime = rfc3339 (storeNow s),
      atCode = None, atResp = [], atClass = ClassRequeued, atNext = None\<rparr>]"
  show ?thesis
    by (rule attempt_keeps_ok [OF assms(1) h _ _ _ _ m a]) (simp_all add: classStatus_def flip: write_summary_requeue)
qed (use assms(1) in \<open>auto intro: same_tables_ok\<close>)

lemma RecordRemoval_ok:
  "journal_ok s \<Longrightarrow> RecordRemoval i s = (e, s') \<Longrightarrow> journal_ok s'"
  unfolding RecordRemoval_def by (rule RecordAttempt_ok) (auto simp: classes classStatus_def)

lemma FindMessageByID_tables:
  "FindMessageByID i s = (r, s') \<Longrightarrow> messages s' = messages s \<and> attempts s' = attempts s \<and> storeNow s' = storeNow s"
  by (auto simp: FindMessageByID_def split: prod.splits bool.splits option.splits dest!: db_call_tables)

lemma ReconcileRemoved_ok:
  assumes "journal_ok s" "ReconcileRemoved i s = (r, s')"
  shows "journal_ok s'"
proof -
  obtain x s1 where f: "FindMessageByID i s = (x, s1)" by fastforce
  have ok: "journal_ok s1" using same_tables_ok [OF assms(1)] FindMessageByID_tables [OF f] by simp
  obtain e s2 where r: "RecordRemoval i s1 = (e, s2)" by fastforce
  show ?thesis using assms(2) ok RecordRemoval_ok [OF ok r]
    by (auto simp: ReconcileRemoved_def f r split: sum.splits option.splits if_splits)
qed

lemma RecordMessage_ok:
  assumes "journal_ok s" "RecordMessage rc s = (e, s')"
  shows "journal_ok s'"
proof (cases e)
  case None
  define row where "row = \<lparr>rowRec = (if retainSubjects s then rc else rc\<lparr>recSubject := []\<rparr>),
    rowReceived = rfc3339 (recReceivedAt rc), rowExpires = rfc3339 (recExpiresAt rc),
    rowCreated = rfc3339 (storeNow s), rowSum = empty_summary\<rparr>"
  have row: "rowID row = recQueueID rc" "rowSum row = empty_summary" by (simp_all add: row_def)
  obtain s1 where s1: "db_call s = (True, s1)" and n: "\<not> has_message (recQueueID rc) s1"
    and s': "s' = s1\<lparr>messages := messages s1 @ [row]\<rparr>"
    using assms(2) None unfolding RecordMessage_def Let_def row_def [symmetric]
    by (auto split: prod.splits bool.splits if_split_asm)
  have ok: "journal_ok s1" using same_tables_ok [OF assms(1)] db_call_tables [OF s1] by simp
  note o = journal_okD [OF ok]
  show ?thesis
    using o n row history_fresh [OF ok n] unfolding journal_ok_def s'
    by (auto simp: has_message_def write_summary_Nil)
next
  case (Some x)
  then show ?thesis using assms(2) same_tables_ok [OF assms(1)]
    by (auto simp: RecordMessage_def Let_def split: prod.splits bool.splits if_splits dest!: db_call_tables)
qed

lemma delete_chunk_ok:
  assumes "journal_ok s" "delete_chunk cutoff s = (n, s')"
  shows "journal_ok s'"
proof -
  define S where "S = set (take retentionChunk (map rowID (filter (\<lambda>r. rowCreated r < cutoff) (messages s))))"
  have s': "s' = s\<lparr>messages := filter (\<lambda>r. rowID r \<notin> S) (messages s), attempts := filter (\<lambda>a. atQueue a \<notin> S) (attempts s)\<rparr>"
    using assms(2) by (auto simp: delete_chunk_def Let_def S_def)
  note o = journal_okD [OF assms(1)]
  have "\<forall>a \<in> set (attempts s'). has_message (atQueue a) s'"
    using o(2) by (force simp: s' has_message_def)
  moreover have "\<forall>r \<in> set (messages s'). rowSum r = write_summary (history (rowID r) (attempts s'))"
    using o(3) by (simp add: s' history_filter)
  moreover have "map atNum (history i (attempts s')) = [1..<Suc (length (history i (attempts s')))]" for i
    using o(4) [of i] by (simp add: s' history_filter del: upt_Suc)
  ultimately show ?thesis
    using o(1,5) unfolding journal_ok_def by (simp add: s' distinct_map_filter sorted_filter del: upt_Suc)
qed

lemma retention_loop_ok: "journal_ok s \<Longrightarrow> retention_loop cutoff n s = (m, s') \<Longrightarrow> journal_ok s'"
proof (induction cutoff n s arbitrary: m s' rule: retention_loop.induct)
  case (1 cutoff n s)
  obtain ok s1 where d: "db_call s = (ok, s1)" by fastforce
  have k: "journal_ok s1" using same_tables_ok [OF "1.prems"(1)] db_call_tables [OF d] by simp
  obtain x s2 where c: "delete_chunk cutoff s1 = (x, s2)" by fastforce
  note k2 = delete_chunk_ok [OF k c]
  show ?case
    using "1.prems"(2) k k2 "1.IH" [OF d [symmetric] _ c [symmetric] _ _ k2]
    by (subst (asm) retention_loop.simps) (auto simp: d c split: bool.splits if_splits)
qed

lemma RetentionSweep_ok: "journal_ok s \<Longrightarrow> RetentionSweep now s = (n, s') \<Longrightarrow> journal_ok s'"
  by (auto simp: RetentionSweep_def claimCleanup_def split: prod.splits bool.splits if_splits
      intro: same_tables_ok elim!: retention_loop_ok [rotated])

section \<open>Histories\<close>

inductive journal :: "store \<Rightarrow> bool" where
  created: "journal s" if "messages s = []" "attempts s = []"
| message: "journal s'" if "journal s" "RecordMessage rc s = (e, s')"
| attempt: "journal s'" if "journal s" "class \<in> {ClassDelivered, ClassTemporary, ClassPermanent, ClassExpired}"
    "RecordAttempt i code resp class nx s = (e, s')"
| removal: "journal s'" if "journal s" "RecordRemoval i s = (e, s')"
| requeue: "journal s'" if "journal s" "RecordRequeue i s = (e, s')"
| reconcile: "journal s'" if "journal s" "ReconcileRemoved i s = (r, s')"
| audit: "journal s'" if "journal s" "RecordAudit token source act i details s = (e, s')"
| sweep: "journal s'" if "journal s" "RetentionSweep now s = (n, s')"
| environment: "journal s'" if "journal s" "messages s' = messages s" "attempts s' = attempts s"

lemma RecordAudit_tables:
  "RecordAudit token source act i details s = (e, s') \<Longrightarrow>
     messages s' = messages s \<and> attempts s' = attempts s \<and> storeNow s' = storeNow s"
  by (auto simp: RecordAudit_def split: prod.splits bool.splits dest!: db_call_tables)

lemma journal_is_ok: "journal s \<Longrightarrow> journal_ok s"
proof (induction rule: journal.induct)
  case (created s)
  then show ?case by (simp add: journal_ok_def history_def)
next
  case (attempt s cl i code resp nx e s')
  then show ?case using RecordAttempt_ok [OF attempt.IH _ _ attempt.hyps(3)] by (auto simp: classes classStatus_def)
next
  case (audit s token source act i details e s')
  show ?case using same_tables_ok [OF audit.IH] RecordAudit_tables [OF audit.hyps(2)] by simp
next
  case (environment s s')
  show ?case by (rule same_tables_ok [OF environment.IH environment.hyps(2,3)])
qed (erule (1) RecordMessage_ok RecordRemoval_ok RecordRequeue_ok ReconcileRemoved_ok RetentionSweep_ok)+

lemma sort_key_sorted: "sorted (map f xs) \<Longrightarrow> sort_key f xs = xs"
  by (induction xs) (auto simp: insort_is_Cons)

lemma find_SomeD: "find P xs = Some x \<Longrightarrow> x \<in> set xs \<and> P x"
  by (induction xs) (auto split: if_splits)

lemma FindMessageByID_row:
  assumes "FindMessageByID i s = (Inr (Some m), s')"
  obtains r where "r \<in> set (messages s)" "rowID r = i"
    "m = scan_message s (sort_key atTime (history i (attempts s))) r"
proof -
  obtain ok s1 where d: "db_call s = (ok, s1)" by fastforce
  obtain ok2 s2 where c: "db_call s1 = (ok2, s2)" by fastforce
  have k: "messages s2 = messages s" "attempts s2 = attempts s" "retainSubjects s2 = retainSubjects s"
    "messages s1 = messages s"
    using db_call_tables [OF d] db_call_tables [OF c] by simp_all
  have sc: "scan_message s2 as r = scan_message s as r" for as r
    by (simp add: scan_message_def redactSubject_def k)
  show ?thesis
    using assms that k unfolding FindMessageByID_def d
    by (cases ok; cases ok2) (auto simp: c sc history_def split: option.splits dest!: find_SomeD)
qed

text \<open>C16: The history of a message agrees with itself. In every journal the program can have written
  (messages, attempts, removals, requeues, reconciliations and retention sweeps in any order, any
  of them failing half way, on a wall clock that may step back), the attempts \<open>FindMessageByID\<close> lists are
  those of the message, by their times; in the order in which they were written they are numbered
  1, 2, ... without a gap, the count is the number that are not requeues, the status is the one of the
  attempt written last ("queued" with none), the last reply is the one of the attempt written last that
  is not a requeue, and no attempt belongs to a deleted message. The list is in the order of writing,
  and so ends in the attempt the status is of, when no time lies before the one of an earlier attempt.\<close>

theorem journal_agrees_with_attempts:
  assumes "journal s" and "FindMessageByID i s = (Inr (Some m), s')"
  shows "let as = history i (attempts s); c = counted as in
    map atNum as = [1..<Suc (length as)] \<and>
    mset (mgAttempts m) = mset as \<and> sorted (map atTime (mgAttempts m)) \<and> (sorted (map atTime as) \<longrightarrow> mgAttempts m = as) \<and>
    mgCount m = length c \<and>
    mgStatus m = (if as = [] then StatusQueued else the (classStatus (atClass (last as)))) \<and>
    mgLastErr m = (if c = [] then [] else atResp (last c)) \<and>
    (\<forall>a \<in> set (attempts s). has_message (atQueue a) s)"
proof -
  note ok = journal_is_ok [OF assms(1)] and o = journal_okD [OF journal_is_ok [OF assms(1)]]
  obtain r where r: "r \<in> set (messages s)" "rowID r = i"
    and m: "m = scan_message s (sort_key atTime (history i (attempts s))) r"
    using assms(2) by (rule FindMessageByID_row)
  define as where "as = history i (attempts s)"
  have u: "rowSum r = write_summary as" using o(3) [OF r(1)] r(2) by (simp add: as_def)
  have "classStatus (atClass (last as)) \<noteq> None" if "as \<noteq> []"
    using o(5) last_in_set [OF that] by (auto simp: as_def history_def)
  then have "mgStatus m = (if as = [] then StatusQueued else the (classStatus (atClass (last as))))"
    by (auto simp: m scan_message_def u classToStatus_def write_summary_def Let_def split: option.splits)
  moreover have "mgAttempts m = sort_key atTime as" by (simp add: m scan_message_def as_def)
  moreover have "map atNum as = [1..<Suc (length as)]" using o(4) by (simp add: as_def)
  ultimately show ?thesis
    using o(2) sort_key_sorted [of atTime as] unfolding Let_def as_def [symmetric]
    by (auto simp: m scan_message_def u write_summary_def Let_def as_def [symmetric] simp del: upt_Suc)
qed

text \<open>Rows written before the summary columns existed: the columns are at their defaults.\<close>

definition forget :: "(msg_row \<Rightarrow> bool) \<Rightarrow> store \<Rightarrow> store" where
  "forget P s = s\<lparr>messages := map (\<lambda>r. if P r then r\<lparr>rowSum := empty_summary\<rparr> else r) (messages s)\<rparr>"

lemma db_calls_tables: "db_calls n s = (ok, s') \<Longrightarrow> messages s' = messages s \<and> attempts s' = attempts s"
  by (induction n arbitrary: s) (auto split: prod.splits bool.splits dest!: db_call_tables)

lemma pending_iff:
  assumes "rowSum r = write_summary (history (rowID r) as)"
  shows "\<not> pending as r"
  using assms by (auto simp: pending_def write_summary_def Let_def)

text \<open>What the backfill makes of a row: its times are the earliest and the latest, whatever the order of writing.\<close>

definition spanning :: "att_row list \<Rightarrow> msg_row \<Rightarrow> msg_row" where
  "spanning as r = r\<lparr>rowSum := (rowSum r)
     \<lparr>suFirst := suFirst (backfill_summary (history (rowID r) as)), suLast := suLast (backfill_summary (history (rowID r) as))\<rparr>\<rparr>"

lemma backfill_but_times:
  "(write_summary as)\<lparr>suFirst := suFirst (backfill_summary as), suLast := suLast (backfill_summary as)\<rparr> = backfill_summary as"
  by (auto simp: backfill_summary_def write_summary_def Let_def bounced_class split: list.splits)

lemma spanning_sorted:
  assumes "rowSum r = write_summary (history (rowID r) as)" "sorted (map atTime (history (rowID r) as))"
  shows "spanning as r = r"
  by (simp add: spanning_def backfill_is_write [OF assms(2)] flip: assms(1))

lemma forgotten_row:
  fixes P :: "msg_row \<Rightarrow> bool"
  assumes "journal s" "r \<in> set (messages s)"
  defines "q \<equiv> (if P r then r\<lparr>rowSum := empty_summary\<rparr> else r)"
  shows "backfill_row (attempts s) q = (if P r then spanning (attempts s) r else r)"
    and "\<not> pending (attempts s) q \<Longrightarrow> q = r \<and> (P r \<longrightarrow> spanning (attempts s) r = r)"
proof -
  note o = journal_okD [OF journal_is_ok [OF assms(1)]]
  let ?as = "history (rowID r) (attempts s)"
  have u: "rowSum r = write_summary ?as" by (rule o(3) [OF assms(2)])
  have n: "pending (attempts s) (r\<lparr>rowSum := empty_summary\<rparr>) \<longleftrightarrow> ?as \<noteq> []"
    by (simp add: pending_def empty_summary_def)
  have e: "r\<lparr>rowSum := empty_summary\<rparr> = r" "spanning (attempts s) r = r" if "?as = []"
    using u that spanning_sorted [OF u] by (simp_all add: write_summary_Nil)
  have restored: "backfill_row (attempts s) (r\<lparr>rowSum := empty_summary\<rparr>) = spanning (attempts s) r"
  proof -
    have "suBounced empty_summary = False" by (simp add: empty_summary_def)
    moreover have "spanning (attempts s) r = r\<lparr>rowSum := backfill_summary ?as\<rparr>"
      by (simp add: spanning_def u backfill_but_times)
    ultimately show ?thesis using e by (simp add: backfill_row_def n Let_def)
  qed
  have np: "\<not> pending (attempts s) r" using pending_iff [OF u] .
  show "backfill_row (attempts s) q = (if P r then spanning (attempts s) r else r)"
    using restored np by (auto simp: q_def backfill_row_def)
  show "\<not> pending (attempts s) q \<Longrightarrow> q = r \<and> (P r \<longrightarrow> spanning (attempts s) r = r)" using e by (auto simp: q_def n)
qed

text \<open>C17: The backfill repairs. Take any journal the program has written, on a wall clock that may step back, and put
  the summary columns of any of its rows back to their defaults, as an old database or an interrupted
  migration has them. \<open>backfillSummaries\<close> then either fails and changes nothing, or leaves the other rows
  alone and gives these back every column as the write path had left it but the two times, which become
  the earliest time of an attempt that is no requeue and the latest of any (\<open>spanning\<close>). The write path
  keeps the times of the first and of the last one written: the same, and the row is restored exactly,
  when no attempt of the message has a time before the one of an earlier attempt.\<close>

theorem backfill_equals_write_path:
  assumes "journal s" and "backfillSummaries (forget P s) = (e, s')"
  shows "messages s' = (if e = None then map (\<lambda>r. if P r then spanning (attempts s) r else r) (messages s)
      else messages (forget P s)) \<and>
    attempts s' = attempts s \<and>
    (\<forall>r \<in> set (messages s). sorted (map atTime (history (rowID r) (attempts s))) \<longrightarrow> spanning (attempts s) r = r)"
proof -
  let ?f = "\<lambda>r. if P r then r\<lparr>rowSum := empty_summary\<rparr> else r"
  let ?g = "\<lambda>r. if P r then spanning (attempts s) r else r"
  have fm: "messages (forget P s) = map ?f (messages s)" "attempts (forget P s) = attempts s"
    by (simp_all add: forget_def)
  obtain ok s1 where d: "db_call (forget P s) = (ok, s1)" by fastforce
  obtain ok2 s2 where c: "db_calls 9 s1 = (ok2, s2)" by fastforce
  have k: "messages s1 = map ?f (messages s)" "attempts s1 = attempts s"
    "messages s2 = map ?f (messages s)" "attempts s2 = attempts s"
    using db_call_tables [OF d] db_calls_tables [OF c] fm by simp_all
  have r1: "map (backfill_row (attempts s)) (map ?f (messages s)) = map ?g (messages s)"
    using forgotten_row(1) [OF assms(1)] by simp
  have r2: "map ?f (messages s) = map ?g (messages s)" if "\<not> list_ex (pending (attempts s)) (map ?f (messages s))"
  proof (rule map_cong [OF refl])
    fix r assume r: "r \<in> set (messages s)"
    then have "\<not> pending (attempts s) (?f r)" using that by (auto simp: list_ex_iff)
    from forgotten_row(2) [where P = P, OF assms(1) r this] show "?f r = ?g r" by auto
  qed
  have "messages s' = (if e = None then map ?g (messages s) else messages (forget P s)) \<and> attempts s' = attempts s"
    using assms(2) k r1 r2 fm unfolding backfillSummaries_def d
    by (cases ok; cases ok2) (auto simp: c simp del: map_map split: if_split_asm)
  then show ?thesis
    using spanning_sorted journal_okD(3) [OF journal_is_ok [OF assms(1)]] by blast
qed

section \<open>A run\<close>

definition demo_record :: "id \<Rightarrow> string \<Rightarrow> instant \<Rightarrow> MessageRecord" where
  "demo_record i subj t =
     \<lparr>recQueueID = i, recOrigin = ''app'', recRoute = ''out'', recFrom = ''a@b.de'', recOriginalFrom = [],
      recRecipients = [''c@d.de''], recSubject = subj, recListener = ''0.0.0.0:25'', recRemoteAddr = ''10.0.0.1:999'',
      recMessageID = [], recContentType = [], recSizeBytes = 10, recHeaderCount = 2, recHelo = ''h'',
      recReceivedAt = t, recExpiresAt = t + hour, recTLS = True\<rparr>"

definition demo_store :: store where
  "demo_store = \<lparr>messages = [], attempts = [], audits = [], storeNow = 0, retainSubjects = True,
     retentionTTL = hour, lastCleanup = 0, dbFaults = []\<rparr>"

text \<open>Two messages; the first fails for good, is requeued and delivered.\<close>

definition demo_journal :: store where
  "demo_journal =
     (let s1 = snd (RecordMessage (demo_record ''A'' ''one'' second) demo_store);
          s2 = snd (RecordMessage (demo_record ''B'' ''two'' (2 * second)) s1);
          s3 = snd (RecordAttempt ''A'' 550 ''no'' ClassPermanent None s2);
          s4 = snd (RecordRequeue ''A'' s3)
      in snd (RecordAttempt ''A'' 250 ''ok'' ClassDelivered None s4))"

lemma journal_steps:
  assumes "journal s"
  shows "journal (snd (RecordMessage rc s))" and "journal (snd (RecordRequeue i s))"
    and "cl \<in> {ClassDelivered, ClassTemporary, ClassPermanent, ClassExpired} \<Longrightarrow>
      journal (snd (RecordAttempt i code resp cl nx s))"
  using assms by (metis prod.collapse journal.message journal.requeue journal.attempt)+

lemma demo_journal_run: "journal demo_journal"
proof -
  have "journal demo_store" by (rule journal.created) (simp_all add: demo_store_def)
  then show ?thesis unfolding demo_journal_def Let_def by (intro journal_steps) auto
qed

theorem journal_agrees_with_attempts_witness:
  "(case FindMessageByID ''A'' demo_journal of
      (Inr (Some m), _) \<Rightarrow> mgCount m = 2 \<and> mgStatus m = StatusDelivered \<and> mgAttempts m = history ''A'' (attempts demo_journal)
    | _ \<Rightarrow> False)"
proof -
  obtain m s' where f: "FindMessageByID ''A'' demo_journal = (Inr (Some m), s')"
    and q: "mgCount m = 2 \<and> mgStatus m = StatusDelivered"
  proof -
    have "case FindMessageByID ''A'' demo_journal of
      (Inr (Some m), _) \<Rightarrow> mgCount m = 2 \<and> mgStatus m = StatusDelivered | _ \<Rightarrow> False"
      by code_simp
    then show ?thesis using that by (auto split: prod.splits sum.splits option.splits)
  qed
  have "sorted (map atTime (history ''A'' (attempts demo_journal)))" by code_simp
  then have "mgAttempts m = history ''A'' (attempts demo_journal)"
    using journal_agrees_with_attempts [OF demo_journal_run f] unfolding Let_def by blast
  then show ?thesis using q by (simp add: f)
qed

theorem backfill_equals_write_path_witness:
  "messages (snd (backfillSummaries (forget (\<lambda>r. True) demo_journal))) = messages demo_journal \<and>
   map rowSum (messages (forget (\<lambda>r. True) demo_journal)) = [empty_summary, empty_summary] \<and>
   map (suCount \<circ> rowSum) (messages demo_journal) = [2, 0]"
proof -
  obtain e s' where b: "backfillSummaries (forget (\<lambda>r. True) demo_journal) = (e, s')" by fastforce
  have "fst (backfillSummaries (forget (\<lambda>r. True) demo_journal)) = None" by code_simp
  then have e: "e = None" by (simp add: b)
  have r: "map rowSum (messages (forget (\<lambda>r. True) demo_journal)) = [empty_summary, empty_summary] \<and>
    map (suCount \<circ> rowSum) (messages demo_journal) = [2, 0]" by code_simp
  have "list_all (\<lambda>r. sorted (map atTime (history (rowID r) (attempts demo_journal)))) (messages demo_journal)" by code_simp
  then have "messages s' = messages demo_journal"
    using backfill_equals_write_path [OF demo_journal_run b] e by (auto simp: list_all_iff intro!: map_idI)
  then show ?thesis using r by (simp add: b)
qed

text \<open>A clock that steps back between two attempts: the list ends in the attempt written first, the status is the
  one of the other, and a backfill gives the row another last time than the write path.\<close>

definition stepped_back :: store where
  "stepped_back =
     (let s1 = snd (RecordMessage (demo_record ''A'' ''one'' second) (demo_store\<lparr>storeNow := 9 * second\<rparr>));
          s2 = snd (RecordAttempt ''A'' 451 ''later'' ClassTemporary None s1)
      in snd (RecordAttempt ''A'' 250 ''ok'' ClassDelivered None (s2\<lparr>storeNow := 2 * second\<rparr>)))"

lemma journal_clock: "journal s \<Longrightarrow> journal (s\<lparr>storeNow := t\<rparr>)"
  by (erule journal.environment) simp_all

lemma stepped_back_run: "journal stepped_back"
proof -
  have j: "journal (demo_store\<lparr>storeNow := 9 * second\<rparr>)" by (rule journal.created) (simp_all add: demo_store_def)
  show ?thesis
    unfolding stepped_back_def Let_def
    by (rule journal_steps(3) [OF journal_clock [OF journal_steps(3) [OF journal_steps(1) [OF j]]]]) simp_all
qed

lemma clock_steps_show:
  "map atClass (sort_key atTime (history ''A'' (attempts stepped_back))) = [ClassDelivered, ClassTemporary]"
proof -
  have "map (\<lambda>a. (atTime a, atClass a)) (history ''A'' (attempts stepped_back)) = [(9, ClassTemporary), (2, ClassDelivered)]"
    by code_simp
  then show ?thesis by (auto simp: map_eq_Cons_conv)
qed

lemma clock_steps_last: "map (\<lambda>r. (suLast (rowSum r), suClass (rowSum r))) (messages stepped_back) = [(Some 2, Some ClassDelivered)]"
  by code_simp

lemma clock_steps_backfill: "suLast (backfill_summary (history ''A'' (attempts stepped_back))) = Some 9"
proof -
  have t: "map atTime (history ''A'' (attempts stepped_back)) = [9, 2]" by code_simp
  then have "history ''A'' (attempts stepped_back) \<noteq> []" by auto
  moreover have "Max (atTime ` set (history ''A'' (attempts stepped_back))) = 9" by (simp add: t flip: set_map)
  ultimately show ?thesis by (simp add: backfill_summary_def Let_def)
qed

end
