(* ===== verification/Journal_Query.thy ===== *)
theory Journal_Query
  imports Journal_Run "HOL-Library.Multiset" "HOL-Library.List_Lexorder" "HOL-Library.Char_ord"
begin

text \<open>
  The list queries, \<open>internal/store/query.go\<close>: the filters, the paging bounds, \<open>FindMessages\<close>,
  \<open>FindBounces\<close> and \<open>FindBounceSummaries\<close>. Of SQLite there are three parameters: its LIKE operator,
  the JSON text of a recipient list, which LIKE reads, and the order in which an ORDER BY leaves the
  rows it does not tell apart (\<open>tie\<close>, a permutation that is taken before a stable sort). SQLite fixes that order for
  one query only, so a listing of several pages has one \<open>tie\<close> for each.
\<close>

section \<open>Sort keys\<close>

text \<open>What a row is sorted by: a time, a text or a rank; NULL comes before them.\<close>

datatype sort_val = SortNull | SortTime int | SortText string | SortRank nat

instantiation sort_val :: linorder
begin

fun less_eq_sort_val :: "sort_val \<Rightarrow> sort_val \<Rightarrow> bool" where
  "less_eq_sort_val SortNull _ = True"
| "less_eq_sort_val (SortTime a) (SortTime b) = (a \<le> b)"
| "less_eq_sort_val (SortText a) (SortText b) = (a \<le> b)"
| "less_eq_sort_val (SortRank a) (SortRank b) = (a \<le> b)"
| "less_eq_sort_val (SortTime a) (SortText b) = True"
| "less_eq_sort_val (SortTime a) (SortRank b) = True"
| "less_eq_sort_val (SortText a) (SortRank b) = True"
| "less_eq_sort_val _ _ = False"

definition less_sort_val :: "sort_val \<Rightarrow> sort_val \<Rightarrow> bool" where
  "less_sort_val a b \<longleftrightarrow> a \<le> b \<and> \<not> b \<le> a"

instance
proof
  fix x y z :: sort_val
  show "x < y \<longleftrightarrow> x \<le> y \<and> \<not> y \<le> x" by (simp add: less_sort_val_def)
  show "x \<le> x" by (cases x) auto
  show "x \<le> y \<Longrightarrow> y \<le> z \<Longrightarrow> x \<le> z" by (cases x; cases y; cases z) auto
  show "x \<le> y \<Longrightarrow> y \<le> x \<Longrightarrow> x = y" by (cases x; cases y) auto
  show "x \<le> y \<or> y \<le> x" by (cases x; cases y) auto
qed

end

section \<open>Filters\<close>

record CommonFilter =
  cfSince :: "instant option"
  cfUntil :: "instant option"
  cfClient :: string
  cfRoute :: string
  cfSender :: string
  cfRecipient :: string
  cfSubject :: string

record MessageFilter =
  mfCommon :: CommonFilter
  mfStatus :: string
  mfSort :: string
  mfOrder :: string
  mfLimit :: int
  mfOffset :: int

record BounceFilter =
  bfCommon :: CommonFilter
  bfClass :: string
  bfLimit :: int
  bfOffset :: int

record sql =
  sqlLike :: "string \<Rightarrow> string \<Rightarrow> bool"
  jsonList :: "string list \<Rightarrow> string"
  tie :: "msg_row list \<Rightarrow> msg_row list"

datatype timeColumn = byReceivedAt | byLastAttempt

fun column_time :: "timeColumn \<Rightarrow> msg_row \<Rightarrow> int option" where
  "column_time byReceivedAt r = Some (rowReceived r)"
| "column_time byLastAttempt r = suLast (rowSum r)"

text \<open>A comparison with NULL is not true.\<close>

definition sql_ge :: "int option \<Rightarrow> int \<Rightarrow> bool" where
  "sql_ge c t = (case c of None \<Rightarrow> False | Some x \<Rightarrow> t \<le> x)"

definition sql_le :: "int option \<Rightarrow> int \<Rightarrow> bool" where
  "sql_le c t = (case c of None \<Rightarrow> False | Some x \<Rightarrow> x \<le> t)"

definition within :: "string \<Rightarrow> string" where
  "within s = ''%'' @ s @ ''%''"

definition common_apply :: "sql \<Rightarrow> CommonFilter \<Rightarrow> timeColumn \<Rightarrow> msg_row \<Rightarrow> bool" where
  "common_apply q f col r \<longleftrightarrow>
     (case cfSince f of None \<Rightarrow> True | Some t \<Rightarrow> sql_ge (column_time col r) (rfc3339 t)) \<and>
     (case cfUntil f of None \<Rightarrow> True | Some t \<Rightarrow> sql_le (column_time col r) (rfc3339 t)) \<and>
     (cfClient f \<noteq> [] \<longrightarrow> recOrigin (rowRec r) = cfClient f) \<and>
     (cfRoute f \<noteq> [] \<longrightarrow> recRoute (rowRec r) = cfRoute f) \<and>
     (cfSender f \<noteq> [] \<longrightarrow> sqlLike q (within (cfSender f)) (recFrom (rowRec r))) \<and>
     (cfRecipient f \<noteq> [] \<longrightarrow> sqlLike q (within (cfRecipient f)) (jsonList q (recRecipients (rowRec r)))) \<and>
     (cfSubject f \<noteq> [] \<longrightarrow> sqlLike q (within (cfSubject f)) (recSubject (rowRec r)))"

text \<open>The condition \<open>FindMessages\<close> adds for a status; \<open>None\<close> for one it does not know.\<close>

definition class_in :: "string list \<Rightarrow> msg_row \<Rightarrow> bool" where
  "class_in cs r = (case suClass (rowSum r) of None \<Rightarrow> False | Some c \<Rightarrow> c \<in> set cs)"

definition status_clause :: "string \<Rightarrow> (msg_row \<Rightarrow> bool) option" where
  "status_clause st =
     (if st = [] then Some (\<lambda>r. True)
      else if st = StatusQueued then Some (\<lambda>r. suClass (rowSum r) = None \<or> class_in [ClassRequeued] r)
      else if st = StatusActive then Some (\<lambda>r. suClass (rowSum r) = None \<or> class_in [ClassRequeued, ClassTemporary] r)
      else map_option class_in (statusClasses st))"

definition status_rank :: "msg_row \<Rightarrow> nat" where
  "status_rank r =
     (if suClass (rowSum r) = None \<or> class_in [ClassRequeued] r then 0
      else if class_in [ClassTemporary] r then 1
      else if class_in [ClassDelivered] r then 2 else 3)"

definition messageSortColumns :: "string \<Rightarrow> (msg_row \<Rightarrow> sort_val) option" where
  "messageSortColumns k =
     (if k = ''received_at'' then Some (\<lambda>r. SortTime (rowReceived r))
      else if k = ''client'' then Some (\<lambda>r. SortText (recOrigin (rowRec r)))
      else if k = ''route'' then Some (\<lambda>r. SortText (recRoute (rowRec r)))
      else if k = ''status'' then Some (\<lambda>r. SortRank (status_rank r))
      else None)"

section \<open>Pages\<close>

definition MaxOffset :: int where "MaxOffset = 1000000"

definition MaxPageLimit :: int where "MaxPageLimit = 1000"

definition clampPaging :: "int \<Rightarrow> int \<Rightarrow> int \<times> int" where
  "clampPaging limit offset =
     (if limit \<le> 0 then 100 else if limit > MaxPageLimit then MaxPageLimit else limit,
      if offset < 0 \<or> offset > MaxOffset then 0 else offset)"

definition splitPage :: "'a list \<Rightarrow> int \<Rightarrow> 'a list \<times> bool" where
  "splitPage rows limit = (if int (length rows) > limit then (take (nat limit) rows, True) else (rows, False))"

definition ordered :: "sql \<Rightarrow> (msg_row \<Rightarrow> sort_val) \<Rightarrow> bool \<Rightarrow> msg_row list \<Rightarrow> msg_row list" where
  "ordered q key asc rows = (let l = sort_key key (tie q rows) in if asc then l else rev l)"

definition limited :: "int \<Rightarrow> int \<Rightarrow> 'a list \<Rightarrow> 'a list" where
  "limited limit offset rows = take (nat limit) (drop (nat offset) rows)"

section \<open>The queries\<close>

definition message_list :: "sql \<Rightarrow> MessageFilter \<Rightarrow> (msg_row \<Rightarrow> bool) \<Rightarrow> store \<Rightarrow> msg_row list" where
  "message_list q f st s =
     (let key = (case messageSortColumns (mfSort f) of Some k \<Rightarrow> k | None \<Rightarrow> (\<lambda>r. SortTime (rowReceived r)))
      in ordered q key (mfOrder f = ''asc'') (filter (\<lambda>r. common_apply q (mfCommon f) byReceivedAt r \<and> st r) (messages s)))"

definition FindMessages :: "sql \<Rightarrow> MessageFilter \<Rightarrow> store \<Rightarrow> (store_err + Message list \<times> bool) \<times> store" where
  "FindMessages q f s =
     (let (limit, offset) = clampPaging (mfLimit f) (mfOffset f) in
      case status_clause (mfStatus f) of
        None \<Rightarrow> (Inl UnknownStatus, s)
      | Some st \<Rightarrow>
          (case db_call s of
             (False, s1) \<Rightarrow> (Inl DbFault, s1)
           | (True, s1) \<Rightarrow>
               (Inr (splitPage (map (scan_message s1 []) (limited (limit + 1) offset (message_list q f st s1))) limit), s1)))"

definition bounce_rows :: "sql \<Rightarrow> BounceFilter \<Rightarrow> timeColumn \<Rightarrow> store \<Rightarrow> msg_row list" where
  "bounce_rows q f col s =
     filter (\<lambda>r. suBounced (rowSum r) \<and> common_apply q (bfCommon f) col r \<and>
                 (bfClass f \<noteq> [] \<longrightarrow> class_in [bfClass f] r)) (messages s)"

definition FindBounces :: "sql \<Rightarrow> BounceFilter \<Rightarrow> store \<Rightarrow> (store_err + Message list \<times> bool) \<times> store" where
  "FindBounces q f s =
     (let (limit, offset) = clampPaging (bfLimit f) (bfOffset f) in
      case db_call s of
        (False, s1) \<Rightarrow> (Inl DbFault, s1)
      | (True, s1) \<Rightarrow>
          (Inr (splitPage (map (scan_message s1 [])
             (limited (limit + 1) offset
               (ordered q (\<lambda>r. SortTime (rowReceived r)) False (bounce_rows q f byReceivedAt s1)))) limit), s1))"

record BounceSummary =
  bsRow :: msg_row
  bsSubject :: string
  bsClass :: string
  bsCount :: nat
  bsFirst :: int
  bsLast :: int
  bsCode :: int
  bsResp :: string

text \<open>\<open>FindBounceSummaries\<close> scans three nullable columns into plain strings, which fails on a NULL.\<close>

definition scan_bounce :: "store \<Rightarrow> msg_row \<Rightarrow> BounceSummary option" where
  "scan_bounce s r =
     (let u = rowSum r in
      case (suFirst u, suLast u, suClass u) of
        (Some a, Some z, Some c) \<Rightarrow>
          Some \<lparr>bsRow = r, bsSubject = redactSubject (recSubject (rowRec r)) s, bsClass = c, bsCount = suCount u,
                bsFirst = a, bsLast = z, bsCode = (case suCode u of Some n \<Rightarrow> n | None \<Rightarrow> 0),
                bsResp = (case suResp u of Some e \<Rightarrow> e | None \<Rightarrow> [])\<rparr>
      | _ \<Rightarrow> None)"

definition last_attempt_key :: "msg_row \<Rightarrow> sort_val" where
  "last_attempt_key r = (case suLast (rowSum r) of None \<Rightarrow> SortNull | Some t \<Rightarrow> SortTime t)"

definition FindBounceSummaries :: "sql \<Rightarrow> BounceFilter \<Rightarrow> store \<Rightarrow> (store_err + BounceSummary list \<times> bool) \<times> store" where
  "FindBounceSummaries q f s =
     (let (limit, offset) = clampPaging (bfLimit f) (bfOffset f) in
      case db_call s of
        (False, s1) \<Rightarrow> (Inl DbFault, s1)
      | (True, s1) \<Rightarrow>
          (let scanned = map (scan_bounce s1)
                 (limited (limit + 1) offset (ordered q last_attempt_key False (bounce_rows q f byLastAttempt s1)))
           in if None \<in> set scanned then (Inl ScanNull, s1)
              else (Inr (splitPage (map the scanned) limit), s1)))"

section \<open>Filters and statuses\<close>

definition shown_status :: "msg_row \<Rightarrow> string" where
  "shown_status r = classToStatus (suClass (rowSum r))"

lemma mgStatus_shown [simp]: "mgStatus (scan_message s as r) = shown_status r"
  by (simp add: scan_message_def shown_status_def)

definition selects :: "string \<Rightarrow> msg_row \<Rightarrow> bool" where
  "selects st r \<longleftrightarrow> st = [] \<or> shown_status r = st \<or>
     st = StatusActive \<and> (shown_status r = StatusQueued \<or> shown_status r = StatusDeferred)"

definition known_class :: "msg_row \<Rightarrow> bool" where
  "known_class r \<longleftrightarrow> (\<forall>c. suClass (rowSum r) = Some c \<longrightarrow> classStatus c \<noteq> None)"

lemma journal_known_class:
  assumes "journal s" "r \<in> set (messages s)"
  shows "known_class r"
proof -
  note o = journal_okD [OF journal_is_ok [OF assms(1)]]
  let ?as = "history (rowID r) (attempts s)"
  have "classStatus (atClass (last ?as)) \<noteq> None" if "?as \<noteq> []"
    using o(5) last_in_set [OF that] by (auto simp: history_def)
  then show ?thesis by (auto simp: known_class_def o(3) [OF assms(2)] write_summary_def Let_def split: if_split_asm)
qed

lemma statusClasses_class:
  assumes "statusClasses st = Some cs" "classStatus c \<noteq> None"
  shows "c \<in> set cs \<longleftrightarrow> classStatus c = Some st"
proof -
  have "c \<in> set all_classes"
    using assms(2) by (auto simp: classStatus_def all_classes_def split: if_split_asm)
  moreover have "set cs = {c \<in> set all_classes. classStatus c = Some st}"
    using assms(1) by (auto simp: statusClasses_def Let_def split: if_split_asm)
  ultimately show ?thesis by simp
qed

lemma status_clause_selects:
  assumes "status_clause st = Some p" "known_class r"
  shows "p r \<longleftrightarrow> selects st r"
proof (cases "suClass (rowSum r)")
  case None
  then show ?thesis
    using assms(1) by (auto simp: status_clause_def selects_def shown_status_def classToStatus_def class_in_def statuses
        split: if_split_asm)
next
  case (Some c)
  then obtain x where x: "classStatus c = Some x" using assms(2) by (auto simp: known_class_def)
  have sh: "shown_status r = x" by (simp add: shown_status_def classToStatus_def Some x)
  have q: "x = StatusQueued \<longleftrightarrow> c = ClassRequeued" "x = StatusDeferred \<longleftrightarrow> c = ClassTemporary" "x \<noteq> StatusActive" "x \<noteq> []"
    using x by (auto simp: classStatus_def classes statuses split: if_split_asm)
  consider "st = []" | "st = StatusQueued" | "st = StatusActive" | cs where "statusClasses st = Some cs" "p = class_in cs"
      "st \<noteq> []" "st \<noteq> StatusActive"
    using assms(1) by (auto simp: status_clause_def split: if_split_asm)
  then show ?thesis
  proof cases
    case 4
    then show ?thesis using statusClasses_class [OF 4(1), of c] x sh
      by (simp add: selects_def class_in_def Some)
  qed (use assms(1) q sh in \<open>auto simp: status_clause_def selects_def class_in_def Some statuses\<close>)
qed

lemma status_clause_valid: "status_clause st = None \<longleftrightarrow> \<not> ValidStatus st"
proof -
  have "statusClasses StatusQueued \<noteq> None" by code_simp
  then show ?thesis by (auto simp: status_clause_def ValidStatus_def)
qed

section \<open>Pages of one list\<close>

lemma clampPaging_bounds:
  assumes "clampPaging l o0 = (limit, offset)"
  shows "1 \<le> limit \<and> limit \<le> MaxPageLimit \<and> 0 \<le> offset \<and> offset \<le> MaxOffset"
  using assms by (auto simp: clampPaging_def MaxPageLimit_def MaxOffset_def split: if_splits)

lemma clampPaging_id:
  "1 \<le> l \<Longrightarrow> l \<le> MaxPageLimit \<Longrightarrow> 0 \<le> k \<Longrightarrow> k \<le> MaxOffset \<Longrightarrow> clampPaging l k = (l, k)"
  by (simp add: clampPaging_def)

lemma splitPage_limited:
  assumes "0 \<le> limit" "0 \<le> offset"
  shows "splitPage (map g (limited (limit + 1) offset xs)) limit =
    (map g (limited limit offset xs), offset + limit < int (length xs))"
  using assms by (auto simp: splitPage_def limited_def take_map min_def nat_add_distrib)

lemma mset_ordered:
  assumes "\<And>rows. mset (tie q rows) = mset rows"
  shows "mset (ordered q key asc rows) = mset rows"
  using assms by (simp add: ordered_def Let_def)

lemma sorted_ordered: "sorted (map key (if asc then ordered q key asc rows else rev (ordered q key asc rows)))"
  by (simp add: ordered_def Let_def)

lemma message_list_tables:
  "messages s1 = messages s \<Longrightarrow> message_list q f st s1 = message_list q f st s"
  by (simp add: message_list_def)

section \<open>Messages by filter\<close>

definition shows_matching :: "sql \<Rightarrow> MessageFilter \<Rightarrow> store \<Rightarrow> msg_row list \<Rightarrow> bool" where
  "shows_matching q f s all \<longleftrightarrow>
     mset all = mset (filter (\<lambda>r. common_apply q (mfCommon f) byReceivedAt r \<and> selects (mfStatus f) r) (messages s))"

lemma FindMessages_page:
  assumes j: "journal s" and p: "status_clause (mfStatus f) = Some st" and d: "db_call s = (True, s1)"
    and c: "clampPaging (mfLimit f) (mfOffset f) = (limit, offset)"
  shows "FindMessages q f s =
    (Inr (map (scan_message s []) (limited limit offset (message_list q f st s)), offset + limit < int (length (message_list q f st s))), s1)"
proof -
  note k = db_call_tables [OF d]
  have "scan_message s1 as r = scan_message s as r" for as r
    using k by (simp add: scan_message_def redactSubject_def)
  moreover have "message_list q f st s1 = message_list q f st s" by (rule message_list_tables) (simp add: k)
  moreover have "0 \<le> limit" "0 \<le> offset" using clampPaging_bounds [OF c] by auto
  ultimately show ?thesis
    unfolding FindMessages_def c p d Let_def prod.case option.case bool.case by (simp add: splitPage_limited)
qed

lemma message_list_matching:
  assumes j: "journal s" and p: "status_clause (mfStatus f) = Some st" and t: "\<And>rows. mset (tie q rows) = mset rows"
  shows "shows_matching q f s (message_list q f st s)"
proof -
  have "filter (\<lambda>r. common_apply q (mfCommon f) byReceivedAt r \<and> st r) (messages s) =
    filter (\<lambda>r. common_apply q (mfCommon f) byReceivedAt r \<and> selects (mfStatus f) r) (messages s)"
    using status_clause_selects [OF p journal_known_class [OF j]] by (auto intro: filter_cong)
  then show ?thesis
    unfolding shows_matching_def message_list_def Let_def by (simp add: mset_ordered [OF t])
qed

lemma limited_Cons: "limited l k xs = take (nat l) (drop (nat k) xs)"
  by (simp add: limited_def)

lemma concat_pages: "concat (map (\<lambda>k. take l (drop (k * l) xs)) [0..<n]) = take (n * l) xs"
proof (induction n)
  case (Suc n)
  have "take (Suc n * l) xs = take (n * l) xs @ take l (drop (n * l) xs)"
    using take_add [of "n * l" l xs] by (simp add: add.commute)
  then show ?case using Suc by simp
qed simp

text \<open>The page a listing asks for: page \<open>k\<close> of size \<open>l\<close>.\<close>

definition page_of :: "sql \<Rightarrow> MessageFilter \<Rightarrow> store \<Rightarrow> nat \<Rightarrow> nat \<Rightarrow> Message list" where
  "page_of q f s l k =
     (case fst (FindMessages q (f\<lparr>mfLimit := int l, mfOffset := int (k * l)\<rparr>) s) of Inl e \<Rightarrow> [] | Inr (ms, hasMore) \<Rightarrow> ms)"

text \<open>What a listing is sorted by.\<close>

definition listing_key :: "MessageFilter \<Rightarrow> msg_row \<Rightarrow> sort_val" where
  "listing_key f = (case messageSortColumns (mfSort f) of Some k \<Rightarrow> k | None \<Rightarrow> (\<lambda>r. SortTime (rowReceived r)))"

lemma message_list_ordered:
  "message_list q f st s = ordered q (listing_key f) (mfOrder f = ''asc'')
     (filter (\<lambda>r. common_apply q (mfCommon f) byReceivedAt r \<and> st r) (messages s))"
  by (simp add: message_list_def listing_key_def Let_def)

lemma common_apply_tie [simp]: "common_apply (q\<lparr>tie := t\<rparr>) f col r = common_apply q f col r"
  by (simp add: common_apply_def)

lemma ordered_keys:
  assumes "mset (tie q rows) = mset rows"
  shows "map key (ordered q key asc rows) = (if asc then sort (map key rows) else rev (sort (map key rows)))"
proof -
  have "sort (map key rows) = map key (sort_key key (tie q rows))"
    by (rule properties_for_sort) (simp_all add: assms)
  then show ?thesis by (simp add: ordered_def Let_def rev_map)
qed

lemma pages_of_lists:
  assumes "\<And>k. map g (a k) = ks" and "\<And>k. set (a k) = R"
  shows "map g (concat (map (\<lambda>k. take l (drop (k * l) (a k))) [0..<n])) = take (n * l) ks"
    and "set (concat (map (\<lambda>k. take l (drop (k * l) (a k))) [0..<n])) \<subseteq> R"
proof -
  have "map g (concat (map (\<lambda>k. take l (drop (k * l) (a k))) [0..<n])) = concat (map (\<lambda>k. take l (drop (k * l) ks)) [0..<n])"
    by (simp add: map_concat comp_def assms(1) flip: take_map drop_map)
  then show "map g (concat (map (\<lambda>k. take l (drop (k * l) (a k))) [0..<n])) = take (n * l) ks"
    by (simp only: concat_pages)
  show "set (concat (map (\<lambda>k. take l (drop (k * l) (a k))) [0..<n])) \<subseteq> R"
    using assms(2) by (auto dest!: in_set_takeD in_set_dropD)
qed

text \<open>C18: A listing shows what its filter says. In every journal the program can have written, left alone while
  it is paged through, with any status filter the API accepts, any sort column and any page size up to
  the maximum, there is a list of exactly the messages that pass the common filters and whose displayed
  status is the one asked for ("active" being queued or deferred), although the query filters on the
  stored class and never on the status, sorted by the sort column. Paging from the start through to page
  \<open>n\<close>, every page with an order of its own among rows that tie, shows as many rows as the first \<open>n * l\<close>
  of that list, all of them from the list, and at each place one with the sort value the list has there:
  a message that shares its sort value with no other is shown at its place, once. Without ties
  the pages are the list itself.\<close>

theorem listing_pages:
  assumes "journal s" and "ValidStatus (mfStatus f)" and "dbFaults s = []"
    and tie: "\<And>k rows. mset (ties k rows) = mset rows"
    and "1 \<le> l" and "int l \<le> MaxPageLimit" and "int (n * l) \<le> MaxOffset"
  shows "\<exists>all rows. shows_matching q f s all \<and>
    sorted (map (listing_key f) (if mfOrder f = ''asc'' then all else rev all)) \<and>
    concat (map (\<lambda>k. page_of (q\<lparr>tie := ties k\<rparr>) f s l k) [0..<n]) = map (scan_message s []) rows \<and>
    length rows = min (n * l) (length all) \<and> set rows \<subseteq> set all \<and>
    (\<forall>i < length rows. listing_key f (rows ! i) = listing_key f (all ! i)) \<and>
    (distinct (map (listing_key f) all) \<longrightarrow> rows = take (n * l) all)"
proof -
  obtain st where p: "status_clause (mfStatus f) = Some st" using assms(2) status_clause_valid by blast
  have d: "db_call s = (True, s)" using assms(3) by (simp add: db_call_def)
  let ?hits = "filter (\<lambda>r. common_apply q (mfCommon f) byReceivedAt r \<and> st r) (messages s)"
  define a where "a k = message_list (q\<lparr>tie := ties k\<rparr>) f st s" for k
  have a: "a k = ordered (q\<lparr>tie := ties k\<rparr>) (listing_key f) (mfOrder f = ''asc'') ?hits" for k
    by (simp add: a_def message_list_ordered)
  have ml: "message_list (q\<lparr>tie := ties k\<rparr>) (f\<lparr>mfLimit := x, mfOffset := y\<rparr>) st s = a k" for k x y
    by (simp add: a_def message_list_def)
  have page: "page_of (q\<lparr>tie := ties k\<rparr>) f s l k = map (scan_message s []) (take l (drop (k * l) (a k)))" if "k < n" for k
  proof -
    have "k * l \<le> n * l" using that by simp
    then have c: "clampPaging (int l) (int (k * l)) = (int l, int (k * l))"
      using assms(5-7) by (intro clampPaging_id) linarith+
    show ?thesis
      unfolding page_of_def
      by (subst FindMessages_page [OF assms(1) _ d, where st = st and limit = "int l" and offset = "int (k * l)"])
         (use p c in \<open>simp_all add: ml limited_def nat_mult_distrib\<close>)
  qed
  define rows where "rows = concat (map (\<lambda>k. take l (drop (k * l) (a k))) [0..<n])"
  have pages: "concat (map (\<lambda>k. page_of (q\<lparr>tie := ties k\<rparr>) f s l k) [0..<n]) = map (scan_message s []) rows"
    unfolding rows_def map_concat map_map using page by (intro arg_cong [where f = concat] map_cong) auto
  have keys: "map (listing_key f) (a k) = map (listing_key f) (a 0)" for k
    unfolding a by (simp add: ordered_keys tie)
  have sets: "set (a k) = set (a 0)" for k
    unfolding a by (intro mset_eq_setD) (simp add: mset_ordered tie)
  note r = pages_of_lists [where a = a and n = n and l = l, OF keys sets, folded rows_def]
  have len: "length rows = min (n * l) (length (a 0))"
    using arg_cong [OF r(1), of length] by simp
  have at: "listing_key f (rows ! i) = listing_key f (a 0 ! i)" if "i < length rows" for i
  proof -
    have "map (listing_key f) rows ! i = take (n * l) (map (listing_key f) (a 0)) ! i" by (simp only: r(1))
    then show ?thesis using that len by simp
  qed
  have "rows = take (n * l) (a 0)" if "distinct (map (listing_key f) (a 0))"
  proof (rule map_inj_on)
    show "map (listing_key f) rows = map (listing_key f) (take (n * l) (a 0))" by (simp add: r(1) take_map)
    show "inj_on (listing_key f) (set rows \<union> set (take (n * l) (a 0)))"
      using that r(2) set_take_subset [of "n * l" "a 0"] unfolding distinct_map by (meson inj_on_subset le_sup_iff)
  qed
  moreover have "sorted (map (listing_key f) (if mfOrder f = ''asc'' then a 0 else rev (a 0)))"
    unfolding a by (rule sorted_ordered)
  moreover have "shows_matching q f s (a 0)"
    using message_list_matching [OF assms(1) p, of "q\<lparr>tie := ties 0\<rparr>"] tie by (simp add: a_def shows_matching_def)
  ultimately show ?thesis using pages len at r(2) by (intro exI [of _ "a 0"] exI [of _ rows] conjI allI impI) auto
qed

section \<open>The bounce view\<close>

lemma bounced_complete:
  assumes "journal s" "r \<in> set (messages s)" "suBounced (rowSum r)"
  shows "scan_bounce s r \<noteq> None"
proof -
  let ?as = "history (rowID r) (attempts s)"
  have u: "rowSum r = write_summary ?as" using journal_okD(3) [OF journal_is_ok [OF assms(1)] assms(2)] .
  have "counted ?as \<noteq> []"
    using assms(3) unfolding u
    by (auto simp: write_summary_def Let_def list_ex_iff counted_def filter_empty_conv bounced_class classes intro: bexI rev_bexI)
  moreover from this have "?as \<noteq> []" by (auto simp: counted_def)
  ultimately show ?thesis
    by (auto simp: scan_bounce_def Let_def u write_summary_def split: list.splits)
qed

lemma set_limited: "set (limited l k xs) \<subseteq> set xs"
  unfolding limited_def by (meson set_drop_subset set_take_subset subset_trans)

text \<open>The bounce view cannot break on its own data. Its query scans three nullable columns as if they were
  never NULL, which would fail the whole page. In every journal the program can have written a row
  that has bounced has all three, so the view fails only when the database does, and every row it
  shows bounced at some time and passes the class filter on its latest attempt.\<close>

theorem bounce_view_complete:
  assumes "journal s" and "\<And>rows. mset (tie q rows) = mset rows"
    and "FindBounceSummaries q f s = (res, s')"
  shows "case res of
      Inl e \<Rightarrow> e = DbFault
    | Inr (bs, hasMore) \<Rightarrow> int (length bs) \<le> MaxPageLimit \<and>
        (\<forall>b \<in> set bs. bsRow b \<in> set (messages s) \<and>
           (\<exists>a \<in> set (history (rowID (bsRow b)) (attempts s)). classStatus (atClass a) = Some StatusBounced) \<and>
           (bfClass f = [] \<or> bsClass b = bfClass f))"
proof -
  obtain limit offset where c: "clampPaging (bfLimit f) (bfOffset f) = (limit, offset)" by fastforce
  obtain ok s1 where d: "db_call s = (ok, s1)" by fastforce
  note k = db_call_tables [OF d]
  let ?all = "ordered q last_attempt_key False (bounce_rows q f byLastAttempt s)"
  let ?rows = "limited (limit + 1) offset ?all"
  have all: "bounce_rows q f byLastAttempt s1 = bounce_rows q f byLastAttempt s" by (simp add: bounce_rows_def k)
  have sb: "scan_bounce s1 r = scan_bounce s r" for r
  proof -
    have rd: "redactSubject x s1 = redactSubject x s" for x by (simp add: redactSubject_def k)
    show ?thesis unfolding scan_bounce_def rd ..
  qed
  have row: "r \<in> set (messages s) \<and> suBounced (rowSum r) \<and> (bfClass f \<noteq> [] \<longrightarrow> class_in [bfClass f] r)" if "r \<in> set ?rows" for r
  proof -
    have "set ?all = set (bounce_rows q f byLastAttempt s)"
      by (rule mset_eq_setD [OF mset_ordered [OF assms(2)]])
    then have "r \<in> set (bounce_rows q f byLastAttempt s)"
      using subsetD [OF set_limited that] by simp
    then show ?thesis by (simp add: bounce_rows_def)
  qed
  have full: "None \<notin> set (map (scan_bounce s) ?rows)"
  proof
    assume "None \<in> set (map (scan_bounce s) ?rows)"
    then have "None \<in> scan_bounce s ` set ?rows" unfolding set_map .
    then obtain r where r: "None = scan_bounce s r" "r \<in> set ?rows" by (rule imageE)
    show False using bounced_complete [OF assms(1)] row [OF r(2)] r(1) by metis
  qed
  have shown: "bsRow b \<in> set (messages s) \<and>
      (\<exists>a \<in> set (history (rowID (bsRow b)) (attempts s)). classStatus (atClass a) = Some StatusBounced) \<and>
      (bfClass f = [] \<or> bsClass b = bfClass f)" if bs: "b \<in> set (map the (map (scan_bounce s) ?rows))" for b
  proof -
    obtain r where r: "r \<in> set ?rows" "b = the (scan_bounce s r)" using bs unfolding set_map image_image by (rule imageE) blast
    have "scan_bounce s r \<noteq> None" using bounced_complete [OF assms(1)] row [OF r(1)] by blast
    then obtain b' where b': "scan_bounce s r = Some b'" by auto
    then have b: "bsRow b = r" "suClass (rowSum r) = Some (bsClass b)"
      using r(2) by (auto simp: scan_bounce_def Let_def split: option.splits)
    have "rowSum r = write_summary (history (rowID r) (attempts s))"
      using journal_okD(3) [OF journal_is_ok [OF assms(1)]] row [OF r(1)] by blast
    then have "\<exists>a \<in> set (history (rowID r) (attempts s)). classStatus (atClass a) = Some StatusBounced"
      using row [OF r(1)] by (simp add: write_summary_def Let_def list_ex_iff)
    then show ?thesis using b row [OF r(1)] by (auto simp: class_in_def)
  qed
  have lim: "0 \<le> limit" "0 \<le> offset" "limit \<le> MaxPageLimit" using clampPaging_bounds [OF c] by auto
  have eq: "FindBounceSummaries q f s = (if ok then (Inr (splitPage (map the (map (scan_bounce s) ?rows)) limit), s1) else (Inl DbFault, s1))"
    unfolding FindBounceSummaries_def c d Let_def prod.case all sb [abs_def] using full by (cases ok) simp_all
  have page: "splitPage (map the (map (scan_bounce s) ?rows)) limit =
      (map the (map (scan_bounce s) (limited limit offset ?all)), offset + limit < int (length ?all))"
    unfolding map_map by (rule splitPage_limited [OF lim(1,2)])
  have sub: "set (limited limit offset ?all) \<subseteq> set ?rows"
    unfolding limited_def using lim(1) by (intro set_take_subset_set_take) simp
  have "int (length (limited limit offset ?all)) \<le> limit" using lim(1) by (simp add: limited_def)
  then have len: "int (length (map the (map (scan_bounce s) (limited limit offset ?all)))) \<le> MaxPageLimit"
    using lim(3) by simp
  have "set (map the (map (scan_bounce s) (limited limit offset ?all))) \<subseteq> set (map the (map (scan_bounce s) ?rows))"
    unfolding set_map by (intro image_mono sub)
  note shown' = shown [OF subsetD [OF this]]
  show ?thesis
  proof (cases ok)
    case True
    then have "res = Inr (map the (map (scan_bounce s) (limited limit offset ?all)), offset + limit < int (length ?all))"
      using assms(3) unfolding eq page by simp
    then show ?thesis using len shown' by simp
  next
    case False
    then show ?thesis using assms(3) unfolding eq by auto
  qed
qed

section \<open>Concrete listings\<close>

definition demo_sql :: sql where
  "demo_sql = \<lparr>sqlLike = (\<lambda>p v. Contains v (butlast (tl p))), jsonList = concat, tie = rev\<rparr>"

definition demo_filter :: MessageFilter where
  "demo_filter = \<lparr>mfCommon = \<lparr>cfSince = None, cfUntil = None, cfClient = ''app'', cfRoute = [], cfSender = ''a@'',
     cfRecipient = [], cfSubject = []\<rparr>, mfStatus = StatusActive, mfSort = ''received_at'', mfOrder = ''asc'',
     mfLimit = 0, mfOffset = 0\<rparr>"

lemma demo_tie: "mset (tie demo_sql rows) = mset rows"
  by (simp add: demo_sql_def)

lemma demo_no_faults: "dbFaults demo_journal = []"
  by code_simp

text \<open>Of the two messages of the demo journal the first is delivered, so the queue view shows the second.\<close>

theorem listing_pages_witness:
  "\<exists>all. shows_matching demo_sql demo_filter demo_journal all \<and> map rowID all = [''B''] \<and>
     concat (map (\<lambda>k. page_of (demo_sql\<lparr>tie := if even k then rev else id\<rparr>) demo_filter demo_journal 1 k) [0..<2]) =
       map (scan_message demo_journal []) all"
proof -
  have v: "ValidStatus (mfStatus demo_filter)" by code_simp
  have t: "mset ((if even k then rev else id) rows) = mset rows" for k :: nat and rows :: "msg_row list" by simp
  obtain all rows where a: "shows_matching demo_sql demo_filter demo_journal all"
    and p: "concat (map (\<lambda>k. page_of (demo_sql\<lparr>tie := if even k then rev else id\<rparr>) demo_filter demo_journal 1 k) [0..<2]) =
      map (scan_message demo_journal []) rows"
    and r: "distinct (map (listing_key demo_filter) all) \<longrightarrow> rows = take (2 * 1) all"
    using listing_pages [where ties = "\<lambda>k. if even k then rev else id" and l = 1 and n = 2 and q = demo_sql, OF demo_journal_run v demo_no_faults t]
    by (auto simp: MaxPageLimit_def MaxOffset_def)
  have "map rowID (filter (\<lambda>r. common_apply demo_sql (mfCommon demo_filter) byReceivedAt r \<and> selects (mfStatus demo_filter) r)
      (messages demo_journal)) = [''B'']" by code_simp
  then have "mset (map rowID all) = {#''B''#}"
    using a unfolding shows_matching_def mset_map by (metis mset_map mset_single_iff_right mset.simps(2) mset.simps(1))
  then have b: "map rowID all = [''B'']" by (metis mset_single_iff)
  then obtain x where "all = [x]" by auto
  then show ?thesis using a p r b by auto
qed

text \<open>Two messages of the same second. When the query for the second page breaks the tie the other way, it shows the
  first page's message again and the other one is on neither.\<close>

definition twin_store :: store where
  "twin_store = snd (RecordMessage (demo_record ''B'' ''two'' second) (snd (RecordMessage (demo_record ''A'' ''one'' second) demo_store)))"

lemma ties_repeat_a_row:
  "map (\<lambda>m. recQueueID (rowRec (mgRow m))) (page_of (demo_sql\<lparr>tie := id\<rparr>) demo_filter twin_store 1 0) = [''A''] \<and>
   map (\<lambda>m. recQueueID (rowRec (mgRow m))) (page_of (demo_sql\<lparr>tie := rev\<rparr>) demo_filter twin_store 1 1) = [''A'']"
  by code_simp

definition demo_bounces :: BounceFilter where
  "demo_bounces = \<lparr>bfCommon = mfCommon demo_filter, bfClass = [], bfLimit = 0, bfOffset = 0\<rparr>"

theorem bounce_view_complete_witness:
  "case fst (FindBounceSummaries demo_sql demo_bounces demo_journal) of
     Inl e \<Rightarrow> False
   | Inr (bs, hasMore) \<Rightarrow> length bs = 1 \<and> (\<forall>b \<in> set bs. bsClass b = ClassDelivered \<and> bsRow b \<in> set (messages demo_journal))"
proof -
  obtain res s' where f: "FindBounceSummaries demo_sql demo_bounces demo_journal = (res, s')" by fastforce
  have q: "case fst (FindBounceSummaries demo_sql demo_bounces demo_journal) of
     Inl e \<Rightarrow> False | Inr (bs, hasMore) \<Rightarrow> length bs = 1 \<and> list_all (\<lambda>b. bsClass b = ClassDelivered) bs" by code_simp
  show ?thesis
    using bounce_view_complete [OF demo_journal_run demo_tie f] q unfolding f
    by (auto simp: list_all_iff split: sum.splits)
qed

section \<open>Subjects\<close>

text \<open>A message recorded while subjects were kept; the setting is then turned off.\<close>

definition subjects_off :: "string \<Rightarrow> store" where
  "subjects_off subj = (snd (RecordMessage (demo_record ''A'' subj second) demo_store))\<lparr>retainSubjects := False\<rparr>"

text \<open>The subject reads as \<open>[redacted]\<close> whatever it was, but the filter still matches the stored text, so a
  listing tells two subjects apart that nothing shows any more.\<close>

definition subject_search :: MessageFilter where
  "subject_search = demo_filter\<lparr>mfCommon := (mfCommon demo_filter)\<lparr>cfSubject := ''secret''\<rparr>\<rparr>"

lemma hidden_subjects_searchable:
  "map mgSubject (page_of demo_sql demo_filter (subjects_off ''secret'') 1 0) = [Redacted] \<and>
   map mgSubject (page_of demo_sql demo_filter (subjects_off ''other'') 1 0) = [Redacted] \<and>
   length (page_of demo_sql subject_search (subjects_off ''secret'') 1 0) = 1 \<and>
   length (page_of demo_sql subject_search (subjects_off ''other'') 1 0) = 0"
  by code_simp

end
