(* ===== verification/Listener_Journal.thy ===== *)
theory Listener_Journal
  imports Header_Block Utf8
begin

text \<open>
  What the journal keeps of an accepted message, \<open>internal/listener/journal.go\<close>: header values
  with their control characters taken out and their length bounded on a rune boundary. Whatever
  the client sent, the stored value is well-formed UTF-8.
\<close>

definition maxStoredSubject :: nat where "maxStoredSubject = 500"
definition maxStoredMessageID :: nat where "maxStoredMessageID = 200"
definition maxStoredContentType :: nat where "maxStoredContentType = 200"
definition maxStoredHelo :: nat where "maxStoredHelo = 255"

definition control_byte :: "char \<Rightarrow> bool" where
  "control_byte c \<longleftrightarrow> byte c < (0x20::nat) \<or> byte c = (0x7f::nat)"

text \<open>\<open>strings.Map\<close> over the runes: a control character is dropped, a malformed byte becomes U+FFFD.\<close>

function strip_controls :: "string \<Rightarrow> string" where
  "strip_controls s =
     (if s = [] then []
      else if rune_width s = 0 then rune_error @ strip_controls (tl s)
      else if control_byte (hd s) then strip_controls (tl s)
      else take (rune_width s) s @ strip_controls (drop (rune_width s) s))"
  by pat_completeness auto
termination
  by (relation "measure length") auto

declare strip_controls.simps [simp del]

definition RuneStart :: "char \<Rightarrow> bool" where
  "RuneStart c \<longleftrightarrow> byte c div 64 \<noteq> (2::nat)"

fun cut_back :: "string \<Rightarrow> nat \<Rightarrow> nat" where
  "cut_back s 0 = 0"
| "cut_back s (Suc n) = (if RuneStart (s ! Suc n) then Suc n else cut_back s n)"

definition sanitizeHeaderMeta :: "string \<Rightarrow> nat \<Rightarrow> string" where
  "sanitizeHeaderMeta s0 cap =
     (let s = strip_controls s0 in if length s > cap then take (cut_back s cap) s else s)"

definition sanitizeSubject :: "string \<Rightarrow> string" where
  "sanitizeSubject s = sanitizeHeaderMeta s maxStoredSubject"

record journalMeta =
  jmSubject :: string
  jmMessageID :: string
  jmContentType :: string
  jmHeaderCount :: nat

definition journalMetaOf :: "bool \<Rightarrow> string \<Rightarrow> journalMeta" where
  "journalMetaOf retain headers =
     (let h = ParseHeaders headers in
      \<lparr>jmSubject = (if retain then sanitizeSubject (Parsed_Value h ''Subject'') else []),
       jmMessageID = sanitizeHeaderMeta (Parsed_Value h ''Message-ID'') maxStoredMessageID,
       jmContentType = sanitizeHeaderMeta (Parsed_Value h ''Content-Type'') maxStoredContentType,
       jmHeaderCount = Parsed_Count h\<rparr>)"

section \<open>What is stored\<close>

lemma strip_induct [case_names Nil bad control good]:
  assumes "P []"
    and "\<And>s. s \<noteq> [] \<Longrightarrow> rune_width s = 0 \<Longrightarrow> P (tl s) \<Longrightarrow> P s"
    and "\<And>s. s \<noteq> [] \<Longrightarrow> rune_width s \<noteq> 0 \<Longrightarrow> control_byte (hd s) \<Longrightarrow> P (tl s) \<Longrightarrow> P s"
    and "\<And>s. s \<noteq> [] \<Longrightarrow> rune_width s \<noteq> 0 \<Longrightarrow> \<not> control_byte (hd s) \<Longrightarrow> P (drop (rune_width s) s) \<Longrightarrow> P s"
  shows "P s"
proof (induction s rule: strip_controls.induct)
  case (1 s)
  show ?case
  proof (cases "s = [] \<or> rune_width s = 0 \<or> control_byte (hd s)")
    case True
    then show ?thesis using 1(1,2) assms(1-3) by metis
  next
    case False
    then show ?thesis using 1(3) assms(4) by blast
  qed
qed

definition continuation :: "char \<Rightarrow> bool" where
  "continuation c \<longleftrightarrow> 128 \<le> byte c \<and> byte c \<le> (191::nat)"

lemma not_RuneStart: "continuation c \<Longrightarrow> \<not> RuneStart c"
  by (auto simp: continuation_def RuneStart_def)

text \<open>A rune looks at no byte after its last, and all but its first are continuation bytes.\<close>

lemma rune_width_shape:
  assumes "rune_width (a # s) = Suc n"
  shows "n \<le> length s \<and> list_all continuation (take n s) \<and> (\<forall>t. rune_width (a # take n s @ t) = Suc n)"
proof -
  let ?x = "byte a :: nat"
  consider "?x < 128" | "194 \<le> ?x" "?x \<le> 223" | "224 \<le> ?x" "?x \<le> 239" | "240 \<le> ?x" "?x \<le> 244"
    | "?x \<ge> 128" "?x < 194 \<or> ?x > 244" by linarith
  then show ?thesis
  proof cases
    case 1
    then show ?thesis using assms by (simp add: rune_width.simps)
  next
    case 2
    then show ?thesis using assms
      by (cases s) (auto simp: rune_width.simps byte_in_def continuation_def split: if_split_asm)
  next
    case 3
    obtain b c r where s: "s = b # c # r" using assms 3
      by (auto simp: rune_width.simps Let_def split: list.split_asm if_split_asm)
    have "byte_in (if ?x = 224 then 160 else 128) (if ?x = 237 then 159 else 191) b \<and> byte_in 128 191 c"
      and n: "n = 2" using assms 3 by (simp_all add: rune_width.simps Let_def s split: if_split_asm)
    then show ?thesis using 3
      by (auto simp: rune_width.simps Let_def s byte_in_def continuation_def numeral_2_eq_2 split: if_split_asm)
  next
    case 4
    obtain b c d r where s: "s = b # c # d # r" using assms 4
      by (auto simp: rune_width.simps Let_def split: list.split_asm if_split_asm)
    have "byte_in (if ?x = 240 then 144 else 128) (if ?x = 244 then 143 else 191) b \<and> byte_in 128 191 c \<and> byte_in 128 191 d"
      and n: "n = 3" using assms 4 by (simp_all add: rune_width.simps Let_def s split: if_split_asm)
    then show ?thesis using 4
      by (auto simp: rune_width.simps Let_def s byte_in_def continuation_def numeral_3_eq_3 split: if_split_asm)
  next
    case 5
    then show ?thesis using assms by (auto simp: rune_width.simps)
  qed
qed

lemma rune_width_append:
  assumes "s \<noteq> []" "rune_width s \<noteq> 0"
  shows "rune_width (take (rune_width s) s @ t) = rune_width s"
  using assms rune_width_shape by (cases s; cases "rune_width s") auto

lemma continuation_bytes:
  assumes "0 < k" "k < rune_width s"
  shows "continuation (s ! k)"
proof (cases s)
  case (Cons a r)
  obtain n where n: "rune_width (a # r) = Suc n" using assms Cons by (cases "rune_width s") auto
  obtain j where j: "k = Suc j" "j < n" using assms n Cons by (cases k) auto
  then have "continuation (take n r ! j)"
    using rune_width_shape [OF n] by (simp add: list_all_length)
  then show ?thesis using j Cons by simp
qed (use assms in \<open>simp add: rune_width.simps\<close>)

lemma valid_rune:
  assumes "s \<noteq> []" "rune_width s \<noteq> 0" "valid_utf8 t"
  shows "valid_utf8 (take (rune_width s) s @ t)"
  using assms rune_width_append [OF assms(1,2), of t] rune_width_le [of s]
  by (subst valid_utf8_step) auto

lemma take_valid:
  "valid_utf8 s \<Longrightarrow> n < length s \<Longrightarrow> n = 0 \<or> RuneStart (s ! n) \<Longrightarrow> valid_utf8 (take n s)"
proof (induction s arbitrary: n rule: rune_induct)
  case (bad s)
  then show ?case using valid_utf8_step by blast
next
  case (good s)
  let ?w = "rune_width s"
  have v: "valid_utf8 (drop ?w s)" using good.prems(1) good.hyps(1) by (simp add: valid_utf8_step)
  show ?case
  proof (cases "n < ?w")
    case True
    then have "n = 0" using good.prems(3) continuation_bytes [of n s] not_RuneStart by auto
    then show ?thesis by simp
  next
    case False
    then have t: "take n s = take ?w s @ take (n - ?w) (drop ?w s)"
      by (metis le_add_diff_inverse not_less take_add)
    have "valid_utf8 (take (n - ?w) (drop ?w s))"
      using False good.prems(2,3) rune_width_le [of s] by (intro good.IH [OF v]) auto
    then show ?thesis unfolding t by (rule valid_rune [OF good.hyps])
  qed
qed simp

lemma cut_back_le: "cut_back s n \<le> n"
  by (induction n) auto

lemma cut_back_start: "cut_back s n = 0 \<or> RuneStart (s ! cut_back s n)"
  by (induction n) auto

lemma continuation_not_control: "continuation c \<Longrightarrow> \<not> control_byte c"
  by (auto simp: continuation_def control_byte_def)

lemma strip_clean: "valid_utf8 (strip_controls s) \<and> list_all (\<lambda>c. \<not> control_byte c) (strip_controls s)"
proof (induction s rule: strip_induct)
  case (bad s)
  have "valid_utf8 (rune_error @ t)" if "valid_utf8 t" for t
  proof -
    have "rune_width (rune_error @ t) = 3" by (simp add: rune_error_def rune_width.simps byte_in_def)
    then show ?thesis using that by (subst valid_utf8_step) (auto simp: rune_error_def)
  qed
  moreover have "list_all (\<lambda>c. \<not> control_byte c) rune_error" by (simp add: rune_error_def control_byte_def)
  moreover have "strip_controls s = rune_error @ strip_controls (tl s)"
    using bad.hyps by (subst strip_controls.simps) simp
  ultimately show ?case using bad.IH by simp
next
  case (control s)
  have "strip_controls s = strip_controls (tl s)" using control.hyps by (subst strip_controls.simps) simp
  then show ?case using control.IH by simp
next
  case (good s)
  have eq: "strip_controls s = take (rune_width s) s @ strip_controls (drop (rune_width s) s)"
    using good.hyps by (subst strip_controls.simps) simp
  have "\<not> control_byte c" if c: "c \<in> set (take (rune_width s) s)" for c
  proof -
    obtain k where k: "k < rune_width s" "c = s ! k"
      using c by (auto simp: in_set_conv_nth)
    then show ?thesis
      using good.hyps(1,3) continuation_bytes [of k s] continuation_not_control by (cases "k = 0") (auto simp: hd_conv_nth)
  qed
  then show ?case unfolding eq using valid_rune [OF good.hyps(1,2)] good.IH by (auto simp: list_all_iff)
qed (simp_all add: strip_controls.simps)

lemma sanitize_clean:
  "valid_utf8 (sanitizeHeaderMeta s cap) \<and> length (sanitizeHeaderMeta s cap) \<le> cap \<and>
   list_all (\<lambda>c. \<not> control_byte c) (sanitizeHeaderMeta s cap)"
proof -
  let ?s = "strip_controls s"
  have le: "cut_back ?s cap \<le> cap" by (rule cut_back_le)
  have "valid_utf8 (take (cut_back ?s cap) ?s)" if "cap < length ?s"
    using strip_clean [of s] le that cut_back_start by (intro take_valid) auto
  moreover have "list_all (\<lambda>c. \<not> control_byte c) (take (cut_back ?s cap) ?s)"
    using strip_clean [of s] by (auto simp: list_all_iff dest: in_set_takeD)
  ultimately show ?thesis
    using strip_clean [of s] le by (simp add: sanitizeHeaderMeta_def Let_def)
qed

end
