(* ===== verification/Listener_Session.thy ===== *)
theory Listener_Session
  imports Smtp_Wire Sender_Rewrite Rate_Limit Spool_Queue Journal_Store Listener_Journal
begin

text \<open>
  One SMTP session, \<open>internal/listener/session.go\<close>: the command loop and its handlers. The queue and the
  journal are the interface values the server holds (\<open>Queue\<close> and \<open>Journal\<close> of \<open>listener.go\<close>), so the
  handlers take them as records of operations over an abstract state.

  A session reads from a stream of bytes with an end; what a TLS handshake opens is another stream.
  The readings of the clock, the writes that fail and the moment of a shutdown are lists consumed
  from the front. A nil dereference is \<open>sePanicked\<close>: the guard in \<open>accept\<close> recovers it, counts it and
  drops the connection.
\<close>

section \<open>The interfaces\<close>

record 'q queue_ops =
  qStage :: "reader \<Rightarrow> int \<Rightarrow> 'q \<Rightarrow> (spool_err + staged) \<times> 'q"
  qCommit :: "staged \<Rightarrow> envelope \<Rightarrow> duration \<Rightarrow> (id \<Rightarrow> string) option \<Rightarrow> 'q \<Rightarrow> (spool_err + id) \<times> 'q"
  qDiscard :: "id \<Rightarrow> 'q \<Rightarrow> spool_err option \<times> 'q"
  qUnstage :: "staged \<Rightarrow> 'q \<Rightarrow> 'q"

record 'j journal_ops =
  jMessage :: "MessageRecord \<Rightarrow> 'j \<Rightarrow> store_err option \<times> 'j"
  jRemoval :: "id \<Rightarrow> 'j \<Rightarrow> store_err option \<times> 'j"

record ('q, 'j) Server =
  svCfg :: Config
  svLc :: Listener
  svTLSConf :: bool
  svMatch :: matcher
  svRouter :: router
  svRules :: "string \<rightharpoonup> Rules"
  svQueue :: "'q queue_ops"
  svJournal :: "'j journal_ops"
  svAddrString :: "addr \<Rightarrow> string"
  svFormatTime :: "instant \<Rightarrow> string"

record ('q, 'j) session =
  seClient :: "Client option"
  seClientBits :: int
  seRemote :: addr
  seDeadline :: "instant option"
  seTLS :: bool
  seHelo :: string
  seFrom :: string
  seFromSet :: bool
  seRcpts :: "string list"
  seWriteFailed :: bool
  sePanicked :: bool
  seIn :: stream
  seHandshake :: "stream option"
  seOut :: "(nat \<times> string list) list"
  seWrites :: "bool list"
  seTimes :: "instant list"
  seLast :: instant
  seCancel :: "bool list"
  seQueue :: 'q
  seJournal :: 'j
  seRate :: limiter
  seConns :: connCounter
  seLost :: nat

section \<open>Clock, replies and deadlines\<close>

definition time_now :: "('q, 'j) session \<Rightarrow> instant \<times> ('q, 'j) session" where
  "time_now s = (case seTimes s of [] \<Rightarrow> (seLast s, s) | t # ts \<Rightarrow> (t, s\<lparr>seTimes := ts, seLast := t\<rparr>))"

text \<open>A write: it goes out, or it fails and so does every later one on the same buffer.\<close>

definition write_reply :: "nat \<Rightarrow> string list \<Rightarrow> ('q, 'j) session \<Rightarrow> ('q, 'j) session" where
  "write_reply code ls s =
     (if seWriteFailed s then s
      else case seWrites s of
             [] \<Rightarrow> s\<lparr>seOut := seOut s @ [(code, ls)]\<rparr>
           | f # fs \<Rightarrow> if f then s\<lparr>seWrites := fs, seWriteFailed := True\<rparr>
                       else s\<lparr>seWrites := fs, seOut := seOut s @ [(code, ls)]\<rparr>)"

definition reply :: "nat \<Rightarrow> string \<Rightarrow> ('q, 'j) session \<Rightarrow> ('q, 'j) session" where
  "reply code msg s = write_reply code [msg] s"

definition refuse_conn :: "nat \<Rightarrow> string \<Rightarrow> ('q, 'j) session \<Rightarrow> ('q, 'j) session" where
  "refuse_conn code msg s = write_reply code [msg] s"

definition multiline :: "nat \<Rightarrow> string list \<Rightarrow> ('q, 'j) session \<Rightarrow> ('q, 'j) session" where
  "multiline code ls s = write_reply code ls s"

definition unmatchedMaxConns :: int where "unmatchedMaxConns = 2"
definition unmatchedMaxSession :: duration where "unmatchedMaxSession = 30 * second"

definition maxMessageBytes :: "('q, 'j) Server \<Rightarrow> ('q, 'j) session \<Rightarrow> int" where
  "maxMessageBytes sv s =
     (let g = limMaxMessageMB (cLimits (svCfg sv));
          mb = (case seClient s of
                  Some c \<Rightarrow> if clMaxMessageMB c > 0 \<and> clMaxMessageMB c < g then clMaxMessageMB c else g
                | None \<Rightarrow> g)
      in i64 (mb * 1024 * 1024))"

definition resetTransaction :: "('q, 'j) session \<Rightarrow> ('q, 'j) session" where
  "resetTransaction s = s\<lparr>seFrom := [], seFromSet := False, seRcpts := []\<rparr>"

definition panic :: "('q, 'j) session \<Rightarrow> ('q, 'j) session" where
  "panic s = s\<lparr>sePanicked := True\<rparr>"

section \<open>Greeting\<close>

definition doHelo :: "('q, 'j) Server \<Rightarrow> string \<Rightarrow> string \<Rightarrow> ('q, 'j) session \<Rightarrow> ('q, 'j) session" where
  "doHelo sv verb arg0 s =
     (let arg = TrimSpace arg0; host = Hostname (cService (svCfg sv)) in
      if arg = [] \<or> length arg > 255 \<or> ContainsAny arg [CR, LF, NUL] then reply 501 ''5.5.4 invalid argument'' s
      else (let s1 = resetTransaction (s\<lparr>seHelo := arg\<rparr>) in
            if verb = ''HELO'' then reply 250 host s1
            else multiline 250
                   ([host, ''SIZE '' @ dec_int (maxMessageBytes sv s1), ''8BITMIME'', ''PIPELINING'', ''ENHANCEDSTATUSCODES''] @
                    (if lTLS (svLc sv) = TLSStartTLS \<and> \<not> seTLS s1 then [''STARTTLS''] else [])) s1))"

text \<open>The handshake replaces the reader: bytes that were buffered before it are gone with the old one.\<close>

definition doStartTLS :: "('q, 'j) Server \<Rightarrow> ('q, 'j) session \<Rightarrow> bool \<times> ('q, 'j) session" where
  "doStartTLS sv s =
     (if lTLS (svLc sv) \<noteq> TLSStartTLS \<or> \<not> svTLSConf sv then (True, reply 502 ''5.5.1 command not implemented'' s)
      else if seTLS s then (True, reply 503 ''5.5.1 TLS already active'' s)
      else (let s1 = reply 220 ''2.0.0 ready to start TLS'' s in
            case seHandshake s1 of
              None \<Rightarrow> (False, s1)
            | Some tls \<Rightarrow> (True, resetTransaction (s1\<lparr>seIn := tls, seHandshake := None, seTLS := True, seHelo := []\<rparr>))))"

section \<open>Envelope\<close>

fun checkSizeParam :: "('q, 'j) Server \<Rightarrow> string list \<Rightarrow> ('q, 'j) session \<Rightarrow> bool \<times> ('q, 'j) session" where
  "checkSizeParam sv [] s = (True, s)"
| "checkSizeParam sv (p # ps) s =
     (if \<not> HasPrefix (ToUpper p) ''SIZE='' then checkSizeParam sv ps s
      else case ParseInt64 (drop 5 p) of
             None \<Rightarrow> (False, reply 501 ''5.5.4 invalid SIZE parameter'' s)
           | Some n \<Rightarrow> if n > maxMessageBytes sv s then (False, reply 552 ''5.3.4 message exceeds size limit'' s)
                       else checkSizeParam sv ps s)"

definition doMail :: "('q, 'j) Server \<Rightarrow> string \<Rightarrow> ('q, 'j) session \<Rightarrow> ('q, 'j) session" where
  "doMail sv arg s =
     (case seClient s of
        None \<Rightarrow> reply 550 ''5.7.1 relay access denied'' s
      | Some cl \<Rightarrow>
          if seHelo s = [] then reply 503 ''5.5.1 send HELO or EHLO first'' s
          else if RequireTLS (svLc sv) \<and> \<not> seTLS s then reply 530 ''5.7.0 must issue a STARTTLS command first'' s
          else if seFromSet s then reply 503 ''5.5.1 nested MAIL command'' s
          else if \<not> HasPrefix (ToUpper arg) ''FROM:'' then reply 501 ''5.5.4 expected MAIL FROM:<address>'' s
          else (case parsePath (drop 5 arg) of
                  None \<Rightarrow> reply 501 ''5.1.7 malformed address'' s
                | Some (a, params) \<Rightarrow>
                    (case checkSizeParam sv params s of
                       (False, s1) \<Rightarrow> s1
                     | (True, s1) \<Rightarrow>
                         (case time_now s1 of (now, s2) \<Rightarrow>
                          (case Allow (clName cl) (clRateLimitPerMin cl) now (seRate s2) of (_, ok, rate) \<Rightarrow>
                           (let s3 = s2\<lparr>seRate := rate\<rparr> in
                            if \<not> ok then reply 451 ''4.7.0 rate limit exceeded, try again later'' s3
                            else reply 250 ''2.1.0 OK'' (s3\<lparr>seFrom := a, seFromSet := True\<rparr>)))))))"

definition doRcpt :: "('q, 'j) Server \<Rightarrow> string \<Rightarrow> ('q, 'j) session \<Rightarrow> ('q, 'j) session" where
  "doRcpt sv arg s =
     (if \<not> seFromSet s then reply 503 ''5.5.1 send MAIL FROM first'' s
      else case seClient s of
             None \<Rightarrow> reply 503 ''5.5.1 send MAIL FROM first'' s
           | Some cl \<Rightarrow>
               if int (length (seRcpts s)) \<ge> MaxRecipients cl then reply 452 ''4.5.3 too many recipients'' s
               else if \<not> HasPrefix (ToUpper arg) ''TO:'' then reply 501 ''5.5.4 expected RCPT TO:<address>'' s
               else (case parsePath (drop 3 arg) of
                       None \<Rightarrow> reply 501 ''5.1.3 malformed address'' s
                     | Some (a, _) \<Rightarrow>
                         if a = [] then reply 501 ''5.1.3 empty recipient'' s
                         else reply 250 ''2.1.5 OK'' (s\<lparr>seRcpts := seRcpts s @ [a]\<rparr>)))"

section \<open>Data\<close>

definition replyReadError :: "read_err \<Rightarrow> ('q, 'j) session \<Rightarrow> ('q, 'j) session" where
  "replyReadError e s =
     (case e of
        errLineTooLong \<Rightarrow> reply 500 ''5.5.2 line exceeds 1000 octets'' s
      | errNulByte \<Rightarrow> reply 500 ''5.5.2 NUL byte in message'' s
      | errBareCR \<Rightarrow> reply 500 ''5.5.2 bare CR in message headers'' s
      | errTooManyHdrs \<Rightarrow> reply 552 (''5.3.4 '' @ read_err_text e) s
      | errHdrTooLarge \<Rightarrow> reply 552 (''5.3.4 '' @ read_err_text e) s
      | EOF \<Rightarrow> s
      | UnexpectedEOF \<Rightarrow> s
      | NetErr \<Rightarrow> reply 451 ''4.3.0 error accepting message'' s)"

definition replyDataError :: "spool_err \<Rightarrow> ('q, 'j) session \<Rightarrow> ('q, 'j) session" where
  "replyDataError e s =
     (case e of
        ErrTooLarge \<Rightarrow> reply 552 ''5.3.4 message exceeds size limit'' s
      | ErrRead r \<Rightarrow> replyReadError r s
      | _ \<Rightarrow> reply 451 ''4.3.0 error accepting message'' s)"

definition receivedHeader :: "('q, 'j) Server \<Rightarrow> ('q, 'j) session \<Rightarrow> instant \<Rightarrow> id \<Rightarrow> string" where
  "receivedHeader sv s now i =
     ''Received: from '' @ seHelo s @ '' ('' @ svAddrString sv (seRemote s) @ '')'' @ CRLF @ [TAB] @ ''by '' @
     Hostname (cService (svCfg sv)) @ '' with '' @ (if seTLS s then ''ESMTPS'' else if seHelo s \<noteq> [] then ''ESMTP'' else ''SMTP'') @
     '' id '' @ i @ '';'' @ CRLF @ [TAB] @ svFormatTime sv now @ CRLF"

text \<open>The whole of the DATA phase as the body reader delivers it to a buffered reader.\<close>

definition read_body :: "stream \<Rightarrow> stream \<times> dotReader" where
  "read_body br = (case drain (\<lambda>_. bufSize) (newDotReader br) of (bs, e, d) \<Rightarrow> (\<lparr>sIn = bs, sEnd = e\<rparr>, d))"

definition stageMessage ::
  "('q, 'j) Server \<Rightarrow> Client \<Rightarrow> stream \<Rightarrow> ('q, 'j) session \<Rightarrow> (staged \<times> Result) option \<times> ('q, 'j) session" where
  "stageMessage sv cl hr s =
     (case scanHeaders hr (cLimits (svCfg sv)) of
        (Inl e, _) \<Rightarrow> (None, replyReadError e s)
      | (Inr (headers, hops), hr') \<Rightarrow>
          if int hops \<ge> MaxHops (cLimits (svCfg sv)) then (None, reply 554 ''5.4.6 too many hops, routing loop suspected'' s)
          else (case Apply (svRules sv (clName cl)) (seFrom s) headers of
                  Inl e \<Rightarrow> (None, reply 550 ''5.6.0 message headers cannot be rewritten safely'' s)
                | Inr res \<Rightarrow>
                    (case qStage (svQueue sv)
                            (resHeaders res @ sIn hr', if sEnd hr' = EOF then None else Some (sEnd hr'))
                            (maxMessageBytes sv s) (seQueue s) of
                       (Inl e, q) \<Rightarrow> (None, replyDataError e (s\<lparr>seQueue := q\<rparr>))
                     | (Inr st, q) \<Rightarrow> (Some (st, res), s\<lparr>seQueue := q\<rparr>))))"

definition envelope_of :: "('q, 'j) Server \<Rightarrow> Client \<Rightarrow> Result \<Rightarrow> Group \<Rightarrow> instant \<Rightarrow> ('q, 'j) session \<Rightarrow> envelope" where
  "envelope_of sv cl res g now s =
     \<lparr>envFrom = resFrom res, envTo = gRecipients g, envOrigin = clName cl, envRoute = gRoute g,
      envListener = lName (svLc sv), envRemoteAddr = svAddrString sv (seRemote s), envHelo = seHelo s, envTLS = seTLS s,
      envSize = 0, envReceived = now, envOriginalFrom = OriginalFrom res, envKind = [], envNotification = False,
      envCanary = False\<rparr>"

definition accepted_record ::
  "('q, 'j) Server \<Rightarrow> Client \<Rightarrow> id \<Rightarrow> Group \<Rightarrow> Result \<Rightarrow> journalMeta \<Rightarrow> instant \<Rightarrow> int \<Rightarrow> duration \<Rightarrow>
   ('q, 'j) session \<Rightarrow> MessageRecord" where
  "accepted_record sv cl i g res jm received sz lifetime s =
     \<lparr>recQueueID = i, recOrigin = clName cl, recRoute = gRoute g, recFrom = resFrom res,
      recOriginalFrom = OriginalFrom res, recRecipients = gRecipients g, recSubject = jmSubject jm,
      recListener = lName (svLc sv), recRemoteAddr = svAddrString sv (seRemote s), recMessageID = jmMessageID jm,
      recContentType = jmContentType jm, recSizeBytes = sz, recHeaderCount = int (jmHeaderCount jm),
      recHelo = sanitizeHeaderMeta (seHelo s) maxStoredHelo, recReceivedAt = received,
      recExpiresAt = received + lifetime, recTLS = seTLS s\<rparr>"

definition journalAccepted ::
  "('q, 'j) Server \<Rightarrow> Client \<Rightarrow> id \<Rightarrow> Group \<Rightarrow> Result \<Rightarrow> journalMeta \<Rightarrow> instant \<Rightarrow> int \<Rightarrow> duration \<Rightarrow>
   ('q, 'j) session \<Rightarrow> ('q, 'j) session" where
  "journalAccepted sv cl i g res jm received sz lifetime s =
     (case jMessage (svJournal sv) (accepted_record sv cl i g res jm received sz lifetime s) (seJournal s) of
        (None, j) \<Rightarrow> s\<lparr>seJournal := j\<rparr>
      | (Some e, j) \<Rightarrow> s\<lparr>seJournal := j, seLost := seLost s + 1\<rparr>)"

fun withdraw :: "('q, 'j) Server \<Rightarrow> id list \<Rightarrow> ('q, 'j) session \<Rightarrow> ('q, 'j) session" where
  "withdraw sv [] s = s"
| "withdraw sv (i # is) s =
     (case qDiscard (svQueue sv) i (seQueue s) of
        (Some e, q) \<Rightarrow> withdraw sv is (s\<lparr>seQueue := q\<rparr>)
      | (None, q) \<Rightarrow>
          (case jRemoval (svJournal sv) i (seJournal s) of
             (None, j) \<Rightarrow> withdraw sv is (s\<lparr>seQueue := q, seJournal := j\<rparr>)
           | (Some e, j) \<Rightarrow> withdraw sv is (s\<lparr>seQueue := q, seJournal := j, seLost := seLost s + 1\<rparr>)))"

fun commit_groups ::
  "('q, 'j) Server \<Rightarrow> Client \<Rightarrow> staged \<Rightarrow> Result \<Rightarrow> journalMeta \<Rightarrow> duration \<Rightarrow> Group list \<Rightarrow> id list \<Rightarrow>
   ('q, 'j) session \<Rightarrow> id list option \<times> ('q, 'j) session" where
  "commit_groups sv cl st res jm lifetime [] done s = (Some done, s)"
| "commit_groups sv cl st res jm lifetime (g # gs) done s =
     (case time_now s of (now, s1) \<Rightarrow>
      (case time_now s1 of (stamp, s2) \<Rightarrow>
       (case qCommit (svQueue sv) st (envelope_of sv cl res g now s2) lifetime (Some (receivedHeader sv s2 stamp)) (seQueue s2) of
          (Inl e, q) \<Rightarrow> (None, replyDataError e (withdraw sv done (s2\<lparr>seQueue := q\<rparr>)))
        | (Inr i, q) \<Rightarrow>
            commit_groups sv cl st res jm lifetime gs (done @ [i])
              (journalAccepted sv cl i g res jm now (stSize st) lifetime (s2\<lparr>seQueue := q\<rparr>)))))"

definition commitCopies ::
  "('q, 'j) Server \<Rightarrow> Client \<Rightarrow> staged \<Rightarrow> Result \<Rightarrow> Group list \<Rightarrow> duration \<Rightarrow> ('q, 'j) session \<Rightarrow>
   id list option \<times> ('q, 'j) session" where
  "commitCopies sv cl st res groups lifetime s =
     commit_groups sv cl st res (journalMetaOf (RetainSubjects (cHistory (svCfg sv))) (resHeaders res)) lifetime groups [] s"

definition doData :: "('q, 'j) Server \<Rightarrow> ('q, 'j) session \<Rightarrow> bool \<times> ('q, 'j) session" where
  "doData sv s =
     (if \<not> seFromSet s \<or> seRcpts s = [] then (True, reply 503 ''5.5.1 send MAIL FROM and RCPT TO first'' s)
      else case seClient s of
             None \<Rightarrow> (False, panic s)
           | Some cl \<Rightarrow>
               (case Split (svRouter sv) (seRcpts s) (seRemote s) (clRoute cl) (seClientBits s) of
                  Inl e \<Rightarrow> (True, reply 451 ''4.3.5 no route configured'' s)
                | Inr groups \<Rightarrow>
                    (case read_body (seIn s) of (hr, d) \<Rightarrow>
                     (case stageMessage sv cl hr ((reply 354 ''end data with <CR><LF>.<CR><LF>'' s)\<lparr>seIn := dBr d\<rparr>) of
                        (None, s1) \<Rightarrow> (False, s1)
                      | (Some (st, res), s1) \<Rightarrow>
                          (case commitCopies sv cl st res groups (i64 (MaxLifetimeHours (cQueue (svCfg sv)) * hour)) s1 of
                             (None, s2) \<Rightarrow> (False, s2\<lparr>seQueue := qUnstage (svQueue sv) st (seQueue s2)\<rparr>)
                           | (Some ids, s2) \<Rightarrow>
                               (let s3 = resetTransaction (reply 250 (''2.0.0 OK queued as '' @ Join ids '' '') s2)
                                in (\<not> smuggled d, s3\<lparr>seQueue := qUnstage (svQueue sv) st (seQueue s3)\<rparr>)))))))"

section \<open>The loop\<close>

definition command :: "('q, 'j) Server \<Rightarrow> string \<Rightarrow> string \<Rightarrow> ('q, 'j) session \<Rightarrow> bool \<times> ('q, 'j) session" where
  "command sv verb arg s =
     (if verb = ''EHLO'' \<or> verb = ''HELO'' then (True, doHelo sv verb arg s)
      else if verb = ''STARTTLS'' then doStartTLS sv s
      else if verb = ''MAIL'' then (True, doMail sv arg s)
      else if verb = ''RCPT'' then (True, doRcpt sv arg s)
      else if verb = ''DATA'' then doData sv s
      else if verb = ''RSET'' then (True, reply 250 ''2.0.0 OK'' (resetTransaction s))
      else if verb = ''NOOP'' then (True, reply 250 ''2.0.0 OK'' s)
      else if verb = ''VRFY'' \<or> verb = ''EXPN'' then (True, reply 252 ''2.5.2 cannot verify'' s)
      else if verb = ''QUIT'' then (False, reply 221 ''2.0.0 bye'' s)
      else if verb = ''AUTH'' then (True, reply 502 ''5.5.1 command not implemented'' s)
      else (True, reply 500 ''5.5.1 command not recognised'' s))"

text \<open>What happens before a command is read: the reasons to end the session.\<close>

definition loop_guard :: "('q, 'j) session \<Rightarrow> bool \<times> ('q, 'j) session" where
  "loop_guard s =
     (if seWriteFailed s then (False, s)
      else case (case seDeadline s of
                   None \<Rightarrow> (False, s)
                 | Some dl \<Rightarrow> (case time_now s of (now, s1) \<Rightarrow> (now \<ge> dl, s1))) of
             (True, s1) \<Rightarrow> (False, reply 421 ''4.7.0 session time limit reached'' s1)
           | (False, s1) \<Rightarrow>
               (case seCancel s1 of
                  [] \<Rightarrow> (True, s1)
                | c # cs \<Rightarrow> if c then (False, reply 421 ''4.3.2 service shutting down'' (s1\<lparr>seCancel := cs\<rparr>))
                            else (True, s1\<lparr>seCancel := cs\<rparr>)))"

definition read_failed :: "read_err \<Rightarrow> ('q, 'j) session \<Rightarrow> ('q, 'j) session" where
  "read_failed e s =
     (if e = errLineTooLong \<or> e = errNulByte \<or> e = errBareCR then reply 500 (''5.5.2 '' @ read_err_text e) s else s)"

text \<open>The bytes a session can still read, over both of its streams.\<close>

definition unread :: "('q, 'j) session \<Rightarrow> nat" where
  "unread s = length (sIn (seIn s)) + (case seHandshake s of None \<Rightarrow> 0 | Some t \<Rightarrow> length (sIn t) + 1)"

subsection \<open>Every handler reads on\<close>

lemma write_reply_fields [simp]:
  "seIn (write_reply c l s) = seIn s" "seHandshake (write_reply c l s) = seHandshake s" "seQueue (write_reply c l s) = seQueue s"
  "seJournal (write_reply c l s) = seJournal s" "seClient (write_reply c l s) = seClient s" "seFromSet (write_reply c l s) = seFromSet s"
  "sePanicked (write_reply c l s) = sePanicked s" "seRcpts (write_reply c l s) = seRcpts s" "seHelo (write_reply c l s) = seHelo s"
  "seTLS (write_reply c l s) = seTLS s" "seFrom (write_reply c l s) = seFrom s" "seRemote (write_reply c l s) = seRemote s"
  "seClientBits (write_reply c l s) = seClientBits s" "seDeadline (write_reply c l s) = seDeadline s" "seTimes (write_reply c l s) = seTimes s"
  "seLast (write_reply c l s) = seLast s" "seCancel (write_reply c l s) = seCancel s" "seRate (write_reply c l s) = seRate s"
  "seConns (write_reply c l s) = seConns s" "seLost (write_reply c l s) = seLost s"
  by (auto simp: write_reply_def split: list.splits)

lemmas reply_defs = reply_def refuse_conn_def multiline_def

lemma time_now_fields:
  assumes "time_now s = (t, s')"
  shows "seIn s' = seIn s" "seHandshake s' = seHandshake s" "seQueue s' = seQueue s" "seJournal s' = seJournal s"
    "seClient s' = seClient s" "seFromSet s' = seFromSet s" "sePanicked s' = sePanicked s" "seRcpts s' = seRcpts s"
    "seHelo s' = seHelo s" "seTLS s' = seTLS s" "seFrom s' = seFrom s" "seRemote s' = seRemote s" "seOut s' = seOut s"
    "seWriteFailed s' = seWriteFailed s" "seLost s' = seLost s" "seClientBits s' = seClientBits s"
  using assms by (auto simp: time_now_def split: list.splits)

lemma checkSizeParam_keeps:
  "checkSizeParam sv ps s = (ok, s') \<Longrightarrow>
     (ok \<longrightarrow> s' = s) \<and> (\<not> ok \<longrightarrow> (\<exists>c m. s' = reply c m s))"
  by (induction ps arbitrary: s) (auto split: if_splits option.splits)

lemma dot_reader_rest:
  assumes "read_body br = (hr, d)"
  shows "length (sIn (dBr d)) \<le> length (sIn br)"
proof -
  obtain bs e d' where r: "drain (\<lambda>_. bufSize) (newDotReader br) = (bs, e, d')" by (rule prod_cases3)
  obtain bs1 e1 sm br' where q: "dot_run True br = (bs1, e1, sm, br')" by (metis prod_cases4)
  have "dBr d' = br'" using drain_dot_run [of "newDotReader br" bs1 e1 sm br' "\<lambda>_. bufSize"] r q by (auto simp: newDotReader_def)
  moreover obtain used where "body_end True br used e1 sm br'" using dot_run_end [OF q] by blast
  ultimately show ?thesis using assms r by (simp add: read_body_def body_end_def)
qed

lemma reply_error_fields [simp]:
  "seIn (replyReadError e s) = seIn s" "seHandshake (replyReadError e s) = seHandshake s" "seQueue (replyReadError e s) = seQueue s"
  "seJournal (replyReadError e s) = seJournal s" "seClient (replyReadError e s) = seClient s"
  "sePanicked (replyReadError e s) = sePanicked s" "seFromSet (replyReadError e s) = seFromSet s" "seHelo (replyReadError e s) = seHelo s"
  "seIn (replyDataError f s) = seIn s" "seHandshake (replyDataError f s) = seHandshake s" "seQueue (replyDataError f s) = seQueue s"
  "seJournal (replyDataError f s) = seJournal s" "seClient (replyDataError f s) = seClient s"
  "sePanicked (replyDataError f s) = sePanicked s" "seFromSet (replyDataError f s) = seFromSet s" "seHelo (replyDataError f s) = seHelo s"
  by (simp_all add: replyReadError_def replyDataError_def reply_defs split: read_err.splits spool_err.splits)

text \<open>The parts of a session that queueing a message leaves alone.\<close>

definition same_peer :: "('q, 'j) session \<Rightarrow> ('q, 'j) session \<Rightarrow> bool" where
  "same_peer s s' \<longleftrightarrow> seIn s' = seIn s \<and> seHandshake s' = seHandshake s \<and> seClient s' = seClient s \<and>
     sePanicked s' = sePanicked s \<and> seFromSet s' = seFromSet s \<and> seHelo s' = seHelo s"

lemma same_peer_refl [simp]: "same_peer s s"
  by (simp add: same_peer_def)

lemma same_peer_trans: "same_peer a b \<Longrightarrow> same_peer b c \<Longrightarrow> same_peer a c"
  by (simp add: same_peer_def)

lemma same_peer_upd [simp]:
  "same_peer a (s\<lparr>seQueue := q\<rparr>) = same_peer a s" "same_peer a (s\<lparr>seJournal := j\<rparr>) = same_peer a s"
  "same_peer a (s\<lparr>seLost := n\<rparr>) = same_peer a s" "same_peer a (write_reply c l s) = same_peer a s"
  "same_peer a (replyReadError e s) = same_peer a s" "same_peer a (replyDataError f s) = same_peer a s"
  by (simp_all add: same_peer_def)

lemma same_peer_time: "time_now s = (t, s') \<Longrightarrow> same_peer s s'"
  by (simp add: same_peer_def time_now_fields)

lemma stageMessage_peer: "stageMessage sv cl hr s = (r, s') \<Longrightarrow> same_peer s s'"
  by (auto simp: stageMessage_def reply_defs split: prod.splits sum.splits if_splits)

lemma withdraw_peer: "same_peer a s \<Longrightarrow> same_peer a (withdraw sv is s)"
  by (induction sv "is" s rule: withdraw.induct) (auto split: prod.splits option.splits)

lemma journalAccepted_peer: "same_peer a s \<Longrightarrow> same_peer a (journalAccepted sv cl i g res jm t n l s)"
  by (auto simp: journalAccepted_def split: prod.splits option.splits)

lemma commit_groups_peer: "commit_groups sv cl st res jm lifetime gs done s = (r, s') \<Longrightarrow> same_peer s s'"
proof (induction gs arbitrary: "done" s)
  case (Cons g gs)
  obtain now s1 where a: "time_now s = (now, s1)" by fastforce
  obtain stamp s2 where b: "time_now s1 = (stamp, s2)" by fastforce
  have p: "same_peer s s2" using same_peer_trans [OF same_peer_time [OF a] same_peer_time [OF b]] .
  obtain c q where q: "qCommit (svQueue sv) st (envelope_of sv cl res g now s2) lifetime (Some (receivedHeader sv s2 stamp)) (seQueue s2) = (c, q)"
    by fastforce
  show ?case
  proof (cases c)
    case (Inl e)
    have "same_peer s (withdraw sv done (s2\<lparr>seQueue := q\<rparr>))" by (rule withdraw_peer) (simp add: p)
    then show ?thesis using Cons.prems Inl by (auto simp: a b q)
  next
    case (Inr i)
    then have "same_peer (journalAccepted sv cl i g res jm now (stSize st) lifetime (s2\<lparr>seQueue := q\<rparr>)) s'"
      using Cons.prems Cons.IH by (auto simp: a b q)
    moreover have "same_peer s (journalAccepted sv cl i g res jm now (stSize st) lifetime (s2\<lparr>seQueue := q\<rparr>))"
      by (rule journalAccepted_peer) (simp add: p)
    ultimately show ?thesis by (rule same_peer_trans [rotated])
  qed
qed simp

lemma doData_cases:
  assumes "doData sv s = (go, s')"
  obtains (refused) c l where "go" "s' = write_reply c l s"
  | (panicked) "\<not> go" "s' = panic s" "seFromSet s" "seClient s = None"
  | (failed) hr d cl where "\<not> go" "seClient s = Some cl" "read_body (seIn s) = (hr, d)"
      "same_peer (s\<lparr>seIn := dBr d\<rparr>) s'"
  | (accepted) hr d cl s1 where "seClient s = Some cl" "read_body (seIn s) = (hr, d)" "go = (\<not> smuggled d)"
      "same_peer (s\<lparr>seIn := dBr d\<rparr>) s1" "seIn s' = seIn s1" "seHandshake s' = seHandshake s1" "seClient s' = seClient s1"
      "sePanicked s' = sePanicked s1" "\<not> seFromSet s'" "seHelo s' = seHelo s1"
proof -
  consider (a) "\<not> seFromSet s \<or> seRcpts s = []" | (b) "seFromSet s" "seRcpts s \<noteq> []" "seClient s = None"
    | (c) cl where "seFromSet s" "seRcpts s \<noteq> []" "seClient s = Some cl" by (cases "seClient s") blast+
  then show thesis
  proof cases
    case a
    then show thesis using assms refused by (auto simp: doData_def reply_def)
  next
    case b
    then show thesis using assms panicked by (auto simp: doData_def)
  next
    case (c cl)
    show thesis
    proof (cases "Split (svRouter sv) (seRcpts s) (seRemote s) (clRoute cl) (seClientBits s)")
      case (Inl e)
      then show thesis using assms c refused by (auto simp: doData_def reply_def)
    next
      case (Inr groups)
      obtain hr d where hr: "read_body (seIn s) = (hr, d)" by fastforce
      define s0 where "s0 = (reply 354 ''end data with <CR><LF>.<CR><LF>'' s)\<lparr>seIn := dBr d\<rparr>"
      have p0: "same_peer (s\<lparr>seIn := dBr d\<rparr>) s0" by (simp add: same_peer_def s0_def reply_def)
      obtain r s1 where st: "stageMessage sv cl hr s0 = (r, s1)" by fastforce
      have p1: "same_peer (s\<lparr>seIn := dBr d\<rparr>) s1" using same_peer_trans [OF p0 stageMessage_peer [OF st]] .
      show thesis
      proof (cases r)
        case None
        then show thesis using assms c Inr hr st p1 failed [of cl hr d] by (simp add: doData_def s0_def)
      next
        case (Some x)
        obtain sg res where x: "x = (sg, res)" by fastforce
        obtain ids s2 where cc: "commitCopies sv cl sg res groups (i64 (MaxLifetimeHours (cQueue (svCfg sv)) * hour)) s1 = (ids, s2)"
          by fastforce
        have p2: "same_peer (s\<lparr>seIn := dBr d\<rparr>) s2"
          using same_peer_trans [OF p1 commit_groups_peer [OF cc [unfolded commitCopies_def]]] .
        show thesis
        proof (cases ids)
          case None
          then have "go = False" "s' = s2\<lparr>seQueue := qUnstage (svQueue sv) sg (seQueue s2)\<rparr>"
            using assms c Inr hr st Some x cc by (simp_all add: doData_def s0_def)
          then show thesis using failed [of cl hr d] c hr p2 by simp
        next
          case (Some l)
          then have "go = (\<not> smuggled d)"
            "s' = (resetTransaction (reply 250 (''2.0.0 OK queued as '' @ Join l '' '') s2))\<lparr>seQueue := qUnstage (svQueue sv) sg
              (seQueue (resetTransaction (reply 250 (''2.0.0 OK queued as '' @ Join l '' '') s2)))\<rparr>"
            using assms c Inr hr st \<open>r = Some x\<close> x cc by (simp_all add: doData_def s0_def Let_def)
          then show thesis using accepted [of cl hr d s2] c hr p2 by (simp add: resetTransaction_def reply_def)
        qed
      qed
    qed
  qed
qed

lemma time_now_snd [simp]:
  "seIn (snd (time_now s)) = seIn s" "seHandshake (snd (time_now s)) = seHandshake s" "seQueue (snd (time_now s)) = seQueue s"
  "seJournal (snd (time_now s)) = seJournal s" "seClient (snd (time_now s)) = seClient s"
  "seFromSet (snd (time_now s)) = seFromSet s" "sePanicked (snd (time_now s)) = sePanicked s"
  "seRcpts (snd (time_now s)) = seRcpts s" "seHelo (snd (time_now s)) = seHelo s" "seTLS (snd (time_now s)) = seTLS s"
  by (auto simp: time_now_def split: list.splits)

lemma doMail_cases:
  obtains (refused) c l where "doMail sv arg s = write_reply c l s"
  | (limited) rate c l where "doMail sv arg s = write_reply c l ((snd (time_now s))\<lparr>seRate := rate\<rparr>)"
  | (accepted) cl rate a ps where "seClient s = Some cl" "seHelo s \<noteq> []" "\<not> (RequireTLS (svLc sv) \<and> \<not> seTLS s)"
      "\<not> seFromSet s" "parsePath (drop 5 arg) = Some (a, ps)"
      "Allow (clName cl) (clRateLimitPerMin cl) (fst (time_now s)) (seRate (snd (time_now s))) = (0, True, rate)"
      "doMail sv arg s =
         write_reply 250 [''2.1.0 OK''] ((snd (time_now s))\<lparr>seRate := rate, seFrom := a, seFromSet := True\<rparr>)"
proof (cases "seClient s")
  case None
  then show thesis using refused by (simp add: doMail_def reply_def)
next
  case (Some cl)
  note cl = Some
  consider (no) "seHelo s = []" | (notls) "seHelo s \<noteq> []" "RequireTLS (svLc sv) \<and> \<not> seTLS s"
    | (nested) "seHelo s \<noteq> []" "\<not> (RequireTLS (svLc sv) \<and> \<not> seTLS s)" "seFromSet s"
    | (garbled) "seHelo s \<noteq> []" "\<not> (RequireTLS (svLc sv) \<and> \<not> seTLS s)" "\<not> seFromSet s" "\<not> HasPrefix (ToUpper arg) ''FROM:''"
    | (ok) "seHelo s \<noteq> []" "\<not> (RequireTLS (svLc sv) \<and> \<not> seTLS s)" "\<not> seFromSet s" "HasPrefix (ToUpper arg) ''FROM:''"
    by blast
  then show thesis
  proof cases
    case ok
    have m: "doMail sv arg s = (case parsePath (drop 5 arg) of
        None \<Rightarrow> reply 501 ''5.1.7 malformed address'' s
      | Some (a, params) \<Rightarrow>
          (case checkSizeParam sv params s of
             (False, s1) \<Rightarrow> s1
           | (True, s1) \<Rightarrow>
               (case time_now s1 of (now, s2) \<Rightarrow>
                (case Allow (clName cl) (clRateLimitPerMin cl) now (seRate s2) of (_, ok, rate) \<Rightarrow>
                 (let s3 = s2\<lparr>seRate := rate\<rparr> in
                  if \<not> ok then reply 451 ''4.7.0 rate limit exceeded, try again later'' s3
                  else reply 250 ''2.1.0 OK'' (s3\<lparr>seFrom := a, seFromSet := True\<rparr>))))))"
      unfolding doMail_def cl option.case if_not_P [OF ok(1)] if_not_P [OF ok(2)] if_not_P [OF ok(3)] using ok(4) by simp
    show thesis
    proof (cases "parsePath (drop 5 arg)")
      case None
      then show thesis using refused m by (simp add: reply_def)
    next
      case (Some p)
      obtain a ps where p: "parsePath (drop 5 arg) = Some (a, ps)" using Some by (cases p) simp
      obtain good s1 where c: "checkSizeParam sv ps s = (good, s1)" by fastforce
      obtain w go rate where r: "Allow (clName cl) (clRateLimitPerMin cl) (fst (time_now s)) (seRate (snd (time_now s))) = (w, go, rate)"
        by (rule prod_cases3)
      show thesis
      proof (cases good)
        case False
        then obtain x y where "s1 = reply x y s" using checkSizeParam_keeps [OF c] by blast
        then show thesis using refused p c False m by (simp add: reply_def)
      next
        case True
        then have s1: "s1 = s" using checkSizeParam_keeps [OF c] by blast
        have e: "doMail sv arg s = (let s3 = (snd (time_now s))\<lparr>seRate := rate\<rparr> in
            if \<not> go then reply 451 ''4.7.0 rate limit exceeded, try again later'' s3
            else reply 250 ''2.1.0 OK'' (s3\<lparr>seFrom := a, seFromSet := True\<rparr>))"
          by (cases "time_now s") (use m p c s1 True r in simp)
        show thesis
        proof (cases go)
          case False
          then show thesis using limited e by (simp add: reply_def)
        next
          case True
          have "w = 0" using r True by (auto simp: Allow_def Let_def split: if_split_asm option.splits)
          then show thesis using accepted [OF cl ok(1-3) p, of rate] True e r by (simp add: reply_def)
        qed
      qed
    qed
  next
    case no
    then show thesis using refused cl by (simp add: doMail_def reply_def)
  next
    case notls
    show thesis
      using refused unfolding doMail_def cl option.case if_not_P [OF notls(1)] if_P [OF notls(2)] reply_def by blast
  next
    case nested
    show thesis
      using refused
      unfolding doMail_def cl option.case if_not_P [OF nested(1)] if_not_P [OF nested(2)] if_P [OF nested(3)] reply_def by blast
  next
    case garbled
    show thesis
      using refused
      unfolding doMail_def cl option.case if_not_P [OF garbled(1)] if_not_P [OF garbled(2)] if_not_P [OF garbled(3)]
        if_P [OF garbled(4)] reply_def by blast
  qed
qed

lemma doMail_keeps:
  "seIn (doMail sv arg s) = seIn s \<and> seHandshake (doMail sv arg s) = seHandshake s \<and> seQueue (doMail sv arg s) = seQueue s \<and>
   seJournal (doMail sv arg s) = seJournal s \<and> seClient (doMail sv arg s) = seClient s \<and>
   sePanicked (doMail sv arg s) = sePanicked s \<and> seHelo (doMail sv arg s) = seHelo s \<and> seTLS (doMail sv arg s) = seTLS s"
  by (cases rule: doMail_cases [of sv arg s]) simp_all

lemma command_cases:
  assumes "command sv verb arg s = (go, s')"
  obtains (helo) "go" "s' = doHelo sv verb arg s" | (tls) "doStartTLS sv s = (go, s')" | (mail) "go" "s' = doMail sv arg s"
  | (rcpt) "go" "s' = doRcpt sv arg s" | (data) "doData sv s = (go, s')"
  | (rset) c l where "go" "s' = write_reply c l (resetTransaction s)" | (other) c l where "s' = write_reply c l s"
  using assms unfolding command_def reply_defs by (metis prod.inject)

lemma doHelo_cases:
  obtains (refused) c l where "doHelo sv verb arg s = write_reply c l s"
  | (greeted) h c l where "doHelo sv verb arg s = write_reply c l (resetTransaction (s\<lparr>seHelo := h\<rparr>))" "h \<noteq> []"
      "h = TrimSpace arg" "\<not> ContainsAny h [CR, LF, NUL]"
proof (cases "TrimSpace arg = [] \<or> length (TrimSpace arg) > 255 \<or> ContainsAny (TrimSpace arg) [CR, LF, NUL]")
  case True
  then have "doHelo sv verb arg s = write_reply 501 [''5.5.4 invalid argument''] s"
    unfolding doHelo_def Let_def reply_def by (rule if_P)
  then show thesis by (rule refused)
next
  case False
  have "\<exists>c l. doHelo sv verb arg s = write_reply c l (resetTransaction (s\<lparr>seHelo := TrimSpace arg\<rparr>))"
    unfolding doHelo_def Let_def if_not_P [OF False] reply_defs by (cases "verb = ''HELO''") auto
  then show thesis using greeted False by blast
qed

lemma doRcpt_cases:
  obtains (refused) c l where "doRcpt sv arg s = write_reply c l s"
  | (accepted) cl a ps where "seFromSet s" "seClient s = Some cl" "int (length (seRcpts s)) < MaxRecipients cl"
      "parsePath (drop 3 arg) = Some (a, ps)" "a \<noteq> []"
      "doRcpt sv arg s = write_reply 250 [''2.1.5 OK''] (s\<lparr>seRcpts := seRcpts s @ [a]\<rparr>)"
proof (cases "seClient s")
  case (Some cl)
  consider (early) "\<not> seFromSet s \<or> int (length (seRcpts s)) \<ge> MaxRecipients cl \<or> \<not> HasPrefix (ToUpper arg) ''TO:'' \<or>
      parsePath (drop 3 arg) = None"
    | (late) a ps where "seFromSet s" "\<not> int (length (seRcpts s)) \<ge> MaxRecipients cl" "HasPrefix (ToUpper arg) ''TO:''"
      "parsePath (drop 3 arg) = Some (a, ps)"
    by (cases "parsePath (drop 3 arg)") auto
  then show thesis
  proof cases
    case early
    then have "\<exists>c l. doRcpt sv arg s = write_reply c l s"
      unfolding doRcpt_def reply_def Some option.case by (elim disjE) auto
    then show thesis using refused by blast
  next
    case (late a ps)
    have e: "doRcpt sv arg s = (if a = [] then write_reply 501 [''5.1.3 empty recipient''] s
        else write_reply 250 [''2.1.5 OK''] (s\<lparr>seRcpts := seRcpts s @ [a]\<rparr>))"
      unfolding doRcpt_def reply_def Some option.case using late by (simp add: Some)
    show thesis
    proof (cases "a = []")
      case True
      then show thesis using e refused by simp
    next
      case False
      then show thesis using e accepted [OF late(1) Some _ late(4)] late(2) by simp
    qed
  qed
next
  case None
  then have "doRcpt sv arg s = write_reply 503 [''5.5.1 send MAIL FROM first''] s" by (simp add: doRcpt_def reply_def)
  then show thesis by (rule refused)
qed

lemma doStartTLS_cases:
  assumes "doStartTLS sv s = (go, s')"
  obtains (refused) c l where "go" "s' = write_reply c l s"
  | (failed) c l where "\<not> go" "s' = write_reply c l s"
  | (started) c l tls where "go" "seHandshake s = Some tls" "\<not> seTLS s"
      "s' = resetTransaction ((write_reply c l s)\<lparr>seIn := tls, seHandshake := None, seTLS := True, seHelo := []\<rparr>)"
proof (cases "lTLS (svLc sv) \<noteq> TLSStartTLS \<or> \<not> svTLSConf sv \<or> seTLS s")
  case True
  then show thesis using assms refused by (auto simp: doStartTLS_def reply_def split: if_split_asm)
next
  case False
  then show thesis using assms failed started
    by (cases "seHandshake s") (auto simp: doStartTLS_def reply_def Let_def)
qed

lemma command_unread:
  assumes "command sv verb arg s = (go, s')"
  shows "unread s' \<le> unread s"
  using assms
proof (cases rule: command_cases)
  case helo
  then show ?thesis
    by (cases rule: doHelo_cases [of sv verb arg s]) (simp_all add: unread_def resetTransaction_def)
next
  case tls
  then show ?thesis by (cases rule: doStartTLS_cases) (simp_all add: unread_def resetTransaction_def)
next
  case mail
  then show ?thesis by (simp add: unread_def doMail_keeps)
next
  case rcpt
  then show ?thesis by (cases rule: doRcpt_cases [of sv arg s]) (simp_all add: unread_def)
next
  case data
  then show ?thesis
  proof (cases rule: doData_cases)
    case (failed hr d cl)
    then show ?thesis using dot_reader_rest [OF failed(3)] by (simp add: unread_def same_peer_def)
  next
    case (accepted hr d cl s1)
    then show ?thesis using dot_reader_rest [OF accepted(2)] by (simp add: unread_def same_peer_def)
  qed (simp_all add: unread_def panic_def)
qed (simp_all add: unread_def resetTransaction_def)

lemma loop_guard_fields:
  "loop_guard s = (go, s') \<Longrightarrow> same_peer s s' \<and> seQueue s' = seQueue s \<and> seJournal s' = seJournal s"
  by (auto simp: loop_guard_def same_peer_def reply_defs time_now_fields split: if_splits option.splits prod.splits bool.splits list.splits)

lemma loop_progress:
  assumes "loop_guard s = (True, s1)" "readStructuredLine (seIn s1) maxLineOctet = (Inr line, br)"
    "command sv verb arg (s1\<lparr>seIn := br\<rparr>) = (go, s2)"
  shows "unread s2 < unread s"
proof -
  have "unread s1 = unread s" using loop_guard_fields [OF assms(1)] by (simp add: unread_def same_peer_def)
  moreover have "unread (s1\<lparr>seIn := br\<rparr>) < unread s1" using readStructuredLine_consumes [OF assms(2)] by (simp add: unread_def)
  ultimately show ?thesis using command_unread [OF assms(3)] by simp
qed

function session_loop :: "('q, 'j) Server \<Rightarrow> ('q, 'j) session \<Rightarrow> ('q, 'j) session" where
  "session_loop sv s =
     (case loop_guard s of
        (False, s1) \<Rightarrow> s1
      | (True, s1) \<Rightarrow>
          (case readStructuredLine (seIn s1) maxLineOctet of
             (Inl e, br) \<Rightarrow> read_failed e (s1\<lparr>seIn := br\<rparr>)
           | (Inr line, br) \<Rightarrow>
               (case splitCommand line of (verb, arg) \<Rightarrow>
                (case command sv verb arg (s1\<lparr>seIn := br\<rparr>) of
                   (False, s2) \<Rightarrow> s2
                 | (True, s2) \<Rightarrow> session_loop sv s2))))"
  by pat_completeness auto

termination
  by (relation "measure (\<lambda>(_, s). unread s)") (auto dest!: loop_progress [OF sym sym sym])

declare session_loop.simps [simp del]

text \<open>The handshake of an implicit-TLS connection, the greeting and the loop.\<close>

definition serve :: "('q, 'j) Server \<Rightarrow> bool \<Rightarrow> ('q, 'j) session \<Rightarrow> ('q, 'j) session" where
  "serve sv implicit s =
     (if implicit then
        (case seHandshake s of
           None \<Rightarrow> s
         | Some tls \<Rightarrow>
             session_loop sv (reply 220 (Hostname (cService (svCfg sv)) @ '' ESMTP smtprelayd'')
               (s\<lparr>seIn := tls, seHandshake := None, seTLS := True\<rparr>)))
      else session_loop sv (reply 220 (Hostname (cService (svCfg sv)) @ '' ESMTP smtprelayd'') s))"

text \<open>\<open>remote\<close> is the parsed remote address, \<open>None\<close> when it does not parse.\<close>

definition handle :: "('q, 'j) Server \<Rightarrow> addr option \<Rightarrow> bool \<Rightarrow> ('q, 'j) session \<Rightarrow> ('q, 'j) session" where
  "handle sv remote implicit s =
     (case remote of
        None \<Rightarrow> s
      | Some a \<Rightarrow>
          (let s0 = s\<lparr>seRemote := Unmap a, seClientBits := -1\<rparr> in
           case Match (svMatch sv) (seRemote s0) of (found, bits, _) \<Rightarrow>
           (case found of
              Some cl \<Rightarrow>
                (let key = connKeyClient (clName cl) in
                 case acquire key (clMaxConnections cl) (seConns s0) of
                   (False, n) \<Rightarrow> refuse_conn 421 ''4.7.0 too many connections for this client'' (s0\<lparr>seConns := n\<rparr>)
                 | (True, n) \<Rightarrow>
                     (let s1 = serve sv implicit (s0\<lparr>seConns := n, seClient := Some cl, seClientBits := bits\<rparr>)
                      in s1\<lparr>seConns := conn_release key (clMaxConnections cl) (seConns s1)\<rparr>))
            | None \<Rightarrow>
                (let key = connKeyUnmatched (svAddrString sv (seRemote s0)) in
                 case acquire key unmatchedMaxConns (seConns s0) of
                   (False, n) \<Rightarrow> refuse_conn 421 ''4.7.0 too many connections'' (s0\<lparr>seConns := n\<rparr>)
                 | (True, n) \<Rightarrow>
                     (case time_now (s0\<lparr>seConns := n\<rparr>) of (now, s1) \<Rightarrow>
                      (let s2 = serve sv implicit (s1\<lparr>seDeadline := Some (now + unmatchedMaxSession)\<rparr>)
                       in s2\<lparr>seConns := conn_release key unmatchedMaxConns (seConns s2)\<rparr>))))))"

text \<open>A connection as \<open>accept\<close> hands it over: nothing said, nothing known about the peer.\<close>

definition fresh_conn :: "('q, 'j) session \<Rightarrow> bool" where
  "fresh_conn s \<longleftrightarrow> seClient s = None \<and> seDeadline s = None \<and> \<not> seTLS s \<and> seHelo s = [] \<and> seFrom s = [] \<and>
     \<not> seFromSet s \<and> seRcpts s = [] \<and> \<not> seWriteFailed s \<and> \<not> sePanicked s \<and> seOut s = []"

section \<open>Induction along a session\<close>

text \<open>An invariant of the handlers is one of the loop.\<close>

lemma session_loop_invariant:
  assumes "P s"
    and guard: "\<And>s go s'. P s \<Longrightarrow> loop_guard s = (go, s') \<Longrightarrow> P s'"
    and reading: "\<And>s br. P s \<Longrightarrow> P (s\<lparr>seIn := br\<rparr>)"
    and failing: "\<And>s e. P s \<Longrightarrow> P (read_failed e s)"
    and step: "\<And>s verb arg go s'. P s \<Longrightarrow> command sv verb arg s = (go, s') \<Longrightarrow> P s'"
  shows "P (session_loop sv s)"
  using assms
proof (induction sv s rule: session_loop.induct)
  case (1 sv s)
  note P = "1.prems"(1) and guard = "1.prems"(2) and reading = "1.prems"(3) and failing = "1.prems"(4) and step = "1.prems"(5)
  obtain go s1 where g: "loop_guard s = (go, s1)" by fastforce
  obtain res br where r: "readStructuredLine (seIn s1) maxLineOctet = (res, br)" by fastforce
  note P1 = guard [OF P g]
  show ?case
  proof (cases go)
    case False
    then show ?thesis using P1 by (simp add: session_loop.simps [of sv s] g)
  next
    case True
    show ?thesis
    proof (cases res)
      case (Inl e)
      then show ?thesis using failing [OF reading [OF P1]] True by (simp add: session_loop.simps [of sv s] g r)
    next
      case (Inr line)
      obtain verb arg where v: "splitCommand line = (verb, arg)" by fastforce
      obtain go2 s2 where c: "command sv verb arg (s1\<lparr>seIn := br\<rparr>) = (go2, s2)" by fastforce
      have P2: "P s2" by (rule step [OF reading [OF P1] c])
      show ?thesis
      proof (cases go2)
        case False
        then show ?thesis using P2 True Inr by (simp add: session_loop.simps [of sv s] g r v c)
      next
        case go2: True
        have "P (session_loop sv s2)"
          by (rule "1.IH" [OF g [symmetric] eqTrueI [OF True] r [symmetric] Inr v [symmetric] c [symmetric] eqTrueI [OF go2] P2
            guard reading failing step])
        then show ?thesis using True Inr go2 by (simp add: session_loop.simps [of sv s] g r v c)
      qed
    qed
  qed
qed

end
