(* ===== verification/Session_Queue.thy ===== *)
theory Session_Queue
  imports Listener_Session Spool_Fates Journal_Run
begin

text \<open>
  What a session needs from its queue and its journal, as two locales, and the spool and the history
  store as their instances. The client's lemmas are about committing one copy per route and
  withdrawing the copies when a later one fails; they hold for every queue that keeps the laws.
\<close>

section \<open>The queue\<close>

text \<open>The copies a withdrawal could not take back: those whose \<open>Discard\<close> answered an error.\<close>

fun refused :: "'q queue_ops \<Rightarrow> id list \<Rightarrow> 'q \<Rightarrow> id list" where
  "refused ops [] q = []"
| "refused ops (i # is) q =
     (case qDiscard ops i q of
        (Some e, q') \<Rightarrow> i # refused ops is q'
      | (None, q') \<Rightarrow> refused ops is q')"

text \<open>The copies \<open>commit_groups\<close> had committed when one failed (or all of them), and the queue it had then.\<close>

fun committed ::
  "('q, 'j) Server \<Rightarrow> Client \<Rightarrow> staged \<Rightarrow> Result \<Rightarrow> journalMeta \<Rightarrow> duration \<Rightarrow> Group list \<Rightarrow> ('q, 'j) session \<Rightarrow> id list \<times> 'q" where
  "committed sv cl st res jm lifetime [] s = ([], seQueue s)"
| "committed sv cl st res jm lifetime (g # gs) s =
     (case time_now s of (now, s1) \<Rightarrow>
      (case time_now s1 of (stamp, s2) \<Rightarrow>
       (case qCommit (svQueue sv) st (envelope_of sv cl res g now s2) lifetime (Some (receivedHeader sv s2 stamp)) (seQueue s2) of
          (Inl e, q) \<Rightarrow> ([], q)
        | (Inr i, q) \<Rightarrow>
            (case committed sv cl st res jm lifetime gs (journalAccepted sv cl i g res jm now (stSize st) lifetime (s2\<lparr>seQueue := q\<rparr>)) of
               (is, q') \<Rightarrow> (i # is, q')))))"

lemma stageMessage_queue:
  assumes "stageMessage sv cl hr s = (r, s')"
  shows "seQueue s' = seQueue s \<or> (\<exists>b n x q. qStage (svQueue sv) b n (seQueue s) = (x, q) \<and> seQueue s' = q)"
  using assms unfolding stageMessage_def reply_defs
  by (auto split: prod.splits sum.splits if_split_asm)

locale message_queue =
  fixes ops :: "'q queue_ops" and ids :: "'q \<Rightarrow> id set"
  assumes stage_ids: "qStage ops r cap q = (x, q') \<Longrightarrow> ids q' = ids q"
    and commit_failed: "qCommit ops st env lifetime pfx q = (Inl e, q') \<Longrightarrow> ids q' = ids q"
    and commit_done: "qCommit ops st env lifetime pfx q = (Inr i, q') \<Longrightarrow> ids q' = insert i (ids q)"
    and discard_done: "qDiscard ops i q = (None, q') \<Longrightarrow> ids q' = ids q - {i}"
    and discard_failed: "qDiscard ops i q = (Some e, q') \<Longrightarrow> ids q' = ids q \<or> ids q' = ids q - {i}"
    and unstage_ids: "ids (qUnstage ops st q) = ids q"
begin

lemma withdraw_ids:
  assumes "svQueue sv = ops"
  shows "ids (seQueue (withdraw sv done s)) \<subseteq> ids (seQueue s) \<and>
    ids (seQueue s) - set done \<subseteq> ids (seQueue (withdraw sv done s)) \<and>
    ids (seQueue (withdraw sv done s)) \<inter> set done \<subseteq> set (refused ops done (seQueue s))"
  using assms
proof (induction sv "done" s rule: withdraw.induct)
  case (2 sv i "is" s)
  obtain e q where d: "qDiscard ops i (seQueue s) = (e, q)" by fastforce
  obtain f j where r: "jRemoval (svJournal sv) i (seJournal s) = (f, j)" by fastforce
  show ?case
  proof (cases e)
    case None
    define s1 where "s1 = (case f of None \<Rightarrow> s\<lparr>seQueue := q, seJournal := j\<rparr>
      | Some x \<Rightarrow> s\<lparr>seQueue := q, seJournal := j, seLost := seLost s + 1\<rparr>)"
    have w: "withdraw sv (i # is) s = withdraw sv is s1"
      using 2(4) d r None by (simp add: s1_def split: option.split)
    have q1: "seQueue s1 = q" by (simp add: s1_def split: option.split)
    have ih: "ids (seQueue (withdraw sv is s1)) \<subseteq> ids q \<and> ids q - set is \<subseteq> ids (seQueue (withdraw sv is s1)) \<and>
      ids (seQueue (withdraw sv is s1)) \<inter> set is \<subseteq> set (refused ops is q)"
    proof (cases f)
      case N: None
      then show ?thesis using 2(1) [OF d [unfolded 2(4) [symmetric], symmetric] None r [symmetric] N 2(4)] by (simp add: s1_def)
    next
      case (Some x)
      then show ?thesis using 2(2) [OF d [unfolded 2(4) [symmetric], symmetric] None r [symmetric] Some 2(4)] by (simp add: s1_def)
    qed
    show ?thesis using ih d None discard_done [of i "seQueue s" q] unfolding w by auto
  next
    case (Some x)
    have w: "withdraw sv (i # is) s = withdraw sv is (s\<lparr>seQueue := q\<rparr>)" using 2(4) d Some by simp
    show ?thesis
      using 2(3) [OF d [unfolded 2(4) [symmetric], symmetric] Some 2(4)] d Some discard_failed [of i "seQueue s" x q]
      unfolding w by auto
  qed
qed simp

text \<open>One copy per group, or none but those the queue would not give back.\<close>

definition kept_or_withdrawn :: "id list \<Rightarrow> 'q \<Rightarrow> id list \<times> 'q \<Rightarrow> id list option \<Rightarrow> nat \<Rightarrow> 'q \<Rightarrow> bool" where
  "kept_or_withdrawn done q com r n q' \<longleftrightarrow>
     (case com of (new, q1) \<Rightarrow> ids q1 = ids q \<union> set new \<and>
       (case r of
          Some is \<Rightarrow> is = done @ new \<and> length new = n \<and> q' = q1
        | None \<Rightarrow> length new < n \<and> ids q' \<subseteq> ids q1 \<and>
            ids q1 - set (done @ new) \<subseteq> ids q' \<and> ids q' \<inter> set (done @ new) \<subseteq> set (refused ops (done @ new) q1)))"

lemma commit_groups_ids:
  assumes "svQueue sv = ops" "commit_groups sv cl st res jm lifetime gs done s = (r, s')"
  shows "kept_or_withdrawn done (seQueue s) (committed sv cl st res jm lifetime gs s) r (length gs) (seQueue s')"
  using assms(2)
proof (induction gs arbitrary: "done" s)
  case Nil
  then show ?case by (auto simp: kept_or_withdrawn_def)
next
  case (Cons g gs)
  obtain now s1 where a: "time_now s = (now, s1)" by fastforce
  obtain stamp s2 where b: "time_now s1 = (stamp, s2)" by fastforce
  have q2: "seQueue s2 = seQueue s" using time_now_fields(3) [OF a] time_now_fields(3) [OF b] by simp
  obtain c q where q: "qCommit ops st (envelope_of sv cl res g now s2) lifetime (Some (receivedHeader sv s2 stamp)) (seQueue s2) = (c, q)"
    by fastforce
  show ?case
  proof (cases c)
    case (Inl e)
    then have r: "r = None" "seQueue s' = seQueue (withdraw sv done (s2\<lparr>seQueue := q\<rparr>))"
      and com: "committed sv cl st res jm lifetime (g # gs) s = ([], q)"
      using Cons.prems by (auto simp: a b q assms(1))
    have iq: "ids q = ids (seQueue s)" using commit_failed q Inl q2 by auto
    show ?thesis
      using withdraw_ids [OF assms(1), of "done" "s2\<lparr>seQueue := q\<rparr>"] r iq
      by (simp add: kept_or_withdrawn_def com del: committed.simps)
  next
    case (Inr i)
    define s3 where "s3 = journalAccepted sv cl i g res jm now (stSize st) lifetime (s2\<lparr>seQueue := q\<rparr>)"
    have q3: "seQueue s3 = q" by (simp add: s3_def journalAccepted_def split: prod.split option.split)
    have iq: "ids q = insert i (ids (seQueue s))" using commit_done q Inr q2 by auto
    have n: "commit_groups sv cl st res jm lifetime gs (done @ [i]) s3 = (r, s')"
      using Cons.prems Inr by (auto simp: a b q assms(1) s3_def)
    obtain new q1 where com': "committed sv cl st res jm lifetime gs s3 = (new, q1)" by fastforce
    have com: "committed sv cl st res jm lifetime (g # gs) s = (i # new, q1)"
      using Inr com' by (simp add: a b q assms(1) s3_def)
    have "kept_or_withdrawn (done @ [i]) q (new, q1) r (length gs) (seQueue s')" using Cons.IH [OF n] q3 com' by simp
    then show ?thesis
      using iq unfolding com by (cases r) (auto simp: kept_or_withdrawn_def simp del: committed.simps)
  qed
qed

lemma stageMessage_ids:
  assumes "svQueue sv = ops" "stageMessage sv cl hr s = (r, s')"
  shows "ids (seQueue s') = ids (seQueue s)"
  using stageMessage_queue [OF assms(2)] stage_ids unfolding assms(1) by metis

end

section \<open>The spool as a queue\<close>

text \<open>The spool and the random values it will draw.\<close>

type_synonym spool_tape = "spool \<times> string option list"

definition draw :: "spool_tape \<Rightarrow> string option \<times> spool_tape" where
  "draw q = (case snd q of [] \<Rightarrow> (None, q) | r # rs \<Rightarrow> (r, (fst q, rs)))"

definition on_spool :: "(spool \<Rightarrow> 'r \<times> spool) \<Rightarrow> spool_tape \<Rightarrow> 'r \<times> spool_tape" where
  "on_spool f q = (case f (fst q) of (r, s') \<Rightarrow> (r, (s', snd q)))"

definition spool_ops :: "spool_tape queue_ops" where
  "spool_ops =
     \<lparr>qStage = (\<lambda>r cap q. case draw q of (rnd, q1) \<Rightarrow> on_spool (Stage rnd r cap) q1),
      qCommit = (\<lambda>st env lifetime pfx q. case draw q of (rnd, q1) \<Rightarrow> on_spool (Commit rnd st env lifetime pfx) q1),
      qDiscard = (\<lambda>i q. on_spool (Discard i) q),
      qUnstage = (\<lambda>st q. (snd (Staged_Discard st (fst q)), snd q))\<rparr>"

definition live :: "spool \<Rightarrow> id set" where
  "live s = dom (index s)"

definition queued :: "spool_tape \<Rightarrow> id set" where
  "queued q = live (fst q)"

lemma same_memory_live: "same_memory s s' \<Longrightarrow> live s' = live s"
  by (simp add: same_memory_def live_def)

lemma op_live [keeps_index]:
  fixes s :: spool
  shows "os_remove p s = (e, s') \<Longrightarrow> live s' = live s"
    and "os_rename p q s = (e, s') \<Longrightarrow> live s' = live s"
    and "os_read p s = (r, s') \<Longrightarrow> live s' = live s"
    and "os_sync s = (e, s') \<Longrightarrow> live s' = live s"
    and "removeRetry p s = (e, s') \<Longrightarrow> live s' = live s"
    and "writeSynced p c n we s = (w, s') \<Longrightarrow> live s' = live s"
    and "writeMeta m s = (e, m', s') \<Longrightarrow> live s' = live s"
  by (rule same_memory_live; erule op_memory)+

lemma live_snd [simp]:
  fixes s :: spool
  shows "live (snd (os_remove p s)) = live s" "live (snd (removeRetry p s)) = live s"
  using op_live(1) [of p s] op_live(5) [of p s] by (metis prod.collapse)+

lemma live_upd [simp]:
  "live (s\<lparr>wake := b\<rparr>) = live s" "live (s\<lparr>leased := l\<rparr>) = live s" "live (s\<lparr>reserved := n\<rparr>) = live s"
  "live (putLocked m s) = insert (mID m) (live s)"
  by (simp_all add: live_def)

lemma Stage_live: "Stage rnd body cap s = (r, s') \<Longrightarrow> live s' = live s"
  by (auto simp: Stage_def Let_def split: option.splits prod.splits sum.splits if_splits dest!: op_live)

lemma Staged_Discard_live: "live (snd (Staged_Discard st s)) = live s"
  by (simp add: Staged_Discard_def split: option.splits)

definition live_after :: "spool \<Rightarrow> spool_err + id \<Rightarrow> id set" where
  "live_after s r = (case r of Inl e \<Rightarrow> live s | Inr i \<Rightarrow> insert i (live s))"

lemma publish_live:
  assumes "publish m s = (r, s')"
  shows "live s' = live_after s r"
proof -
  obtain e1 s1 where 1: "os_rename (tmpPath (mID m) ''.eml'') (dataPath (mID m)) s = (e1, s1)" by fastforce
  obtain e2 m2 s2 where 2: "writeMeta m s1 = (e2, m2, s2)" by (rule prod_cases3)
  obtain e3 s3 where 3: "os_sync s2 = (e3, s3)" by fastforce
  have "mID m2 = mID m" using writeMeta_inv [OF 2] by blast
  then show ?thesis
    using assms op_live(2) [OF 1] op_live(7) [OF 2] op_live(4) [OF 3]
    by (auto simp: publish_def Let_def 1 2 3 live_after_def split: option.splits)
qed

lemma commit_copy_live:
  assumes "commit_copy rnd src env lifetime pfx s = (r, s')"
  shows "live s' = live_after s r"
proof -
  obtain x s1 where rd: "os_read src s = (x, s1)" by fastforce
  show ?thesis
  proof (cases "New rnd = None \<or> (\<exists>e. x = Inl e)")
    case True
    then consider "New rnd = None" | i e where "New rnd = Some i" "x = Inl e" by auto
    then show ?thesis
    proof cases
      case 1
      then have "r = Inl ErrRand" "s' = s" using assms by (simp_all add: commit_copy_def)
      then show ?thesis by (simp add: live_after_def)
    next
      case (2 i e)
      then have "r = Inl e" "s' = s1" using assms rd by (simp_all add: commit_copy_def)
      then show ?thesis using op_live(3) [OF rd] by (simp add: live_after_def)
    qed
  next
    case False
    then obtain i f where i: "New rnd = Some i" "x = Inr f" by (cases x) auto
    define body where "body = (case pfx of None \<Rightarrow> [] | Some p \<Rightarrow> p i) @ content_bytes (content f)"
    obtain y s2 where 2: "writeSynced (tmpPath i ''.eml'') (Bytes body) (int (length body)) None s1 = (y, s2)" by fastforce
    have l: "live s2 = live s" using op_live(3) [OF rd] op_live(6) [OF 2] by simp
    have c: "(r, s') = (case y of Inl e \<Rightarrow> (Inl e, s2) | Inr n \<Rightarrow> publish (new_meta i env n lifetime (clock s2)) s2)"
      using assms unfolding commit_copy_def i rd Let_def option.case prod.case sum.case body_def [symmetric] 2 by (rule sym)
    show ?thesis
    proof (cases y)
      case (Inr n)
      then have "publish (new_meta i env n lifetime (clock s2)) s2 = (r, s')" using c by simp
      from publish_live [OF this] l show ?thesis by (cases r) (simp_all add: live_after_def)
    qed (use c l in \<open>simp add: live_after_def\<close>)
  qed
qed

lemma Commit_live:
  assumes "Commit rnd st env lifetime pfx s = (r, s')"
  shows "live s' = live_after s r"
proof (cases "stPath st")
  case (Some src)
  obtain e s1 where q: "reserveQuota (stSize st) s = (e, s1)" by fastforce
  have i1: "live s1 = live s" using q by (auto simp: reserveQuota_def quota_reserve_def split: if_splits)
  obtain r2 s2 where c: "commit_copy rnd src env lifetime pfx s1 = (r2, s2)" by fastforce
  have "live (releaseQuota n s2) = live s2" for n by (simp add: releaseQuota_def quota_release_def)
  moreover have "live_after s1 x = live_after s x" for x by (simp add: live_after_def i1 split: sum.split)
  ultimately show ?thesis using assms Some q i1 commit_copy_live [OF c]
    by (cases e) (auto simp: Commit_def c live_after_def [of s "Inl _"])
qed (use assms in \<open>auto simp: Commit_def live_after_def\<close>)

lemma Discard_live:
  assumes "Discard i s = (e, s')"
  shows "live s' = live s - {i} \<or> e \<noteq> None \<and> live s' = live s"
proof -
  consider "\<not> Valid i" | "Valid i" "i \<in> leased s" | "Valid i" "i \<notin> leased s" by blast
  then show ?thesis
  proof cases
    case 3
    then have "index s' = (index s)(i := None) \<or> e \<noteq> None \<and> index s' = index s"
      using Discard_result(1) [OF assms 3] by blast
    then show ?thesis unfolding live_def by (metis dom_fun_upd)
  qed (use assms in \<open>auto simp: Discard_def tryLease_def\<close>)
qed

lemma spool_ops_fields:
  "qStage spool_ops r cap q = (x, q') \<Longrightarrow> \<exists>rnd. Stage rnd r cap (fst q) = (x, fst q')"
  "qCommit spool_ops st env lifetime pfx q = (y, q') \<Longrightarrow> \<exists>rnd. Commit rnd st env lifetime pfx (fst q) = (y, fst q')"
  "qDiscard spool_ops i q = (e, q') \<Longrightarrow> Discard i (fst q) = (e, fst q')"
  by (auto simp: spool_ops_def on_spool_def draw_def split: prod.splits list.splits)

interpretation spq: message_queue spool_ops queued
proof (unfold_locales, goal_cases)
  case (1 r cap q x q')
  then show ?case using spool_ops_fields(1) Stage_live unfolding queued_def by blast
next
  case (2 st env lifetime pfx q e q')
  then obtain rnd where "Commit rnd st env lifetime pfx (fst q) = (Inl e, fst q')" using spool_ops_fields(2) by blast
  from Commit_live [OF this] show ?case unfolding queued_def by (simp add: live_after_def)
next
  case (3 st env lifetime pfx q i q')
  then obtain rnd where "Commit rnd st env lifetime pfx (fst q) = (Inr i, fst q')" using spool_ops_fields(2) by blast
  from Commit_live [OF this] show ?case unfolding queued_def by (simp add: live_after_def)
next
  case (4 i q q')
  then show ?case using spool_ops_fields(3) Discard_live unfolding queued_def by blast
next
  case (5 i q e q')
  then show ?case using spool_ops_fields(3) Discard_live unfolding queued_def by blast
next
  case (6 st q)
  then show ?case by (simp add: spool_ops_def queued_def Staged_Discard_live)
qed

section \<open>The journal\<close>

locale message_journal =
  fixes jops :: "'j journal_ops" and has :: "'j \<Rightarrow> id \<Rightarrow> bool"
  assumes message_done: "jMessage jops r j = (None, j') \<Longrightarrow> has j' i \<longleftrightarrow> i = recQueueID r \<or> has j i"
    and message_failed: "jMessage jops r j = (Some e, j') \<Longrightarrow> has j' = has j"
    and removal_keeps: "jRemoval jops i j = (x, j') \<Longrightarrow> has j' = has j"
begin

text \<open>The copies an accepted message has no row for are no more than the writes counted as lost.\<close>

definition missing :: "'j \<Rightarrow> id list \<Rightarrow> nat" where
  "missing j is = length (filter (\<lambda>i. \<not> has j i) is)"

lemma missing_mono: "(\<And>i. has j i \<Longrightarrow> has j' i) \<Longrightarrow> missing j' is \<le> missing j is"
  by (induction "is") (auto simp: missing_def)

lemma journalAccepted_has:
  assumes "svJournal sv = jops" and s'_def: "s' = journalAccepted sv cl i g res jm t n lifetime s"
  shows "\<And>k. has (seJournal s) k \<Longrightarrow> has (seJournal s') k"
    and "(if has (seJournal s') i then 0 else 1) + seLost s \<le> seLost s'"
proof -
  define rc where "rc = accepted_record sv cl i g res jm t n lifetime s"
  have rc: "recQueueID rc = i" by (simp add: rc_def accepted_record_def)
  have s': "s' = (case jMessage jops rc (seJournal s) of
      (None, j) \<Rightarrow> s\<lparr>seJournal := j\<rparr> | (Some e, j) \<Rightarrow> s\<lparr>seJournal := j, seLost := seLost s + 1\<rparr>)"
    unfolding s'_def journalAccepted_def assms(1) rc_def ..
  obtain e j where m: "jMessage jops rc (seJournal s) = (e, j)" by fastforce
  show "has (seJournal s') k" if "has (seJournal s) k" for k
    using that m message_done [of rc "seJournal s" j k] message_failed [of rc "seJournal s" _ j] unfolding s'
    by (cases e) auto
  show "(if has (seJournal s') i then 0 else 1) + seLost s \<le> seLost s'"
    using m message_done [of rc "seJournal s" j i] rc unfolding s' by (cases e) auto
qed

lemma commit_groups_journal:
  assumes "svJournal sv = jops"
  shows "commit_groups sv cl st res jm lifetime gs done s = (Some all, s') \<Longrightarrow>
    \<exists>new. all = done @ new \<and> missing (seJournal s') new + seLost s \<le> seLost s' \<and>
      (\<forall>k. has (seJournal s) k \<longrightarrow> has (seJournal s') k)"
proof (induction gs arbitrary: "done" s)
  case (Cons g gs)
  obtain now s1 where a: "time_now s = (now, s1)" by fastforce
  obtain stamp s2 where b: "time_now s1 = (stamp, s2)" by fastforce
  obtain c q where q: "qCommit (svQueue sv) st (envelope_of sv cl res g now s2) lifetime (Some (receivedHeader sv s2 stamp)) (seQueue s2) = (c, q)"
    by fastforce
  obtain i where i: "c = Inr i" using Cons.prems by (cases c) (auto simp: a b q)
  define s3 where "s3 = journalAccepted sv cl i g res jm now (stSize st) lifetime (s2\<lparr>seQueue := q\<rparr>)"
  have n: "commit_groups sv cl st res jm lifetime gs (done @ [i]) s3 = (Some all, s')"
    using Cons.prems by (simp add: a b q i s3_def)
  from Cons.IH [OF n] obtain new where new: "all = (done @ [i]) @ new" "missing (seJournal s') new + seLost s3 \<le> seLost s'"
    "\<forall>k. has (seJournal s3) k \<longrightarrow> has (seJournal s') k" by blast
  have f: "seJournal s2 = seJournal s" "seLost s2 = seLost s"
    using time_now_fields(4,15) [OF a] time_now_fields(4,15) [OF b] by simp_all
  note k = journalAccepted_has [OF assms s3_def]
  have "missing (seJournal s') (i # new) + seLost s \<le> seLost s'"
    using new(2,3) k(2) f by (auto simp: missing_def split: if_split_asm)
  moreover have "has (seJournal s) k \<longrightarrow> has (seJournal s') k" for k using new(3) k(1) [of k] f by simp
  ultimately show ?case using new(1) by (intro exI [of _ "i # new"]) simp
qed (simp add: missing_def)

end

definition store_ops :: "store journal_ops" where
  "store_ops = \<lparr>jMessage = RecordMessage, jRemoval = RecordRemoval\<rparr>"

lemma RecordMessage_has:
  assumes "RecordMessage rc s = (e, s')"
  shows "has_message i s' \<longleftrightarrow> (e = None \<and> i = recQueueID rc) \<or> has_message i s"
proof -
  obtain ok s1 where d: "db_call s = (ok, s1)" by fastforce
  show ?thesis
    using assms db_call_keeps(1) [OF d] unfolding RecordMessage_def Let_def d
    by (cases ok; cases "has_message (recQueueID rc) s1") (auto simp: has_message_def)
qed

lemma RecordRemoval_has:
  assumes "RecordRemoval i s = (e, s')"
  shows "has_message k s' = has_message k s"
  using in_tx_cases [OF assms [unfolded RecordRemoval_def RecordAttempt_def Let_def]]
  by (auto simp: has_message_def simp flip: set_map)

interpretation sj: message_journal store_ops "\<lambda>s i. has_message i s"
proof (unfold_locales, goal_cases)
  case (1 r j j' i)
  then show ?case using RecordMessage_has [of r j None j' i] by (simp add: store_ops_def)
next
  case (2 r j e j')
  then show ?case using RecordMessage_has [of r j "Some e" j'] by (auto simp: store_ops_def)
next
  case (3 i j x j')
  then show ?case using RecordRemoval_has [of i j x j'] by (auto simp: store_ops_def)
qed

end
