(* ===== verification/Session_Properties.thy ===== *)
theory Session_Properties
  imports Session_Queue
begin

text \<open>
  What a client can and cannot do through a session: what reaches the queue, what a refused or broken
  transaction leaves behind, and what STARTTLS forgets.
\<close>

section \<open>One DATA command\<close>

lemma doData_steps:
  assumes "doData sv s = (go, s')"
  obtains (refused) c l where "go" "c \<noteq> 250" "s' = write_reply c l s"
  | (panicked) "\<not> go" "s' = panic s" "seFromSet s" "seClient s = None"
  | (unstaged) cl groups hr d where "\<not> go" "seFromSet s" "seClient s = Some cl"
      "Split (svRouter sv) (seRcpts s) (seRemote s) (clRoute cl) (seClientBits s) = Inr groups"
      "read_body (seIn s) = (hr, d)"
      "stageMessage sv cl hr ((reply 354 ''end data with <CR><LF>.<CR><LF>'' s)\<lparr>seIn := dBr d\<rparr>) = (None, s')"
  | (withdrawn) cl groups hr d st res s1 s2 where "\<not> go" "seFromSet s" "seClient s = Some cl"
      "Split (svRouter sv) (seRcpts s) (seRemote s) (clRoute cl) (seClientBits s) = Inr groups"
      "read_body (seIn s) = (hr, d)"
      "stageMessage sv cl hr ((reply 354 ''end data with <CR><LF>.<CR><LF>'' s)\<lparr>seIn := dBr d\<rparr>) = (Some (st, res), s1)"
      "commitCopies sv cl st res groups (i64 (MaxLifetimeHours (cQueue (svCfg sv)) * hour)) s1 = (None, s2)"
      "s' = s2\<lparr>seQueue := qUnstage (svQueue sv) st (seQueue s2)\<rparr>"
  | (accepted) cl groups hr d st res s1 ids s2 where "go = (\<not> smuggled d)" "seFromSet s" "seClient s = Some cl"
      "Split (svRouter sv) (seRcpts s) (seRemote s) (clRoute cl) (seClientBits s) = Inr groups"
      "read_body (seIn s) = (hr, d)"
      "stageMessage sv cl hr ((reply 354 ''end data with <CR><LF>.<CR><LF>'' s)\<lparr>seIn := dBr d\<rparr>) = (Some (st, res), s1)"
      "commitCopies sv cl st res groups (i64 (MaxLifetimeHours (cQueue (svCfg sv)) * hour)) s1 = (Some ids, s2)"
      "s' = (resetTransaction (reply 250 (''2.0.0 OK queued as '' @ Join ids '' '') s2))\<lparr>seQueue := qUnstage (svQueue sv) st (seQueue s2)\<rparr>"
proof (cases "seFromSet s \<and> seRcpts s \<noteq> []")
  case False
  then have "go" "s' = write_reply 503 [''5.5.1 send MAIL FROM and RCPT TO first''] s"
    using assms by (auto simp: doData_def reply_def split: if_split_asm)
  then show thesis by (intro refused [of 503]) simp_all
next
  case True
  show thesis
  proof (cases "seClient s")
    case None
    then show thesis using panicked assms True by (simp add: doData_def)
  next
    case (Some cl)
    show thesis
    proof (cases "Split (svRouter sv) (seRcpts s) (seRemote s) (clRoute cl) (seClientBits s)")
      case (Inl e)
      then have "go" "s' = write_reply 451 [''4.3.5 no route configured''] s"
        using assms True Some by (simp_all add: doData_def reply_def)
      then show thesis by (intro refused [of 451]) simp_all
    next
      case (Inr groups)
      obtain hr d where hr: "read_body (seIn s) = (hr, d)" by fastforce
      obtain r s1 where st: "stageMessage sv cl hr ((reply 354 ''end data with <CR><LF>.<CR><LF>'' s)\<lparr>seIn := dBr d\<rparr>) = (r, s1)"
        by fastforce
      show thesis
      proof (cases r)
        case None
        then show thesis using unstaged [OF _ _ Some Inr hr] assms True Some Inr hr st by (simp add: doData_def)
      next
        case (Some x)
        obtain sg res where x: "x = (sg, res)" by fastforce
        obtain ids s2 where cc: "commitCopies sv cl sg res groups (i64 (MaxLifetimeHours (cQueue (svCfg sv)) * hour)) s1 = (ids, s2)"
          by fastforce
        show thesis
        proof (cases ids)
          case None
          then show thesis
            using withdrawn [OF _ _ \<open>seClient s = Some cl\<close> Inr hr, of sg res s1 s2] assms True \<open>seClient s = Some cl\<close> Inr hr st Some x cc
            by (simp add: doData_def)
        next
          case (Some l)
          then show thesis
            using accepted [OF _ _ \<open>seClient s = Some cl\<close> Inr hr, of sg res s1 l s2] assms True \<open>seClient s = Some cl\<close> Inr hr st
              \<open>r = Some x\<close> x cc
            by (simp add: doData_def Let_def resetTransaction_def reply_def)
        qed
      qed
    qed
  qed
qed

text \<open>The replies a step added.\<close>

definition replies :: "('q, 'j) session \<Rightarrow> ('q, 'j) session \<Rightarrow> (nat \<times> string list) list" where
  "replies s s' = drop (length (seOut s)) (seOut s')"

definition adds :: "(nat \<Rightarrow> bool) \<Rightarrow> ('q, 'j) session \<Rightarrow> ('q, 'j) session \<Rightarrow> bool" where
  "adds P s s' \<longleftrightarrow> (\<exists>rs. seOut s' = seOut s @ rs \<and> (\<forall>r \<in> set rs. P (fst r)))"

lemma adds_refl [simp]: "adds P s s" by (simp add: adds_def)

lemma adds_trans: "adds P a b \<Longrightarrow> adds P b c \<Longrightarrow> adds P a c"
  by (fastforce simp: adds_def)

lemma adds_reply: "P c \<Longrightarrow> adds P s (write_reply c l s)"
  by (auto simp: adds_def write_reply_def split: list.split)

lemma adds_upd [simp]:
  "adds P a (s\<lparr>seQueue := q\<rparr>) = adds P a s" "adds P a (s\<lparr>seJournal := j\<rparr>) = adds P a s"
  "adds P a (s\<lparr>seLost := n\<rparr>) = adds P a s" "adds P a (s\<lparr>seIn := i\<rparr>) = adds P a s"
  by (simp_all add: adds_def)

lemma adds_error:
  assumes "adds (\<lambda>c. c \<noteq> 250) a s"
  shows "adds (\<lambda>c. c \<noteq> 250) a (replyReadError e s)" and "adds (\<lambda>c. c \<noteq> 250) a (replyDataError f s)"
  using assms adds_trans [OF assms adds_reply [of "\<lambda>c. c \<noteq> 250"]]
  by (auto simp: replyReadError_def replyDataError_def reply_def split: read_err.split spool_err.split)

lemma adds_withdraw: "adds P a s \<Longrightarrow> adds P a (withdraw sv is s)"
  by (induction sv "is" s rule: withdraw.induct) (auto split: prod.split option.split)

lemma adds_time: "time_now s = (t, s') \<Longrightarrow> adds P s s'"
  using time_now_fields(13) [of s t s'] by (simp add: adds_def)

lemma adds_stage: "stageMessage sv cl hr s = (r, s') \<Longrightarrow> adds (\<lambda>c. c \<noteq> 250) s s'"
  by (auto simp: stageMessage_def reply_def split: prod.splits sum.splits if_splits intro: adds_error adds_reply)

lemma adds_commit: "commit_groups sv cl st res jm lifetime gs done s = (r, s') \<Longrightarrow> adds (\<lambda>c. c \<noteq> 250) s s'"
proof (induction gs arbitrary: "done" s)
  case (Cons g gs)
  obtain now s1 where a: "time_now s = (now, s1)" by fastforce
  obtain stamp s2 where b: "time_now s1 = (stamp, s2)" by fastforce
  have p: "adds (\<lambda>c. c \<noteq> 250) s s2" using adds_trans [OF adds_time [OF a] adds_time [OF b]] .
  obtain c q where q: "qCommit (svQueue sv) st (envelope_of sv cl res g now s2) lifetime (Some (receivedHeader sv s2 stamp)) (seQueue s2) = (c, q)"
    by fastforce
  show ?case
  proof (cases c)
    case (Inl e)
    have "adds (\<lambda>c. c \<noteq> 250) s (withdraw sv done (s2\<lparr>seQueue := q\<rparr>))" by (rule adds_withdraw) (simp add: p)
    then show ?thesis using Cons.prems Inl adds_error(2) by (auto simp: a b q)
  next
    case (Inr i)
    define s3 where "s3 = journalAccepted sv cl i g res jm now (stSize st) lifetime (s2\<lparr>seQueue := q\<rparr>)"
    have "adds (\<lambda>c. c \<noteq> 250) s s3" using p by (simp add: s3_def journalAccepted_def split: prod.split option.split)
    moreover have "adds (\<lambda>c. c \<noteq> 250) s3 s'" using Cons.prems Inr Cons.IH by (auto simp: a b q s3_def)
    ultimately show ?thesis by (rule adds_trans)
  qed
qed simp

text \<open>C20: Accepting a message is all or nothing. After DATA on the relay's own spool, whatever fails on
  the way, either nothing was queued, or one copy per route was queued and they are exactly the
  identifiers the 250 reply names, or a commit failed: then no 250 was sent, the connection is
  closed, nothing queued earlier is gone except by a withdrawal of one of the new copies, and of the
  copies committed before the failure (\<open>committed\<close>, for the groups of this message and the state the staging
  left) only those are still queued whose \<open>Discard\<close>, asked for in turn from the queue of that moment, was
  refused (a worker had already claimed it, or the file system failed).\<close>

theorem data_all_or_nothing:
  assumes "svQueue sv = spool_ops" and "doData sv s = (go, s')"
  shows "(queued (seQueue s') = queued (seQueue s) \<and> adds (\<lambda>c. c \<noteq> 250) s s') \<or>
    (\<exists>ids cl groups s1. seClient s = Some cl \<and>
       Split (svRouter sv) (seRcpts s) (seRemote s) (clRoute cl) (seClientBits s) = Inr groups \<and>
       length ids = length groups \<and> queued (seQueue s') = queued (seQueue s) \<union> set ids \<and>
       adds (\<lambda>c. c \<noteq> 250) s s1 \<and>
       seOut s' = seOut (reply 250 (''2.0.0 OK queued as '' @ Join ids '' '') s1)) \<or>
    (\<not> go \<and> adds (\<lambda>c. c \<noteq> 250) s s' \<and>
       (\<exists>cl groups hr d st res s1 new q. seClient s = Some cl \<and>
          Split (svRouter sv) (seRcpts s) (seRemote s) (clRoute cl) (seClientBits s) = Inr groups \<and>
          read_body (seIn s) = (hr, d) \<and>
          stageMessage sv cl hr ((reply 354 ''end data with <CR><LF>.<CR><LF>'' s)\<lparr>seIn := dBr d\<rparr>) = (Some (st, res), s1) \<and>
          committed sv cl st res (journalMetaOf (RetainSubjects (cHistory (svCfg sv))) (resHeaders res)) (i64 (MaxLifetimeHours (cQueue (svCfg sv)) * hour)) groups s1 = (new, q) \<and>
          length new < length groups \<and> queued q = queued (seQueue s) \<union> set new \<and>
          queued (seQueue s) - set new \<subseteq> queued (seQueue s') \<and>
          queued (seQueue s') \<subseteq> queued (seQueue s) \<union> set new \<and>
          queued (seQueue s') \<inter> set new \<subseteq> set (refused spool_ops new q)))"
proof -
  have start: "adds (\<lambda>c. c \<noteq> 250) s ((reply 354 ''end data with <CR><LF>.<CR><LF>'' s)\<lparr>seIn := br\<rparr>)" for br
    using adds_reply [of "\<lambda>c. c \<noteq> 250" 354] by (simp add: reply_def)
  have q0: "seQueue ((reply 354 ''end data with <CR><LF>.<CR><LF>'' s)\<lparr>seIn := br\<rparr>) = seQueue s" for br
    by (simp add: reply_def)
  from assms(2) show ?thesis
  proof (cases rule: doData_steps)
    case (refused c l)
    then show ?thesis using adds_reply [of "\<lambda>c. c \<noteq> 250" c s l] by simp
  next
    case panicked
    then show ?thesis by (simp add: panic_def adds_def)
  next
    case (unstaged cl groups hr d)
    then show ?thesis
      using spq.stageMessage_ids [OF assms(1) unstaged(6)] adds_trans [OF start adds_stage [OF unstaged(6)]] q0 by simp
  next
    case (withdrawn cl groups hr d st res s1 s2)
    have a: "adds (\<lambda>c. c \<noteq> 250) s s2"
      by (rule adds_trans [OF adds_trans [OF start adds_stage [OF withdrawn(6)]] adds_commit [OF withdrawn(7) [unfolded commitCopies_def]]])
    have q1: "queued (seQueue s1) = queued (seQueue s)"
      using spq.stageMessage_ids [OF assms(1) withdrawn(6)] q0 by simp
    obtain new q where com: "committed sv cl st res (journalMetaOf (RetainSubjects (cHistory (svCfg sv))) (resHeaders res)) (i64 (MaxLifetimeHours (cQueue (svCfg sv)) * hour)) groups s1 = (new, q)"
      by (rule prod.exhaust)
    have w: "length new < length groups" "queued q = queued (seQueue s) \<union> set new" "queued (seQueue s2) \<subseteq> queued q"
      "queued q - set new \<subseteq> queued (seQueue s2)" "queued (seQueue s2) \<inter> set new \<subseteq> set (refused spool_ops new q)"
      using spq.commit_groups_ids [OF assms(1) withdrawn(7) [unfolded commitCopies_def]]
      by (auto simp: spq.kept_or_withdrawn_def com q1)
    have s2: "queued (seQueue s') = queued (seQueue s2)"
      using spq.unstage_ids by (simp add: withdrawn(8) assms(1))
    have "queued (seQueue s) - set new \<subseteq> queued (seQueue s')" "queued (seQueue s') \<subseteq> queued (seQueue s) \<union> set new"
      using w(2-4) unfolding s2 by blast+
    moreover have "adds (\<lambda>c. c \<noteq> 250) s s'" by (simp add: withdrawn(8) a)
    ultimately show ?thesis using withdrawn(1,3-6) com w(1,2,5) unfolding s2 by blast
  next
    case (accepted cl groups hr d st res s1 ids s2)
    have a: "adds (\<lambda>c. c \<noteq> 250) s s2"
      by (rule adds_trans [OF adds_trans [OF start adds_stage [OF accepted(6)]] adds_commit [OF accepted(7) [unfolded commitCopies_def]]])
    have q1: "queued (seQueue s1) = queued (seQueue s)"
      using spq.stageMessage_ids [OF assms(1) accepted(6)] q0 by simp
    have "length ids = length groups \<and> queued (seQueue s2) = queued (seQueue s1) \<union> set ids"
      using spq.commit_groups_ids [OF assms(1) accepted(7) [unfolded commitCopies_def]] by (auto simp: spq.kept_or_withdrawn_def)
    moreover have "queued (seQueue s') = queued (seQueue s2)"
      using spq.unstage_ids by (simp add: accepted(8) assms(1))
    moreover have "seOut s' = seOut (reply 250 (''2.0.0 OK queued as '' @ Join ids '' '') s2)"
      by (simp add: accepted(8) resetTransaction_def)
    ultimately show ?thesis using a accepted(3,4) q1 by blast
  qed
qed

text \<open>C22: Every copy a client is told is queued has its row in the history store, or the journal write
  failed and was counted: the counter of lost journal writes grows by at least the number of
  acknowledged copies the store does not know.\<close>

theorem accepted_is_journalled:
  assumes "svJournal sv = store_ops" and "commitCopies sv cl st res groups lifetime s = (Some ids, s')"
  shows "length (filter (\<lambda>i. \<not> has_message i (seJournal s')) ids) + seLost s \<le> seLost s' \<and>
    (\<forall>k. has_message k (seJournal s) \<longrightarrow> has_message k (seJournal s'))"
  using sj.commit_groups_journal [OF assms(1) assms(2) [unfolded commitCopies_def]] by (auto simp: sj.missing_def)

section \<open>Who can queue\<close>

definition matched :: "('q, 'j) Server \<Rightarrow> addr \<Rightarrow> Client option" where
  "matched sv a = fst (Match (svMatch sv) (Unmap a))"

text \<open>An envelope a session may commit for the source \<open>a\<close>.\<close>

definition authorised :: "('q, 'j) Server \<Rightarrow> addr \<Rightarrow> envelope \<Rightarrow> bool" where
  "authorised sv a env \<longleftrightarrow> (\<exists>cl. matched sv a = Some cl \<and> envOrigin env = clName cl \<and>
     envTo env \<noteq> [] \<and> int (length (envTo env)) \<le> MaxRecipients cl \<and> (\<forall>t \<in> set (envTo env). t \<noteq> [] \<and> no_line_break t) \<and>
     envHelo env \<noteq> [] \<and> no_line_break (envHelo env) \<and> (RequireTLS (svLc sv) \<longrightarrow> envTLS env) \<and>
     envListener env = lName (svLc sv) \<and> envRemoteAddr env = svAddrString sv (Unmap a))"

text \<open>What holds of a session between any two commands.\<close>

definition sound :: "('q, 'j) Server \<Rightarrow> addr \<Rightarrow> ('q, 'j) session \<Rightarrow> bool" where
  "sound sv a s \<longleftrightarrow> \<not> sePanicked s \<and> seRemote s = Unmap a \<and> seClient s = matched sv a \<and> no_line_break (seHelo s) \<and>
     (\<forall>t \<in> set (seRcpts s). t \<noteq> [] \<and> no_line_break t) \<and>
     (\<forall>cl. seRcpts s \<noteq> [] \<longrightarrow> matched sv a = Some cl \<longrightarrow> int (length (seRcpts s)) \<le> MaxRecipients cl) \<and>
     (seFromSet s \<longrightarrow> matched sv a \<noteq> None \<and> seHelo s \<noteq> [] \<and> (RequireTLS (svLc sv) \<longrightarrow> seTLS s))"

lemma sound_cong:
  assumes "sound sv a s" "same_peer s s'" "seRemote s' = seRemote s" "seRcpts s' = seRcpts s" "seTLS s' = seTLS s"
  shows "sound sv a s'"
  using assms by (simp add: sound_def same_peer_def)

lemma sound_reply [simp]: "sound sv a (write_reply c l s) = sound sv a s"
  by (simp add: sound_def)

lemma sound_upd [simp]:
  "sound sv a (s\<lparr>seQueue := q\<rparr>) = sound sv a s" "sound sv a (s\<lparr>seJournal := j\<rparr>) = sound sv a s"
  "sound sv a (s\<lparr>seLost := n\<rparr>) = sound sv a s" "sound sv a (s\<lparr>seIn := i\<rparr>) = sound sv a s"
  "sound sv a (s\<lparr>seRate := r\<rparr>) = sound sv a s" "sound sv a (s\<lparr>seConns := n'\<rparr>) = sound sv a s"
  "sound sv a (s\<lparr>seCancel := cs\<rparr>) = sound sv a s" "sound sv a (s\<lparr>seDeadline := d\<rparr>) = sound sv a s"
  by (simp_all add: sound_def)

lemma sound_time: "sound sv a s \<Longrightarrow> sound sv a (snd (time_now s))"
  by (simp add: sound_def time_now_def split: list.split)

lemma sound_reset: "sound sv a s \<Longrightarrow> sound sv a (resetTransaction s)"
  by (simp add: sound_def resetTransaction_def)

lemma sound_errors [simp]: "sound sv a (replyReadError e s) = sound sv a s" "sound sv a (replyDataError f s) = sound sv a s"
  by (simp_all add: replyReadError_def replyDataError_def reply_def split: read_err.split spool_err.split)

lemma stage_sound: "stageMessage sv' cl hr s = (r, s') \<Longrightarrow> sound sv a s \<Longrightarrow> sound sv a s'"
  by (auto simp: stageMessage_def reply_def split: prod.splits sum.splits if_splits)

lemma withdraw_sound: "sound sv a s \<Longrightarrow> sound sv a (withdraw sv' is s)"
  by (induction sv' "is" s rule: withdraw.induct) (auto split: prod.splits option.splits)

lemma journalAccepted_sound: "sound sv a s \<Longrightarrow> sound sv a (journalAccepted sv' cl i g res jm t n l s)"
  by (auto simp: journalAccepted_def split: prod.splits option.splits)

text \<open>A property of the queue that authorised commits keep.\<close>

locale guarded_queue =
  fixes sv :: "('q, 'j) Server" and a :: addr and R :: "'q \<Rightarrow> bool"
  assumes stage_R: "matched sv a \<noteq> None \<Longrightarrow> R q \<Longrightarrow> R (snd (qStage (svQueue sv) r n q))"
    and commit_R: "authorised sv a env \<Longrightarrow> R q \<Longrightarrow> R (snd (qCommit (svQueue sv) st env lifetime pfx q))"
    and discard_R: "matched sv a \<noteq> None \<Longrightarrow> R q \<Longrightarrow> R (snd (qDiscard (svQueue sv) i q))"
    and unstage_R: "matched sv a \<noteq> None \<Longrightarrow> R q \<Longrightarrow> R (qUnstage (svQueue sv) st q)"
begin

definition inv_ok :: "('q, 'j) session \<Rightarrow> bool" where
  "inv_ok s \<longleftrightarrow> sound sv a s \<and> R (seQueue s)"

lemma withdraw_R: "matched sv a \<noteq> None \<Longrightarrow> R (seQueue s) \<Longrightarrow> R (seQueue (withdraw sv is s))"
proof (induction "is" arbitrary: s)
  case (Cons i "is")
  obtain e q where d: "qDiscard (svQueue sv) i (seQueue s) = (e, q)" by fastforce
  have "R q" using discard_R [OF Cons.prems, of i] d by simp
  then show ?case using Cons.IH [OF Cons.prems(1)] by (auto simp: d split: prod.split option.split)
qed simp

lemma commit_R_groups:
  assumes "matched sv a = Some cl"
  shows "commit_groups sv cl st res jm lifetime gs done s = (r, s') \<Longrightarrow> inv_ok s \<Longrightarrow>
    seHelo s \<noteq> [] \<Longrightarrow> (RequireTLS (svLc sv) \<longrightarrow> seTLS s) \<Longrightarrow>
    (\<And>g. g \<in> set gs \<Longrightarrow> gRecipients g \<noteq> [] \<and> int (length (gRecipients g)) \<le> MaxRecipients cl \<and>
       (\<forall>t \<in> set (gRecipients g). t \<noteq> [] \<and> no_line_break t)) \<Longrightarrow> inv_ok s'"
proof (induction gs arbitrary: "done" s)
  case (Cons g gs)
  obtain now s1 where t1: "time_now s = (now, s1)" by fastforce
  obtain stamp s2 where t2: "time_now s1 = (stamp, s2)" by fastforce
  have eq: "s2 = snd (time_now (snd (time_now s)))" by (simp add: t1 t2)
  have ok2: "sound sv a s2" using Cons.prems(2) by (simp add: eq inv_ok_def sound_time)
  have f: "seQueue s2 = seQueue s" "seHelo s2 = seHelo s" "seTLS s2 = seTLS s" by (simp_all add: eq)
  have env: "authorised sv a (envelope_of sv cl res g now s2)"
    using Cons.prems(3,4) Cons.prems(5) [of g] assms ok2 f by (simp add: authorised_def envelope_of_def sound_def)
  obtain c q where q: "qCommit (svQueue sv) st (envelope_of sv cl res g now s2) lifetime (Some (receivedHeader sv s2 stamp)) (seQueue s2) = (c, q)"
    by fastforce
  have Rq: "R q"
    using commit_R [OF env, of "seQueue s2" st lifetime "Some (receivedHeader sv s2 stamp)"] q Cons.prems(2) f by (simp add: inv_ok_def)
  show ?case
  proof (cases c)
    case (Inl e)
    have "R (seQueue (withdraw sv done (s2\<lparr>seQueue := q\<rparr>)))" using withdraw_R assms Rq by simp
    moreover have "sound sv a (withdraw sv done (s2\<lparr>seQueue := q\<rparr>))" by (rule withdraw_sound) (simp add: ok2)
    ultimately show ?thesis using Cons.prems(1) Inl by (auto simp: t1 t2 q inv_ok_def)
  next
    case (Inr i)
    define s3 where "s3 = journalAccepted sv cl i g res jm now (stSize st) lifetime (s2\<lparr>seQueue := q\<rparr>)"
    have "sound sv a s3" unfolding s3_def by (rule journalAccepted_sound) (simp add: ok2)
    moreover have "seQueue s3 = q" "seHelo s3 = seHelo s" "seTLS s3 = seTLS s"
      by (simp_all add: s3_def journalAccepted_def f split: prod.split option.split)
    moreover have "commit_groups sv cl st res jm lifetime gs (done @ [i]) s3 = (r, s')"
      using Cons.prems(1) Inr by (simp add: t1 t2 q s3_def)
    moreover have "gRecipients h \<noteq> [] \<and> int (length (gRecipients h)) \<le> MaxRecipients cl \<and>
       (\<forall>t \<in> set (gRecipients h). t \<noteq> [] \<and> no_line_break t)" if "h \<in> set gs" for h
      by (rule Cons.prems(5)) (simp add: that)
    ultimately show ?thesis using Cons.prems(3,4) Rq by (intro Cons.IH [of "done @ [i]" s3]) (simp_all add: inv_ok_def)
  qed
qed simp

lemma stage_R_session:
  assumes "matched sv a \<noteq> None" "inv_ok s" "stageMessage sv cl hr s = (r, s')"
  shows "inv_ok s'"
proof -
  have "R (seQueue s')"
    using stageMessage_queue [OF assms(3)]
  proof (elim disjE exE conjE)
    fix b n x q
    assume "qStage (svQueue sv) b n (seQueue s) = (x, q)" "seQueue s' = q"
    then show ?thesis using stage_R [OF assms(1), of "seQueue s" b n] assms(2) by (simp add: inv_ok_def)
  qed (use assms(2) in \<open>simp add: inv_ok_def\<close>)
  then show ?thesis using stage_sound [OF assms(3)] assms(2) by (simp add: inv_ok_def)
qed

lemma doData_R:
  assumes "inv_ok s" "doData sv s = (go, s')"
  shows "inv_ok s'"
proof -
  let ?start = "\<lambda>d. (reply 354 ''end data with <CR><LF>.<CR><LF>'' s)\<lparr>seIn := dBr d\<rparr>"
  have st0: "inv_ok (?start d)" for d using assms(1) by (simp add: inv_ok_def reply_def)
  have groups: "gRecipients g \<noteq> [] \<and> int (length (gRecipients g)) \<le> MaxRecipients cl \<and>
      (\<forall>t \<in> set (gRecipients g). t \<noteq> [] \<and> no_line_break t)"
    if sp: "Split (svRouter sv) (seRcpts s) (seRemote s) (clRoute cl) (seClientBits s) = Inr gs" and g: "g \<in> set gs"
      and cl: "seClient s = Some cl" for g gs cl
  proof -
    obtain P where p: "gRecipients g \<noteq> []" "gRecipients g = filter P (seRcpts s)" using split_groups [OF sp] g by blast
    then have "seRcpts s \<noteq> []" by auto
    then have "int (length (seRcpts s)) \<le> MaxRecipients cl" using assms(1) cl by (auto simp: inv_ok_def sound_def)
    moreover have "int (length (gRecipients g)) \<le> int (length (seRcpts s))" using p(2) by simp
    ultimately have "int (length (gRecipients g)) \<le> MaxRecipients cl" by simp
    then show ?thesis using p assms(1) by (simp add: inv_ok_def sound_def)
  qed
  have kept: "seHelo s1 = seHelo s \<and> seTLS s1 = seTLS s" if "stageMessage sv cl hr (?start d) = (r, s1)" for cl hr d r s1
    using that by (auto simp: stageMessage_def reply_def replyReadError_def replyDataError_def
        split: prod.splits sum.splits if_splits read_err.splits spool_err.splits)
  from assms(2) show ?thesis
  proof (cases rule: doData_steps)
    case panicked
    have "sound sv a s" using assms(1) by (simp add: inv_ok_def)
    then have "seClient s \<noteq> None" using panicked(3) unfolding sound_def by metis
    then show ?thesis using panicked(4) by simp
  next
    case (refused c l)
    then show ?thesis using assms(1) by (simp add: inv_ok_def)
  next
    case (unstaged cl groups hr d)
    have "matched sv a \<noteq> None" using assms(1) unstaged(2) by (auto simp: inv_ok_def sound_def)
    then show ?thesis by (rule stage_R_session [OF _ st0 unstaged(6)])
  next
    case (withdrawn cl gs hr d st res s1 s2)
    have m: "matched sv a = Some cl" and h: "seHelo s \<noteq> []" "RequireTLS (svLc sv) \<longrightarrow> seTLS s"
      using assms(1) withdrawn(2,3) by (auto simp: inv_ok_def sound_def)
    have "inv_ok s1" using stage_R_session [OF _ st0 withdrawn(6)] m by simp
    then have "inv_ok s2"
      using commit_R_groups [OF m withdrawn(7) [unfolded commitCopies_def]] kept [OF withdrawn(6)] h groups [OF withdrawn(4) _ withdrawn(3)] by simp
    then show ?thesis using unstage_R m by (simp add: withdrawn(8) inv_ok_def)
  next
    case (accepted cl gs hr d st res s1 ids s2)
    have m: "matched sv a = Some cl" and h: "seHelo s \<noteq> []" "RequireTLS (svLc sv) \<longrightarrow> seTLS s"
      using assms(1) accepted(2,3) by (auto simp: inv_ok_def sound_def)
    have "inv_ok s1" using stage_R_session [OF _ st0 accepted(6)] m by simp
    then have "inv_ok s2"
      using commit_R_groups [OF m accepted(7) [unfolded commitCopies_def]] kept [OF accepted(6)] h groups [OF accepted(4) _ accepted(3)] by simp
    then have "inv_ok (resetTransaction (reply 250 (''2.0.0 OK queued as '' @ Join ids '' '') s2))"
      by (auto simp: inv_ok_def reply_def intro: sound_reset) (simp add: resetTransaction_def)
    then show ?thesis using unstage_R m by (simp add: accepted(8) inv_ok_def resetTransaction_def reply_def)
  qed
qed

lemma command_R:
  assumes "inv_ok s" "command sv verb arg s = (go, s')"
  shows "inv_ok s'"
  using assms(2)
proof (cases rule: command_cases)
  case helo
  show ?thesis
  proof (cases rule: doHelo_cases [of sv verb arg s])
    case (greeted h c l)
    have "no_line_break h" using greeted(4) by (auto simp: no_line_break_def ContainsAny_def list_ex_iff)
    then show ?thesis using assms(1) helo greeted by (simp add: inv_ok_def sound_def resetTransaction_def)
  qed (use assms(1) helo in \<open>simp add: inv_ok_def\<close>)
next
  case tls
  then show ?thesis
  proof (cases rule: doStartTLS_cases)
    case (started c l tls)
    then show ?thesis using assms(1) by (simp add: inv_ok_def sound_def resetTransaction_def no_line_break_def)
  qed (use assms(1) in \<open>simp_all add: inv_ok_def\<close>)
next
  case mail
  show ?thesis
  proof (cases rule: doMail_cases [of sv arg s])
    case (accepted cl rate x ps)
    have "matched sv a = Some cl" using assms(1) accepted(1) by (simp add: inv_ok_def sound_def)
    then show ?thesis using assms(1) mail sound_time [of sv a s] accepted by (auto simp: inv_ok_def sound_def)
  qed (use assms(1) mail sound_time [of sv a s] in \<open>simp_all add: inv_ok_def\<close>)
next
  case rcpt
  show ?thesis
  proof (cases rule: doRcpt_cases [of sv arg s])
    case (accepted cl x ps)
    have "no_line_break x" using accepted(4) by (auto simp: parsePath_def Let_def split: option.splits if_splits dest: validateAddress_clean)
    then show ?thesis using assms(1) rcpt accepted by (auto simp: inv_ok_def sound_def)
  qed (use assms(1) rcpt in \<open>simp_all add: inv_ok_def\<close>)
next
  case data
  then show ?thesis by (rule doData_R [OF assms(1)])
qed (use assms(1) in \<open>simp_all add: inv_ok_def sound_def resetTransaction_def\<close>)

lemma session_R: "inv_ok s \<Longrightarrow> inv_ok (session_loop sv s)"
proof (rule session_loop_invariant [where P = inv_ok])
  show "inv_ok s \<Longrightarrow> inv_ok s" .
next
  fix s go s'
  assume ok: "inv_ok s" and g: "loop_guard s = (go, s')"
  have "sound sv a s'"
    using ok g sound_time [of sv a s]
    by (auto simp: inv_ok_def loop_guard_def reply_def split: if_splits option.splits prod.splits bool.splits list.splits)
  then show "inv_ok s'" using loop_guard_fields [OF g] ok by (simp add: inv_ok_def)
next
  fix s verb arg go s'
  assume "inv_ok s" "command sv verb arg s = (go, s')"
  then show "inv_ok s'" by (rule command_R)
qed (auto simp: inv_ok_def read_failed_def reply_def)

end

text \<open>What a session for the source \<open>a\<close> may do to its queue: stage, commit what it is authorised to
  commit, discard and unstage; and for a source no client matches, nothing.\<close>

inductive relayed :: "('q, 'j) Server \<Rightarrow> addr \<Rightarrow> 'q \<Rightarrow> 'q \<Rightarrow> bool" for sv a q0 where
  untouched: "relayed sv a q0 q0"
| staging: "relayed sv a q0 q \<Longrightarrow> matched sv a \<noteq> None \<Longrightarrow> relayed sv a q0 (snd (qStage (svQueue sv) r n q))"
| committing: "relayed sv a q0 q \<Longrightarrow> authorised sv a env \<Longrightarrow> relayed sv a q0 (snd (qCommit (svQueue sv) st env lifetime pfx q))"
| discarding: "relayed sv a q0 q \<Longrightarrow> matched sv a \<noteq> None \<Longrightarrow> relayed sv a q0 (snd (qDiscard (svQueue sv) i q))"
| unstaging: "relayed sv a q0 q \<Longrightarrow> matched sv a \<noteq> None \<Longrightarrow> relayed sv a q0 (qUnstage (svQueue sv) st q)"

interpretation rel: guarded_queue sv a "relayed sv a q0" for sv :: "('q, 'j) Server" and a q0
  by unfold_locales (rule relayed.intros; assumption)+

inductive_cases relayedE: "relayed sv a q0 q"

lemma relayed_unmatched:
  assumes "relayed sv a q0 q" "matched sv a = None"
  shows "q = q0"
  using assms by (induction rule: relayed.induct) (simp_all add: authorised_def)

lemma serve_rel:
  assumes "rel.inv_ok sv a q0 s"
  shows "rel.inv_ok sv a q0 (serve sv implicit s)"
proof -
  have "rel.inv_ok sv a q0 (reply 220 x (s\<lparr>seIn := i, seHandshake := None, seTLS := True\<rparr>))" for x i
    using assms by (simp add: rel.inv_ok_def reply_def sound_def)
  moreover have "rel.inv_ok sv a q0 (reply 220 x s)" for x
    using assms by (simp add: rel.inv_ok_def reply_def)
  ultimately show ?thesis using assms unfolding serve_def by (cases "seHandshake s") (auto intro!: rel.session_R)
qed

text \<open>C19: The relay is closed: whatever a client sends, on a plain or an implicit-TLS connection and with
  any queue behind the server, a session only commits envelopes that are authorised for its source -
  the client is the most specific one its address matches, the recipients are at most the client's
  limit and free of line breaks, HELO was said, TLS was used where the listener requires it - and an
  address no client matches leaves the queue untouched. No byte sequence makes a session panic.\<close>

theorem only_authorised_mail_is_queued:
  assumes "fresh_conn s"
  shows "relayed sv a (seQueue s) (seQueue (handle sv (Some a) implicit s)) \<and>
    (matched sv a = None \<longrightarrow> seQueue (handle sv (Some a) implicit s) = seQueue s) \<and>
    \<not> sePanicked (handle sv (Some a) implicit s)"
proof -
  obtain found bits x where m: "Match (svMatch sv) (Unmap a) = (found, bits, x)" by (rule prod_cases3)
  have found: "found = matched sv a" by (simp add: matched_def m)
  have ok: "rel.inv_ok sv a (seQueue s) s'"
    if "s' = s\<lparr>seRemote := Unmap a, seClientBits := b, seConns := n, seClient := matched sv a\<rparr>" for s' b n
    using assms that by (simp add: rel.inv_ok_def sound_def fresh_conn_def relayed.untouched no_line_break_def)
  have weak: "relayed sv a q (seQueue s') \<and> \<not> sePanicked s'" if "rel.inv_ok sv a q s'" for q s'
    using that by (simp add: rel.inv_ok_def sound_def)
  have "relayed sv a (seQueue s) (seQueue (handle sv (Some a) implicit s)) \<and> \<not> sePanicked (handle sv (Some a) implicit s)"
  proof (cases found)
    case None
    have "s\<lparr>seRemote := Unmap a, seClientBits := -1, seConns := n\<rparr> =
        s\<lparr>seRemote := Unmap a, seClientBits := -1, seConns := n, seClient := matched sv a\<rparr>" for n
      using assms None found by (simp add: fresh_conn_def)
    note ok' = ok [OF this]
    have "rel.inv_ok sv a (seQueue s) ((snd (time_now (s\<lparr>seRemote := Unmap a, seClientBits := -1, seConns := n\<rparr>)))\<lparr>seDeadline := d\<rparr>)" for n d
      using ok' [of n] sound_time [of sv a "s\<lparr>seRemote := Unmap a, seClientBits := -1, seConns := n\<rparr>"] unfolding rel.inv_ok_def by (simp del: sound_upd(6) add: sound_upd(8))
    note served = weak [OF serve_rel [OF this]]
    have "relayed sv a (seQueue s) (seQueue (serve sv implicit (s1\<lparr>seDeadline := d\<rparr>))) \<and>
        \<not> sePanicked (serve sv implicit (s1\<lparr>seDeadline := d\<rparr>))"
      if "time_now (s\<lparr>seRemote := Unmap a, seClientBits := -1, seConns := n\<rparr>) = (t, s1)" for n t s1 d
      using served [of implicit d n] that by simp
    then show ?thesis using weak [OF ok'] by (simp add: handle_def Let_def m None refuse_conn_def split: prod.split bool.split)
  next
    case (Some cl)
    have "s\<lparr>seRemote := Unmap a, seConns := n, seClient := Some cl, seClientBits := bits\<rparr> =
        s\<lparr>seRemote := Unmap a, seClientBits := bits, seConns := n, seClient := matched sv a\<rparr>" for n
      using Some found by simp
    note served = weak [OF serve_rel [OF ok [OF this]]]
    show ?thesis
      using served assms
      by (simp add: relayed.untouched handle_def Let_def m Some refuse_conn_def fresh_conn_def split: prod.split bool.split)
  qed
  then show ?thesis using relayed_unmatched [of sv a "seQueue s" "seQueue (handle sv (Some a) implicit s)"] by auto
qed

end
