(* ===== verification/Session_Streams.thy ===== *)
theory Session_Streams
  imports Session_Properties Config_Accepted Spool_Quota
begin

text \<open>
  The byte streams of a session: what STARTTLS forgets, what a connection lost inside DATA leaves in the
  queue, and a small server on which the hypotheses of the session properties hold.
\<close>

section \<open>STARTTLS\<close>

lemma read_starttls:
  "readStructuredLine \<lparr>sIn = ''STARTTLS'' @ CRLF @ x, sEnd = e\<rparr> maxLineOctet = (Inr ''STARTTLS'', \<lparr>sIn = x, sEnd = e\<rparr>)"
proof -
  have "readLineLimited \<lparr>sIn = ''STARTTLS'' @ CRLF @ x, sEnd = e\<rparr> maxLineOctet = (Inr (''STARTTLS'', True), \<lparr>sIn = x, sEnd = e\<rparr>)"
    by (subst readLineLimited_line [where line = "''STARTTLS''" and r = x]) (simp_all add: LF_def NUL_def maxLineOctet_def bufSize_def)
  then show ?thesis by (simp add: readStructuredLine_def CR_def)
qed

lemma splitCommand_starttls: "splitCommand ''STARTTLS'' = (''STARTTLS'', [])"
  by code_simp

text \<open>The checks before a command do not look at the stream.\<close>

lemma loop_guard_in:
  assumes "loop_guard s = (go, s1)"
  shows "loop_guard (s\<lparr>seIn := i\<rparr>) = (go, s1\<lparr>seIn := i\<rparr>)"
proof -
  have t: "time_now (s\<lparr>seIn := i\<rparr>) = (fst (time_now s), (snd (time_now s))\<lparr>seIn := i\<rparr>)"
    by (simp add: time_now_def split: list.split)
  have w: "write_reply c l (x\<lparr>seIn := i\<rparr>) = (write_reply c l x)\<lparr>seIn := i\<rparr>"
      "write_reply c l (x\<lparr>seIn := i, seCancel := cs\<rparr>) = (write_reply c l (x\<lparr>seCancel := cs\<rparr>))\<lparr>seIn := i\<rparr>"
    for c l cs and x :: "('a, 'b) session"
    by (simp_all add: write_reply_def split: list.split)
  obtain now s2 where n: "time_now s = (now, s2)" by fastforce
  show ?thesis
  proof (cases "seDeadline s")
    case None
    then show ?thesis using assms
      by (cases "seCancel s") (auto simp: loop_guard_def reply_def w split: if_splits)
  next
    case (Some dl)
    have c: "seCancel s2 = seCancel s" using n by (auto simp: time_now_def split: list.splits)
    show ?thesis using assms Some t n c
      by (cases "seCancel s"; cases "dl \<le> now") (auto simp: loop_guard_def reply_def w split: if_splits)
  qed
qed

lemma loop_guard_tls:
  "loop_guard s = (go, s1) \<Longrightarrow> seTLS s1 = seTLS s"
  by (auto simp: loop_guard_def time_now_def reply_def split: if_splits option.splits list.splits bool.splits)

text \<open>C21: STARTTLS leaves nothing of the plaintext behind. Whatever was sent in the same packet after the
  command - a MAIL FROM injected in clear - is never executed: the session goes on exactly as one that
  reads the TLS stream from its first byte, with no HELO and no transaction.\<close>

theorem starttls_discards_plaintext:
  assumes "lTLS (svLc sv) = TLSStartTLS" and "svTLSConf sv" and "\<not> seTLS s" and "seHandshake s = Some tls"
    and "loop_guard s = (True, s1)"
  shows "session_loop sv (s\<lparr>seIn := \<lparr>sIn = ''STARTTLS'' @ CRLF @ injected, sEnd = e\<rparr>\<rparr>) =
    session_loop sv ((reply 220 ''2.0.0 ready to start TLS'' s1)
      \<lparr>seIn := tls, seHandshake := None, seTLS := True, seHelo := [], seFrom := [], seFromSet := False, seRcpts := []\<rparr>)"
proof -
  let ?s = "s\<lparr>seIn := \<lparr>sIn = ''STARTTLS'' @ CRLF @ injected, sEnd = e\<rparr>\<rparr>"
  let ?r = "(reply 220 ''2.0.0 ready to start TLS'' s1)
      \<lparr>seIn := tls, seHandshake := None, seTLS := True, seHelo := [], seFrom := [], seFromSet := False, seRcpts := []\<rparr>"
  have k: "\<not> seTLS s1" "seHandshake s1 = Some tls"
    using loop_guard_fields [OF assms(5)] loop_guard_tls [OF assms(5)] assms(3,4) by (simp_all add: same_peer_def)
  have c: "command sv ''STARTTLS'' [] (s1\<lparr>seIn := i\<rparr>) = (True, ?r)" for i
    using assms(1,2) k by (simp add: command_def doStartTLS_def resetTransaction_def reply_def write_reply_def split: list.split)
  have r: "readStructuredLine (seIn (s1\<lparr>seIn := \<lparr>sIn = ''STARTTLS'' @ CRLF @ injected, sEnd = e\<rparr>\<rparr>)) maxLineOctet =
      (Inr ''STARTTLS'', \<lparr>sIn = injected, sEnd = e\<rparr>)"
    using read_starttls by simp
  have c2: "command sv ''STARTTLS'' [] (s1\<lparr>seIn := i, seIn := j\<rparr>) = (True, ?r)" for i j using c [of j] by simp
  show ?thesis
    unfolding session_loop.simps [of sv ?s] loop_guard_in [OF assms(5)] prod.case bool.case r sum.case splitCommand_starttls c2 ..
qed

section \<open>A connection lost inside DATA\<close>

lemma IndexByte_absent: "c \<notin> set s \<Longrightarrow> IndexByte s c = None"
  by (induction s) auto

lemma write_reply_in: "write_reply c l (s\<lparr>seIn := i\<rparr>) = (write_reply c l s)\<lparr>seIn := i\<rparr>"
  by (simp add: write_reply_def split: list.split)

text \<open>A line that has not ended when the connection ends is dropped.\<close>

lemma read_partial:
  assumes "LF \<notin> set p" "length p \<le> maxLineOctet"
  shows "readLineLimited \<lparr>sIn = p, sEnd = EOF\<rparr> maxLineOctet = (Inl EOF, \<lparr>sIn = [], sEnd = EOF\<rparr>)"
proof -
  have "ReadSlice \<lparr>sIn = p, sEnd = EOF\<rparr> = (p, Failed EOF, \<lparr>sIn = [], sEnd = EOF\<rparr>)"
    using assms IndexByte_absent [of LF "take bufSize p"] by (auto simp: ReadSlice_def maxLineOctet_def bufSize_def)
  then show ?thesis using assms(2) by (simp add: readLineLimited_def read_chunks.simps [of maxLineOctet])
qed

lemma dot_run_partial:
  assumes "LF \<notin> set p" "length p \<le> maxLineOctet" "\<forall>l \<in> set ls. sendable l"
  shows "dot_run True \<lparr>sIn = crlf_lines (map dot_stuff ls) @ p, sEnd = EOF\<rparr> = (crlf_lines ls, EOF, False, \<lparr>sIn = [], sEnd = EOF\<rparr>)"
  using assms(3)
proof (induction ls)
  case Nil
  then show ?case by (subst dot_run.simps) (simp add: read_partial [OF assms(1,2)])
next
  case (Cons l ls)
  have d: "LF \<notin> set (dot_stuff l)" "NUL \<notin> set (dot_stuff l)" "length (dot_stuff l) + 2 \<le> maxLineOctet"
    using Cons.prems(1) dot_stuff_props(3) [of l] by (auto simp: sendable_def LF_def NUL_def)
  have "readLineLimited \<lparr>sIn = crlf_lines (map dot_stuff (l # ls)) @ p, sEnd = EOF\<rparr> maxLineOctet =
      (Inr (dot_stuff l, True), \<lparr>sIn = crlf_lines (map dot_stuff ls) @ p, sEnd = EOF\<rparr>)"
    by (subst readLineLimited_line [where line = "dot_stuff l" and r = "crlf_lines (map dot_stuff ls) @ p"])
      (use d in \<open>auto simp: maxLineOctet_def bufSize_def\<close>)
  then show ?case using dot_stuff_props(1,2) [of l] Cons by (subst dot_run.simps) (simp flip: DOT_def)
qed

lemma read_body_run:
  assumes "dot_run True br = (bs, e, sm, br')"
  shows "\<exists>d. read_body br = (\<lparr>sIn = bs, sEnd = e\<rparr>, d) \<and> dBr d = br' \<and> smuggled d = sm"
  using drain_dot_run [of "newDotReader br" bs e sm br' "\<lambda>_. bufSize"] assms by (auto simp: read_body_def newDotReader_def)

text \<open>A connection that breaks inside DATA is taken for a complete message. If the client sent some lines
  and then part of another and the connection ended there, without the dot line, the body reader hands
  on the end of the stream as the end of the body, and the session does exactly what it does for the
  complete lines followed by the dot: the truncated message is queued, journalled and acknowledged, and
  a client that sends it again is delivered twice.\<close>

theorem truncated_data_is_queued:
  assumes "\<forall>l \<in> set ls. sendable l" and "LF \<notin> set p" and "length p \<le> maxLineOctet"
    and "seFromSet s" and "seRcpts s \<noteq> []" and "seClient s = Some cl"
    and "Split (svRouter sv) (seRcpts s) (seRemote s) (clRoute cl) (seClientBits s) = Inr groups"
  shows "doData sv (s\<lparr>seIn := \<lparr>sIn = crlf_lines (map dot_stuff ls) @ p, sEnd = EOF\<rparr>\<rparr>) =
    doData sv (s\<lparr>seIn := \<lparr>sIn = dot_encode ls, sEnd = EOF\<rparr>\<rparr>)"
proof -
  obtain d where d: "read_body \<lparr>sIn = crlf_lines (map dot_stuff ls) @ p, sEnd = EOF\<rparr> = (\<lparr>sIn = crlf_lines ls, sEnd = EOF\<rparr>, d)"
    "dBr d = \<lparr>sIn = [], sEnd = EOF\<rparr>" "\<not> smuggled d"
    using read_body_run [OF dot_run_partial [OF assms(2,3,1)]] by blast
  have "dot_run True \<lparr>sIn = dot_encode ls, sEnd = EOF\<rparr> = (crlf_lines ls, EOF, False, \<lparr>sIn = [], sEnd = EOF\<rparr>)"
    using dot_run_encode [OF assms(1), of "\<lparr>sIn = dot_encode ls, sEnd = EOF\<rparr>" "[]"] by simp
  then obtain d' where d': "read_body \<lparr>sIn = dot_encode ls, sEnd = EOF\<rparr> = (\<lparr>sIn = crlf_lines ls, sEnd = EOF\<rparr>, d')"
    "dBr d' = \<lparr>sIn = [], sEnd = EOF\<rparr>" "\<not> smuggled d'"
    using read_body_run by blast
  show ?thesis using assms(4-7) d d' by (simp add: doData_def reply_def write_reply_in Let_def split: prod.split option.split)
qed

section \<open>A server for the witnesses\<close>

text \<open>One client, one route, STARTTLS; the spool and the history store of the relay behind it. The demo
  session has said HELO and has a sender and two recipients.\<close>

definition demo_app :: Client where
  "demo_app = (demo_client ''app'' [''10.0.0.0/8''] [])\<lparr>MaxRecipients := 10\<rparr>"

definition demo_server :: "(spool_tape, store) Server" where
  "demo_server = \<lparr>svCfg = Defaults, svLc = \<lparr>lName = ''in'', lAddress = ''localhost:25'', lTLS = TLSStartTLS, lMinTLS = [], RequireTLS = False\<rparr>,
     svTLSConf = True, svMatch = [(\<lparr>pfAddr = V4 0x0A000000, pfBits = 8\<rparr>, demo_app)],
     svRouter = \<lparr>byDomain = (\<lambda>_. None), rSources = [], rDef = ''main''\<rparr>, svRules = (\<lambda>_. None),
     svQueue = spool_ops, svJournal = store_ops, svAddrString = (\<lambda>_. ''10.0.0.1''), svFormatTime = (\<lambda>_. ''now'')\<rparr>"

definition demo_session :: "fault list \<Rightarrow> bool list \<Rightarrow> string \<Rightarrow> (spool_tape, store) session" where
  "demo_session ff jf input = \<lparr>seClient = Some demo_app, seClientBits = 8, seRemote = V4 0x0A000001, seDeadline = None,
     seTLS = False, seHelo = ''h'', seFrom = ''a@x'', seFromSet = True, seRcpts = [''b@y'', ''c@z''], seWriteFailed = False,
     sePanicked = False, seIn = \<lparr>sIn = input, sEnd = EOF\<rparr>, seHandshake = Some \<lparr>sIn = ''QUIT'' @ CRLF, sEnd = EOF\<rparr>,
     seOut = [], seWrites = [], seTimes = [], seLast = 10, seCancel = [],
     seQueue = ((demo_spool ff)\<lparr>maxBytes := 100000\<rparr>, [demo_rnd, demo_rnd]), seJournal = demo_store\<lparr>dbFaults := jf\<rparr>,
     seRate = New_limiter, seConns = (\<lambda>_. None), seLost = 0\<rparr>"

definition demo_result :: Result where "demo_result = \<lparr>resFrom = ''a@x'', resHeaders = ''Subject: x'' @ CRLF, Rewritten = False, OriginalFrom = []\<rparr>"

definition demo_groups :: "Group list" where "demo_groups = [\<lparr>gRoute = ''main'', gReason=[], gRecipients = [''b@y'']\<rparr>]"

lemma demo_commit: "fst (Commit demo_rnd demo_stage env lt pfx ((demo_spool [])\<lparr>maxBytes := 100000\<rparr>)) = Inr demo_id"
proof -
  have r: "reserveQuota (stSize demo_stage) ((demo_spool [])\<lparr>maxBytes := 100000\<rparr>) = (None, (demo_spool [])\<lparr>maxBytes := 100000, reserved := 5\<rparr>)"
    by (simp add: demo_stage_def demo_spool_def reserveQuota_def quota_reserve_def liveAndFailedBytes_def failed_occupied_def i64_id quota_limits_def)
  show ?thesis unfolding Commit_def r
   by (simp add: demo_spool_def demo_stage_def commit_copy_def publish_def Let_def path_defs 
       writeSynced_def writeMeta_def new_meta_def os_read_def sys_call_def os_create_def os_write_def os_sync_def os_rename_def)
qed

theorem accepted_is_journalled_witness:
  "\<exists>ids s'. commitCopies demo_server demo_app demo_stage demo_result demo_groups hour (demo_session [] [] []) = (Some ids, s') \<and> ids = [demo_id] \<and>
   length (filter (\<lambda>i. \<not> has_message i (seJournal s')) [demo_id]) \<le> seLost s'"
proof -
  let ?s = "demo_session [] [] []"
  have f: "svJournal demo_server = store_ops" "svQueue demo_server = spool_ops" by (simp_all add: demo_server_def)
  have q: "seQueue ?s = ((demo_spool [])\<lparr>maxBytes := 100000\<rparr>, [demo_rnd, demo_rnd])" by (simp add: demo_session_def)
  have t: "time_now ?s = (10, ?s)" by (simp add: time_now_def demo_session_def)
  have "\<exists>s'. commitCopies demo_server demo_app demo_stage demo_result demo_groups hour ?s = (Some [demo_id], s')"
    unfolding commitCopies_def demo_groups_def commit_groups.simps t prod.case f q
    using demo_commit by (simp add: spool_ops_def draw_def on_spool_def case_prod_unfold)
  then obtain s' where s': "commitCopies demo_server demo_app demo_stage demo_result demo_groups hour ?s = (Some [demo_id], s')" by blast
  then show ?thesis using accepted_is_journalled [OF f(1) s'] by (auto simp: demo_session_def)
qed

theorem starttls_discards_plaintext_witness:
  "session_loop demo_server ((demo_session [] [] [])\<lparr>seIn := \<lparr>sIn = ''STARTTLS'' @ CRLF @ ''MAIL FROM:<a@b.c>'' @ CRLF, sEnd = EOF\<rparr>\<rparr>) =
   session_loop demo_server ((reply 220 ''2.0.0 ready to start TLS'' (demo_session [] [] []))
      \<lparr>seIn := \<lparr>sIn = ''QUIT'' @ CRLF, sEnd = EOF\<rparr>, seHandshake := None, seTLS := True, seHelo := [], seFrom := [], seFromSet := False, seRcpts := []\<rparr>)"
proof (rule starttls_discards_plaintext)
qed (simp_all add: demo_server_def demo_session_def loop_guard_def)

theorem truncated_data_is_queued_witness:
  "doData demo_server (demo_session [] [] (crlf_lines (map dot_stuff [''Subject: x'', [], ''hi'']) @ ''the'')) =
   doData demo_server (demo_session [] [] (dot_encode [''Subject: x'', [], ''hi'']))"
proof -
  let ?s = "demo_session [] [] []"
  have i: "demo_session [] [] x = ?s\<lparr>seIn := \<lparr>sIn = x, sEnd = EOF\<rparr>\<rparr>" for x by (simp add: demo_session_def)
  have sp: "Split (svRouter demo_server) (seRcpts ?s) (seRemote ?s) (clRoute demo_app) (seClientBits ?s) =
      Inr [\<lparr>gRoute = ''main'', gReason = ''default'', gRecipients = [''b@y'', ''c@z'']\<rparr>]" by code_simp
  have "\<forall>l \<in> set [''Subject: x'', [], ''hi'']. sendable l" by code_simp
  moreover have "seFromSet ?s" "seRcpts ?s \<noteq> []" "seClient ?s = Some demo_app" by (simp_all add: demo_session_def)
  moreover have "LF \<notin> set ''the''" "length ''the'' \<le> maxLineOctet" by code_simp+
  ultimately show ?thesis unfolding i [of "crlf_lines x @ y" for x y] i [of "dot_encode x" for x]
    by - (rule truncated_data_is_queued [where cl = demo_app, OF _ _ _ _ _ _ sp]; assumption)
qed

theorem data_all_or_nothing_witness:
  "let (go, s') = doData demo_server (demo_session [] [] ''Subject: x'') in
     queued (seQueue s') = {} \<or> adds (\<lambda>c. c \<noteq> 250) (demo_session [] [] ''Subject: x'') s' \<or>
     (\<exists>ids s1. queued (seQueue s') = set ids \<and> seOut s' = seOut (reply 250 (''2.0.0 OK queued as '' @ Join ids '' '') (s1 :: (spool_tape, store) session)))"
proof -
  have f: "svQueue demo_server = spool_ops" by (simp add: demo_server_def)
  have "queued (seQueue (demo_session [] [] x)) = {}" for x by (simp add: demo_session_def queued_def live_def demo_spool_def)
  note empty = this
  obtain go s' where d: "doData demo_server (demo_session [] [] ''Subject: x'') = (go, s')" by fastforce
  from data_all_or_nothing [OF f d]
  have "queued (seQueue s') = {} \<or> adds (\<lambda>c. c \<noteq> 250) (demo_session [] [] ''Subject: x'') s' \<or>
     (\<exists>ids s1. queued (seQueue s') = set ids \<and> seOut s' = seOut (reply 250 (''2.0.0 OK queued as '' @ Join ids '' '') (s1 :: (spool_tape, store) session)))"
    unfolding empty Un_empty_left
    by (elim disjE exE conjE) ((rule disjI1, assumption) | (rule disjI2, rule disjI1, assumption) |
      (rule disjI2, rule disjI2, intro exI conjI, assumption, assumption))+
  then show ?thesis by (simp only: d Let_def prod.case)
qed

text \<open>An address outside the client's network.\<close>

definition demo_fresh_conn :: "string \<Rightarrow> (spool_tape, store) session" where
  "demo_fresh_conn input = (demo_session [] [] input)\<lparr>seClient := None, seHelo := [], seFrom := [], seFromSet := False, seRcpts := []\<rparr>"

theorem only_authorised_mail_is_queued_witness:
  "seQueue (handle demo_server (Some (V4 0xC0000001)) False (demo_fresh_conn (''EHLO x'' @ CRLF @ ''MAIL FROM:<a@b.c>'' @ CRLF))) =
   seQueue (demo_fresh_conn [])"
proof -
  let ?s = "demo_fresh_conn (''EHLO x'' @ CRLF @ ''MAIL FROM:<a@b.c>'' @ CRLF)"
  have "fresh_conn ?s" by (simp add: fresh_conn_def demo_fresh_conn_def demo_session_def)
  moreover have "matched demo_server (V4 0xC0000001) = None" by code_simp
  ultimately show ?thesis
    using only_authorised_mail_is_queued [of ?s demo_server "V4 0xC0000001" False] by (simp add: demo_fresh_conn_def demo_session_def)
qed

end
