(* ===== verification/Smarthost.thy ===== *)
theory Smarthost
  imports Config_Types
begin

text \<open>
  \<open>internal/delivery/smarthost\<close>: one attempt to hand a message to a smarthost. The client side of the
  conversation is net/smtp's; what the code uses of it is one command per call, answered by the
  smarthost. A connection therefore holds the answers still to come, and the log of what was sent,
  whether it was sent under TLS, and how it was answered.
\<close>

section \<open>Errors\<close>

text \<open>\<open>Reply\<close> is \<open>textproto.Error\<close>, \<open>Wrap\<close> an error formatted around another with \<open>%w\<close>.\<close>

datatype goerr = Reply int string | Opaque string | Wrap string goerr

definition pad3 :: "int \<Rightarrow> string" where
  "pad3 n = (let s = dec_int n in replicate (3 - length s) (CHR ''0'') @ s)"

fun err_text :: "goerr \<Rightarrow> string" where
  "err_text (Reply c m) = pad3 c @ '' '' @ m"
| "err_text (Opaque m) = m"
| "err_text (Wrap p e) = p @ '': '' @ err_text e"

fun as_reply :: "goerr \<Rightarrow> (int \<times> string) option" where
  "as_reply (Reply c m) = Some (c, m)"
| "as_reply (Opaque m) = None"
| "as_reply (Wrap p e) = as_reply e"

datatype attempt_err =
    TempError goerr | PermError goerr | AuthError goerr | QuitError goerr
  | PartialError string "(string \<times> goerr) list"

definition Rejection_String :: "string \<times> goerr \<Rightarrow> string" where
  "Rejection_String r = fst r @ '' ('' @ err_text (snd r) @ '')''"

definition describeRejections :: "(string \<times> goerr) list \<Rightarrow> string" where
  "describeRejections rs = Join (map Rejection_String rs) ''; ''"

fun attempt_err_text :: "attempt_err \<Rightarrow> string" where
  "attempt_err_text (TempError e) = err_text e"
| "attempt_err_text (PermError e) = err_text e"
| "attempt_err_text (AuthError e) = err_text e"
| "attempt_err_text (QuitError e) = err_text e"
| "attempt_err_text (PartialError rt rs) =
     ''route '' @ rt @ '': delivered, but '' @ dec_nat (length rs) @ '' recipient(s) were refused: '' @ describeRejections rs"

definition classify :: "goerr \<Rightarrow> attempt_err" where
  "classify e =
     (case as_reply e of
        Some (code, _) \<Rightarrow> if code \<ge> 500 \<and> code < 600 then PermError e else TempError e
      | None \<Rightarrow> TempError e)"

definition isPermanentReply :: "goerr \<Rightarrow> bool" where
  "isPermanentReply e = (case classify e of PermError _ \<Rightarrow> True | _ \<Rightarrow> False)"

section \<open>The connection\<close>

datatype event = Connect | Greeting | Hello string | StartTLS | AuthCmd string string | SASL string | Mail string
  | Rcpt string | Data | Body string | Dot | Quit

datatype answer = Accept | Challenge string | Refuse int string | Broken string

record conn =
  cnReplies :: "answer list"
  cnTLS :: bool
  cnOffers :: bool
  cnLog :: "(event \<times> bool \<times> answer) list"

text \<open>One command and its answer; a silent peer has closed the connection.\<close>

definition cmd :: "event \<Rightarrow> conn \<Rightarrow> answer \<times> conn" where
  "cmd ev c =
     (case cnReplies c of
        [] \<Rightarrow> (Broken ''EOF'', c\<lparr>cnLog := cnLog c @ [(ev, cnTLS c, Broken ''EOF'')]\<rparr>)
      | r # rs \<Rightarrow> (r, c\<lparr>cnReplies := rs, cnLog := cnLog c @ [(ev, cnTLS c, r)]\<rparr>))"

fun answer_err :: "answer \<Rightarrow> goerr option" where
  "answer_err Accept = None"
| "answer_err (Challenge m) = Some (Reply 334 m)"
| "answer_err (Refuse code m) = Some (Reply code m)"
| "answer_err (Broken m) = Some (Opaque m)"

definition call :: "event \<Rightarrow> conn \<Rightarrow> goerr option \<times> conn" where
  "call ev c = (case cmd ev c of (r, c') \<Rightarrow> (answer_err r, c'))"

text \<open>\<open>Mail\<close> and \<open>Rcpt\<close> of net/smtp refuse an address with a line break before sending anything.\<close>

definition call_line :: "string \<Rightarrow> event \<Rightarrow> conn \<Rightarrow> goerr option \<times> conn" where
  "call_line a ev c =
     (if ContainsAny a [CR, LF] then (Some (Opaque ''smtp: A line must not contain CR or LF''), c) else call ev c)"

record smtp_message =
  smFrom :: string
  smTo :: "string list"
  smData :: "string \<times> goerr option"
  smHelo :: string

record tls_conf =
  tcServerName :: string
  tcMinVersion :: int
  tcPin :: "string option"

definition ReplaceAll1 :: "char \<Rightarrow> string \<Rightarrow> string" where
  "ReplaceAll1 c s = filter (\<lambda>x. x \<noteq> c) s"

definition TLSConfig :: "Route \<Rightarrow> goerr + tls_conf option" where
  "TLSConfig r =
     (if rTLS r = TLSNone then Inr None
      else case ParseTLSVersion (rMinTLS r) of
             None \<Rightarrow> Inl (Opaque ''unknown TLS version'')
           | Some v \<Rightarrow>
               Inr (Some \<lparr>tcServerName = Host r, tcMinVersion = v,
                 tcPin = (if CAPin r = [] then None else Some (ToLower (ReplaceAll1 (CHR '':'') (CAPin r))))\<rparr>))"

text \<open>\<open>digest\<close> is the hexadecimal SHA-256 of a certificate; \<open>verified\<close> are the chains the handshake built.\<close>

definition pinVerifier :: "(string \<Rightarrow> string) \<Rightarrow> string \<Rightarrow> string list list \<Rightarrow> goerr option" where
  "pinVerifier digest pin verified =
     (if list_ex (list_ex (\<lambda>cert. digest cert = pin)) verified then None
      else Some (Opaque ''smarthost: no certificate in the verified chain matches ca_pin''))"

definition heloName :: "string \<Rightarrow> string" where
  "heloName n = (if n = [] \<or> ContainsAny n [CHR '' '', CR, LF, NUL] then ''localhost'' else n)"

section \<open>Authentication\<close>

datatype auth = PlainAuth string string string | LoginAuth string string string | XOAuth2 string string string string

definition checkSASLField :: "string \<Rightarrow> string \<Rightarrow> goerr option" where
  "checkSASLField s what =
     (if s = [] then Some (Opaque (''smarthost: empty '' @ what @ '' for XOAUTH2''))
      else if list_ex (\<lambda>c. byte c < 0x21 \<or> byte c > 0x7e) s
           then Some (Opaque (''smarthost: '' @ what @ '' contains a character that cannot appear in a SASL payload''))
      else None)"

definition xoauth2Payload :: "string \<Rightarrow> string \<Rightarrow> goerr + string" where
  "xoauth2Payload user token =
     (case checkSASLField user ''mailbox'' of
        Some e \<Rightarrow> Inl e
      | None \<Rightarrow>
          (case checkSASLField token ''access token'' of
             Some e \<Rightarrow> Inl e
           | None \<Rightarrow> Inr (''user='' @ user @ [CHR 0x01] @ ''auth=Bearer '' @ token @ [CHR 0x01, CHR 0x01])))"

definition isLocalhost :: "string \<Rightarrow> bool" where
  "isLocalhost n \<longleftrightarrow> n = ''localhost'' \<or> n = ''127.0.0.1'' \<or> n = ''::1''"

fun auth_Start :: "bool \<Rightarrow> string \<Rightarrow> auth \<Rightarrow> goerr + string \<times> string" where
  "auth_Start tls name (PlainAuth u p h) =
     (if \<not> tls \<and> \<not> isLocalhost name then Inl (Opaque ''unencrypted connection'')
      else if name \<noteq> h then Inl (Opaque ''wrong host name'')
      else Inr (''PLAIN'', [NUL] @ u @ [NUL] @ p))"
| "auth_Start tls name (LoginAuth u p h) =
     (if \<not> tls then Inl (Opaque ''smarthost: refusing LOGIN on an unencrypted connection'')
      else if name \<noteq> h then Inl (Opaque ''smarthost: server name does not match the configured host'')
      else Inr (''LOGIN'', []))"
| "auth_Start tls name (XOAuth2 u t h ch) =
     (if \<not> tls then Inl (Opaque ''smarthost: refusing XOAUTH2 on an unencrypted connection'')
      else if name \<noteq> h then Inl (Opaque ''smarthost: server name does not match the configured host'')
      else case xoauth2Payload u t of Inl e \<Rightarrow> Inl e | Inr pl \<Rightarrow> Inr (''XOAUTH2'', pl))"

text \<open>\<open>decode\<close> stands for \<open>decodeChallenge\<close>, which reads base64 and JSON for the log line.\<close>

fun auth_Next :: "(string \<Rightarrow> string) \<Rightarrow> string \<Rightarrow> bool \<Rightarrow> auth \<Rightarrow> (goerr + string option) \<times> auth" where
  "auth_Next decode msg cont (PlainAuth u p h) =
     ((if cont then Inl (Opaque ''unexpected server challenge'') else Inr None), PlainAuth u p h)"
| "auth_Next decode msg cont (LoginAuth u p h) =
     ((if \<not> cont then Inr None
       else (let q = ToLower (TrimSpace (TrimSuffix msg '':'')) in
             if q = ''username'' then Inr (Some u) else if q = ''password'' then Inr (Some p)
             else Inl (Opaque ''smarthost: unexpected LOGIN challenge''))), LoginAuth u p h)"
| "auth_Next decode msg cont (XOAuth2 u t h ch) =
     (if \<not> cont then (Inr None, XOAuth2 u t h ch) else (Inr (Some []), XOAuth2 u t h (decode msg)))"

text \<open>\<open>smtp.Client.Auth\<close>, with the base64 of each line left out.\<close>

definition auth_abort :: "goerr \<Rightarrow> auth \<Rightarrow> conn \<Rightarrow> goerr option \<times> auth \<times> conn" where
  "auth_abort e a c = (Some e, a, snd (cmd Quit (snd (cmd (SASL ''*'') c))))"

definition auth_step :: "(string \<Rightarrow> string) \<Rightarrow> answer \<Rightarrow> auth \<Rightarrow> (goerr + string option) \<times> auth" where
  "auth_step decode r a =
     (case r of
        Challenge m \<Rightarrow> auth_Next decode m True a
      | Refuse code m \<Rightarrow> (Inl (Reply code m), a)
      | _ \<Rightarrow> auth_Next decode [] False a)"

definition is_broken :: "answer \<Rightarrow> bool" where
  "is_broken r = (case r of Broken _ \<Rightarrow> True | _ \<Rightarrow> False)"

function auth_loop :: "(string \<Rightarrow> string) \<Rightarrow> answer \<Rightarrow> auth \<Rightarrow> conn \<Rightarrow> goerr option \<times> auth \<times> conn" where
  "auth_loop decode r a c =
     (if is_broken r then (answer_err r, a, c)
      else case auth_step decode r a of
             (Inl e, a') \<Rightarrow> auth_abort e a' c
           | (Inr None, a') \<Rightarrow> (None, a', c)
           | (Inr (Some resp), a') \<Rightarrow> (case cmd (SASL resp) c of (r', c') \<Rightarrow> auth_loop decode r' a' c'))"
  by pat_completeness auto

termination
  by (relation "measure (\<lambda>(_, r, _, c). length (cnReplies c) + (case r of Broken _ \<Rightarrow> 0 | _ \<Rightarrow> 1))")
    (auto simp: cmd_def is_broken_def split: list.splits answer.splits)

declare auth_loop.simps [simp del]

definition client_Auth :: "(string \<Rightarrow> string) \<Rightarrow> string \<Rightarrow> auth \<Rightarrow> conn \<Rightarrow> goerr option \<times> auth \<times> conn" where
  "client_Auth decode name a c =
     (case auth_Start (cnTLS c) name a of
        Inl e \<Rightarrow> (Some e, a, snd (cmd Quit c))
      | Inr (mech, resp) \<Rightarrow> (case cmd (AuthCmd mech resp) c of (r, c') \<Rightarrow> auth_loop decode r a c'))"

text \<open>\<open>tokens\<close> is what the route's token source answers, \<open>None\<close> where the route has none.\<close>

definition authFor :: "Route \<Rightarrow> (goerr + string) option \<Rightarrow> attempt_err + auth option" where
  "authFor r tokens =
     (if Auth r = AuthNone \<or> Auth r = [] then Inr None
      else if Auth r = AuthPlain
           then Inr (Some (PlainAuth (Username (rCredentials r)) (secValue (Password (rCredentials r))) (Host r)))
      else if Auth r = AuthLogin
           then Inr (Some (LoginAuth (Username (rCredentials r)) (secValue (Password (rCredentials r))) (Host r)))
      else if Auth r = AuthXOAUTH2 then
        (case tokens of
           None \<Rightarrow> Inl (PermError (Opaque (''route '' @ rName r @ '': auth is xoauth2 but no token source was built'')))
         | Some (Inl e) \<Rightarrow> Inl (AuthError (Wrap (''route '' @ rName r) e))
         | Some (Inr t) \<Rightarrow> Inr (Some (XOAuth2 (Mailbox (rOAuth2 r)) t (Host r) [])))
      else Inl (PermError (Opaque (''route '' @ rName r @ '': unsupported auth'' @ Auth r))))"

definition auth_failed :: "string \<Rightarrow> auth \<Rightarrow> goerr \<Rightarrow> attempt_err" where
  "auth_failed rt a e =
     (case a of
        XOAuth2 u t h ch \<Rightarrow>
          if ch \<noteq> [] then AuthError (Wrap (''route '' @ rt @ '': XOAUTH2 rejected ('' @ ch @ '')'') e)
          else AuthError (Wrap (''route '' @ rt @ '': authentication failed'') e)
      | _ \<Rightarrow> AuthError (Wrap (''route '' @ rt @ '': authentication failed'') e))"

definition authenticate ::
  "(string \<Rightarrow> string) \<Rightarrow> Route \<Rightarrow> (goerr + string) option \<Rightarrow> conn \<Rightarrow> attempt_err option \<times> conn" where
  "authenticate decode r tokens c =
     (case authFor r tokens of
        Inl e \<Rightarrow> (Some e, c)
      | Inr None \<Rightarrow> (None, c)
      | Inr (Some a) \<Rightarrow>
          if rTLS r = TLSNone
          then (Some (PermError (Opaque (''route '' @ rName r @ '': refusing to authenticate over a cleartext connection''))), c)
          else (case client_Auth decode (Host r) a c of
                  (None, _, c') \<Rightarrow> (None, c')
                | (Some e, a', c') \<Rightarrow> (Some (auth_failed (rName r) a' e), c')))"

section \<open>The transaction\<close>

fun offer_loop ::
  "string list \<Rightarrow> (string \<times> goerr) list \<Rightarrow> nat \<Rightarrow> conn \<Rightarrow> (attempt_err + (string \<times> goerr) list \<times> nat) \<times> conn" where
  "offer_loop [] rejected accepted c = (Inr (rejected, accepted), c)"
| "offer_loop (t # ts) rejected accepted c =
     (case call_line t (Rcpt t) c of
        (None, c') \<Rightarrow> offer_loop ts rejected (accepted + 1) c'
      | (Some e, c') \<Rightarrow>
          if isPermanentReply e then offer_loop ts (rejected @ [(t, e)]) accepted c'
          else (Inl (classify e), c'))"

definition offerRecipients :: "Route \<Rightarrow> string list \<Rightarrow> conn \<Rightarrow> (attempt_err + (string \<times> goerr) list) \<times> conn" where
  "offerRecipients r to c =
     (case offer_loop to [] 0 c of
        (Inl e, c') \<Rightarrow> (Inl e, c')
      | (Inr (rejected, accepted), c') \<Rightarrow>
          if accepted = 0
          then (Inl (PermError (Opaque (''route '' @ rName r @ '': every recipient was refused: '' @ describeRejections rejected))), c')
          else (Inr rejected, c'))"

text \<open>
  Copying the body: the peer can break the transfer, or reading the body can fail; either way the
  writer is closed. After a failed read that sends the dot, as after a complete body; after a failed
  write nothing more can be sent.
\<close>

definition transact :: "Route \<Rightarrow> smtp_message \<Rightarrow> conn \<Rightarrow> attempt_err option \<times> conn" where
  "transact r m c =
     (case call_line (smFrom m) (Mail (smFrom m)) c of
        (Some e, c1) \<Rightarrow> (Some (classify e), c1)
      | (None, c1) \<Rightarrow>
          (case offerRecipients r (smTo m) c1 of
             (Inl e, c2) \<Rightarrow> (Some e, c2)
           | (Inr rejected, c2) \<Rightarrow>
               (case call Data c2 of
                  (Some e, c3) \<Rightarrow> (Some (classify e), c3)
                | (None, c3) \<Rightarrow>
                    (case call (Body (fst (smData m))) c3 of
                       (Some e, c4) \<Rightarrow> (Some (TempError (Wrap (''route '' @ rName r @ '': writing message'') e)), c4)
                     | (None, c4) \<Rightarrow>
                         (case snd (smData m) of
                            Some e \<Rightarrow> (Some (TempError (Wrap (''route '' @ rName r @ '': writing message'') e)), snd (call Dot c4))
                          | None \<Rightarrow>
                              (case call Dot c4 of
                                 (Some e, c5) \<Rightarrow> (Some (classify e), c5)
                               | (None, c5) \<Rightarrow>
                                   (case call Quit c5 of
                                      (quit, c6) \<Rightarrow>
                                        ((if rejected \<noteq> [] then Some (PartialError (rName r) rejected)
                                          else map_option QuitError quit), c6))))))))"

text \<open>The error of an encrypted route without a TLS configuration, and the connection.\<close>

definition dial :: "Route \<Rightarrow> conn \<Rightarrow> attempt_err option \<times> conn" where
  "dial r c =
     (case call Connect c of
        (Some e, c') \<Rightarrow> (Some (TempError (Wrap (''connect '' @ Host r @ '':'' @ dec_int (Port r)) e)), c')
      | (None, c') \<Rightarrow> (None, if rTLS r = TLSImplicit then c'\<lparr>cnTLS := True\<rparr> else c'))"

definition upgrade :: "Route \<Rightarrow> conn \<Rightarrow> attempt_err option \<times> conn" where
  "upgrade r c =
     (if rTLS r \<noteq> TLSStartTLS then (None, c)
      else if \<not> cnOffers c then (Some (TempError (Opaque (''route '' @ rName r @ '': smarthost does not offer STARTTLS''))), c)
      else case call StartTLS c of
             (Some e, c') \<Rightarrow> (Some (TempError (Wrap (''route '' @ rName r @ '': STARTTLS failed'') e)), c')
           | (None, c') \<Rightarrow> (None, c'\<lparr>cnTLS := True\<rparr>))"

definition Deliver ::
  "(string \<Rightarrow> string) \<Rightarrow> Route \<Rightarrow> tls_conf option \<Rightarrow> smtp_message \<Rightarrow> (goerr + string) option \<Rightarrow> conn \<Rightarrow>
   attempt_err option \<times> conn" where
  "Deliver decode r tlsConf m tokens c =
     (if rTLS r \<noteq> TLSNone \<and> tlsConf = None
      then (Some (PermError (Opaque (''route '' @ rName r @ '': no TLS configuration''))), c)
      else case dial r c of
             (Some e, c1) \<Rightarrow> (Some e, c1)
           | (None, c1) \<Rightarrow>
               (case call Greeting c1 of
                  (Some e, c2) \<Rightarrow> (Some (classify e), c2)
                | (None, c2) \<Rightarrow>
                    (case call (Hello (heloName (smHelo m))) c2 of
                       (Some e, c3) \<Rightarrow> (Some (classify e), c3)
                     | (None, c3) \<Rightarrow>
                         (case upgrade r c3 of
                            (Some e, c4) \<Rightarrow> (Some e, c4)
                          | (None, c4) \<Rightarrow>
                              (case authenticate decode r tokens c4 of
                                 (Some e, c5) \<Rightarrow> (Some e, c5)
                               | (None, c5) \<Rightarrow> transact r m c5)))))"

end
