(* ===== verification/Delivery.thy ===== *)
theory Delivery
  imports Smarthost Spool_Queue Journal_Store Rate_Limit
begin

text \<open>
  \<open>internal/delivery/delivery.go\<close>: the manager that drains the spool into the routes. The dispatcher
  claims what is due and hands it to workers within each route's slots and pace; a worker makes one
  attempt and records what became of it.

  A worker that was started is an entry of \<open>dsFlight\<close>; it sends, records and gives its slot back in three
  steps, between which the dispatcher and the others run. Readings of the manager's clock and observations of a cancelled context are lists
  consumed from the front. The counters are numbers per counter, the calls of the fail recorder a list.
\<close>

section \<open>State\<close>

datatype counter = cDelivered string | cBounced string | cDeferred string | cAuthFailure string | cNotificationFailure
  | cCanaryDelivered string | cCanaryFailure string | cRecipientsRefused string | cJournalWriteFailure

record routeState =
  rsCfg :: Route
  rsTLS :: "tls_conf option"

record 'j Manager =
  mnCfg :: Config
  mnRoutes :: "string \<rightharpoonup> routeState"
  mnJournal :: "id \<Rightarrow> int \<Rightarrow> string \<Rightarrow> string \<Rightarrow> instant option \<Rightarrow> 'j \<Rightarrow> store_err option \<times> 'j"
  mnNotify :: bool
  mnDecode :: "string \<Rightarrow> string"

record 'j dstate =
  dsSpool :: spool
  dsJournal :: 'j
  dsRate :: limiter
  dsBusy :: "string \<Rightarrow> nat"
  dsFlight :: "meta list"
  dsCount :: "counter \<Rightarrow> nat"
  dsReported :: "(string \<times> id) list"
  dsTimes :: "instant list"
  dsLast :: instant
  dsCancel :: "bool list"
  dsPanicked :: bool

text \<open>What one attempt meets outside: the smarthost, the token source, the file and the shutdown.\<close>

record peer =
  pcConn :: conn
  pcTokens :: "(goerr + string) option"
  pcRead :: "(nat \<times> goerr) option"
  pcGone :: bool

definition m_now :: "'j dstate \<Rightarrow> instant \<times> 'j dstate" where
  "m_now s = (case dsTimes s of [] \<Rightarrow> (dsLast s, s) | t # ts \<Rightarrow> (t, s\<lparr>dsTimes := ts, dsLast := t\<rparr>))"

definition cancelled :: "'j dstate \<Rightarrow> bool \<times> 'j dstate" where
  "cancelled s = (case dsCancel s of [] \<Rightarrow> (False, s) | b # bs \<Rightarrow> (b, s\<lparr>dsCancel := bs\<rparr>))"

definition tally :: "counter \<Rightarrow> nat \<Rightarrow> 'j dstate \<Rightarrow> 'j dstate" where
  "tally c n s = s\<lparr>dsCount := (dsCount s)(c := dsCount s c + n)\<rparr>"

definition pollInterval :: duration where "pollInterval = 5 * second"
definition claimBatchSize :: int where "claimBatchSize = 1000"

fun new_routes :: "Route list \<Rightarrow> (string \<rightharpoonup> routeState) \<Rightarrow> goerr + (string \<rightharpoonup> routeState)" where
  "new_routes [] m = Inr m"
| "new_routes (r # rs) m =
     (case TLSConfig r of
        Inl e \<Rightarrow> Inl (Wrap (''route '' @ rName r) e)
      | Inr t \<Rightarrow> new_routes rs (m(rName r \<mapsto> \<lparr>rsCfg = r, rsTLS = t\<rparr>)))"

text \<open>
  \<open>source\<close> is what each route's source answers now, \<open>None\<close> for a route without one. The wrapped error is the
  pair of its prefix and the error of the source, whose type the caller inspects.
\<close>

fun VerifyTokens :: "(string \<Rightarrow> ('e + string) option) \<Rightarrow> Route list \<Rightarrow> (string \<times> 'e) option" where
  "VerifyTokens source [] = None"
| "VerifyTokens source (r # rs) =
     (case source (rName r) of
        None \<Rightarrow> VerifyTokens source rs
      | Some (Inr t) \<Rightarrow> VerifyTokens source rs
      | Some (Inl e) \<Rightarrow> Some (''route '' @ rName r, e))"

section \<open>Recording an outcome\<close>

datatype outcome = outcomeDelivered | outcomeBounced | outcomeDeferred

fun isAuthFailure :: "attempt_err option \<Rightarrow> bool" where
  "isAuthFailure (Some (AuthError e)) = True"
| "isAuthFailure e = False"

fun isPermanent :: "attempt_err \<Rightarrow> bool" where
  "isPermanent (PermError e) = True"
| "isPermanent e = False"

definition extract_reply :: "goerr \<Rightarrow> int \<times> string" where
  "extract_reply e = (case as_reply e of Some p \<Rightarrow> p | None \<Rightarrow> (0, err_text e))"

fun extractSMTPError :: "attempt_err \<Rightarrow> int \<times> string" where
  "extractSMTPError (TempError e) = extract_reply e"
| "extractSMTPError (PermError e) = extract_reply e"
| "extractSMTPError (AuthError e) = extract_reply e"
| "extractSMTPError (QuitError e) = extract_reply e"
| "extractSMTPError (PartialError rt rs) = (0, attempt_err_text (PartialError rt rs))"

definition maxPartialResponse :: nat where "maxPartialResponse = 500"

fun describe_acc :: "bool \<Rightarrow> string \<Rightarrow> (string \<times> goerr) list \<Rightarrow> string" where
  "describe_acc first b [] = b"
| "describe_acc first b (r # rs) =
     (let entry = (if first then [] else ''; '') @ Rejection_String r in
      if length b + length entry > maxPartialResponse
      then b @ '' (and '' @ dec_nat (length (r # rs)) @ '' more, see the log)''
      else describe_acc False (b @ entry) rs)"

definition describeRefusals :: "(string \<times> goerr) list \<Rightarrow> string" where
  "describeRefusals rs = describe_acc True [] rs"

definition recordOutcome :: "meta \<Rightarrow> outcome \<Rightarrow> attempt_err option \<Rightarrow> 'j dstate \<Rightarrow> 'j dstate" where
  "recordOutcome m oc err s =
     (let kind = envKind (mEnvelope m); origin = envOrigin (mEnvelope m) in
      if kind = KindNotification then (if oc \<noteq> outcomeDelivered then tally cNotificationFailure 1 s else s)
      else if kind = KindCanary then
        (if oc = outcomeDelivered then tally (cCanaryDelivered origin) 1 s else tally (cCanaryFailure origin) 1 s)
      else (case oc of
              outcomeDelivered \<Rightarrow> tally (cDelivered (mRoute m)) 1 s
            | outcomeBounced \<Rightarrow> tally (cBounced (mRoute m)) 1 s
            | outcomeDeferred \<Rightarrow>
                (let s1 = tally (cDeferred (mRoute m)) 1 s
                 in if isAuthFailure err then tally (cAuthFailure (mRoute m)) 1 s1 else s1)))"

definition journal_attempt ::
  "'j Manager \<Rightarrow> meta \<Rightarrow> int \<Rightarrow> string \<Rightarrow> string \<Rightarrow> instant option \<Rightarrow> 'j dstate \<Rightarrow> 'j dstate" where
  "journal_attempt mn m code resp cls nxt s =
     (case mnJournal mn (mID m) code resp cls nxt (dsJournal s) of
        (None, j) \<Rightarrow> s\<lparr>dsJournal := j\<rparr>
      | (Some e, j) \<Rightarrow> tally cJournalWriteFailure 1 (s\<lparr>dsJournal := j\<rparr>))"

text \<open>\<open>None\<close> is the index out of range of an empty schedule.\<close>

definition backoff :: "Config \<Rightarrow> int \<Rightarrow> duration option" where
  "backoff cfg attempt =
     (let sched = RetryScheduleMin (cQueue cfg);
          i0 = attempt - 1;
          i1 = (if i0 < 0 then 0 else i0);
          i = (if i1 \<ge> int (length sched) then int (length sched) - 1 else i1)
      in if i < 0 then None else Some (i64 (sched ! nat i * minute)))"

definition hold :: "meta \<Rightarrow> duration \<Rightarrow> 'j dstate \<Rightarrow> 'j dstate" where
  "hold m d s =
     (case m_now s of (now, s1) \<Rightarrow>
      (let u0 = now + d; until = (if u0 > mExpires m then mExpires m else u0)
       in s1\<lparr>dsSpool := Defer m until (dsSpool s1)\<rparr>))"

definition fail_message :: "'j Manager \<Rightarrow> meta \<Rightarrow> string \<Rightarrow> int \<Rightarrow> string \<Rightarrow> string \<Rightarrow> 'j dstate \<Rightarrow> 'j dstate" where
  "fail_message mn m cls code resp reason s =
     (let s1 = journal_attempt mn m code resp cls None s;
          s2 = s1\<lparr>dsSpool := snd (Fail m reason (dsSpool s1))\<rparr>
      in if envKind (mEnvelope m) \<noteq> KindNotification \<and> mnNotify mn
         then s2\<lparr>dsReported := dsReported s2 @ [(envOrigin (mEnvelope m), mID m)]\<rparr> else s2)"

definition failUnsendable :: "'j Manager \<Rightarrow> meta \<Rightarrow> string \<Rightarrow> 'j dstate \<Rightarrow> 'j dstate" where
  "failUnsendable mn m0 reason s =
     (let m = m0\<lparr>mAttempts := mAttempts m0 + 1\<rparr>
      in fail_message mn m ClassPermanent 0 reason reason (recordOutcome m outcomeBounced None s))"

definition deferRetry :: "'j Manager \<Rightarrow> meta \<Rightarrow> attempt_err \<Rightarrow> 'j dstate \<Rightarrow> 'j dstate" where
  "deferRetry mn m0 err s =
     (case backoff (mnCfg mn) (mAttempts m0) of
        None \<Rightarrow> s\<lparr>dsPanicked := True\<rparr>
      | Some delay \<Rightarrow>
          (case m_now s of (now, s1) \<Rightarrow>
           (let n0 = now + delay;
                m = m0\<lparr>mLastError := attempt_err_text err,
                       mNextAttempt := (if n0 > mExpires m0 then mExpires m0 else n0)\<rparr>;
                s2 = recordOutcome m outcomeDeferred (Some err) s1;
                (code, resp) = extractSMTPError err;
                s3 = journal_attempt mn m code resp ClassTemporary (Some (mNextAttempt m)) s2
            in s3\<lparr>dsSpool := snd (Release m (dsSpool s3))\<rparr>)))"

record attemptResult =
  arErr :: "attempt_err option"
  partialCode :: int
  partialResponse :: string

definition record_attempt :: "'j Manager \<Rightarrow> meta \<Rightarrow> attemptResult \<Rightarrow> 'j dstate \<Rightarrow> 'j dstate" where
  "record_attempt mn m res s =
     (case arErr res of
        None \<Rightarrow>
          (let s1 = recordOutcome m outcomeDelivered None s;
               s2 = journal_attempt mn m (partialCode res) (partialResponse res) ClassDelivered None s1
           in s2\<lparr>dsSpool := snd (Remove (mID m) (dsSpool s2))\<rparr>)
      | Some err \<Rightarrow>
          if isPermanent err then
            (case extractSMTPError err of (code, resp) \<Rightarrow>
             fail_message mn m ClassPermanent code resp (attempt_err_text err) (recordOutcome m outcomeBounced (Some err) s))
          else (case m_now s of (now, s1) \<Rightarrow>
                if now > mExpires m then
                  (case extractSMTPError err of (code, resp) \<Rightarrow>
                   fail_message mn m ClassExpired code resp (''expired in queue: '' @ attempt_err_text err)
                     (recordOutcome m outcomeBounced (Some err) s1))
                else deferRetry mn m err s1))"

section \<open>One attempt\<close>

definition message_of :: "'j Manager \<Rightarrow> meta \<Rightarrow> (nat \<times> goerr) option \<Rightarrow> string \<Rightarrow> smtp_message" where
  "message_of mn m rd body =
     \<lparr>smFrom = envFrom (mEnvelope m), smTo = envTo (mEnvelope m),
      smData = (case rd of None \<Rightarrow> (body, None) | Some (n, e) \<Rightarrow> (take n body, Some e)),
      smHelo = Hostname (cService (mnCfg mn))\<rparr>"

definition send ::
  "'j Manager \<Rightarrow> routeState \<Rightarrow> peer \<Rightarrow> meta \<Rightarrow> 'j dstate \<Rightarrow> attemptResult option \<times> conn \<times> 'j dstate" where
  "send mn rs pc m s =
     (case OpenBody (mID m) (dsSpool s) of
        (Inl e, sp) \<Rightarrow> (None, pcConn pc, failUnsendable mn m ''message body unreadable'' (s\<lparr>dsSpool := sp\<rparr>))
      | (Inr f, sp) \<Rightarrow>
          (case Deliver (mnDecode mn) (rsCfg rs) (rsTLS rs) (message_of mn m (pcRead pc) (content_bytes (content f)))
                  (pcTokens pc) (pcConn pc) of
             (err, c) \<Rightarrow>
               (let s1 = s\<lparr>dsSpool := sp\<rparr> in
                case err of
                  Some (PartialError rt rej) \<Rightarrow>
                    (Some \<lparr>arErr = None, partialCode = fst (extract_reply (snd (hd rej))), partialResponse = describeRefusals rej\<rparr>, c,
                     tally (cRecipientsRefused (mRoute m)) (length rej) s1)
                | Some (QuitError q) \<Rightarrow> (Some \<lparr>arErr = None, partialCode = 0, partialResponse = []\<rparr>, c, s1)
                | _ \<Rightarrow> (Some \<lparr>arErr = err, partialCode = 0, partialResponse = []\<rparr>, c, s1))))"

text \<open>What \<open>attempt\<close> does with the result; \<open>gone\<close> tells whether the context was cancelled by then.\<close>

definition attempt_record :: "'j Manager \<Rightarrow> meta \<Rightarrow> attemptResult \<Rightarrow> bool \<Rightarrow> 'j dstate \<Rightarrow> 'j dstate" where
  "attempt_record mn m res gone s =
     (if arErr res \<noteq> None \<and> gone then hold m 0 s
      else record_attempt mn (m\<lparr>mAttempts := mAttempts m + 1\<rparr>) res s)"

definition attempt :: "'j Manager \<Rightarrow> routeState \<Rightarrow> peer \<Rightarrow> meta \<Rightarrow> 'j dstate \<Rightarrow> conn \<times> 'j dstate" where
  "attempt mn rs pc m s =
     (case send mn rs pc m s of
        (None, c, s1) \<Rightarrow> (c, s1)
      | (Some res, c, s1) \<Rightarrow> (c, attempt_record mn m res (pcGone pc) s1))"

section \<open>Dispatch\<close>

definition dispatchOne :: "'j Manager \<Rightarrow> meta \<Rightarrow> string set \<Rightarrow> 'j dstate \<Rightarrow> bool \<times> string set \<times> 'j dstate" where
  "dispatchOne mn m sat s =
     (case cancelled s of
        (True, s1) \<Rightarrow> (False, sat, s1)
      | (False, s1) \<Rightarrow>
          (case mnRoutes mn (mRoute m) of
             None \<Rightarrow> (True, sat, failUnsendable mn m ''route no longer configured'' s1)
           | Some rs \<Rightarrow>
               (case cancelled s1 of
                  (True, s2) \<Rightarrow> (False, sat, s2)
                | (False, s2) \<Rightarrow>
                    if int (dsBusy s2 (mRoute m)) \<ge> MaxConcurrent (rsCfg rs)
                    then (True, insert (mRoute m) sat, hold m pollInterval s2)
                    else (case m_now s2 of (now, s3) \<Rightarrow>
                          (case Allow (mRoute m) (rRateLimitPerMin (rsCfg rs)) now (dsRate s3) of
                             (wait, ok, l) \<Rightarrow>
                               (let s4 = s3\<lparr>dsRate := l\<rparr> in
                                if \<not> ok then (True, insert (mRoute m) sat, hold m wait s4)
                                else (True, sat, s4\<lparr>dsBusy := (dsBusy s4)(mRoute m := dsBusy s4 (mRoute m) + 1),
                                                    dsFlight := dsFlight s4 @ [m]\<rparr>)))))))"

section \<open>The dispatcher and the workers side by side\<close>

text \<open>
  The dispatcher is one goroutine, each worker another, and the listener and the operators run beside
  them. \<open>drain\<close> is where the dispatcher stands: between two passes, about to scan the index, handing out
  a claimed batch (with the flag that says the batch was short, and the saturated routes), giving a
  batch back after a cancellation, or at the end of \<open>Run\<close>. One step is one turn of its loops; it enters
  the spool at most once.
\<close>

datatype drain = Between | Scanning "string set" | Handing "meta list" bool "string set" | Returning "meta list" | Stopped

fun dispatch_step :: "'j Manager \<Rightarrow> id list \<Rightarrow> drain \<Rightarrow> 'j dstate \<Rightarrow> drain \<times> 'j dstate" where
  "dispatch_step mn order Between s = (Scanning {}, s)"
| "dispatch_step mn order (Scanning sat) s =
     (case m_now s of (now, s1) \<Rightarrow>
      (case ClaimBatch (filter (\<lambda>i. index (dsSpool s1) i \<noteq> None) order) now claimBatchSize (Some (\<lambda>r. r \<in> sat)) (dsSpool s1) of
         (batch, sp) \<Rightarrow> (Handing batch (int (length batch) < claimBatchSize) sat, s1\<lparr>dsSpool := sp\<rparr>)))"
| "dispatch_step mn order (Handing (m # ms) short sat) s =
     (case dispatchOne mn m sat s of
        (False, sat1, s1) \<Rightarrow> (Returning (m # ms), s1)
      | (True, sat1, s1) \<Rightarrow> (Handing ms short sat1, s1))"
| "dispatch_step mn order (Handing [] short sat) s = ((if short then Between else Scanning sat), s)"
| "dispatch_step mn order (Returning (m # ms)) s = (Returning ms, s\<lparr>dsSpool := Defer m (mNextAttempt m) (dsSpool s)\<rparr>)"
| "dispatch_step mn order (Returning []) s = (Stopped, s)"
| "dispatch_step mn order Stopped s = (Stopped, s)"

text \<open>
  A worker is in \<open>dsFlight\<close> until it has sent, in \<open>wSent\<close> with its result until it has recorded it, and in
  \<open>wSlots\<close> with the name of its route until the deferred function has given the slot back.
\<close>

record 'j world =
  wPass :: drain
  wSent :: "(meta \<times> attemptResult \<times> bool) list"
  wSlots :: "string list"
  wState :: "'j dstate"

definition worker_send :: "'j Manager \<Rightarrow> routeState \<Rightarrow> peer \<Rightarrow> meta \<Rightarrow> 'j world \<Rightarrow> 'j world" where
  "worker_send mn rs pc m w =
     (case send mn rs pc m ((wState w)\<lparr>dsFlight := remove1 m (dsFlight (wState w))\<rparr>) of
        (None, c, s1) \<Rightarrow> w\<lparr>wState := s1, wSlots := mRoute m # wSlots w\<rparr>
      | (Some res, c, s1) \<Rightarrow> w\<lparr>wState := s1, wSent := (m, res, pcGone pc) # wSent w\<rparr>)"

definition worker_record :: "'j Manager \<Rightarrow> meta \<times> attemptResult \<times> bool \<Rightarrow> 'j world \<Rightarrow> 'j world" where
  "worker_record mn x w =
     (case x of (m, res, gone) \<Rightarrow>
        w\<lparr>wState := attempt_record mn m res gone (wState w), wSent := remove1 x (wSent w), wSlots := mRoute m # wSlots w\<rparr>)"

definition worker_return :: "string \<Rightarrow> 'j world \<Rightarrow> 'j world" where
  "worker_return r w =
     w\<lparr>wState := (wState w)\<lparr>dsBusy := (dsBusy (wState w))(r := dsBusy (wState w) r - 1)\<rparr>, wSlots := remove1 r (wSlots w)\<rparr>"

end
