(* ===== verification/Smarthost_Properties.thy ===== *)
theory Smarthost_Properties
  imports Smarthost Router
begin

text \<open>
  What an attempt guarantees: credentials and content only under TLS, delivered exactly when the
  smarthost answered the whole body with success, and a message failed for good only on a 5xx that
  was about the message.
\<close>

section \<open>What a step appends to the log\<close>

definition extends :: "(event \<times> bool \<times> answer \<Rightarrow> bool) \<Rightarrow> conn \<Rightarrow> conn \<Rightarrow> bool" where
  "extends Q c c' \<longleftrightarrow> cnTLS c' = cnTLS c \<and> (\<exists>new. cnLog c' = cnLog c @ new \<and> (\<forall>x \<in> set new. Q x))"

lemma extends_refl [simp]: "extends Q c c"
  by (simp add: extends_def)

lemma extends_trans: "extends Q a b \<Longrightarrow> extends Q b c \<Longrightarrow> extends Q a c"
  unfolding extends_def by (elim conjE exE) (auto intro!: exI)

lemma extends_weaken: "extends Q c c' \<Longrightarrow> (\<And>x. Q x \<Longrightarrow> R x) \<Longrightarrow> extends R c c'"
  unfolding extends_def by blast

lemma cmd_extends: "(\<And>r. Q (ev, cnTLS c, r)) \<Longrightarrow> extends Q c (snd (cmd ev c))"
  by (simp add: cmd_def extends_def split: list.split)

lemma call_extends: "call ev c = (e, c') \<Longrightarrow> (\<And>r. Q (ev, cnTLS c, r)) \<Longrightarrow> extends Q c c'"
  using cmd_extends [of Q ev c] by (auto simp: call_def split: prod.splits)

lemma call_line_extends: "call_line a ev c = (e, c') \<Longrightarrow> (\<And>r. Q (ev, cnTLS c, r)) \<Longrightarrow> extends Q c c'"
  by (auto simp: call_line_def split: if_splits intro: call_extends)

lemma auth_loop_extends:
  "auth_loop decode r a c = (e, a', c') \<Longrightarrow> (\<And>s r. Q (SASL s, cnTLS c, r)) \<Longrightarrow> (\<And>r. Q (Quit, cnTLS c, r)) \<Longrightarrow> extends Q c c'"
proof (induction decode r a c rule: auth_loop.induct)
  case (1 decode r a c)
  show ?case
  proof (cases "is_broken r")
    case True
    then show ?thesis using 1(2) by (simp add: auth_loop.simps [of decode r])
  next
    case False
    obtain o1 a1 where s: "auth_step decode r a = (o1, a1)" by fastforce
    consider x where "o1 = Inl x" | "o1 = Inr None" | resp where "o1 = Inr (Some resp)"
      by (metis old.sum.exhaust option.exhaust)
    then show ?thesis
    proof cases
      case (1 x)
      have "extends Q c (snd (cmd (SASL ''*'') c))" by (rule cmd_extends) (rule "1.prems"(2))
      moreover from this have "extends Q (snd (cmd (SASL ''*'') c)) (snd (cmd Quit (snd (cmd (SASL ''*'') c))))"
        using "1.prems"(3) by (intro cmd_extends) (simp add: extends_def)
      ultimately show ?thesis using "1.prems"(1) False s 1
        by (auto simp: auth_loop.simps [of decode r] auth_abort_def intro: extends_trans)
    next
      case 2
      then show ?thesis using "1.prems"(1) False s by (simp add: auth_loop.simps [of decode r])
    next
      case (3 resp)
      obtain r' c1 where k: "cmd (SASL resp) c = (r', c1)" by fastforce
      have x: "extends Q c c1" using cmd_extends [of Q "SASL resp" c] "1.prems"(2) k by simp
      then have tls: "cnTLS c1 = cnTLS c" by (simp add: extends_def)
      have l: "auth_loop decode r' a1 c1 = (e, a', c')" using "1.prems"(1) False s 3 k by (simp add: auth_loop.simps [of decode r])
      have "extends Q c1 c'"
        by (rule "1.IH" [OF False s [symmetric] 3 refl k [symmetric] l]) (simp_all add: tls "1.prems"(2,3))
      then show ?thesis using extends_trans [OF x] by blast
    qed
  qed
qed

lemma client_Auth_extends:
  assumes "client_Auth decode n a c = (e, a', c')" and "\<And>m s r. Q (AuthCmd m s, cnTLS c, r)" and "\<And>s r. Q (SASL s, cnTLS c, r)"
    and "\<And>r. Q (Quit, cnTLS c, r)"
  shows "extends Q c c'"
proof (cases "auth_Start (cnTLS c) n a")
  case (Inl x)
  then show ?thesis using assms(1) cmd_extends [of Q Quit c] assms(4) by (auto simp: client_Auth_def)
next
  case (Inr p)
  obtain mech resp where p: "p = (mech, resp)" by fastforce
  obtain r c1 where k: "cmd (AuthCmd mech resp) c = (r, c1)" by fastforce
  have x: "extends Q c c1" using cmd_extends [of Q "AuthCmd mech resp" c] assms(2) k by simp
  then have tls: "cnTLS c1 = cnTLS c" by (simp add: extends_def)
  have "auth_loop decode r a c1 = (e, a', c')" using assms(1) Inr p k by (simp add: client_Auth_def)
  from auth_loop_extends [OF this, of Q] show ?thesis using assms(3,4) extends_trans [OF x] by (simp add: tls)
qed

lemma authenticate_cases:
  assumes "authenticate decode r tokens c = (e, c')"
  obtains (config) x where "authFor r tokens = Inl x" "e = Some x" "c' = c"
  | (none) "authFor r tokens = Inr None" "e = None" "c' = c"
  | (clear) x where "rTLS r = TLSNone" "authFor r tokens \<noteq> Inr None" "e = Some (PermError x)" "c' = c"
  | (tried) a a' res where "rTLS r \<noteq> TLSNone" "client_Auth decode (Host r) a c = (res, a', c')"
      "e = map_option (auth_failed (rName r) a') res"
proof (cases "authFor r tokens")
  case (Inr o1)
  then show thesis
  proof (cases o1)
    case (Some a)
    obtain res a' c1 where k: "client_Auth decode (Host r) a c = (res, a', c1)" by (rule prod_cases3)
    show thesis
    proof (cases "rTLS r = TLSNone")
      case False
      then have "c' = c1" "e = map_option (auth_failed (rName r) a') res"
        using assms Inr Some k by (cases res; simp add: authenticate_def)+
      then show thesis using tried [OF False, of a res a'] k by simp
    next
      case True
      then have "authenticate decode r tokens c = (Some (PermError (Opaque (''route '' @ rName r @
          '': refusing to authenticate over a cleartext connection''))), c)"
        unfolding authenticate_def Inr Some sum.case option.case by (rule if_P)
      then have "e = Some (PermError (Opaque (''route '' @ rName r @ '': refusing to authenticate over a cleartext connection'')))"
        "c' = c" using assms by (metis prod.inject)+
      then show thesis by (intro clear [OF True]) (simp_all add: Inr Some)
    qed
  qed (use assms none in \<open>simp add: authenticate_def\<close>)
qed (use assms config in \<open>simp add: authenticate_def\<close>)

lemma offer_loop_extends:
  "offer_loop ts rej n c = (x, c') \<Longrightarrow> (\<And>t r. Q (Rcpt t, cnTLS c, r)) \<Longrightarrow> extends Q c c'"
proof (induction ts rej n c rule: offer_loop.induct)
  case (2 t ts rej n c)
  obtain e c1 where k: "call_line t (Rcpt t) c = (e, c1)" by fastforce
  have y: "extends Q c c1" using call_line_extends [OF k] 2(4) by blast
  then have tls: "cnTLS c1 = cnTLS c" by (simp add: extends_def)
  show ?case
  proof (cases e)
    case None
    have "extends Q c1 c'" using 2(1) [OF k [symmetric] None] 2(3,4) None by (simp add: k tls)
    then show ?thesis using extends_trans [OF y] by blast
  next
    case (Some er)
    show ?thesis
    proof (cases "isPermanentReply er")
      case True
      have "extends Q c1 c'" using 2(2) [OF k [symmetric] Some True] 2(3,4) Some True by (simp add: k tls)
      then show ?thesis using extends_trans [OF y] by blast
    next
      case False
      then show ?thesis using 2(3) Some y by (simp add: k)
    qed
  qed
qed simp

lemma transact_extends:
  assumes "transact r m c = (e, c')" and Q: "\<And>ev x. ev \<in> {Mail (smFrom m), Data, Body (fst (smData m)), Dot, Quit} \<or> (\<exists>t. ev = Rcpt t) \<Longrightarrow> Q (ev, cnTLS c, x)"
  shows "extends Q c c'"
proof -
  have step: "extends Q c c2" if "extends Q c c1" "call ev c1 = (y, c2)" "ev \<in> {Data, Body (fst (smData m)), Dot, Quit}" for c1 c2 ev y
    using that call_extends [OF that(2), of Q] Q [of ev] extends_trans [OF that(1)] by (auto simp: extends_def)
  obtain e1 c1 where k1: "call_line (smFrom m) (Mail (smFrom m)) c = (e1, c1)" by fastforce
  have x1: "extends Q c c1" using call_line_extends [OF k1] Q by blast
  obtain o2 c2 where k2: "offer_loop (smTo m) [] 0 c1 = (o2, c2)" by fastforce
  have "extends Q c1 c2" using offer_loop_extends [OF k2] Q x1 by (auto simp: extends_def)
  then have x2: "extends Q c c2" by (rule extends_trans [OF x1])
  obtain e3 c3 where k3: "call Data c2 = (e3, c3)" by fastforce
  obtain e4 c4 where k4: "call (Body (fst (smData m))) c3 = (e4, c4)" by fastforce
  obtain e5 c5 where k5: "call Dot c4 = (e5, c5)" by fastforce
  obtain e6 c6 where k6: "call Quit c5 = (e6, c6)" by fastforce
  have x: "extends Q c c3" "extends Q c c4" "extends Q c c5" "extends Q c c6"
    using step [OF x2 k3] step [OF _ k4] step [OF _ k5] step [OF _ k6] by auto
  show ?thesis using assms(1) x1 x2 x
    by (auto simp: transact_def offerRecipients_def k1 k2 k3 k4 k5 k6 split: option.splits sum.splits prod.splits if_splits)
qed

section \<open>Nothing secret in clear\<close>

fun credential :: "event \<Rightarrow> bool" where
  "credential (AuthCmd m r) = True" | "credential (SASL s) = True" | "credential ev = False"

fun content_event :: "event \<Rightarrow> bool" where
  "content_event (Mail a) = True" | "content_event (Rcpt a) = True" | "content_event Data = True"
| "content_event (Body b) = True" | "content_event Dot = True" | "content_event ev = False"

definition guarded :: "Route \<Rightarrow> event \<times> bool \<times> answer \<Rightarrow> bool" where
  "guarded r x \<longleftrightarrow> (case x of (ev, tls, ans) \<Rightarrow>
     (credential ev \<longrightarrow> tls \<and> rTLS r \<noteq> TLSNone) \<and> (content_event ev \<and> rTLS r \<noteq> TLSNone \<longrightarrow> tls))"

lemma guarded_other: "\<not> credential ev \<Longrightarrow> \<not> content_event ev \<Longrightarrow> guarded r (ev, tls, ans)"
  by (simp add: guarded_def)

lemma guarded_tls: "rTLS r \<noteq> TLSNone \<Longrightarrow> guarded r (ev, True, ans)"
  by (simp add: guarded_def)

lemma authenticate_extends:
  assumes "authenticate decode r tokens c = (e, c')" "rTLS r \<noteq> TLSNone \<longrightarrow> cnTLS c"
  shows "extends (guarded r) c c'"
  using assms(1)
proof (cases rule: authenticate_cases)
  case (tried a a' res)
  then have "cnTLS c" using assms(2) by blast
  then show ?thesis using client_Auth_extends [OF tried(2), of "guarded r"] guarded_tls [OF tried(1)] by simp
qed simp_all

definition log_ok :: "Route \<Rightarrow> conn \<Rightarrow> bool" where
  "log_ok r c \<longleftrightarrow> (\<forall>x \<in> set (cnLog c). guarded r x)"

lemma log_ok_extends: "log_ok r c \<Longrightarrow> extends (guarded r) c c' \<Longrightarrow> log_ok r c'"
  by (auto simp: log_ok_def extends_def)

lemma log_ok_tls [simp]: "log_ok r (c\<lparr>cnTLS := b\<rparr>) = log_ok r c"
  by (simp add: log_ok_def)

lemma Deliver_stages:
  assumes "Deliver decode r tlsConf m tokens c = (e, c')"
  obtains (refused) "rTLS r \<noteq> TLSNone" "tlsConf = None" "c' = c" "\<exists>x. e = Some (PermError x)"
  | (dialling) x where "dial r c = (Some x, c')" "e = Some x"
  | (greeting) c1 x where "dial r c = (None, c1)" "call Greeting c1 = (Some x, c')" "e = Some (classify x)"
  | (hello) c1 c2 x where "dial r c = (None, c1)" "call Greeting c1 = (None, c2)"
      "call (Hello (heloName (smHelo m))) c2 = (Some x, c')" "e = Some (classify x)"
  | (upgrading) c1 c2 c3 x where "dial r c = (None, c1)" "call Greeting c1 = (None, c2)"
      "call (Hello (heloName (smHelo m))) c2 = (None, c3)" "upgrade r c3 = (Some x, c')" "e = Some x"
  | (authenticating) c1 c2 c3 c4 x where "dial r c = (None, c1)" "call Greeting c1 = (None, c2)"
      "call (Hello (heloName (smHelo m))) c2 = (None, c3)" "upgrade r c3 = (None, c4)"
      "authenticate decode r tokens c4 = (Some x, c')" "e = Some x"
  | (sending) c1 c2 c3 c4 c5 where "dial r c = (None, c1)" "call Greeting c1 = (None, c2)"
      "call (Hello (heloName (smHelo m))) c2 = (None, c3)" "upgrade r c3 = (None, c4)"
      "authenticate decode r tokens c4 = (None, c5)" "transact r m c5 = (e, c')"
  using assms unfolding Deliver_def
  by (auto split: if_split_asm prod.split_asm option.split_asm)

lemma dial_ok: "dial r c = (e, c1) \<Longrightarrow> log_ok r c \<Longrightarrow> log_ok r c1 \<and> (e = None \<longrightarrow> rTLS r = TLSImplicit \<longrightarrow> cnTLS c1)"
  using call_extends [of Connect c _ _ "guarded r"] guarded_other [of Connect]
  by (auto simp: dial_def log_ok_extends split: prod.splits option.splits if_splits)

lemma plain_ok: "call ev c = (e, c1) \<Longrightarrow> \<not> credential ev \<Longrightarrow> \<not> content_event ev \<Longrightarrow> log_ok r c \<Longrightarrow> log_ok r c1 \<and> cnTLS c1 = cnTLS c"
  using call_extends [of ev c e c1 "guarded r"] guarded_other [of ev] log_ok_extends by (auto simp: extends_def)

lemma upgrade_ok:
  "upgrade r c = (e, c1) \<Longrightarrow> log_ok r c \<Longrightarrow> log_ok r c1 \<and> (e = None \<longrightarrow> cnTLS c1 = (rTLS r = TLSStartTLS \<or> cnTLS c))"
  using plain_ok [of StartTLS c _ _ r] by (auto simp: upgrade_def split: prod.splits option.splits if_splits)

text \<open>C25: No password, token or message ever leaves the relay in clear on a route that uses TLS, and no
  credential at all on a route that does not: whatever the smarthost answers, every AUTH line and SASL
  response was sent under TLS, and on an encrypted route so were the envelope and the body. A smarthost
  that does not offer STARTTLS, or whose handshake fails, is never fallen back from.\<close>

theorem nothing_secret_in_clear:
  assumes "rTLS r \<in> {TLSNone, TLSStartTLS, TLSImplicit}" and "cnLog c = []"
  shows "\<forall>(ev, tls, ans) \<in> set (cnLog (snd (Deliver decode r tlsConf m tokens c))).
    (credential ev \<longrightarrow> tls \<and> rTLS r \<noteq> TLSNone) \<and> (content_event ev \<and> rTLS r \<noteq> TLSNone \<longrightarrow> tls)"
proof -
  obtain e c' where d: "Deliver decode r tlsConf m tokens c = (e, c')" by fastforce
  have ok0: "log_ok r c" using assms(2) by (simp add: log_ok_def)
  have "log_ok r c'" using d
  proof (cases rule: Deliver_stages)
    case refused
    then show ?thesis using ok0 by simp
  next
    case (dialling x)
    then show ?thesis using dial_ok ok0 by blast
  next
    case (greeting c1 x)
    have "log_ok r c1" using dial_ok [OF greeting(1) ok0] by blast
    then show ?thesis using plain_ok [OF greeting(2)] by simp
  next
    case (hello c1 c2 x)
    have "log_ok r c1" using dial_ok [OF hello(1) ok0] by blast
    then have "log_ok r c2" using plain_ok [OF hello(2)] by simp
    then show ?thesis using plain_ok [OF hello(3)] by simp
  next
    case (upgrading c1 c2 c3 x)
    have "log_ok r c1" using dial_ok [OF upgrading(1) ok0] by blast
    then have "log_ok r c2" using plain_ok [OF upgrading(2)] by simp
    then have "log_ok r c3" using plain_ok [OF upgrading(3)] by simp
    then show ?thesis using upgrade_ok [OF upgrading(4)] by blast
  next
    case (authenticating c1 c2 c3 c4 x)
    have 1: "log_ok r c1" "rTLS r = TLSImplicit \<longrightarrow> cnTLS c1" using dial_ok [OF authenticating(1) ok0] by blast+
    have 2: "log_ok r c2" "cnTLS c2 = cnTLS c1" using plain_ok [OF authenticating(2) _ _ 1(1)] by simp_all
    have 3: "log_ok r c3" "cnTLS c3 = cnTLS c2" using plain_ok [OF authenticating(3) _ _ 2(1)] by simp_all
    have 4: "log_ok r c4" "rTLS r \<noteq> TLSNone \<longrightarrow> cnTLS c4"
      using upgrade_ok [OF authenticating(4) 3(1)] 1 2 3 assms(1) by auto
    show ?thesis using log_ok_extends [OF 4(1) authenticate_extends [OF authenticating(5) 4(2)]] .
  next
    case (sending c1 c2 c3 c4 c5)
    have 1: "log_ok r c1" "rTLS r = TLSImplicit \<longrightarrow> cnTLS c1" using dial_ok [OF sending(1) ok0] by blast+
    have 2: "log_ok r c2" "cnTLS c2 = cnTLS c1" using plain_ok [OF sending(2) _ _ 1(1)] by simp_all
    have 3: "log_ok r c3" "cnTLS c3 = cnTLS c2" using plain_ok [OF sending(3) _ _ 2(1)] by simp_all
    have 4: "log_ok r c4" "rTLS r \<noteq> TLSNone \<longrightarrow> cnTLS c4"
      using upgrade_ok [OF sending(4) 3(1)] 1 2 3 assms(1) by auto
    note a = authenticate_extends [OF sending(5) 4(2)]
    have 5: "log_ok r c5" "rTLS r \<noteq> TLSNone \<longrightarrow> cnTLS c5" using log_ok_extends [OF 4(1) a] a 4(2) by (simp_all add: extends_def)
    have "extends (guarded r) c5 c'"
      by (rule transact_extends [OF sending(6)]) (use 5(2) in \<open>auto simp: guarded_def\<close>)
    then show ?thesis by (rule log_ok_extends [OF 5(1)])
  qed
  then show ?thesis by (auto simp: d log_ok_def guarded_def)
qed

section \<open>Delivered or not\<close>

text \<open>An outcome the delivery manager must not retry.\<close>

fun delivered :: "attempt_err option \<Rightarrow> bool" where
  "delivered None = True"
| "delivered (Some (QuitError e)) = True"
| "delivered (Some (PartialError rt rs)) = True"
| "delivered (Some e) = False"

fun refused_rcpts :: "attempt_err option \<Rightarrow> (string \<times> goerr) list" where
  "refused_rcpts (Some (PartialError rt rs)) = rs"
| "refused_rcpts e = []"

definition answered :: "conn \<Rightarrow> event \<Rightarrow> bool" where
  "answered c ev \<longleftrightarrow> (\<exists>tls. (ev, tls, Accept) \<in> set (cnLog c))"

lemma answer_err_None: "answer_err a = None \<longleftrightarrow> a = Accept"
  by (cases a) simp_all

lemma classify_undelivered [simp]: "\<not> delivered (Some (classify e))"
  by (simp add: classify_def split: option.split)

lemma auth_failed_undelivered [simp]: "\<not> delivered (Some (auth_failed rt a e))"
  by (simp add: auth_failed_def split: auth.split)

text \<open>What a successful or failing call leaves in the log.\<close>

lemma call_log:
  assumes "call ev c = (e, c')"
  shows "\<exists>a. cnLog c' = cnLog c @ [(ev, cnTLS c, a)] \<and> e = answer_err a"
  using assms by (auto simp: call_def cmd_def split: list.splits prod.splits)

lemma call_answered:
  assumes "call ev c = (e, c')"
  shows "answered c' x \<longleftrightarrow> answered c x \<or> (x = ev \<and> e = None)"
  using call_log [OF assms] by (auto simp: answered_def answer_err_None)

lemma call_line_answered:
  assumes "call_line a ev c = (e, c')"
  shows "answered c' x \<longleftrightarrow> answered c x \<or> (x = ev \<and> e = None)"
  using assms call_answered [of ev c e c'] by (auto simp: call_line_def split: if_splits)

lemma extends_answered: "extends (\<lambda>(ev, _, _). ev \<noteq> x) c c' \<Longrightarrow> answered c' x = answered c x"
  by (auto simp: extends_def answered_def)

lemma offer_loop_answered:
  "offer_loop ts rej n c = (Inr (rej', k), c') \<Longrightarrow>
   (\<exists>new. rej' = rej @ new \<and> n \<le> k \<and> (k = n \<longrightarrow> set ts \<subseteq> fst ` set new) \<and>
      (\<forall>t \<in> set ts. t \<in> fst ` set new \<or> answered c' (Rcpt t)) \<and>
      (\<forall>p \<in> set new. isPermanentReply (snd p)) \<and> (\<forall>ev. answered c ev \<longrightarrow> answered c' ev))"
proof (induction ts arbitrary: rej n c)
  case (Cons t ts)
  obtain e c1 where k: "call_line t (Rcpt t) c = (e, c1)" by fastforce
  note a = call_line_answered [OF k]
  show ?case
  proof (cases e)
    case None
    then have l: "offer_loop ts rej (n + 1) c1 = (Inr (rej', k), c')" using Cons.prems by (simp add: k)
    from Cons.IH [OF this] obtain new where "rej' = rej @ new" "n + 1 \<le> k"
      "\<forall>t \<in> set ts. t \<in> fst ` set new \<or> answered c' (Rcpt t)" "\<forall>p \<in> set new. isPermanentReply (snd p)"
      "\<forall>ev. answered c1 ev \<longrightarrow> answered c' ev" by blast
    then show ?thesis using a None by (intro exI [of _ new]) auto
  next
    case (Some er)
    then have l: "offer_loop ts (rej @ [(t, er)]) n c1 = (Inr (rej', k), c')" and p: "isPermanentReply er"
      using Cons.prems by (simp_all add: k split: if_splits)
    from Cons.IH [OF l] obtain new where "rej' = (rej @ [(t, er)]) @ new" "n \<le> k" "k = n \<longrightarrow> set ts \<subseteq> fst ` set new"
      "\<forall>t \<in> set ts. t \<in> fst ` set new \<or> answered c' (Rcpt t)" "\<forall>p \<in> set new. isPermanentReply (snd p)"
      "\<forall>ev. answered c1 ev \<longrightarrow> answered c' ev" by blast
    then show ?thesis using a p by (intro exI [of _ "(t, er) # new"]) auto
  qed
qed simp

lemma offer_loop_errs: "offer_loop ts rej n c = (Inl e, c') \<Longrightarrow> \<not> delivered (Some e)"
  by (induction ts rej n c rule: offer_loop.induct) (auto split: prod.splits option.splits if_splits)

lemma transact_answered:
  assumes "transact r m c = (e, c')" "snd (smData m) = None" "\<not> answered c Dot"
  shows "delivered e = answered c' Dot \<and> (delivered e \<longrightarrow> answered c' (Body (fst (smData m))) \<and>
    (\<forall>t \<in> set (smTo m). t \<in> fst ` set (refused_rcpts e) \<or> answered c' (Rcpt t)) \<and>
    (\<forall>p \<in> set (refused_rcpts e). isPermanentReply (snd p)))"
proof -
  obtain e1 c1 where k1: "call_line (smFrom m) (Mail (smFrom m)) c = (e1, c1)" by fastforce
  have d1: "\<not> answered c1 Dot" using call_line_answered [OF k1] assms(3) by simp
  obtain o2 c2 where k2: "offer_loop (smTo m) [] 0 c1 = (o2, c2)" by fastforce
  have d2: "\<not> answered c2 Dot"
    using extends_answered [OF offer_loop_extends [OF k2]] d1 by simp
  obtain e3 c3 where k3: "call Data c2 = (e3, c3)" by fastforce
  obtain e4 c4 where k4: "call (Body (fst (smData m))) c3 = (e4, c4)" by fastforce
  obtain e5 c5 where k5: "call Dot c4 = (e5, c5)" by fastforce
  obtain e6 c6 where k6: "call Quit c5 = (e6, c6)" by fastforce
  note a = call_answered [OF k3] call_answered [OF k4] call_answered [OF k5] call_answered [OF k6]
  have d: "\<not> answered c3 Dot" "\<not> answered c4 Dot" "answered c5 Dot = (e5 = None)" using a d2 by simp_all
  show ?thesis
  proof (cases "e1 = None \<and> (\<exists>rej k. o2 = Inr (rej, k) \<and> k \<noteq> 0) \<and> e3 = None \<and> e4 = None \<and> e5 = None")
    case True
    then obtain rej k where o2: "o2 = Inr (rej, k)" "k \<noteq> 0" by blast
    have e: "e = (if rej \<noteq> [] then Some (PartialError (rName r) rej) else map_option QuitError e6)" "c' = c6"
      using assms(1,2) True o2 by (simp_all add: transact_def offerRecipients_def k1 k2 k3 k4 k5 k6)
    have l: "\<forall>t \<in> set (smTo m). t \<in> fst ` set rej \<or> answered c2 (Rcpt t)" "\<forall>p \<in> set rej. isPermanentReply (snd p)"
      using offer_loop_answered [OF k2 [unfolded o2]] by auto
    have up: "answered c2 x \<Longrightarrow> answered c6 x" for x using a by simp
    have "answered c6 Dot" "answered c6 (Body (fst (smData m)))" using a True by simp_all
    moreover have "delivered e" using e(1) by (cases e6) simp_all
    moreover have "refused_rcpts e = rej" using e(1) by (cases e6) simp_all
    ultimately show ?thesis using l up e(2) by blast
  next
    case False
    then have "\<not> delivered e \<and> \<not> answered c' Dot"
      using assms(1,2) d1 d2 d
      by (auto simp: transact_def offerRecipients_def k1 k2 k3 k4 k5 k6 split: option.splits sum.splits prod.splits if_splits)
        (use offer_loop_errs [of "smTo m" "[]" 0 c1] k2 in \<open>auto\<close>)
    then show ?thesis by simp
  qed
qed

lemma stage_answered:
  "dial r c = (e, c1) \<Longrightarrow> x \<noteq> Connect \<Longrightarrow> answered c1 x = answered c x"
  "upgrade r c = (e, c1) \<Longrightarrow> x \<noteq> StartTLS \<Longrightarrow> answered c1 x = answered c x"
  using call_answered [of Connect c _ _ x] call_answered [of StartTLS c _ _ x]
  by (auto simp: dial_def upgrade_def answered_def split: prod.splits option.splits if_splits)

lemma authenticate_answered:
  assumes "authenticate decode r tokens c = (e, c')"
  shows "answered c' Dot = answered c Dot" and "\<not> (\<exists>x. e = Some x \<and> delivered (Some x))"
  using assms
proof (atomize (full), cases rule: authenticate_cases)
  case (config x)
  then show "answered c' Dot = answered c Dot \<and> \<not> (\<exists>x. e = Some x \<and> delivered (Some x))"
    by (auto simp: authFor_def split: if_splits option.splits sum.splits)
next
  case (tried a a' res)
  then show "answered c' Dot = answered c Dot \<and> \<not> (\<exists>x. e = Some x \<and> delivered (Some x))"
    using extends_answered [OF client_Auth_extends [OF tried(2), of "\<lambda>(ev, _, _). ev \<noteq> Dot"]] by auto
qed simp_all

lemma dialogue_outcome:
  assumes "cnLog c = []" and "snd (smData m) = None" and "Deliver decode r tlsConf m tokens c = (e, c')"
  shows "delivered e = answered c' Dot \<and>
    (delivered e \<longrightarrow> answered c' (Body (fst (smData m))) \<and>
       (\<forall>t \<in> set (smTo m). t \<in> fst ` set (refused_rcpts e) \<or> answered c' (Rcpt t)) \<and>
       (\<forall>p \<in> set (refused_rcpts e). isPermanentReply (snd p)))"
  using assms(3)
proof (cases rule: Deliver_stages)
  case refused
  then show ?thesis using assms(1) by (auto simp: answered_def)
next
  case (dialling x)
  then show ?thesis using stage_answered(1) [OF dialling(1), of Dot] assms(1)
    by (auto simp: answered_def dial_def split: prod.splits option.splits)
next
  case (greeting c1 x)
  then show ?thesis using stage_answered(1) [OF greeting(1), of Dot] call_answered [OF greeting(2), of Dot] assms(1)
    by (simp add: answered_def)
next
  case (hello c1 c2 x)
  then show ?thesis
    using stage_answered(1) [OF hello(1), of Dot] call_answered [OF hello(2), of Dot] call_answered [OF hello(3), of Dot] assms(1)
    by (simp add: answered_def)
next
  case (upgrading c1 c2 c3 x)
  have "\<not> answered c' Dot"
    using stage_answered(1) [OF upgrading(1), of Dot] call_answered [OF upgrading(2), of Dot] call_answered [OF upgrading(3), of Dot]
      stage_answered(2) [OF upgrading(4), of Dot] assms(1) by (simp add: answered_def)
  then show ?thesis using upgrading(4,5) by (auto simp: upgrade_def split: if_splits prod.splits option.splits)
next
  case (authenticating c1 c2 c3 c4 x)
  have "\<not> answered c' Dot"
    using stage_answered(1) [OF authenticating(1), of Dot] call_answered [OF authenticating(2), of Dot]
      call_answered [OF authenticating(3), of Dot] stage_answered(2) [OF authenticating(4), of Dot]
      authenticate_answered(1) [OF authenticating(5)] assms(1) by (simp add: answered_def)
  then show ?thesis using authenticate_answered(2) [OF authenticating(5)] authenticating(6) by auto
next
  case (sending c1 c2 c3 c4 c5)
  have "\<not> answered c5 Dot"
    using stage_answered(1) [OF sending(1), of Dot] call_answered [OF sending(2), of Dot] call_answered [OF sending(3), of Dot]
      stage_answered(2) [OF sending(4), of Dot] authenticate_answered(1) [OF sending(5)] assms(1) by (simp add: answered_def)
  then show ?thesis by (rule transact_answered [OF sending(6) assms(2)])
qed

text \<open>A body whose reading failed is never taken for delivered, whatever the smarthost answers.\<close>

lemma transact_broken: "transact r m c = (e, c') \<Longrightarrow> snd (smData m) \<noteq> None \<Longrightarrow> \<not> delivered e"
  by (auto simp: transact_def offerRecipients_def classify_def split: option.splits sum.splits prod.splits if_splits
      dest: offer_loop_errs)

lemma broken_read_undelivered:
  assumes "Deliver decode r tlsConf m tokens c = (e, c')" "snd (smData m) \<noteq> None"
  shows "\<not> delivered e"
  using assms(1)
proof (cases rule: Deliver_stages)
  case (authenticating c1 c2 c3 c4 x)
  then show ?thesis using authenticate_answered(2) [OF authenticating(5)] by auto
next
  case (sending c1 c2 c3 c4 c5)
  show ?thesis by (rule transact_broken [OF sending(6) assms(2)])
qed (auto simp: classify_def dial_def upgrade_def split: if_splits prod.splits option.splits)

text \<open>C24: An attempt counts as delivered exactly when the smarthost answered the end of the message with
  success: then the whole body had been sent, every recipient had been accepted or is named in the
  outcome with a 5xx reply of its own, and whatever happens to the connection afterwards does not
  turn the attempt into a failure; and when it did not answer so, the attempt is a failure, so that
  neither a second copy nor a lost message follows. (For a body that is read to its end.)\<close>

theorem delivered_iff_accepted:
  assumes "cnLog c = []" and "snd (smData m) = None" and "Deliver decode r tlsConf m tokens c = (e, c')"
  shows "delivered e = answered c' Dot \<and>
    (delivered e \<longrightarrow> answered c' (Body (fst (smData m))) \<and>
       (\<forall>t \<in> set (smTo m). t \<in> fst ` set (refused_rcpts e) \<or> answered c' (Rcpt t)) \<and>
       (\<forall>p \<in> set (refused_rcpts e). isPermanentReply (snd p)))"
  by (rule dialogue_outcome [OF assms])

section \<open>Failed for good\<close>

definition refused5 :: "conn \<Rightarrow> event \<Rightarrow> bool" where
  "refused5 c ev \<longleftrightarrow> (\<exists>tls code m. (ev, tls, Refuse code m) \<in> set (cnLog c) \<and> 500 \<le> code \<and> code < 600)"

text \<open>Commands whose refusal is about the message or the peer, not about credentials.\<close>

fun of_message :: "event \<Rightarrow> bool" where
  "of_message Greeting = True" | "of_message (Hello n) = True" | "of_message ev = content_event ev"

lemma refused5_extends: "refused5 c ev \<Longrightarrow> extends Q c c' \<Longrightarrow> refused5 c' ev"
  by (fastforce simp: refused5_def extends_def)

lemma permanent_reply:
  "(\<exists>x. classify e = PermError x) \<longleftrightarrow> (\<exists>code m. as_reply e = Some (code, m) \<and> 500 \<le> code \<and> code < 600)"
  by (auto simp: classify_def split: option.split)

lemma call_perm:
  assumes "call ev c = (Some e, c')" "classify e = PermError x"
  shows "refused5 c' ev"
proof -
  obtain a where a: "cnLog c' = cnLog c @ [(ev, cnTLS c, a)]" "Some e = answer_err a" using call_log [OF assms(1)] by blast
  obtain code m where "as_reply e = Some (code, m)" "500 \<le> code" "code < 600" using assms(2) permanent_reply by blast
  then show ?thesis using a by (cases a) (auto simp: refused5_def)
qed

lemma call_line_perm: "call_line y ev c = (Some e, c') \<Longrightarrow> classify e = PermError x \<Longrightarrow> refused5 c' ev"
  using call_perm [of ev c e c' x] by (auto simp: call_line_def classify_def split: if_splits)

lemma isPermanentReply_iff: "isPermanentReply e \<longleftrightarrow> (\<exists>x. classify e = PermError x)"
  by (simp add: isPermanentReply_def split: attempt_err.split)

lemma offer_loop_perm:
  "offer_loop ts rej n c = (x, c') \<Longrightarrow>
   (case x of Inl e \<Rightarrow> (\<forall>y. e \<noteq> PermError y)
    | Inr (rej', k) \<Rightarrow> length rej < length rej' \<longrightarrow> (\<exists>t. refused5 c' (Rcpt t))) \<and>
   (\<forall>ev. refused5 c ev \<longrightarrow> refused5 c' ev) \<and> (case x of Inl _ \<Rightarrow> True | Inr (rej', k) \<Rightarrow> length ts + length rej + n = length rej' + k)"
proof (induction ts arbitrary: rej n c)
  case (Cons t ts)
  obtain e c1 where k: "call_line t (Rcpt t) c = (e, c1)" by fastforce
  have mono: "refused5 c ev \<Longrightarrow> refused5 c1 ev" for ev
    using refused5_extends [OF _ call_line_extends [OF k, of "\<lambda>_. True"]] by simp
  show ?case
  proof (cases e)
    case None
    then show ?thesis using Cons.IH [of rej "n + 1" c1] Cons.prems mono by (auto simp: k split: sum.split)
  next
    case (Some er)
    show ?thesis
    proof (cases "isPermanentReply er")
      case True
      then have "refused5 c1 (Rcpt t)" using call_line_perm [OF k [unfolded Some]] isPermanentReply_iff by blast
      then show ?thesis using Cons.IH [of "rej @ [(t, er)]" n c1] Cons.prems mono Some True by (auto simp: k split: sum.splits)
    next
      case False
      then show ?thesis using Cons.prems Some mono by (auto simp: k isPermanentReply_iff)
    qed
  qed
qed auto

lemma transact_perm:
  assumes "transact r m c = (Some (PermError x), c')" "smTo m \<noteq> []"
  shows "\<exists>ev. of_message ev \<and> refused5 c' ev"
proof -
  obtain e1 c1 where k1: "call_line (smFrom m) (Mail (smFrom m)) c = (e1, c1)" by fastforce
  obtain o2 c2 where k2: "offer_loop (smTo m) [] 0 c1 = (o2, c2)" by fastforce
  obtain e3 c3 where k3: "call Data c2 = (e3, c3)" by fastforce
  obtain e4 c4 where k4: "call (Body (fst (smData m))) c3 = (e4, c4)" by fastforce
  obtain e5 c5 where k5: "call Dot c4 = (e5, c5)" by fastforce
  obtain e6 c6 where k6: "call Quit c5 = (e6, c6)" by fastforce
  note p = offer_loop_perm [OF k2]
  from assms(1) consider e where "e1 = Some e" "classify e = PermError x" "c' = c1"
    | "o2 = Inl (PermError x)" | rej where "o2 = Inr (rej, 0)" "c' = c2"
    | e where "e3 = Some e" "classify e = PermError x" "c' = c3" | e where "e5 = Some e" "classify e = PermError x" "c' = c5"
    by (auto simp: transact_def offerRecipients_def k1 k2 k3 k4 k5 k6 split: option.splits sum.splits prod.splits if_splits)
  then show ?thesis
  proof cases
    case (1 e)
    then have "refused5 c' (Mail (smFrom m))" using call_line_perm k1 by blast
    then show ?thesis using of_message.simps content_event.simps by metis
  next
    case 2
    then show ?thesis using p by simp
  next
    case (3 rej)
    then have "\<exists>t. refused5 c' (Rcpt t)" using p assms(2) by auto
    then show ?thesis using of_message.simps content_event.simps by metis
  next
    case (4 e)
    then have "refused5 c' Data" using call_perm k3 by blast
    then show ?thesis using of_message.simps content_event.simps by metis
  next
    case (5 e)
    then have "refused5 c' Dot" using call_perm k5 by blast
    then show ?thesis using of_message.simps content_event.simps by metis
  qed
qed

text \<open>A route the loader would not have accepted, or whose token source was not built.\<close>

definition misconfigured :: "Route \<Rightarrow> tls_conf option \<Rightarrow> (goerr + string) option \<Rightarrow> bool" where
  "misconfigured r tlsConf tokens \<longleftrightarrow>
     rTLS r \<noteq> TLSNone \<and> tlsConf = None \<or>
     Auth r \<notin> {AuthNone, [], AuthPlain, AuthLogin, AuthXOAUTH2} \<or> Auth r = AuthXOAUTH2 \<and> tokens = None \<or>
     rTLS r = TLSNone \<and> Auth r \<notin> {AuthNone, []}"

lemma auth_failed_soft [simp]: "auth_failed rt a e \<noteq> PermError x" "PermError x \<noteq> auth_failed rt a e"
  by (simp_all add: auth_failed_def split: auth.split)

text \<open>C26: A message fails for good only when the smarthost said so about the message: a permanent error means
  that a 5xx answered the greeting, HELO, MAIL, RCPT, DATA or the end of the body, or that the route
  is one the loader refuses, or that there was nobody to send to. A rejected password or token, a
  missing STARTTLS, an outage or a broken connection never empties the queue into spool/failed.\<close>

theorem permanent_only_for_the_message:
  assumes "Deliver decode r tlsConf m tokens c = (Some (PermError x), c')"
  shows "misconfigured r tlsConf tokens \<or> smTo m = [] \<or> (\<exists>ev. of_message ev \<and> refused5 c' ev)"
  using assms
proof (cases rule: Deliver_stages)
  case refused
  then show ?thesis by (simp add: misconfigured_def)
next
  case (dialling y)
  then show ?thesis by (auto simp: dial_def split: prod.splits option.splits)
next
  case (greeting c1 y)
  then have "refused5 c' Greeting" using call_perm by (metis option.inject)
  then show ?thesis using of_message.simps by metis
next
  case (hello c1 c2 y)
  then have "refused5 c' (Hello (heloName (smHelo m)))" using call_perm by (metis option.inject)
  then show ?thesis using of_message.simps by metis
next
  case (upgrading c1 c2 c3 y)
  then show ?thesis by (auto simp: upgrade_def split: prod.splits option.splits if_splits)
next
  case (authenticating c1 c2 c3 c4 y)
  from authenticating(5) show ?thesis
  proof (cases rule: authenticate_cases)
    case (config z)
    then show ?thesis using authenticating(6)
      by (auto simp: misconfigured_def authFor_def split: if_splits option.splits sum.splits)
  next
    case (clear z)
    then show ?thesis by (auto simp: misconfigured_def authFor_def split: if_splits option.splits sum.splits)
  next
    case (tried a a' res)
    then show ?thesis using authenticating(6) by (cases res) auto
  qed simp
next
  case (sending c1 c2 c3 c4 c5)
  then show ?thesis using transact_perm by blast
qed

section \<open>A body that cannot be read to its end\<close>

lemma call_accept: "cnReplies c = Accept # rs \<Longrightarrow> call ev c = (None, c\<lparr>cnReplies := rs, cnLog := cnLog c @ [(ev, cnTLS c, Accept)]\<rparr>)"
  by (simp add: call_def cmd_def)

lemma offer_loop_accept:
  "cnReplies c = replicate (length ts) Accept @ rs \<Longrightarrow> \<forall>t \<in> set ts. \<not> ContainsAny t [CR, LF] \<Longrightarrow>
   \<exists>c'. offer_loop ts rej n c = (Inr (rej, n + length ts), c') \<and> cnReplies c' = rs \<and> cnTLS c' = cnTLS c"
proof (induction ts arbitrary: n c)
  case (Cons t ts)
  have k: "call_line t (Rcpt t) c = (None, c\<lparr>cnReplies := replicate (length ts) Accept @ rs, cnLog := cnLog c @ [(Rcpt t, cnTLS c, Accept)]\<rparr>)"
    using Cons.prems by (simp add: call_line_def call_accept)
  show ?case
    using Cons.IH [of "c\<lparr>cnReplies := replicate (length ts) Accept @ rs, cnLog := cnLog c @ [(Rcpt t, cnTLS c, Accept)]\<rparr>" "n + 1"] Cons.prems
    by (simp add: k)
qed simp

text \<open>A body that cannot be read to its end is delivered truncated and then delivered again. When reading
  the queued file fails in the middle, the code closes the DATA writer before it reports the error;
  closing it sends the dot, so a smarthost that accepts everything accepts the part sent so far as
  the message, while the attempt is reported as temporary and retried.\<close>

theorem unreadable_body_is_sent_truncated:
  assumes "cnReplies c = replicate (length (smTo m) + 4) Accept" and "smTo m \<noteq> []" and "snd (smData m) = Some e"
    and "\<forall>a \<in> set (smFrom m # smTo m). \<not> ContainsAny a [CR, LF]"
  shows "case transact r m c of (res, c') \<Rightarrow>
    (\<exists>x. res = Some (TempError x)) \<and> answered c' (Body (fst (smData m))) \<and> answered c' Dot"
proof -
  obtain c1 where k1: "call_line (smFrom m) (Mail (smFrom m)) c = (None, c1)" "cnReplies c1 = replicate (length (smTo m)) Accept @ [Accept, Accept, Accept]"
    using assms(1,4) by (simp add: call_line_def call_accept numeral_eq_Suc replicate_append_same [symmetric])
  obtain c2 where k2: "offer_loop (smTo m) [] 0 c1 = (Inr ([], length (smTo m)), c2)" "cnReplies c2 = [Accept, Accept, Accept]"
    using offer_loop_accept [OF k1(2), of "[]" 0] assms(4) by auto
  show ?thesis
    using assms(2,3) by (simp add: transact_def offerRecipients_def k1(1) k2 call_accept answered_def) blast
qed

section \<open>A conversation\<close>

text \<open>STARTTLS, a password, two recipients of whom the second is unknown, and a connection that is gone
  after the body.\<close>

definition demo_smtp_route :: Route where
  "demo_smtp_route = (demo_route ''main'' [] True)\<lparr>Auth := AuthPlain\<rparr>"

definition demo_tls :: tls_conf where
  "demo_tls = \<lparr>tcServerName = ''h'', tcMinVersion = 0x0303, tcPin = None\<rparr>"

definition demo_mail :: smtp_message where
  "demo_mail = \<lparr>smFrom = ''a@x'', smTo = [''b@y'', ''c@z''], smData = (''hello'', None), smHelo = ''relay''\<rparr>"

definition demo_conn :: conn where
  "demo_conn = \<lparr>cnReplies = [Accept, Accept, Accept, Accept, Accept, Accept, Accept, Refuse 550 ''no'', Accept, Accept, Accept],
     cnTLS = False, cnOffers = True, cnLog = []\<rparr>"

lemma demo_conn_log [simp]: "cnLog demo_conn = []" by (simp add: demo_conn_def)

theorem nothing_secret_in_clear_witness:
  "case cnLog (snd (Deliver id demo_smtp_route (Some demo_tls) demo_mail None demo_conn)) of log \<Rightarrow>
     filter (\<lambda>(ev, tls, ans). credential ev) log \<noteq> [] \<and> filter (\<lambda>(ev, tls, ans). credential ev \<and> \<not> tls) log = []"
proof -
  have "rTLS demo_smtp_route \<in> {TLSNone, TLSStartTLS, TLSImplicit}" by (simp add: demo_smtp_route_def demo_route_def)
  note clear = nothing_secret_in_clear [OF this demo_conn_log, of id "Some demo_tls" demo_mail None]
  have "filter (\<lambda>(ev, tls, ans). credential ev) (cnLog (snd (Deliver id demo_smtp_route (Some demo_tls) demo_mail None demo_conn))) \<noteq> []"
    by code_simp
  moreover have "filter (\<lambda>(ev, tls, ans). credential ev \<and> \<not> tls)
      (cnLog (snd (Deliver id demo_smtp_route (Some demo_tls) demo_mail None demo_conn))) = []"
    unfolding filter_empty_conv using clear by blast
  ultimately show ?thesis by simp
qed

theorem delivered_iff_accepted_witness:
  "case Deliver id demo_smtp_route (Some demo_tls) demo_mail None demo_conn of (e, c') \<Rightarrow>
     delivered e \<and> map fst (refused_rcpts e) = [''c@z''] \<and> answered c' (Rcpt ''b@y'')"
proof -
  obtain e c' where d: "Deliver id demo_smtp_route (Some demo_tls) demo_mail None demo_conn = (e, c')" by fastforce
  have "case Deliver id demo_smtp_route (Some demo_tls) demo_mail None demo_conn of (e, c') \<Rightarrow>
     delivered e \<and> map fst (refused_rcpts e) = [''c@z'']" by code_simp
  then have e: "delivered e" "map fst (refused_rcpts e) = [''c@z'']" unfolding d prod.case by blast+
  then have "''b@y'' \<notin> fst ` set (refused_rcpts e)" unfolding list.set_map [symmetric] e(2) by simp
  moreover have "''b@y'' \<in> set (smTo demo_mail)" "snd (smData demo_mail) = None" by (simp_all add: demo_mail_def)
  ultimately have "answered c' (Rcpt ''b@y'')" using delivered_iff_accepted [OF demo_conn_log _ d] e(1) by blast
  then show ?thesis using e unfolding d prod.case by blast
qed

theorem permanent_only_for_the_message_witness:
  "\<exists>ev. of_message ev \<and> refused5 (snd (Deliver id demo_smtp_route (Some demo_tls) demo_mail None
     (demo_conn\<lparr>cnReplies := [Accept, Accept, Accept, Accept, Accept, Refuse 550 ''no'']\<rparr>))) ev"
proof -
  let ?c = "demo_conn\<lparr>cnReplies := [Accept, Accept, Accept, Accept, Accept, Refuse 550 ''no'']\<rparr>"
  have "case fst (Deliver id demo_smtp_route (Some demo_tls) demo_mail None ?c) of Some (PermError x) \<Rightarrow> True | _ \<Rightarrow> False" by code_simp
  then obtain x c' where d: "Deliver id demo_smtp_route (Some demo_tls) demo_mail None ?c = (Some (PermError x), c')"
    by (cases "Deliver id demo_smtp_route (Some demo_tls) demo_mail None ?c") (auto split: option.splits attempt_err.splits)
  have "\<not> misconfigured demo_smtp_route (Some demo_tls) None" "smTo demo_mail \<noteq> []" by code_simp+
  then show ?thesis using permanent_only_for_the_message [OF d] by (simp add: d)
qed

theorem unreadable_body_is_sent_truncated_witness:
  "answered (snd (transact demo_smtp_route (demo_mail\<lparr>smData := (''hel'', Some (Opaque ''input/output error''))\<rparr>)
     (demo_conn\<lparr>cnReplies := replicate 6 Accept\<rparr>))) Dot"
  using unreadable_body_is_sent_truncated [of "demo_conn\<lparr>cnReplies := replicate 6 Accept\<rparr>"
      "demo_mail\<lparr>smData := (''hel'', Some (Opaque ''input/output error''))\<rparr>" "Opaque ''input/output error''" demo_smtp_route]
  by (auto simp: demo_mail_def ContainsAny_def CR_def LF_def split: prod.splits)

end
