(* ===== verification/Delivery_Attempt.thy ===== *)
theory Delivery_Attempt
  imports Delivery Smarthost_Properties Spool_Fates
begin

text \<open>
  What one attempt does to the message it was made for: it is settled exactly once, whatever the
  smarthost, the file system and the journal do.
\<close>

section \<open>What the spool operations do to the two indexes\<close>

text \<open>\<open>settles i s s'\<close>: only message \<open>i\<close> changed, and its lease is gone.\<close>

definition settles :: "id \<Rightarrow> spool \<Rightarrow> spool \<Rightarrow> bool" where
  "settles i s s' \<longleftrightarrow> leased s' = leased s - {i} \<and> (\<forall>j. j \<noteq> i \<longrightarrow> index s' j = index s j \<and> fIndex s' j = fIndex s j)"

lemma Remove_settles:
  assumes "Valid i"
  shows "settles i s (snd (Remove i s)) \<and> index (snd (Remove i s)) i = None \<and> fIndex (snd (Remove i s)) = fIndex s"
proof -
  obtain e s' where r: "Remove i s = (e, s')" by fastforce
  define s2 where "s2 = (dropLocked i s)\<lparr>leased := leased s - {i}\<rparr>"
  obtain e3 s3 where c3: "removeRetry (dataPath i) s2 = (e3, s3)" by fastforce
  obtain e4 s4 where c4: "removeRetry (metaPath i) s3 = (e4, s4)" by fastforce
  obtain e5 s5 where c5: "os_sync s4 = (e5, s5)" by fastforce
  have "s' = s4 \<or> s' = s5"
    using r assms c3 c4 c5 by (auto simp: Remove_def Let_def s2_def [symmetric] split: option.splits)
  moreover have "same_memory s2 s3" "same_memory s3 s4" "same_memory s4 s5"
    using op_memory(5) [OF c3] op_memory(5) [OF c4] op_memory(4) [OF c5] by blast+
  moreover have "fIndex s2 = fIndex s" by (simp add: s2_def)
  ultimately have "fIndex s' = fIndex s" by (auto simp: same_memory_def)
  then show ?thesis using Remove_result(1) [OF r assms] by (simp add: r settles_def)
qed

lemma Fail_settles:
  "settles (mID m) s (snd (Fail m reason s)) \<and> index (snd (Fail m reason s)) (mID m) = None \<and>
   fIndex (snd (Fail m reason s)) (mID m) \<noteq> None"
proof -
  obtain e s' where r: "Fail m reason s = (e, s')" by fastforce
  obtain n where "index s' = (index s)(mID m := None)" "leased s' = leased s - {mID m}"
    "fIndex s' = (fIndex s)(mID m \<mapsto> \<lparr>feSize = n, feAt = clock s\<rparr>)"
    using Fail_memory [OF r] by blast
  then show ?thesis by (simp add: r settles_def)
qed

lemma Release_settles:
  assumes "Valid (mID m)"
  shows "settles (mID m) s (snd (Release m s)) \<and> fIndex (snd (Release m s)) = fIndex s \<and>
    (\<exists>c. index (snd (Release m s)) (mID m) = Some c \<and> mID c = mID m \<and> mAttempts c = mAttempts m \<and> mExpires c = mExpires m \<and>
       mNextAttempt m \<le> mNextAttempt c \<and> (fst (Release m s) = None \<longrightarrow> mNextAttempt c = mNextAttempt m))"
proof -
  obtain e m' s1 where w: "writeMeta m s = (e, m', s1)" by (rule prod_cases3)
  have m': "m' = m\<lparr>mEnvelope := normalizeKind (mEnvelope m)\<rparr>"
    using w assms by (auto simp: writeMeta_def Let_def split: sum.splits prod.splits option.splits)
  have mem: "index s1 = index s" "fIndex s1 = fIndex s" "leased s1 = leased s"
    using op_memory(8) [OF w] by (simp_all add: same_memory_def)
  define floor where "floor = clock s1 + releaseRetryDelay"
  define c where "c = (if e \<noteq> None \<and> mNextAttempt m' < floor then m'\<lparr>mNextAttempt := floor\<rparr> else m')"
  have r: "Release m s = (e, (putLocked c s1)\<lparr>leased := leased (putLocked c s1) - {mID m}\<rparr>)"
    by (simp add: Release_def w Let_def c_def floor_def)
  have c: "mID c = mID m" "mAttempts c = mAttempts m" "mExpires c = mExpires m" "mNextAttempt m \<le> mNextAttempt c"
    "e = None \<longrightarrow> mNextAttempt c = mNextAttempt m"
    by (simp_all add: c_def m')
  show ?thesis using c mem by (simp add: r settles_def putLocked_def)
qed

lemma Defer_settles:
  "settles (mID m) s (Defer m u s) \<and> fIndex (Defer m u s) = fIndex s \<and>
   index (Defer m u s) (mID m) = map_option (\<lambda>c. c\<lparr>mNextAttempt := u\<rparr>) (index s (mID m))"
  by (cases "index s (mID m)") (simp_all add: Defer_def settles_def)

lemma OpenBody_memory: "OpenBody i s = (r, s') \<Longrightarrow> same_memory s s'"
  using op_memory(3) [of "dataPath i" s] by (auto simp: OpenBody_def same_memory_def split: if_splits)

lemma settles_same: "same_memory s s1 \<Longrightarrow> settles i s1 s2 \<Longrightarrow> settles i s s2"
  by (simp add: settles_def same_memory_def)

section \<open>What the bookkeeping leaves alone\<close>

definition same_queue :: "'j dstate \<Rightarrow> 'j dstate \<Rightarrow> bool" where
  "same_queue s s' \<longleftrightarrow> dsSpool s' = dsSpool s \<and> dsFlight s' = dsFlight s \<and> dsBusy s' = dsBusy s \<and> dsReported s' = dsReported s \<and>
     dsPanicked s' = dsPanicked s"

lemma same_queue_refl [simp]: "same_queue s s" by (simp add: same_queue_def)
lemma same_queue_trans: "same_queue a b \<Longrightarrow> same_queue b c \<Longrightarrow> same_queue a c" by (simp add: same_queue_def)
lemma same_queue_tally [simp]: "same_queue a (tally c n s) = same_queue a s" by (simp add: same_queue_def tally_def)
lemma same_queue_now [simp]: "same_queue s (snd (m_now s))" by (simp add: same_queue_def m_now_def split: list.split)
lemma same_queue_now': "m_now s = (t, s') \<Longrightarrow> same_queue s s'" using same_queue_now [of s] by simp

lemma same_queue_outcome [simp]: "same_queue s (recordOutcome m oc err s)"
  by (simp add: recordOutcome_def Let_def split: outcome.split)

lemma same_queue_journal [simp]: "same_queue s (journal_attempt mn m code resp cls nxt s)"
  by (simp add: journal_attempt_def split: prod.split option.split) (simp add: same_queue_def)

lemma spool_of: "same_queue s s' \<Longrightarrow> dsSpool s' = dsSpool s"
  by (simp add: same_queue_def)

lemmas spool_simps [simp] = spool_of [OF same_queue_outcome] spool_of [OF same_queue_journal] spool_of [OF same_queue_now]

section \<open>The fate of a message\<close>

definition gone :: "id \<Rightarrow> spool \<Rightarrow> spool \<Rightarrow> bool" where
  "gone i s s' \<longleftrightarrow> index s' i = None \<and> fIndex s' = fIndex s"

definition moved :: "id \<Rightarrow> spool \<Rightarrow> bool" where
  "moved i s' \<longleftrightarrow> index s' i = None \<and> fIndex s' i \<noteq> None"

lemma fail_message_settles:
  "settles (mID m) (dsSpool s) (dsSpool (fail_message mn m cls code resp reason s)) \<and>
   moved (mID m) (dsSpool (fail_message mn m cls code resp reason s))"
  using Fail_settles [of m "dsSpool s" reason] by (simp add: fail_message_def Let_def moved_def)

lemma failUnsendable_settles:
  "settles (mID m) (dsSpool s) (dsSpool (failUnsendable mn m reason s)) \<and> moved (mID m) (dsSpool (failUnsendable mn m reason s))"
  using fail_message_settles [of "m\<lparr>mAttempts := mAttempts m + 1\<rparr>" "recordOutcome (m\<lparr>mAttempts := mAttempts m + 1\<rparr>) outcomeBounced None s"]
  by (simp add: failUnsendable_def Let_def)

text \<open>A temporary failure at a time at which the message has not expired.\<close>

lemma deferRetry_settles:
  assumes "Valid (mID m)" "backoff (mnCfg mn) (mAttempts m) = Some delay" "m_now s = (now, s1)"
  shows "settles (mID m) (dsSpool s) (dsSpool (deferRetry mn m err s)) \<and> fIndex (dsSpool (deferRetry mn m err s)) = fIndex (dsSpool s) \<and>
    (\<exists>c. index (dsSpool (deferRetry mn m err s)) (mID m) = Some c \<and> mID c = mID m \<and> mAttempts c = mAttempts m \<and>
       mExpires c = mExpires m \<and> min (now + delay) (mExpires m) \<le> mNextAttempt c)"
proof -
  define m1 where "m1 = m\<lparr>mLastError := attempt_err_text err,
    mNextAttempt := (if now + delay > mExpires m then mExpires m else now + delay)\<rparr>"
  obtain code resp where c: "extractSMTPError err = (code, resp)" by fastforce
  have "dsSpool (deferRetry mn m err s) = snd (Release m1 (dsSpool s))"
    using spool_of [OF same_queue_now' [OF assms(3)]] by (simp add: deferRetry_def assms(2,3) Let_def c m1_def)
  moreover have "mID m1 = mID m" "mAttempts m1 = mAttempts m" "mExpires m1 = mExpires m" "mNextAttempt m1 = min (now + delay) (mExpires m)"
    by (simp_all add: m1_def min_def)
  ultimately show ?thesis using Release_settles [of m1 "dsSpool s"] assms(1) by (auto simp: min.commute)
qed

lemma hold_settles:
  "settles (mID m) (dsSpool s) (dsSpool (hold m d s)) \<and> fIndex (dsSpool (hold m d s)) = fIndex (dsSpool s) \<and>
   (index (dsSpool s) (mID m) \<noteq> None \<longrightarrow> index (dsSpool (hold m d s)) (mID m) \<noteq> None)"
proof -
  obtain now s1 where n: "m_now s = (now, s1)" by fastforce
  have "dsSpool s1 = dsSpool s" using spool_of [OF same_queue_now' [OF n]] .
  then show ?thesis using Defer_settles [of m] by (simp add: hold_def n Let_def)
qed

lemma backoff_Some:
  assumes "RetryScheduleMin (cQueue cfg) \<noteq> []"
  shows "\<exists>i d. backoff cfg n = Some d \<and> i < length (RetryScheduleMin (cQueue cfg)) \<and>
    d = i64 (RetryScheduleMin (cQueue cfg) ! i * minute)"
proof -
  let ?l = "int (length (RetryScheduleMin (cQueue cfg)))"
  define i1 where "i1 = (if n - 1 < 0 then 0 else n - 1)"
  define i where "i = (if i1 \<ge> ?l then ?l - 1 else i1)"
  have "0 < ?l" using assms by simp
  then have "0 \<le> i" "i < ?l" by (auto simp: i_def i1_def)
  moreover have "backoff cfg n = (if i < 0 then None else Some (i64 (RetryScheduleMin (cQueue cfg) ! nat i * minute)))"
    unfolding backoff_def Let_def i_def i1_def ..
  ultimately show ?thesis by (intro exI [of _ "nat i"]) simp
qed

lemma record_attempt_settles:
  assumes "Valid (mID m)" "RetryScheduleMin (cQueue (mnCfg mn)) \<noteq> []" "s' = record_attempt mn m res s"
  shows "settles (mID m) (dsSpool s) (dsSpool s') \<and>
    (case arErr res of
       None \<Rightarrow> gone (mID m) (dsSpool s) (dsSpool s')
     | Some e \<Rightarrow> index (dsSpool s') (mID m) \<noteq> None \<or> fIndex (dsSpool s') (mID m) \<noteq> None)"
proof (cases "arErr res")
  case None
  then show ?thesis using assms Remove_settles [OF assms(1), of "dsSpool s"] by (simp add: record_attempt_def Let_def gone_def)
next
  case (Some err)
  obtain code resp where c: "extractSMTPError err = (code, resp)" by fastforce
  obtain now s1 where n: "m_now s = (now, s1)" by fastforce
  have s1: "dsSpool s1 = dsSpool s" using spool_of [OF same_queue_now' [OF n]] .
  obtain delay where d: "backoff (mnCfg mn) (mAttempts m) = Some delay" using backoff_Some [OF assms(2)] by blast
  obtain now2 s2 where n2: "m_now s1 = (now2, s2)" by fastforce
  consider "isPermanent err" | "\<not> isPermanent err" "now > mExpires m" | "\<not> isPermanent err" "\<not> now > mExpires m" by blast
  then show ?thesis
  proof cases
    case 1
    then show ?thesis using assms(3) Some c fail_message_settles [of m "recordOutcome m outcomeBounced (Some err) s"]
      by (simp add: record_attempt_def moved_def)
  next
    case 2
    then show ?thesis using assms(3) Some c n s1 fail_message_settles [of m "recordOutcome m outcomeBounced (Some err) s1"]
      by (simp add: record_attempt_def moved_def)
  next
    case 3
    then have "s' = deferRetry mn m err s1" using assms(3) Some n by (simp add: record_attempt_def)
    then show ?thesis using deferRetry_settles [OF assms(1) d n2, of err] s1 Some by auto
  qed
qed

section \<open>Where the body is\<close>

text \<open>While a message is not delivered its body stays on disk, in the queue or in the failed store.\<close>

definition keeps_body :: "id \<Rightarrow> spool \<Rightarrow> spool \<Rightarrow> bool" where
  "keeps_body i s s' \<longleftrightarrow> (\<forall>b. files s (dataPath i) = Some b \<longrightarrow> body_somewhere s' i b)"

lemma keeps_body_touches: "touches P s s1 \<Longrightarrow> dataPath i \<notin> P \<Longrightarrow> files s2 = files s1 \<Longrightarrow> keeps_body i s s2"
  using touches_other [of P s s1 "dataPath i"] by (simp add: keeps_body_def body_somewhere_def)

lemma keeps_body_after: "touches P s s1 \<Longrightarrow> dataPath i \<notin> P \<Longrightarrow> keeps_body i s1 s2 \<Longrightarrow> keeps_body i s s2"
  using touches_other [of P s s1 "dataPath i"] by (simp add: keeps_body_def)

lemma OpenBody_touches: "OpenBody i s = (r, s') \<Longrightarrow> touches {} s s'"
  by (auto simp: OpenBody_def dest: os_read_touches split: if_splits)

lemma Release_keeps_body: "keeps_body (mID m) s (snd (Release m s))"
proof -
  obtain e m' s1 where w: "writeMeta m s = (e, m', s1)" by (rule prod_cases3)
  then have "files (snd (Release m s)) = files s1" by (simp add: Release_def Let_def putLocked_def)
  then show ?thesis by (intro keeps_body_touches [OF writeMeta_touches [OF w]]) simp_all
qed

lemma Defer_keeps_body: "keeps_body i s (Defer m u s)"
  by (auto simp: keeps_body_def body_somewhere_def Defer_def Let_def putLocked_def split: option.split)

lemma fail_move_keeps_body:
  assumes "fail_move (dataPath i) (failedPath i ''.eml'') e s = (e', s')"
  shows "keeps_body i s s'"
proof -
  obtain r where r: "renameRetry (dataPath i) (failedPath i ''.eml'') s = (r, s')"
    using assms by (auto simp: fail_move_def split: prod.splits)
  show ?thesis
    using renameRetry_result [OF r] by (cases r) (auto simp: keeps_body_def body_somewhere_def)
qed

lemma Fail_keeps_body: "keeps_body (mID m) s (snd (Fail m reason s))"
proof -
  let ?i = "mID m"
  obtain e1 m1 s1 where c1: "writeMeta (m\<lparr>mLastError := reason\<rparr>) s = (e1, m1, s1)" by (metis prod_cases3)
  define s3 where "s3 = (dropLocked ?i s1)\<lparr>leased := leased s1 - {?i}\<rparr>"
  obtain e4 s4 where c4: "fail_move (metaPath ?i) (failedPath ?i ''.json'') None s3 = (e4, s4)" by fastforce
  obtain r5 s5 where c5: "os_read (dataPath ?i) s4 = (r5, s5)" by fastforce
  obtain e6 s6 where c6: "fail_move (dataPath ?i) (failedPath ?i ''.eml'') e4 s5 = (e6, s6)" by fastforce
  define s7 where "s7 = failed_put ?i \<lparr>feSize = (case r5 of Inr f \<Rightarrow> content_length (content f) | Inl _ \<Rightarrow> 0), feAt = clock s6\<rparr> s6"
  obtain e8 s8 where c8: "os_sync s7 = (e8, s8)" by fastforce
  have "mID m1 = ?i" using writeMeta_mID [OF c1] by simp
  then have "snd (Fail m reason s) = (if e6 = None then s8 else s7)"
    using c1 c4 c5 c6 c8 by (auto simp: Fail_def Let_def s3_def [symmetric] s7_def [symmetric] split: option.splits)
  moreover have "files s7 = files s6" "files s8 = files s7" using os_sync_result [OF c8] by (simp_all add: s7_def)
  ultimately have f: "files (snd (Fail m reason s)) = files s6" by simp
  have d1: "files s1 (dataPath ?i) = files s (dataPath ?i)" by (rule touches_other [OF writeMeta_touches [OF c1]]) simp
  have d3: "files s3 = files s1" by (simp add: s3_def)
  have d4: "files s4 (dataPath ?i) = files s3 (dataPath ?i)" by (rule touches_other [OF fail_move_touches [OF c4]]) simp
  have d5: "files s5 (dataPath ?i) = files s4 (dataPath ?i)" by (rule touches_other [OF os_read_touches [OF c5]]) simp
  show ?thesis using fail_move_keeps_body [OF c6] d1 d3 d4 d5 by (simp add: keeps_body_def body_somewhere_def f)
qed

lemma fail_message_keeps_body: "keeps_body (mID m) (dsSpool s) (dsSpool (fail_message mn m cls code resp reason s))"
  using Fail_keeps_body [of m "dsSpool s" reason] by (simp add: fail_message_def Let_def)

lemma failUnsendable_keeps_body: "keeps_body (mID m) (dsSpool s) (dsSpool (failUnsendable mn m reason s))"
  using fail_message_keeps_body [of "m\<lparr>mAttempts := mAttempts m + 1\<rparr>" "recordOutcome (m\<lparr>mAttempts := mAttempts m + 1\<rparr>) outcomeBounced None s"]
  by (simp add: failUnsendable_def Let_def)

lemma hold_keeps_body: "keeps_body i (dsSpool s) (dsSpool (hold m d s))"
  using spool_simps(3) [of s] Defer_keeps_body [of i "dsSpool s" m] by (simp add: hold_def Let_def case_prod_unfold)

lemma deferRetry_keeps_body: "keeps_body (mID m) (dsSpool s) (dsSpool (deferRetry mn m err s))"
proof (cases "backoff (mnCfg mn) (mAttempts m)")
  case (Some delay)
  obtain now s1 where n: "m_now s = (now, s1)" by fastforce
  have s1: "dsSpool s1 = dsSpool s" using spool_of [OF same_queue_now' [OF n]] .
  have "keeps_body (mID m) (dsSpool s) (snd (Release x (dsSpool s)))" if "mID x = mID m" for x
    using Release_keeps_body [of x "dsSpool s"] that by simp
  then show ?thesis using s1 by (simp add: deferRetry_def Some n Let_def split: prod.split)
qed (simp add: deferRetry_def keeps_body_def body_somewhere_def)

text \<open>A delivered message leaves a pair that the next start would index only where the process died, or every
  retry of both unlinks failed.\<close>

lemma record_attempt_disk:
  assumes "Valid (mID m)" "s' = record_attempt mn m res s"
  shows "case arErr res of
      None \<Rightarrow> queued_on_disk (files (dsSpool s')) (mID m) \<noteq> None \<longrightarrow> dead (dsSpool s') \<or> hits (dsSpool s) \<ge> 10
    | Some e \<Rightarrow> keeps_body (mID m) (dsSpool s) (dsSpool s')"
proof (cases "arErr res")
  case None
  obtain e sp where r: "Remove (mID m) (dsSpool s) = (e, sp)" by fastforce
  show ?thesis using None assms Remove_result(4) [OF r] r by (simp add: record_attempt_def Let_def)
next
  case (Some err)
  obtain code resp where c: "extractSMTPError err = (code, resp)" by fastforce
  obtain now s1 where n: "m_now s = (now, s1)" by fastforce
  have s1: "dsSpool s1 = dsSpool s" using spool_of [OF same_queue_now' [OF n]] .
  show ?thesis
    using fail_message_keeps_body [of m "recordOutcome m outcomeBounced (Some err) s"]
      fail_message_keeps_body [of m "recordOutcome m outcomeBounced (Some err) s1"] deferRetry_keeps_body [of m s1 mn err]
    by (simp add: assms(2) record_attempt_def Some c n s1)
qed

section \<open>One attempt\<close>

text \<open>What \<open>send\<close> makes of the outcome: delivered in any form is no error.\<close>

lemma send_cases:
  assumes "send mn rs pc m s = (r, c, s')" "cnLog (pcConn pc) = []"
  obtains (unreadable) "r = None" "c = pcConn pc" "settles (mID m) (dsSpool s) (dsSpool s')" "moved (mID m) (dsSpool s')"
      "keeps_body (mID m) (dsSpool s) (dsSpool s')"
  | (offered) res where "r = Some res" "touches {} (dsSpool s) (dsSpool s')"
      "(arErr res = None) = (answered c Dot \<and> pcRead pc = None)"
proof (cases "OpenBody (mID m) (dsSpool s)")
  case (Pair o1 sp)
  note mem = OpenBody_memory [OF Pair] and tch = OpenBody_touches [OF Pair]
  show thesis
  proof (cases o1)
    case (Inl e)
    then have "s' = failUnsendable mn m ''message body unreadable'' (s\<lparr>dsSpool := sp\<rparr>)" "r = None" "c = pcConn pc"
      using assms(1) Pair by (simp_all add: send_def)
    moreover have "keeps_body (mID m) (dsSpool s) (dsSpool (failUnsendable mn m ''message body unreadable'' (s\<lparr>dsSpool := sp\<rparr>)))"
      using failUnsendable_keeps_body [of m "s\<lparr>dsSpool := sp\<rparr>"] by (intro keeps_body_after [OF tch]) simp_all
    ultimately show thesis
      using unreadable failUnsendable_settles [of m "s\<lparr>dsSpool := sp\<rparr>" mn "''message body unreadable''"] settles_same [OF mem] by simp
  next
    case (Inr f)
    let ?msg = "message_of mn m (pcRead pc) (content_bytes (content f))"
    obtain err c1 where d: "Deliver (mnDecode mn) (rsCfg rs) (rsTLS rs) ?msg (pcTokens pc) (pcConn pc) = (err, c1)" by fastforce
    have a: "delivered err = (answered c1 Dot \<and> pcRead pc = None)"
    proof (cases "pcRead pc")
      case None
      then have "snd (smData ?msg) = None" by (simp add: message_of_def)
      then show ?thesis using dialogue_outcome [OF assms(2) _ d] None by blast
    next
      case (Some p)
      then have "snd (smData ?msg) \<noteq> None" by (auto simp: message_of_def split: prod.split)
      then show ?thesis using broken_read_undelivered [OF d] Some by simp
    qed
    have "\<exists>res. r = Some res \<and> c = c1 \<and> (arErr res = None) = delivered err \<and> dsSpool s' = sp"
      using assms(1) Pair Inr d
      by (auto simp: send_def Let_def tally_def split: option.splits attempt_err.splits)
    then show thesis using offered a tch by auto
  qed
qed

text \<open>C23: No message is lost by an attempt. After an attempt at a leased message, on any smarthost, with any failing
  file operations and any journal, the lease is given back and no other message is touched. If the
  smarthost accepted the end of a message whose body could be read to its end, the message has left the
  queue, the failed store is as it was, and a pair that a restart would offer again is left on disk only
  where the process died or at least ten file operations were due to fail (both unlinks, with all their
  retries). In every other case the message is still queued or in the failed store, and its body is still
  on disk, in the queue or in spool/failed. The accepted end of a body whose reading failed is one of these
  other cases: the smarthost has a truncated message, and the relay offers it again.\<close>

theorem attempt_settles_the_message:
  assumes "Valid (mID m)" and "index (dsSpool s) (mID m) \<noteq> None" and "RetryScheduleMin (cQueue (mnCfg mn)) \<noteq> []"
    and "cnLog (pcConn pc) = []" and "attempt mn rs pc m s = (c, s')"
  shows "settles (mID m) (dsSpool s) (dsSpool s') \<and>
    (if answered c Dot \<and> pcRead pc = None
     then gone (mID m) (dsSpool s) (dsSpool s') \<and>
       (queued_on_disk (files (dsSpool s')) (mID m) \<noteq> None \<longrightarrow> dead (dsSpool s') \<or> hits (dsSpool s) \<ge> 10)
     else (index (dsSpool s') (mID m) \<noteq> None \<or> fIndex (dsSpool s') (mID m) \<noteq> None) \<and>
       (\<forall>b. files (dsSpool s) (dataPath (mID m)) = Some b \<longrightarrow> body_somewhere (dsSpool s') (mID m) b))"
proof -
  obtain r c1 s1 where sd: "send mn rs pc m s = (r, c1, s1)" by (rule prod_cases3)
  from sd assms(4) show ?thesis
  proof (cases rule: send_cases)
    case unreadable
    then have "c = pcConn pc" "s' = s1" using assms(5) sd by (simp_all add: attempt_def)
    then show ?thesis using unreadable assms(4) by (auto simp: answered_def moved_def keeps_body_def)
  next
    case (offered res)
    note mem = touches_memory [OF offered(2)]
    show ?thesis
    proof (cases "arErr res \<noteq> None \<and> pcGone pc")
      case True
      then have "c = c1" "s' = hold m 0 s1" using assms(5) sd offered(1) by (simp_all add: attempt_def attempt_record_def)
      moreover have "keeps_body (mID m) (dsSpool s) (dsSpool (hold m 0 s1))"
        by (rule keeps_body_after [OF offered(2) _ hold_keeps_body]) simp
      ultimately show ?thesis using True offered(3) hold_settles [of m s1 0] settles_same [OF mem] mem assms(2)
        by (auto simp: same_memory_def keeps_body_def)
    next
      case False
      let ?m = "m\<lparr>mAttempts := mAttempts m + 1\<rparr>"
      have e: "c = c1" "s' = record_attempt mn ?m res s1" using assms(5) sd offered(1) False by (auto simp: attempt_def attempt_record_def split: if_splits)
      have v: "Valid (mID ?m)" using assms(1) by simp
      have f: "fIndex (dsSpool s1) = fIndex (dsSpool s)" using mem by (simp add: same_memory_def)
      have h: "hits (dsSpool s1) \<le> hits (dsSpool s)" by (rule touches_hits [OF offered(2)])
      note k = record_attempt_settles [OF v assms(3) e(2)] record_attempt_disk [OF v e(2)]
      show ?thesis
      proof (cases "arErr res")
        case None
        then show ?thesis using k offered(3) settles_same [OF mem] f h e(1) by (auto simp: gone_def)
      next
        case (Some x)
        then have "keeps_body (mID m) (dsSpool s) (dsSpool s')" using k(2) by (intro keeps_body_after [OF offered(2)]) simp_all
        then show ?thesis using Some k(1) offered(3) settles_same [OF mem] e(1) by (auto simp: keeps_body_def)
      qed
    qed
  qed
qed

end
