(* ===== verification/Delivery_Retry.thy ===== *)
theory Delivery_Retry
  imports Delivery_Attempt
begin

text \<open>
  Retrying comes to an end. A message that fails at every attempt is tried a bounded number of times,
  at distances given by the schedule, and once its lifetime is over the next attempt settles it.
\<close>

text \<open>Failed attempts at one message: each is made when the message is due, and everything that reads the
  clock during it, the manager and the spool, reads the given time; an attempt before the message is due
  is not made.\<close>

definition at_time :: "instant \<Rightarrow> 'j dstate \<Rightarrow> 'j dstate" where
  "at_time t s = s\<lparr>dsSpool := (dsSpool s)\<lparr>clock := t\<rparr>, dsTimes := [t, t]\<rparr>"

fun retry_run :: "'j Manager \<Rightarrow> id \<Rightarrow> (instant \<times> attempt_err) list \<Rightarrow> 'j dstate \<Rightarrow> nat \<times> 'j dstate" where
  "retry_run mn i [] s = (0, s)"
| "retry_run mn i ((t, err) # es) s =
     (case index (dsSpool s) i of
        None \<Rightarrow> (0, s)
      | Some m \<Rightarrow>
          if mNextAttempt m > t then retry_run mn i es s
          else (case retry_run mn i es (record_attempt mn (m\<lparr>mAttempts := mAttempts m + 1\<rparr>)
                       \<lparr>arErr = Some err, partialCode = 0, partialResponse = []\<rparr> (at_time t s)) of
                  (n, s') \<Rightarrow> (n + 1, s')))"

lemma Release_next:
  assumes "Valid (mID m)" "index (snd (Release m s)) (mID m) = Some c"
  shows "mNextAttempt c \<le> max (mNextAttempt m) (clock s + minute)"
proof -
  obtain e m' s1 where w: "writeMeta m s = (e, m', s1)" by (rule prod_cases3)
  have m': "m' = m\<lparr>mEnvelope := normalizeKind (mEnvelope m)\<rparr>"
    using w assms(1) by (auto simp: writeMeta_def Let_def split: sum.splits prod.splits option.splits)
  have clock: "clock s1 = clock s" using op_memory(8) [OF w] by (simp add: same_memory_def)
  define c1 where "c1 = (if e \<noteq> None \<and> mNextAttempt m' < clock s1 + releaseRetryDelay then m'\<lparr>mNextAttempt := clock s1 + releaseRetryDelay\<rparr> else m')"
  have r: "Release m s = (e, (putLocked c1 s1)\<lparr>leased := leased (putLocked c1 s1) - {mID m}\<rparr>)"
    by (simp add: Release_def w Let_def c1_def)
  have i: "mID c1 = mID m" by (simp add: c1_def m')
  then have "c = c1" using assms(2) by (simp add: r putLocked_def)
  then show "mNextAttempt c \<le> max (mNextAttempt m) (clock s + minute)" by (simp add: c1_def m' clock releaseRetryDelay_def)
qed

text \<open>One failed attempt.\<close>

definition failed_attempt :: "'j Manager \<Rightarrow> meta \<Rightarrow> attempt_err \<Rightarrow> instant \<Rightarrow> 'j dstate \<Rightarrow> 'j dstate" where
  "failed_attempt mn m err t s = record_attempt mn (m\<lparr>mAttempts := mAttempts m + 1\<rparr>)
     \<lparr>arErr = Some err, partialCode = 0, partialResponse = []\<rparr> (at_time t s)"

lemma failed_attempt_moves:
  assumes "isPermanent err \<or> t > mExpires m"
  shows "moved (mID m) (dsSpool (failed_attempt mn m err t s))"
proof -
  let ?m = "m\<lparr>mAttempts := mAttempts m + 1\<rparr>"
  obtain code resp where c: "extractSMTPError err = (code, resp)" by fastforce
  have e: "moved (mID m) (dsSpool (fail_message mn ?m cls code resp reason u))" for cls reason u
    using fail_message_settles [of ?m u mn cls code resp reason] by simp
  show ?thesis
  proof (cases "isPermanent err")
    case True
    then show ?thesis by (simp add: failed_attempt_def record_attempt_def c e)
  next
    case False
    then have "t > mExpires m" using assms by blast
    then show ?thesis using False by (simp add: failed_attempt_def at_time_def record_attempt_def m_now_def c e)
  qed
qed

lemmas failed_attempt_ends = failed_attempt_moves [unfolded moved_def, THEN conjunct1]

lemma failed_attempt_defers:
  assumes "\<not> isPermanent err" "t \<le> mExpires m" "Valid (mID m)" "backoff (mnCfg mn) (mAttempts m + 1) = Some delay"
  shows "\<exists>c. index (dsSpool (failed_attempt mn m err t s)) (mID m) = Some c \<and> mID c = mID m \<and> mExpires c = mExpires m \<and>
    min (t + delay) (mExpires m) \<le> mNextAttempt c \<and> mNextAttempt c \<le> max (mExpires m) (t + minute)"
proof -
  let ?m = "m\<lparr>mAttempts := mAttempts m + 1\<rparr>" and ?sp = "(dsSpool s)\<lparr>clock := t\<rparr>"
  let ?s = "s\<lparr>dsSpool := ?sp, dsTimes := [t], dsLast := t\<rparr>"
  have n: "m_now ?s = (t, s\<lparr>dsSpool := ?sp, dsTimes := [], dsLast := t\<rparr>)" by (simp add: m_now_def)
  have f: "failed_attempt mn m err t s = deferRetry mn ?m err ?s"
    using assms(1,2) by (simp add: failed_attempt_def at_time_def record_attempt_def m_now_def)
  obtain c where c: "index (dsSpool (deferRetry mn ?m err ?s)) (mID m) = Some c" "mID c = mID m" "mExpires c = mExpires m"
    "min (t + delay) (mExpires m) \<le> mNextAttempt c"
    using deferRetry_settles [of ?m mn delay ?s t _ err] assms(3,4) n by auto
  obtain code resp where x: "extractSMTPError err = (code, resp)" by fastforce
  define m1 where "m1 = ?m\<lparr>mLastError := attempt_err_text err,
    mNextAttempt := (if t + delay > mExpires m then mExpires m else t + delay)\<rparr>"
  have d: "dsSpool (deferRetry mn ?m err ?s) = snd (Release m1 ?sp)"
    using assms(4) by (simp add: deferRetry_def n Let_def x m1_def)
  have m1: "mID m1 = mID m" "mNextAttempt m1 \<le> mExpires m" by (simp_all add: m1_def)
  have "mNextAttempt c \<le> max (mNextAttempt m1) (t + minute)"
    using Release_next [of m1 ?sp c] c(1) assms(3) m1(1) d by simp
  then show ?thesis using c m1(2) unfolding f by (intro exI [of _ c]) auto
qed

lemma retry_run_step:
  "retry_run mn i ((t, err) # es) s =
     (case index (dsSpool s) i of
        None \<Rightarrow> (0, s)
      | Some m \<Rightarrow>
          if mNextAttempt m > t then retry_run mn i es s
          else (case retry_run mn i es (failed_attempt mn m err t s) of (n, s') \<Rightarrow> (n + 1, s')))"
  by (simp add: failed_attempt_def split: option.split)

lemma retry_run_gone: "index (dsSpool s) i = None \<Longrightarrow> retry_run mn i es s = (0, s)"
  by (cases es) auto

declare retry_run.simps(2) [simp del]

text \<open>The schedule waits at least \<open>d\<close> between two attempts.\<close>

definition waits :: "'j Manager \<Rightarrow> duration \<Rightarrow> bool" where
  "waits mn d \<longleftrightarrow> 0 < d \<and> RetryScheduleMin (cQueue (mnCfg mn)) \<noteq> [] \<and>
     (\<forall>x \<in> set (RetryScheduleMin (cQueue (mnCfg mn))). d \<le> i64 (x * minute))"

lemma waits_backoff:
  assumes "waits mn d"
  shows "\<exists>delay. backoff (mnCfg mn) n = Some delay \<and> d \<le> delay"
  using assms backoff_Some [of "mnCfg mn" n] unfolding waits_def by fastforce

text \<open>The last attempts: once the lifetime is over there is one, and at its very end at most one more.\<close>

lemma retry_last:
  assumes "waits mn d" "Valid i"
  shows "index (dsSpool s) i = Some m \<Longrightarrow> mID m = i \<Longrightarrow> sorted_wrt (<) (map fst es) \<Longrightarrow> \<forall>(t, e) \<in> set es. mExpires m < t \<Longrightarrow>
    fst (retry_run mn i es s) \<le> 1"
proof (induction es arbitrary: s m)
  case (Cons x es)
  obtain t err where x: "x = (t, err)" by fastforce
  show ?case
  proof (cases "mNextAttempt m > t")
    case True
    then show ?thesis using Cons.IH [OF Cons.prems(1,2)] Cons.prems by (simp add: x retry_run_step)
  next
    case False
    have "index (dsSpool (failed_attempt mn m err t s)) i = None"
      using failed_attempt_ends [of err m t mn s] Cons.prems by (simp add: x)
    then show ?thesis using Cons.prems(1) False by (simp add: x retry_run_step retry_run_gone)
  qed
qed simp

lemma retry_end:
  assumes "waits mn d" "Valid i"
  shows "index (dsSpool s) i = Some m \<Longrightarrow> mID m = i \<Longrightarrow> sorted_wrt (<) (map fst es) \<Longrightarrow> mExpires m \<le> mNextAttempt m \<Longrightarrow>
    fst (retry_run mn i es s) \<le> 2"
proof (induction es arbitrary: s m)
  case (Cons x es)
  obtain t err where x: "x = (t, err)" by fastforce
  show ?case
  proof (cases "mNextAttempt m > t")
    case True
    then show ?thesis using Cons.IH [OF Cons.prems(1,2)] Cons.prems by (simp add: x retry_run_step)
  next
    case False
    show ?thesis
    proof (cases "isPermanent err \<or> t > mExpires m")
      case True
      have "index (dsSpool (failed_attempt mn m err t s)) i = None" using failed_attempt_ends [OF True, of mn s] Cons.prems(2) by simp
      then show ?thesis using Cons.prems(1) False by (simp add: x retry_run_step retry_run_gone)
    next
      case live: False
      obtain delay where "backoff (mnCfg mn) (mAttempts m + 1) = Some delay" using waits_backoff [OF assms(1)] by blast
      then obtain c where c: "index (dsSpool (failed_attempt mn m err t s)) i = Some c" "mID c = i" "mExpires c = mExpires m"
        using failed_attempt_defers [of err t m mn delay s] live assms(2) Cons.prems(2) by auto
      have "\<forall>(u, e) \<in> set es. mExpires c < u" using Cons.prems(3,4) False c(3) by (auto simp: x)
      then have "fst (retry_run mn i es (failed_attempt mn m err t s)) \<le> 1"
        using retry_last [OF assms c(1,2)] Cons.prems(3) by simp
      then show ?thesis using Cons.prems(1) False
        by (cases "retry_run mn i es (failed_attempt mn m err t s)") (simp add: x retry_run_step)
    qed
  qed
qed simp

lemma retry_bound:
  assumes w: "waits mn d" "Valid i"
  shows "index (dsSpool s) i = Some m \<Longrightarrow> mID m = i \<Longrightarrow> sorted_wrt (<) (map fst es) \<Longrightarrow>
    int (fst (retry_run mn i es s)) \<le> max 0 ((mExpires m - mNextAttempt m) div d) + 3"
proof (induction es arbitrary: s m)
  case (Cons x es)
  obtain t err where x: "x = (t, err)" by fastforce
  show ?case
  proof (cases "mNextAttempt m > t")
    case True
    then show ?thesis using Cons.IH [OF Cons.prems(1,2)] Cons.prems by (simp add: x retry_run_step)
  next
    case False
    show ?thesis
    proof (cases "isPermanent err \<or> t > mExpires m")
      case True
      have "index (dsSpool (failed_attempt mn m err t s)) i = None" using failed_attempt_ends [OF True, of mn s] Cons.prems(2) by simp
      then show ?thesis using Cons.prems(1) False by (simp add: x retry_run_step retry_run_gone)
    next
      case live: False
      obtain delay where b: "backoff (mnCfg mn) (mAttempts m + 1) = Some delay" "d \<le> delay" using waits_backoff [OF w(1)] by blast
      let ?s = "failed_attempt mn m err t s"
      obtain c where c: "index (dsSpool ?s) i = Some c" "mID c = i" "mExpires c = mExpires m" "min (t + delay) (mExpires m) \<le> mNextAttempt c"
        using failed_attempt_defers [of err t m mn delay s] live w(2) Cons.prems(2) b(1) by auto
      have st: "fst (retry_run mn i (x # es) s) = fst (retry_run mn i es ?s) + 1"
        using Cons.prems(1) False by (simp add: x retry_run_step split: prod.split)
      have d: "0 < d" using w(1) by (simp add: waits_def)
      show ?thesis
      proof (cases "mExpires m \<le> mNextAttempt c")
        case True
        then have "fst (retry_run mn i es ?s) \<le> 2" using retry_end [OF w c(1,2)] Cons.prems(3) c(3) by simp
        then show ?thesis unfolding st by linarith
      next
        case more: False
        then have "mNextAttempt m + d \<le> mNextAttempt c" using c(4) b(2) False by (auto simp: min_def split: if_splits)
        then have "(mExpires m - mNextAttempt c) div d \<le> (mExpires m - mNextAttempt m + (- 1) * d) div d"
          using d by (intro zdiv_mono1) simp_all
        also have "\<dots> = (mExpires m - mNextAttempt m) div d - 1" using d by (subst div_mult_self1) simp_all
        finally have "(mExpires m - mNextAttempt c) div d + 1 \<le> (mExpires m - mNextAttempt m) div d" by simp
        moreover have "0 \<le> (mExpires m - mNextAttempt c) div d" using more d by (simp add: pos_imp_zdiv_nonneg_iff)
        moreover have "int (fst (retry_run mn i es ?s)) \<le> max 0 ((mExpires c - mNextAttempt c) div d) + 3"
          by (rule Cons.IH [OF c(1,2)]) (use Cons.prems(3) in simp)
        ultimately show ?thesis unfolding st c(3) by linarith
      qed
    qed
  qed
qed simp

lemma retry_settled:
  assumes w: "waits mn d" "Valid i"
  shows "index (dsSpool s) i = Some m \<Longrightarrow> mID m = i \<Longrightarrow> (t, err) \<in> set es \<Longrightarrow> sorted_wrt (<) (map fst es) \<Longrightarrow>
    mExpires m < t \<Longrightarrow> mNextAttempt m \<le> t \<Longrightarrow> \<forall>u \<in> fst ` set es. u < t \<longrightarrow> u + minute \<le> t \<Longrightarrow>
    index (dsSpool (snd (retry_run mn i es s))) i = None"
proof (induction es arbitrary: s m)
  case (Cons x es)
  obtain u e where x: "x = (u, e)" by fastforce
  show ?case
  proof (cases "mNextAttempt m > u")
    case True
    then have "(t, err) \<in> set es" using Cons.prems(3,6) x by auto
    then show ?thesis using Cons.IH [OF Cons.prems(1,2)] Cons.prems True by (simp add: x retry_run_step)
  next
    case False
    let ?s = "failed_attempt mn m e u s"
    have st: "snd (retry_run mn i (x # es) s) = snd (retry_run mn i es ?s)"
      using Cons.prems(1) False by (simp add: x retry_run_step split: prod.split)
    show ?thesis
    proof (cases "isPermanent e \<or> u > mExpires m")
      case True
      have "index (dsSpool ?s) i = None" using failed_attempt_ends [OF True, of mn s] Cons.prems(2) by simp
      then show ?thesis by (simp add: st retry_run_gone)
    next
      case live: False
      obtain delay where b: "backoff (mnCfg mn) (mAttempts m + 1) = Some delay" using waits_backoff [OF w(1)] by blast
      obtain c where c: "index (dsSpool ?s) i = Some c" "mID c = i" "mExpires c = mExpires m"
        "mNextAttempt c \<le> max (mExpires m) (u + minute)"
        using failed_attempt_defers [of e u m mn delay s] live w(2) Cons.prems(2) b by auto
      have "(t, err) \<in> set es" "u + minute \<le> t" using Cons.prems(3,5,7) live x by auto
      then show ?thesis unfolding st
        by (intro Cons.IH [OF c(1,2)]) (use Cons.prems c(3,4) in auto)
    qed
  qed
qed simp

text \<open>Leaving the queue without being delivered is moving to the failed store.\<close>

lemma retry_failed:
  assumes w: "waits mn d" "Valid i"
  shows "index (dsSpool s) i = Some m \<Longrightarrow> mID m = i \<Longrightarrow> index (dsSpool (snd (retry_run mn i es s))) i = None \<Longrightarrow>
    fIndex (dsSpool (snd (retry_run mn i es s))) i \<noteq> None"
proof (induction es arbitrary: s m)
  case (Cons x es)
  obtain u e where x: "x = (u, e)" by fastforce
  show ?case
  proof (cases "mNextAttempt m > u")
    case True
    then show ?thesis using Cons.IH [OF Cons.prems(1,2)] Cons.prems by (simp add: x retry_run_step)
  next
    case False
    let ?s = "failed_attempt mn m e u s"
    have st: "snd (retry_run mn i (x # es) s) = snd (retry_run mn i es ?s)"
      using Cons.prems(1) False by (simp add: x retry_run_step split: prod.split)
    show ?thesis
    proof (cases "isPermanent e \<or> u > mExpires m")
      case True
      have "moved i (dsSpool ?s)" using failed_attempt_moves [OF True, of mn s] Cons.prems(2) by simp
      then show ?thesis by (simp add: st moved_def retry_run_gone)
    next
      case live: False
      obtain delay where b: "backoff (mnCfg mn) (mAttempts m + 1) = Some delay" using waits_backoff [OF w(1)] by blast
      obtain c where "index (dsSpool ?s) i = Some c" "mID c = i"
        using failed_attempt_defers [of e u m mn delay s] live w(2) Cons.prems(2) b by auto
      then show ?thesis using Cons.IH Cons.prems(3) unfolding st by blast
    qed
  qed
qed simp

text \<open>C34: Retrying ends. A message that fails at every attempt it is due for is tried at most as often as
  the shortest wait of the schedule fits into the rest of its lifetime, and three times more; and an
  attempt after its lifetime that comes at least a minute after each attempt before it (the pause after an
  attempt whose next time the file system refused to note) takes it out of the queue, into the failed
  store. The clock of manager and spool stands still within one attempt.\<close>

theorem retries_come_to_an_end:
  assumes "waits mn d" and "Valid i" and "index (dsSpool s) i = Some m" and "mID m = i" and "sorted_wrt (<) (map fst es)"
  shows "int (fst (retry_run mn i es s)) \<le> max 0 ((mExpires m - mNextAttempt m) div d) + 3 \<and>
    (\<forall>(t, err) \<in> set es. mExpires m < t \<longrightarrow> mNextAttempt m \<le> t \<longrightarrow> (\<forall>(u, e) \<in> set es. u < t \<longrightarrow> u + minute \<le> t) \<longrightarrow>
       index (dsSpool (snd (retry_run mn i es s))) i = None \<and> fIndex (dsSpool (snd (retry_run mn i es s))) i \<noteq> None)"
proof -
  have "index (dsSpool (snd (retry_run mn i es s))) i = None \<and> fIndex (dsSpool (snd (retry_run mn i es s))) i \<noteq> None"
    if "(t, err) \<in> set es" "mExpires m < t" "mNextAttempt m \<le> t" "\<forall>(u, e) \<in> set es. u < t \<longrightarrow> u + minute \<le> t" for t err
  proof -
    have "\<forall>u \<in> fst ` set es. u < t \<longrightarrow> u + minute \<le> t" using that(4) by force
    from retry_settled [OF assms(1-4) that(1) assms(5) that(2,3) this] show ?thesis using retry_failed [OF assms(1-4)] by blast
  qed
  then show ?thesis using retry_bound [OF assms] by blast
qed

end
