(* ===== verification/Delivery_Dispatch.thy ===== *)
theory Delivery_Dispatch
  imports Delivery_Retry Spool_Properties "HOL-Library.Multiset"
begin

text \<open>
  The dispatcher and its workers side by side: every lease belongs to exactly one worker or to the batch
  in the dispatcher's hands, no route has more workers than slots, a cancelled pass gives back what it
  claimed, and a pass ends however the others interleave with it.
\<close>

section \<open>The scheduling decisions keep the workers\<close>

definition same_workers :: "'j dstate \<Rightarrow> 'j dstate \<Rightarrow> bool" where
  "same_workers s s' \<longleftrightarrow> dsFlight s' = dsFlight s \<and> dsBusy s' = dsBusy s"

lemma workers_refl [simp]: "same_workers s s" by (simp add: same_workers_def)
lemma workers_trans: "same_workers a b \<Longrightarrow> same_workers b c \<Longrightarrow> same_workers a c" by (simp add: same_workers_def)
lemma workers_queue: "same_queue s s' \<Longrightarrow> same_workers s s'" by (simp add: same_workers_def same_queue_def)

lemma workers_upd [simp]:
  "same_workers a (s\<lparr>dsSpool := sp\<rparr>) = same_workers a s" "same_workers a (s\<lparr>dsReported := r\<rparr>) = same_workers a s"
  "same_workers a (s\<lparr>dsRate := l\<rparr>) = same_workers a s" "same_workers a (s\<lparr>dsPanicked := b\<rparr>) = same_workers a s"
  "same_workers a (s\<lparr>dsCancel := c\<rparr>) = same_workers a s" "same_workers a (tally k n s) = same_workers a s"
  by (simp_all add: same_workers_def tally_def)

lemma workers_now [simp]: "same_workers a (snd (m_now s)) = same_workers a s"
  by (simp add: same_workers_def m_now_def split: list.split)

lemma workers_outcome [simp]: "same_workers a (recordOutcome m oc err s) = same_workers a s"
  using same_queue_outcome [of s m oc err] by (simp add: same_workers_def same_queue_def)

lemma workers_journal [simp]: "same_workers a (journal_attempt mn m code resp cls nxt s) = same_workers a s"
  using same_queue_journal [of s mn m code resp cls nxt] by (simp add: same_workers_def same_queue_def)

lemma workers_hold [simp]: "same_workers a (hold m d s) = same_workers a s"
  using workers_now [of a s] by (simp add: hold_def Let_def case_prod_unfold)

lemma workers_fail [simp]: "same_workers a (fail_message mn m cls code resp reason s) = same_workers a s"
  by (simp add: fail_message_def Let_def)

lemma workers_failUnsendable [simp]: "same_workers a (failUnsendable mn m reason s) = same_workers a s"
  by (simp add: failUnsendable_def Let_def)

lemma workers_defer [simp]: "same_workers a (deferRetry mn m err s) = same_workers a s"
  using workers_now [of a s] by (simp add: deferRetry_def Let_def case_prod_unfold split: option.split)

lemma workers_record [simp]: "same_workers a (record_attempt mn m res s) = same_workers a s"
  using workers_now [of a s] by (simp add: record_attempt_def Let_def case_prod_unfold split: option.split)

lemma workers_send: "send mn rs pc m s = (r, c, s') \<Longrightarrow> same_workers s s'"
  by (auto simp: send_def Let_def split: sum.splits prod.splits option.splits attempt_err.splits)

lemma workers_attempt_record [simp]: "same_workers a (attempt_record mn m res cx s) = same_workers a s"
  by (simp add: attempt_record_def)

section \<open>And the accounts\<close>

lemma inv_same: "same_memory s s' \<Longrightarrow> spool_inv s \<Longrightarrow> spool_inv s'"
  using same_memory_inv by blast

lemma fail_message_inv: "spool_inv (dsSpool s) \<Longrightarrow> spool_inv (dsSpool (fail_message mn m cls code resp reason s))"
  using Fail_inv [of m reason "dsSpool s"] by (simp add: fail_message_def Let_def) (metis prod.collapse)

lemma failUnsendable_inv: "spool_inv (dsSpool s) \<Longrightarrow> spool_inv (dsSpool (failUnsendable mn m reason s))"
  unfolding failUnsendable_def Let_def by (rule fail_message_inv) simp

lemma hold_inv: "spool_inv (dsSpool s) \<Longrightarrow> spool_inv (dsSpool (hold m d s))"
  using spool_simps(3) [of s] by (simp add: hold_def Let_def Defer_inv case_prod_unfold)

lemma deferRetry_inv:
  assumes "Valid (mID m)" "spool_inv (dsSpool s)"
  shows "spool_inv (dsSpool (deferRetry mn m err s))"
proof (cases "backoff (mnCfg mn) (mAttempts m)")
  case (Some delay)
  obtain now s1 where n: "m_now s = (now, s1)" by fastforce
  have s1: "dsSpool s1 = dsSpool s" using spool_of [OF same_queue_now' [OF n]] .
  have "spool_inv (snd (Release x (dsSpool s)))" if "mID x = mID m" for x
    using Release_inv [of x "dsSpool s"] assms that by (metis prod.collapse)
  then show ?thesis using s1 by (simp add: deferRetry_def Some n Let_def split: prod.split)
qed (use assms in \<open>simp add: deferRetry_def\<close>)

lemma record_attempt_inv:
  assumes "Valid (mID m)" "spool_inv (dsSpool s)"
  shows "spool_inv (dsSpool (record_attempt mn m res s))"
proof -
  obtain now s1 where n: "m_now s = (now, s1)" by fastforce
  have s1: "dsSpool s1 = dsSpool s" using spool_of [OF same_queue_now' [OF n]] .
  have "spool_inv (snd (Remove (mID m) (dsSpool s)))" using Remove_inv assms(2) by (metis prod.collapse)
  then show ?thesis using assms s1
    by (auto simp: record_attempt_def Let_def n split: option.split prod.split intro!: fail_message_inv deferRetry_inv)
qed

text \<open>Sending, with any peer, changes the queue only where the body cannot be opened.\<close>

lemma send_frame:
  assumes "send mn rs pc m s = (r, c, s')" "spool_inv (dsSpool s)"
  shows "same_workers s s' \<and> spool_inv (dsSpool s') \<and>
    (if r = None then settles (mID m) (dsSpool s) (dsSpool s') else same_memory (dsSpool s) (dsSpool s'))"
proof -
  obtain o1 sp where ob: "OpenBody (mID m) (dsSpool s) = (o1, sp)" by fastforce
  note mem = OpenBody_memory [OF ob] and inv = inv_same [OF OpenBody_memory [OF ob] assms(2)]
  show ?thesis
  proof (cases r)
    case None
    then have o1: "\<exists>e. o1 = Inl e"
      using assms(1) ob by (auto simp: send_def Let_def split: sum.splits prod.splits option.splits attempt_err.splits)
    then have "s' = failUnsendable mn m ''message body unreadable'' (s\<lparr>dsSpool := sp\<rparr>)" using assms(1) ob by (auto simp: send_def)
    then show ?thesis
      using None failUnsendable_settles [of m "s\<lparr>dsSpool := sp\<rparr>" mn "''message body unreadable''"] settles_same [OF mem] inv
        failUnsendable_inv [of "s\<lparr>dsSpool := sp\<rparr>"] by simp
  next
    case (Some res)
    have sp: "dsSpool s' = sp"
      using assms(1) ob Some by (auto simp: send_def Let_def tally_def split: sum.splits prod.splits option.splits attempt_err.splits)
    then show ?thesis using Some mem inv workers_send [OF assms(1)] by simp
  qed
qed

text \<open>Recording, with any result: the lease is gone, the other messages and the accounts are as they were.\<close>

lemma attempt_record_frame:
  assumes "Valid (mID m)" "RetryScheduleMin (cQueue (mnCfg mn)) \<noteq> []" "spool_inv (dsSpool s)"
  shows "settles (mID m) (dsSpool s) (dsSpool (attempt_record mn m res cx s)) \<and>
    spool_inv (dsSpool (attempt_record mn m res cx s))"
proof -
  let ?m = "m\<lparr>mAttempts := mAttempts m + 1\<rparr>"
  have "settles (mID m) (dsSpool s) (dsSpool (record_attempt mn ?m res s))" "spool_inv (dsSpool (record_attempt mn ?m res s))"
    using record_attempt_settles [of ?m mn _ res s, OF _ assms(2) refl] record_attempt_inv [of ?m s mn res] assms(1,3) by simp_all
  then show ?thesis using hold_settles [of m s 0] hold_inv [of s m 0] assms(3) by (simp add: attempt_record_def)
qed

section \<open>Leases and workers\<close>

text \<open>\<open>ex\<close> are the messages whose workers have sent and not yet recorded, \<open>sl\<close> the routes of the workers that
  still hold a slot and nothing else, \<open>ms\<close> the claimed messages that no worker has yet.\<close>

definition busy_ok :: "'j Manager \<Rightarrow> meta list \<Rightarrow> string list \<Rightarrow> 'j dstate \<Rightarrow> bool" where
  "busy_ok mn ex sl s \<longleftrightarrow>
     (\<forall>r. dsBusy s r = length (filter (\<lambda>m. mRoute m = r) (dsFlight s @ ex)) + length (filter (\<lambda>x. x = r) sl)) \<and>
     (\<forall>r rs. mnRoutes mn r = Some rs \<longrightarrow> int (dsBusy s r) \<le> max 0 (MaxConcurrent (rsCfg rs)))"

lemma busy_ok_spool [simp]: "busy_ok mn ex sl (s\<lparr>dsSpool := sp\<rparr>) = busy_ok mn ex sl s"
  by (simp add: busy_ok_def)

definition flights :: "'j Manager \<Rightarrow> meta list \<Rightarrow> string list \<Rightarrow> meta list \<Rightarrow> 'j dstate \<Rightarrow> bool" where
  "flights mn ex sl ms s \<longleftrightarrow> spool_inv (dsSpool s) \<and> distinct (map mID (dsFlight s @ ex @ ms)) \<and>
     leased (dsSpool s) = mID ` set (dsFlight s @ ex @ ms) \<and>
     (\<forall>m \<in> set (dsFlight s @ ex). Valid (mID m) \<and> index (dsSpool s) (mID m) \<noteq> None) \<and>
     (\<forall>m \<in> set ms. index (dsSpool s) (mID m) = Some m) \<and>
     busy_ok mn ex sl s"

definition waiting :: "string set \<Rightarrow> spool \<Rightarrow> id set" where
  "waiting sat s = {i. \<exists>m. index s i = Some m \<and> i \<notin> leased s \<and> mRoute m \<notin> sat}"

lemma flights_cong:
  assumes "flights mn ex sl ms s" "dsSpool s' = dsSpool s" "same_workers s s'"
  shows "flights mn ex sl ms s'"
proof -
  have f: "dsFlight s' = dsFlight s" "dsBusy s' = dsBusy s" using assms(3) by (simp_all add: same_workers_def)
  show ?thesis using assms(1) unfolding flights_def busy_ok_def assms(2) f .
qed

lemma flights_settle:
  assumes "flights mn ex sl (m # ms) s" "settles (mID m) (dsSpool s) (dsSpool s')" "spool_inv (dsSpool s')" "same_workers s s'"
  shows "flights mn ex sl ms s'"
proof -
  have d: "mID m \<notin> mID ` set (dsFlight s @ ex @ ms)" "distinct (map mID (dsFlight s @ ex @ ms))"
    using assms(1) by (auto simp: flights_def busy_ok_def)
  moreover have "leased (dsSpool s') = mID ` set (dsFlight s @ ex @ ms)"
    using assms(1,2) d(1) by (auto simp: flights_def busy_ok_def settles_def)
  moreover have "index (dsSpool s') (mID x) = index (dsSpool s) (mID x)" if "x \<in> set (dsFlight s @ ex @ ms)" for x
    using assms(2) d(1) that unfolding settles_def by (metis image_eqI)
  ultimately show ?thesis using assms(1,3,4) by (auto simp: flights_def busy_ok_def same_workers_def)
qed

lemma waiting_settle:
  assumes "settles i s s'" "i \<in> leased s" "index s' i = None \<or> (\<exists>c. index s' i = Some c \<and> mRoute c \<in> sat')" "sat \<subseteq> sat'"
  shows "waiting sat' s' \<subseteq> waiting sat s"
proof
  fix j assume "j \<in> waiting sat' s'"
  then obtain m where m: "index s' j = Some m" "j \<notin> leased s'" "mRoute m \<notin> sat'" by (auto simp: waiting_def)
  then have "j \<noteq> i" using assms(3) by auto
  then show "j \<in> waiting sat s" using m assms(1,4) by (auto simp: waiting_def settles_def)
qed

lemma cancelled_same: "cancelled s = (b, s') \<Longrightarrow> dsSpool s' = dsSpool s \<and> same_workers s s'"
  by (auto simp: cancelled_def same_workers_def split: list.splits)

lemma hold_route:
  assumes "index (dsSpool s) (mID m) = Some m"
  shows "\<exists>c. index (dsSpool (hold m d s)) (mID m) = Some c \<and> mRoute c = mRoute m"
  using assms spool_simps(3) [of s] Defer_settles [of m] by (simp add: hold_def Let_def case_prod_unfold)

lemma flights_hold:
  assumes "flights mn ex sl (m # ms) s"
  shows "flights mn ex sl ms (hold m d s)" and "waiting (insert (mRoute m) sat) (dsSpool (hold m d s)) \<subseteq> waiting sat (dsSpool s)"
proof -
  have "spool_inv (dsSpool s)" using assms by (simp add: flights_def busy_ok_def)
  then show "flights mn ex sl ms (hold m d s)"
    using hold_settles [of m s d] hold_inv [of s m d] by (intro flights_settle [OF assms]) simp_all
  have "mID m \<in> leased (dsSpool s)" "index (dsSpool s) (mID m) = Some m" using assms by (auto simp: flights_def busy_ok_def)
  then show "waiting (insert (mRoute m) sat) (dsSpool (hold m d s)) \<subseteq> waiting sat (dsSpool s)"
    using hold_settles [of m s d] hold_route [of s m d] by (intro waiting_settle) auto
qed

lemma dispatchOne_keeps:
  assumes f: "flights mn ex sl (m # ms) s" and d: "dispatchOne mn m sat s = (go, sat', s')"
  shows "(if go then flights mn ex sl ms s' else flights mn ex sl (m # ms) s') \<and> waiting sat' (dsSpool s') \<subseteq> waiting sat (dsSpool s)"
proof -
  obtain b1 s1 where c1: "cancelled s = (b1, s1)" by fastforce
  note k1 = cancelled_same [OF c1]
  have f1: "flights mn ex sl (m # ms) s1" using flights_cong [OF f] k1 by blast
  have lm: "mID m \<in> leased (dsSpool s1)" "index (dsSpool s1) (mID m) = Some m" using f1 by (auto simp: flights_def busy_ok_def)
  show ?thesis
  proof (cases b1)
    case True
    then show ?thesis using d c1 f1 k1 by (simp add: dispatchOne_def)
  next
    case nc1: False
    show ?thesis
    proof (cases "mnRoutes mn (mRoute m)")
      case None
      then have e: "go" "sat' = sat" "s' = failUnsendable mn m ''route no longer configured'' s1"
        using d c1 nc1 by (simp_all add: dispatchOne_def)
      note st = failUnsendable_settles [of m s1 mn "''route no longer configured''"]
      have "spool_inv (dsSpool s1)" using f1 by (simp add: flights_def busy_ok_def)
      then have "flights mn ex sl ms s'"
        using st failUnsendable_inv [of s1 mn m "''route no longer configured''"] unfolding e(3) by (intro flights_settle [OF f1]) simp_all
      moreover have "waiting sat (dsSpool s') \<subseteq> waiting sat (dsSpool s1)"
        using st lm(1) unfolding e(3) by (intro waiting_settle) (auto simp: moved_def)
      ultimately show ?thesis using e k1 st lm(2) by auto
    next
      case (Some rs)
      obtain b2 s2 where c2: "cancelled s1 = (b2, s2)" by fastforce
      note k2 = cancelled_same [OF c2]
      have f2: "flights mn ex sl (m # ms) s2" using flights_cong [OF f1] k2 by blast
      have sp2: "dsSpool s2 = dsSpool s" using k1 k2 by simp
      show ?thesis
      proof (cases b2)
        case True
        then show ?thesis using d c1 c2 nc1 Some f2 k1 k2 by (simp add: dispatchOne_def)
      next
        case nc2: False
        have held: ?thesis if "go" "sat' = insert (mRoute m) sat" "s' = hold m x u" "dsSpool u = dsSpool s2" "same_workers s2 u" for x u
          using flights_hold(1) [OF flights_cong [OF f2 that(4,5)], of x] flights_hold(2) [OF flights_cong [OF f2 that(4,5)], of sat x] that(1-4) sp2 hold_settles [of m u x] lm(2) k1
          by auto
        show ?thesis
        proof (cases "int (dsBusy s2 (mRoute m)) \<ge> MaxConcurrent (rsCfg rs)")
          case True
          then show ?thesis using d c1 c2 nc1 nc2 Some held [of pollInterval s2] by (simp add: dispatchOne_def)
        next
          case free: False
          obtain now s3 where n: "m_now s2 = (now, s3)" by fastforce
          have k3: "dsSpool s3 = dsSpool s2" "same_workers s2 s3"
            using spool_of [OF same_queue_now' [OF n]] workers_queue [OF same_queue_now' [OF n]] by simp_all
          obtain wait ok l where a: "Allow (mRoute m) (rRateLimitPerMin (rsCfg rs)) now (dsRate s3) = (wait, ok, l)" by (rule prod_cases3)
          show ?thesis
          proof (cases ok)
            case False
            then show ?thesis
              using d c1 c2 nc1 nc2 Some free n a held [of wait "s3\<lparr>dsRate := l\<rparr>"] k3 by (simp add: dispatchOne_def Let_def)
          next
            case True
            then have e: "go" "sat' = sat" "s' = s3\<lparr>dsRate := l, dsBusy := (dsBusy s3)(mRoute m := dsBusy s3 (mRoute m) + 1),
                dsFlight := dsFlight s3 @ [m]\<rparr>"
              using d c1 c2 nc1 nc2 Some free n a by (simp_all add: dispatchOne_def Let_def)
            have f3: "flights mn ex sl (m # ms) s3" using flights_cong [OF f2] k3 by blast
            have "Valid (mID m)" using f3 by (auto simp: flights_def busy_ok_def spool_inv_def entry_ok_def)
            moreover have "int (dsBusy s3 (mRoute m)) < MaxConcurrent (rsCfg rs)" using free k3(2) by (simp add: same_workers_def)
            ultimately have "flights mn ex sl ms s'" using f3 Some unfolding flights_def busy_ok_def e(3) by auto
            then show ?thesis using e sp2 k3(1) by simp
          qed
        qed
      qed
    qed
  qed
qed

text \<open>The order in which a scan ranges over the index: each key once.\<close>

definition covers :: "id list \<Rightarrow> spool \<Rightarrow> bool" where
  "covers order s \<longleftrightarrow> distinct order \<and> dom (index s) \<subseteq> set order"

lemma covers_exists: "spool_inv s \<Longrightarrow> \<exists>order. covers order s"
  using finite_distinct_list [of "dom (index s)"] by (auto simp: covers_def spool_inv_def)

lemma claim_keeps:
  assumes f: "flights mn ex sl [] s" and o1: "covers o1 (dsSpool s)"
    and c: "ClaimBatch (filter (\<lambda>i. index (dsSpool s) i \<noteq> None) o1) now claimBatchSize (Some (\<lambda>r. r \<in> sat)) (dsSpool s) = (batch, sp)"
  shows "flights mn ex sl batch (s\<lparr>dsSpool := sp\<rparr>)"
    and "waiting sat sp \<subseteq> waiting sat (dsSpool s) - mID ` set batch"
    and "mID ` set batch \<subseteq> waiting sat (dsSpool s)" and "distinct (map mID batch)"
proof -
  have ord: "complete_order (filter (\<lambda>i. index (dsSpool s) i \<noteq> None) o1) (index (dsSpool s))"
    using o1 by (auto simp: covers_def complete_order_def)
  have inv: "spool_inv (dsSpool s)" using f by (simp add: flights_def)
  have pos: "0 < claimBatchSize" by (simp add: claimBatchSize_def)
  note p = claimed_props [OF c pos ord inv]
  have sp: "sp = (dsSpool s)\<lparr>leased := leased (dsSpool s) \<union> mID ` set batch\<rparr>" by (rule ClaimBatch_frame [OF c])
  have fresh: "\<forall>m \<in> set batch. mID m \<notin> leased (dsSpool s)" using p(1) by (auto simp: due_def)
  have l: "leased (dsSpool s) = mID ` set (dsFlight s @ ex)" using f by (simp add: flights_def)
  have "\<forall>i \<in> mID ` set batch. i \<notin> leased (dsSpool s)" using fresh by simp
  then have "mID ` set batch \<inter> leased (dsSpool s) = {}" unfolding disjoint_iff Ball_def .
  then have "mID ` set (dsFlight s @ ex) \<inter> mID ` set batch = {}" unfolding l by (simp add: Int_commute)
  then have "distinct (map mID (dsFlight s @ ex @ batch))" using f p(2) by (auto simp: flights_def)
  moreover have "leased sp = mID ` set (dsFlight s @ ex @ batch)" using f by (auto simp: flights_def sp)
  moreover have "spool_inv sp" using ClaimBatch_inv [OF c inv] .
  moreover have "\<forall>m \<in> set batch. index sp (mID m) = Some m" using p(1) by (simp add: sp)
  moreover have "\<forall>m \<in> set (dsFlight s @ ex). Valid (mID m) \<and> index sp (mID m) \<noteq> None" using f by (simp add: flights_def sp)
  moreover note f [unfolded flights_def]
  ultimately show "flights mn ex sl batch (s\<lparr>dsSpool := sp\<rparr>)" unfolding flights_def by (intro conjI) simp_all
  show "waiting sat sp \<subseteq> waiting sat (dsSpool s) - mID ` set batch" by (auto simp: waiting_def sp)
  show "mID ` set batch \<subseteq> waiting sat (dsSpool s)" using p(1) by (auto simp: waiting_def due_def)
  show "distinct (map mID batch)" by (rule p(2))
qed

lemma flights_now: "m_now s = (now, s1) \<Longrightarrow> flights mn ex sl ms s \<Longrightarrow> flights mn ex sl ms s1 \<and> dsSpool s1 = dsSpool s"
  using flights_cong [of mn ex sl ms s s1] spool_of [OF same_queue_now' [of s now s1]] workers_queue [OF same_queue_now' [of s now s1]] by blast

section \<open>The workers\<close>

definition on_route :: "string \<Rightarrow> meta list \<Rightarrow> nat" where
  "on_route r ms = length (filter (\<lambda>m. mRoute m = r) ms)"

lemma on_route_simps [simp]:
  "on_route r [] = 0" "on_route r (m # ms) = (if mRoute m = r then 1 else 0) + on_route r ms"
  "on_route r (ms @ ms') = on_route r ms + on_route r ms'"
  by (simp_all add: on_route_def)

lemma on_route_mset: "mset ms = mset ms' \<Longrightarrow> on_route r ms = on_route r ms'"
  unfolding on_route_def by (metis mset_filter size_mset)

lemma busy_cong:
  assumes "busy_ok mn ex sl s" "dsBusy s' = dsBusy s"
    and "\<And>r. on_route r (dsFlight s' @ ex') + length (filter (\<lambda>x. x = r) sl') =
      on_route r (dsFlight s @ ex) + length (filter (\<lambda>x. x = r) sl)"
  shows "busy_ok mn ex' sl' s'"
  using assms unfolding busy_ok_def on_route_def by metis

text \<open>Only the messages of the three lists count, not their order.\<close>

lemma flights_perm:
  assumes f: "flights mn ex sl ms s" and m: "mset (dsFlight s @ ex) = mset (dsFlight s' @ ex')"
    and s: "dsSpool s' = dsSpool s" "dsBusy s' = dsBusy s"
  shows "flights mn ex' sl ms s'"
proof -
  have st: "set (dsFlight s' @ ex') = set (dsFlight s @ ex)" using m by (metis set_mset_mset)
  have all: "set (dsFlight s' @ ex' @ ms) = set (dsFlight s @ ex @ ms)" using st by (simp add: Un_assoc [symmetric])
  have "mset (map mID (dsFlight s @ ex @ ms)) = mset (map mID (dsFlight s' @ ex' @ ms))"
    using arg_cong [OF m, of "image_mset mID"] by simp
  then have "distinct (map mID (dsFlight s' @ ex' @ ms))" using f mset_eq_imp_distinct_iff unfolding flights_def by blast
  moreover have "busy_ok mn ex' sl s'"
    by (rule busy_cong [of mn ex sl s]) (use f s on_route_mset [OF m] in \<open>simp_all add: flights_def\<close>)
  ultimately show ?thesis using f unfolding flights_def s(1) st all by blast
qed

text \<open>A worker that has sent, one that has settled its message, and one that gives its slot back.\<close>

lemma flights_sent:
  assumes f: "flights mn ex sl ms s" and m: "m \<in> set (dsFlight s)"
  shows "flights mn (m # ex) sl ms (s\<lparr>dsFlight := remove1 m (dsFlight s)\<rparr>)"
  by (rule flights_perm [OF f]) (use m in simp_all)

lemma flights_done:
  assumes f: "flights mn (m # ex) sl ms s" and s': "settles (mID m) (dsSpool s) (dsSpool s')" "spool_inv (dsSpool s')" "same_workers s s'"
  shows "flights mn ex (mRoute m # sl) ms s'"
proof -
  have fl: "dsFlight s' = dsFlight s" "dsBusy s' = dsBusy s" using s'(3) by (simp_all add: same_workers_def)
  have d: "mID m \<notin> mID ` set (dsFlight s @ ex @ ms)" "distinct (map mID (dsFlight s @ ex @ ms))"
    using f by (auto simp: flights_def)
  moreover have "leased (dsSpool s') = mID ` set (dsFlight s @ ex @ ms)" using f s'(1) d(1) by (auto simp: flights_def settles_def)
  moreover have ix: "index (dsSpool s') (mID x) = index (dsSpool s) (mID x)" if "x \<in> set (dsFlight s @ ex @ ms)" for x
    using s'(1) d(1) that unfolding settles_def by (metis image_eqI)
  moreover have "\<forall>x \<in> set (dsFlight s @ ex). Valid (mID x) \<and> index (dsSpool s') (mID x) \<noteq> None"
    "\<forall>x \<in> set ms. index (dsSpool s') (mID x) = Some x"
    using f ix by (auto simp: flights_def)
  moreover have "busy_ok mn ex (mRoute m # sl) s'"
    by (rule busy_cong [of mn "m # ex" sl s]) (use f fl in \<open>simp_all add: flights_def\<close>)
  ultimately show ?thesis using s'(2) unfolding flights_def fl by blast
qed

lemma flights_return:
  assumes f: "flights mn ex sl ms s" and r: "r \<in> set sl"
  shows "flights mn ex (remove1 r sl) ms (s\<lparr>dsBusy := (dsBusy s)(r := dsBusy s r - 1)\<rparr>)"
proof -
  let ?s = "s\<lparr>dsBusy := (dsBusy s)(r := dsBusy s r - 1)\<rparr>"
  have len: "length (filter (\<lambda>x. x = q) (remove1 r sl)) = length (filter (\<lambda>x. x = q) sl) - (if q = r then 1 else 0)" for q
    using r by (simp add: filter_remove1 length_remove1)
  have pos: "0 < length (filter (\<lambda>x. x = r) sl)" using r by (auto simp: filter_empty_conv)
  have b: "busy_ok mn ex sl s" using f by (simp add: flights_def)
  then have eq: "dsBusy s q = on_route q (dsFlight s @ ex) + length (filter (\<lambda>x. x = q) sl)" for q
    unfolding busy_ok_def on_route_def by blast
  have "dsBusy ?s q = on_route q (dsFlight ?s @ ex) + length (filter (\<lambda>x. x = q) (remove1 r sl))" for q
    using len [of q] pos eq [of q] by (cases "q = r") (simp_all del: length_greater_0_conv)
  moreover have "int (dsBusy ?s q) \<le> max 0 (MaxConcurrent (rsCfg rs))" if "mnRoutes mn q = Some rs" for q rs
  proof -
    have "int (dsBusy s q) \<le> max 0 (MaxConcurrent (rsCfg rs))" using b that unfolding busy_ok_def by blast
    then show ?thesis by auto
  qed
  ultimately have "busy_ok mn ex (remove1 r sl) ?s" unfolding busy_ok_def on_route_def by blast
  then show ?thesis using f by (simp add: flights_def)
qed

section \<open>The dispatcher\<close>

fun in_hand :: "drain \<Rightarrow> meta list" where
  "in_hand (Handing ms short sat) = ms"
| "in_hand (Returning ms) = ms"
| "in_hand p = []"

fun saturated :: "drain \<Rightarrow> string set" where
  "saturated (Scanning sat) = sat"
| "saturated (Handing ms short sat) = sat"
| "saturated p = {}"

text \<open>What the dispatcher can still claim in this pass, and a bound on the steps it has left.\<close>

definition available :: "'j world \<Rightarrow> id set" where
  "available w = waiting (saturated (wPass w)) (dsSpool (wState w))"

fun work :: "drain \<Rightarrow> nat \<Rightarrow> nat" where
  "work (Scanning sat) n = 2 * n + 3"
| "work (Handing ms short sat) n = length ms + 2 + (if short then 0 else 2 * n + 3)"
| "work (Returning ms) n = length ms + 1"
| "work p n = 0"

lemma work_mono: "n \<le> k \<Longrightarrow> work p n \<le> work p k" "work p (n + k) \<le> work p n + 2 * k"
  by (cases p; simp)+

definition orderly :: "'j Manager \<Rightarrow> 'j world \<Rightarrow> bool" where
  "orderly mn w \<longleftrightarrow> flights mn (map fst (wSent w)) (wSlots w) (in_hand (wPass w)) (wState w)"

lemma waiting_finite: "spool_inv s \<Longrightarrow> finite (waiting sat s)"
  by (rule finite_subset [of _ "dom (index s)"]) (auto simp: waiting_def spool_inv_def)

lemma available_finite: "orderly mn w \<Longrightarrow> finite (available w)"
  by (simp add: orderly_def flights_def available_def waiting_finite)

lemma dispatch_step_keeps:
  assumes o: "orderly mn w" and p: "wPass w \<notin> {Between, Stopped}" and cov: "covers order (dsSpool (wState w))"
    and d: "dispatch_step mn order (wPass w) (wState w) = (p', s')"
  defines "w' \<equiv> w\<lparr>wPass := p', wState := s'\<rparr>"
  shows "orderly mn w' \<and> work p' (card (available w')) < work (wPass w) (card (available w))"
proof -
  let ?ex = "map fst (wSent w)" and ?sl = "wSlots w" and ?s = "wState w"
  note fin = available_finite [OF o]
  have inv: "spool_inv (dsSpool ?s)" using o by (simp add: orderly_def flights_def)
  show ?thesis
  proof (cases "(mn, order, wPass w, ?s)" rule: dispatch_step.cases)
    case (2 mn' order' sat s)
    obtain now s1 where n: "m_now ?s = (now, s1)" by fastforce
    have f0: "flights mn ?ex ?sl [] ?s" using o 2 by (simp add: orderly_def)
    note f1 = flights_now [OF n f0]
    obtain batch sp where c: "ClaimBatch (filter (\<lambda>i. index (dsSpool s1) i \<noteq> None) order) now claimBatchSize (Some (\<lambda>r. r \<in> sat)) (dsSpool s1) = (batch, sp)"
      by fastforce
    have "covers order (dsSpool s1)" using cov f1 by simp
    note k = claim_keeps [OF conjunct1 [OF f1] this c]
    have e: "p' = Handing batch (int (length batch) < claimBatchSize) sat" "s' = s1\<lparr>dsSpool := sp\<rparr>" using d n c 2 by auto
    have a: "available w = waiting sat (dsSpool ?s)" using 2 by (simp add: available_def)
    have a': "available w' \<subseteq> available w - mID ` set batch" "mID ` set batch \<subseteq> available w"
      using k(2,3) f1 e unfolding a by (auto simp: available_def w'_def)
    have len: "card (mID ` set batch) = length batch" using k(4) distinct_card [of "map mID batch"] by simp
    have "card (available w') \<le> card (available w) - length batch"
      using card_mono [OF _ a'(1)] card_Diff_subset [OF _ a'(2)] fin len by simp
    moreover have "length batch \<le> card (available w)" using card_mono [OF fin a'(2)] len by simp
    ultimately have "work p' (card (available w')) < work (wPass w) (card (available w))"
      using 2 by (auto simp: e(1) claimBatchSize_def)
    then show ?thesis using k(1) e by (simp add: orderly_def w'_def)
  next
    case (3 mn' order' m ms short sat s)
    obtain go sat1 s1 where d1: "dispatchOne mn m sat ?s = (go, sat1, s1)" by (rule prod_cases3)
    have f: "flights mn ?ex ?sl (m # ms) ?s" using o 3 by (simp add: orderly_def)
    note k = dispatchOne_keeps [OF f d1]
    have e: "s' = s1" "p' = (if go then Handing ms short sat1 else Returning (m # ms))" using d d1 3 by (auto split: bool.splits)
    show ?thesis
    proof (cases go)
      case True
      have "available w' \<subseteq> available w" using k True e 3 by (auto simp: available_def w'_def)
      then have "card (available w') \<le> card (available w)" by (rule card_mono [OF fin])
      then show ?thesis using k True e 3 by (auto simp: orderly_def w'_def)
    next
      case False
      then show ?thesis using k e 3 by (auto simp: orderly_def w'_def)
    qed
  next
    case (4 mn' order' short sat s)
    then show ?thesis using o d by (auto simp: orderly_def available_def w'_def)
  next
    case (5 mn' order' m ms s)
    have f: "flights mn ?ex ?sl (m # ms) ?s" using o 5 by (simp add: orderly_def)
    have "flights mn ?ex ?sl ms (?s\<lparr>dsSpool := Defer m (mNextAttempt m) (dsSpool ?s)\<rparr>)"
      using Defer_settles [of m "dsSpool ?s" "mNextAttempt m"] Defer_inv [of "dsSpool ?s" m] inv
      by (intro flights_settle [OF f]) simp_all
    then show ?thesis using d 5 by (auto simp: orderly_def w'_def)
  next
    case (6 mn' order' s)
    then show ?thesis using o d by (auto simp: orderly_def w'_def)
  qed (use p in auto)
qed

section \<open>The delivery manager at work\<close>

text \<open>
  The dispatcher, workers that send, record and give their slots back in any order with any peer, and
  whatever the listener and the operators do to messages that are not leased. The flag marks the
  dispatcher's own steps within a pass.
\<close>

inductive serving_step :: "'j Manager \<Rightarrow> bool \<Rightarrow> 'j world \<Rightarrow> 'j world \<Rightarrow> bool" for mn where
  start: "wPass w = Between \<Longrightarrow> serving_step mn False w (w\<lparr>wPass := Scanning {}\<rparr>)"
| dispatcher: "wPass w \<notin> {Between, Stopped} \<Longrightarrow> covers order (dsSpool (wState w)) \<Longrightarrow>
     dispatch_step mn order (wPass w) (wState w) = (p, s) \<Longrightarrow> serving_step mn True w (w\<lparr>wPass := p, wState := s\<rparr>)"
| sends: "m \<in> set (dsFlight (wState w)) \<Longrightarrow> serving_step mn False w (worker_send mn rs pc m w)"
| records: "x \<in> set (wSent w) \<Longrightarrow> serving_step mn False w (worker_record mn x w)"
| returns: "r \<in> set (wSlots w) \<Longrightarrow> serving_step mn False w (worker_return r w)"
| others: "spool_inv sp \<Longrightarrow> leased sp = leased (dsSpool (wState w)) \<Longrightarrow>
     \<forall>i \<in> leased sp. index sp i = index (dsSpool (wState w)) i \<Longrightarrow>
     serving_step mn False w (w\<lparr>wState := (wState w)\<lparr>dsSpool := sp, dsJournal := j\<rparr>\<rparr>)"

inductive serving :: "'j Manager \<Rightarrow> 'j world \<Rightarrow> bool" for mn where
  idle: "wPass w = Between \<Longrightarrow> wSent w = [] \<Longrightarrow> wSlots w = [] \<Longrightarrow> spool_inv (dsSpool (wState w)) \<Longrightarrow>
     leased (dsSpool (wState w)) = {} \<Longrightarrow> dsFlight (wState w) = [] \<Longrightarrow> dsBusy (wState w) = (\<lambda>_. 0) \<Longrightarrow> serving mn w"
| step: "serving mn w \<Longrightarrow> serving_step mn own w w' \<Longrightarrow> serving mn w'"

lemma worker_send_keeps:
  assumes o: "orderly mn w" and m: "m \<in> set (dsFlight (wState w))"
  shows "orderly mn (worker_send mn rs pc m w)"
proof -
  let ?s = "(wState w)\<lparr>dsFlight := remove1 m (dsFlight (wState w))\<rparr>"
  obtain r c s1 where sd: "send mn rs pc m ?s = (r, c, s1)" by (rule prod_cases3)
  have f: "flights mn (m # map fst (wSent w)) (wSlots w) (in_hand (wPass w)) ?s"
    using flights_sent [OF o [unfolded orderly_def] m] .
  then have inv: "spool_inv (dsSpool ?s)" by (simp add: flights_def)
  note k = send_frame [OF sd inv]
  show ?thesis
  proof (cases r)
    case None
    then show ?thesis using flights_done [OF f, of s1] k sd by (simp add: orderly_def worker_send_def)
  next
    case (Some res)
    have "busy_ok mn (m # map fst (wSent w)) (wSlots w) s1"
      by (rule busy_cong [of mn "m # map fst (wSent w)" "wSlots w" ?s]) (use f k in \<open>simp_all add: flights_def same_workers_def\<close>)
    then have "flights mn (m # map fst (wSent w)) (wSlots w) (in_hand (wPass w)) s1"
      using f k Some by (simp add: flights_def same_workers_def same_memory_def)
    then show ?thesis using Some sd by (simp add: orderly_def worker_send_def)
  qed
qed

lemma worker_record_keeps:
  assumes o: "orderly mn w" and x: "x \<in> set (wSent w)" and sched: "RetryScheduleMin (cQueue (mnCfg mn)) \<noteq> []"
  shows "orderly mn (worker_record mn x w)"
proof -
  obtain m res cx where x3: "x = (m, res, cx)" by (rule prod_cases3)
  let ?s' = "attempt_record mn m res cx (wState w)"
  have "mset (wSent w) = mset (x # remove1 x (wSent w))" using x by simp
  from arg_cong [OF this, of "image_mset fst"]
  have "mset (dsFlight (wState w) @ map fst (wSent w)) = mset (dsFlight (wState w) @ m # map fst (remove1 x (wSent w)))"
    by (simp add: x3)
  then have f: "flights mn (m # map fst (remove1 x (wSent w))) (wSlots w) (in_hand (wPass w)) (wState w)"
    by (intro flights_perm [OF o [unfolded orderly_def]]) simp_all
  then have "Valid (mID m)" "spool_inv (dsSpool (wState w))" by (simp_all add: flights_def)
  from attempt_record_frame [OF this(1) sched this(2), of res cx]
  have "flights mn (map fst (remove1 x (wSent w))) (mRoute m # wSlots w) (in_hand (wPass w)) ?s'"
    by (intro flights_done [OF f]) simp_all
  then show ?thesis by (simp add: x3 orderly_def worker_record_def)
qed

lemma serving_step_keeps:
  assumes "serving_step mn own w w'" "orderly mn w" "RetryScheduleMin (cQueue (mnCfg mn)) \<noteq> []"
  shows "orderly mn w'"
  using assms
proof (cases rule: serving_step.cases)
  case start
  then show ?thesis using assms(2) by (simp add: orderly_def)
next
  case (dispatcher order p s)
  then show ?thesis using dispatch_step_keeps [OF assms(2) dispatcher(3,4,5)] by simp
next
  case (sends m rs pc)
  then show ?thesis using worker_send_keeps [OF assms(2)] by simp
next
  case (records x)
  then show ?thesis using worker_record_keeps [OF assms(2) _ assms(3)] by simp
next
  case (returns r)
  then show ?thesis using flights_return [OF assms(2) [unfolded orderly_def]] by (simp add: orderly_def worker_return_def)
next
  case (others sp j)
  let ?s = "wState w" and ?ms = "in_hand (wPass w)"
  define ex where "ex = map fst (wSent w)"
  have f: "flights mn ex (wSlots w) ?ms ?s" using assms(2) by (simp add: orderly_def ex_def)
  then have l: "\<forall>x \<in> set (dsFlight ?s @ ex @ ?ms). index sp (mID x) = index (dsSpool ?s) (mID x)"
    using others(4,5) by (simp add: flights_def)
  have "busy_ok mn ex (wSlots w) (?s\<lparr>dsSpool := sp, dsJournal := j\<rparr>)"
    by (rule busy_cong [of mn ex "wSlots w" ?s]) (use f in \<open>simp_all add: flights_def\<close>)
  moreover have "\<forall>x \<in> set (dsFlight ?s @ ex). Valid (mID x) \<and> index sp (mID x) \<noteq> None" "\<forall>x \<in> set ?ms. index sp (mID x) = Some x"
    using f l by (auto simp: flights_def)
  ultimately have "flights mn ex (wSlots w) ?ms (?s\<lparr>dsSpool := sp, dsJournal := j\<rparr>)"
    using f others(3,4) unfolding flights_def by simp
  then show ?thesis using others(2) by (simp add: orderly_def ex_def)
qed

lemma serving_orderly:
  assumes "serving mn w" "RetryScheduleMin (cQueue (mnCfg mn)) \<noteq> []"
  shows "orderly mn w"
  using assms
proof (induction rule: serving.induct)
  case (idle w)
  then show ?case by (simp add: orderly_def flights_def busy_ok_def)
next
  case (step w own w')
  then show ?case using serving_step_keeps by blast
qed

text \<open>C35: One worker per lease. While the manager runs - its dispatcher at any point of a pass, workers that send,
  record and give their slots back in any order with any outcome, failing disks, a listener and operators
  at work on the other messages - every leased message is still in the queue and is either with
  exactly one worker or in the batch the dispatcher is handing out (between two passes there is none), and
  no route has more workers than its configured number, counting those that only hold their slot. A
  whole spool operation is one step, and so is the handling of one message by the dispatcher.\<close>

theorem one_worker_per_lease:
  assumes "serving mn w" and "RetryScheduleMin (cQueue (mnCfg mn)) \<noteq> []"
  shows "(let s = wState w; ws = dsFlight s @ map fst (wSent w); all = ws @ in_hand (wPass w)
    in leased (dsSpool s) = mID ` set all \<and> distinct (map mID all) \<and> (\<forall>m \<in> set all. index (dsSpool s) (mID m) \<noteq> None) \<and>
      (\<forall>r rs. mnRoutes mn r = Some rs \<longrightarrow>
        int (length (filter (\<lambda>m. mRoute m = r) ws) + length (filter (\<lambda>x. x = r) (wSlots w))) \<le> max 0 (MaxConcurrent (rsCfg rs))))"
proof -
  have f: "flights mn (map fst (wSent w)) (wSlots w) (in_hand (wPass w)) (wState w)"
    using serving_orderly [OF assms] by (simp add: orderly_def)
  then have b: "dsBusy (wState w) r = length (filter (\<lambda>m. mRoute m = r) (dsFlight (wState w) @ map fst (wSent w))) +
      length (filter (\<lambda>x. x = r) (wSlots w))" for r
    unfolding flights_def busy_ok_def by blast
  have "\<forall>r rs. mnRoutes mn r = Some rs \<longrightarrow> int (dsBusy (wState w) r) \<le> max 0 (MaxConcurrent (rsCfg rs))"
    using f unfolding flights_def busy_ok_def by blast
  then show ?thesis using f unfolding b Let_def flights_def by auto
qed

text \<open>
  \<open>pass_run mn n k w v\<close>: from \<open>w\<close> to \<open>v\<close> within one pass, with \<open>n\<close> steps of the dispatcher, while the other
  steps made \<open>k\<close> messages available that were not (a commit, a requeue, a message a worker put back).
\<close>

inductive pass_run :: "'j Manager \<Rightarrow> nat \<Rightarrow> nat \<Rightarrow> 'j world \<Rightarrow> 'j world \<Rightarrow> bool" for mn where
  none: "pass_run mn 0 0 w w"
| own: "pass_run mn n k w v \<Longrightarrow> serving_step mn True v u \<Longrightarrow> pass_run mn (n + 1) k w u"
| beside: "pass_run mn n k w v \<Longrightarrow> serving_step mn False v u \<Longrightarrow> wPass u = wPass v \<Longrightarrow>
    pass_run mn n (k + card (available u - available v)) w u"

lemma card_grows: "finite A \<Longrightarrow> finite B \<Longrightarrow> card B \<le> card A + card (B - A)"
  using card_mono [of "A \<union> (B - A)" B] card_Un_le [of A "B - A"] by fastforce

lemma pass_run_work:
  assumes "pass_run mn n k w v" "orderly mn w" "RetryScheduleMin (cQueue (mnCfg mn)) \<noteq> []"
  shows "orderly mn v \<and> n + work (wPass v) (card (available v)) \<le> work (wPass w) (card (available w)) + 2 * k"
  using assms
proof (induction rule: pass_run.induct)
  case (own n k w v u)
  then have v: "orderly mn v" "n + work (wPass v) (card (available v)) \<le> work (wPass w) (card (available w)) + 2 * k" by simp_all
  have "work (wPass u) (card (available u)) < work (wPass v) (card (available v))"
    using own(2)
  proof (cases rule: serving_step.cases)
    case (dispatcher order p s)
    then show ?thesis using dispatch_step_keeps [OF v(1) dispatcher(2,3,4)] by simp
  qed simp_all
  then show ?case using v(2) serving_step_keeps [OF own(2) v(1) own.prems(2)] by linarith
next
  case (beside n k w v u)
  then have v: "orderly mn v" "n + work (wPass v) (card (available v)) \<le> work (wPass w) (card (available w)) + 2 * k" by simp_all
  have u: "orderly mn u" using serving_step_keeps [OF beside(2) v(1) beside.prems(2)] .
  have "work (wPass v) (card (available u)) \<le> work (wPass v) (card (available v) + card (available u - available v))"
    by (rule work_mono(1) [OF card_grows [OF available_finite [OF v(1)] available_finite [OF u]]])
  also have "\<dots> \<le> work (wPass v) (card (available v)) + 2 * card (available u - available v)" by (rule work_mono(2))
  finally show ?case using u v(2) beside(3) by simp
qed simp

text \<open>C36: A dispatch pass ends. Whatever the workers, the listener and the operators do between its steps, and
  whatever the limiter and the clock say, the dispatcher makes at most twice as many steps in a pass as
  there are messages available at its start or made available by the others while it lasts, and three
  more; and until the pass is over it always has a next step, so it never waits for anything. The
  bound rests on each full scan leasing its thousand messages.\<close>

theorem dispatch_pass_ends:
  assumes "serving mn w" and "wPass w = Scanning {}" and "RetryScheduleMin (cQueue (mnCfg mn)) \<noteq> []"
    and "pass_run mn n k w v"
  shows "n \<le> 2 * (card (available w) + k) + 3 \<and>
    (wPass v \<in> {Between, Stopped} \<or> (\<exists>u. serving_step mn True v u))"
proof -
  have k: "orderly mn v" "n + work (wPass v) (card (available v)) \<le> work (wPass w) (card (available w)) + 2 * k"
    using pass_run_work [OF assms(4) serving_orderly [OF assms(1,3)] assms(3)] by simp_all
  have "\<exists>order. covers order (dsSpool (wState v))" using k(1) covers_exists by (simp add: orderly_def flights_def)
  then have "wPass v \<in> {Between, Stopped} \<or> (\<exists>u. serving_step mn True v u)"
    by (metis serving_step.dispatcher prod.collapse)
  then show ?thesis using k(2) assms(2) by simp
qed


section \<open>A manager for the witnesses\<close>

definition demo_manager :: "nat Manager" where
  "demo_manager = \<lparr>mnCfg = Defaults, mnRoutes = [''main'' \<mapsto> \<lparr>rsCfg = demo_smtp_route, rsTLS = Some demo_tls\<rparr>],
     mnJournal = (\<lambda>_ _ _ _ _ j. (None, j + 1)), mnNotify = True, mnDecode = id\<rparr>"

definition demo_dstate :: "nat dstate" where
  "demo_dstate = \<lparr>dsSpool = indexed_spool, dsJournal = 0, dsRate = New_limiter, dsBusy = (\<lambda>_. 0), dsFlight = [],
     dsCount = (\<lambda>_. 0), dsReported = [], dsTimes = [20], dsLast = 20, dsCancel = [], dsPanicked = False\<rparr>"

lemma demo_schedule: "RetryScheduleMin (cQueue (mnCfg demo_manager)) \<noteq> []"
  by (simp add: demo_manager_def Defaults_def)

lemma demo_waits: "waits demo_manager minute"
  by (simp add: waits_def demo_manager_def Defaults_def minute_def second_def i64_id)

lemma demo_dstate_index: "index (dsSpool demo_dstate) demo_id = Some demo_meta"
  by (simp add: demo_dstate_def indexed_spool_def)

definition demo_world :: "nat world" where
  "demo_world = \<lparr>wPass = Between, wSent = [], wSlots = [], wState = demo_dstate\<rparr>"

lemma demo_serving: "serving demo_manager demo_world"
  by (rule serving.idle) (simp_all add: demo_world_def demo_dstate_def indexed_spool_inv,
    simp add: indexed_spool_def queued_spool_def demo_spool_def)

lemma demo_pass: "serving demo_manager (demo_world\<lparr>wPass := Scanning {}\<rparr>)"
  by (rule serving.step [OF demo_serving serving_step.start]) (simp add: demo_world_def)

theorem attempt_settles_the_message_witness:
  "settles demo_id indexed_spool (dsSpool (snd (attempt demo_manager \<lparr>rsCfg = demo_smtp_route, rsTLS = Some demo_tls\<rparr>
     \<lparr>pcConn = demo_conn, pcTokens = None, pcRead = None, pcGone = False\<rparr> demo_meta demo_dstate)))"
proof -
  let ?pc = "\<lparr>pcConn = demo_conn, pcTokens = None, pcRead = None, pcGone = False\<rparr>"
  have "Valid (mID demo_meta)" "index (dsSpool demo_dstate) (mID demo_meta) \<noteq> None" "cnLog (pcConn ?pc) = []"
    using demo_dstate_index by simp_all
  from attempt_settles_the_message [OF this(1,2) demo_schedule this(3) prod.collapse [symmetric]]
  show ?thesis by (simp add: demo_dstate_def)
qed

theorem retries_come_to_an_end_witness:
  "index (dsSpool (snd (retry_run demo_manager demo_id [(20, TempError (Opaque ''busy'')), (70 + minute, TempError (Opaque ''busy''))] demo_dstate))) demo_id = None"
proof -
  let ?es = "[(20, TempError (Opaque ''busy'')), (70 + minute, TempError (Opaque ''busy''))]"
  have s: "sorted_wrt (<) (map fst ?es)" by (simp add: minute_def second_def)
  have "\<forall>(t, err) \<in> set ?es. mExpires demo_meta < t \<longrightarrow> mNextAttempt demo_meta \<le> t \<longrightarrow> (\<forall>(u, e) \<in> set ?es. u < t \<longrightarrow> u + minute \<le> t) \<longrightarrow>
       index (dsSpool (snd (retry_run demo_manager demo_id ?es demo_dstate))) demo_id = None \<and>
       fIndex (dsSpool (snd (retry_run demo_manager demo_id ?es demo_dstate))) demo_id \<noteq> None"
    using retries_come_to_an_end [OF demo_waits demo_Valid demo_dstate_index _ s] by simp
  then show ?thesis by (simp add: demo_meta_def minute_def second_def)
qed

theorem one_worker_per_lease_witness:
  "leased (dsSpool demo_dstate) = {}"
  using one_worker_per_lease [OF demo_serving demo_schedule] by (simp add: demo_world_def demo_dstate_def)

theorem dispatch_pass_ends_witness:
  "\<exists>u. serving_step demo_manager True (demo_world\<lparr>wPass := Scanning {}\<rparr>) u"
  using dispatch_pass_ends [OF demo_pass _ demo_schedule pass_run.none] by simp

end
