(* ===== verification/Self_Mail.thy ===== *)
theory Self_Mail
  imports Session_Queue
begin

text \<open>
  \<open>internal/selfmail/selfmail.go\<close>: the mail the relay writes itself. \<open>Send\<close> renders the header block,
  spools the message and records it in the journal; bounce digests, expiry warnings and canary
  probes all go through it. The mailer holds the spool itself and the journal as an interface value.
\<close>

section \<open>Definitions\<close>

definition ContentType :: string where "ContentType = ''text/plain; charset=utf-8''"

record composed =
  cmHeaderFrom :: string
  cmEnvelopeFrom :: string
  cmTo :: "string list"
  cmSubject :: string
  cmBody :: string
  cmOrigin :: string
  cmRoute :: string
  cmListener :: string
  cmKind :: string

record 'j mailer =
  mlRecord :: "MessageRecord \<Rightarrow> 'j \<Rightarrow> store_err option \<times> 'j"
  mlFormatTime :: "instant \<Rightarrow> string"

record 'j mail_state =
  maQueue :: spool_tape
  maJournal :: 'j
  maUnrecorded :: nat

datatype mail_err = ErrControl | ErrEnqueue spool_err

definition unsafe :: "composed \<Rightarrow> string list" where
  "unsafe m = [cmHeaderFrom m, cmSubject m] @ cmTo m"

definition composed_head :: "string \<Rightarrow> composed \<Rightarrow> string" where
  "composed_head date m =
     ''From: '' @ cmHeaderFrom m @ CRLF @ ''To: '' @ Join (cmTo m) '', '' @ CRLF @
     ''Subject: '' @ cmSubject m @ CRLF @ ''Date: '' @ date @ CRLF @
     ''Content-Type: '' @ ContentType @ CRLF @ CRLF"

definition headerBlock :: "string \<Rightarrow> string" where
  "headerBlock d = (case Index d (CRLF @ CRLF) of Some i \<Rightarrow> take (i + 4) d | None \<Rightarrow> d)"

definition composed_env :: "composed \<Rightarrow> instant \<Rightarrow> envelope" where
  "composed_env m now =
     \<lparr>envFrom = cmEnvelopeFrom m, envTo = cmTo m, envOrigin = cmOrigin m, envRoute = cmRoute m,
      envListener = cmListener m, envRemoteAddr = ''internal'', envHelo = [], envTLS = False, envSize = 0,
      envReceived = now, envOriginalFrom = [], envKind = cmKind m, envNotification = False, envCanary = False\<rparr>"

definition composed_record :: "composed \<Rightarrow> string \<Rightarrow> id \<Rightarrow> duration \<Rightarrow> instant \<Rightarrow> MessageRecord" where
  "composed_record m d i lifetime now =
     \<lparr>recQueueID = i, recOrigin = cmOrigin m, recRoute = cmRoute m, recFrom = cmEnvelopeFrom m, recOriginalFrom = [],
      recRecipients = cmTo m, recSubject = cmSubject m, recListener = cmListener m, recRemoteAddr = ''internal'',
      recMessageID = [], recContentType = ContentType, recSizeBytes = int (length d),
      recHeaderCount = int (HeaderCount (headerBlock d)), recHelo = [], recReceivedAt = now,
      recExpiresAt = now + lifetime, recTLS = False\<rparr>"

definition enqueue_composed :: "composed \<Rightarrow> string \<Rightarrow> duration \<Rightarrow> instant \<Rightarrow> spool_tape \<Rightarrow> (spool_err + id) \<times> spool_tape" where
  "enqueue_composed m d lifetime now q =
     (case draw q of (r1, q1) \<Rightarrow>
      (case draw q1 of (r2, q2) \<Rightarrow>
        on_spool (Enqueue r1 r2 (composed_env m now) (d, None) 0 lifetime) q2))"

definition Send :: "'j mailer \<Rightarrow> composed \<Rightarrow> duration \<Rightarrow> instant \<Rightarrow> 'j mail_state \<Rightarrow> (mail_err + id) \<times> 'j mail_state" where
  "Send ml m lifetime now s =
     (if list_ex (\<lambda>v. ContainsAny v [CR, LF, NUL]) (unsafe m) then (Inl ErrControl, s)
      else (let d = composed_head (mlFormatTime ml now) m @ cmBody m in
            case enqueue_composed m d lifetime now (maQueue s) of
              (Inl e, q) \<Rightarrow> (Inl (ErrEnqueue e), s\<lparr>maQueue := q\<rparr>)
            | (Inr i, q) \<Rightarrow>
                (case mlRecord ml (composed_record m d i lifetime now) (maJournal s) of
                   (None, j) \<Rightarrow> (Inr i, s\<lparr>maQueue := q, maJournal := j\<rparr>)
                 | (Some e, j) \<Rightarrow> (Inr i, s\<lparr>maQueue := q, maJournal := j, maUnrecorded := maUnrecorded s + 1\<rparr>))))"

section \<open>What goes out is well formed\<close>

text \<open>A date is what \<open>time.Format\<close> writes with a layout of printable characters.\<close>

definition one_line :: "string \<Rightarrow> bool" where
  "one_line s \<longleftrightarrow> CR \<notin> set s \<and> LF \<notin> set s"

definition composed_lines :: "string \<Rightarrow> composed \<Rightarrow> string list" where
  "composed_lines date m =
     [''From: '' @ cmHeaderFrom m, ''To: '' @ Join (cmTo m) '', '', ''Subject: '' @ cmSubject m, ''Date: '' @ date,
      ''Content-Type: '' @ ContentType]"

lemma composed_head_lines: "composed_head date m = crlf_lines (composed_lines date m) @ CRLF"
  by (simp add: composed_head_def composed_lines_def crlf_lines_def)

lemma Join_chars: "set (Join xs sep) \<subseteq> \<Union> (set ` set xs) \<union> set sep"
  by (induction xs sep rule: Join.induct) auto

lemma safe_values:
  assumes "\<not> list_ex (\<lambda>v. ContainsAny v [CR, LF, NUL]) (unsafe m)"
  shows "one_line (cmHeaderFrom m)" "one_line (cmSubject m)" "one_line (Join (cmTo m) '', '')"
proof -
  have a: "one_line v" if "v \<in> set (unsafe m)" for v
    using assms that by (auto simp: one_line_def list_ex_iff ContainsAny_def)
  then show "one_line (cmHeaderFrom m)" "one_line (cmSubject m)" by (simp_all add: unsafe_def)
  have "\<forall>v \<in> set (cmTo m). one_line v" using a by (simp add: unsafe_def)
  then show "one_line (Join (cmTo m) '', '')"
    using Join_chars [of "cmTo m" "'', ''"] by (auto simp: one_line_def CR_def LF_def)
qed

lemma composed_plain:
  assumes "\<not> list_ex (\<lambda>v. ContainsAny v [CR, LF, NUL]) (unsafe m)" "one_line date"
  shows "\<forall>l \<in> set (composed_lines date m). plain_line l"
  using safe_values [OF assms(1)] assms(2)
  by (simp add: composed_lines_def plain_line_def one_line_def ContentType_def CR_def LF_def)

lemma Index_skip: "CR \<notin> set l \<Longrightarrow> Index (l @ r) (CRLF @ CRLF) = map_option (\<lambda>i. length l + i) (Index r (CRLF @ CRLF))"
proof (induction l)
  case Nil
  then show ?case by (simp add: option.map_ident)
next
  case (Cons x l)
  have "x \<noteq> CR" using Cons.prems by auto
  then have "\<not> HasPrefix (x # l @ r) (CRLF @ CRLF)" by (simp add: HasPrefix_def CRLF_def)
  then show ?case using Cons by (simp add: option.map_comp o_def)
qed

lemma HasPrefix_blank: "HasPrefix (CRLF @ r) (CRLF @ CRLF) \<longleftrightarrow> HasPrefix r CRLF"
  by (simp add: HasPrefix_def CRLF_def)

lemma Index_blank_line:
  assumes "ls \<noteq> []" "\<forall>l \<in> set ls. plain_line l"
  shows "\<exists>i. Index (crlf_lines ls @ CRLF @ r) (CRLF @ CRLF) = Some i \<and> i + 2 = length (crlf_lines ls)"
  using assms
proof (induction ls)
  case (Cons l ls)
  let ?rest = "crlf_lines ls @ CRLF @ r"
  have l: "CR \<notin> set l" and e: "crlf_lines (l # ls) @ CRLF @ r = l @ CRLF @ ?rest"
    using Cons.prems by (simp_all add: plain_line_def)
  show ?case
  proof (cases ls)
    case Nil
    then have "Index (CRLF @ ?rest) (CRLF @ CRLF) = Some 0" by (simp add: CRLF_def HasPrefix_def)
    then show ?thesis unfolding e Index_skip [OF l] using Nil by (simp add: CRLF_def)
  next
    case (Cons k ks)
    then have "plain_line k" using Cons.prems by simp
    then have k: "k \<noteq> []" "hd k \<noteq> CR" by (cases k; auto simp: plain_line_def)+
    then have "\<not> HasPrefix ?rest CRLF" using Cons by (cases k) (simp_all add: HasPrefix_def CRLF_def)
    then have "Index (CRLF @ ?rest) (CRLF @ CRLF) = map_option (\<lambda>i. i + 2) (Index ?rest (CRLF @ CRLF))"
      by (simp add: CRLF_def HasPrefix_def option.map_comp o_def)
    moreover obtain i where "Index ?rest (CRLF @ CRLF) = Some i" "i + 2 = length (crlf_lines ls)"
      using Cons.IH Cons.prems Cons by auto
    ultimately show ?thesis unfolding e Index_skip [OF l] by (simp add: CRLF_def)
  qed
qed simp

lemma headerBlock_lines:
  assumes "ls \<noteq> []" "\<forall>l \<in> set ls. plain_line l"
  shows "headerBlock (crlf_lines ls @ CRLF @ r) = crlf_lines ls @ CRLF"
proof -
  obtain i where i: "Index (crlf_lines ls @ CRLF @ r) (CRLF @ CRLF) = Some i" "i + 2 = length (crlf_lines ls)"
    using Index_blank_line [OF assms] by blast
  have "i + 4 = length (crlf_lines ls @ CRLF)" using i(2) by (simp add: CRLF_def)
  then have "take (i + 4) ((crlf_lines ls @ CRLF) @ r) = crlf_lines ls @ CRLF" by simp
  then show ?thesis by (simp add: headerBlock_def i(1))
qed

definition header_of :: "string \<Rightarrow> composed \<Rightarrow> hblock" where
  "header_of date m = block_of (composed_lines date m) True"

lemma composed_header:
  assumes "\<not> list_ex (\<lambda>v. ContainsAny v [CR, LF, NUL]) (unsafe m)" "one_line date"
  shows "headerBlock (composed_head date m @ cmBody m) = composed_head date m"
    and "parseBlock (composed_head date m) = Inr (header_of date m)"
    and "map fName (bFields (header_of date m)) = [''from'', ''to'', ''subject'', ''date'', ''content-type'']"
    and "blk_value (header_of date m) ''subject'' = TrimSpace (cmSubject m)"
    and "blk_value (header_of date m) ''from'' = TrimSpace (cmHeaderFrom m)"
proof -
  note plain = composed_plain [OF assms]
  have ne: "composed_lines date m \<noteq> []" by (simp add: composed_lines_def)
  show "headerBlock (composed_head date m @ cmBody m) = composed_head date m"
    using headerBlock_lines [OF ne plain] by (simp add: composed_head_lines)
  show "parseBlock (composed_head date m) = Inr (header_of date m)"
    using parseBlock_lines [OF plain, of True] by (simp add: composed_head_lines header_of_def)
  have names: "line_name (''From: '' @ v) = ''from''" "line_name (''To: '' @ v) = ''to''" "line_name (''Subject: '' @ v) = ''subject''"
    "line_name (''Date: '' @ v) = ''date''" "line_name (''Content-Type: '' @ v) = ''content-type''" for v
    by (simp_all add: line_name_def) code_simp+
  have hd: "\<not> starts_folded (''From: '' @ v)" "\<not> starts_folded (''To: '' @ v)" "\<not> starts_folded (''Subject: '' @ v)"
    "\<not> starts_folded (''Date: '' @ v)" "\<not> starts_folded (''Content-Type: '' @ v)" for v
    by (simp_all add: starts_folded_def TAB_def)
  have b: "bFields (header_of date m) = map (\<lambda>l. \<lparr>fName = line_name l, fLines = [l]\<rparr>) (composed_lines date m)"
    using plain unfolding header_of_def block_of_def composed_lines_def
    by (simp add: add_line_eq hd [simplified])
  show "map fName (bFields (header_of date m)) = [''from'', ''to'', ''subject'', ''date'', ''content-type'']"
    unfolding b by (simp add: composed_lines_def names [simplified] TrimSpace_blank)
  show "blk_value (header_of date m) ''subject'' = TrimSpace (cmSubject m)"
    unfolding blk_value_def b by (simp add: composed_lines_def names [simplified] TrimSpace_blank)
  show "blk_value (header_of date m) ''from'' = TrimSpace (cmHeaderFrom m)"
    unfolding blk_value_def b by (simp add: composed_lines_def names [simplified] TrimSpace_blank)
qed

section \<open>One message per call\<close>

lemma draw_fst [simp]: "fst (snd (draw q)) = fst q"
  by (simp add: draw_def split: list.split)

lemma Enqueue_live: "Enqueue r1 r2 env body cap lifetime s = (r, s') \<Longrightarrow> live s' = live_after s r"
  by (auto simp: Enqueue_def Staged_Discard_live live_after_def dest!: Stage_live Commit_live split: sum.splits prod.splits)

lemma enqueue_composed_live:
  assumes "enqueue_composed m d lifetime now q = (r, q')"
  shows "queued q' = (case r of Inl e \<Rightarrow> queued q | Inr i \<Rightarrow> insert i (queued q))"
proof -
  obtain r1 q1 where a: "draw q = (r1, q1)" by (cases "draw q")
  obtain r2 q2 where b: "draw q1 = (r2, q2)" by (cases "draw q1")
  have "fst q2 = fst q" using draw_fst [of q] draw_fst [of q1] by (simp add: a b)
  moreover have "Enqueue r1 r2 (composed_env m now) (d, None) 0 lifetime (fst q2) = (r, fst q')"
    using assms by (auto simp: enqueue_composed_def a b on_spool_def split: prod.splits)
  ultimately have "live (fst q') = live_after (fst q) r" using Enqueue_live [of r1 r2 "composed_env m now" "(d, None)" 0 lifetime "fst q2" r "fst q'"] by simp
  then show ?thesis unfolding queued_def live_after_def .
qed

lemma Send_queue:
  assumes "Send ml m lifetime now s = (r, s')"
  shows "queued (maQueue s') = (case r of Inl e \<Rightarrow> queued (maQueue s) | Inr i \<Rightarrow> insert i (queued (maQueue s)))"
    and "(\<exists>i. r = Inr i) \<Longrightarrow> \<not> list_ex (\<lambda>v. ContainsAny v [CR, LF, NUL]) (unsafe m)"
proof -
  let ?d = "composed_head (mlFormatTime ml now) m @ cmBody m"
  obtain x q where e: "enqueue_composed m ?d lifetime now (maQueue s) = (x, q)" by (cases "enqueue_composed m ?d lifetime now (maQueue s)")
  let ?bad = "list_ex (\<lambda>v. ContainsAny v [CR, LF, NUL]) (unsafe m)"
  have send: "(r, s') = (if ?bad then (Inl ErrControl, s)
      else case x of Inl e \<Rightarrow> (Inl (ErrEnqueue e), s\<lparr>maQueue := q\<rparr>)
        | Inr i \<Rightarrow> (case mlRecord ml (composed_record m ?d i lifetime now) (maJournal s) of
             (None, j) \<Rightarrow> (Inr i, s\<lparr>maQueue := q, maJournal := j\<rparr>)
           | (Some e, j) \<Rightarrow> (Inr i, s\<lparr>maQueue := q, maJournal := j, maUnrecorded := maUnrecorded s + 1\<rparr>)))"
    unfolding assms [symmetric] Send_def Let_def e prod.case by (rule refl)
  note live = enqueue_composed_live [OF e]
  show "\<not> ?bad" if "\<exists>i. r = Inr i" using send that by (cases ?bad) auto
  show "queued (maQueue s') = (case r of Inl e \<Rightarrow> queued (maQueue s) | Inr i \<Rightarrow> insert i (queued (maQueue s)))"
  proof (cases ?bad)
    case False
    show ?thesis
    proof (cases x)
      case (Inl e)
      then show ?thesis using send live unfolding if_not_P [OF False] by simp
    next
      case (Inr i)
      obtain err j where "mlRecord ml (composed_record m ?d i lifetime now) (maJournal s) = (err, j)" by fastforce
      then show ?thesis using send live Inr unfolding if_not_P [OF False] by (cases err) simp_all
    qed
  qed (use send in simp)
qed

end
