(* ===== verification/Bounce_Notifier.thy ===== *)
theory Bounce_Notifier
  imports Self_Mail Config_Types
begin

text \<open>
  \<open>internal/bounce/notifier.go\<close>: the failures of every client gathered into digest mails, with a cap on
  the digests of an hour. The mutex is released while a digest is composed and spooled; what the
  delivery workers record meanwhile is \<open>nfArrivals\<close>, one batch per digest. \<open>nfQueued\<close> is the log line
  of a digest that went out: its client, its total and how many entries it lists.

  The order in which a range meets the keys of the pending map is an argument.
\<close>

section \<open>Definitions\<close>

record 'j notifier_env =
  neCfg :: Config
  neMailer :: "'j mailer"
  neFind :: "id \<Rightarrow> 'j \<Rightarrow> (store_err + Message option) \<times> 'j"

record 'j Notifier =
  nfPending :: "string \<rightharpoonup> id list"
  nfOverflow :: "string \<Rightarrow> nat"
  nfHourStart :: instant
  nfSent :: int
  nfMail :: "'j mail_state"
  nfArrivals :: "(string \<times> id) list list"
  nfQueued :: "(string \<times> nat \<times> nat) list"

definition maxDigestEntries :: nat where "maxDigestEntries = 200"
definition maxPendingPerClient :: nat where "maxPendingPerClient = 10 * maxDigestEntries"

definition pending_ids :: "'j Notifier \<Rightarrow> string \<Rightarrow> id list" where
  "pending_ids n org = (case nfPending n org of None \<Rightarrow> [] | Some ids \<Rightarrow> ids)"

definition New_notifier :: "instant \<Rightarrow> 'j mail_state \<Rightarrow> (string \<times> id) list list \<Rightarrow> 'j Notifier" where
  "New_notifier now ma arrivals =
     \<lparr>nfPending = Map.empty, nfOverflow = (\<lambda>_. 0), nfHourStart = now, nfSent = 0, nfMail = ma,
      nfArrivals = arrivals, nfQueued = []\<rparr>"

definition RecordFail :: "string \<Rightarrow> id \<Rightarrow> 'j Notifier \<Rightarrow> 'j Notifier" where
  "RecordFail org i n =
     (if length (pending_ids n org) \<ge> maxPendingPerClient
      then n\<lparr>nfOverflow := (nfOverflow n)(org := nfOverflow n org + 1)\<rparr>
      else n\<lparr>nfPending := (nfPending n)(org \<mapsto> pending_ids n org @ [i])\<rparr>)"

text \<open>\<open>Pending\<close>: \<open>ps\<close> and \<open>os\<close> are the keys of the two maps.\<close>

definition Pending :: "string list \<Rightarrow> string list \<Rightarrow> 'j Notifier \<Rightarrow> nat" where
  "Pending ps os n =
     fold (\<lambda>k t. t + nfOverflow n k) os (fold (\<lambda>k t. t + length (pending_ids n k)) ps 0)"

definition recipientsFor :: "Config \<Rightarrow> string \<Rightarrow> string list" where
  "recipientsFor cfg org =
     (case find (\<lambda>cl. clName cl = org \<and> clNotify cl \<noteq> []) (Clients cfg) of
        Some cl \<Rightarrow> clNotify cl
      | None \<Rightarrow> bNotify (cBounce cfg))"

definition requeuePending :: "string \<Rightarrow> id list \<Rightarrow> nat \<Rightarrow> 'j Notifier \<Rightarrow> 'j Notifier" where
  "requeuePending org ids0 overflow0 n =
     (let room = maxPendingPerClient - length (pending_ids n org);
          (ids, overflow) = (if length ids0 > room then (take room ids0, overflow0 + (length ids0 - room))
                             else (ids0, overflow0))
      in n\<lparr>nfPending := (nfPending n)(org \<mapsto> pending_ids n org @ ids),
           nfOverflow := (nfOverflow n)(org := nfOverflow n org + overflow)\<rparr>)"

definition notifier_enqueue ::
  "'j notifier_env \<Rightarrow> string \<Rightarrow> string list \<Rightarrow> string \<Rightarrow> string \<Rightarrow> instant \<Rightarrow> 'j Notifier \<Rightarrow> (mail_err + id) \<times> 'j Notifier" where
  "notifier_enqueue ne source recipients subject body now n =
     (case Send (neMailer ne)
             \<lparr>cmHeaderFrom = bSender (cBounce (neCfg ne)), cmEnvelopeFrom = [], cmTo = recipients, cmSubject = subject,
              cmBody = body, cmOrigin = source, cmRoute = NotifyRoute (cBounce (neCfg ne)),
              cmListener = ''bounce-notifier'', cmKind = KindNotification\<rparr>
             (i64 (MaxLifetimeHours (cQueue (neCfg ne)) * hour)) now (nfMail n) of
        (r, ma) \<Rightarrow> (r, n\<lparr>nfMail := ma\<rparr>))"

section \<open>One digest\<close>

text \<open>The attempt that failed for good, looked for from the last one back.\<close>

definition final_attempt :: "att_row list \<Rightarrow> int \<times> string" where
  "final_attempt as =
     (case find (\<lambda>a. atClass a = ClassPermanent \<or> atClass a = ClassExpired) (rev as) of
        Some a \<Rightarrow> ((case atCode a of Some c \<Rightarrow> c | None \<Rightarrow> 0), atResp a)
      | None \<Rightarrow> (0, []))"

definition digest_entry :: "'j notifier_env \<Rightarrow> id \<Rightarrow> 'j \<Rightarrow> string \<times> 'j" where
  "digest_entry ne i j =
     (case neFind ne i j of
        (Inr (Some m), j') \<Rightarrow>
          (case final_attempt (mgAttempts m) of (code, resp) \<Rightarrow>
            (CRLF @ ''Queue ID:   '' @ i @ CRLF @ ''From:       '' @ recFrom (rowRec (mgRow m)) @ CRLF @
             ''To:         '' @ Join (recRecipients (rowRec (mgRow m))) '', '' @ CRLF @
             ''Subject:    '' @ mgSubject m @ CRLF @ ''Response:   '' @ dec_int code @ '' '' @ resp @ CRLF, j'))
      | (_, j') \<Rightarrow> (CRLF @ ''Queue ID:   '' @ i @ CRLF @ ''(history record unavailable)'' @ CRLF, j'))"

fun digest_entries :: "'j notifier_env \<Rightarrow> id list \<Rightarrow> 'j \<Rightarrow> string \<times> 'j" where
  "digest_entries ne [] j = ([], j)"
| "digest_entries ne (i # is) j =
     (case digest_entry ne i j of (t, j1) \<Rightarrow> (case digest_entries ne is j1 of (ts, j2) \<Rightarrow> (t @ ts, j2)))"

definition send_digest ::
  "'j notifier_env \<Rightarrow> string \<Rightarrow> string list \<Rightarrow> id list \<Rightarrow> nat \<Rightarrow> instant \<Rightarrow> 'j Notifier \<Rightarrow> mail_err option \<times> 'j Notifier" where
  "send_digest ne org recipients ids overflow now n =
     (let total = length ids + overflow;
          subject = ''[smtprelayd] '' @ dec_nat total @ '' delivery failure(s) for '' @ org;
          listed = (if length ids > maxDigestEntries then take maxDigestEntries ids else ids);
          omitted = total - length listed
      in case digest_entries ne listed (maJournal (nfMail n)) of
           (entries, j) \<Rightarrow>
             (let body = dec_nat total @ '' message(s) from client '' @ quoted org @ '' could not be delivered:'' @ CRLF @
                         entries @
                         (if omitted > 0
                          then CRLF @ ''... and '' @ dec_nat omitted @ '' more, not listed here. All '' @ dec_nat total @
                               '' are in the history:'' @ CRLF @ ''the bounces view, filtered by client '' @ quoted org @ ''.'' @ CRLF
                          else [])
              in case notifier_enqueue ne org recipients subject body now (n\<lparr>nfMail := (nfMail n)\<lparr>maJournal := j\<rparr>\<rparr>) of
                   (Inl e, n') \<Rightarrow> (Some e, n')
                 | (Inr i, n') \<Rightarrow> (None, n'\<lparr>nfQueued := nfQueued n' @ [(org, total, length listed)]\<rparr>)))"

section \<open>A pass\<close>

text \<open>What the workers record while a digest is composed.\<close>

definition arrive :: "'j Notifier \<Rightarrow> 'j Notifier" where
  "arrive n =
     (case nfArrivals n of
        [] \<Rightarrow> n
      | fs # rest \<Rightarrow> fold (\<lambda>(org, i). RecordFail org i) fs (n\<lparr>nfArrivals := rest\<rparr>))"

definition digest_turn ::
  "'j notifier_env \<Rightarrow> (string \<rightharpoonup> id list) \<Rightarrow> (string \<Rightarrow> nat) \<Rightarrow> instant \<Rightarrow> string \<Rightarrow> 'j Notifier \<Rightarrow> 'j Notifier" where
  "digest_turn ne pend over now org n =
     (let ids = the (pend org); recipients = recipientsFor (neCfg ne) org in
      if recipients = [] then n
      else if nfSent n \<ge> MaxPerHour (cBounce (neCfg ne)) then requeuePending org ids (over org) n
      else case send_digest ne org recipients ids (over org) now (n\<lparr>nfSent := nfSent n + 1\<rparr>) of
             (None, n1) \<Rightarrow> arrive n1
           | (Some e, n1) \<Rightarrow>
               (let n2 = arrive n1;
                    n3 = (if nfSent n2 > 0 then n2\<lparr>nfSent := nfSent n2 - 1\<rparr> else n2)
                in requeuePending org ids (over org) n3))"

definition dispatch_digests :: "'j notifier_env \<Rightarrow> string list \<Rightarrow> instant \<Rightarrow> 'j Notifier \<Rightarrow> 'j Notifier" where
  "dispatch_digests ne order now n =
     (let n1 = (if time_sub now (nfHourStart n) \<ge> hour then n\<lparr>nfHourStart := now, nfSent := 0\<rparr> else n)
      in fold (digest_turn ne (nfPending n1) (nfOverflow n1) now) order
           (n1\<lparr>nfPending := Map.empty, nfOverflow := (\<lambda>_. 0)\<rparr>))"

definition Notify ::
  "'j notifier_env \<Rightarrow> string \<Rightarrow> string \<Rightarrow> string \<Rightarrow> instant \<Rightarrow> 'j Notifier \<Rightarrow> mail_err option \<times> 'j Notifier" where
  "Notify ne source subject body now n =
     (let recipients = recipientsFor (neCfg ne) source in
      if recipients = [] then (None, n)
      else case notifier_enqueue ne source recipients subject body now n of
             (Inl e, n') \<Rightarrow> (Some e, n')
           | (Inr i, n') \<Rightarrow> (None, n'))"

text \<open>\<open>Run\<close> and \<open>Flush\<close>: a pass at every tick, and one at shutdown. A tick is its reading of the clock and the order
  its range takes.\<close>

definition Run_notifier :: "'j notifier_env \<Rightarrow> (string list \<times> instant) list \<Rightarrow> 'j Notifier \<Rightarrow> 'j Notifier" where
  "Run_notifier ne ticks n =
     (if i64 (DigestMinutes (cBounce (neCfg ne)) * minute) \<le> 0 then n
      else fold (\<lambda>(order, now). dispatch_digests ne order now) ticks n)"

section \<open>What one client has waiting and what it was told\<close>

definition held :: "string \<Rightarrow> 'j Notifier \<Rightarrow> nat" where
  "held org n = length (pending_ids n org) + nfOverflow n org"

definition told :: "string \<Rightarrow> 'j Notifier \<Rightarrow> nat" where
  "told org n = sum_list (map (\<lambda>(o', t, l). if o' = org then t else 0) (nfQueued n))"

definition of_client :: "string \<Rightarrow> (string \<times> id) list \<Rightarrow> nat" where
  "of_client org fs = length (filter (\<lambda>f. fst f = org) fs)"

lemma of_client_simps [simp]:
  "of_client org [] = 0" "of_client org (f # fs) = (if fst f = org then 1 else 0) + of_client org fs"
  "of_client org (fs @ gs) = of_client org fs + of_client org gs"
  by (simp_all add: of_client_def)

text \<open>Counted failures exist only beside a full list, so a drained client is always visited.\<close>

definition notifier_ok :: "'j Notifier \<Rightarrow> bool" where
  "notifier_ok n \<longleftrightarrow> (\<forall>org. length (pending_ids n org) \<le> maxPendingPerClient \<and>
     (nfOverflow n org > 0 \<longrightarrow> nfPending n org \<noteq> None))"

lemma notifier_ok_cong:
  "nfPending n' = nfPending n \<Longrightarrow> nfOverflow n' = nfOverflow n \<Longrightarrow> notifier_ok n' = notifier_ok n"
  by (simp add: notifier_ok_def pending_ids_def)

lemma pending_upd [simp]:
  "pending_ids (n\<lparr>nfSent := k\<rparr>) = pending_ids n" "pending_ids (n\<lparr>nfArrivals := a\<rparr>) = pending_ids n"
  "pending_ids (n\<lparr>nfOverflow := v\<rparr>) = pending_ids n" "pending_ids (n\<lparr>nfMail := m\<rparr>) = pending_ids n"
  "pending_ids (n\<lparr>nfQueued := q\<rparr>) = pending_ids n" "pending_ids (n\<lparr>nfHourStart := t\<rparr>) = pending_ids n"
  "pending_ids (n\<lparr>nfPending := (nfPending n)(org \<mapsto> ids)\<rparr>) = (pending_ids n)(org := ids)"
  by (auto simp: pending_ids_def)

lemma account_upd [simp]:
  "held org (n\<lparr>nfSent := k\<rparr>) = held org n" "held org (n\<lparr>nfArrivals := a\<rparr>) = held org n"
  "held org (n\<lparr>nfMail := m\<rparr>) = held org n" "held org (n\<lparr>nfQueued := q\<rparr>) = held org n"
  "told org (n\<lparr>nfSent := k\<rparr>) = told org n" "told org (n\<lparr>nfArrivals := a\<rparr>) = told org n"
  "told org (n\<lparr>nfMail := m\<rparr>) = told org n" "told org (n\<lparr>nfPending := p\<rparr>) = told org n"
  "told org (n\<lparr>nfOverflow := v\<rparr>) = told org n" "told org (n\<lparr>nfHourStart := t\<rparr>) = told org n"
  "held org (n\<lparr>nfHourStart := t\<rparr>) = held org n"
  "notifier_ok (n\<lparr>nfSent := k\<rparr>) = notifier_ok n" "notifier_ok (n\<lparr>nfArrivals := a\<rparr>) = notifier_ok n"
  "notifier_ok (n\<lparr>nfMail := m\<rparr>) = notifier_ok n" "notifier_ok (n\<lparr>nfQueued := q\<rparr>) = notifier_ok n"
  by (simp_all add: held_def told_def notifier_ok_def)

lemma RecordFail_account [simp]:
  "held org (RecordFail o' i n) = held org n + (if o' = org then 1 else 0)"
  "told org (RecordFail o' i n) = told org n"
  by (simp_all add: RecordFail_def held_def told_def)

lemma RecordFail_ok: "notifier_ok n \<Longrightarrow> notifier_ok (RecordFail o' i n)"
  by (auto simp: RecordFail_def notifier_ok_def pending_ids_def maxPendingPerClient_def maxDigestEntries_def
      split: option.splits)

lemma RecordFail_frame [simp]: "nfSent (RecordFail o' i n) = nfSent n" "nfArrivals (RecordFail o' i n) = nfArrivals n"
  "nfQueued (RecordFail o' i n) = nfQueued n" "nfHourStart (RecordFail o' i n) = nfHourStart n"
  by (simp_all add: RecordFail_def)

lemma record_all:
  "held org (fold (\<lambda>(org, i). RecordFail org i) fs n) = held org n + of_client org fs"
  "told org (fold (\<lambda>(org, i). RecordFail org i) fs n) = told org n"
  "nfSent (fold (\<lambda>(org, i). RecordFail org i) fs n) = nfSent n"
  "nfArrivals (fold (\<lambda>(org, i). RecordFail org i) fs n) = nfArrivals n"
  "nfQueued (fold (\<lambda>(org, i). RecordFail org i) fs n) = nfQueued n"
  "notifier_ok n \<Longrightarrow> notifier_ok (fold (\<lambda>(org, i). RecordFail org i) fs n)"
  by (induction fs arbitrary: n) (auto simp: RecordFail_ok)

lemma requeue_account [simp]:
  "held org (requeuePending o' ids v n) = held org n + (if o' = org then length ids + v else 0)"
  "told org (requeuePending o' ids v n) = told org n"
  "nfSent (requeuePending o' ids v n) = nfSent n" "nfArrivals (requeuePending o' ids v n) = nfArrivals n"
  "nfQueued (requeuePending o' ids v n) = nfQueued n"
  by (simp_all add: requeuePending_def held_def told_def Let_def)

lemma requeue_ok:
  assumes "notifier_ok n"
  shows "notifier_ok (requeuePending o' ids v n)"
proof -
  have "length (pending_ids n o') \<le> maxPendingPerClient" using assms by (simp add: notifier_ok_def)
  then have "\<not> maxPendingPerClient - length (pending_ids n o') < k \<Longrightarrow> length (pending_ids n o') + k \<le> maxPendingPerClient" for k
    by linarith
  then show ?thesis using assms by (auto simp: requeuePending_def notifier_ok_def Let_def)
qed

text \<open>The failures that arrived between two states: the batches of the tape used up.\<close>

definition arrived :: "'j Notifier \<Rightarrow> 'j Notifier \<Rightarrow> (string \<times> id) list \<Rightarrow> bool" where
  "arrived n n' fs \<longleftrightarrow> (\<exists>used. nfArrivals n = used @ nfArrivals n' \<and> concat used = fs)"

lemma arrived_refl: "nfArrivals n' = nfArrivals n \<Longrightarrow> arrived n n' []"
  by (auto simp: arrived_def intro: exI [of _ "[]"])

lemma arrived_trans: "arrived a b fs \<Longrightarrow> arrived b c gs \<Longrightarrow> arrived a c (fs @ gs)"
  unfolding arrived_def by (elim exE conjE) (rule exI, rule conjI, simp, simp)

lemma arrive_account:
  "\<exists>fs. arrived n (arrive n) fs \<and> (\<forall>org. held org (arrive n) = held org n + of_client org fs \<and> told org (arrive n) = told org n) \<and>
     nfSent (arrive n) = nfSent n \<and> nfQueued (arrive n) = nfQueued n \<and> (notifier_ok n \<longrightarrow> notifier_ok (arrive n))"
proof (cases "nfArrivals n")
  case Nil
  then show ?thesis by (intro exI [of _ "[]"]) (simp add: arrive_def arrived_refl)
next
  case (Cons fs rest)
  then show ?thesis
    by (intro exI [of _ fs]) (auto simp: arrive_def record_all arrived_def intro: exI [of _ "[fs]"])
qed

lemma send_digest_account:
  assumes "send_digest ne o' rs ids v now n = (e, n')"
  shows "held org n' = held org n" "notifier_ok n' = notifier_ok n" "nfArrivals n' = nfArrivals n" "nfSent n' = nfSent n"
    "told org n' = told org n + (if e = None \<and> o' = org then length ids + v else 0)"
  using assms
  by (auto simp: send_digest_def notifier_enqueue_def Let_def told_def held_def pending_ids_def notifier_ok_def
      split: prod.splits sum.splits)

text \<open>What a turn does with the failures of the client it serves, \<open>d\<close> being those it leaves unreported because
  nobody is to be told.\<close>

lemma digest_turn_account:
  fixes n :: "'j Notifier"
  assumes "notifier_ok n" and n'_def: "n' = digest_turn ne pend over now o' n"
  shows "\<exists>fs. arrived n n' fs \<and> notifier_ok n' \<and>
    (\<forall>org. held org n' + told org n' + (if o' = org \<and> recipientsFor (neCfg ne) o' = [] then length (the (pend o')) + over o' else 0) =
       held org n + told org n + of_client org fs + (if o' = org then length (the (pend o')) + over o' else 0))"
proof -
  let ?ids = "the (pend o')" and ?rs = "recipientsFor (neCfg ne) o'"
  consider "?rs = []" | "?rs \<noteq> []" "nfSent n \<ge> MaxPerHour (cBounce (neCfg ne))"
    | "?rs \<noteq> []" "\<not> nfSent n \<ge> MaxPerHour (cBounce (neCfg ne))" by blast
  then show ?thesis
  proof cases
    case 1
    then have "n' = n" by (simp add: n'_def digest_turn_def)
    then show ?thesis using assms(1) 1 by (intro exI [of _ "[]"]) (simp add: arrived_refl)
  next
    case 2
    then have "n' = requeuePending o' ?ids (over o') n" by (simp add: n'_def digest_turn_def)
    then show ?thesis using assms(1) 2 by (intro exI [of _ "[]"]) (simp add: arrived_refl requeue_ok)
  next
    case 3
    obtain e n1 where s: "send_digest ne o' ?rs ?ids (over o') now (n\<lparr>nfSent := nfSent n + 1\<rparr>) = (e, n1)" by fastforce
    obtain fs where a: "arrived n1 (arrive n1) fs" and a_acc: "\<And>org. held org (arrive n1) = held org n1 + of_client org fs"
        "\<And>org. told org (arrive n1) = told org n1" and a_ok: "notifier_ok n1 \<Longrightarrow> notifier_ok (arrive n1)"
      using arrive_account [of n1] by blast
    note sd = send_digest_account [OF s]
    have ok: "notifier_ok (arrive n1)" using a_ok sd(2) assms(1) by simp
    have arr: "arrived n (arrive n1) fs" using a sd(3) by (simp add: arrived_def)
    show ?thesis
    proof (cases e)
      case None
      then have "n' = arrive n1" using 3 s by (simp add: n'_def digest_turn_def)
      then show ?thesis using ok arr a_acc sd 3 None by (intro exI [of _ fs]) simp
    next
      case (Some x)
      let ?n3 = "if nfSent (arrive n1) > 0 then (arrive n1)\<lparr>nfSent := nfSent (arrive n1) - 1\<rparr> else arrive n1"
      have n': "n' = requeuePending o' ?ids (over o') ?n3" using 3 s Some by (simp add: n'_def digest_turn_def Let_def)
      then have "notifier_ok n'" using ok by (simp add: requeue_ok)
      moreover have "arrived n n' fs" using arr n' by (simp add: arrived_def)
      moreover have "held org n' = held org n + of_client org fs + (if o' = org then length ?ids + over o' else 0)"
          "told org n' = told org n" for org
        using n' a_acc sd Some by simp_all
      ultimately show ?thesis using 3 by (intro exI [of _ fs]) simp
    qed
  qed
qed

lemma turns_account:
  assumes "notifier_ok n" "distinct order"
  shows "\<exists>fs. arrived n (fold (digest_turn ne pend over now) order n) fs \<and>
    notifier_ok (fold (digest_turn ne pend over now) order n) \<and>
    (\<forall>org. held org (fold (digest_turn ne pend over now) order n) + told org (fold (digest_turn ne pend over now) order n) +
        (if org \<in> set order \<and> recipientsFor (neCfg ne) org = [] then length (the (pend org)) + over org else 0) =
       held org n + told org n + of_client org fs + (if org \<in> set order then length (the (pend org)) + over org else 0))"
  using assms
proof (induction order arbitrary: n)
  case Nil
  then show ?case by (intro exI [of _ "[]"]) (simp add: arrived_refl)
next
  case (Cons o' order)
  let ?n1 = "digest_turn ne pend over now o' n"
  obtain fs where f: "arrived n ?n1 fs" "notifier_ok ?n1"
    and fa: "\<And>org. held org ?n1 + told org ?n1 + (if o' = org \<and> recipientsFor (neCfg ne) o' = [] then length (the (pend o')) + over o' else 0) =
       held org n + told org n + of_client org fs + (if o' = org then length (the (pend o')) + over o' else 0)"
    using digest_turn_account [OF Cons.prems(1) refl, of ne pend over now o'] by blast
  let ?n2 = "fold (digest_turn ne pend over now) order ?n1"
  obtain gs where g: "arrived ?n1 ?n2 gs" "notifier_ok ?n2"
    and ga: "\<And>org. held org ?n2 + told org ?n2 + (if org \<in> set order \<and> recipientsFor (neCfg ne) org = [] then length (the (pend org)) + over org else 0) =
       held org ?n1 + told org ?n1 + of_client org gs + (if org \<in> set order then length (the (pend org)) + over org else 0)"
    using Cons.IH [OF f(2)] Cons.prems(2) by auto
  have "held org ?n2 + told org ?n2 +
        (if org \<in> set (o' # order) \<and> recipientsFor (neCfg ne) org = [] then length (the (pend org)) + over org else 0) =
       held org n + told org n + of_client org (fs @ gs) + (if org \<in> set (o' # order) then length (the (pend org)) + over org else 0)" for org
    using fa [of org] ga [of org] Cons.prems(2) by (cases "org = o'") (auto split: if_splits)
  then show ?case using arrived_trans [OF f(1) g(1)] g(2) by (intro exI [of _ "fs @ gs"]) simp
qed

lemma dispatch_account:
  fixes n n' :: "'j Notifier"
  assumes ok: "notifier_ok n" and order: "distinct order" "set order = dom (nfPending n)"
    and n'_def: "n' = dispatch_digests ne order now n"
  shows "\<exists>fs. arrived n n' fs \<and> notifier_ok n' \<and>
    (\<forall>org. recipientsFor (neCfg ne) org \<noteq> [] \<longrightarrow> held org n' + told org n' = held org n + told org n + of_client org fs) \<and>
    (\<forall>org. held org n' + told org n' \<le> held org n + told org n + of_client org fs)"
proof -
  let ?n1 = "if time_sub now (nfHourStart n) \<ge> hour then n\<lparr>nfHourStart := now, nfSent := 0\<rparr> else n"
  let ?n2 = "?n1\<lparr>nfPending := Map.empty, nfOverflow := (\<lambda>_. 0)\<rparr>"
  have same: "nfPending ?n1 = nfPending n" "nfOverflow ?n1 = nfOverflow n" by simp_all
  have n': "n' = fold (digest_turn ne (nfPending n) (nfOverflow n) now) order ?n2"
    unfolding n'_def dispatch_digests_def Let_def same by (rule refl)
  have ok2: "notifier_ok ?n2" by (simp add: notifier_ok_def pending_ids_def)
  have empty: "held org ?n2 = 0" "told org ?n2 = told org n" for org by (simp_all add: held_def pending_ids_def)
  have all: "(if org \<in> set order then length (the (nfPending n org)) + nfOverflow n org else 0) = held org n" for org
    using ok unfolding order(2) by (auto simp: held_def pending_ids_def notifier_ok_def domIff)
  obtain fs where f: "arrived ?n2 n' fs" "notifier_ok n'"
    and acc: "\<And>org. held org n' + told org n' +
        (if org \<in> set order \<and> recipientsFor (neCfg ne) org = [] then length (the (nfPending n org)) + nfOverflow n org else 0) =
       held org n + told org n + of_client org fs"
    using turns_account [OF ok2 order(1), of ne "nfPending n" "nfOverflow n" now] unfolding n' [symmetric] all empty by auto
  have "arrived n n' fs" using f(1) by (simp add: arrived_def split: if_splits)
  moreover have "held org n' + told org n' = held org n + told org n + of_client org fs" if "recipientsFor (neCfg ne) org \<noteq> []" for org
    using acc [of org] that by simp
  moreover have "held org n' + told org n' \<le> held org n + told org n + of_client org fs" for org
    using acc [of org] by linarith
  ultimately show ?thesis using f(2) by blast
qed

section \<open>A run of the notifier\<close>

text \<open>\<open>hs\<close> are the failures recorded so far, by a call of \<open>RecordFail\<close> between two passes or while a digest is
  being composed.\<close>

inductive notifier_run :: "'j notifier_env \<Rightarrow> 'j Notifier \<Rightarrow> (string \<times> id) list \<Rightarrow> bool" for ne where
  started: "notifier_run ne (New_notifier now ma arrivals) []"
| failure: "notifier_run ne n hs \<Longrightarrow> notifier_run ne (RecordFail org i n) (hs @ [(org, i)])"
| tick: "notifier_run ne n hs \<Longrightarrow> distinct order \<Longrightarrow> set order = dom (nfPending n) \<Longrightarrow>
    arrived n (dispatch_digests ne order now n) fs \<Longrightarrow> notifier_run ne (dispatch_digests ne order now n) (hs @ fs)"
| other: "notifier_run ne n hs \<Longrightarrow> notifier_run ne (snd (Notify ne source subject body now n)) hs"

lemma Notify_frame:
  "nfPending (snd (Notify ne source subject body now n)) = nfPending n"
  "nfOverflow (snd (Notify ne source subject body now n)) = nfOverflow n"
  "nfQueued (snd (Notify ne source subject body now n)) = nfQueued n"
  "nfSent (snd (Notify ne source subject body now n)) = nfSent n"
  by (auto simp: Notify_def notifier_enqueue_def Let_def split: prod.split sum.split)

lemma arrived_unique: "arrived n n' fs \<Longrightarrow> arrived n n' gs \<Longrightarrow> fs = gs"
  unfolding arrived_def by (metis append_same_eq)

lemma notifier_run_account:
  assumes "notifier_run ne n hs"
  shows "notifier_ok n \<and> (recipientsFor (neCfg ne) org \<noteq> [] \<longrightarrow> held org n + told org n = of_client org hs) \<and>
    held org n + told org n \<le> of_client org hs"
  using assms
proof induction
  case (started now ma arrivals)
  then show ?case by (simp add: New_notifier_def notifier_ok_def held_def told_def pending_ids_def)
next
  case (failure n hs o' i)
  then show ?case by (auto simp: RecordFail_ok)
next
  case (tick n hs order now fs)
  obtain gs where g: "arrived n (dispatch_digests ne order now n) gs" "notifier_ok (dispatch_digests ne order now n)"
    "recipientsFor (neCfg ne) org \<noteq> [] \<longrightarrow> held org (dispatch_digests ne order now n) + told org (dispatch_digests ne order now n)
       = held org n + told org n + of_client org gs"
    "held org (dispatch_digests ne order now n) + told org (dispatch_digests ne order now n) \<le> held org n + told org n + of_client org gs"
    using dispatch_account [OF _ tick.hyps(2,3) refl, of ne now] tick.IH by blast
  then show ?case using tick.IH arrived_unique [OF tick.hyps(4) g(1)] by auto
next
  case (other n hs source subject body now)
  then show ?case using Notify_frame [of ne source subject body now n]
    by (simp add: held_def told_def pending_ids_def cong: notifier_ok_cong)
qed

section \<open>The hourly cap\<close>

lemma digest_turn_sent:
  fixes n n' :: "'j Notifier"
  assumes "n' = digest_turn ne pend over now o' n" "0 \<le> nfSent n"
  shows "nfSent n' - nfSent n = int (length (nfQueued n')) - int (length (nfQueued n))"
    "nfSent n \<le> nfSent n'" "nfSent n' \<le> max (nfSent n) (MaxPerHour (cBounce (neCfg ne)))"
proof -
  have "nfSent n' - nfSent n = int (length (nfQueued n')) - int (length (nfQueued n)) \<and>
    nfSent n \<le> nfSent n' \<and> nfSent n' \<le> max (nfSent n) (MaxPerHour (cBounce (neCfg ne)))"
  proof (cases "recipientsFor (neCfg ne) o' = [] \<or> nfSent n \<ge> MaxPerHour (cBounce (neCfg ne))")
    case True
    then show ?thesis using assms by (auto simp: digest_turn_def Let_def)
  next
    case False
    let ?n0 = "n\<lparr>nfSent := nfSent n + 1\<rparr>"
    obtain e n1 where s: "send_digest ne o' (recipientsFor (neCfg ne) o') (the (pend o')) (over o') now ?n0 = (e, n1)" by fastforce
    have q: "length (nfQueued n1) = length (nfQueued n) + (if e = None then 1 else 0)"
      using s by (auto simp: send_digest_def notifier_enqueue_def Let_def split: prod.splits sum.splits)
    have "nfSent (arrive n1) = nfSent n1" "nfQueued (arrive n1) = nfQueued n1" using arrive_account [of n1] by blast+
    then show ?thesis using assms False s q send_digest_account(4) [OF s]
      by (cases e) (auto simp: digest_turn_def Let_def)
  qed
  then show "nfSent n' - nfSent n = int (length (nfQueued n')) - int (length (nfQueued n))"
    "nfSent n \<le> nfSent n'" "nfSent n' \<le> max (nfSent n) (MaxPerHour (cBounce (neCfg ne)))" by blast+
qed

lemma turns_sent:
  assumes "0 \<le> nfSent n"
  shows "nfSent (fold (digest_turn ne pend over now) order n) - nfSent n =
      int (length (nfQueued (fold (digest_turn ne pend over now) order n))) - int (length (nfQueued n)) \<and>
    nfSent n \<le> nfSent (fold (digest_turn ne pend over now) order n) \<and>
    nfSent (fold (digest_turn ne pend over now) order n) \<le> max (nfSent n) (MaxPerHour (cBounce (neCfg ne)))"
  using assms
proof (induction order arbitrary: n)
  case (Cons o' order)
  have "0 \<le> nfSent (digest_turn ne pend over now o' n)" using digest_turn_sent(2) [OF refl Cons.prems, of ne pend over now o'] Cons.prems by simp
  from Cons.IH [OF this] digest_turn_sent [OF refl Cons.prems, of ne pend over now o'] show ?case by auto
qed simp

lemma dispatch_sent:
  assumes "0 \<le> nfSent n" "n' = dispatch_digests ne order now n"
  shows "int (length (nfQueued n')) - int (length (nfQueued n)) \<le> max 0 (MaxPerHour (cBounce (neCfg ne)) -
      (if time_sub now (nfHourStart n) \<ge> hour then 0 else nfSent n)) \<and> 0 \<le> nfSent n'"
proof -
  let ?n1 = "if time_sub now (nfHourStart n) \<ge> hour then n\<lparr>nfHourStart := now, nfSent := 0\<rparr> else n"
  let ?n2 = "?n1\<lparr>nfPending := Map.empty, nfOverflow := (\<lambda>_. 0)\<rparr>"
  have n': "n' = fold (digest_turn ne (nfPending ?n1) (nfOverflow ?n1) now) order ?n2"
    unfolding assms(2) dispatch_digests_def Let_def by (rule refl)
  have s2: "nfSent ?n2 = (if time_sub now (nfHourStart n) \<ge> hour then 0 else nfSent n)" "nfQueued ?n2 = nfQueued n" by simp_all
  have "0 \<le> nfSent ?n2" using assms(1) by simp
  from turns_sent [OF this, of ne "nfPending ?n1" "nfOverflow ?n1" now order] show ?thesis
    unfolding n' [symmetric] s2 using assms(1) by (auto split: if_splits)
qed

section \<open>Properties\<close>

text \<open>C37: However the digests fare -- spooled, refused by a full spool, held back by the cap -- and whatever
  the workers record in the meantime, every failure of a client somebody is to be told about is either
  waiting for the next digest or was counted in one that went out, exactly once, and a client keeps at
  most 2000 queue IDs waiting.\<close>

theorem every_failure_is_reported:
  assumes "notifier_run ne n hs" and "recipientsFor (neCfg ne) org \<noteq> []"
  shows "of_client org hs = length (pending_ids n org) + nfOverflow n org + told org n \<and>
    length (pending_ids n org) \<le> 2000"
  using notifier_run_account [OF assms(1), of org] assms(2)
  by (auto simp: held_def notifier_ok_def maxPendingPerClient_def maxDigestEntries_def)

text \<open>A pass sends no more digests than the hour has left, and a digest that did not go out is not charged.\<close>

theorem digests_within_the_cap:
  assumes "0 \<le> nfSent n"
  shows "int (length (nfQueued (dispatch_digests ne order now n))) - int (length (nfQueued n)) \<le>
      max 0 (MaxPerHour (cBounce (neCfg ne)) - (if time_sub now (nfHourStart n) \<ge> hour then 0 else nfSent n)) \<and>
    0 \<le> nfSent (dispatch_digests ne order now n)"
  by (rule dispatch_sent [OF assms refl])

definition demo_notifier :: "nat notifier_env" where
  "demo_notifier =
     \<lparr>neCfg = Defaults\<lparr>cBounce := (cBounce Defaults)\<lparr>bNotify := [''ops@x''], bSender := ''relay@x'', MaxPerHour := 1\<rparr>\<rparr>,
      neMailer = \<lparr>mlRecord = (\<lambda>r j. (None, j + 1)), mlFormatTime = (\<lambda>t. ''now'')\<rparr>, neFind = (\<lambda>i j. (Inr None, j))\<rparr>"

text \<open>A spool that cannot take a digest: no random bytes for its queue ID.\<close>

definition demo_bounced :: "nat Notifier" where
  "demo_bounced = RecordFail ''d'' demo_id (RecordFail ''c'' demo_id (New_notifier 0
     \<lparr>maQueue = (demo_spool [], []), maJournal = 0, maUnrecorded = 0\<rparr> []))"

lemma demo_bounced_state: "nfPending demo_bounced = [''c'' \<mapsto> [demo_id], ''d'' \<mapsto> [demo_id]]" "nfArrivals demo_bounced = []"
  by (auto simp: demo_bounced_def RecordFail_def New_notifier_def pending_ids_def maxPendingPerClient_def maxDigestEntries_def)

theorem every_failure_is_reported_witness:
  "\<exists>n. notifier_run demo_notifier n [(''c'', demo_id), (''d'', demo_id)] \<and> nfQueued n = [] \<and>
     length (pending_ids n ''c'') + nfOverflow n ''c'' = 1 \<and> length (pending_ids n ''d'') + nfOverflow n ''d'' = 1"
proof -
  let ?n = "dispatch_digests demo_notifier [''c'', ''d''] 1 demo_bounced"
  have run0: "notifier_run demo_notifier demo_bounced (([] @ [(''c'', demo_id)]) @ [(''d'', demo_id)])"
    unfolding demo_bounced_def by (intro notifier_run.failure notifier_run.started)
  have ok: "notifier_ok demo_bounced" using notifier_run_account [OF run0] by blast
  obtain fs where f: "arrived demo_bounced ?n fs"
    using dispatch_account [OF ok _ _ refl, of "[''c'', ''d'']" demo_notifier 1] by (auto simp: demo_bounced_state)
  then have "fs = []" by (auto simp: arrived_def demo_bounced_state)
  then have run: "notifier_run demo_notifier ?n [(''c'', demo_id), (''d'', demo_id)]"
    using notifier_run.tick [OF run0, of "[''c'', ''d'']" 1 fs] f by (auto simp: demo_bounced_state)
  have told: "nfQueued ?n = []" by code_simp
  have rs: "recipientsFor (neCfg demo_notifier) org \<noteq> []" for org
    by (simp add: recipientsFor_def demo_notifier_def Defaults_def)
  show ?thesis
    using run told every_failure_is_reported [OF run rs, of "''c''"] every_failure_is_reported [OF run rs, of "''d''"]
    by (intro exI [of _ ?n]) (simp add: told_def)
qed

theorem digests_within_the_cap_witness:
  "length (nfQueued (dispatch_digests demo_notifier [''c'', ''d''] 1 demo_bounced)) \<le> 1"
proof -
  have s: "0 \<le> nfSent demo_bounced" "nfQueued demo_bounced = []" "nfSent demo_bounced = 0" by code_simp+
  have "MaxPerHour (cBounce (neCfg demo_notifier)) = 1" by (simp add: demo_notifier_def)
  then show ?thesis using digests_within_the_cap [OF s(1), of demo_notifier "[''c'', ''d'']" 1] by (simp add: s split: if_splits)
qed

end
