(* ===== verification/Queue_Action.thy ===== *)
theory Queue_Action
  imports Session_Queue
begin

text \<open>
  \<open>internal/queueaction/queueaction.go\<close>: the operator's two actions, which the dashboard and the API
  share. The queue and the journal are the interface values of an \<open>Actor\<close>. The hook of \<open>Requeue\<close> runs on
  the journal and the count of its lost writes, while the spool still holds the lease.
\<close>

section \<open>Definitions\<close>

datatype act_outcome = Done | Cleared | Busy | Missing | Failed

record ('q, 'j) Actor =
  acRequeue :: "id \<Rightarrow> ('j \<times> nat \<Rightarrow> 'j \<times> nat) \<Rightarrow> 'q \<Rightarrow> 'j \<times> nat \<Rightarrow> spool_err option \<times> 'q \<times> 'j \<times> nat"
  acDiscard :: "id \<Rightarrow> 'q \<Rightarrow> spool_err option \<times> 'q"
  acRecordRemoval :: "id \<Rightarrow> 'j \<Rightarrow> store_err option \<times> 'j"
  acRecordRequeue :: "id \<Rightarrow> 'j \<Rightarrow> store_err option \<times> 'j"
  acReconcile :: "id \<Rightarrow> 'j \<Rightarrow> (store_err + bool) \<times> 'j"
  acAudit :: "string \<Rightarrow> string \<Rightarrow> string \<Rightarrow> id \<Rightarrow> string \<Rightarrow> 'j \<Rightarrow> store_err option \<times> 'j"

text \<open>The queue, the journal and the journal writes that were lost.\<close>

type_synonym ('q, 'j) desk = "'q \<times> 'j \<times> nat"

definition counting :: "('j \<Rightarrow> store_err option \<times> 'j) \<Rightarrow> 'j \<times> nat \<Rightarrow> 'j \<times> nat" where
  "counting f jn = (case jn of (j, n) \<Rightarrow> (case f j of (None, j') \<Rightarrow> (j', n) | (Some e, j') \<Rightarrow> (j', n + 1)))"

definition audit :: "('q, 'j) Actor \<Rightarrow> string \<Rightarrow> string \<Rightarrow> string \<Rightarrow> id \<Rightarrow> string \<Rightarrow> 'j \<times> nat \<Rightarrow> 'j \<times> nat" where
  "audit ac by_whom source act i details jn = counting (acAudit ac by_whom source act i details) jn"

definition joinDetails :: "string \<Rightarrow> string \<Rightarrow> string" where
  "joinDetails a b = (if a = [] then b else if b = [] then a else a @ ''; '' @ b)"

definition operator_requeue ::
  "('q, 'j) Actor \<Rightarrow> id \<Rightarrow> string \<Rightarrow> string \<Rightarrow> string \<Rightarrow> ('q, 'j) desk \<Rightarrow> act_outcome \<times> ('q, 'j) desk" where
  "operator_requeue ac i by_whom source details d =
     (case d of (q, jn) \<Rightarrow>
      (case acRequeue ac i (counting (acRecordRequeue ac i)) q jn of
         (None, q', jn') \<Rightarrow> (Done, q', audit ac by_whom source ''requeue'' i details jn')
       | (Some e, q', jn') \<Rightarrow>
           (if e = ErrNotFound then Missing else if e = ErrBusy then Busy else Failed, q', jn')))"

definition operator_delete ::
  "('q, 'j) Actor \<Rightarrow> id \<Rightarrow> string \<Rightarrow> string \<Rightarrow> string \<Rightarrow> ('q, 'j) desk \<Rightarrow> act_outcome \<times> ('q, 'j) desk" where
  "operator_delete ac i by_whom source details d =
     (case d of (q, jn) \<Rightarrow>
      (case acDiscard ac i q of
         (None, q') \<Rightarrow> (Done, q', audit ac by_whom source ''delete'' i details (counting (acRecordRemoval ac i) jn))
       | (Some e, q') \<Rightarrow>
           (if e = ErrNotFound then
              (case jn of (j, n) \<Rightarrow>
               (case acReconcile ac i j of
                  (Inl x, j') \<Rightarrow> (Failed, q', j', n)
                | (Inr False, j') \<Rightarrow> (Missing, q', j', n)
                | (Inr True, j') \<Rightarrow>
                    (Cleared, q', audit ac by_whom source ''delete'' i
                       (joinDetails details ''no spool copy: history reconciled'') (j', n))))
            else (if e = ErrBusy then Busy else Failed, q', jn))))"

section \<open>What an outcome tells the operator\<close>

text \<open>
  The laws of a queue and a journal an operator acts on: \<open>gone\<close> says that nothing is left of a message,
  \<open>at_work\<close> that a worker has it, \<open>status\<close> what the journal calls it and \<open>tables\<close> what it has recorded of the
  messages, and \<open>removal\<close> that one removal of a message has been written into them.
\<close>

locale operated =
  fixes ac :: "('q, 'j) Actor"
    and gone :: "'q \<Rightarrow> id \<Rightarrow> bool" and at_work :: "'q \<Rightarrow> id \<Rightarrow> bool" and indexed :: "'q \<Rightarrow> id \<Rightarrow> bool"
    and sound :: "'q \<Rightarrow> bool" and status :: "'j \<Rightarrow> id \<Rightarrow> string option" and tables :: "'j \<Rightarrow> 't"
    and removal :: "id \<Rightarrow> 't \<Rightarrow> 't \<Rightarrow> bool"
  assumes discard_done: "acDiscard ac i q = (None, q') \<Longrightarrow> gone q' i \<and> \<not> at_work q i"
    and discard_missing: "acDiscard ac i q = (Some ErrNotFound, q') \<Longrightarrow> gone q' i \<and> \<not> at_work q i"
    and discard_busy: "acDiscard ac i q = (Some ErrBusy, q') \<Longrightarrow> at_work q i \<and> q' = q"
    and requeue_done: "sound q \<Longrightarrow> acRequeue ac i f q jn = (None, q', jn') \<Longrightarrow> indexed q' i \<and> \<not> at_work q' i \<and> jn' = f jn"
    and requeue_failed: "acRequeue ac i f q jn = (Some e, q', jn') \<Longrightarrow> jn' = jn"
    and reconcile_cleared: "acReconcile ac i j = (Inr True, j') \<Longrightarrow>
      status j i \<in> {Some StatusQueued, Some StatusDeferred} \<and> status j' i = Some StatusRemoved \<and> removal i (tables j) (tables j')"
    and removal_recorded: "acRecordRemoval ac i j = (None, j') \<Longrightarrow> status j' i = Some StatusRemoved \<and> removal i (tables j) (tables j')"
    and removal_lost: "acRecordRemoval ac i j = (Some lost, j') \<Longrightarrow> tables j' = tables j"
    and reconcile_kept: "acReconcile ac i j = (r, j') \<Longrightarrow> r \<noteq> Inr True \<Longrightarrow> tables j' = tables j"
    and audit_kept: "acAudit ac b s a i t j = (err, j') \<Longrightarrow> tables j' = tables j"
    and status_table: "tables j' = tables j \<Longrightarrow> status j' i = status j i"
begin

lemma audit_tables: "tables (fst (audit ac b s a i t jn)) = tables (fst jn)"
  using audit_kept by (cases jn) (auto simp: audit_def counting_def split: prod.split option.split)

lemma audit_counts: "snd jn \<le> snd (audit ac b s a i t jn)"
  by (cases jn) (auto simp: audit_def counting_def split: prod.split option.split)

lemma removal_counted:
  "(status (fst (counting (acRecordRemoval ac i) (j, n))) i = Some StatusRemoved \<and>
      removal i (tables j) (tables (fst (counting (acRecordRemoval ac i) (j, n))))) \<or>
   n < snd (counting (acRecordRemoval ac i) (j, n)) \<and> tables (fst (counting (acRecordRemoval ac i) (j, n))) = tables j"
  using removal_recorded [of i j] removal_lost [of i j] by (auto simp: counting_def split: prod.split option.split)

lemma delete_outcomes:
  assumes "operator_delete ac i b src det (q, j, n) = (out, q', j', n')"
  shows "(out \<in> {Done, Cleared, Missing} \<longrightarrow> gone q' i \<and> \<not> at_work q i) \<and>
    (out = Busy \<longrightarrow> at_work q i \<and> q' = q \<and> j' = j) \<and>
    (out = Done \<longrightarrow> status j' i = Some StatusRemoved \<and> removal i (tables j) (tables j') \<or> n < n' \<and> tables j' = tables j) \<and>
    (out = Cleared \<longrightarrow> status j i \<in> {Some StatusQueued, Some StatusDeferred} \<and>
       status j' i = Some StatusRemoved \<and> removal i (tables j) (tables j')) \<and>
    (out \<in> {Busy, Missing, Failed} \<longrightarrow> tables j' = tables j)"
proof -
  obtain r q1 where d: "acDiscard ac i q = (r, q1)" by fastforce
  consider "r = None" | "r = Some ErrNotFound" | e where "r = Some e" "e \<noteq> ErrNotFound" by (cases r) auto
  then show ?thesis
  proof cases
    case 1
    define k where "k = counting (acRecordRemoval ac i) (j, n)"
    have o: "out = Done" "q' = q1" "(j', n') = audit ac b src ''delete'' i det k"
      using assms d 1 by (simp_all add: operator_delete_def k_def)
    have "tables j' = tables (fst k)" "snd k \<le> n'"
      using audit_tables [of b src "''delete''" i det k] audit_counts [of k b src "''delete''" i det] o(3) by (metis fst_conv, metis snd_conv)
    then show ?thesis using o discard_done [of i q q1] d 1 removal_counted [of i j n] status_table [of j' "fst k" i]
      by (auto simp: k_def [symmetric])
  next
    case 2
    obtain x j1 where x: "acReconcile ac i j = (x, j1)" by fastforce
    show ?thesis
    proof (cases "x = Inr True")
      case True
      then have o: "out = Cleared" "q' = q1"
        "(j', n') = audit ac b src ''delete'' i (joinDetails det ''no spool copy: history reconciled'') (j1, n)"
        using assms d x 2 by (simp_all add: operator_delete_def)
      then have "tables j' = tables j1" by (metis audit_tables fst_conv)
      then show ?thesis using reconcile_cleared [of i j j1] discard_missing [of i q q1] status_table [of j' j1 i] o(1,2) d x 2 True by simp
    next
      case False
      then show ?thesis using assms d x 2 reconcile_kept [OF x False] discard_missing [of i q q1]
        by (cases x) (auto simp: operator_delete_def)
    qed
  next
    case 3
    then show ?thesis using assms d discard_busy [of i q q1] by (auto simp: operator_delete_def split: if_splits)
  qed
qed

lemma requeue_outcomes:
  assumes "sound q" "operator_requeue ac i b src det (q, j, n) = (out, q', j', n')"
  shows "(out = Done \<longrightarrow> indexed q' i \<and> \<not> at_work q' i \<and>
      tables j' = tables (fst (counting (acRecordRequeue ac i) (j, n)))) \<and>
    (out \<noteq> Done \<longrightarrow> j' = j \<and> n' = n) \<and> out \<noteq> Cleared"
proof -
  obtain r q1 jn where r: "acRequeue ac i (counting (acRecordRequeue ac i)) q (j, n) = (r, q1, jn)" by (metis prod_cases3)
  show ?thesis
  proof (cases r)
    case None
    then have "out = Done" "q' = q1" "(j', n') = audit ac b src ''requeue'' i det jn"
      using assms r by (simp_all add: operator_requeue_def)
    then show ?thesis using requeue_done [OF assms(1), of i _ "(j, n)" q1 jn] r None audit_tables [of b src "''requeue''" i det jn]
      by (metis act_outcome.distinct(1) fst_conv)
  next
    case (Some e)
    then show ?thesis using assms r requeue_failed [of i _ q "(j, n)" e q1 jn] by (auto simp: operator_requeue_def split: if_splits)
  qed
qed

end

section \<open>The spool and the history store\<close>

definition desk_actor :: "(spool, store) Actor" where
  "desk_actor =
     \<lparr>acRequeue = (\<lambda>i f s jn. Requeue i (Some (\<lambda>_. f)) s jn), acDiscard = Discard, acRecordRemoval = RecordRemoval,
      acRecordRequeue = RecordRequeue, acReconcile = ReconcileRemoved, acAudit = RecordAudit\<rparr>"

definition gone :: "spool \<Rightarrow> id \<Rightarrow> bool" where
  "gone s i \<longleftrightarrow> (\<forall>p \<in> message_files i. files s p = None) \<and> index s i = None \<and> fIndex s i = None"

definition status_of :: "store \<Rightarrow> id \<Rightarrow> string option" where
  "status_of s i = map_option (\<lambda>r. classToStatus (suClass (rowSum r))) (find (\<lambda>r. rowID r = i) (messages s))"

lemma status_upd:
  "find (\<lambda>r. rowID r = i) (upd_message i f rs) = map_option (\<lambda>r. r\<lparr>rowSum := f (rowSum r)\<rparr>) (find (\<lambda>r. rowID r = i) rs)"
  by (induction rs) (simp_all add: upd_message_def)

lemma find_has: "find (\<lambda>r. rowID r = i) (messages s) = None \<longleftrightarrow> \<not> has_message i s"
  by (auto simp: find_None_iff has_message_def)

text \<open>One removal of a message, written into its row and after the other attempts.\<close>

definition removal_written :: "id \<Rightarrow> msg_row list \<times> att_row list \<Rightarrow> msg_row list \<times> att_row list \<Rightarrow> bool" where
  "removal_written i before after \<longleftrightarrow>
     (\<exists>at. after = (upd_message i (attempt_summary at ClassRemoved None []) (fst before),
        snd before @ [\<lparr>atQueue = i, atNum = next_num i (snd before), atTime = at, atCode = None, atResp = [],
          atClass = ClassRemoved, atNext = None\<rparr>]))"

lemma RecordRemoval_tables:
  assumes "RecordRemoval i s = (e, s')"
  shows "e \<noteq> None \<Longrightarrow> messages s' = messages s \<and> attempts s' = attempts s"
    and "e = None \<Longrightarrow> status_of s' i = Some StatusRemoved \<and> removal_written i (messages s, attempts s) (messages s', attempts s')"
proof -
  note c = in_tx_cases [OF assms [unfolded RecordRemoval_def RecordAttempt_def Let_def]]
  show "e \<noteq> None \<Longrightarrow> messages s' = messages s \<and> attempts s' = attempts s" using c by blast
  assume "e = None"
  then have h: "find (\<lambda>r. rowID r = i) (messages s) \<noteq> None"
      and m: "messages s' = upd_message i (attempt_summary (rfc3339 (storeNow s)) ClassRemoved None []) (messages s)"
        "attempts s' = attempts s @ [\<lparr>atQueue = i, atNum = next_num i (attempts s), atTime = rfc3339 (storeNow s), atCode = None,
           atResp = [], atClass = ClassRemoved, atNext = None\<rparr>]"
    using c find_has by auto
  have "status_of s' i = Some StatusRemoved" using h unfolding status_of_def m(1) status_upd
    by (auto simp: attempt_summary_def classToStatus_def classStatus_def classes)
  then show "status_of s' i = Some StatusRemoved \<and> removal_written i (messages s, attempts s) (messages s', attempts s')"
    using m by (auto simp: removal_written_def)
qed

lemma ReconcileRemoved_cases:
  assumes "ReconcileRemoved i s = (r, s')"
  shows "r = Inr True \<Longrightarrow> status_of s i \<in> {Some StatusQueued, Some StatusDeferred} \<and> status_of s' i = Some StatusRemoved \<and>
      removal_written i (messages s, attempts s) (messages s', attempts s')"
    and "r \<noteq> Inr True \<Longrightarrow> messages s' = messages s \<and> attempts s' = attempts s"
proof -
  obtain x s1 where f: "FindMessageByID i s = (x, s1)" by fastforce
  note t = FindMessageByID_tables [OF f]
  obtain e s2 where rm: "RecordRemoval i s1 = (e, s2)" by fastforce
  have eq: "(r, s') = (case x of Inl e \<Rightarrow> (Inl e, s1) | Inr None \<Rightarrow> (Inr False, s1)
      | Inr (Some m) \<Rightarrow> if mgStatus m = StatusQueued \<or> mgStatus m = StatusDeferred
          then (case e of Some e' \<Rightarrow> (Inl e', s2) | None \<Rightarrow> (Inr True, s2)) else (Inr False, s1))"
    unfolding assms [symmetric] ReconcileRemoved_def f prod.case by (cases x) (simp_all add: rm split: option.split)
  show "r \<noteq> Inr True \<Longrightarrow> messages s' = messages s \<and> attempts s' = attempts s"
    using eq t RecordRemoval_tables(1) [OF rm] by (auto split: sum.splits option.splits if_splits)
  assume "r = Inr True"
  then obtain m where x: "x = Inr (Some m)" and st: "mgStatus m = StatusQueued \<or> mgStatus m = StatusDeferred"
      and e: "e = None" "s' = s2"
    using eq by (auto split: sum.splits option.splits if_splits)
  have "status_of s i = Some (mgStatus m)"
    using f x by (auto simp: FindMessageByID_def status_of_def scan_message_def split: prod.splits bool.splits option.splits
        dest!: db_call_tables)
  then show "status_of s i \<in> {Some StatusQueued, Some StatusDeferred} \<and> status_of s' i = Some StatusRemoved \<and>
      removal_written i (messages s, attempts s) (messages s', attempts s')"
    using st RecordRemoval_tables(2) [OF rm e(1)] e(2) t by simp
qed

lemma Discard_gone:
  assumes "Discard i s = (e, s')" "e = None \<or> e = Some ErrNotFound"
  shows "gone s' i \<and> i \<notin> leased s"
proof -
  have v: "Valid i" "i \<notin> leased s" using assms busy_Discard [of i s] by (auto simp: Discard_def split: if_splits)
  then show ?thesis using Discard_result(1) [OF assms(1) v] assms(2) by (auto simp: gone_def)
qed

lemma Discard_busy: "Discard i s = (Some ErrBusy, s') \<Longrightarrow> i \<in> leased s \<and> s' = s"
  using Discard_result(4) [of i s "Some ErrBusy" s'] busy_Discard [of i s]
  by (cases "Valid i"; cases "i \<in> leased s") (auto simp: Discard_def)

lemma Requeue_indexed:
  assumes "spool_inv s" "Requeue i (Some (\<lambda>_. f)) s jn = (None, s', jn')"
  shows "index s' i \<noteq> None \<and> i \<notin> leased s' \<and> jn' = f jn"
proof -
  let ?s1 = "s\<lparr>leased := insert i (leased s)\<rparr>"
  have v: "Valid i" "i \<notin> leased s" 
    using assms(2) busy_Requeue [of i s "Some (\<lambda>_. f)" jn] by (cases "Valid i"; cases "i \<in> leased s"; simp add: Requeue_def)+
  obtain e s2 where r: "(case index ?s1 i of Some cur \<Rightarrow> requeueLive cur ?s1 | None \<Rightarrow> requeueFailed i ?s1) = (e, s2)" by fastforce
  have e: "e = None" "s' = dropLease i s2" "jn' = f jn"
    using assms(2) v r by (auto simp: Requeue_def tryLease_def split: option.splits)
  have "index s2 i \<noteq> None"
  proof (cases "index s i")
    case None
    then show ?thesis using requeueFailed_ok(1) [OF _ v(1), of ?s1 s2] r e(1) by auto
  next
    case (Some m)
    have "mID m = i" using assms(1) Some by (auto simp: spool_inv_def entry_ok_def)
    then show ?thesis using r e(1) Some writeMeta_mID
      by (fastforce simp: requeueLive_def reset_meta_def putLocked_def Let_def split: prod.splits option.splits)
  qed
  then show ?thesis using e by (simp add: dropLease_def)
qed

interpretation desk: operated desk_actor gone "\<lambda>s i. i \<in> leased s" "\<lambda>s i. index s i \<noteq> None" spool_inv
    status_of "\<lambda>j. (messages j, attempts j)" removal_written
proof (unfold_locales, goal_cases)
  case (1 i q q')
  then show ?case using Discard_gone by (simp add: desk_actor_def)
next
  case (2 i q q')
  then show ?case using Discard_gone by (simp add: desk_actor_def)
next
  case (3 i q q')
  then show ?case using Discard_busy by (simp add: desk_actor_def)
next
  case (4 q i f jn q' jn')
  then show ?case using Requeue_indexed by (simp add: desk_actor_def)
next
  case (5 i f q jn e q' jn')
  then show ?case by (auto simp: desk_actor_def Requeue_def split: if_splits prod.splits option.splits)
next
  case (6 i j j')
  then show ?case using ReconcileRemoved_cases(1) by (simp add: desk_actor_def)
next
  case (7 i j j')
  then show ?case using RecordRemoval_tables(2) by (simp add: desk_actor_def)
next
  case (8 i j e j')
  then show ?case using RecordRemoval_tables(1) by (simp add: desk_actor_def)
next
  case (9 i j r j')
  then show ?case using ReconcileRemoved_cases(2) by (simp add: desk_actor_def)
next
  case (10 b s a i t j err j')
  then show ?case using RecordAudit_tables by (simp add: desk_actor_def)
next
  case (11 j' j i)
  then show ?case by (simp add: status_of_def)
qed

section \<open>The outcomes, on the relay's own spool and journal\<close>

text \<open>C38: What a delete answers is true. Done, Cleared and Missing all mean that no file of the message and no entry
  for it is left, and no worker had it; Busy means that one has it and that nothing was touched. Done means
  that the history calls the message removed and has one attempt more, the removal, whatever it was called
  before (a bounced one too), or that this write was lost, which is counted; Cleared means that the journal
  still called the message queued or deferred and now has the removal. After any other answer the
  history of the messages is as it was.\<close>

theorem delete_outcomes_are_true:
  assumes "operator_delete desk_actor i who src det (q, j, n) = (out, q', j', n')"
  shows "(out \<in> {Done, Cleared, Missing} \<longrightarrow> gone q' i \<and> i \<notin> leased q) \<and>
    (out = Busy \<longrightarrow> i \<in> leased q \<and> q' = q \<and> j' = j) \<and>
    (out = Done \<longrightarrow>
       status_of j' i = Some StatusRemoved \<and> removal_written i (messages j, attempts j) (messages j', attempts j') \<or>
       n < n' \<and> (messages j', attempts j') = (messages j, attempts j)) \<and>
    (out = Cleared \<longrightarrow> status_of j i \<in> {Some StatusQueued, Some StatusDeferred} \<and>
       status_of j' i = Some StatusRemoved \<and> removal_written i (messages j, attempts j) (messages j', attempts j')) \<and>
    (out \<in> {Busy, Missing, Failed} \<longrightarrow> (messages j', attempts j') = (messages j, attempts j))"
  by (rule desk.delete_outcomes [OF assms])

definition demo_orphan :: store where
  "demo_orphan = snd (RecordMessage (demo_record demo_id ''one'' second) demo_store)"

theorem delete_outcomes_are_true_witness:
  "case operator_delete desk_actor demo_id ''dashboard'' ''::1'' [] (demo_spool [], demo_orphan, 0) of
     (out, q', j', n') \<Rightarrow> out = Cleared \<and> status_of j' demo_id = Some StatusRemoved \<and> gone q' demo_id"
proof -
  obtain out q' j' n' where d: "operator_delete desk_actor demo_id ''dashboard'' ''::1'' [] (demo_spool [], demo_orphan, 0) = (out, q', j', n')"
    by (metis prod_cases4)
  have "fst (operator_delete desk_actor demo_id ''dashboard'' ''::1'' [] (demo_spool [], demo_orphan, 0)) = Cleared" by code_simp
  then have "out = Cleared" by (simp add: d)
  then show ?thesis using delete_outcomes_are_true [OF d] by (simp add: d)
qed

text \<open>A requeue that answers Done has the message indexed, out of every lease and the requeue recorded or its loss
  counted; any other answer leaves the journal alone.\<close>

theorem requeue_outcomes_are_true:
  assumes "spool_inv q" "operator_requeue desk_actor i who src det (q, j, n) = (out, q', j', n')"
  shows "(out = Done \<longrightarrow> index q' i \<noteq> None \<and> i \<notin> leased q' \<and>
      (messages j', attempts j') = (let k = fst (counting (RecordRequeue i) (j, n)) in (messages k, attempts k))) \<and>
    (out \<noteq> Done \<longrightarrow> j' = j \<and> n' = n) \<and> out \<noteq> Cleared"
  using desk.requeue_outcomes [OF assms] by (simp add: desk_actor_def Let_def)

theorem requeue_outcomes_are_true_witness:
  "case operator_requeue desk_actor demo_id ''dashboard'' ''::1'' [] (demo_spool [], demo_orphan, 0) of
     (out, q', j', n') \<Rightarrow> out = Missing \<and> j' = demo_orphan"
proof -
  obtain out q' j' n' where d: "operator_requeue desk_actor demo_id ''dashboard'' ''::1'' [] (demo_spool [], demo_orphan, 0) = (out, q', j', n')"
    by (metis prod_cases4)
  have "fst (operator_requeue desk_actor demo_id ''dashboard'' ''::1'' [] (demo_spool [], demo_orphan, 0)) = Missing" by code_simp
  then have "out = Missing" by (simp add: d)
  moreover have "spool_inv (demo_spool [])"
    by (simp add: spool_inv_def demo_spool_def index_total_def failed_total_def i64_def)
  ultimately show ?thesis using requeue_outcomes_are_true [OF _ d] by (simp add: d)
qed

end
