(* ===== verification/Listener_Accept.thy ===== *)
theory Listener_Accept
  imports Sender_Rewrite
begin

text \<open>
  \<open>internal/listener/listener.go\<close>: building the set of listeners, the accept loop of each and the shutdown.
  A server is its socket, its \<open>closed\<close> flag, its wait group, where its accept loop stands and the sessions
  it has started; the semaphore is shared by all of them. One action is one step of one goroutine
  between two synchronisation points (a critical section of \<open>closeMu\<close>, a send to or receive from the
  semaphore, \<open>Add\<close>, \<open>Done\<close>, \<open>Wait\<close>); \<open>act\<close> says whether it is possible and what it does, so a schedule is a
  list of actions. What a session does is \<open>handle\<close>, in \<open>Listener_Session\<close>.
\<close>

section \<open>Building the set\<close>

datatype set_err = SetMatcher | SetRouter router_err | SetPolicy string compile_err | SetNoCert string | SetMinTLS string

fun compile_rules :: "Client list \<Rightarrow> (string \<rightharpoonup> Rules) \<Rightarrow> set_err + (string \<rightharpoonup> Rules)" where
  "compile_rules [] rs = Inr rs"
| "compile_rules (c # cs) rs =
     (case Compile (clRewrite c) of
        Inl e \<Rightarrow> Inl (SetPolicy (clName c) e)
      | Inr r \<Rightarrow> compile_rules cs (rs(clName c \<mapsto> r)))"

text \<open>A server without TLS has no configuration; one with TLS has its minimum version.\<close>

record server_conf =
  scListener :: Listener
  scMinTLS :: "int option"

fun new_servers :: "bool \<Rightarrow> Listener list \<Rightarrow> server_conf list \<Rightarrow> set_err + server_conf list" where
  "new_servers cert [] out = Inr out"
| "new_servers cert (l # ls) out =
     (if lTLS l \<noteq> TLSNone then
        (if \<not> cert then Inl (SetNoCert (lName l))
         else case ParseTLSVersion (lMinTLS l) of
                None \<Rightarrow> Inl (SetMinTLS (lName l))
              | Some v \<Rightarrow> new_servers cert ls (out @ [\<lparr>scListener = l, scMinTLS = Some v\<rparr>]))
      else new_servers cert ls (out @ [\<lparr>scListener = l, scMinTLS = None\<rparr>]))"

record listener_set =
  lsMatch :: matcher
  lsRouter :: router
  lsRules :: "string \<rightharpoonup> Rules"
  lsServers :: "server_conf list"
  lsCap :: int

definition New_set :: "(string \<Rightarrow> ip_prefix option) \<Rightarrow> Config \<Rightarrow> bool \<Rightarrow> set_err + listener_set" where
  "New_set parse cfg cert =
     (case NewMatcher parse (Clients cfg) of
        None \<Rightarrow> Inl SetMatcher
      | Some m \<Rightarrow>
          (case New_router parse (Routes cfg) of
             Inl e \<Rightarrow> Inl (SetRouter e)
           | Inr r \<Rightarrow>
               (case compile_rules (Clients cfg) Map.empty of
                  Inl e \<Rightarrow> Inl e
                | Inr rules \<Rightarrow>
                    (case new_servers cert (Listeners cfg) [] of
                       Inl e \<Rightarrow> Inl e
                     | Inr ss \<Rightarrow> Inr \<lparr>lsMatch = m, lsRouter = r, lsRules = rules, lsServers = ss,
                                       lsCap = limMaxConnections (cLimits cfg)\<rparr>))))"

section \<open>Running it\<close>

definition acceptBackoffMax :: duration where "acceptBackoffMax = second"

definition next_delay :: "duration \<Rightarrow> duration" where
  "next_delay d = (if d = 0 then 5 * 1000000 else if 2 * d > acceptBackoffMax then acceptBackoffMax else 2 * d)"

datatype socket = NoSocket | Listening | SocketClosed

text \<open>Where an accept loop stands: in \<open>Accept\<close> (or the pause after a failed one), with a connection, with a
  connection and a slot of the semaphore, or returned.\<close>

datatype accept_pc = NotStarted | AtAccept | HasConn | HasSlot | Returned

record server =
  srSocket :: socket
  srClosed :: bool
  srPc :: accept_pc
  srDelay :: duration
  srWg :: nat
  srSessions :: nat
  srLeaving :: nat

datatype closing = Open | Stopping nat | StoppedFlag nat | Waiting nat | CloseDone

record listeners =
  liCap :: nat
  liSem :: nat
  liServers :: "server list"
  liClosing :: closing
  liCancelled :: bool

datatype action =
    Listen nat | Start nat | Cancel
  | Accepted nat | AcceptFailed nat | Slot nat | Refuse nat | Admit nat | TurnAway nat
  | SlotBack nat | SessionDone nat
  | CloseCall | SetClosed nat | CloseSocket nat | WaitReturns nat

definition srv :: "listeners \<Rightarrow> nat \<Rightarrow> server" where
  "srv s k = liServers s ! k"

definition upd :: "nat \<Rightarrow> (server \<Rightarrow> server) \<Rightarrow> listeners \<Rightarrow> listeners" where
  "upd k f s = s\<lparr>liServers := (liServers s)[k := f (srv s k)]\<rparr>"

text \<open>\<open>Set.Close\<close> goes through the servers twice: \<open>stopAccepting\<close> each, then \<open>Wait\<close> for each.\<close>

definition after_stop :: "nat \<Rightarrow> listeners \<Rightarrow> closing" where
  "after_stop k s = (if k + 1 < length (liServers s) then Stopping (k + 1) else Waiting 0)"

definition after_wait :: "nat \<Rightarrow> listeners \<Rightarrow> closing" where
  "after_wait k s = (if k + 1 < length (liServers s) then Waiting (k + 1) else CloseDone)"

fun guard_of :: "action \<Rightarrow> listeners \<Rightarrow> bool" where
  "guard_of (Listen k) s \<longleftrightarrow> k < length (liServers s) \<and> srSocket (srv s k) = NoSocket \<and> liClosing s = Open"
| "guard_of (Start k) s \<longleftrightarrow> k < length (liServers s) \<and> srPc (srv s k) = NotStarted \<and> srSocket (srv s k) \<noteq> NoSocket"
| "guard_of Cancel s \<longleftrightarrow> True"
| "guard_of (Accepted k) s \<longleftrightarrow> k < length (liServers s) \<and> srPc (srv s k) = AtAccept \<and> srSocket (srv s k) = Listening"
| "guard_of (AcceptFailed k) s \<longleftrightarrow> k < length (liServers s) \<and> srPc (srv s k) = AtAccept"
| "guard_of (Slot k) s \<longleftrightarrow> k < length (liServers s) \<and> srPc (srv s k) = HasConn \<and> liSem s < liCap s"
| "guard_of (Refuse k) s \<longleftrightarrow> k < length (liServers s) \<and> srPc (srv s k) = HasConn \<and> \<not> liSem s < liCap s"
| "guard_of (Admit k) s \<longleftrightarrow> k < length (liServers s) \<and> srPc (srv s k) = HasSlot \<and> \<not> srClosed (srv s k)"
| "guard_of (TurnAway k) s \<longleftrightarrow> k < length (liServers s) \<and> srPc (srv s k) = HasSlot \<and> srClosed (srv s k)"
| "guard_of (SlotBack k) s \<longleftrightarrow> k < length (liServers s) \<and> srSessions (srv s k) > 0"
| "guard_of (SessionDone k) s \<longleftrightarrow> k < length (liServers s) \<and> srLeaving (srv s k) > 0"
| "guard_of CloseCall s \<longleftrightarrow> liClosing s = Open"
| "guard_of (SetClosed k) s \<longleftrightarrow> liClosing s = Stopping k \<and> k < length (liServers s)"
| "guard_of (CloseSocket k) s \<longleftrightarrow> liClosing s = StoppedFlag k \<and> k < length (liServers s)"
| "guard_of (WaitReturns k) s \<longleftrightarrow> liClosing s = Waiting k \<and> k < length (liServers s) \<and> srWg (srv s k) = 0"

text \<open>A failed \<open>Accept\<close> returns from the loop when the socket is closed or the context cancelled; otherwise it
  is tried again after a pause.\<close>

fun effect :: "action \<Rightarrow> listeners \<Rightarrow> listeners" where
  "effect (Listen k) s = upd k (\<lambda>r. r\<lparr>srSocket := Listening\<rparr>) s"
| "effect (Start k) s = upd k (\<lambda>r. r\<lparr>srPc := AtAccept\<rparr>) s"
| "effect Cancel s = s\<lparr>liCancelled := True\<rparr>"
| "effect (Accepted k) s = upd k (\<lambda>r. r\<lparr>srPc := HasConn, srDelay := 0\<rparr>) s"
| "effect (AcceptFailed k) s =
     (if srSocket (srv s k) = SocketClosed \<or> liCancelled s then upd k (\<lambda>r. r\<lparr>srPc := Returned\<rparr>) s
      else upd k (\<lambda>r. r\<lparr>srDelay := next_delay (srDelay r)\<rparr>) s)"
| "effect (Slot k) s = (upd k (\<lambda>r. r\<lparr>srPc := HasSlot\<rparr>) s)\<lparr>liSem := liSem s + 1\<rparr>"
| "effect (Refuse k) s = upd k (\<lambda>r. r\<lparr>srPc := AtAccept\<rparr>) s"
| "effect (Admit k) s = upd k (\<lambda>r. r\<lparr>srPc := AtAccept, srWg := srWg r + 1, srSessions := srSessions r + 1\<rparr>) s"
| "effect (TurnAway k) s = (upd k (\<lambda>r. r\<lparr>srPc := AtAccept\<rparr>) s)\<lparr>liSem := liSem s - 1\<rparr>"
| "effect (SlotBack k) s =
     (upd k (\<lambda>r. r\<lparr>srSessions := srSessions r - 1, srLeaving := srLeaving r + 1\<rparr>) s)\<lparr>liSem := liSem s - 1\<rparr>"
| "effect (SessionDone k) s = upd k (\<lambda>r. r\<lparr>srLeaving := srLeaving r - 1, srWg := srWg r - 1\<rparr>) s"
| "effect CloseCall s = s\<lparr>liClosing := (if liServers s = [] then CloseDone else Stopping 0)\<rparr>"
| "effect (SetClosed k) s = (upd k (\<lambda>r. r\<lparr>srClosed := True\<rparr>) s)\<lparr>liClosing := StoppedFlag k\<rparr>"
| "effect (CloseSocket k) s =
     (upd k (\<lambda>r. if srSocket r = Listening then r\<lparr>srSocket := SocketClosed\<rparr> else r) s)\<lparr>liClosing := after_stop k s\<rparr>"
| "effect (WaitReturns k) s = s\<lparr>liClosing := after_wait k s\<rparr>"

definition act :: "action \<Rightarrow> listeners \<Rightarrow> listeners option" where
  "act a s = (if guard_of a s then Some (effect a s) else None)"

fun acts :: "action list \<Rightarrow> listeners \<Rightarrow> listeners option" where
  "acts [] s = Some s"
| "acts (a # as) s = (case act a s of None \<Rightarrow> None | Some s' \<Rightarrow> acts as s')"

definition new_server :: server where
  "new_server = \<lparr>srSocket = NoSocket, srClosed = False, srPc = NotStarted, srDelay = 0, srWg = 0, srSessions = 0, srLeaving = 0\<rparr>"

definition new_listeners :: "nat \<Rightarrow> nat \<Rightarrow> listeners" where
  "new_listeners cap n =
     \<lparr>liCap = cap, liSem = 0, liServers = replicate n new_server, liClosing = Open, liCancelled = False\<rparr>"

section \<open>Invariant\<close>

definition holds_slots :: "server \<Rightarrow> nat" where
  "holds_slots r = srSessions r + (if srPc r = HasSlot then 1 else 0)"

definition stopped :: "nat \<Rightarrow> listeners \<Rightarrow> bool" where
  "stopped n s \<longleftrightarrow> (\<forall>j < n. srClosed (srv s j))"

definition waited :: "nat \<Rightarrow> listeners \<Rightarrow> bool" where
  "waited n s \<longleftrightarrow> (\<forall>j < n. srWg (srv s j) = 0)"

definition closing_ok :: "listeners \<Rightarrow> bool" where
  "closing_ok s = (case liClosing s of
      Open \<Rightarrow> True
    | Stopping k \<Rightarrow> stopped k s
    | StoppedFlag k \<Rightarrow> stopped (k + 1) s
    | Waiting k \<Rightarrow> k \<le> length (liServers s) \<and> stopped (length (liServers s)) s \<and> waited k s
    | CloseDone \<Rightarrow> stopped (length (liServers s)) s \<and> waited (length (liServers s)) s)"

definition listeners_ok :: "listeners \<Rightarrow> bool" where
  "listeners_ok s \<longleftrightarrow> liSem s = sum_list (map holds_slots (liServers s)) \<and> liSem s \<le> liCap s \<and>
     (\<forall>j < length (liServers s). srWg (srv s j) = srSessions (srv s j) + srLeaving (srv s j)) \<and> closing_ok s"

lemma upd_simps [simp]:
  "liCap (upd k f s) = liCap s" "liSem (upd k f s) = liSem s" "liClosing (upd k f s) = liClosing s"
  "liCancelled (upd k f s) = liCancelled s" "length (liServers (upd k f s)) = length (liServers s)"
  "k < length (liServers s) \<Longrightarrow> srv (upd k f s) j = (if j = k then f (srv s k) else srv s j)"
  "srv (s\<lparr>liSem := n\<rparr>) j = srv s j" "srv (s\<lparr>liClosing := c\<rparr>) j = srv s j" "srv (s\<lparr>liCancelled := b\<rparr>) j = srv s j"
  by (simp_all add: upd_def srv_def)

lemma slots_upd:
  assumes "k < length (liServers s)"
  shows "sum_list (map holds_slots (liServers (upd k f s))) + holds_slots (srv s k) =
    sum_list (map holds_slots (liServers s)) + holds_slots (f (srv s k))"
proof -
  have "holds_slots (liServers s ! k) \<le> sum_list (map holds_slots (liServers s))"
    using member_le_sum_list [of "holds_slots (liServers s ! k)" "map holds_slots (liServers s)"] assms by simp
  then show ?thesis using assms by (simp add: upd_def srv_def map_update sum_list_update)
qed

lemma slots_ge: "k < length (liServers s) \<Longrightarrow> holds_slots (srv s k) \<le> sum_list (map holds_slots (liServers s))"
  using member_le_sum_list [of "holds_slots (liServers s ! k)" "map holds_slots (liServers s)"] by (simp add: srv_def)

lemma slots_after:
  "k < length (liServers s) \<Longrightarrow> sum_list (map holds_slots (liServers (upd k f s))) =
    sum_list (map holds_slots (liServers s)) + holds_slots (f (srv s k)) - holds_slots (srv s k)"
  using slots_upd [of k s f] by simp

fun target :: "action \<Rightarrow> nat" where
  "target (Listen k) = k" | "target (Start k) = k" | "target Cancel = 0" | "target (Accepted k) = k"
| "target (AcceptFailed k) = k" | "target (Slot k) = k" | "target (Refuse k) = k" | "target (Admit k) = k"
| "target (TurnAway k) = k" | "target (SlotBack k) = k" | "target (SessionDone k) = k" | "target CloseCall = 0"
| "target (SetClosed k) = k" | "target (CloseSocket k) = k" | "target (WaitReturns k) = k"

lemma effect_slots:
  assumes "guard_of a s" "liSem s = sum_list (map holds_slots (liServers s))"
  shows "liSem (effect a s) = sum_list (map holds_slots (liServers (effect a s)))"
proof -
  have "target a < length (liServers s) \<Longrightarrow> holds_slots (srv s (target a)) \<le> sum_list (map holds_slots (liServers s))"
    by (rule slots_ge)
  then show ?thesis using assms by (cases a) (auto simp: slots_after holds_slots_def)
qed

lemma effect_cap:
  assumes "guard_of a s" "liSem s \<le> liCap s"
  shows "liSem (effect a s) \<le> liCap (effect a s)"
  using assms by (cases a) simp_all

lemma effect_liCap: "liCap (effect a s) = liCap s"
  by (cases a) simp_all

lemma effect_other: "guard_of a s \<Longrightarrow> j \<noteq> target a \<Longrightarrow> srv (effect a s) j = srv s j"
  by (cases a) simp_all

lemma effect_length: "length (liServers (effect a s)) = length (liServers s)"
  by (cases a) simp_all

lemma target_wg:
  assumes "guard_of a s" "srWg (srv s (target a)) = srSessions (srv s (target a)) + srLeaving (srv s (target a))"
  shows "srWg (srv (effect a s) (target a)) = srSessions (srv (effect a s) (target a)) + srLeaving (srv (effect a s) (target a))"
  using assms by (cases a) simp_all

lemma effect_wg:
  assumes "guard_of a s" "srWg (srv s j) = srSessions (srv s j) + srLeaving (srv s j)"
  shows "srWg (srv (effect a s) j) = srSessions (srv (effect a s) j) + srLeaving (srv (effect a s) j)"
  using target_wg [OF assms(1)] effect_other [OF assms(1), of j] assms(2) by (cases "j = target a") simp_all

text \<open>A closed server stays closed, and its wait group only goes down.\<close>

lemma target_closed:
  assumes "guard_of a s" "srClosed (srv s (target a))"
  shows "srClosed (srv (effect a s) (target a)) \<and> srWg (srv (effect a s) (target a)) \<le> srWg (srv s (target a))"
  using assms by (cases a) simp_all

lemma effect_closed:
  assumes "guard_of a s" "srClosed (srv s j)"
  shows "srClosed (srv (effect a s) j) \<and> srWg (srv (effect a s) j) \<le> srWg (srv s j)"
  using target_closed [OF assms(1)] effect_other [OF assms(1), of j] assms(2) by (cases "j = target a") simp_all

lemma effect_stopped: "guard_of a s \<Longrightarrow> stopped n s \<Longrightarrow> stopped n (effect a s)"
  using effect_closed unfolding stopped_def by blast

lemma effect_waited: "guard_of a s \<Longrightarrow> stopped n s \<Longrightarrow> m \<le> n \<Longrightarrow> waited m s \<Longrightarrow> waited m (effect a s)"
  using effect_closed unfolding stopped_def waited_def by (metis le_zero_eq order_less_le_trans)

lemma stopped_Suc: "stopped (Suc n) s \<longleftrightarrow> stopped n s \<and> srClosed (srv s n)"
  by (auto simp: stopped_def less_Suc_eq)

lemma waited_Suc: "waited (Suc n) s \<longleftrightarrow> waited n s \<and> srWg (srv s n) = 0"
  by (auto simp: waited_def less_Suc_eq)

lemma effect_closing:
  assumes g: "guard_of a s" and ok: "closing_ok s"
  shows "closing_ok (effect a s)"
proof (cases "liClosing (effect a s) = liClosing s")
  case True
  then show ?thesis using ok effect_stopped [OF g] effect_waited [OF g]
    by (cases "liClosing s") (auto simp: closing_ok_def effect_length)
next
  case False
  then consider "a = CloseCall" | k where "a = SetClosed k" | k where "a = CloseSocket k" | k where "a = WaitReturns k"
    by (cases a) (auto split: if_splits)
  then show ?thesis
  proof cases
    case 1
    then show ?thesis by (simp add: closing_ok_def stopped_def waited_def)
  next
    case 2
    then have "stopped k (effect a s)" "srClosed (srv (effect a s) k)" "liClosing (effect a s) = StoppedFlag k"
      using effect_stopped [OF g] g ok by (simp_all add: closing_ok_def)
    then show ?thesis by (simp add: closing_ok_def stopped_Suc)
  next
    case 3
    then have "stopped (Suc k) (effect a s)" "k < length (liServers s)" using effect_stopped [OF g] g ok by (simp_all add: closing_ok_def)
    then show ?thesis using 3 by (auto simp: closing_ok_def after_stop_def waited_def less_Suc_eq_le not_less stopped_def)
  next
    case 4
    then have "stopped (length (liServers s)) s" "waited (Suc k) s" "k < length (liServers s)"
      using g ok by (simp_all add: closing_ok_def waited_Suc)
    then show ?thesis using 4 by (auto simp: closing_ok_def after_wait_def stopped_def waited_def)
  qed
qed

lemma act_ok:
  assumes "act a s = Some s'" "listeners_ok s"
  shows "listeners_ok s'"
proof -
  have g: "guard_of a s" "s' = effect a s" using assms(1) by (simp_all add: act_def split: if_splits)
  have "\<forall>j < length (liServers s'). srWg (srv s' j) = srSessions (srv s' j) + srLeaving (srv s' j)"
    using effect_wg [OF g(1)] assms(2) unfolding g(2) effect_length listeners_ok_def by blast
  then show ?thesis
    using effect_slots [OF g(1)] effect_cap [OF g(1)] effect_closing [OF g(1)] assms(2)
    unfolding listeners_ok_def g(2) by blast
qed

lemma acts_ok: "acts as s = Some s' \<Longrightarrow> listeners_ok s \<Longrightarrow> listeners_ok s'"
  by (induction as arbitrary: s) (auto split: option.splits dest: act_ok)

lemma new_listeners_ok: "listeners_ok (new_listeners cap n)"
proof -
  have "sum_list (map holds_slots (replicate n new_server)) = 0"
    by (simp add: holds_slots_def new_server_def)
  then show ?thesis
    by (simp add: listeners_ok_def new_listeners_def closing_ok_def srv_def) (simp add: new_server_def)
qed

lemma acts_frame: "acts as s = Some s' \<Longrightarrow> liCap s' = liCap s \<and> length (liServers s') = length (liServers s)"
proof (induction as arbitrary: s)
  case (Cons a as)
  then obtain s1 where "act a s = Some s1" "acts as s1 = Some s'" by (auto split: option.splits)
  then show ?case using Cons.IH effect_liCap [of a s] effect_length [of a s]
    by (simp add: act_def split: if_splits)
qed simp

text \<open>Once closed, closed: the phase never goes back.\<close>

lemma close_done_stays: "act a s = Some s' \<Longrightarrow> liClosing s = CloseDone \<Longrightarrow> liClosing s' = CloseDone"
  by (cases a) (auto simp: act_def split: if_splits)

lemma close_done_acts: "acts as s = Some s' \<Longrightarrow> liClosing s = CloseDone \<Longrightarrow> liClosing s' = CloseDone"
  by (induction as arbitrary: s) (auto split: option.splits dest: close_done_stays)

section \<open>Properties\<close>

lemma sessions_within_the_limit:
  assumes "acts as (new_listeners cap n) = Some s"
  shows "sum_list (map srSessions (liServers s)) \<le> cap"
proof -
  have ok: "listeners_ok s" by (rule acts_ok [OF assms new_listeners_ok])
  have "sum_list (map srSessions (liServers s)) \<le> sum_list (map holds_slots (liServers s))"
    by (rule sum_list_mono) (simp add: holds_slots_def)
  moreover have "liCap s = cap" using acts_frame [OF assms] by (simp add: new_listeners_def)
  ultimately show ?thesis using ok unfolding listeners_ok_def by simp
qed

lemma closed_for_good:
  assumes "acts as (new_listeners cap n) = Some s" "liClosing s = CloseDone" "acts bs s = Some s'" "k < n"
  shows "srSessions (srv s' k) = 0 \<and> \<not> guard_of (Admit k) s'"
proof -
  have "listeners_ok s'" using acts_ok [OF assms(3) acts_ok [OF assms(1) new_listeners_ok]] .
  moreover have "liClosing s' = CloseDone" by (rule close_done_acts [OF assms(3,2)])
  moreover have "length (liServers s') = n"
    using acts_frame [OF assms(3)] acts_frame [OF assms(1)] by (simp add: new_listeners_def)
  ultimately have "srWg (srv s' k) = srSessions (srv s' k) + srLeaving (srv s' k)" "srClosed (srv s' k)" "srWg (srv s' k) = 0"
    using assms(4) unfolding listeners_ok_def closing_ok_def stopped_def waited_def by auto
  then show ?thesis by simp
qed

text \<open>C39: Whatever the schedule, the sessions running on all listeners together are never more than the connection
  limit; and when \<open>Close\<close> has returned no session is running on any listener and none ever starts, not even
  from a connection that \<open>Accept\<close> had handed out before the socket was closed.\<close>

theorem sessions_limited_and_drained:
  assumes "acts as (new_listeners cap n) = Some s"
  shows "sum_list (map srSessions (liServers s)) \<le> cap \<and>
    (liClosing s = CloseDone \<longrightarrow> (\<forall>bs s' k. acts bs s = Some s' \<and> k < n \<longrightarrow>
       srSessions (srv s' k) = 0 \<and> \<not> guard_of (Admit k) s'))"
  using sessions_within_the_limit [OF assms] closed_for_good [OF assms] by blast

text \<open>The steps of an accept loop, and how many are left once its socket is closed.\<close>

definition loop_actions :: "nat \<Rightarrow> action set" where
  "loop_actions k = {Accepted k, AcceptFailed k, Slot k, Refuse k, Admit k, TurnAway k}"

fun steps_left :: "accept_pc \<Rightarrow> nat" where
  "steps_left HasConn = 3" | "steps_left HasSlot = 2" | "steps_left AtAccept = 1" | "steps_left NotStarted = 1" | "steps_left Returned = 0"

lemma socket_stays: "guard_of a s \<Longrightarrow> srSocket (srv s k) = SocketClosed \<Longrightarrow> srSocket (srv (effect a s) k) = SocketClosed"
  by (cases "k = target a"; cases a) (simp_all add: effect_other)

lemma loop_step:
  assumes "guard_of a s" "srSocket (srv s k) = SocketClosed"
  shows "steps_left (srPc (srv (effect a s) k)) + (if a \<in> loop_actions k then 1 else 0) \<le> steps_left (srPc (srv s k))"
  using assms by (cases "k = target a"; cases a) (simp_all add: effect_other loop_actions_def)

lemma loop_count:
  "acts bs s = Some s' \<Longrightarrow> srSocket (srv s k) = SocketClosed \<Longrightarrow>
    steps_left (srPc (srv s' k)) + length (filter (\<lambda>a. a \<in> loop_actions k) bs) \<le> steps_left (srPc (srv s k))"
proof (induction bs arbitrary: s)
  case (Cons a bs)
  then have g: "guard_of a s" and r: "acts bs (effect a s) = Some s'" by (auto simp: act_def split: if_splits)
  from Cons.IH [OF r socket_stays [OF g Cons.prems(2)]] loop_step [OF g Cons.prems(2)]
  show ?case by (auto split: if_splits)
qed simp

text \<open>Once its socket is closed an accept loop takes at most three more steps, in whatever order the others run,
  and until it has returned one of them is possible: it neither spins nor hangs.\<close>

theorem accept_loop_returns:
  assumes "acts bs s = Some s'" "k < length (liServers s)" "srSocket (srv s k) = SocketClosed"
  shows "length (filter (\<lambda>a. a \<in> loop_actions k) bs) \<le> 3 \<and>
    (srPc (srv s' k) \<in> {AtAccept, HasConn, HasSlot} \<longrightarrow> (\<exists>a \<in> loop_actions k. guard_of a s'))"
proof -
  have "steps_left (srPc (srv s k)) \<le> 3" by (cases "srPc (srv s k)") simp_all
  then have "length (filter (\<lambda>a. a \<in> loop_actions k) bs) \<le> 3" using loop_count [OF assms(1,3)] by linarith
  moreover have "k < length (liServers s')" using acts_frame [OF assms(1)] assms(2) by simp
  ultimately show ?thesis by (auto simp: loop_actions_def)
qed

text \<open>Two listeners, a limit of one: a connection taken before the shutdown is served, one that \<open>Accept\<close> handed out
  before the socket was closed but that reached the lock after it is turned away.\<close>

definition demo_shutdown :: "action list" where
  "demo_shutdown = [Listen 0, Listen 1, Start 0, Start 1, Accepted 0, Slot 0, Accepted 1, Refuse 1, Admit 0, SlotBack 0,
     Accepted 1, Slot 1, Cancel, CloseCall, SetClosed 0, CloseSocket 0, SetClosed 1, CloseSocket 1, TurnAway 1,
     AcceptFailed 0, SessionDone 0, WaitReturns 0, WaitReturns 1]"

theorem sessions_limited_and_drained_witness:
  "\<exists>s. acts demo_shutdown (new_listeners 1 2) = Some s \<and> liClosing s = CloseDone \<and> srSessions (srv s 1) = 0"
proof -
  obtain s where s: "acts demo_shutdown (new_listeners 1 2) = Some s" "liClosing s = CloseDone"
    by (auto simp: demo_shutdown_def new_listeners_def new_server_def act_def upd_def srv_def after_stop_def after_wait_def next_delay_def)
  have "acts [] s = Some s" "(1::nat) < 2" by simp_all
  then have "srSessions (srv s 1) = 0" using sessions_limited_and_drained [OF s(1)] s(2) by blast
  then show ?thesis using s by blast
qed

theorem accept_loop_returns_witness:
  "\<exists>s s'. acts (take 18 demo_shutdown) (new_listeners 1 2) = Some s \<and> acts (drop 18 demo_shutdown) s = Some s' \<and>
     srPc (srv s 0) = AtAccept \<and> srPc (srv s' 0) = Returned \<and> length (filter (\<lambda>a. a \<in> loop_actions 0) (drop 18 demo_shutdown)) \<le> 3"
proof -
  obtain s s' where s: "acts (take 18 demo_shutdown) (new_listeners 1 2) = Some s" "acts (drop 18 demo_shutdown) s = Some s'"
    "srPc (srv s 0) = AtAccept" "srPc (srv s' 0) = Returned" "srSocket (srv s 0) = SocketClosed" "0 < length (liServers s)"
    by (auto simp: demo_shutdown_def new_listeners_def new_server_def act_def upd_def srv_def after_stop_def after_wait_def next_delay_def)
  from accept_loop_returns [OF s(2,6,5)] show ?thesis using s by blast
qed

end
