(* ===== verification/Listener_Start.thy ===== *)
theory Listener_Start
  imports Listener_Accept
begin

text \<open>
  A configuration the validator passes starts: what \<open>loadCertificate\<close> of \<open>cmd/smtprelayd/main.go\<close> loads is what
  \<open>listener.New\<close> needs, and nothing \<open>New\<close> compiles again can fail.
\<close>

definition loadCertificate :: "cfg_env \<Rightarrow> Config \<Rightarrow> unit + bool" where
  "loadCertificate E cfg =
     (if CertFile (cTLS cfg) = [] then Inr False
      else if LoadX509KeyPair E (CertFile (cTLS cfg)) (KeyFile (cTLS cfg)) then Inr True else Inl ())"

section \<open>What the validator says of the listeners\<close>

lemma v_clients_earlier: "errs (v_clients E c v) = [] \<Longrightarrow> errs v = []"
proof -
  assume a: "errs (v_clients E c v) = []"
  let ?v = "if Clients c = [] then
      (if anyPublic v then add_err ''client'' ''no client but a public listener: this would be an open relay'' v
       else add_err ''client'' ''at least one is required'' v) else v"
  obtain claimed v' where l: "v_client_loop E 0 (Clients c) ([], ?v) = (claimed, v')" by fastforce
  then have e: "errs v' = []" using a unfolding v_clients_def by simp
  have "errs ?v = []" using laterD [OF v_client_loop_later [OF later_snd [OF later_refl]]] l e by (metis snd_conv)
  then show ?thesis by (auto simp: no_errs split: if_split_asm)
qed

lemma v_routes_earlier: "errs (v_routes E c v) = [] \<Longrightarrow> errs v = []"
proof -
  assume a: "errs (v_routes E c v) = []"
  obtain o1 c1 v1 where l: "v_route_loop E 0 (Routes c) (Map.empty, [], v) = (o1, c1, v1)"
    by (cases "v_route_loop E 0 (Routes c) (Map.empty, [], v)") auto
  then have "errs v1 = []" using a by (auto simp: v_routes_def Let_def no_errs v_frame split: if_splits)
  then show ?thesis using laterD [OF v_route_loop_later [of v "(Map.empty, [], v)" E 0 "Routes c"]] l by (simp add: later_refl)
qed

lemma v_tls_ok:
  assumes "errs (v_tls E c v) = []"
  shows "errs v = [] \<and> (needsCert v \<longrightarrow> CertFile (cTLS c) \<noteq> [] \<and> LoadX509KeyPair E (CertFile (cTLS c)) (KeyFile (cTLS c)))"
  using assms by (auto simp: v_tls_def errs_refuse errs_add split: if_splits)

lemma needsCert_refuse [simp]: "needsCert (refuse b w m v) = needsCert v" "needsCert (add_err w m v) = needsCert v"
  by (simp_all add: refuse_def add_err_def)

lemma v_listener_ok:
  assumes "v_listener E w l (names, v) = (names', v')"
  shows "errs v' = [] \<Longrightarrow> errs v = [] \<and> (lMinTLS l = [] \<or> ParseTLSVersion (lMinTLS l) \<noteq> None)"
    and "needsCert v' \<longleftrightarrow> needsCert v \<or> lTLS l \<noteq> TLSNone"
  using assms by (auto simp: v_listener_def Let_def errs_refuse errs_add errs_upd split: if_splits option.splits prod.splits)

lemma v_listener_loop_ok:
  assumes "errs (v_listener_loop E i ls (names, v)) = []"
  shows "errs v = [] \<and> (\<forall>l \<in> set ls. lMinTLS l = [] \<or> ParseTLSVersion (lMinTLS l) \<noteq> None) \<and>
    (needsCert (v_listener_loop E i ls (names, v)) \<longleftrightarrow> needsCert v \<or> (\<exists>l \<in> set ls. lTLS l \<noteq> TLSNone))"
  using assms
proof (induction ls arbitrary: i names v)
  case (Cons l ls)
  obtain names' v' where r: "v_listener E (place ''listener'' i (lName l)) l (names, v) = (names', v')" by fastforce
  have e: "errs (v_listener_loop E (i + 1) ls (names', v')) = []" using Cons.prems r by simp
  from Cons.IH [OF e] v_listener_ok [OF r] show ?case by (auto simp: r)
qed simp

lemma Normalize_min_tls:
  "l \<in> set (Listeners (Normalize h c)) \<Longrightarrow> lTLS l \<noteq> TLSNone \<Longrightarrow> lMinTLS l \<noteq> []"
  by (auto simp: Normalize_def norm_listener_def Let_def defaultMinTLS_def)

lemma accepted_listeners:
  assumes "snd (Validate E c0) = []" and "c = fst (Validate E c0)"
  shows "\<forall>l \<in> set (Listeners c). lTLS l \<noteq> TLSNone \<longrightarrow> ParseTLSVersion (lMinTLS l) \<noteq> None"
    and "(\<exists>l \<in> set (Listeners c). lTLS l \<noteq> TLSNone) \<Longrightarrow> loadCertificate E c = Inr True"
    and "0 < limMaxConnections (cLimits c)"
proof -
  have c: "c = Normalize (osHostname E) c0" using assms(2) by (simp add: Validate_def Let_def)
  define v2 where "v2 = v_listeners E c (v_service E c newValidator)"
  define v3 where "v3 = v_tls E c v2"
  define v7 where "v7 = v_queue c (v_clientRoutes (Clients c) (v_routes E c (v_clients E c v3)))"
  define v12 where "v12 = v_canaries c (v_bounce c (v_history c (v_metrics E c (v_web E c v7))))"
  have e: "errs (v_limits c v12) = []"
    using assms(1) unfolding Validate_def Let_def snd_conv c [symmetric]
      v2_def [symmetric] v3_def [symmetric] v7_def [symmetric] v12_def [symmetric] .
  show "0 < limMaxConnections (cLimits c)" using e
    by (auto simp: v_limits_def Let_def errs_refuse errs_refuse_each errs_add split: if_splits)
  from v_limits_ok [OF e] have "errs v7 = []"
    unfolding v12_def by (metis laterD v_canaries_later v_bounce_later v_history_later v_metrics_later v_web_later)
  then have "errs (v_clients E c v3) = []"
    using v_queue_ok v_clientRoutes_ok v_routes_earlier unfolding v7_def by blast
  then have tls: "errs v2 = []" "needsCert v2 \<longrightarrow> CertFile (cTLS c) \<noteq> [] \<and> LoadX509KeyPair E (CertFile (cTLS c)) (KeyFile (cTLS c))"
    using v_clients_earlier v_tls_ok unfolding v3_def by blast+
  note ll = v_listener_loop_ok [OF tls(1) [unfolded v2_def v_listeners_def]]
  show "\<forall>l \<in> set (Listeners c). lTLS l \<noteq> TLSNone \<longrightarrow> ParseTLSVersion (lMinTLS l) \<noteq> None"
    using ll Normalize_min_tls unfolding c by blast
  show "loadCertificate E c = Inr True" if "\<exists>l \<in> set (Listeners c). lTLS l \<noteq> TLSNone"
    using that ll tls(2) by (auto simp: v2_def v_listeners_def loadCertificate_def)
qed

lemma new_servers_ok:
  assumes "\<forall>l \<in> set ls. lTLS l \<noteq> TLSNone \<longrightarrow> cert \<and> ParseTLSVersion (lMinTLS l) \<noteq> None"
  shows "\<exists>ss. new_servers cert ls out = Inr (out @ ss) \<and> map scListener ss = ls \<and>
    (\<forall>sc \<in> set ss. lTLS (scListener sc) \<noteq> TLSNone \<longrightarrow> scMinTLS sc \<noteq> None)"
  using assms
proof (induction ls arbitrary: out)
  case (Cons l ls)
  obtain v where v: "lTLS l \<noteq> TLSNone \<longrightarrow> cert \<and> ParseTLSVersion (lMinTLS l) = Some v" using Cons.prems by auto
  let ?sc = "\<lparr>scListener = l, scMinTLS = (if lTLS l \<noteq> TLSNone then Some v else None)\<rparr>"
  have n: "new_servers cert (l # ls) out = new_servers cert ls (out @ [?sc])" using v by simp
  have "\<forall>l \<in> set ls. lTLS l \<noteq> TLSNone \<longrightarrow> cert \<and> ParseTLSVersion (lMinTLS l) \<noteq> None" using Cons.prems by simp
  from Cons.IH [OF this, of "out @ [?sc]"] obtain ss where
    "new_servers cert ls (out @ [?sc]) = Inr ((out @ [?sc]) @ ss)" "map scListener ss = ls"
    "\<forall>sc \<in> set ss. lTLS (scListener sc) \<noteq> TLSNone \<longrightarrow> scMinTLS sc \<noteq> None" by blast
  then show ?case unfolding n by (intro exI [of _ "?sc # ss"]) simp
qed simp

lemma compile_rules_ok:
  "\<forall>cl \<in> set cls. \<exists>r. Compile (clRewrite cl) = Inr r \<Longrightarrow>
    \<exists>rs'. compile_rules cls rs = Inr rs' \<and> dom rs' = dom rs \<union> clName ` set cls"
proof (induction cls arbitrary: rs)
  case (Cons cl cls)
  obtain r where r: "Compile (clRewrite cl) = Inr r" using Cons.prems by auto
  have "\<forall>cl \<in> set cls. \<exists>r. Compile (clRewrite cl) = Inr r" using Cons.prems by simp
  from Cons.IH [OF this, of "rs(clName cl \<mapsto> r)"] obtain rs' where
    rs': "compile_rules cls (rs(clName cl \<mapsto> r)) = Inr rs'" "dom rs' = dom (rs(clName cl \<mapsto> r)) \<union> clName ` set cls" by blast
  then have "dom rs' = dom rs \<union> clName ` set (cl # cls)" by simp
  moreover have "compile_rules (cl # cls) rs = Inr rs'" using r rs'(1) by simp
  ultimately show ?case by blast
qed simp

section \<open>Property\<close>

text \<open>The listeners of a configuration that validates can always be built: the matcher, the router and every
  client's policy compile, the certificate a TLS listener needs is loaded, every listener of the
  configuration gets its server and every TLS server its minimum version, and the semaphore has room.\<close>

theorem accepted_config_starts:
  assumes ok: "snd (Validate E c0) = []" and c: "c = fst (Validate E c0)" and cert: "loadCertificate E c = Inr cert"
  shows "\<exists>ls. New_set (ParsePrefix E) c cert = Inr ls \<and> map scListener (lsServers ls) = Listeners c \<and>
    (\<forall>sc \<in> set (lsServers ls). lTLS (scListener sc) \<noteq> TLSNone \<longrightarrow> scMinTLS sc \<noteq> None) \<and>
    dom (lsRules ls) = clName ` set (Clients c) \<and> 0 < lsCap ls"
proof -
  obtain m r where m: "NewMatcher (ParsePrefix E) (Clients c) = Some m" and r: "New_router (ParsePrefix E) (Routes c) = Inr r"
    using Validate_ok(2,3) [OF ok c] by blast
  have "\<forall>cl \<in> set (Clients c). \<exists>r. Compile (clRewrite cl) = Inr r"
    using Validate_ok(7) [OF ok c] v_clientRewrite_compiles by blast
  from compile_rules_ok [OF this, of Map.empty] obtain rules where
    rules: "compile_rules (Clients c) Map.empty = Inr rules" "dom rules = clName ` set (Clients c)" by auto
  note al = accepted_listeners [OF ok c]
  have "\<forall>l \<in> set (Listeners c). lTLS l \<noteq> TLSNone \<longrightarrow> cert \<and> ParseTLSVersion (lMinTLS l) \<noteq> None"
    using al(1,2) cert by auto
  from new_servers_ok [OF this, of "[]"] obtain ss where
    "new_servers cert (Listeners c) [] = Inr ss" "map scListener ss = Listeners c"
    "\<forall>sc \<in> set ss. lTLS (scListener sc) \<noteq> TLSNone \<longrightarrow> scMinTLS sc \<noteq> None" by auto
  then show ?thesis using m r rules al(3) by (simp add: New_set_def)
qed

theorem accepted_config_starts_witness:
  "\<exists>ls. New_set (ParsePrefix demo_cfg_env) (fst (Validate demo_cfg_env demo_config)) False = Inr ls \<and> 0 < lsCap ls"
proof -
  have "loadCertificate demo_cfg_env (fst (Validate demo_cfg_env demo_config)) = Inr False"
    by (simp add: loadCertificate_def Validate_def Let_def Normalize_def demo_config_def Defaults_def)
  from accepted_config_starts [OF demo_config_valid refl this] show ?thesis by blast
qed

end
