(* ===== verification/Canary.thy ===== *)
theory Canary
  imports Self_Mail Config_Types
begin

text \<open>
  \<open>internal/canary/canary.go\<close>: one probe message on a schedule, every so many minutes or at fixed times of
  day in UTC. Waiting takes the wall clock from \<open>ticks\<close>, a list of readings, each with whether the select
  that follows it was left by a cancellation; the lemmas say that a probe is never early, that no slot of
  the schedule fires twice and that cancellation ends the wait.
\<close>

section \<open>The schedule\<close>

definition day :: duration where "day = 24 * hour"

lemma day_value: "day = 86400000000000"
  by (simp add: day_def time_units)

text \<open>Instants count from midnight UTC of Go's first day, so midnight is a multiple of a day.\<close>

definition midnight :: "instant \<Rightarrow> instant" where
  "midnight now = now - now mod day"

text \<open>\<open>None\<close> is the index out of range of an empty schedule.\<close>

definition nextDaily :: "instant \<Rightarrow> nat list \<Rightarrow> instant option" where
  "nextDaily now at =
     (case find (\<lambda>m. midnight now + int m * minute > now) at of
        Some m \<Rightarrow> Some (midnight now + int m * minute)
      | None \<Rightarrow> (case at of [] \<Rightarrow> None | m # _ \<Rightarrow> Some (midnight now + day + int m * minute)))"

definition maxDailyWait :: duration where "maxDailyWait = minute"

type_synonym ticks = "(instant \<times> bool) list"

text \<open>What \<open>waitUntil\<close> answers, the steps it slept and the readings left; no answer when the readings end first.\<close>

fun waitUntil :: "instant \<Rightarrow> ticks \<Rightarrow> bool option \<times> duration list \<times> ticks" where
  "waitUntil deadline [] = (None, [], [])"
| "waitUntil deadline ((now, cancelled) # ts) =
     (let d = time_sub deadline now in
      if d \<le> 0 then (Some True, [], ts)
      else (let step = (if d > maxDailyWait then maxDailyWait else d) in
            if cancelled then (Some False, [step], ts)
            else case waitUntil deadline ts of (r, steps, ts') \<Rightarrow> (r, step # steps, ts')))"

lemma waitUntil_shorter: "length (snd (snd (waitUntil deadline ts))) \<le> length ts"
proof (induction ts)
  case (Cons t ts)
  then show ?case by (cases t; cases "waitUntil deadline ts") (auto simp: Let_def)
qed simp

text \<open>The instants at which \<open>runDaily\<close> sends, as far as the readings go: the deadline each send waited for and
  the reading it was sent at.\<close>

function runDaily :: "nat list \<Rightarrow> ticks \<Rightarrow> (instant \<times> instant) list" where
  "runDaily at ts =
     (case ts of
        [] \<Rightarrow> []
      | (now, _) # ts1 \<Rightarrow>
          (case nextDaily now at of
             None \<Rightarrow> []
           | Some deadline \<Rightarrow>
               (case waitUntil deadline ts1 of
                  (Some True, _, (sent, c) # ts2) \<Rightarrow> (deadline, sent) # runDaily at ts2
                | _ \<Rightarrow> [])))"
  by pat_completeness auto

termination
proof (relation "measure (\<lambda>(_, ts). length ts)", goal_cases)
  case (2 at ts x ts1 now c deadline y z r b steps w v ts2 sent)
  then have "snd (snd (waitUntil deadline ts1)) = (ts2, sent) # v" by (metis snd_conv)
  then show ?case using 2 waitUntil_shorter [of deadline ts1] by auto
qed simp

declare runDaily.simps [simp del]

section \<open>The probe\<close>

record 'j runner =
  rnCanary :: Canary
  rnHostname :: string
  rnLifetime :: duration
  rnMailer :: "'j mailer"
  rnStamp :: "instant \<Rightarrow> string"

definition canary_mail :: "'j runner \<Rightarrow> instant \<Rightarrow> composed" where
  "canary_mail r now =
     (let c = rnCanary r in
      \<lparr>cmHeaderFrom = cnSender c, cmEnvelopeFrom = cnSender c, cmTo = [cnRecipient c],
       cmSubject = ''[smtprelayd] canary '' @ quoted (cnName c) @ '' '' @ rnStamp r now,
       cmBody = ''This is an automated canary message ('' @ quoted (cnName c) @ '') from smtprelayd on '' @ rnHostname r @
         '', sent through route '' @ quoted (cnRoute c) @ ''.'' @ CRLF @
         ''If it stops arriving on schedule, delivery through that route may be failing silently.'' @ CRLF,
       cmOrigin = cnName c, cmRoute = cnRoute c, cmListener = ''canary'', cmKind = KindCanary\<rparr>)"

definition send_canary :: "'j runner \<Rightarrow> instant \<Rightarrow> 'j mail_state \<Rightarrow> (mail_err + id) \<times> 'j mail_state" where
  "send_canary r now s = Send (rnMailer r) (canary_mail r now) (rnLifetime r) now s"

text \<open>How a runner is driven: not at all, by a ticker, or by the times of day.\<close>

datatype schedule = Unusable | Every duration | Daily "nat list"

definition schedule_of :: "Canary \<Rightarrow> schedule" where
  "schedule_of c =
     (if DailyAt c \<noteq> [] then (case DailyAt_Minutes (DailyAt c) of None \<Rightarrow> Unusable | Some at \<Rightarrow> Daily at)
      else (let interval = i64 (IntervalMinutes c * minute) in if interval \<le> 0 then Unusable else Every interval))"

section \<open>Never early, never twice\<close>

lemma midnight_bounds: "midnight now \<le> now" "now < midnight now + day" "midnight now mod day = 0"
proof -
  have d: "0 < day" by (simp add: day_value)
  show "midnight now \<le> now" using d by (simp add: midnight_def)
  show "now < midnight now + day" using pos_mod_bound [OF d, of now] by (simp add: midnight_def)
  show "midnight now mod day = 0" by (simp add: midnight_def)
qed

lemma parseTimeOfDay_range: "parseTimeOfDay s = Some m \<Longrightarrow> m < 24 * 60"
  by (auto simp: parseTimeOfDay_def Let_def split: if_splits)

lemma daily_minutes_grow:
  assumes "daily_minutes ss out = Some ms"
  shows "set out \<subseteq> set ms \<and> (ss \<noteq> [] \<longrightarrow> ms \<noteq> []) \<and> (\<forall>m \<in> set ms. m \<in> set out \<or> m < 24 * 60)"
  using assms
proof (induction ss arbitrary: out)
  case (Cons s ss)
  obtain m where m: "parseTimeOfDay s = Some m" using Cons.prems by (auto split: option.splits)
  define out' where "out' = (if m \<in> set out then out else out @ [m])"
  have "daily_minutes ss out' = Some ms" using Cons.prems m by (auto simp: out'_def split: if_splits)
  from Cons.IH [OF this] have ih: "set out' \<subseteq> set ms" "\<forall>x \<in> set ms. x \<in> set out' \<or> x < 24 * 60" by blast+
  have "set out' = insert m (set out)" by (auto simp: out'_def)
  then show ?case using ih parseTimeOfDay_range [OF m] by auto
qed simp

definition schedule_ok :: "nat list \<Rightarrow> bool" where
  "schedule_ok at \<longleftrightarrow> at \<noteq> [] \<and> sorted at \<and> (\<forall>m \<in> set at. m < 24 * 60)"

lemma schedule_of_ok:
  assumes "schedule_of c = Daily at"
  shows "schedule_ok at"
proof -
  obtain ms where ms: "daily_minutes (DailyAt c) [] = Some ms" "at = sort ms" "DailyAt c \<noteq> []"
    using assms by (auto simp: schedule_of_def DailyAt_Minutes_def Let_def split: if_splits option.splits)
  then have "ms \<noteq> []" "\<forall>m \<in> set ms. m < 24 * 60" using daily_minutes_grow [OF ms(1)] by auto
  then show ?thesis using ms(2) by (metis schedule_ok_def set_empty set_sort sorted_sort)
qed

text \<open>An instant of the schedule: so many minutes after some midnight.\<close>

definition slot :: "nat list \<Rightarrow> instant \<Rightarrow> bool" where
  "slot at t \<longleftrightarrow> (\<exists>m \<in> set at. t mod day = int m * minute)"

lemma slot_today: "schedule_ok at \<Longrightarrow> m \<in> set at \<Longrightarrow> k mod day = 0 \<Longrightarrow> slot at (k + int m * minute)"
proof -
  assume a: "schedule_ok at" "m \<in> set at" "k mod day = 0"
  then have "0 \<le> int m * minute" "int m * minute < day"
    by (auto simp: schedule_ok_def day_value time_units)
  then have "(k + int m * minute) mod day = int m * minute" using a(3) by (metis add_0 mod_add_left_eq mod_pos_pos_trivial)
  then show ?thesis using a(2) by (auto simp: slot_def)
qed

lemma sorted_find:
  "sorted at \<Longrightarrow> find P at = Some m \<Longrightarrow> m \<in> set at \<and> P m \<and> (\<forall>k \<in> set at. k < m \<longrightarrow> \<not> P k)"
  by (induction at) (auto split: if_splits)

lemma slot_minutes:
  assumes "slot at t" "0 < day"
  obtains m where "m \<in> set at" "t = midnight t + int m * minute"
  using assms by (auto simp: slot_def midnight_def)

lemma midnight_div: "midnight t = day * (t div day)"
  by (simp add: midnight_def minus_mod_eq_mult_div)

lemma midnight_mono: "t \<le> u \<Longrightarrow> midnight t \<le> midnight u"
  by (simp add: midnight_div day_value zdiv_mono1)

lemma midnight_step: "midnight t < midnight u \<Longrightarrow> midnight t + day \<le> midnight u"
  by (simp add: midnight_div day_value)

lemma nextDaily_next:
  assumes "nextDaily now at = Some t" "schedule_ok at"
  shows "now < t \<and> slot at t \<and> t \<le> now + day \<and> (\<forall>u. slot at u \<and> now < u \<longrightarrow> t \<le> u)"
proof -
  let ?mid = "midnight now"
  let ?P = "\<lambda>m. ?mid + int m * minute > now"
  have d: "0 < day" and minute: "0 < minute" by (simp_all add: day_value time_units)
  have small: "int m * minute < day" "0 \<le> int m * minute" if "m \<in> set at" for m
    using assms(2) that by (auto simp: schedule_ok_def day_value time_units)
  have other: "?mid + day \<le> u" if u: "slot at u" "now < u" "\<forall>k \<in> set at. u \<noteq> ?mid + int k * minute" for u
  proof -
    obtain k where k: "k \<in> set at" "u = midnight u + int k * minute" using slot_minutes [OF u(1) d] by blast
    have "?mid \<noteq> midnight u" using u(3) k by auto
    then have "?mid < midnight u" using midnight_mono [of now u] u(2) by simp
    from midnight_step [OF this] show ?thesis using k small by fastforce
  qed
  show ?thesis
  proof (cases "find ?P at")
    case (Some m)
    then have t: "t = ?mid + int m * minute" using assms(1) by (simp add: nextDaily_def)
    have m: "m \<in> set at" "?P m" "\<forall>k \<in> set at. k < m \<longrightarrow> \<not> ?P k"
      using sorted_find [OF _ Some] assms(2) by (simp_all add: schedule_ok_def)
    have "t \<le> u" if u: "slot at u" "now < u" for u
    proof (cases "\<exists>k \<in> set at. u = ?mid + int k * minute")
      case True
      then obtain k where k: "k \<in> set at" "u = ?mid + int k * minute" by blast
      then have "m \<le> k" using m(3) u(2) by (metis not_le)
      then show ?thesis using k t minute by (simp add: mult_right_mono)
    next
      case False
      then show ?thesis using other [OF u] small(1) [OF m(1)] t by fastforce
    qed
    moreover have "slot at t" unfolding t by (rule slot_today [OF assms(2) m(1) midnight_bounds(3)])
    ultimately show ?thesis using m(2) t small(1) [OF m(1)] midnight_bounds(1) [of now] by auto
  next
    case None
    then obtain m at' where at: "at = m # at'" and t: "t = ?mid + day + int m * minute"
      using assms(1) by (auto simp: nextDaily_def split: list.splits)
    have none: "\<not> ?P k" if "k \<in> set at" for k using None that by (simp add: find_None_iff)
    have "t \<le> u" if u: "slot at u" "now < u" for u
    proof -
      have "\<forall>k \<in> set at. u \<noteq> ?mid + int k * minute" using none u(2) by auto
      note o = other [OF u this]
      obtain k where k: "k \<in> set at" "u = midnight u + int k * minute" using slot_minutes [OF u(1) d] by blast
      have "midnight (?mid + day) = ?mid + day" using midnight_bounds(3) [of now] by (simp add: midnight_def)
      then have "?mid + day \<le> midnight u" using midnight_mono [OF o] by simp
      moreover have "m \<le> k" using assms(2) k(1) by (auto simp: at schedule_ok_def)
      ultimately show ?thesis using k t minute by (smt (verit, best) mult_right_mono of_nat_le_iff)
    qed
    moreover have "slot at t" unfolding t
      by (rule slot_today [OF assms(2)]) (simp_all add: at midnight_bounds(3))
    moreover have "?mid + int m * minute \<le> now" using none [of m] by (simp add: at)
    ultimately show ?thesis using t midnight_bounds(2) [of now] small(2) [of m] by (auto simp: at)
  qed
qed

lemma waitUntil_late:
  assumes "waitUntil deadline ts = (r, steps, ts')"
  shows "r = Some True \<Longrightarrow> \<exists>used now c. ts = used @ (now, c) # ts' \<and> deadline \<le> now"
    and "\<forall>d \<in> set steps. 0 < d \<and> d \<le> maxDailyWait" and "\<exists>used. ts = used @ ts'"
  using assms
proof (induction ts arbitrary: r steps ts')
  case (Cons t ts)
  obtain now c where t: "t = (now, c)" by fastforce
  obtain r1 s1 t1 where w: "waitUntil deadline ts = (r1, s1, t1)" by (metis prod_cases3)
  { case 1
    show ?case
    proof (cases "time_sub deadline now \<le> 0")
      case True
      then have "deadline \<le> now" by (simp add: time_sub_def max_int64_def split: if_splits)
      then show ?thesis using 1 True t by (intro exI [of _ "[]"]) auto
    next
      case False
      then have "r1 = Some True" "ts' = t1" using 1 t w by (auto simp: Let_def split: if_splits)
      then obtain used n' c' where "ts = used @ (n', c') # ts'" "deadline \<le> n'" using Cons.IH(1) [OF _ w] by auto
      then show ?thesis by (intro exI [of _ "t # used"]) auto
    qed
  next
    case 2
    then show ?case using Cons.IH(2) [OF w] t w by (auto simp: Let_def maxDailyWait_def time_units split: if_splits)
  next
    case 3
    from Cons.IH(3) [OF w] obtain used where "ts = used @ t1" by blast
    then show ?case using 3 t w by (auto simp: Let_def split: if_splits intro: exI [of _ "[t]"] exI [of _ "t # used"])
  }
qed auto

section \<open>A run\<close>

definition probes_ok :: "nat list \<Rightarrow> instant \<Rightarrow> (instant \<times> instant) list \<Rightarrow> bool" where
  "probes_ok at start ps \<longleftrightarrow> (\<forall>(d, t) \<in> set ps. slot at d \<and> d \<le> t \<and> start < d) \<and> sorted_wrt (\<lambda>(d, t) (d', t'). t < d') ps"

lemma runDaily_ok:
  assumes "schedule_ok at" "sorted (map fst ts)" "\<forall>t \<in> set ts. start \<le> fst t"
  shows "probes_ok at start (runDaily at ts)"
  using assms
proof (induction at ts arbitrary: start rule: runDaily.induct)
  case (1 at ts)
  show ?case
  proof (cases "runDaily at ts = []")
    case False
    then obtain now c0 ts1 deadline steps sent c ts2 where ts: "ts = (now, c0) # ts1" and nx: "nextDaily now at = Some deadline"
        and w: "waitUntil deadline ts1 = (Some True, steps, (sent, c) # ts2)"
      by (subst (asm) runDaily.simps) (auto split: list.splits option.splits prod.splits bool.splits)
    obtain used n c' where u: "ts1 = used @ (n, c') # (sent, c) # ts2" "deadline \<le> n" using waitUntil_late(1) [OF w] by auto
    have sent: "n \<le> sent" "\<forall>t \<in> set ts2. sent \<le> fst t" "sorted (map fst ts2)"
      using "1.prems"(2) unfolding ts u(1) by (auto simp: sorted_append)
    have ih: "probes_ok at sent (runDaily at ts2)"
      using "1.IH" [OF ts _ nx w [symmetric]] sent(2,3) "1.prems"(1) by simp
    have nxt: "now < deadline" "slot at deadline" using nextDaily_next [OF nx "1.prems"(1)] by blast+
    have "runDaily at ts = (deadline, sent) # runDaily at ts2" by (subst runDaily.simps) (simp add: ts nx w)
    then show ?thesis using ih nxt u(2) sent(1) "1.prems"(3) unfolding probes_ok_def by (fastforce simp: ts)
  qed (simp add: probes_ok_def)
qed

text \<open>What a run of probes has to be, told from the schedule and the readings alone. A probe is due after a
  reading: its time is the first of the schedule after that reading, no reading before it was
  beyond that time or came with a cancellation, and the one that was is followed by the reading the
  probe is sent at.\<close>

definition first_slot :: "nat list \<Rightarrow> instant \<Rightarrow> instant \<Rightarrow> bool" where
  "first_slot at now d \<longleftrightarrow> slot at d \<and> now < d \<and> (\<forall>u. slot at u \<and> now < u \<longrightarrow> d \<le> u)"

definition due_probe :: "nat list \<Rightarrow> ticks \<Rightarrow> instant \<Rightarrow> instant \<Rightarrow> ticks \<Rightarrow> bool" where
  "due_probe at ts d t rest \<longleftrightarrow>
     (\<exists>now c0 waits n c1 c. ts = (now, c0) # waits @ (n, c1) # (t, c) # rest \<and> first_slot at now d \<and>
        (\<forall>(x, cx) \<in> set waits. x < d \<and> \<not> cx) \<and> d \<le> n)"

fun follows :: "nat list \<Rightarrow> ticks \<Rightarrow> (instant \<times> instant) list \<Rightarrow> bool" where
  "follows at ts [] = (\<nexists>d t rest. due_probe at ts d t rest)"
| "follows at ts ((d, t) # ps) = (\<exists>rest. due_probe at ts d t rest \<and> follows at rest ps)"

lemma time_sub_passed: "time_sub d now \<le> 0 \<longleftrightarrow> d \<le> now"
  by (auto simp: time_sub_def max_int64_def)

lemma waitUntil_passed:
  "(\<exists>steps. waitUntil d ts = (Some True, steps, ts')) \<longleftrightarrow>
   (\<exists>waits n c. ts = waits @ (n, c) # ts' \<and> (\<forall>(x, cx) \<in> set waits. x < d \<and> \<not> cx) \<and> d \<le> n)"
proof (induction ts)
  case (Cons a ts)
  obtain now c0 where a: "a = (now, c0)" by fastforce
  have rhs: "(\<exists>waits n c. a # ts = waits @ (n, c) # ts' \<and> (\<forall>(x, cx) \<in> set waits. x < d \<and> \<not> cx) \<and> d \<le> n) \<longleftrightarrow>
      d \<le> now \<and> ts = ts' \<or> now < d \<and> \<not> c0 \<and> (\<exists>waits n c. ts = waits @ (n, c) # ts' \<and> (\<forall>(x, cx) \<in> set waits. x < d \<and> \<not> cx) \<and> d \<le> n)"
    (is "?L \<longleftrightarrow> ?R")
  proof
    assume ?L
    then obtain waits n c where w: "a # ts = waits @ (n, c) # ts'" "\<forall>(x, cx) \<in> set waits. x < d \<and> \<not> cx" "d \<le> n" by blast
    then show ?R by (cases waits) (auto simp: a)
  next
    assume ?R
    then consider "d \<le> now" "ts = ts'" | waits n c where "now < d" "\<not> c0" "ts = waits @ (n, c) # ts'"
      "\<forall>(x, cx) \<in> set waits. x < d \<and> \<not> cx" "d \<le> n" by blast
    then show ?L
    proof cases
      case 1
      then show ?thesis by (intro exI [of _ "[]"]) (simp add: a)
    next
      case 2
      then show ?thesis by (intro exI [of _ "a # waits"] exI [of _ n] exI [of _ c]) (auto simp: a)
    qed
  qed
  have lhs: "(\<exists>steps. waitUntil d (a # ts) = (Some True, steps, ts')) \<longleftrightarrow>
      d \<le> now \<and> ts = ts' \<or> now < d \<and> \<not> c0 \<and> (\<exists>steps. waitUntil d ts = (Some True, steps, ts'))"
    by (cases "waitUntil d ts") (auto simp: a Let_def time_sub_passed)
  show ?case unfolding lhs rhs Cons.IH by blast
qed simp

lemma nextDaily_first:
  assumes "schedule_ok at"
  shows "nextDaily now at = Some d \<longleftrightarrow> first_slot at now d"
proof -
  obtain e where e: "nextDaily now at = Some e"
    using assms by (cases "nextDaily now at") (auto simp: nextDaily_def schedule_ok_def split: option.splits list.splits)
  have f: "first_slot at now e" using nextDaily_next [OF e assms] by (simp add: first_slot_def)
  have "d = e" if "first_slot at now d" using that f unfolding first_slot_def by (meson order_antisym)
  then show ?thesis using e f by auto
qed

lemma due_probe_computed:
  assumes ok: "schedule_ok at"
  shows "due_probe at ts d t rest \<longleftrightarrow>
    (\<exists>now c0 ts1 steps c. ts = (now, c0) # ts1 \<and> nextDaily now at = Some d \<and> waitUntil d ts1 = (Some True, steps, (t, c) # rest))"
    (is "?L \<longleftrightarrow> ?R")
proof
  assume ?L
  then obtain now c0 waits n c1 c where "ts = (now, c0) # waits @ (n, c1) # (t, c) # rest" "first_slot at now d"
    "\<forall>(x, cx) \<in> set waits. x < d \<and> \<not> cx" "d \<le> n" unfolding due_probe_def by blast
  moreover have "\<exists>steps. waitUntil d (waits @ (n, c1) # (t, c) # rest) = (Some True, steps, (t, c) # rest)"
    unfolding waitUntil_passed using calculation(3,4) by blast
  ultimately show ?R using nextDaily_first [OF ok] by blast
next
  assume ?R
  then obtain now c0 ts1 steps c where s: "ts = (now, c0) # ts1" "nextDaily now at = Some d"
    "waitUntil d ts1 = (Some True, steps, (t, c) # rest)" by blast
  obtain waits n c1 where "ts1 = waits @ (n, c1) # (t, c) # rest" "\<forall>(x, cx) \<in> set waits. x < d \<and> \<not> cx" "d \<le> n"
    using s(3) waitUntil_passed [of d ts1 "(t, c) # rest"] by blast
  moreover have "first_slot at now d" using s(2) nextDaily_first [OF ok] by blast
  ultimately show ?L unfolding due_probe_def s(1) by blast
qed

lemma runDaily_follows:
  assumes "schedule_ok at"
  shows "follows at ts (runDaily at ts)"
  using assms
proof (induction at ts rule: runDaily.induct)
  case (1 at ts)
  show ?case
  proof (cases "\<exists>now c0 ts1 d steps t c rest. ts = (now, c0) # ts1 \<and> nextDaily now at = Some d \<and> waitUntil d ts1 = (Some True, steps, (t, c) # rest)")
    case True
    then obtain now c0 ts1 d steps t c rest where s: "ts = (now, c0) # ts1" "nextDaily now at = Some d"
      "waitUntil d ts1 = (Some True, steps, (t, c) # rest)" by blast
    have "runDaily at ts = (d, t) # runDaily at rest" by (subst runDaily.simps) (simp add: s)
    moreover have "due_probe at ts d t rest" unfolding due_probe_computed [OF "1.prems"] using s by blast
    moreover have "follows at rest (runDaily at rest)" using "1.IH" [OF s(1) _ s(2) s(3) [symmetric]] "1.prems" by simp
    ultimately show ?thesis by auto
  next
    case False
    then have "runDaily at ts = []"
      by (subst runDaily.simps) (auto split: list.split option.split prod.split bool.split)
    moreover have "\<nexists>d t rest. due_probe at ts d t rest" unfolding due_probe_computed [OF "1.prems"] using False by blast
    ultimately show ?thesis by simp
  qed
qed

section \<open>Property\<close>

text \<open>C40: The probes of a daily canary follow its schedule. Whatever the clock does, each probe waits for the first time
  of the schedule after the reading that comes next after the probe before it - no time between is skipped -
  and is sent with the reading after the first one at or past that time, never before; and the probes stop
  only where the service is cancelled or the readings end. While the clock only moves forward, each time
  waited for lies after the probe sent before, so no time of day fires twice.\<close>

theorem probes_follow_the_schedule:
  assumes "schedule_of c = Daily at"
  shows "follows at ts (runDaily at ts) \<and>
    (sorted (map fst ts) \<longrightarrow> (\<forall>(d, t) \<in> set (runDaily at ts). slot at d \<and> d \<le> t) \<and>
       sorted_wrt (\<lambda>(d, t) (d', t'). t < d') (runDaily at ts)) \<and>
    (\<forall>now. \<exists>d. first_slot at now d \<and> d \<le> now + day)"
proof -
  note ok = schedule_of_ok [OF assms]
  have "probes_ok at (fst (hd ts)) (runDaily at ts)" if s: "sorted (map fst ts)"
  proof -
    have "\<forall>t \<in> set ts. fst (hd ts) \<le> fst t" using s by (cases ts) auto
    then show ?thesis by (rule runDaily_ok [OF ok s])
  qed
  moreover have "\<exists>d. first_slot at now d \<and> d \<le> now + day" for now
  proof -
    obtain d where d: "nextDaily now at = Some d"
      using ok by (cases "nextDaily now at") (auto simp: nextDaily_def schedule_ok_def split: option.splits list.splits)
    then show ?thesis using nextDaily_next [OF d ok] by (auto simp: first_slot_def)
  qed
  ultimately show ?thesis using runDaily_follows [OF ok] unfolding probes_ok_def by fast
qed

definition demo_canary :: Canary where
  "demo_canary = \<lparr>cnName = ''m365'', cnSender = ''relay@x'', cnRecipient = ''ops@x'', cnRoute = ''main'', IntervalMinutes = 0,
     DailyAt = [''07:00'', ''00:30'']\<rparr>"

theorem probes_follow_the_schedule_witness:
  "schedule_of demo_canary = Daily [30, 420] \<and>
   runDaily [30, 420] (map (\<lambda>m. (m * minute, False)) [0, 1, 29, 31, 32, 33, 34, 421, 422]) =
     [(30 * minute, 32 * minute), (420 * minute, 422 * minute)] \<and> 32 * minute < 420 * minute"
proof -
  have c: "schedule_of demo_canary = Daily [30, 420]" by code_simp
  have s: "sorted (map fst (map (\<lambda>m. (m * minute, False)) [0, 1, 29, 31, 32, 33, 34, 421, 422 :: int]))" by (simp add: time_units)
  have r: "runDaily [30, 420] (map (\<lambda>m. (m * minute, False)) [0, 1, 29, 31, 32, 33, 34, 421, 422]) =
     [(30 * minute, 32 * minute), (420 * minute, 422 * minute)]" by code_simp
  from probes_follow_the_schedule [OF c, of "map (\<lambda>m. (m * minute, False)) [0, 1, 29, 31, 32, 33, 34, 421, 422]"] s r c
  show ?thesis by (simp del: list.map)
qed

end
