(* ===== verification/Expiry_Watch.thy ===== *)
theory Expiry_Watch
  imports Config_Validate
begin

text \<open>
  \<open>internal/expiry\<close>: what the relay depends on that runs out, and the watcher that mails about it. The order
  \<open>sort.Slice\<close> leaves equal deadlines in is not specified, so the sorting is the argument \<open>arrange\<close>;
  \<open>Notify\<close> is the notifier's operation over an abstract state. \<open>DaysUntil\<close> divides exactly where the code
  goes through a float, which differs at most within nanoseconds of a whole day.
\<close>

section \<open>Deadlines\<close>

record item =
  itKey :: string
  itWhat :: string
  itDetail :: string
  itExpires :: instant

definition full_day :: duration where "full_day = 24 * hour"

definition WarnWindow :: "Config \<Rightarrow> duration" where
  "WarnWindow cfg = i64 (i64 (WarnDays cfg * 24) * hour)"

definition SecretExpiry :: "cfg_env \<Rightarrow> OAuth2 \<Rightarrow> instant option" where
  "SecretExpiry E o2 = ParseDate E (SecretExpires o2)"

definition secret_item :: "cfg_env \<Rightarrow> Route \<Rightarrow> item list" where
  "secret_item E r =
     (if \<not> UsesOAuth2 r then []
      else case SecretExpiry E (rOAuth2 r) of
             None \<Rightarrow> []
           | Some t \<Rightarrow> [\<lparr>itKey = ''oauth2-secret:'' @ rName r,
                        itWhat = ''the Microsoft 365 client secret for route '' @ quoted (rName r),
                        itDetail = ''tenant '' @ TenantID (rOAuth2 r), itExpires = t\<rparr>])"

text \<open>\<open>served\<close> is when the certificate the listeners present stops being valid.\<close>

definition Items :: "(item list \<Rightarrow> item list) \<Rightarrow> cfg_env \<Rightarrow> Config \<Rightarrow> instant option \<Rightarrow> item list" where
  "Items arrange E cfg served =
     arrange ((case served of
                 None \<Rightarrow> []
               | Some t \<Rightarrow> [\<lparr>itKey = ''tls-certificate'', itWhat = ''the listener TLS certificate'',
                            itDetail = CertFile (cTLS cfg), itExpires = t\<rparr>]) @
              concat (map (secret_item E) (Routes cfg)))"

definition DaysUntil :: "instant \<Rightarrow> instant \<Rightarrow> int" where
  "DaysUntil t now = go_div (time_sub t now) full_day"

section \<open>The watcher\<close>

definition resendInterval :: duration where "resendInterval = 24 * hour"
definition checkInterval :: duration where "checkInterval = hour"

record 'n watcher =
  waDeadlines :: "item list"
  waLastSent :: "string \<rightharpoonup> instant"
  waNotifier :: 'n

record 'n watch_env =
  weCfg :: Config
  weNotify :: "string \<Rightarrow> string \<Rightarrow> string \<Rightarrow> instant \<Rightarrow> 'n \<Rightarrow> bool \<times> 'n"
  weFormat :: "instant \<Rightarrow> string"

definition collect :: "Config \<Rightarrow> instant \<Rightarrow> item list \<Rightarrow> item list" where
  "collect cfg now items =
     (if WarnWindow cfg \<le> 0 then [] else filter (\<lambda>it. itExpires it < now + WarnWindow cfg) items)"

definition expiry_entry :: "(instant \<Rightarrow> string) \<Rightarrow> instant \<Rightarrow> item \<Rightarrow> string" where
  "expiry_entry fmt now it =
     (let days = DaysUntil (itExpires it) now in
      CRLF @ ''  '' @ itWhat it @ CRLF @ ''    '' @ itDetail it @ CRLF @
      ''    expires: '' @ fmt (itExpires it) @ CRLF @
      (if days < 0 then ''    status:  EXPIRED '' @ dec_int (- days) @ '' day(s) ago'' @ CRLF
       else ''    status:  '' @ dec_int days @ '' day(s) left'' @ CRLF))"

definition composeExpiry :: "(instant \<Rightarrow> string) \<Rightarrow> item list \<Rightarrow> instant \<Rightarrow> string \<Rightarrow> int \<Rightarrow> string \<times> string" where
  "composeExpiry fmt due now host windowDays =
     (let expired = length (filter (\<lambda>it. \<not> itExpires it > now) due);
          subject =
            (if expired > 0 then ''[smtprelayd] ACTION REQUIRED: '' @ dec_nat expired @ '' item(s) expired on '' @ host
             else if length due = 1
             then ''[smtprelayd] '' @ itWhat (hd due) @ '' expires in '' @ dec_int (DaysUntil (itExpires (hd due)) now) @ '' day(s)''
             else ''[smtprelayd] '' @ dec_nat (length due) @ '' item(s) expire within '' @ dec_int windowDays @ '' days on '' @ host);
          body = ''smtprelayd on '' @ host @ '' is reporting that the following will stop working:'' @ CRLF @
                 concat (map (expiry_entry fmt now) due) @
                 CRLF @ ''What happens when it lapses:'' @ CRLF @
                 ''  - an expired TLS certificate makes every listener using TLS refuse'' @ CRLF @
                 ''    submissions, so devices stop being able to send.'' @ CRLF @
                 ''  - an expired client secret makes every delivery on that route fail'' @ CRLF @
                 ''    authentication, so mail queues up until it is renewed.'' @ CRLF @
                 CRLF @ ''This warning repeats once a day while the deadline is inside the window.'' @ CRLF
      in (subject, body))"

definition due_items :: "Config \<Rightarrow> instant \<Rightarrow> 'n watcher \<Rightarrow> item list" where
  "due_items cfg now w =
     filter (\<lambda>it. case waLastSent w (itKey it) of
                    None \<Rightarrow> True | Some sent \<Rightarrow> \<not> time_sub now sent < resendInterval)
       (collect cfg now (waDeadlines w))"

definition mark_sent :: "instant \<Rightarrow> item list \<Rightarrow> 'n watcher \<Rightarrow> 'n watcher" where
  "mark_sent now due w = w\<lparr>waLastSent := fold (\<lambda>it m. m(itKey it \<mapsto> now)) due (waLastSent w)\<rparr>"

definition check :: "'n watch_env \<Rightarrow> instant \<Rightarrow> 'n watcher \<Rightarrow> 'n watcher" where
  "check we now w =
     (let cfg = weCfg we; due = due_items cfg now w in
      if due = [] then w
      else if bNotify (cBounce cfg) \<noteq> [] then
        (case composeExpiry (weFormat we) due now (Hostname (cService cfg)) (WarnDays cfg) of
           (subject, body) \<Rightarrow>
             (case weNotify we SourceExpiryWatch subject body now (waNotifier w) of
                (True, n) \<Rightarrow> mark_sent now due (w\<lparr>waNotifier := n\<rparr>)
              | (False, n) \<Rightarrow> w\<lparr>waNotifier := n\<rparr>))
      else mark_sent now due w)"

text \<open>\<open>Run\<close>: a check at once and one at every tick, unless the window is zero.\<close>

definition watch :: "'n watch_env \<Rightarrow> instant list \<Rightarrow> 'n watcher \<Rightarrow> 'n watcher" where
  "watch we readings w = (if WarnWindow (weCfg we) \<le> 0 then w else fold (check we) readings w)"

section \<open>Nothing in the window stays unannounced\<close>

lemma mark_sent_last:
  "waLastSent (mark_sent now due w) k = (if k \<in> itKey ` set due then Some now else waLastSent w k)"
  "waDeadlines (mark_sent now due w) = waDeadlines w"
proof -
  have "fold (\<lambda>it m. m(itKey it \<mapsto> now)) due m k = (if k \<in> itKey ` set due then Some now else m k)" for m
    by (induction due arbitrary: m) auto
  then show "waLastSent (mark_sent now due w) k = (if k \<in> itKey ` set due then Some now else waLastSent w k)"
    by (simp add: mark_sent_def)
qed (simp add: mark_sent_def)

lemma check_deadlines: "waDeadlines (check we now w) = waDeadlines w"
  by (simp add: check_def Let_def mark_sent_last(2) split: prod.split bool.split)

text \<open>After a check that could send, every deadline inside the window has been announced within the last day;
  a notification that failed leaves the record alone, so the next check tries again.\<close>

lemma check_covers:
  assumes "\<And>src subj body t n. fst (weNotify we src subj body t n)"
    and "it \<in> set (waDeadlines w)" "itExpires it < now + WarnWindow (weCfg we)" "0 < WarnWindow (weCfg we)"
  shows "\<exists>t. waLastSent (check we now w) (itKey it) = Some t \<and> time_sub now t < resendInterval"
proof -
  have c: "it \<in> set (collect (weCfg we) now (waDeadlines w))" using assms by (simp add: collect_def)
  let ?due = "due_items (weCfg we) now w"
  have keep: "waLastSent w k = Some t \<Longrightarrow> time_sub now t < resendInterval \<Longrightarrow> k = itKey i \<Longrightarrow> i \<notin> set ?due" for k t i
    by (auto simp: due_items_def)
  have now: "time_sub now now < resendInterval" by (simp add: time_sub_def resendInterval_def time_units max_int64_def)
  show ?thesis
  proof (cases "it \<in> set ?due")
    case False
    then obtain t where t: "waLastSent w (itKey it) = Some t" "time_sub now t < resendInterval"
      using c by (auto simp: due_items_def split: option.splits)
    have "itKey it \<notin> itKey ` set ?due" using keep [OF t refl] keep [OF t] by auto
    then have "waLastSent (check we now w) (itKey it) = Some t"
      using t(1) by (auto simp: check_def Let_def mark_sent_last split: prod.split bool.split)
    then show ?thesis using t(2) by blast
  next
    case True
    obtain subject body where cp: "composeExpiry (weFormat we) ?due now (Hostname (cService (weCfg we))) (WarnDays (weCfg we)) = (subject, body)"
      by fastforce
    obtain n where "weNotify we SourceExpiryWatch subject body now (waNotifier w) = (True, n)"
      using assms(1) [of SourceExpiryWatch subject body now "waNotifier w"] by (metis (full_types) fst_conv surj_pair)
    then have "waLastSent (check we now w) (itKey it) = Some now"
      using True cp by (auto simp: check_def Let_def mark_sent_last)
    then show ?thesis using now by blast
  qed
qed

lemma check_failed_keeps:
  assumes "bNotify (cBounce (weCfg we)) \<noteq> []" "\<And>src subj body t n. \<not> fst (weNotify we src subj body t n)"
  shows "waLastSent (check we now w) = waLastSent w"
proof -
  have "fst (weNotify we src subj body t n) = False" for src subj body t n using assms(2) by simp
  then show ?thesis using assms(1) by (auto simp: check_def Let_def split: prod.splits bool.splits) (metis fst_conv)+
qed

section \<open>Days\<close>

lemma DaysUntil_trunc:
  assumes "\<bar>t - now\<bar> < full_day"
  shows "DaysUntil t now = 0"
proof -
  have "time_sub t now = t - now" using assms by (simp add: time_sub_def full_day_def time_units max_int64_def)
  then show ?thesis using assms by (simp add: DaysUntil_def go_div_def div_pos_pos_trivial)
qed

text \<open>The comment of \<open>DaysUntil\<close> says it is negative once the deadline has passed. It truncates towards zero, so for
  a whole day after the deadline it is 0, and the mail that announces an expired item prints
  "0 day(s) left" for it.\<close>

theorem lapsed_item_has_days_left:
  assumes "itExpires it < now" "now < itExpires it + full_day"
  shows "DaysUntil (itExpires it) now = 0 \<and>
    (\<exists>head. expiry_entry fmt now it = head @ ''    status:  0 day(s) left'' @ CRLF)"
proof -
  have d: "DaysUntil (itExpires it) now = 0" by (rule DaysUntil_trunc) (use assms in auto)
  have "dec_int 0 = ''0''" by code_simp
  then have "expiry_entry fmt now it = (CRLF @ ''  '' @ itWhat it @ CRLF @ ''    '' @ itDetail it @ CRLF @
      ''    expires: '' @ fmt (itExpires it) @ CRLF) @ ''    status:  0 day(s) left'' @ CRLF"
    by (simp add: expiry_entry_def d)
  then show ?thesis using d by blast
qed

theorem lapsed_item_has_days_left_witness:
  "DaysUntil 0 (5 * hour) = 0 \<and> 0 < 5 * hour"
  using lapsed_item_has_days_left [of "\<lparr>itKey = [], itWhat = [], itDetail = [], itExpires = 0\<rparr>" "5 * hour" "\<lambda>t. []"]
  by (simp add: full_day_def time_units)

end
