(* ===== verification/Housekeeping.thy ===== *)
theory Housekeeping
  imports Spool_Claim Journal_Run
begin

text \<open>
  \<open>internal/housekeeping/housekeeping.go\<close>: one pass sweeps spool/failed at most once an hour, lets the journal
  delete what is older than its retention, and warns when the spool crosses its threshold. A pass is one
  call; the warnings are the log lines it writes.
\<close>

datatype quota_line = FillingUp int int int | BackBelow int int

record keeper =
  hkSpool :: spool
  hkStore :: store
  hkLastFailed :: instant
  hkWarned :: bool
  hkLines :: "quota_line list"
  hkSwept :: "(instant \<times> int \<times> int) list"

definition failedSweepInterval :: duration where "failedSweepInterval = hour"

text \<open>\<open>order\<close> is the order in which the sweep meets the failed messages.\<close>

definition sweepFailed :: "id list \<Rightarrow> instant \<Rightarrow> keeper \<Rightarrow> keeper" where
  "sweepFailed order now h =
     (if time_sub now (hkLastFailed h) < failedSweepInterval then h
      else (case SweepFailed order now (hkSpool h) of
              (removed, freed, sp) \<Rightarrow>
                h\<lparr>hkLastFailed := now, hkSpool := sp,
                  hkSwept := (if removed > 0 then hkSwept h @ [(now, removed, freed)] else hkSwept h)\<rparr>))"

definition sweepHistory :: "instant \<Rightarrow> keeper \<Rightarrow> keeper" where
  "sweepHistory now h = h\<lparr>hkStore := snd (RetentionSweep now (hkStore h))\<rparr>"

definition reportQuota :: "int \<Rightarrow> int \<Rightarrow> bool \<Rightarrow> keeper \<Rightarrow> keeper" where
  "reportQuota used quota over h =
     (let percent = (if quota > 0 then go_div (i64 (used * 100)) quota else 0);
          out = (if over \<and> \<not> hkWarned h then [FillingUp used quota percent]
                 else if \<not> over \<and> hkWarned h then [BackBelow used quota] else [])
      in h\<lparr>hkLines := hkLines h @ out, hkWarned := over\<rparr>)"

definition pass :: "id list \<Rightarrow> instant \<Rightarrow> keeper \<Rightarrow> keeper" where
  "pass order now h0 =
     (let h = sweepHistory now (sweepFailed order now h0) in
      case QuotaWarning (hkSpool h) of (used, quota, over) \<Rightarrow> reportQuota used quota over h)"

text \<open>\<open>Run\<close>: a pass at once and one at every tick.\<close>

definition Run_keeper :: "(id list \<times> instant) list \<Rightarrow> keeper \<Rightarrow> keeper" where
  "Run_keeper ticks h = fold (\<lambda>(order, now). pass order now) ticks h"

section \<open>Warnings alternate\<close>

fun is_warning :: "quota_line \<Rightarrow> bool" where
  "is_warning (FillingUp u q p) = True"
| "is_warning (BackBelow u q) = False"

text \<open>Every warning is followed by its all-clear before the next, starting with a warning; \<open>hkWarned\<close> says which
  is next.\<close>

fun alternating :: "bool \<Rightarrow> quota_line list \<Rightarrow> bool \<Rightarrow> bool" where
  "alternating w [] w' \<longleftrightarrow> w = w'"
| "alternating w (l # ls) w' \<longleftrightarrow> is_warning l = (\<not> w) \<and> alternating (\<not> w) ls w'"

lemma alternating_snoc: "alternating w (ls @ [l]) w' \<longleftrightarrow> alternating w ls (\<not> w') \<and> is_warning l = w'"
  by (induction w ls w' rule: alternating.induct) auto

lemma reportQuota_alternates:
  assumes "alternating False (hkLines h) (hkWarned h)"
  shows "alternating False (hkLines (reportQuota u q ov h)) (hkWarned (reportQuota u q ov h))"
  using assms by (auto simp: reportQuota_def Let_def alternating_snoc)

lemma sweep_lines:
  "hkLines (sweepFailed order now h) = hkLines h" "hkWarned (sweepFailed order now h) = hkWarned h"
  "hkLines (sweepHistory now h) = hkLines h" "hkWarned (sweepHistory now h) = hkWarned h"
  by (simp_all add: sweepFailed_def sweepHistory_def split: prod.split)

lemma pass_alternates:
  "alternating False (hkLines h) (hkWarned h) \<Longrightarrow> alternating False (hkLines (pass order now h)) (hkWarned (pass order now h))"
  by (simp add: pass_def Let_def reportQuota_alternates sweep_lines split: prod.split)

lemma passes_alternate:
  assumes "hkLines h = []" "\<not> hkWarned h"
  shows "alternating False (hkLines (Run_keeper ticks h)) (hkWarned (Run_keeper ticks h))"
proof -
  have "alternating False (hkLines h) (hkWarned h) \<Longrightarrow> ?thesis"
    unfolding Run_keeper_def by (induction ticks arbitrary: h) (auto simp: pass_alternates)
  then show ?thesis using assms by simp
qed

section \<open>Sweeps are an hour apart\<close>

lemma sweepFailed_gap:
  assumes "hkSpool (sweepFailed order now h) \<noteq> hkSpool h"
  shows "hkLastFailed h + hour \<le> now" "hkLastFailed (sweepFailed order now h) = now"
proof -
  have nt: "\<not> time_sub now (hkLastFailed h) < failedSweepInterval" using assms by (auto simp: sweepFailed_def)
  have "hour \<le> max_int64" "hour > - (2 ^ 63)" by (simp_all add: time_units max_int64_def)
  from time_sub_less [OF this] show "hkLastFailed h + hour \<le> now" using nt unfolding failedSweepInterval_def by (meson not_less)
  show "hkLastFailed (sweepFailed order now h) = now" using nt by (simp add: sweepFailed_def split: prod.split)
qed

text \<open>What the keeper holds stays in order: the accounts of the spool and the journal's tables.\<close>

lemma pass_keeps:
  assumes "spool_inv (hkSpool h)" "journal_ok (hkStore h)"
  shows "spool_inv (hkSpool (pass order now h))" "journal_ok (hkStore (pass order now h))"
proof -
  have st: "hkStore (sweepFailed order now h) = hkStore h" by (simp add: sweepFailed_def split: prod.split)
  have keep: "hkStore (reportQuota u q ov k) = hkStore k" "hkSpool (reportQuota u q ov k) = hkSpool k" for u q ov k
    by (simp_all add: reportQuota_def Let_def)
  obtain n j where sw: "RetentionSweep now (hkStore h) = (n, j)" by fastforce
  obtain r f sp where sf: "SweepFailed order now (hkSpool h) = (r, f, sp)" by (metis prod_cases3)
  have "spool_inv (hkSpool (sweepFailed order now h))"
    using SweepFailed_inv [OF sf assms(1)] assms(1) by (simp add: sweepFailed_def sf)
  then show "spool_inv (hkSpool (pass order now h))"
    by (simp add: pass_def Let_def keep sweepHistory_def split: prod.split)
  show "journal_ok (hkStore (pass order now h))"
    using RetentionSweep_ok [OF assms(2) sw] by (simp add: pass_def Let_def keep st sw sweepHistory_def split: prod.split)
qed

end
