(* ===== verification/Token_Source.thy ===== *)
theory Token_Source
  imports Delivery Config_Validate Utf8
begin

text \<open>
  \<open>internal/authms365/token.go\<close>: the cached access token of a route, and in \<open>cmd/smtprelayd/main.go\<close> the sources
  built from the configuration and their check at startup. One call of \<open>Token\<close> holds the mutex
  throughout, so a run of calls is a list. A call meets three readings of the clock (on entry, inside
  \<open>fetch\<close>, after it) and what the exchange with the endpoint brought.

  The readers of the two JSON documents are fields of \<open>token_codec\<close>; they return the fields by name.
\<close>

datatype token_err = CredentialError goerr | OtherError goerr

record token_codec =
  payloadOf :: "string \<Rightarrow> string + string \<times> string \<times> int"
  errorOf :: "string \<Rightarrow> (string \<times> string) option"

datatype exchange = BadRequest string | Unreachable string | BrokenBody string | Answered int string

record token_source =
  tsClientID :: string
  tsSecret :: string
  tsScope :: string
  tsEndpoint :: string
  tsToken :: string
  tsIssuedAt :: "instant option"
  tsExpires :: instant
  tsLastErr :: "token_err option"
  tsRetryAfter :: instant

definition authority :: string where "authority = ''login.microsoftonline.com''"
definition refreshSkew :: duration where "refreshSkew = 5 * minute"
definition failCooldown :: duration where "failCooldown = 30 * second"
definition maxResponseBytes :: nat where "maxResponseBytes = 1048576"

record token_options =
  toTenantID :: string
  toClientID :: string
  toSecret :: string
  toScope :: string

text \<open>\<open>url.URL\<close> has nothing to escape in the path of a valid tenant.\<close>

definition New_source :: "token_options \<Rightarrow> goerr + token_source" where
  "New_source opt =
     (if \<not> ValidTenantID (toTenantID opt)
      then Inl (Opaque (''authms365: tenant_id '' @ quoted (toTenantID opt) @ '' is not a tenant GUID or domain name''))
      else if toClientID opt = [] then Inl (Opaque ''authms365: client_id is empty'')
      else if toSecret opt = [] then Inl (Opaque ''authms365: client_secret is empty'')
      else Inr \<lparr>tsClientID = toClientID opt, tsSecret = toSecret opt,
                tsScope = (if toScope opt = [] then DefaultScope else toScope opt),
                tsEndpoint = ''https://'' @ authority @ ''/'' @ toTenantID opt @ ''/oauth2/v2.0/token'',
                tsToken = [], tsIssuedAt = None, tsExpires = 0, tsLastErr = None, tsRetryAfter = 0\<rparr>)"

section \<open>What the endpoint answers\<close>

text \<open>The runes of a string, each as the bytes \<open>string(rune)\<close> writes.\<close>

function runes :: "string \<Rightarrow> string list" where
  "runes s =
     (if s = [] then []
      else if rune_width s = 0 then rune_error # runes (tl s)
      else take (rune_width s) s # runes (drop (rune_width s) s))"
  by pat_completeness auto
termination
  by (relation "measure length") auto

declare runes.simps [simp del]

definition oneLine :: "string \<Rightarrow> nat \<Rightarrow> string" where
  "oneLine s mx =
     (let t = json_string (map (\<lambda>c. if c = CR \<or> c = LF \<or> c = TAB then CHR '' '' else c) (TrimSpace s));
          r = runes t
      in if length r > mx then concat (take mx r) @ ''...'' else t)"

definition responseError :: "token_codec \<Rightarrow> int \<Rightarrow> string \<Rightarrow> token_err" where
  "responseError K status body =
     (let http = ''authms365: token endpoint returned HTTP '' @ dec_int status in
      case errorOf K body of
        None \<Rightarrow> OtherError (Opaque http)
      | Some (code, descr) \<Rightarrow>
          if code = [] then OtherError (Opaque http)
          else (let err = Opaque (http @ '': '' @ code @ '': '' @ oneLine descr 200) in
                if (status = 400 \<or> status = 401) \<and> code \<noteq> ''temporarily_unavailable''
                then CredentialError err else OtherError err))"

definition checkToken :: "string \<Rightarrow> goerr option" where
  "checkToken token =
     (if token = [] then Some (Opaque ''authms365: token response contains no access token'')
      else if list_ex (\<lambda>c. byte c < (0x21::nat) \<or> byte c > (0x7e::nat)) token
      then Some (Opaque ''authms365: access token contains a character that cannot appear in a SASL payload'')
      else None)"

text \<open>\<open>url.Values.Encode\<close> writes the keys in order; every byte but the unreserved ones is escaped.\<close>

definition hex_upper :: "nat \<Rightarrow> char" where
  "hex_upper n = char_of (if n < 10 then 48 + n else 55 + n)"

definition unreserved :: "char \<Rightarrow> bool" where
  "unreserved c \<longleftrightarrow> alnum c \<or> c \<in> set ''-_.~''"

definition QueryEscape :: "string \<Rightarrow> string" where
  "QueryEscape s = concat (map (\<lambda>c. if unreserved c then [c] else if c = CHR '' '' then ''+''
     else [CHR ''%'', hex_upper (byte c div 16), hex_upper (byte c mod 16)]) s)"

definition token_form :: "token_source \<Rightarrow> string" where
  "token_form s =
     ''client_id='' @ QueryEscape (tsClientID s) @ ''&client_secret='' @ QueryEscape (tsSecret s) @
     ''&grant_type=client_credentials&scope='' @ QueryEscape (tsScope s)"

text \<open>The request is the POST of \<open>token_form\<close> to the endpoint; \<open>x\<close> is what came of it and \<open>at\<close> the clock at
  the end.\<close>

definition fetch :: "token_codec \<Rightarrow> exchange \<Rightarrow> instant \<Rightarrow> token_err + string \<times> instant" where
  "fetch K x at =
     (case x of
        BadRequest e \<Rightarrow> Inl (OtherError (Wrap ''authms365'' (Opaque e)))
      | Unreachable e \<Rightarrow> Inl (OtherError (Wrap ''authms365: token request failed'' (Opaque e)))
      | BrokenBody e \<Rightarrow> Inl (OtherError (Wrap ''authms365: reading token response'' (Opaque e)))
      | Answered status body0 \<Rightarrow>
          (let body = take maxResponseBytes body0 in
           if status \<noteq> 200 then Inl (responseError K status body)
           else case payloadOf K body of
                  Inl e \<Rightarrow> Inl (OtherError (Wrap ''authms365: token response is not valid JSON'' (Opaque e)))
                | Inr (token, kind, expiresIn) \<Rightarrow>
                    if \<not> EqualFold kind ''Bearer''
                    then Inl (OtherError (Opaque (''authms365: unexpected token type '' @ quoted kind)))
                    else case checkToken token of
                           Some e \<Rightarrow> Inl (OtherError e)
                         | None \<Rightarrow>
                             if expiresIn \<le> 0
                             then Inl (OtherError (Opaque ''authms365: token response has no usable expires_in''))
                             else Inr (token, at + i64 (expiresIn * second))))"

section \<open>The cache\<close>

record token_call =
  tcNow :: instant
  tcAt :: instant
  tcDone :: instant
  tcExchange :: exchange

text \<open>Whether a call asks the endpoint, apart from what it answers.\<close>

definition served_from_cache :: "instant \<Rightarrow> token_source \<Rightarrow> (token_err + string) option" where
  "served_from_cache now s =
     (if tsToken s \<noteq> [] \<and> now < tsExpires s - refreshSkew then Some (Inr (tsToken s))
      else (case tsLastErr s of
              None \<Rightarrow> None
            | Some e \<Rightarrow>
                if now < tsRetryAfter s
                then Some (if tsToken s \<noteq> [] \<and> now < tsExpires s then Inr (tsToken s) else Inl e)
                else None))"

definition TokenOf :: "token_codec \<Rightarrow> token_call \<Rightarrow> token_source \<Rightarrow> (token_err + string) \<times> token_source" where
  "TokenOf K c s =
     (case served_from_cache (tcNow c) s of
        Some r \<Rightarrow> (r, s)
      | None \<Rightarrow>
          (case fetch K (tcExchange c) (tcAt c) of
             Inl e \<Rightarrow>
               (let s' = s\<lparr>tsLastErr := Some e, tsRetryAfter := tcDone c + failCooldown\<rparr> in
                if tsToken s \<noteq> [] \<and> tcDone c < tsExpires s then (Inr (tsToken s), s') else (Inl e, s'))
           | Inr (t, ex) \<Rightarrow>
               (Inr t, s\<lparr>tsToken := t, tsExpires := ex, tsLastErr := None, tsIssuedAt := Some (tcDone c)\<rparr>)))"

definition TokenAge :: "instant \<Rightarrow> token_source \<Rightarrow> duration \<times> bool" where
  "TokenAge now s = (case tsIssuedAt s of None \<Rightarrow> (0, False) | Some p \<Rightarrow> (time_sub now p, True))"

section \<open>Sources of the routes\<close>

definition source_options :: "Route \<Rightarrow> token_options" where
  "source_options r = \<lparr>toTenantID = TenantID (rOAuth2 r), toClientID = ClientID (rOAuth2 r),
     toSecret = secValue (ClientSecret (rOAuth2 r)), toScope = Scope (rOAuth2 r)\<rparr>"

fun buildTokenSources :: "Route list \<Rightarrow> (string \<rightharpoonup> token_source) \<Rightarrow> goerr + (string \<rightharpoonup> token_source)" where
  "buildTokenSources [] m = Inr m"
| "buildTokenSources (r # rs) m =
     (if \<not> UsesOAuth2 r then buildTokenSources rs m
      else case New_source (source_options r) of
             Inl e \<Rightarrow> Inl (Wrap (''route '' @ rName r) e)
           | Inr s \<Rightarrow> buildTokenSources rs (m(rName r \<mapsto> s)))"

text \<open>\<open>None\<close> starts the service; the flag of the log line is whether the credentials were rejected.\<close>

definition verifyTokens :: "(string \<Rightarrow> (token_err + string) option) \<Rightarrow> Route list \<Rightarrow> goerr option \<times> bool option" where
  "verifyTokens source rs =
     (case VerifyTokens source rs of
        None \<Rightarrow> (None, None)
      | Some (w, CredentialError e) \<Rightarrow> (Some (Wrap w e), Some True)
      | Some (w, OtherError e) \<Rightarrow> (None, Some False))"

end
