(* ===== verification/Config_Load.thy ===== *)
theory Config_Load
  imports Config_Accepted "HOL-Library.Word"
begin

unbundle bit_operations_syntax

text \<open>
  \<open>internal/ostrust/trust_unix.go\<close>, \<open>dpapi_other.go\<close> and the loader of \<open>internal/config/config.go\<close>: who may write the
  configuration and the files it names, how a secret reference becomes a secret, and the order in which
  \<open>Load\<close> refuses. The host is a record: what \<open>Lstat\<close> says of a path, the process's user, the environment and the
  files; \<open>pathDir\<close> is \<open>filepath.Dir\<close>. Permission masks are written in hexadecimal: 0x12 is the code's octal 022,
  0x3F its 077. The TOML decoder is the argument \<open>decode\<close>: from the defaults it makes the
  configuration and the keys it did not use.
\<close>

section \<open>Trust in files\<close>

record file_info =
  fiSymlink :: bool
  fiIsDir :: bool
  fiPerm :: "9 word"
  fiUid :: "int option"

record host =
  hLstat :: "string \<Rightarrow> string + file_info"
  hGetuid :: int
  hGetenv :: "string \<Rightarrow> string"
  hReadFile :: "string \<Rightarrow> string + string"
  pathDir :: "string \<Rightarrow> string"

definition checkTrusted :: "host \<Rightarrow> string \<Rightarrow> bool \<Rightarrow> string option" where
  "checkTrusted H path wantDir =
     (case hLstat H path of
        Inl e \<Rightarrow> Some e
      | Inr fi \<Rightarrow>
          if fiSymlink fi then Some (path @ '' is a symlink; refusing to follow it'')
          else if wantDir \<noteq> fiIsDir fi then Some (path @ '': unexpected file type'')
          else case fiUid fi of
                 None \<Rightarrow> Some (path @ '': cannot determine ownership'')
               | Some u \<Rightarrow>
                   if u \<noteq> 0 \<and> u \<noteq> hGetuid H then Some (path @ '' is owned by uid '' @ dec_int u)
                   else if fiPerm fi AND 0x12 \<noteq> 0 then Some (path @ '' is writable by group or others'')
                   else None)"

definition CheckConfigFile :: "host \<Rightarrow> string \<Rightarrow> string option" where
  "CheckConfigFile H path =
     (case checkTrusted H path False of
        Some e \<Rightarrow> Some e
      | None \<Rightarrow> checkTrusted H (pathDir H path) True)"

definition CheckDir :: "host \<Rightarrow> string \<Rightarrow> string option" where
  "CheckDir H path = checkTrusted H path True"

definition CheckSecretFile :: "host \<Rightarrow> string \<Rightarrow> string option" where
  "CheckSecretFile H path =
     (case checkTrusted H (pathDir H path) True of
        Some e \<Rightarrow> Some (''directory of secret file '' @ path @ '': '' @ e)
      | None \<Rightarrow>
          (case hLstat H path of
             Inl e \<Rightarrow> Some e
           | Inr fi \<Rightarrow>
               if fiSymlink fi then Some (''secret file '' @ path @ '' is a symlink'')
               else if fiPerm fi AND 0x3F \<noteq> 0 then Some (''secret file '' @ path @ '' is readable by group or others'')
               else case fiUid fi of
                      None \<Rightarrow> Some (path @ '': cannot determine ownership'')
                    | Some u \<Rightarrow>
                        if u \<noteq> 0 \<and> u \<noteq> hGetuid H then Some (''secret file '' @ path @ '' is owned by uid '' @ dec_int u)
                        else None))"

definition ResolveDPAPISecret :: "string \<Rightarrow> string + string" where
  "ResolveDPAPISecret path = Inl ''dpapi: secrets are only supported on Windows''"

section \<open>Secrets\<close>

text \<open>The pattern \<open>^\$\{[A-Za-z_][A-Za-z0-9_]*\}$\<close>.\<close>

definition env_start :: "char \<Rightarrow> bool" where
  "env_start c \<longleftrightarrow> is_upper c \<or> is_lower c \<or> c = CHR ''_''"

definition env_name :: "string \<Rightarrow> string" where
  "env_name ref = TrimSuffix (TrimPrefix ref ''${'') ''}''"

definition envRef :: "string \<Rightarrow> bool" where
  "envRef s \<longleftrightarrow> HasPrefix s ''${'' \<and> HasSuffix s ''}'' \<and> length s > 3 \<and>
     env_start (env_name s ! 0) \<and> list_all (\<lambda>c. env_start c \<or> is_digit c) (env_name s)"

definition resolve_secret :: "host \<Rightarrow> string \<Rightarrow> Secret \<Rightarrow> string + Secret" where
  "resolve_secret H field s =
     (if secRef s = [] then Inr s
      else if envRef (secRef s) then
        (let v = hGetenv H (env_name (secRef s)) in
         if v = [] then Inl (field @ '': environment variable '' @ env_name (secRef s) @ '' is unset or empty'')
         else Inr (s\<lparr>secValue := v\<rparr>))
      else if HasPrefix (secRef s) ''file:'' then
        (let path = TrimPrefix (secRef s) ''file:'' in
         case CheckSecretFile H path of
           Some e \<Rightarrow> Inl (field @ '': '' @ e)
         | None \<Rightarrow>
             (case hReadFile H path of
                Inl e \<Rightarrow> Inl (field @ '': '' @ e)
              | Inr b \<Rightarrow>
                  (let v = TrimRightP (\<lambda>c. c = CR \<or> c = LF) b in
                   if v = [] then Inl (field @ '': secret file '' @ path @ '' is empty'')
                   else Inr (s\<lparr>secValue := v\<rparr>))))
      else if HasPrefix (secRef s) ''dpapi:'' then
        (let path = TrimPrefix (secRef s) ''dpapi:'' in
         case ResolveDPAPISecret path of
           Inl e \<Rightarrow> Inl (field @ '': '' @ e)
         | Inr v \<Rightarrow>
             if v = [] then Inl (field @ '': dpapi file '' @ path @ '' decrypted to an empty secret'')
             else Inr (s\<lparr>secValue := v\<rparr>))
      else Inl (field @ '': secrets must be ${ENV_VAR}, file:<path> or dpapi:<path> (Windows only), never a literal value''))"

section \<open>Loading\<close>

text \<open>The routes are resolved in place: those before a failure keep their secrets.\<close>

fun resolve_routes :: "host \<Rightarrow> Route list \<Rightarrow> Route list \<times> string option" where
  "resolve_routes H [] = ([], None)"
| "resolve_routes H (r # rs) =
     (case resolve_secret H (''route '' @ rName r @ '' oauth2.client_secret'') (ClientSecret (rOAuth2 r)) of
        Inl e \<Rightarrow> (r # rs, Some e)
      | Inr s \<Rightarrow>
          (let r1 = r\<lparr>rOAuth2 := (rOAuth2 r)\<lparr>ClientSecret := s\<rparr>\<rparr> in
           case resolve_secret H (''route '' @ rName r @ '' credentials.password'') (Password (rCredentials r1)) of
             Inl e \<Rightarrow> (r1 # rs, Some e)
           | Inr p \<Rightarrow>
               (case resolve_routes H rs of
                  (rs', e) \<Rightarrow> (r1\<lparr>rCredentials := (rCredentials r1)\<lparr>Password := p\<rparr>\<rparr> # rs', e))))"

datatype load_err =
    NoFile | Untrusted string | BadToml string | UnknownKeys "string list" | BadSecret string
  | Refused "(string \<times> string) list"

definition LoadConfig ::
  "host \<Rightarrow> cfg_env \<Rightarrow> (string \<Rightarrow> Config \<Rightarrow> string + Config \<times> string list) \<Rightarrow> string \<Rightarrow> Config option \<times> load_err option" where
  "LoadConfig H E decode path =
     (if path = [] then (None, Some NoFile)
      else case CheckConfigFile H path of
             Some e \<Rightarrow> (None, Some (Untrusted e))
           | None \<Rightarrow>
               (case decode path Defaults of
                  Inl e \<Rightarrow> (None, Some (BadToml e))
                | Inr (c, un) \<Rightarrow>
                    if un \<noteq> [] then (Some c, Some (UnknownKeys un))
                    else (case resolve_routes H (Routes c) of
                            (rs, Some e) \<Rightarrow> (Some (c\<lparr>Routes := rs\<rparr>), Some (BadSecret e))
                          | (rs, None) \<Rightarrow>
                              (case Validate E (c\<lparr>Routes := rs\<rparr>) of
                                 (c', es) \<Rightarrow> (Some c', if es = [] then None else Some (Refused es))))))"

section \<open>What a resolved secret is\<close>

text \<open>Where a value came from: the environment, or a file no other account can read.\<close>

definition guarded_dir :: "host \<Rightarrow> string \<Rightarrow> bool" where
  "guarded_dir H d \<longleftrightarrow> (\<exists>fi u. hLstat H d = Inr fi \<and> \<not> fiSymlink fi \<and> fiIsDir fi \<and> fiUid fi = Some u \<and>
     (u = 0 \<or> u = hGetuid H) \<and> fiPerm fi AND 0x12 = 0)"

definition guarded_file :: "host \<Rightarrow> 9 word \<Rightarrow> string \<Rightarrow> bool" where
  "guarded_file H bits p \<longleftrightarrow> guarded_dir H (pathDir H p) \<and>
     (\<exists>fi u. hLstat H p = Inr fi \<and> \<not> fiSymlink fi \<and> fiUid fi = Some u \<and> (u = 0 \<or> u = hGetuid H) \<and> fiPerm fi AND bits = 0)"

definition secret_from :: "host \<Rightarrow> Secret \<Rightarrow> bool" where
  "secret_from H s \<longleftrightarrow> secRef s = [] \<or>
     secValue s \<noteq> [] \<and>
     ((\<exists>n. secRef s = ''${'' @ n @ ''}'' \<and> secValue s = hGetenv H n) \<or>
      (\<exists>p b. secRef s = ''file:'' @ p \<and> guarded_file H 0x3F p \<and> hReadFile H p = Inr b \<and>
         secValue s = TrimRightP (\<lambda>c. c = CR \<or> c = LF) b))"

lemma checkTrusted_dir: "checkTrusted H d True = None \<longleftrightarrow> guarded_dir H d"
  by (auto simp: checkTrusted_def guarded_dir_def split: sum.splits if_splits option.splits)

lemma CheckSecretFile_guarded: "CheckSecretFile H p = None \<Longrightarrow> guarded_file H 0x3F p"
  using checkTrusted_dir [of H "pathDir H p"]
  by (auto simp: CheckSecretFile_def guarded_file_def split: sum.splits if_splits option.splits)

lemma CheckConfigFile_guarded: "CheckConfigFile H p = None \<Longrightarrow> guarded_file H 0x12 p"
  using checkTrusted_dir [of H "pathDir H p"]
  by (auto simp: CheckConfigFile_def checkTrusted_def [of H p False] guarded_file_def split: sum.splits if_splits option.splits)

lemma HasPrefix_split: "HasPrefix s p \<Longrightarrow> s = p @ TrimPrefix s p"
  by (metis HasPrefix_def TrimPrefix_def append_take_drop_id)

lemma TrimSuffix_split: "HasSuffix s p \<Longrightarrow> s = TrimSuffix s p @ p"
proof -
  assume h: "HasSuffix s p"
  then have "rev (drop (length s - length p) s) = rev p" by (simp add: HasSuffix_def HasPrefix_def take_rev)
  then have "drop (length s - length p) s = p" by simp
  then show ?thesis using h append_take_drop_id [of "length s - length p" s] by (simp add: TrimSuffix_def)
qed

lemma HasSuffix_byte: "HasSuffix s [c] \<longleftrightarrow> s \<noteq> [] \<and> last s = c"
  by (cases s rule: rev_cases) (auto simp: HasSuffix_def HasPrefix_def)

lemma envRef_split:
  assumes "envRef s"
  shows "s = ''${'' @ env_name s @ ''}''"
proof -
  let ?t = "TrimPrefix s ''${''"
  have p: "s = ''${'' @ ?t" by (rule HasPrefix_split) (use assms in \<open>simp add: envRef_def\<close>)
  have l: "?t \<noteq> []" using assms arg_cong [OF p, of length] by (auto simp: envRef_def)
  have "last s = last ?t" by (subst p) (simp add: l)
  then have "HasSuffix ?t ''}''" using assms l by (simp add: envRef_def HasSuffix_byte)
  then have "?t = env_name s @ ''}''" unfolding env_name_def by (rule TrimSuffix_split)
  then show ?thesis using p by simp
qed

lemma resolve_secret_from:
  assumes "resolve_secret H f s = Inr s'"
  shows "secret_from H s'" and "secRef s' = secRef s"
proof -
  consider (none) "secRef s = []" | (env) "envRef (secRef s)" "secRef s \<noteq> []"
    | (ref) "\<not> envRef (secRef s)" "HasPrefix (secRef s) ''file:''" "secRef s \<noteq> []"
    | (other) "\<not> envRef (secRef s)" "\<not> HasPrefix (secRef s) ''file:''" "secRef s \<noteq> []" by blast
  then have "secret_from H s' \<and> secRef s' = secRef s"
  proof cases
    case none
    then show ?thesis using assms by (simp add: resolve_secret_def secret_from_def)
  next
    case env
    then have v: "hGetenv H (env_name (secRef s)) \<noteq> []" "s' = s\<lparr>secValue := hGetenv H (env_name (secRef s))\<rparr>"
      using assms by (auto simp: resolve_secret_def Let_def split: if_split_asm)
    show ?thesis using v envRef_split [OF env(1)] unfolding secret_from_def by auto
  next
    case ref
    let ?p = "TrimPrefix (secRef s) ''file:''"
    have "CheckSecretFile H ?p = None \<and> (\<exists>b. hReadFile H ?p = Inr b \<and> TrimRightP (\<lambda>c. c = CR \<or> c = LF) b \<noteq> [] \<and>
        s' = s\<lparr>secValue := TrimRightP (\<lambda>c. c = CR \<or> c = LF) b\<rparr>)"
      using assms ref by (auto simp: resolve_secret_def Let_def split: if_split_asm option.split_asm sum.split_asm)
    then show ?thesis using HasPrefix_split [OF ref(2)] CheckSecretFile_guarded unfolding secret_from_def by auto
  next
    case other
    then show ?thesis using assms by (auto simp: resolve_secret_def ResolveDPAPISecret_def Let_def split: if_split_asm)
  qed
  then show "secret_from H s'" "secRef s' = secRef s" by blast+
qed

text \<open>A literal is never a secret.\<close>

lemma literal_refused:
  "secRef s \<noteq> [] \<Longrightarrow> \<not> envRef (secRef s) \<Longrightarrow> \<not> HasPrefix (secRef s) ''file:'' \<Longrightarrow> \<exists>e. resolve_secret H f s = Inl e"
  by (simp add: resolve_secret_def ResolveDPAPISecret_def)

lemma resolve_routes_from:
  "resolve_routes H rs = (rs', None) \<Longrightarrow>
    \<forall>r \<in> set rs'. secret_from H (ClientSecret (rOAuth2 r)) \<and> secret_from H (Password (rCredentials r))"
proof (induction rs arbitrary: rs')
  case (Cons r rs)
  then show ?case
    by (auto simp: Let_def elim!: resolve_secret_from(1) split: sum.split_asm prod.split_asm)
qed simp

lemma resolve_routes_names: "map rName (fst (resolve_routes H rs)) = map rName rs"
  by (induction rs) (auto simp: Let_def split: sum.split prod.split)

end
