(* ===== verification/Token_Properties.thy ===== *)
theory Token_Properties
  imports Token_Source Config_Load
begin

text \<open>
  Properties of the token sources: what a call answers is fresh and fit for the SASL exchange, the endpoint is
  not asked before its time, and what the startup check lets pass.
\<close>

section \<open>One line\<close>

lemma json_string_chars: "set (json_string s) \<subseteq> set s \<union> set rune_error"
proof (induction s rule: rune_induct)
  case (bad s)
  have "set (tl s) \<subseteq> set s" by (cases s) auto
  then show ?case using bad by (auto simp: json_string_bad)
next
  case (good s)
  have "set (take (rune_width s) s) \<subseteq> set s" "set (drop (rune_width s) s) \<subseteq> set s"
    by (rule set_take_subset, rule set_drop_subset)
  then show ?case using good by (auto simp: json_string_good)
qed simp

lemma runes_concat: "concat (runes s) = json_string s"
proof (induction s rule: rune_induct)
  case Nil
  then show ?case by (simp add: runes.simps)
next
  case (bad s)
  then show ?case by (subst runes.simps) (simp add: json_string_bad)
next
  case (good s)
  then show ?case by (subst runes.simps) (simp add: json_string_good)
qed

lemma concat_take_chars: "set (concat (take n xs)) \<subseteq> set (concat xs)"
  using set_take_subset by fastforce

text \<open>What the endpoint says about an error cannot break a log line.\<close>

lemma oneLine_is_one_line: "set (oneLine s n) \<inter> {CR, LF, TAB} = {}"
proof -
  let ?t = "map (\<lambda>c. if c = CR \<or> c = LF \<or> c = TAB then CHR '' '' else c) (TrimSpace s)"
  have r: "set rune_error \<inter> {CR, LF, TAB} = {}" by (simp add: rune_error_def char_consts)
  have "set ?t \<inter> {CR, LF, TAB} = {}" by (auto simp: char_consts)
  then have j: "set (json_string ?t) \<inter> {CR, LF, TAB} = {}" using json_string_chars [of ?t] r by blast
  have "set (concat (take n (runes (json_string ?t)))) \<subseteq> set (json_string ?t) \<union> set rune_error"
    using concat_take_chars [of n "runes (json_string ?t)"] json_string_chars [of "json_string ?t"] by (simp add: runes_concat)
  then have "set (concat (take n (runes (json_string ?t)))) \<inter> {CR, LF, TAB} = {}" using j r by blast
  moreover have "set ''...'' \<inter> {CR, LF, TAB} = {}" by (simp add: char_consts)
  ultimately show ?thesis using j unfolding oneLine_def Let_def set_append by (auto simp: if_distrib)
qed

section \<open>The form\<close>

text \<open>Nothing in a credential can end its field of the form or start another.\<close>

lemma QueryEscape_inert: "c \<in> set (QueryEscape s) \<Longrightarrow> unreserved c \<or> c = CHR ''+'' \<or> c = CHR ''%''"
proof -
  have h: "n < 16 \<Longrightarrow> unreserved (hex_upper n)" for n
    by (auto simp: hex_upper_def unreserved_def alnum_def is_digit_def is_upper_def of_char_of)
  have lt: "of_char c div 16 < (16::nat)" for c :: char
    using nat_of_char_less_256 [of c] by (simp only: less_mult_imp_div_less)
  show "c \<in> set (QueryEscape s) \<Longrightarrow> unreserved c \<or> c = CHR ''+'' \<or> c = CHR ''%''"
    using h lt by (auto simp: QueryEscape_def split: if_split_asm)
qed

lemma QueryEscape_separators: "CHR ''&'' \<notin> set (QueryEscape s)" "CHR ''='' \<notin> set (QueryEscape s)"
  using QueryEscape_inert [of "CHR ''&''" s] QueryEscape_inert [of "CHR ''=''" s]
  by (auto simp: unreserved_def alnum_def is_digit_def is_upper_def is_lower_def)

section \<open>Errors of the credentials\<close>

lemma credential_error_status:
  "fetch K x at = Inl (CredentialError e) \<Longrightarrow> \<exists>status body. x = Answered status body \<and> (status = 400 \<or> status = 401)"
  by (auto simp: fetch_def responseError_def Let_def split: exchange.splits if_splits option.splits sum.splits)

section \<open>What a source holds\<close>

lemma checkToken_printable: "checkToken t = None \<longleftrightarrow> t \<noteq> [] \<and> list_all (\<lambda>c. byte c \<ge> (0x21::nat) \<and> byte c \<le> (0x7e::nat)) t"
  by (auto simp: checkToken_def list_all_iff list_ex_iff not_less [symmetric])

text \<open>The SASL payload never refuses a token of a source.\<close>

lemma checkToken_sasl: "checkToken t = None \<Longrightarrow> checkSASLField t w = None"
  by (auto simp: checkToken_def checkSASLField_def split: if_splits)

lemma fetch_ok: "fetch K x at = Inr (t, ex) \<Longrightarrow> checkToken t = None"
  by (auto simp: fetch_def Let_def split: exchange.splits if_splits option.splits sum.splits)

definition source_ok :: "token_source \<Rightarrow> bool" where
  "source_ok s \<longleftrightarrow> tsToken s \<noteq> [] \<longrightarrow> checkToken (tsToken s) = None"

lemma TokenOf_ok: "TokenOf K c s = (r, s') \<Longrightarrow> source_ok s \<Longrightarrow> source_ok s'"
  by (auto simp: TokenOf_def source_ok_def Let_def fetch_ok split: option.splits sum.splits if_splits)

text \<open>An answered token was just fetched, or is the cached one and still valid.\<close>

lemma TokenOf_token:
  assumes "TokenOf K c s = (Inr t, s')"
  shows "(served_from_cache (tcNow c) s = None \<and> (\<exists>ex. fetch K (tcExchange c) (tcAt c) = Inr (t, ex))) \<or>
    (t = tsToken s \<and> t \<noteq> [] \<and> (tcNow c < tsExpires s - refreshSkew \<or> tcNow c < tsExpires s \<or> tcDone c < tsExpires s))"
  using assms
  by (auto simp: TokenOf_def served_from_cache_def Let_def split: option.splits sum.splits if_splits prod.splits)

lemma TokenOf_cached: "served_from_cache (tcNow c) s = Some r \<Longrightarrow> TokenOf K c s = (r, s)"
  by (simp add: TokenOf_def)

section \<open>Runs\<close>

text \<open>The calls of a run, each with whether it asked the endpoint and what it answered.\<close>

fun token_run :: "token_codec \<Rightarrow> token_call list \<Rightarrow> token_source \<Rightarrow> (token_call \<times> bool \<times> (token_err + string)) list" where
  "token_run K [] s = []"
| "token_run K (c # cs) s =
     (case TokenOf K c s of (r, s') \<Rightarrow> (c, served_from_cache (tcNow c) s = None, r) # token_run K cs s')"

definition asked :: "(token_call \<times> bool \<times> (token_err + string)) list \<Rightarrow> token_call list" where
  "asked tr = map fst (filter (fst \<circ> snd) tr)"

text \<open>When the endpoint may be asked again after a request.\<close>

definition next_request :: "token_codec \<Rightarrow> token_call \<Rightarrow> instant" where
  "next_request K c =
     (case fetch K (tcExchange c) (tcAt c) of
        Inl e \<Rightarrow> tcDone c + failCooldown
      | Inr (t, ex) \<Rightarrow> ex - refreshSkew)"

definition remembers :: "token_codec \<Rightarrow> token_call \<Rightarrow> token_source \<Rightarrow> bool" where
  "remembers K c s \<longleftrightarrow>
     (case fetch K (tcExchange c) (tcAt c) of
        Inl e \<Rightarrow> tsLastErr s = Some e \<and> tsRetryAfter s = tcDone c + failCooldown
      | Inr (t, ex) \<Rightarrow> tsToken s = t \<and> tsExpires s = ex \<and> tsLastErr s = None \<and> t \<noteq> [])"

lemma asked_remembers:
  "served_from_cache (tcNow c) s = None \<Longrightarrow> TokenOf K c s = (r, s') \<Longrightarrow> remembers K c s'"
  by (auto simp: TokenOf_def remembers_def Let_def checkToken_def dest: fetch_ok split: sum.splits prod.splits if_splits)

lemma asked_in_time: "served_from_cache now s = None \<Longrightarrow> remembers K q s \<Longrightarrow> next_request K q \<le> now"
  by (auto simp: served_from_cache_def remembers_def next_request_def split: sum.splits prod.splits option.splits if_splits)

lemma run_paced:
  assumes "remembers K q s"
  shows "successively (\<lambda>q q'. next_request K q \<le> tcNow q') (q # asked (token_run K cs s))"
  using assms
proof (induction cs arbitrary: q s)
  case (Cons c cs)
  obtain r s' where t: "TokenOf K c s = (r, s')" by fastforce
  show ?case
  proof (cases "served_from_cache (tcNow c) s")
    case None
    then show ?thesis
      using Cons.IH [OF asked_remembers [OF None t]] asked_in_time [OF None Cons.prems] t by (simp add: asked_def)
  next
    case (Some a)
    then show ?thesis using Cons.IH [OF Cons.prems] TokenOf_cached [OF Some, of K] by (simp add: asked_def)
  qed
qed (simp add: asked_def)

lemma run_paced_fresh:
  assumes "tsToken s = []" "tsLastErr s = None"
  shows "successively (\<lambda>q q'. next_request K q \<le> tcNow q') (asked (token_run K cs s))"
proof (cases cs)
  case (Cons c cs')
  obtain r s' where t: "TokenOf K c s = (r, s')" by fastforce
  have n: "served_from_cache (tcNow c) s = None" using assms by (simp add: served_from_cache_def)
  show ?thesis using run_paced [OF asked_remembers [OF n t], of cs'] t n Cons by (simp add: asked_def)
qed (simp add: asked_def)

section \<open>The interface the smarthost client relies on\<close>

text \<open>\<open>smarthost.TokenSource\<close>: whatever is asked, and however often, a token that comes back can stand in a SASL
  payload.\<close>

locale token_provider =
  fixes ask :: "'c \<Rightarrow> 's \<Rightarrow> ('e + string) \<times> 's"
    and ok :: "'s \<Rightarrow> bool"
  assumes ask_keeps: "ask c s = (r, s') \<Longrightarrow> ok s \<Longrightarrow> ok s'"
    and ask_fits: "ask c s = (Inr t, s') \<Longrightarrow> ok s \<Longrightarrow> checkSASLField t ''access token'' = None"
begin

lemma payload:
  "ask c s = (Inr t, s') \<Longrightarrow> ok s \<Longrightarrow> checkSASLField u ''mailbox'' = None \<Longrightarrow>
   xoauth2Payload u t = Inr (''user='' @ u @ [CHR 0x01] @ ''auth=Bearer '' @ t @ [CHR 0x01, CHR 0x01])"
  by (simp add: xoauth2Payload_def ask_fits)

end

lemma TokenOf_fits: "TokenOf K c s = (Inr t, s') \<Longrightarrow> source_ok s \<Longrightarrow> checkSASLField t w = None"
  using TokenOf_token [of K c s t s'] checkToken_sasl [of t w] by (auto simp: source_ok_def dest: fetch_ok)

interpretation ms: token_provider "TokenOf K" source_ok for K
  by unfold_locales (auto intro: TokenOf_ok TokenOf_fits)

lemma run_payload:
  assumes "source_ok s" and "(c, a, Inr t) \<in> set (token_run K cs s)" and "checkSASLField u ''mailbox'' = None"
  shows "xoauth2Payload u t = Inr (''user='' @ u @ [CHR 0x01] @ ''auth=Bearer '' @ t @ [CHR 0x01, CHR 0x01])"
  using assms(1,2)
proof (induction cs arbitrary: s)
  case (Cons c' cs)
  obtain r s' where t: "TokenOf K c' s = (r, s')" by fastforce
  show ?case
  proof (cases "(c, a, Inr t) \<in> set (token_run K cs s')")
    case True
    then show ?thesis using Cons.IH [OF ms.ask_keeps [OF t Cons.prems(1)]] by blast
  next
    case False
    then have "r = Inr t" using Cons.prems(2) t by auto
    then show ?thesis using ms.payload [OF _ Cons.prems(1) assms(3)] t by blast
  qed
qed simp

lemma New_source_fresh: "New_source opt = Inr s \<Longrightarrow> tsToken s = [] \<and> tsLastErr s = None \<and> tsIssuedAt s = None"
  by (auto simp: New_source_def split: if_splits)

text \<open>The token of the last successful request of a trace, and the one a source holds.\<close>

definition held :: "token_codec \<Rightarrow> (token_call \<times> bool \<times> (token_err + string)) list \<Rightarrow> (string \<times> instant) option" where
  "held K tr = fold (\<lambda>(c, a, r) h. case (a, fetch K (tcExchange c) (tcAt c)) of (True, Inr p) \<Rightarrow> Some p | _ \<Rightarrow> h) tr None"

definition holds :: "token_source \<Rightarrow> (string \<times> instant) option" where
  "holds s = (if tsToken s = [] then None else Some (tsToken s, tsExpires s))"

lemma held_token_step:
  assumes "TokenOf K c s = (r, s')" "held K tr = holds s"
  shows "held K (tr @ [(c, served_from_cache (tcNow c) s = None, r)]) = holds s'"
  using assms
  by (auto simp: held_def holds_def TokenOf_def Let_def checkToken_def dest: fetch_ok split: option.splits sum.splits if_splits)

lemma answered_unexpired:
  assumes "TokenOf K c s = (Inr t, s')"
  shows "served_from_cache (tcNow c) s = None \<and> (\<exists>ex. fetch K (tcExchange c) (tcAt c) = Inr (t, ex)) \<or>
    (\<exists>ex. holds s = Some (t, ex) \<and> (if served_from_cache (tcNow c) s = None then tcDone c < ex else tcNow c < ex))"
  using assms
  by (auto simp: TokenOf_def served_from_cache_def holds_def Let_def refreshSkew_def time_units
      split: option.splits sum.splits if_splits prod.splits)

lemma run_unexpired:
  "held K tr = holds s \<Longrightarrow> token_run K cs s = pre @ (c, a, Inr t) # post \<Longrightarrow>
   a \<and> (\<exists>ex. fetch K (tcExchange c) (tcAt c) = Inr (t, ex)) \<or>
   (\<exists>ex. held K (tr @ pre) = Some (t, ex) \<and> (if a then tcDone c < ex else tcNow c < ex))"
proof (induction cs arbitrary: tr s pre)
  case (Cons d cs)
  obtain r s' where T: "TokenOf K d s = (r, s')" by fastforce
  let ?x = "(d, served_from_cache (tcNow d) s = None, r)"
  have run: "?x # token_run K cs s' = pre @ (c, a, Inr t) # post" using Cons.prems(2) T by simp
  show ?case
  proof (cases pre)
    case Nil
    then have "d = c" "a = (served_from_cache (tcNow c) s = None)" "TokenOf K c s = (Inr t, s')" using run T by auto
    then show ?thesis using answered_unexpired [of K c s t s'] Cons.prems(1) Nil by simp
  next
    case (Cons y ys)
    then have "token_run K cs s' = ys @ (c, a, Inr t) # post" "y = ?x" using run by simp_all
    then show ?thesis using Cons.IH [OF held_token_step [OF T Cons.prems(1)], of ys] Cons by simp
  qed
qed simp

section \<open>Accepted routes get their source\<close>

definition oauth_ok :: "Route \<Rightarrow> bool" where
  "oauth_ok r \<longleftrightarrow> UsesOAuth2 r \<longrightarrow>
     ValidTenantID (TenantID (rOAuth2 r)) \<and> ClientID (rOAuth2 r) \<noteq> [] \<and> secRef (ClientSecret (rOAuth2 r)) \<noteq> []"

lemma v_routeAuth_oauth: "errs (v_routeAuth E r w v) = [] \<Longrightarrow> oauth_ok r"
  by (auto simp: v_routeAuth_def Let_def no_errs auth_words oauth_ok_def UsesOAuth2_def Secret_Empty_def split: if_split_asm)

lemma v_route_oauth:
  assumes "errs (snd (snd (v_route E w r acc))) = []"
  shows "oauth_ok r"
proof -
  obtain owner claimed v where a: "acc = (owner, claimed, v)" by (cases acc)
  let ?v1 = "v_routeAuth E r w (v_routeTLS r w (v_routeIdentity r w v))"
  let ?v2 = "refuse (rRateLimitPerMin r < 0) w ''rate_limit_per_min must not be negative'' (v_routeCAPin r w ?v1)"
  obtain o1 v3 where d: "v_routeDomains w (rName r) (Domains r) (owner, ?v2) = (o1, v3)" by fastforce
  have "snd (snd (v_route E w r acc)) = snd (v_prefixes E w (rName r) (Sources r) (claimed, v3))"
    unfolding v_route_def Let_def a prod.case d by (simp split: prod.split)
  then have "errs v3 = []" using laterD [OF v_prefixes_later [OF later_refl]] assms by metis
  then have "errs ?v2 = []"
    using laterD [OF v_routeDomains_later [of ?v2 "(owner, ?v2)" w "rName r" "Domains r"]] d by (simp add: later_refl)
  then have "errs ?v1 = []" unfolding errs_refuse using laterD [OF v_routeCAPin_later [OF later_refl]] by blast
  then show ?thesis by (rule v_routeAuth_oauth)
qed

lemma v_route_loop_oauth: "errs (snd (snd (v_route_loop E i rs acc))) = [] \<Longrightarrow> \<forall>r \<in> set rs. oauth_ok r"
proof (induction rs arbitrary: i acc)
  case (Cons r rs)
  let ?acc = "v_route E (place ''route'' i (rName r)) r acc"
  have e: "errs (snd (snd (v_route_loop E (i + 1) rs ?acc))) = []" using Cons.prems by simp
  then have "errs (snd (snd ?acc)) = []" using laterD [OF v_route_loop_later [OF later_refl]] by blast
  then show ?case using v_route_oauth Cons.IH [OF e] by auto
qed simp

lemma accepted_oauth:
  assumes "snd (Validate E c0) = []" and "c = fst (Validate E c0)"
  shows "\<forall>r \<in> set (Routes c). oauth_ok r"
proof -
  have c: "c = Normalize (osHostname E) c0" using assms(2) by (simp add: Validate_def Let_def)
  define v4 where "v4 = v_clients E c (v_tls E c (v_listeners E c (v_service E c newValidator)))"
  define v7 where "v7 = v_queue c (v_clientRoutes (Clients c) (v_routes E c v4))"
  define v12 where "v12 = v_canaries c (v_bounce c (v_history c (v_metrics E c (v_web E c v7))))"
  have e: "errs (v_limits c v12) = []"
    using assms(1) unfolding Validate_def Let_def snd_conv c [symmetric] v4_def [symmetric] v7_def [symmetric] v12_def [symmetric] .
  from v_limits_ok [OF e] have "errs v7 = []"
    unfolding v12_def by (metis laterD v_canaries_later v_bounce_later v_history_later v_metrics_later v_web_later)
  then have r: "errs (v_routes E c v4) = []" using v_queue_ok v_clientRoutes_ok unfolding v7_def by blast
  obtain o1 c1 v1 where l: "v_route_loop E 0 (Routes c) (Map.empty, [], v4) = (o1, c1, v1)"
    by (cases "v_route_loop E 0 (Routes c) (Map.empty, [], v4)") auto
  have "errs v1 = []" using r by (auto simp: v_routes_def Let_def l no_errs v_frame split: if_splits)
  then show ?thesis using v_route_loop_oauth [of E 0 "Routes c" "(Map.empty, [], v4)"] l by simp
qed

lemma New_source_ok:
  assumes "UsesOAuth2 r" "oauth_ok r" "secret_from H (ClientSecret (rOAuth2 r))"
  shows "\<exists>s. New_source (source_options r) = Inr s"
  using assms by (auto simp: New_source_def source_options_def oauth_ok_def secret_from_def)

lemma buildTokenSources_ok:
  assumes "\<forall>r \<in> set rs. UsesOAuth2 r \<longrightarrow> (\<exists>s. New_source (source_options r) = Inr s)"
  shows "\<exists>m'. buildTokenSources rs m = Inr m' \<and> dom m' = dom m \<union> rName ` {r \<in> set rs. UsesOAuth2 r}"
  using assms
proof (induction rs arbitrary: m)
  case (Cons r rs)
  show ?case
  proof (cases "UsesOAuth2 r")
    case True
    then obtain s where s: "New_source (source_options r) = Inr s" using Cons.prems by auto
    have "\<forall>r \<in> set rs. UsesOAuth2 r \<longrightarrow> (\<exists>s. New_source (source_options r) = Inr s)" using Cons.prems by simp
    from Cons.IH [OF this, of "m(rName r \<mapsto> s)"] obtain m' where m': "buildTokenSources rs (m(rName r \<mapsto> s)) = Inr m'"
      "dom m' = dom (m(rName r \<mapsto> s)) \<union> rName ` {r \<in> set rs. UsesOAuth2 r}" by blast
    then have "buildTokenSources (r # rs) m = Inr m'" using True s by simp
    moreover have "dom m' = dom m \<union> rName ` {x \<in> set (r # rs). UsesOAuth2 x}" using m'(2) True by auto
    ultimately show ?thesis by blast
  next
    case False
    then have "{x \<in> set (r # rs). UsesOAuth2 x} = {x \<in> set rs. UsesOAuth2 x}" by auto
    then show ?thesis using Cons False by simp
  qed
qed simp

lemma norm_route_secrets:
  "ClientSecret (rOAuth2 (norm_route r)) = ClientSecret (rOAuth2 r)"
  "Password (rCredentials (norm_route r)) = Password (rCredentials r)"
  by (simp_all add: norm_route_def Let_def)

lemma Normalize_secrets:
  assumes "r \<in> set (Routes (Normalize h c))"
  shows "\<exists>r0 \<in> set (Routes c).
     ClientSecret (rOAuth2 r) = ClientSecret (rOAuth2 r0) \<and> Password (rCredentials r) = Password (rCredentials r0)"
proof -
  have "Routes (Normalize h c) = map norm_route (Routes c)" by (simp add: Normalize_def)
  then obtain r0 where "r0 \<in> set (Routes c)" "r = norm_route r0" using assms by (metis imageE list.set_map)
  then show ?thesis using norm_route_secrets by blast
qed

lemma LoadConfig_accepted:
  assumes "LoadConfig H E decode path = (Some c, None)"
  obtains c0 rs where "CheckConfigFile H path = None" "decode path Defaults = Inr (c0, [])"
    "resolve_routes H (Routes c0) = (rs, None)"
    "snd (Validate E (c0\<lparr>Routes := rs\<rparr>)) = []" "c = fst (Validate E (c0\<lparr>Routes := rs\<rparr>))"
proof -
  have g: "CheckConfigFile H path = None"
    using assms by (cases "CheckConfigFile H path") (auto simp: LoadConfig_def split: if_split_asm)
  obtain c0 un where d: "decode path Defaults = Inr (c0, un)"
    using assms g by (cases "decode path Defaults") (auto simp: LoadConfig_def split: if_split_asm)
  have u: "un = []" using assms g d by (auto simp: LoadConfig_def split: if_split_asm)
  obtain rs e where r: "resolve_routes H (Routes c0) = (rs, e)" by fastforce
  have e: "e = None" using assms g d u r by (cases e) (auto simp: LoadConfig_def split: if_split_asm)
  obtain c' es where v: "Validate E (c0\<lparr>Routes := rs\<rparr>) = (c', es)" by fastforce
  have "c' = c" "es = []" using assms g d u r e v by (auto simp: LoadConfig_def split: if_split_asm)
  then show thesis using that g d u r e v by simp
qed

section \<open>Properties\<close>

lemma loaded_secrets:
  assumes "LoadConfig H E decode path = (Some c, None)"
  shows "\<forall>r \<in> set (Routes c). secret_from H (ClientSecret (rOAuth2 r)) \<and> secret_from H (Password (rCredentials r))"
proof -
  obtain c0 rs where rr: "resolve_routes H (Routes c0) = (rs, None)" and v: "c = fst (Validate E (c0\<lparr>Routes := rs\<rparr>))"
    by (rule LoadConfig_accepted [OF assms])
  then have "c = Normalize (osHostname E) (c0\<lparr>Routes := rs\<rparr>)" by (simp add: Validate_def Let_def)
  then show ?thesis
    using Normalize_secrets [of _ "osHostname E" "c0\<lparr>Routes := rs\<rparr>"] resolve_routes_from [OF rr] by fastforce
qed

lemma loaded_sources:
  assumes "LoadConfig H E decode path = (Some c, None)"
  shows "\<exists>m. buildTokenSources (Routes c) Map.empty = Inr m \<and> dom m = rName ` {r \<in> set (Routes c). UsesOAuth2 r}"
proof -
  obtain c0 rs where v: "snd (Validate E (c0\<lparr>Routes := rs\<rparr>)) = []" "c = fst (Validate E (c0\<lparr>Routes := rs\<rparr>))"
    by (rule LoadConfig_accepted [OF assms])
  have "\<forall>r \<in> set (Routes c). UsesOAuth2 r \<longrightarrow> (\<exists>s. New_source (source_options r) = Inr s)"
    using New_source_ok accepted_oauth [OF v] loaded_secrets [OF assms] by blast
  then show ?thesis using buildTokenSources_ok [of "Routes c" Map.empty] by auto
qed

text \<open>C30: A configuration the loader accepts was read from a file, in a directory, that only root or the service
  account may write; every secret its routes refer to is non-empty and came from the environment or from a file no
  other account can read, never from the configuration itself; and every route that authenticates with
  XOAUTH2 gets its token source.\<close>

theorem loaded_config_is_trusted:
  assumes "LoadConfig H E decode path = (Some c, None)"
  shows "guarded_file H 0x12 path \<and>
    (\<forall>r \<in> set (Routes c). secret_from H (ClientSecret (rOAuth2 r)) \<and> secret_from H (Password (rCredentials r))) \<and>
    (\<exists>m. buildTokenSources (Routes c) Map.empty = Inr m \<and> dom m = rName ` {r \<in> set (Routes c). UsesOAuth2 r})"
proof -
  obtain c0 rs where g: "CheckConfigFile H path = None" by (rule LoadConfig_accepted [OF assms])
  then show ?thesis
    using loaded_secrets [OF assms] loaded_sources [OF assms] CheckConfigFile_guarded by blast
qed

text \<open>A host whose configuration file belongs to root, and a configuration with one XOAUTH2 route.\<close>

definition demo_host :: host where
  "demo_host = \<lparr>hLstat = (\<lambda>p. if p = ''/c'' then Inr \<lparr>fiSymlink = False, fiIsDir = False, fiPerm = 0x1A0, fiUid = Some 0\<rparr>
       else if p = ''/'' then Inr \<lparr>fiSymlink = False, fiIsDir = True, fiPerm = 0x1ED, fiUid = Some 0\<rparr> else Inl ''absent''),
     hGetuid = 7, hGetenv = (\<lambda>n. if n = ''SECRET'' then ''s3cret'' else []), hReadFile = (\<lambda>_. Inl ''absent''), pathDir = (\<lambda>_. ''/'')\<rparr>"

definition demo_oauth_route :: "string \<Rightarrow> Route" where
  "demo_oauth_route v = (demo_route ''main'' [] True)\<lparr>Auth := AuthXOAUTH2,
     rOAuth2 := \<lparr>TenantID = ''example.com'', ClientID = ''app'', ClientSecret = \<lparr>secRef = ''${SECRET}'', secValue = v\<rparr>,
       SecretExpires = [], Scope = [], Mailbox = ''relay@example.com''\<rparr>\<rparr>"

definition demo_oauth_config :: "string \<Rightarrow> Config" where
  "demo_oauth_config v = demo_config\<lparr>Routes := [demo_oauth_route v]\<rparr>"

lemma demo_oauth_valid: "snd (Validate demo_cfg_env (demo_oauth_config ''s3cret'')) = []"
  by code_simp

lemma demo_loaded:
  "LoadConfig demo_host demo_cfg_env (\<lambda>p d. Inr (demo_oauth_config [], [])) ''/c'' =
     (Some (fst (Validate demo_cfg_env (demo_oauth_config ''s3cret''))), None)"
proof -
  have g: "CheckConfigFile demo_host ''/c'' = None" by code_simp
  have r: "resolve_routes demo_host [demo_oauth_route []] = ([demo_oauth_route ''s3cret''], None)" by code_simp
  have c: "Routes (demo_oauth_config []) = [demo_oauth_route []]"
    "(demo_oauth_config [])\<lparr>Routes := [demo_oauth_route ''s3cret'']\<rparr> = demo_oauth_config ''s3cret''"
    by (simp_all add: demo_oauth_config_def)
  show ?thesis using demo_oauth_valid by (simp add: LoadConfig_def g c split_def del: resolve_routes.simps) (simp add: r c del: resolve_routes.simps)
qed

theorem loaded_config_is_trusted_witness:
  "\<exists>c m. LoadConfig demo_host demo_cfg_env (\<lambda>p d. Inr (demo_oauth_config [], [])) ''/c'' = (Some c, None) \<and>
     buildTokenSources (Routes c) Map.empty = Inr m \<and> dom m = rName ` {r \<in> set (Routes c). UsesOAuth2 r}"
  using loaded_config_is_trusted [OF demo_loaded] demo_loaded by blast

text \<open>C31: In any run of calls of a new token source the endpoint is asked again no earlier than thirty seconds after a
  request that failed and no earlier than five minutes before the token of one that succeeded ends. Every token
  a call answers was fetched by that very call, or is the one the last successful request brought and has not
  expired: at the call's reading of the clock if the endpoint was not asked, at the end of the request if it was
  asked and failed. And it passes into the SASL payload of any valid mailbox unchanged.\<close>

theorem token_requests_paced:
  assumes "New_source opt = Inr s"
  shows "successively (\<lambda>q q'. next_request K q \<le> tcNow q') (asked (token_run K cs s)) \<and>
    (\<forall>pre c a t post. token_run K cs s = pre @ (c, a, Inr t) # post \<longrightarrow>
       (a \<and> (\<exists>ex. fetch K (tcExchange c) (tcAt c) = Inr (t, ex)) \<or>
        (\<exists>ex. held K pre = Some (t, ex) \<and> (if a then tcDone c < ex else tcNow c < ex))) \<and>
       (\<forall>u. checkSASLField u ''mailbox'' = None \<longrightarrow>
          xoauth2Payload u t = Inr (''user='' @ u @ [CHR 0x01] @ ''auth=Bearer '' @ t @ [CHR 0x01, CHR 0x01])))"
proof (intro conjI allI impI, goal_cases)
  case 1
  show ?case using run_paced_fresh New_source_fresh [OF assms] by blast
next
  case (2 pre c a t post)
  have "held K [] = holds s" using New_source_fresh [OF assms] by (simp add: held_def holds_def)
  then show ?case using run_unexpired [of K "[]" s cs pre c a t post] 2 by simp
next
  case (3 pre c a t post u)
  have ok: "source_ok s" using New_source_fresh [OF assms] by (simp add: source_ok_def)
  have "(c, a, Inr t) \<in> set (token_run K cs s)" using 3(1) by simp
  then show ?case using run_payload [OF ok] 3(2) by blast
qed

definition demo_options :: token_options where
  "demo_options = \<lparr>toTenantID = ''example.com'', toClientID = ''app'', toSecret = ''s'', toScope = []\<rparr>"

definition demo_source :: token_source where
  "demo_source = (case New_source demo_options of Inr s \<Rightarrow> s)"

text \<open>An endpoint that is first unreachable and then answers its body as a token for an hour.\<close>

definition demo_codec :: token_codec where
  "demo_codec = \<lparr>payloadOf = (\<lambda>b. Inr (b, ''bearer'', 3600)), errorOf = (\<lambda>_. None)\<rparr>"

definition demo_calls :: "token_call list" where
  "demo_calls = [\<lparr>tcNow = 0, tcAt = second, tcDone = second, tcExchange = Unreachable ''timeout''\<rparr>,
     \<lparr>tcNow = 2 * second, tcAt = 2 * second, tcDone = 2 * second, tcExchange = Answered 200 ''t0''\<rparr>,
     \<lparr>tcNow = minute, tcAt = minute, tcDone = minute, tcExchange = Answered 200 ''t1''\<rparr>,
     \<lparr>tcNow = 2 * minute, tcAt = 2 * minute, tcDone = 2 * minute, tcExchange = Answered 200 ''t2''\<rparr>]"

lemma demo_fetch:
  assumes "length b \<le> maxResponseBytes" "checkToken b = None"
  shows "fetch demo_codec (Answered 200 b) at = Inr (b, at + hour)"
proof -
  have "EqualFold ''bearer'' ''Bearer''" by code_simp
  then show ?thesis using assms by (simp add: fetch_def demo_codec_def i64_def time_units)
qed

lemma demo_fetched: "fetch demo_codec (Answered 200 ''t1'') at = Inr (''t1'', at + hour)"
  by (rule demo_fetch) (simp_all add: maxResponseBytes_def checkToken_def)

theorem token_requests_paced_witness:
  "New_source demo_options = Inr demo_source \<and>
   map (fst \<circ> snd) (token_run demo_codec demo_calls demo_source) = [True, False, True, False] \<and>
   successively (\<lambda>q q'. next_request demo_codec q \<le> tcNow q') (asked (token_run demo_codec demo_calls demo_source))"
proof -
  have n: "New_source demo_options = Inr demo_source" by code_simp
  have "fetch demo_codec (Unreachable ''timeout'') at = Inl (OtherError (Wrap ''authms365: token request failed'' (Opaque ''timeout'')))" for at
    by (simp add: fetch_def)
  moreover have "tsToken demo_source = []" "tsLastErr demo_source = None" using New_source_fresh [OF n] by blast+
  ultimately have "map (fst \<circ> snd) (token_run demo_codec demo_calls demo_source) = [True, False, True, False]"
    by (simp add: demo_calls_def TokenOf_def served_from_cache_def demo_fetched Let_def refreshSkew_def failCooldown_def time_units)
  then show ?thesis using n token_requests_paced [OF n] by blast
qed

end
