(* ===== verification/Http_Access.thy ===== *)
theory Http_Access
  imports Config_Validate "HOL-Library.AList"
begin

text \<open>
  \<open>internal/httpx/httpx.go\<close>, \<open>internal/api/auth.go\<close> and \<open>internal/web/csrf.go\<close>: what decides whether an HTTP request
  may do anything. A request is its method, path, \<open>Host\<close>, remote address and headers, and the values of its query
  and its form by key. \<open>crypt\<close> holds the digest and the MAC the standard library computes; the table of failures
  is an association list with one entry per source, and \<open>scan\<close> is the order in which a range over it meets them.
\<close>

section \<open>Requests\<close>

record request =
  rqMethod :: string
  rqPath :: "string list"
  rqHost :: string
  rqRemote :: string
  rqAuthorization :: string
  rqQuery :: "string \<Rightarrow> string list"
  rqForm :: "string \<Rightarrow> string list"

definition query_Get :: "(string \<Rightarrow> string list) \<Rightarrow> string \<Rightarrow> string" where
  "query_Get q k = (case q k of [] \<Rightarrow> [] | v # _ \<Rightarrow> v)"

text \<open>\<open>FormValue\<close> prefers the body, \<open>PostFormValue\<close> reads nothing else.\<close>

definition FormValue :: "request \<Rightarrow> string \<Rightarrow> string" where
  "FormValue r k = (case rqForm r k @ rqQuery r k of [] \<Rightarrow> [] | v # _ \<Rightarrow> v)"

definition PostFormValue :: "request \<Rightarrow> string \<Rightarrow> string" where
  "PostFormValue r k = query_Get (rqForm r) k"

record crypt =
  sha256hex :: "string \<Rightarrow> string"
  hmacSHA256 :: "string \<Rightarrow> string \<Rightarrow> string"
  hexDecode :: "string \<Rightarrow> string option"
  hexEncode :: "string \<Rightarrow> string"

definition MatchToken :: "crypt \<Rightarrow> Token list \<Rightarrow> string \<Rightarrow> Token option" where
  "MatchToken C toks presented =
     (if presented = [] then None
      else (let digest = ToLower (sha256hex C presented) in
            fold (\<lambda>t found.
              (let want = ToLower (tkSHA256 t) in
               if length want \<noteq> length digest then found else if digest = want then Some t else found)) toks None))"

definition BearerToken :: "request \<Rightarrow> string" where
  "BearerToken r =
     (let h = rqAuthorization r in
      if \<not> HasPrefix h ''Bearer '' then [] else TrimSpace (drop (length ''Bearer '') h))"

definition SourceAddr :: "cfg_env \<Rightarrow> request \<Rightarrow> string" where
  "SourceAddr E r = (case SplitHostPort E (rqRemote r) of None \<Rightarrow> rqRemote r | Some (host, _) \<Rightarrow> host)"

text \<open>\<open>None\<close> lets the request through to what it guards.\<close>

definition RequireLoopbackHost :: "cfg_env \<Rightarrow> request \<Rightarrow> int option" where
  "RequireLoopbackHost E r = (if \<not> HostHeader E (rqHost r) then Some 421 else None)"

section \<open>The failed-authentication limiter\<close>

definition failWindow :: duration where "failWindow = minute"
definition failThreshold :: int where "failThreshold = 5"
definition baseBackoff :: duration where "baseBackoff = 30 * second"
definition maxBackoff :: duration where "maxBackoff = 10 * minute"
definition maxTrackedSources :: nat where "maxTrackedSources = 4096"

record failState =
  fsWindow :: instant
  fsFails :: int
  fsBlocked :: instant

type_synonym fail_table = "(string \<times> failState) list"

definition newFailLimiter :: fail_table where "newFailLimiter = []"

definition blocked :: "string \<Rightarrow> instant \<Rightarrow> fail_table \<Rightarrow> duration option" where
  "blocked source now l =
     (case map_of l source of
        None \<Rightarrow> None
      | Some st \<Rightarrow> if \<not> now < fsBlocked st then None else Some (time_sub (fsBlocked st) now))"

definition evictLocked :: "instant \<Rightarrow> fail_table \<Rightarrow> fail_table" where
  "evictLocked now l = filter (\<lambda>(k, st). \<not> (fsBlocked st < now \<and> time_sub now (fsWindow st) > failWindow)) l"

definition victim_of :: "fail_table \<Rightarrow> string" where
  "victim_of l = fst (foldl (\<lambda>(v, soonest) (k, st). if v = [] \<or> fsBlocked st < soonest then (k, fsBlocked st) else (v, soonest))
     ([], 0) l)"

text \<open>Each round of the loop deletes one entry or returns, so as many rounds as there are entries are enough.\<close>

primrec room_loop :: "(fail_table \<Rightarrow> fail_table) \<Rightarrow> nat \<Rightarrow> fail_table \<Rightarrow> fail_table" where
  "room_loop scan 0 l = l"
| "room_loop scan (Suc n) l =
     (if length l < maxTrackedSources then l
      else (let v = victim_of (scan l) in if v = [] then l else room_loop scan n (AList.delete v l)))"

definition makeRoomLocked :: "(fail_table \<Rightarrow> fail_table) \<Rightarrow> instant \<Rightarrow> fail_table \<Rightarrow> fail_table" where
  "makeRoomLocked scan now l =
     (if length l < maxTrackedSources then l
      else (let l1 = evictLocked now l in room_loop scan (length l1) l1))"

definition fail_once :: "instant \<Rightarrow> failState \<Rightarrow> failState" where
  "fail_once now st0 =
     (let st = st0\<lparr>fsFails := fsFails st0 + 1\<rparr> in
      if fsFails st \<ge> failThreshold then
        (let shift = (if fsFails st - failThreshold > 8 then 8 else fsFails st - failThreshold);
             backoff = i64 (baseBackoff * 2 ^ nat shift);
             capped = (if backoff > maxBackoff then maxBackoff else backoff)
         in st\<lparr>fsBlocked := now + capped\<rparr>)
      else st)"

definition recordFailure :: "(fail_table \<Rightarrow> fail_table) \<Rightarrow> string \<Rightarrow> instant \<Rightarrow> fail_table \<Rightarrow> fail_table" where
  "recordFailure scan source now l0 =
     (let l = (if map_of l0 source = None then makeRoomLocked scan now l0 else l0);
          fresh = \<lparr>fsWindow = now, fsFails = 0, fsBlocked = 0\<rparr>;
          st = (case map_of l source of
                  None \<Rightarrow> fresh
                | Some st \<Rightarrow> if time_sub now (fsWindow st) > failWindow then fresh else st)
      in AList.update source (fail_once now st) l)"

definition recordSuccess :: "string \<Rightarrow> fail_table \<Rightarrow> fail_table" where
  "recordSuccess source l = AList.delete source l"

section \<open>Authentication of an API request\<close>

datatype auth_verdict = TooMany int | Unauthorized | Forbidden | Granted string

text \<open>The checks of \<open>Server.auth\<close> in their order; the counter is the rejected tokens metric. The look at the table
  and the entry made in it are two critical sections, so what comes after the look is a definition of its own.\<close>

definition auth_settle ::
  "crypt \<Rightarrow> cfg_env \<Rightarrow> Config \<Rightarrow> (fail_table \<Rightarrow> fail_table) \<Rightarrow> string \<Rightarrow> request \<Rightarrow> instant \<Rightarrow> fail_table \<times> nat \<Rightarrow>
   auth_verdict \<times> fail_table \<times> nat" where
  "auth_settle C E cfg scan need r now ln =
     (case ln of (l, n) \<Rightarrow>
      (let source = SourceAddr E r in
       case MatchToken C (Tokens (cWeb cfg)) (BearerToken r) of
         None \<Rightarrow> (Unauthorized, recordFailure scan source now l, n + 1)
       | Some t \<Rightarrow>
           (let l' = recordSuccess source l in
            if \<not> ScopeSatisfies (tkScope t) need then (Forbidden, l', n) else (Granted (tkName t), l', n))))"

definition api_auth ::
  "crypt \<Rightarrow> cfg_env \<Rightarrow> Config \<Rightarrow> (fail_table \<Rightarrow> fail_table) \<Rightarrow> string \<Rightarrow> request \<Rightarrow> instant \<Rightarrow> fail_table \<times> nat \<Rightarrow>
   auth_verdict \<times> fail_table \<times> nat" where
  "api_auth C E cfg scan need r now ln =
     (case blocked (SourceAddr E r) now (fst ln) of
        Some wait \<Rightarrow> (TooMany (go_div wait second + 1), ln)
      | None \<Rightarrow> auth_settle C E cfg scan need r now ln)"

text \<open>Requests side by side: one that arrives looks at the table, one of those let through makes its entry.\<close>

datatype auth_event = Arrive request string instant | Settle nat

record auth_state =
  auTable :: fail_table
  auCount :: nat
  auPending :: "(request \<times> string \<times> instant) list"
  auVerdicts :: "(string \<times> auth_verdict) list"

fun auth_step ::
  "crypt \<Rightarrow> cfg_env \<Rightarrow> Config \<Rightarrow> (fail_table \<Rightarrow> fail_table) \<Rightarrow> auth_event \<Rightarrow> auth_state \<Rightarrow> auth_state" where
  "auth_step C E cfg scan (Arrive r need now) s =
     (case blocked (SourceAddr E r) now (auTable s) of
        Some wait \<Rightarrow> s\<lparr>auVerdicts := (SourceAddr E r, TooMany (go_div wait second + 1)) # auVerdicts s\<rparr>
      | None \<Rightarrow> s\<lparr>auPending := auPending s @ [(r, need, now)]\<rparr>)"
| "auth_step C E cfg scan (Settle k) s =
     (if k < length (auPending s)
      then (case auPending s ! k of (r, need, now) \<Rightarrow>
            (case auth_settle C E cfg scan need r now (auTable s, auCount s) of
               (v, l, n) \<Rightarrow> \<lparr>auTable = l, auCount = n, auPending = take k (auPending s) @ drop (Suc k) (auPending s),
                 auVerdicts = (SourceAddr E r, v) # auVerdicts s\<rparr>))
      else s)"

section \<open>Form tokens\<close>

text \<open>\<open>unix\<close> is \<open>t.Unix()\<close>, which counts from 1970; an instant counts from Go's zero time.\<close>

definition unix_epoch :: instant where "unix_epoch = 62135596800 * second"

definition unix :: "instant \<Rightarrow> int" where
  "unix t = (t - unix_epoch) div second"

definition csrfTokenTTL :: duration where "csrfTokenTTL = hour"

definition csrf_mac :: "crypt \<Rightarrow> string \<Rightarrow> string \<Rightarrow> string \<Rightarrow> int \<Rightarrow> string" where
  "csrf_mac C key act i ex = hmacSHA256 C key (act @ ''|'' @ i @ ''|'' @ dec_int ex)"

definition csrf_token :: "crypt \<Rightarrow> string \<Rightarrow> string \<Rightarrow> string \<Rightarrow> instant \<Rightarrow> string" where
  "csrf_token C key act i now =
     (let ex = unix (now + csrfTokenTTL) in dec_int ex @ ''.'' @ hexEncode C (csrf_mac C key act i ex))"

definition csrf_verify :: "crypt \<Rightarrow> string \<Rightarrow> string \<Rightarrow> string \<Rightarrow> string \<Rightarrow> instant \<Rightarrow> bool" where
  "csrf_verify C key tok act i now =
     (case IndexByte tok CHR ''.'' of
        None \<Rightarrow> False
      | Some dot \<Rightarrow>
          (case ParseInt64 (take dot tok) of
             None \<Rightarrow> False
           | Some ex \<Rightarrow>
               if unix now > ex then False
               else (case hexDecode C (drop (dot + 1) tok) of
                       None \<Rightarrow> False
                     | Some given \<Rightarrow> given = csrf_mac C key act i ex)))"

end
