(* ===== verification/Http_Limits.thy ===== *)
theory Http_Limits
  imports Http_Access
begin

text \<open>
  What the access controls of the HTTP surface guarantee: who a token matches, how large the table of failures
  gets and whom it forgets, how long a source is kept out when requests run side by side, and what a form token
  stands for.
\<close>

section \<open>Tokens\<close>

definition match_step :: "string \<Rightarrow> Token \<Rightarrow> Token option \<Rightarrow> Token option" where
  "match_step d t found =
     (let want = ToLower (tkSHA256 t) in
      if length want \<noteq> length d then found else if d = want then Some t else found)"

lemma MatchToken_fold: "fold (match_step d) toks f = Some t \<Longrightarrow> f = Some t \<or> t \<in> set toks \<and> ToLower (tkSHA256 t) = d"
proof (induction toks arbitrary: f)
  case (Cons x toks)
  from Cons.IH [of "match_step d x f"] Cons.prems show ?case by (auto simp: match_step_def Let_def split: if_splits)
qed simp

lemma MatchToken_steps: "MatchToken C toks p = (if p = [] then None else fold (match_step (ToLower (sha256hex C p))) toks None)"
  by (simp add: MatchToken_def match_step_def [abs_def] Let_def)

lemma MatchToken_sound:
  "MatchToken C toks p = Some t \<Longrightarrow> p \<noteq> [] \<and> t \<in> set toks \<and> ToLower (tkSHA256 t) = ToLower (sha256hex C p)"
  using MatchToken_fold [of "ToLower (sha256hex C p)" toks None t] by (auto simp: MatchToken_steps split: if_split_asm)

lemma api_auth_granted:
  assumes "api_auth C E cfg scan need r now ln = (Granted nm, ln')"
  shows "\<exists>t \<in> set (Tokens (cWeb cfg)). tkName t = nm \<and> BearerToken r \<noteq> [] \<and>
    ToLower (tkSHA256 t) = ToLower (sha256hex C (BearerToken r)) \<and> ScopeSatisfies (tkScope t) need"
  using assms MatchToken_sound [of C "Tokens (cWeb cfg)" "BearerToken r"]
  by (auto simp: api_auth_def auth_settle_def Let_def split: prod.splits option.splits if_splits)

section \<open>The table stays small\<close>

definition table_ok :: "fail_table \<Rightarrow> bool" where
  "table_ok l \<longleftrightarrow> distinct (map fst l) \<and> [] \<notin> fst ` set l"

text \<open>A range visits every entry once, in whatever order.\<close>

definition visits_all :: "(fail_table \<Rightarrow> fail_table) \<Rightarrow> bool" where
  "visits_all scan \<longleftrightarrow> (\<forall>l. set (scan l) = set l)"

definition victim_step :: "string \<times> instant \<Rightarrow> string \<times> failState \<Rightarrow> string \<times> instant" where
  "victim_step acc e = (if fst acc = [] \<or> fsBlocked (snd e) < snd acc then (fst e, fsBlocked (snd e)) else acc)"

lemma victim_of_foldl: "victim_of l = fst (foldl victim_step ([], 0) l)"
proof -
  have "(\<lambda>(v, soonest) (k, st). if v = [] \<or> fsBlocked st < soonest then (k, fsBlocked st) else (v, soonest)) = victim_step"
    by (auto simp: victim_step_def fun_eq_iff)
  then show ?thesis by (simp add: victim_of_def)
qed

lemma victim_fold:
  assumes "[] \<notin> fst ` set l" "fst acc \<noteq> []"
  shows "let (v, b) = foldl victim_step acc l in
    (v, b) \<in> insert acc ((\<lambda>(k, st). (k, fsBlocked st)) ` set l) \<and> v \<noteq> [] \<and> b \<le> snd acc \<and> (\<forall>(k, st) \<in> set l. b \<le> fsBlocked st)"
  using assms
proof (induction l arbitrary: acc)
  case (Cons e l)
  have "fst (victim_step acc e) \<noteq> []" using Cons.prems by (auto simp: victim_step_def)
  then show ?case using Cons.IH [of "victim_step acc e"] Cons.prems
    by (auto simp: victim_step_def Let_def split: prod.splits if_splits)
qed (simp add: split_def)

text \<open>The victim is a tracked source none ends its backoff sooner than.\<close>

lemma victim_soonest:
  assumes "[] \<notin> fst ` set l" "l \<noteq> []"
  shows "\<exists>st. (victim_of l, st) \<in> set l \<and> (\<forall>(k, st') \<in> set l. fsBlocked st \<le> fsBlocked st')"
proof -
  obtain e l' where l: "l = e # l'" using assms(2) by (cases l) auto
  have s: "victim_step ([], 0) e = (fst e, fsBlocked (snd e))" by (simp add: victim_step_def)
  obtain v b where f: "foldl victim_step (fst e, fsBlocked (snd e)) l' = (v, b)" by fastforce
  have "(v, b) \<in> insert (fst e, fsBlocked (snd e)) ((\<lambda>(k, st). (k, fsBlocked st)) ` set l') \<and> b \<le> fsBlocked (snd e) \<and>
      (\<forall>(k, st) \<in> set l'. b \<le> fsBlocked st)"
    using victim_fold [of l' "(fst e, fsBlocked (snd e))"] assms l f by auto
  moreover have "victim_of l = v" by (simp add: victim_of_foldl l s f)
  ultimately show ?thesis unfolding l by (cases e) auto
qed

lemma table_ok_filter: "table_ok l \<Longrightarrow> table_ok (filter P l)"
  by (auto simp: table_ok_def distinct_map_filter)

lemma delete_filter: "AList.delete k l = filter (\<lambda>e. fst e \<noteq> k) l"
  by (auto simp: AList.delete_eq intro: filter_cong)

lemma delete_shorter: "k \<in> fst ` set l \<Longrightarrow> length (AList.delete k l) < length l"
  unfolding delete_filter by (auto intro: length_filter_less)

lemma room_loop_room:
  assumes "visits_all scan" and "table_ok l" and "length l \<le> n"
  shows "length (room_loop scan n l) < maxTrackedSources \<and> table_ok (room_loop scan n l) \<and> set (room_loop scan n l) \<subseteq> set l"
  using assms(2,3)
proof (induction n arbitrary: l)
  case 0
  then show ?case by (simp add: maxTrackedSources_def)
next
  case (Suc n)
  show ?case
  proof (cases "length l < maxTrackedSources")
    case True
    then show ?thesis using Suc.prems by simp
  next
    case False
    let ?v = "victim_of (scan l)"
    have sc: "set (scan l) = set l" using assms(1) by (simp add: visits_all_def)
    have ne: "scan l \<noteq> []" using False sc by (auto simp: maxTrackedSources_def)
    obtain st where v: "(?v, st) \<in> set l"
      using victim_soonest [of "scan l"] ne sc Suc.prems(1) by (auto simp: table_ok_def)
    have "?v \<noteq> []" using v Suc.prems(1) by (force simp: table_ok_def)
    then have step: "room_loop scan (Suc n) l = room_loop scan n (AList.delete ?v l)" using False by (simp add: Let_def)
    have "length (AList.delete ?v l) \<le> n" using delete_shorter [of ?v l] v Suc.prems(2) by force
    moreover have "table_ok (AList.delete ?v l)" unfolding delete_filter by (rule table_ok_filter [OF Suc.prems(1)])
    ultimately show ?thesis using Suc.IH [of "AList.delete ?v l"] unfolding step by (auto simp: delete_filter)
  qed
qed

lemma makeRoom_room:
  assumes "visits_all scan" "table_ok l"
  shows "length (makeRoomLocked scan now l) < maxTrackedSources \<and> table_ok (makeRoomLocked scan now l) \<and>
    set (makeRoomLocked scan now l) \<subseteq> set l"
proof (cases "length l < maxTrackedSources")
  case True
  then show ?thesis using assms by (simp add: makeRoomLocked_def)
next
  case False
  have ok: "table_ok (evictLocked now l)" unfolding evictLocked_def by (rule table_ok_filter [OF assms(2)])
  show ?thesis using room_loop_room [OF assms(1) ok, of "length (evictLocked now l)"] False
    by (auto simp: makeRoomLocked_def Let_def evictLocked_def)
qed

lemma update_keys: "fst ` set (AList.update k v l) = insert k (fst ` set l)"
  using dom_update [of k v l] by (simp add: dom_map_of_conv_image_fst)

lemma update_length: "length (AList.update k v l) = (if k \<in> fst ` set l then length l else Suc (length l))"
  by (induction l) auto

lemma recordFailure_bound:
  assumes "visits_all scan" "table_ok l" "length l \<le> maxTrackedSources" "source \<noteq> []"
  shows "length (recordFailure scan source now l) \<le> maxTrackedSources \<and> table_ok (recordFailure scan source now l)"
proof -
  define l' where "l' = (if map_of l source = None then makeRoomLocked scan now l else l)"
  obtain st where r: "recordFailure scan source now l = AList.update source st l'"
    by (simp add: recordFailure_def Let_def l'_def)
  have ok: "table_ok l'" using makeRoom_room [OF assms(1,2)] assms(2) by (simp add: l'_def)
  have len: "length l' < maxTrackedSources \<or> source \<in> fst ` set l' \<and> length l' \<le> maxTrackedSources"
    using makeRoom_room [OF assms(1,2)] assms(3) by (auto simp: l'_def map_of_eq_None_iff)
  have "table_ok (AList.update source st l')"
    using ok assms(4) distinct_update [of l' source st] by (simp add: table_ok_def update_keys)
  then show ?thesis using len unfolding r by (auto simp: update_length)
qed

text \<open>Pressure on the table frees a source from its backoff only when every tracked source is in one, and then the
  one whose backoff ends soonest.\<close>

lemma makeRoom_keeps_blocked:
  assumes "visits_all scan" "table_ok l" "length l \<le> maxTrackedSources"
    and "(k, st) \<in> set l" "now < fsBlocked st" "k \<notin> fst ` set (makeRoomLocked scan now l)"
  shows "\<forall>(k', st') \<in> set l. now < fsBlocked st' \<and> fsBlocked st \<le> fsBlocked st'"
proof -
  have full: "length l = maxTrackedSources"
    using assms(3,4,6) by (force simp: makeRoomLocked_def split: if_splits)
  have in_ev: "(k, st) \<in> set (evictLocked now l)" using assms(4,5) by (auto simp: evictLocked_def)
  have ev: "evictLocked now l = l"
  proof (rule ccontr)
    assume "evictLocked now l \<noteq> l"
    then have "length (evictLocked now l) < length l" unfolding evictLocked_def
      by (metis filter_True length_filter_less)
    then have "makeRoomLocked scan now l = evictLocked now l"
      using full by (cases "length (evictLocked now l)") (auto simp: makeRoomLocked_def Let_def)
    then show False using in_ev assms(6) by force
  qed
  let ?v = "victim_of (scan l)"
  have sc: "set (scan l) = set l" using assms(1) by (simp add: visits_all_def)
  have ne: "scan l \<noteq> []" using assms(4) sc by auto
  obtain sv where v: "(?v, sv) \<in> set l" "\<forall>(k', st') \<in> set l. fsBlocked sv \<le> fsBlocked st'"
    using victim_soonest [of "scan l"] ne sc assms(2) by (auto simp: table_ok_def)
  have vne: "?v \<noteq> []" using v(1) assms(2) by (force simp: table_ok_def)
  obtain n where n: "length l = Suc n" using full by (simp add: maxTrackedSources_def)
  have "length (AList.delete ?v l) < maxTrackedSources" using delete_shorter [of ?v l] v(1) full by force
  then have "room_loop scan n (AList.delete ?v l) = AList.delete ?v l" by (cases n) simp_all
  then have "room_loop scan (Suc n) l = AList.delete ?v l" using full vne by (simp add: Let_def)
  then have "room_loop scan (length l) l = AList.delete ?v l" by (simp only: n)
  then have "makeRoomLocked scan now l = AList.delete ?v l" using full ev by (simp add: makeRoomLocked_def Let_def)
  then have "?v = k" using assms(4,6) unfolding delete_filter by force
  moreover have "sv = st" using v(1) assms(2,4) \<open>?v = k\<close> by (metis eq_key_imp_eq_value table_ok_def)
  ultimately show ?thesis using v(2) assms(5) by fastforce
qed

section \<open>How long a source is kept out\<close>

text \<open>
  What holds of every entry at an instant. The count of an entry only grows while its window of a minute lasts and
  its backoff has passed, so it never gets beyond the second step of the escalation.
\<close>

definition entry_ok :: "instant \<Rightarrow> failState \<Rightarrow> bool" where
  "entry_ok now st \<longleftrightarrow> 1 \<le> fsFails st \<and> fsFails st \<le> 6 \<and> fsWindow st \<le> now \<and> fsBlocked st \<le> now + minute \<and>
     (fsFails st < 5 \<longrightarrow> fsBlocked st = 0) \<and>
     (fsFails st = 5 \<longrightarrow> fsWindow st + 30 * second \<le> fsBlocked st) \<and>
     (fsFails st = 6 \<longrightarrow> fsWindow st + 90 * second \<le> fsBlocked st)"

lemma entry_ok_later: "entry_ok now st \<Longrightarrow> now \<le> now' \<Longrightarrow> entry_ok now' st"
  by (auto simp: entry_ok_def)

lemma fail_once_fresh: "0 \<le> now \<Longrightarrow> entry_ok now (fail_once now \<lparr>fsWindow = now, fsFails = 0, fsBlocked = 0\<rparr>)"
  by (simp add: fail_once_def entry_ok_def failThreshold_def time_units)

lemma fail_once_steps:
  "fsFails st < 4 \<Longrightarrow> fail_once now st = st\<lparr>fsFails := fsFails st + 1\<rparr>"
  "fsFails st = 4 \<Longrightarrow> fail_once now st = st\<lparr>fsFails := 5, fsBlocked := now + 30 * second\<rparr>"
  "fsFails st = 5 \<Longrightarrow> fail_once now st = st\<lparr>fsFails := 6, fsBlocked := now + minute\<rparr>"
  by (simp_all add: fail_once_def failThreshold_def baseBackoff_def maxBackoff_def time_units i64_def)

lemma fail_once_ok:
  assumes ok: "entry_ok now0 st" and t: "now0 \<le> now" and free: "fsBlocked st \<le> now" and win: "now \<le> fsWindow st + minute"
  shows "entry_ok now (fail_once now st)"
proof -
  have "fsFails st \<noteq> 6" using ok free win by (auto simp: entry_ok_def time_units)
  then consider "fsFails st < 4" | "fsFails st = 4" | "fsFails st = 5" using ok by (force simp: entry_ok_def)
  then show ?thesis
    using ok t free by cases (auto simp: fail_once_steps entry_ok_def time_units)
qed

lemma within_window: "\<not> time_sub now w > failWindow \<longleftrightarrow> now \<le> w + minute"
  by (auto simp: time_sub_def failWindow_def time_units max_int64_def)

lemma map_of_subset: "table_ok l \<Longrightarrow> table_ok l' \<Longrightarrow> set l' \<subseteq> set l \<Longrightarrow> map_of l' k = Some st \<Longrightarrow> map_of l k = Some st"
  unfolding table_ok_def by (meson map_of_SomeD map_of_is_SomeI subsetD)

lemma delete_map_of: "map_of (AList.delete k l) k' = (if k' = k then None else map_of l k')"
  by (simp add: delete_conv')

text \<open>What a failure does to the entry of its own source, and to the others.\<close>

lemma recordFailure_own:
  assumes sc: "visits_all scan" and l: "table_ok l" and t: "0 \<le> now"
    and own: "\<And>st. map_of l source = Some st \<Longrightarrow> entry_ok now st \<and> fsBlocked st \<le> now"
  shows "\<exists>st. map_of (recordFailure scan source now l) source = Some st \<and> entry_ok now st"
proof -
  define l' where "l' = (if map_of l source = None then makeRoomLocked scan now l else l)"
  define fresh where "fresh = \<lparr>fsWindow = now, fsFails = 0, fsBlocked = 0 :: int\<rparr>"
  define st where "st = (case map_of l' source of None \<Rightarrow> fresh
    | Some st \<Rightarrow> if time_sub now (fsWindow st) > failWindow then fresh else st)"
  have r: "recordFailure scan source now l = AList.update source (fail_once now st) l'"
    by (simp only: recordFailure_def Let_def l'_def st_def fresh_def)
  have sub: "set l' \<subseteq> set l" "table_ok l'" using makeRoom_room [OF sc l] l by (simp_all add: l'_def)
  have "entry_ok now (fail_once now st)"
  proof (cases "st = fresh")
    case True
    then show ?thesis using fail_once_fresh [OF t] by (simp add: fresh_def)
  next
    case False
    then have m: "map_of l' source = Some st" "now \<le> fsWindow st + minute"
      using within_window [of now] by (auto simp: st_def split: option.splits if_splits)
    have "map_of l source = Some st" by (rule map_of_subset [OF l sub(2,1) m(1)])
    then show ?thesis using fail_once_ok [of now st now] own m(2) by blast
  qed
  then show ?thesis by (simp add: r update_conv')
qed

lemma recordFailure_other:
  assumes "visits_all scan" "table_ok l" "k \<noteq> source" "map_of (recordFailure scan source now l) k = Some st"
  shows "map_of l k = Some st"
proof -
  let ?l = "if map_of l source = None then makeRoomLocked scan now l else l"
  obtain st' where r: "recordFailure scan source now l = AList.update source st' ?l"
    by (simp add: recordFailure_def Let_def)
  then have "map_of ?l k = Some st" using assms(3,4) by (simp add: update_conv')
  moreover have "table_ok ?l" "set ?l \<subseteq> set l" using makeRoom_room [OF assms(1,2)] assms(2) by simp_all
  ultimately show ?thesis using map_of_subset [OF assms(2)] by blast
qed

definition blocked_by :: "instant \<Rightarrow> fail_table \<Rightarrow> bool" where
  "blocked_by b l \<longleftrightarrow> (\<forall>k st. map_of l k = Some st \<longrightarrow> fsBlocked st \<le> b)"

lemma fail_once_capped: "fsBlocked st \<le> b \<Longrightarrow> now + maxBackoff \<le> b \<Longrightarrow> fsBlocked (fail_once now st) \<le> b"
  by (auto simp: fail_once_def Let_def)

lemma recordFailure_capped:
  assumes "visits_all scan" "table_ok l" "blocked_by b l" "now + maxBackoff \<le> b" "0 \<le> b"
  shows "blocked_by b (recordFailure scan source now l)"
proof -
  define l' where "l' = (if map_of l source = None then makeRoomLocked scan now l else l)"
  define st where "st = (case map_of l' source of None \<Rightarrow> \<lparr>fsWindow = now, fsFails = 0, fsBlocked = 0 :: int\<rparr>
    | Some st \<Rightarrow> if time_sub now (fsWindow st) > failWindow then \<lparr>fsWindow = now, fsFails = 0, fsBlocked = 0\<rparr> else st)"
  have l: "table_ok l'" "set l' \<subseteq> set l" using makeRoom_room [OF assms(1,2)] assms(2) by (simp_all add: l'_def)
  have b: "\<And>k st. map_of l' k = Some st \<Longrightarrow> fsBlocked st \<le> b"
    using map_of_subset [OF assms(2) l] assms(3) unfolding blocked_by_def by blast
  have r: "recordFailure scan source now l = AList.update source (fail_once now st) l'"
    by (simp only: recordFailure_def Let_def l'_def st_def)
  have "fsBlocked st \<le> b" using b [of source] assms(5) by (auto simp: st_def split: option.split)
  then have "fsBlocked (fail_once now st) \<le> b" by (rule fail_once_capped [OF _ assms(4)])
  then show ?thesis using b unfolding blocked_by_def r by (simp add: update_conv')
qed

section \<open>Requests side by side\<close>

definition auth_steps ::
  "crypt \<Rightarrow> cfg_env \<Rightarrow> Config \<Rightarrow> (fail_table \<Rightarrow> fail_table) \<Rightarrow> auth_event list \<Rightarrow> auth_state \<Rightarrow> auth_state" where
  "auth_steps C E cfg scan es s = fold (auth_step C E cfg scan) es s"

definition auth_start :: auth_state where
  "auth_start = \<lparr>auTable = newFailLimiter, auCount = 0, auPending = [], auVerdicts = []\<rparr>"

definition sent_by :: "cfg_env \<Rightarrow> string \<Rightarrow> auth_state \<Rightarrow> (request \<times> string \<times> instant) list" where
  "sent_by E src s = filter (\<lambda>p. SourceAddr E (fst p) = src) (auPending s)"

text \<open>The requests of a source do not overlap: it sends none while one of its own is let through and not settled.\<close>

fun one_at_a_time ::
  "crypt \<Rightarrow> cfg_env \<Rightarrow> Config \<Rightarrow> (fail_table \<Rightarrow> fail_table) \<Rightarrow> string \<Rightarrow> auth_event list \<Rightarrow> auth_state \<Rightarrow> bool" where
  "one_at_a_time C E cfg scan src [] s = True"
| "one_at_a_time C E cfg scan src (e # es) s =
     ((case e of Arrive r need t \<Rightarrow> SourceAddr E r = src \<longrightarrow> sent_by E src s = [] | Settle k \<Rightarrow> True) \<and>
      one_at_a_time C E cfg scan src es (auth_step C E cfg scan e s))"

fun arrivals :: "auth_event list \<Rightarrow> (request \<times> instant) list" where
  "arrivals [] = []"
| "arrivals (Arrive r need t # es) = (r, t) # arrivals es"
| "arrivals (Settle k # es) = arrivals es"

definition rejections :: "auth_state \<Rightarrow> nat" where
  "rejections s = length (filter (\<lambda>v. snd v = Unauthorized) (auVerdicts s))"

text \<open>What holds at every instant, and what holds of a source whose requests do not overlap.\<close>

definition auth_inv :: "cfg_env \<Rightarrow> instant \<Rightarrow> auth_state \<Rightarrow> bool" where
  "auth_inv E now s \<longleftrightarrow> 0 \<le> now \<and> table_ok (auTable s) \<and> length (auTable s) \<le> maxTrackedSources \<and> blocked_by (now + maxBackoff) (auTable s) \<and>
     (\<forall>(r, need, t) \<in> set (auPending s). SourceAddr E r \<noteq> [] \<and> 0 \<le> t \<and> t \<le> now) \<and> auCount s = rejections s \<and>
     (\<forall>src w. (src, TooMany w) \<in> set (auVerdicts s) \<longrightarrow> 1 \<le> w \<and> w \<le> 601)"

definition alone_inv :: "cfg_env \<Rightarrow> string \<Rightarrow> instant \<Rightarrow> auth_state \<Rightarrow> bool" where
  "alone_inv E src now s \<longleftrightarrow> (\<forall>w. (src, TooMany w) \<in> set (auVerdicts s) \<longrightarrow> w \<le> 61) \<and>
     (case sent_by E src s of
        [] \<Rightarrow> (\<forall>st. map_of (auTable s) src = Some st \<longrightarrow> entry_ok now st)
      | [p] \<Rightarrow> (\<forall>st. map_of (auTable s) src = Some st \<longrightarrow> entry_ok (snd (snd p)) st \<and> fsBlocked st \<le> snd (snd p))
      | _ \<Rightarrow> False)"

text \<open>The wait a source is told.\<close>

lemma told_wait:
  assumes "blocked src now l = Some wait" "map_of l src = Some st \<Longrightarrow> fsBlocked st \<le> now + d" "d \<le> maxBackoff"
    and "map_of l src = Some st"
  shows "1 \<le> go_div wait second + 1 \<and> go_div wait second + 1 \<le> d div second + 1"
proof -
  have w: "now < fsBlocked st" "wait = time_sub (fsBlocked st) now" using assms(1,4) by (auto simp: blocked_def split: if_splits)
  then have "0 < wait" "wait \<le> d" using assms(2-4) by (auto simp: time_sub_def max_int64_def maxBackoff_def time_units)
  then have "go_div wait second = wait div second" by (intro go_div_nonneg) (simp_all add: time_units)
  moreover have "0 \<le> wait div second" "wait div second \<le> d div second"
    using \<open>0 < wait\<close> \<open>wait \<le> d\<close> by (auto simp: time_units intro: zdiv_mono1)
  ultimately show ?thesis by simp
qed

lemma blocked_entry: "blocked src now l = Some wait \<Longrightarrow> \<exists>st. map_of l src = Some st"
  by (auto simp: blocked_def split: option.splits)

lemma blocked_free: "blocked src now l = None \<Longrightarrow> map_of l src = Some st \<Longrightarrow> fsBlocked st \<le> now"
  by (auto simp: blocked_def split: if_splits)

lemma arrive_inv:
  assumes i: "auth_inv E now0 s" and t: "now0 \<le> now" and src: "SourceAddr E r \<noteq> []"
  shows "auth_inv E now (auth_step C E cfg scan (Arrive r need now) s)"
proof (cases "blocked (SourceAddr E r) now (auTable s)")
  case None
  have "blocked_by (now + maxBackoff) (auTable s)" using i t unfolding auth_inv_def blocked_by_def by fastforce
  then show ?thesis using i t src None by (auto simp: auth_inv_def rejections_def)
next
  case (Some wait)
  have b: "blocked_by (now + maxBackoff) (auTable s)" using i t unfolding auth_inv_def blocked_by_def by fastforce
  obtain st where st: "map_of (auTable s) (SourceAddr E r) = Some st" using blocked_entry [OF Some] by blast
  have "1 \<le> go_div wait second + 1 \<and> go_div wait second + 1 \<le> maxBackoff div second + 1"
    by (rule told_wait [OF Some _ _ st]) (use b st in \<open>auto simp: blocked_by_def\<close>)
  then show ?thesis using i t Some b by (auto simp: auth_inv_def rejections_def maxBackoff_def time_units)
qed

lemma settle_inv:
  assumes sc: "visits_all scan" and i: "auth_inv E now s"
  shows "auth_inv E now (auth_step C E cfg scan (Settle k) s)"
proof (cases "k < length (auPending s)")
  case True
  obtain r need t where p: "auPending s ! k = (r, need, t)" by (rule prod_cases3)
  have pt: "SourceAddr E r \<noteq> []" "0 \<le> t" "t \<le> now"
    using i nth_mem [OF True] unfolding auth_inv_def p by blast+
  have sub: "set (take k (auPending s) @ drop (Suc k) (auPending s)) \<subseteq> set (auPending s)"
    using set_take_subset set_drop_subset by fastforce
  have t: "table_ok (auTable s)" "length (auTable s) \<le> maxTrackedSources" "blocked_by (now + maxBackoff) (auTable s)" "0 \<le> now"
    using i by (simp_all add: auth_inv_def)
  have f: "length (recordFailure scan (SourceAddr E r) t (auTable s)) \<le> maxTrackedSources"
    "table_ok (recordFailure scan (SourceAddr E r) t (auTable s))"
    "blocked_by (now + maxBackoff) (recordFailure scan (SourceAddr E r) t (auTable s))"
    using recordFailure_bound [OF sc t(1,2) pt(1), of t] recordFailure_capped [OF sc t(1,3), of t "SourceAddr E r"] pt(3) t(4)
    by (auto simp: maxBackoff_def time_units)
  have d: "length (recordSuccess (SourceAddr E r) (auTable s)) \<le> maxTrackedSources" "table_ok (recordSuccess (SourceAddr E r) (auTable s))"
    "blocked_by (now + maxBackoff) (recordSuccess (SourceAddr E r) (auTable s))"
    using table_ok_filter [OF t(1)] le_trans [OF length_filter_le t(2)] t(3)
    by (simp_all add: recordSuccess_def delete_filter [symmetric] blocked_by_def delete_map_of) (simp_all add: delete_filter)
  show ?thesis
    using True p i f d sub
    by (auto simp: auth_inv_def auth_settle_def rejections_def Let_def split: option.splits if_splits)
qed (use i in simp)

lemma arrive_alone:
  assumes i: "alone_inv E src now0 s" and t: "now0 \<le> now"
    and one: "SourceAddr E r = src \<Longrightarrow> sent_by E src s = []"
  shows "alone_inv E src now (auth_step C E cfg scan (Arrive r need now) s)"
proof (cases "SourceAddr E r = src")
  case False
  then show ?thesis using i t
    by (auto simp: alone_inv_def sent_by_def entry_ok_later split: option.split list.splits)
next
  case True
  then have e: "sent_by E src s = []" "\<And>st. map_of (auTable s) src = Some st \<Longrightarrow> entry_ok now st"
    using one i t entry_ok_later by (auto simp: alone_inv_def)
  show ?thesis
  proof (cases "blocked src now (auTable s)")
    case None
    then show ?thesis using True i e blocked_free [OF None] by (auto simp: alone_inv_def sent_by_def)
  next
    case (Some wait)
    obtain st where st: "map_of (auTable s) src = Some st" using blocked_entry [OF Some] by blast
    have "go_div wait second + 1 \<le> minute div second + 1"
      using told_wait [OF Some _ _ st, of minute] e(2) [OF st] by (simp add: entry_ok_def maxBackoff_def time_units)
    then show ?thesis using True i e Some by (auto simp: alone_inv_def sent_by_def time_units)
  qed
qed

lemma filter_split: "k < length xs \<Longrightarrow> filter P xs = filter P (take k xs) @ filter P [xs ! k] @ filter P (drop (Suc k) xs)"
  by (metis append_Cons append_Nil filter_append id_take_nth_drop)

lemma settle_alone:
  assumes sc: "visits_all scan" and i: "auth_inv E now s" and a: "alone_inv E src now s"
  shows "alone_inv E src now (auth_step C E cfg scan (Settle k) s)"
proof (cases "k < length (auPending s)")
  case True
  obtain r need t where p: "auPending s ! k = (r, need, t)" by (rule prod_cases3)
  have pt: "0 \<le> t" "t \<le> now" using i nth_mem [OF True] unfolding auth_inv_def p by blast+
  have tab: "table_ok (auTable s)" using i by (simp add: auth_inv_def)
  define rest where "rest = take k (auPending s) @ drop (Suc k) (auPending s)"
  let ?own = "\<lambda>p. SourceAddr E (fst p) = src"
  note parts = filter_split [OF True, of ?own, unfolded p]
  obtain v l n where st: "auth_settle C E cfg scan need r t (auTable s, auCount s) = (v, l, n)" by (rule prod_cases3)
  have s': "auth_step C E cfg scan (Settle k) s = \<lparr>auTable = l, auCount = n, auPending = rest, auVerdicts = (SourceAddr E r, v) # auVerdicts s\<rparr>"
    using True p st by (simp add: rest_def)
  have l: "l = recordFailure scan (SourceAddr E r) t (auTable s) \<or> l = recordSuccess (SourceAddr E r) (auTable s)"
    and v: "\<forall>w. v \<noteq> TooMany w"
    using st by (auto simp: auth_settle_def Let_def split: option.splits if_splits)
  show ?thesis
  proof (cases "SourceAddr E r = src")
    case True
    then have "sent_by E src s = filter ?own (take k (auPending s)) @ (r, need, t) # filter ?own (drop (Suc k) (auPending s))"
      using parts by (simp add: sent_by_def)
    moreover have "sent_by E src s = [] \<or> (\<exists>x. sent_by E src s = [x])" using a by (auto simp: alone_inv_def split: list.splits)
    ultimately have "filter ?own (take k (auPending s)) = []" "filter ?own (drop (Suc k) (auPending s)) = []"
      "sent_by E src s = [(r, need, t)]" by (auto simp: append_eq_Cons_conv)
    then have one: "sent_by E src s = [(r, need, t)]" "filter ?own rest = []" by (simp_all add: rest_def)
    then have own: "\<And>st. map_of (auTable s) src = Some st \<Longrightarrow> entry_ok t st \<and> fsBlocked st \<le> t" using a by (simp add: alone_inv_def)
    have "\<exists>st. map_of (recordFailure scan src t (auTable s)) src = Some st \<and> entry_ok t st"
      by (rule recordFailure_own [OF sc tab pt(1) own])
    then have "\<forall>st. map_of l src = Some st \<longrightarrow> entry_ok now st"
      using l True entry_ok_later [OF _ pt(2)] by (auto simp: recordSuccess_def delete_map_of)
    then show ?thesis using one(2) v a unfolding s' by (auto simp: alone_inv_def sent_by_def)
  next
    case False
    then have same: "filter ?own rest = sent_by E src s" using parts by (simp add: sent_by_def rest_def)
    have "map_of (auTable s) src = Some st" if "map_of l src = Some st" for st
      using l that recordFailure_other [OF sc tab, of src "SourceAddr E r" t st] False by (auto simp: recordSuccess_def delete_map_of)
    then show ?thesis using same a False unfolding s' by (auto simp: alone_inv_def sent_by_def split: list.splits)
  qed
qed (use a in simp)

lemma auth_steps_inv:
  assumes sc: "visits_all scan"
  shows "auth_inv E now0 s \<Longrightarrow> \<forall>(r, t) \<in> set (arrivals es). SourceAddr E r \<noteq> [] \<Longrightarrow> sorted (now0 # map snd (arrivals es)) \<Longrightarrow>
    \<exists>now. auth_inv E now (auth_steps C E cfg scan es s) \<and>
      (alone_inv E src now0 s \<and> one_at_a_time C E cfg scan src es s \<longrightarrow> alone_inv E src now (auth_steps C E cfg scan es s))"
proof (induction es arbitrary: now0 s)
  case (Cons e es)
  show ?case
  proof (cases e)
    case (Arrive r need t)
    let ?s = "auth_step C E cfg scan e s"
    have o: "now0 \<le> t" "SourceAddr E r \<noteq> []" using Cons.prems(2,3) Arrive by simp_all
    have "auth_inv E t ?s" using arrive_inv [OF Cons.prems(1) o] Arrive by simp
    from Cons.IH [OF this] obtain now where n: "auth_inv E now (auth_steps C E cfg scan es ?s)"
      "alone_inv E src t ?s \<and> one_at_a_time C E cfg scan src es ?s \<longrightarrow> alone_inv E src now (auth_steps C E cfg scan es ?s)"
      using Cons.prems(2,3) Arrive by auto
    have "alone_inv E src t ?s" if "alone_inv E src now0 s" "one_at_a_time C E cfg scan src (e # es) s"
      using arrive_alone [OF that(1) o(1), of r C cfg scan need] that(2) Arrive by auto
    then show ?thesis using n by (intro exI [of _ now]) (auto simp: auth_steps_def)
  next
    case (Settle k)
    let ?s = "auth_step C E cfg scan e s"
    have "auth_inv E now0 ?s" using settle_inv [OF sc Cons.prems(1)] Settle by simp
    from Cons.IH [OF this] obtain now where n: "auth_inv E now (auth_steps C E cfg scan es ?s)"
      "alone_inv E src now0 ?s \<and> one_at_a_time C E cfg scan src es ?s \<longrightarrow> alone_inv E src now (auth_steps C E cfg scan es ?s)"
      using Cons.prems(2,3) Settle by auto
    have "alone_inv E src now0 ?s" if "alone_inv E src now0 s" using settle_alone [OF sc Cons.prems(1) that] Settle by simp
    then show ?thesis using n by (intro exI [of _ now]) (auto simp: auth_steps_def)
  qed
qed (auto simp: auth_steps_def)

text \<open>C33: However many requests come, from wherever and however they overlap, the table of failures never holds more
  than 4096 sources, every rejected token is counted once, and no source is told to stay away for less than a second
  or for more than ten minutes and a second. A source whose own requests do not overlap is never told more than
  61 seconds, whatever the others do: its count starts again before the backoff has doubled a second time. The look
  at the table and the entry made in it are two steps; the requests arrive in the order of their readings of
  the clock.\<close>

theorem failed_tokens_are_limited:
  fixes C :: crypt and cfg :: Config
  assumes "visits_all scan" and "\<forall>(r, t) \<in> set (arrivals es). SourceAddr E r \<noteq> [] \<and> 0 \<le> t" and "sorted (map snd (arrivals es))"
  defines "s \<equiv> auth_steps C E cfg scan es auth_start"
  shows "length (auTable s) \<le> 4096 \<and> auCount s = length (filter (\<lambda>v. snd v = Unauthorized) (auVerdicts s)) \<and>
    (\<forall>src w. (src, TooMany w) \<in> set (auVerdicts s) \<longrightarrow>
       1 \<le> w \<and> w \<le> 601 \<and> (one_at_a_time C E cfg scan src es auth_start \<longrightarrow> w \<le> 61))"
proof -
  have i: "auth_inv E 0 auth_start"
    by (simp add: auth_inv_def auth_start_def newFailLimiter_def table_ok_def blocked_by_def rejections_def)
  have a: "alone_inv E src 0 auth_start" for src by (simp add: alone_inv_def auth_start_def newFailLimiter_def sent_by_def)
  have o: "\<forall>(r, t) \<in> set (arrivals es). SourceAddr E r \<noteq> []" "sorted (0 # map snd (arrivals es))" using assms(2,3) by auto
  note run = auth_steps_inv [OF assms(1) i o, of C cfg, folded s_def]
  have "w \<le> 61" if "(src, TooMany w) \<in> set (auVerdicts s)" "one_at_a_time C E cfg scan src es auth_start" for src w
    using run [of src] a [of src] that by (auto simp: alone_inv_def)
  moreover have "\<exists>now. auth_inv E now s" using run by blast
  ultimately show ?thesis by (auto simp: auth_inv_def rejections_def maxTrackedSources_def)
qed

section \<open>A password guesser, and form tokens\<close>

text \<open>A configuration with one token, and a standard library whose digest is the identity.\<close>

definition demo_crypt :: crypt where
  "demo_crypt = \<lparr>sha256hex = (\<lambda>s. s), hmacSHA256 = (\<lambda>k m. k @ m), hexDecode = Some, hexEncode = (\<lambda>s. s)\<rparr>"

definition demo_net :: cfg_env where
  "demo_net = \<lparr>ParsePrefix = (\<lambda>_. None), ParseAddr = (\<lambda>_. None), SplitHostPort = (\<lambda>s. None), ParseDate = (\<lambda>_. None),
     LoadX509KeyPair = (\<lambda>_ _. False), LoadLocation = (\<lambda>_. False), IsAbs = (\<lambda>_. False), VolumeName = (\<lambda>_. []),
     CleanJoin = (\<lambda>a b. b), Rel = (\<lambda>_ _. None), osHostname = None\<rparr>"

definition demo_guess :: "string \<Rightarrow> request" where
  "demo_guess tok = \<lparr>rqMethod = ''GET'', rqPath = [''queue''], rqHost = ''localhost'', rqRemote = ''h'',
     rqAuthorization = ''Bearer '' @ tok, rqQuery = (\<lambda>_. []), rqForm = (\<lambda>_. [])\<rparr>"

definition demo_web :: Config where
  "demo_web = Defaults\<lparr>cWeb := (cWeb Defaults)\<lparr>Tokens := [\<lparr>tkName = ''ops'', tkScope = ScopeAdmin, tkSHA256 = ''right''\<rparr>]\<rparr>\<rparr>"

text \<open>Five wrong tokens at once, one while kept out, one after the first backoff, one while kept out again.\<close>

definition demo_guesses :: "auth_event list" where
  "demo_guesses = concat (map (\<lambda>t. [Arrive (demo_guess ''wrong'') ScopeRead (t * second), Settle 0]) [0, 0, 0, 0, 0, 10, 30, 31])"

definition demo_guessed :: auth_state where
  "demo_guessed = auth_steps demo_crypt demo_net demo_web (\<lambda>l. l) demo_guesses auth_start"

lemma demo_guessed_value: "map snd (auVerdicts demo_guessed) =
   [TooMany 60, Unauthorized, TooMany 21, Unauthorized, Unauthorized, Unauthorized, Unauthorized, Unauthorized]"
  by code_simp

theorem failed_tokens_are_limited_witness:
  "length (auTable demo_guessed) \<le> 4096 \<and> auCount demo_guessed = 6"
proof -
  have v: "visits_all (\<lambda>l. l)" by (simp add: visits_all_def)
  have "\<forall>(q, t) \<in> set (arrivals demo_guesses). SourceAddr demo_net q \<noteq> [] \<and> 0 \<le> t"
    by (simp add: demo_guesses_def demo_guess_def demo_net_def SourceAddr_def time_units)
  moreover have "sorted (map snd (arrivals demo_guesses))" by (simp add: demo_guesses_def time_units)
  ultimately have "length (auTable demo_guessed) \<le> 4096 \<and>
      auCount demo_guessed = length (filter (\<lambda>v. snd v = Unauthorized) (auVerdicts demo_guessed))"
    using failed_tokens_are_limited [OF v, of demo_guesses demo_net demo_crypt demo_web] by (simp add: demo_guessed_def)
  moreover have "filter (\<lambda>v. snd v = Unauthorized) vs = filter (\<lambda>v. snd v = Unauthorized) vs \<and>
      length (filter (\<lambda>v. snd v = Unauthorized) vs) = length (filter ((=) Unauthorized) (map snd vs))" for vs :: "(string \<times> auth_verdict) list"
    by (induction vs) auto
  ultimately show ?thesis by (simp add: demo_guessed_value)
qed

text \<open>Requests that overlap do escalate: eleven wrong tokens let through together keep their source out for ten minutes.\<close>

definition demo_overlap :: "auth_event list" where
  "demo_overlap = replicate 11 (Arrive (demo_guess ''wrong'') ScopeRead 0) @ replicate 11 (Settle 0) @
     [Arrive (demo_guess ''wrong'') ScopeRead second]"

lemma overlap_escalates: "hd (auVerdicts (auth_steps demo_crypt demo_net demo_web (\<lambda>l. l) demo_overlap auth_start)) = (''h'', TooMany 600)"
  by code_simp

lemma digits_value_append:
  "digits_value (s @ t) acc = (case digits_value s acc of None \<Rightarrow> None | Some a \<Rightarrow> digits_value t a)"
  by (induction s arbitrary: acc) auto

lemma digit_char: "d < 10 \<Longrightarrow> is_digit (char_of (48 + d :: nat)) \<and> of_char (char_of (48 + d :: nat)) = 48 + d"
  by (simp add: is_digit_def of_char_of)

lemma digits_value_dec: "digits_value (dec_nat n) 0 = Some n"
proof (induction n rule: less_induct)
  case (less n)
  show ?case
  proof (cases "n < 10")
    case True
    then show ?thesis using digit_char [OF True] by (simp add: dec_nat.simps [of n])
  next
    case False
    then have "digits_value (dec_nat (n div 10)) 0 = Some (n div 10)" using less by simp
    then show ?thesis using False digit_char [of "n mod 10"] by (simp add: dec_nat.simps [of n] digits_value_append)
  qed
qed

lemma dec_nat_digits: "c \<in> set (dec_nat n) \<Longrightarrow> is_digit c"
proof (induction n rule: less_induct)
  case (less n)
  then show ?case using digit_char [of n] digit_char [of "n mod 10"] less.IH [of "n div 10"]
    by (cases "n < 10") (auto simp: dec_nat.simps [of n])
qed

lemma dec_nat_ne: "dec_nat n \<noteq> []"
  by (simp add: dec_nat.simps [of n])

text \<open>A number printed with \<open>%d\<close> is the number \<open>ParseInt\<close> reads.\<close>

lemma ParseInt64_dec_int: "in_i64 i \<Longrightarrow> ParseInt64 (dec_int i) = Some i"
proof -
  assume i: "in_i64 i"
  have h: "\<not> HasPrefix (dec_nat n) [c]" if "\<not> is_digit c" for n c
    using dec_nat_digits [of "hd (dec_nat n)" n] dec_nat_ne [of n] that by (cases "dec_nat n") (auto simp: HasPrefix_def)
  have s: "\<not> is_digit CHR ''-''" "\<not> is_digit CHR ''+''" by (simp_all add: is_digit_def)
  show ?thesis
  proof (cases "i < 0")
    case True
    have "HasPrefix (''-'' @ dec_nat (nat (- i))) ''-''" by (simp add: HasPrefix_def)
    then show ?thesis using i True dec_nat_ne by (simp add: ParseInt64_def dec_int_def Let_def digits_value_dec nat_le_iff)
  next
    case False
    then show ?thesis using i h s dec_nat_ne by (simp add: ParseInt64_def dec_int_def Let_def digits_value_dec nat_less_iff)
  qed
qed

lemma dec_int_chars: "c \<in> set (dec_int i) \<Longrightarrow> is_digit c \<or> c = CHR ''-''"
  using dec_nat_digits by (auto simp: dec_int_def split: if_splits)

lemma IndexByte_first: "c \<notin> set s \<Longrightarrow> IndexByte (s @ c # t) c = Some (length s)"
  by (induction s) auto

lemma first_bar:
  assumes "CHR ''|'' \<notin> set a" "CHR ''|'' \<notin> set b" "a @ ''|'' @ x = b @ ''|'' @ y"
  shows "a = b \<and> x = y"
  using assms by (induction a arbitrary: b) (auto simp: Cons_eq_append_conv append_eq_Cons_conv)

text \<open>A form token opens exactly the action and message it was rendered for, for an hour.\<close>

lemma form_token_bound:
  assumes hex: "\<And>x. hexDecode C (hexEncode C x) = Some x"
    and mac: "\<And>m m'. hmacSHA256 C key m = hmacSHA256 C key m' \<Longrightarrow> m = m'"
    and plain: "CHR ''|'' \<notin> set act" "CHR ''|'' \<notin> set act'" "CHR ''|'' \<notin> set i" "CHR ''|'' \<notin> set i'"
    and range: "in_i64 (unix (t + csrfTokenTTL))"
  shows "csrf_verify C key (csrf_token C key act i t) act' i' now \<longleftrightarrow> act' = act \<and> i' = i \<and> unix now \<le> unix (t + csrfTokenTTL)"
proof -
  let ?ex = "unix (t + csrfTokenTTL)"
  have "CHR ''.'' \<notin> set (dec_int ?ex)" using dec_int_chars [of "CHR ''.''" ?ex] by (auto simp: is_digit_def)
  then have ix: "IndexByte (csrf_token C key act i t) CHR ''.'' = Some (length (dec_int ?ex))"
    by (simp add: csrf_token_def Let_def IndexByte_first)
  have p: "take (length (dec_int ?ex)) (csrf_token C key act i t) = dec_int ?ex"
    "drop (length (dec_int ?ex) + 1) (csrf_token C key act i t) = hexEncode C (csrf_mac C key act i ?ex)"
    by (simp_all add: csrf_token_def Let_def)
  have "csrf_mac C key act i ?ex = csrf_mac C key act' i' ?ex \<longleftrightarrow> act' = act \<and> i' = i"
    using mac first_bar [OF plain(1,2)] first_bar [OF plain(3,4)] unfolding csrf_mac_def by blast
  then show ?thesis
    unfolding csrf_verify_def ix option.case p ParseInt64_dec_int [OF range] hex by auto
qed

end
