(* ===== verification/Metrics_Registry.thy ===== *)
theory Metrics_Registry
  imports Token_Source Expiry_Watch Http_Access "HOL-Library.Word"
begin

text \<open>
  \<open>internal/metrics\<close>: the counters every component feeds, the snapshot per route that the dashboard and the API
  read, and the text exposition. The registry always exists in the program, so its nil checks have no
  counterpart; counters are 64-bit words. A token source is read through its age alone. How a float is
  printed (\<open>%.0f\<close> of seconds, \<open>%.4f\<close> of the rate) is the record \<open>float_text\<close>.
\<close>

section \<open>The registry\<close>

record routeCounters =
  rcDelivered :: "64 word"
  rcBounced :: "64 word"
  rcDeferred :: "64 word"
  rcAuthFailures :: "64 word"
  rcRefused :: "64 word"
  rcLastDelivery :: instant

definition zero_counters :: routeCounters where
  "zero_counters = \<lparr>rcDelivered = 0, rcBounced = 0, rcDeferred = 0, rcAuthFailures = 0, rcRefused = 0, rcLastDelivery = 0\<rparr>"

record Registry =
  rgExpiry :: "item list"
  rgRouteNames :: "string list"
  rgCanaryNames :: "string list"
  rgStart :: instant
  rgTokens :: "string \<rightharpoonup> (instant \<Rightarrow> duration \<times> bool)"
  rgRoutes :: "string \<rightharpoonup> routeCounters"
  rgAPIAuthFailure :: "64 word"
  rgNotificationFailure :: "64 word"
  rgCanaryFailure :: "string \<rightharpoonup> 64 word"
  rgLastCanaryDelivery :: "string \<rightharpoonup> instant"
  rgSessionPanics :: "64 word"
  rgJournalWriteFails :: "64 word"

text \<open>Go compares strings by their bytes.\<close>

fun bytes_le :: "string \<Rightarrow> string \<Rightarrow> bool" where
  "bytes_le [] t = True"
| "bytes_le (c # s) [] = False"
| "bytes_le (c # s) (d # t) = (byte c < (byte d :: nat) \<or> c = d \<and> bytes_le s t)"

fun insert_name :: "string \<Rightarrow> string list \<Rightarrow> string list" where
  "insert_name x [] = [x]"
| "insert_name x (y # ys) = (if bytes_le x y then x # y # ys else y # insert_name x ys)"

definition sort_names :: "string list \<Rightarrow> string list" where
  "sort_names xs = foldr insert_name xs []"

definition New_registry :: "item list \<Rightarrow> string list \<Rightarrow> string list \<Rightarrow> instant \<Rightarrow> Registry" where
  "New_registry deadlines routes canaries now =
     \<lparr>rgExpiry = deadlines, rgRouteNames = sort_names routes, rgCanaryNames = sort_names canaries, rgStart = now,
      rgTokens = Map.empty,
      rgRoutes = (\<lambda>n. if n \<in> set (sort_names routes) then Some zero_counters else None),
      rgAPIAuthFailure = 0, rgNotificationFailure = 0,
      rgCanaryFailure = (\<lambda>n. if n \<in> set (sort_names canaries) then Some 0 else None),
      rgLastCanaryDelivery = Map.empty, rgSessionPanics = 0, rgJournalWriteFails = 0\<rparr>"

text \<open>The counters of a name, made on first use.\<close>

definition route_counters :: "string \<Rightarrow> Registry \<Rightarrow> routeCounters" where
  "route_counters n g = (case rgRoutes g n of Some rc \<Rightarrow> rc | None \<Rightarrow> zero_counters)"

definition on_route :: "string \<Rightarrow> (routeCounters \<Rightarrow> routeCounters) \<Rightarrow> Registry \<Rightarrow> Registry" where
  "on_route n f g = g\<lparr>rgRoutes := (rgRoutes g)(n \<mapsto> f (route_counters n g))\<rparr>"

definition RegisterTokenAger :: "string \<Rightarrow> (instant \<Rightarrow> duration \<times> bool) \<Rightarrow> Registry \<Rightarrow> Registry" where
  "RegisterTokenAger n t g = g\<lparr>rgTokens := (rgTokens g)(n \<mapsto> t)\<rparr>"

definition SessionPanic :: "Registry \<Rightarrow> Registry" where
  "SessionPanic g = g\<lparr>rgSessionPanics := rgSessionPanics g + 1\<rparr>"

definition JournalWriteFailure :: "Registry \<Rightarrow> Registry" where
  "JournalWriteFailure g = g\<lparr>rgJournalWriteFails := rgJournalWriteFails g + 1\<rparr>"

definition Delivered :: "string \<Rightarrow> instant \<Rightarrow> Registry \<Rightarrow> Registry" where
  "Delivered n now g = on_route n (\<lambda>rc. rc\<lparr>rcDelivered := rcDelivered rc + 1, rcLastDelivery := now\<rparr>) g"

definition Bounced :: "string \<Rightarrow> Registry \<Rightarrow> Registry" where
  "Bounced n g = on_route n (\<lambda>rc. rc\<lparr>rcBounced := rcBounced rc + 1\<rparr>) g"

definition Deferred_count :: "string \<Rightarrow> Registry \<Rightarrow> Registry" where
  "Deferred_count n g = on_route n (\<lambda>rc. rc\<lparr>rcDeferred := rcDeferred rc + 1\<rparr>) g"

definition AuthFailure :: "string \<Rightarrow> Registry \<Rightarrow> Registry" where
  "AuthFailure n g = on_route n (\<lambda>rc. rc\<lparr>rcAuthFailures := rcAuthFailures rc + 1\<rparr>) g"

definition RecipientsRefused :: "string \<Rightarrow> int \<Rightarrow> Registry \<Rightarrow> Registry" where
  "RecipientsRefused n k g =
     (if k \<le> 0 then g else on_route n (\<lambda>rc. rc\<lparr>rcRefused := rcRefused rc + word_of_int k\<rparr>) g)"

definition APIAuthFailure :: "Registry \<Rightarrow> Registry" where
  "APIAuthFailure g = g\<lparr>rgAPIAuthFailure := rgAPIAuthFailure g + 1\<rparr>"

definition NotificationFailure :: "Registry \<Rightarrow> Registry" where
  "NotificationFailure g = g\<lparr>rgNotificationFailure := rgNotificationFailure g + 1\<rparr>"

definition CanaryDelivered :: "string \<Rightarrow> instant \<Rightarrow> Registry \<Rightarrow> Registry" where
  "CanaryDelivered n now g = g\<lparr>rgLastCanaryDelivery := (rgLastCanaryDelivery g)(n \<mapsto> now)\<rparr>"

definition CanaryFailure :: "string \<Rightarrow> Registry \<Rightarrow> Registry" where
  "CanaryFailure n g = g\<lparr>rgCanaryFailure := (rgCanaryFailure g)(n \<mapsto>
     (case rgCanaryFailure g n of Some k \<Rightarrow> k | None \<Rightarrow> 0) + 1)\<rparr>"

definition JournalWriteFailures :: "Registry \<Rightarrow> 64 word" where
  "JournalWriteFailures g = rgJournalWriteFails g"

definition Uptime :: "instant \<Rightarrow> Registry \<Rightarrow> duration" where
  "Uptime now g = time_sub now (rgStart g)"

section \<open>The snapshot of the routes\<close>

record RouteStatus =
  stRoute :: string
  stQueued :: int
  stDeferred :: int
  stOldestQueued :: instant
  stDelivered :: "64 word"
  stBounced :: "64 word"
  stDeferredTotal :: "64 word"
  stAuthFailures :: "64 word"
  stRefused :: "64 word"
  stLastDelivery :: instant
  stTokenAge :: duration
  stHasToken :: bool

definition route_status :: "(string \<rightharpoonup> RouteDepth) \<Rightarrow> Registry \<Rightarrow> instant \<Rightarrow> string \<Rightarrow> RouteStatus" where
  "route_status depth g now n =
     (let d = (case depth n of Some d \<Rightarrow> d | None \<Rightarrow> \<lparr>Queued = 0, Deferred = 0, OldestQueued = 0\<rparr>);
          rc = route_counters n g;
          tok = (case rgTokens g n of
                   None \<Rightarrow> (0, False)
                 | Some t \<Rightarrow> (case t now of (age, True) \<Rightarrow> (age, True) | (age, False) \<Rightarrow> (0, False)))
      in \<lparr>stRoute = n, stQueued = Queued d, stDeferred = Deferred d, stOldestQueued = OldestQueued d,
          stDelivered = rcDelivered rc, stBounced = rcBounced rc, stDeferredTotal = rcDeferred rc,
          stAuthFailures = rcAuthFailures rc, stRefused = rcRefused rc, stLastDelivery = rcLastDelivery rc,
          stTokenAge = fst tok, stHasToken = snd tok\<rparr>)"

text \<open>\<open>order\<close> and \<open>elapsed\<close> are what \<open>QueueDepth\<close> meets: the order of the index and how long the scan took.\<close>

definition Status :: "id list \<Rightarrow> duration \<Rightarrow> instant \<Rightarrow> Registry \<Rightarrow> spool \<Rightarrow> RouteStatus list \<times> spool" where
  "Status order elapsed now g sp =
     (case QueueDepth order now elapsed sp of
        (depth, sp') \<Rightarrow> (map (route_status depth g now) (rgRouteNames g), sp'))"

section \<open>The exposition\<close>

record snapshot =
  snStatus :: "RouteStatus list"
  snUptime :: duration
  snCanaryNames :: "string list"
  snCanaryFailure :: "string \<rightharpoonup> 64 word"
  snLastCanary :: "string \<rightharpoonup> instant"
  snAPIAuthFailures :: "64 word"
  snNotificationFails :: "64 word"
  snSessionPanics :: "64 word"
  snJournalWriteFails :: "64 word"
  snExpiry :: "item list"

definition take_snapshot :: "id list \<Rightarrow> duration \<Rightarrow> instant \<Rightarrow> Registry \<Rightarrow> spool \<Rightarrow> snapshot \<times> spool" where
  "take_snapshot order elapsed now g sp =
     (case Status order elapsed now g sp of
        (st, sp') \<Rightarrow>
          (\<lparr>snStatus = st, snUptime = time_sub now (rgStart g), snCanaryNames = rgCanaryNames g,
            snCanaryFailure = rgCanaryFailure g, snLastCanary = rgLastCanaryDelivery g,
            snAPIAuthFailures = rgAPIAuthFailure g, snNotificationFails = rgNotificationFailure g,
            snSessionPanics = rgSessionPanics g, snJournalWriteFails = rgJournalWriteFails g,
            snExpiry = rgExpiry g\<rparr>, sp'))"

record float_text =
  ftSeconds :: "duration \<Rightarrow> string"
  ftRate :: "64 word \<Rightarrow> duration \<Rightarrow> string"

definition ReplaceByte :: "char \<Rightarrow> string \<Rightarrow> string \<Rightarrow> string" where
  "ReplaceByte c r s = concat (map (\<lambda>x. if x = c then r else [x]) s)"

definition label :: "string \<Rightarrow> string" where
  "label route =
     [DQUOTE] @ ReplaceByte LF [BACKSLASH, CHR ''n'']
       (ReplaceByte DQUOTE [BACKSLASH, DQUOTE] (ReplaceByte BACKSLASH [BACKSLASH, BACKSLASH] route)) @ [DQUOTE]"

definition dec_word :: "64 word \<Rightarrow> string" where
  "dec_word w = dec_nat (unat w)"

text \<open>A sample line; a family is its name, kind, help and the samples it makes of a snapshot.\<close>

definition sample :: "string \<Rightarrow> string \<Rightarrow> string \<Rightarrow> string \<Rightarrow> string" where
  "sample nm key v value = nm @ ''{'' @ key @ ''='' @ label v @ ''} '' @ value @ [LF]"

definition perRoute :: "string \<Rightarrow> (RouteStatus \<Rightarrow> string option) \<Rightarrow> snapshot \<Rightarrow> string" where
  "perRoute nm value s =
     concat (map (\<lambda>st. case value st of None \<Rightarrow> [] | Some v \<Rightarrow> sample nm ''route'' (stRoute st) v) (snStatus s))"

definition queue_size :: "snapshot \<Rightarrow> string" where
  "queue_size s = concat (map (\<lambda>st.
     ''smtprelayd_queue_size{route='' @ label (stRoute st) @ '',state='' @ [DQUOTE] @ ''queued'' @ [DQUOTE] @ ''} '' @ dec_int (stQueued st) @ [LF] @
     ''smtprelayd_queue_size{route='' @ label (stRoute st) @ '',state='' @ [DQUOTE] @ ''deferred'' @ [DQUOTE] @ ''} '' @ dec_int (stDeferred st) @ [LF])
     (snStatus s))"

definition single :: "string \<Rightarrow> 64 word \<Rightarrow> string" where
  "single nm w = nm @ '' '' @ dec_word w @ [LF]"

definition expositionSeries :: "float_text \<Rightarrow> instant \<Rightarrow> (string \<times> string \<times> string \<times> (snapshot \<Rightarrow> string)) list" where
  "expositionSeries F now =
    [(''smtprelayd_queue_size'', ''gauge'', ''Number of spooled messages by state and route.'', queue_size),
     (''smtprelayd_delivered_total'', ''counter'', ''Messages successfully delivered, by route.'',
        perRoute ''smtprelayd_delivered_total'' (\<lambda>st. Some (dec_word (stDelivered st)))),
     (''smtprelayd_bounced_total'', ''counter'', ''Messages that failed permanently or expired in queue, by route.'',
        perRoute ''smtprelayd_bounced_total'' (\<lambda>st. Some (dec_word (stBounced st)))),
     (''smtprelayd_deferred_total'', ''counter'', ''Delivery attempts that failed temporarily and were retried, by route.'',
        perRoute ''smtprelayd_deferred_total'' (\<lambda>st. Some (dec_word (stDeferredTotal st)))),
     (''smtprelayd_recipients_refused_total'', ''counter'',
      ''Recipients a smarthost refused permanently on a message delivered to the others, by route.'',
        perRoute ''smtprelayd_recipients_refused_total'' (\<lambda>st. Some (dec_word (stRefused st)))),
     (''smtprelayd_expiry_seconds'', ''gauge'', ''Seconds until a certificate or credential expires; negative once it has.'',
        (\<lambda>s. concat (map (\<lambda>it. sample ''smtprelayd_expiry_seconds'' ''item'' (itKey it)
           (dec_int (go_div (time_sub (itExpires it) now) second))) (snExpiry s)))),
     (''smtprelayd_auth_failures_total'', ''counter'',
      ''Delivery attempts rejected because of the relay's own credentials, by route.'',
        perRoute ''smtprelayd_auth_failures_total'' (\<lambda>st. Some (dec_word (stAuthFailures st)))),
     (''smtprelayd_oauth_token_age_seconds'', ''gauge'',
      ''Age of the cached OAuth2 access token, by route. Absent until a token has been issued.'',
        perRoute ''smtprelayd_oauth_token_age_seconds''
          (\<lambda>st. if stHasToken st then Some (ftSeconds F (stTokenAge st)) else None)),
     (''smtprelayd_last_delivery_time'', ''gauge'',
      ''Unix timestamp of the last successful delivery, by route. Absent until the first delivery.'',
        perRoute ''smtprelayd_last_delivery_time''
          (\<lambda>st. if stLastDelivery st = 0 then None else Some (dec_int (unix (stLastDelivery st))))),
     (''smtprelayd_delivery_rate_per_minute'', ''gauge'', ''Approximate delivery rate (delivered_total / uptime), by route.'',
        (\<lambda>s. perRoute ''smtprelayd_delivery_rate_per_minute'' (\<lambda>st. Some (ftRate F (if snUptime s > 0 then stDelivered st else 0) (snUptime s))) s)),
     (''smtprelayd_api_auth_failures_total'', ''counter'', ''Rejected bearer tokens on the HTTP API.'',
        (\<lambda>s. single ''smtprelayd_api_auth_failures_total'' (snAPIAuthFailures s))),
     (''smtprelayd_notification_failures_total'', ''counter'',
      ''Bounce-digest notification messages that themselves failed to deliver.'',
        (\<lambda>s. single ''smtprelayd_notification_failures_total'' (snNotificationFails s))),
     (''smtprelayd_session_panics_total'', ''counter'', ''Inbound SMTP sessions that ended in a recovered panic.'',
        (\<lambda>s. single ''smtprelayd_session_panics_total'' (snSessionPanics s))),
     (''smtprelayd_journal_write_failures_total'', ''counter'',
      ''History-store writes that failed; the message was still queued or delivered.'',
        (\<lambda>s. single ''smtprelayd_journal_write_failures_total'' (snJournalWriteFails s))),
     (''smtprelayd_canary_failures_total'', ''counter'',
      ''Canary probe delivery attempts that failed, permanently, by expiry, or deferred for retry, by canary name.'',
        (\<lambda>s. concat (map (\<lambda>n. sample ''smtprelayd_canary_failures_total'' ''name'' n
           (dec_word (case snCanaryFailure s n of Some k \<Rightarrow> k | None \<Rightarrow> 0))) (snCanaryNames s)))),
     (''smtprelayd_canary_last_delivery_time'', ''gauge'',
      ''Unix timestamp of the last successful delivery, by canary name. Absent until that canary's first successful delivery.'',
        (\<lambda>s. concat (map (\<lambda>n. case snLastCanary s n of
             Some t \<Rightarrow> if t = 0 then [] else sample ''smtprelayd_canary_last_delivery_time'' ''name'' n (dec_int (unix t))
           | None \<Rightarrow> []) (snCanaryNames s))))]"

definition family_text :: "snapshot \<Rightarrow> string \<times> string \<times> string \<times> (snapshot \<Rightarrow> string) \<Rightarrow> string" where
  "family_text s se =
     (case se of (nm, kind, help, rows) \<Rightarrow>
        ''# HELP '' @ nm @ '' '' @ help @ [LF] @ ''# TYPE '' @ nm @ '' '' @ kind @ [LF] @ rows s)"

definition exposition :: "float_text \<Rightarrow> id list \<Rightarrow> duration \<Rightarrow> instant \<Rightarrow> Registry \<Rightarrow> spool \<Rightarrow> string \<times> spool" where
  "exposition F order elapsed now g sp =
     (case take_snapshot order elapsed now g sp of
        (snap, sp') \<Rightarrow> (concat (map (family_text snap) (expositionSeries F now)), sp'))"

section \<open>Labels\<close>

text \<open>How a scraper reads a label value, from behind the opening quote; \<open>None\<close> where the quote never closes.\<close>

fun read_label :: "string \<Rightarrow> (string \<times> string) option" where
  "read_label [] = None"
| "read_label (c # cs) =
     (if c = DQUOTE then Some ([], cs)
      else if c = BACKSLASH then
        (case cs of
           [] \<Rightarrow> None
         | d # ds \<Rightarrow> map_option (\<lambda>(v, r). ((if d = CHR ''n'' then LF else d) # v, r)) (read_label ds))
      else map_option (\<lambda>(v, r). (c # v, r)) (read_label cs))"

definition escaped :: "char \<Rightarrow> string" where
  "escaped c = (if c = BACKSLASH then [BACKSLASH, BACKSLASH] else if c = DQUOTE then [BACKSLASH, DQUOTE]
     else if c = LF then [BACKSLASH, CHR ''n''] else [c])"

lemma ReplaceByte_simps [bytes_simps]:
  "ReplaceByte c r [] = []" "ReplaceByte c r (s @ t) = ReplaceByte c r s @ ReplaceByte c r t"
  "ReplaceByte c r (x # s) = (if x = c then r else [x]) @ ReplaceByte c r s"
  by (simp_all add: ReplaceByte_def)

lemma label_escaped: "label s = [DQUOTE] @ concat (map escaped s) @ [DQUOTE]"
proof -
  have "ReplaceByte LF [BACKSLASH, CHR ''n'']
       (ReplaceByte DQUOTE [BACKSLASH, DQUOTE] (ReplaceByte BACKSLASH [BACKSLASH, BACKSLASH] s)) = concat (map escaped s)"
    by (induction s) (auto simp: bytes_simps escaped_def char_consts)
  then show ?thesis by (simp add: label_def)
qed

lemma read_escaped: "read_label (concat (map escaped s) @ DQUOTE # rest) = Some (s, rest)"
  by (induction s) (auto simp: escaped_def char_consts)

text \<open>No name can leave its label or break the line: a scraper reads back exactly the name.\<close>

lemma label_roundtrip: "read_label (tl (label s) @ rest) = Some (s, rest) \<and> LF \<notin> set (label s)"
proof -
  have "LF \<notin> set (escaped c)" for c by (simp add: escaped_def char_consts)
  then have "LF \<notin> set (concat (map escaped s))" by simp
  moreover have "LF \<noteq> DQUOTE" by (simp add: char_consts)
  ultimately show ?thesis by (simp add: label_escaped read_escaped)
qed

section \<open>The snapshot tells what was counted\<close>

text \<open>How each count of the delivery manager and the session reaches the registry.\<close>

fun count_one :: "counter \<Rightarrow> instant \<Rightarrow> Registry \<Rightarrow> Registry" where
  "count_one (cDelivered n) now g = Delivered n now g"
| "count_one (cBounced n) now g = Bounced n g"
| "count_one (cDeferred n) now g = Deferred_count n g"
| "count_one (cAuthFailure n) now g = AuthFailure n g"
| "count_one (cRecipientsRefused n) now g = RecipientsRefused n 1 g"
| "count_one cNotificationFailure now g = NotificationFailure g"
| "count_one (cCanaryDelivered n) now g = CanaryDelivered n now g"
| "count_one (cCanaryFailure n) now g = CanaryFailure n g"
| "count_one cJournalWriteFailure now g = JournalWriteFailure g"

text \<open>Refused recipients of one message are counted in one call, everything else one by one.\<close>

definition count_event :: "counter \<times> nat \<times> instant \<Rightarrow> Registry \<Rightarrow> Registry" where
  "count_event e g =
     (case e of (c, k, now) \<Rightarrow>
        (case c of
           cRecipientsRefused n \<Rightarrow> RecipientsRefused n (int k) g
         | _ \<Rightarrow> (count_one c now ^^ k) g))"

definition count_of :: "counter \<Rightarrow> (counter \<times> nat \<times> instant) list \<Rightarrow> nat" where
  "count_of c evs = sum_list (map (\<lambda>e. if fst e = c then fst (snd e) else 0) evs)"

text \<open>What the registry holds for a counter.\<close>

fun held :: "counter \<Rightarrow> Registry \<Rightarrow> 64 word" where
  "held (cDelivered n) g = rcDelivered (route_counters n g)"
| "held (cBounced n) g = rcBounced (route_counters n g)"
| "held (cDeferred n) g = rcDeferred (route_counters n g)"
| "held (cAuthFailure n) g = rcAuthFailures (route_counters n g)"
| "held (cRecipientsRefused n) g = rcRefused (route_counters n g)"
| "held cNotificationFailure g = rgNotificationFailure g"
| "held (cCanaryDelivered n) g = 0"
| "held (cCanaryFailure n) g = (case rgCanaryFailure g n of Some k \<Rightarrow> k | None \<Rightarrow> 0)"
| "held cJournalWriteFailure g = rgJournalWriteFails g"

fun is_count :: "counter \<Rightarrow> bool" where
  "is_count (cCanaryDelivered n) = False"
| "is_count c = True"

lemmas registry_ops = Delivered_def Bounced_def Deferred_count_def AuthFailure_def RecipientsRefused_def NotificationFailure_def
  CanaryDelivered_def CanaryFailure_def JournalWriteFailure_def on_route_def route_counters_def

lemma held_step: "is_count c \<Longrightarrow> held c (count_one c' now g) = held c g + (if c' = c then 1 else 0)"
  by (cases c'; cases c) (auto simp: registry_ops split: option.split)

lemma held_refused:
  "is_count c \<Longrightarrow> held c (RecipientsRefused n (int k) g) = held c g + (if c = cRecipientsRefused n then of_nat k else 0)"
  by (cases c; cases "k = 0") (simp_all add: registry_ops)

lemma held_event:
  assumes "is_count c"
  shows "held c (count_event (c', k, now) g) = held c g + (if c' = c then of_nat k else 0)"
proof -
  have "held c ((count_one c' now ^^ k) g) = held c g + (if c' = c then of_nat k else 0)"
    by (induction k) (auto simp: held_step [OF assms])
  then show ?thesis using held_refused [OF assms] by (auto simp: count_event_def split: counter.split)
qed

lemma held_events:
  "is_count c \<Longrightarrow> held c (fold count_event evs g) = held c g + of_nat (count_of c evs)"
proof (induction evs arbitrary: g)
  case (Cons e evs)
  obtain c' k now where e: "e = (c', k, now)" by (cases e)
  show ?case using Cons held_event [OF Cons.prems, of c' k now g] by (simp add: e count_of_def)
qed (simp add: count_of_def)

lemma count_one_names: "rgRouteNames (count_one c now g) = rgRouteNames g"
  by (cases c) (simp_all add: registry_ops)

lemma count_event_names: "rgRouteNames (count_event e g) = rgRouteNames g"
proof -
  obtain c k now where e: "e = (c, k, now)" by (cases e)
  have "rgRouteNames ((count_one c now ^^ k) g) = rgRouteNames g" by (induction k) (simp_all add: count_one_names)
  then show ?thesis unfolding e by (auto simp: count_event_def registry_ops split: counter.split)
qed

lemma count_events_names: "rgRouteNames (fold count_event evs g) = rgRouteNames g"
  by (induction evs arbitrary: g) (simp_all add: count_event_names)

lemma insert_name_set: "set (insert_name x ys) = insert x (set ys)"
  by (induction ys) auto

lemma sort_names_set: "set (sort_names xs) = set xs"
  by (induction xs) (simp_all add: sort_names_def insert_name_set)

lemma bytes_le_linear: "bytes_le s t \<or> bytes_le t s"
proof (induction s t rule: bytes_le.induct)
  case (3 c s d t)
  have "byte c = (byte d :: nat) \<longleftrightarrow> c = d" by simp
  then show ?case using 3 by (cases "c = d") (auto simp: not_less_iff_gr_or_eq)
qed auto

lemma bytes_le_trans: "bytes_le s t \<Longrightarrow> bytes_le t u \<Longrightarrow> bytes_le s u"
proof (induction s t arbitrary: u rule: bytes_le.induct)
  case (3 c s d t)
  then show ?case by (cases u) auto
qed auto

lemma insert_name_sorted: "sorted_wrt bytes_le ys \<Longrightarrow> sorted_wrt bytes_le (insert_name x ys)"
proof (induction ys)
  case (Cons y ys)
  then show ?case using bytes_le_linear [of x y] bytes_le_trans [of x y] by (auto simp: insert_name_set)
qed simp

lemma sort_names_sorted: "sorted_wrt bytes_le (sort_names xs)"
  by (induction xs) (simp_all add: sort_names_def insert_name_sorted)

text \<open>The snapshot lists the configured routes, each once per configuration entry and in byte order, and its counters are
  exactly what was counted for that route since the start, modulo the width of the counter.\<close>

theorem status_reports_the_counts:
  fixes evs ord el now sp items routes canaries t0
  defines "sts \<equiv> fst (Status ord el now (fold count_event evs (New_registry items routes canaries t0)) sp)"
  shows "map stRoute sts = sort_names routes \<and> sorted_wrt bytes_le (map stRoute sts) \<and> set (map stRoute sts) = set routes \<and>
    (\<forall>st \<in> set sts. stDelivered st = of_nat (count_of (cDelivered (stRoute st)) evs) \<and>
       stBounced st = of_nat (count_of (cBounced (stRoute st)) evs) \<and>
       stDeferredTotal st = of_nat (count_of (cDeferred (stRoute st)) evs) \<and>
       stAuthFailures st = of_nat (count_of (cAuthFailure (stRoute st)) evs) \<and>
       stRefused st = of_nat (count_of (cRecipientsRefused (stRoute st)) evs))"
proof -
  let ?g = "fold count_event evs (New_registry items routes canaries t0)"
  have names: "rgRouteNames ?g = sort_names routes" by (simp add: count_events_names New_registry_def)
  obtain depth sp' where q: "QueueDepth ord now el sp = (depth, sp')" by fastforce
  have sts: "sts = map (route_status depth ?g now) (sort_names routes)"
    unfolding sts_def Status_def q by (simp add: names)
  have rt: "stRoute (route_status depth ?g now n) = n" for n by (simp add: route_status_def Let_def)
  have zero: "route_counters n (New_registry items routes canaries t0) = zero_counters" for n
    by (simp add: route_counters_def New_registry_def)
  have counts: "stDelivered (route_status depth ?g now n) = held (cDelivered n) ?g"
    "stBounced (route_status depth ?g now n) = held (cBounced n) ?g"
    "stDeferredTotal (route_status depth ?g now n) = held (cDeferred n) ?g"
    "stAuthFailures (route_status depth ?g now n) = held (cAuthFailure n) ?g"
    "stRefused (route_status depth ?g now n) = held (cRecipientsRefused n) ?g" for n
    by (simp_all add: route_status_def Let_def)
  have "map stRoute sts = sort_names routes" by (simp add: sts comp_def rt)
  moreover have hl: "held (cDelivered n) ?g = of_nat (count_of (cDelivered n) evs)"
    "held (cBounced n) ?g = of_nat (count_of (cBounced n) evs)"
    "held (cDeferred n) ?g = of_nat (count_of (cDeferred n) evs)"
    "held (cAuthFailure n) ?g = of_nat (count_of (cAuthFailure n) evs)"
    "held (cRecipientsRefused n) ?g = of_nat (count_of (cRecipientsRefused n) evs)" for n
    using held_events [of "cDelivered n" evs] held_events [of "cBounced n" evs] held_events [of "cDeferred n" evs]
      held_events [of "cAuthFailure n" evs] held_events [of "cRecipientsRefused n" evs]
    by (simp_all add: zero zero_counters_def)
  have "\<forall>st \<in> set sts. stDelivered st = of_nat (count_of (cDelivered (stRoute st)) evs) \<and>
       stBounced st = of_nat (count_of (cBounced (stRoute st)) evs) \<and>
       stDeferredTotal st = of_nat (count_of (cDeferred (stRoute st)) evs) \<and>
       stAuthFailures st = of_nat (count_of (cAuthFailure (stRoute st)) evs) \<and>
       stRefused st = of_nat (count_of (cRecipientsRefused (stRoute st)) evs)"
    unfolding sts by (simp add: rt counts hl del: held.simps)
  ultimately show ?thesis using sort_names_set sort_names_sorted by metis
qed

text \<open>What the delivery manager tallies is what the registry holds after the same counts.\<close>

lemma tally_refined:
  assumes "\<forall>c. is_count c \<longrightarrow> held c g = of_nat (dsCount s c)"
  shows "is_count c \<Longrightarrow> held c (count_event (c', k, now) g) = of_nat (dsCount (tally c' k s) c)"
  using assms by (simp add: held_event tally_def)

end
