(* ===== verification/Api_Server.thy ===== *)
theory Api_Server
  imports Http_Limits Queue_Action Journal_Query Metrics_Registry
begin

text \<open>
  \<open>internal/api\<close>: the JSON API. A handler takes a request and the state of the server, the queue, the journal, the
  table of failed authentications and the two counters it feeds, and answers a status and a body; the bodies
  are the values the code hands to the JSON encoder. What the handlers call is the record \<open>api_env\<close>: the
  operator actions, the three queries, the metrics snapshot and the library's time, base64 and JSON.
\<close>

section \<open>Bodies\<close>

record attemptView =
  avNum :: nat
  avAt :: int
  avCode :: int
  avResp :: string
  avClass :: string
  avNext :: "int option"

record messageView =
  mvQueueID :: id
  mvClient :: string
  mvRoute :: string
  mvFrom :: string
  mvOriginalFrom :: string
  mvRecipients :: "string list"
  mvSubject :: string
  mvListener :: string
  mvRemoteAddr :: string
  mvReceivedAt :: int
  mvExpiresAt :: int
  mvTLS :: bool
  mvCreatedAt :: int
  mvMessageID :: string
  mvContentType :: string
  mvSize :: int
  mvHeaderCount :: int
  mvHelo :: string
  mvStatus :: string
  mvAttempts :: "attemptView list"
  mvCount :: nat
  mvLastCode :: int
  mvLastErr :: string

record bounceView =
  bvQueueID :: id
  bvClass :: string
  bvClient :: string
  bvRoute :: string
  bvFrom :: string
  bvOriginalFrom :: string
  bvRecipients :: "string list"
  bvSubject :: string
  bvAttempts :: nat
  bvFirst :: int
  bvLast :: int
  bvCode :: int
  bvResp :: string

definition newAttemptView :: "att_row \<Rightarrow> attemptView" where
  "newAttemptView a =
     \<lparr>avNum = atNum a, avAt = atTime a, avCode = (case atCode a of Some c \<Rightarrow> c | None \<Rightarrow> 0), avResp = atResp a,
      avClass = atClass a, avNext = atNext a\<rparr>"

definition newMessageView :: "Message \<Rightarrow> messageView" where
  "newMessageView m =
     (let rc = rowRec (mgRow m) in
      \<lparr>mvQueueID = recQueueID rc, mvClient = recOrigin rc, mvRoute = recRoute rc, mvFrom = recFrom rc,
       mvOriginalFrom = recOriginalFrom rc, mvRecipients = recRecipients rc, mvSubject = mgSubject m,
       mvListener = recListener rc, mvRemoteAddr = recRemoteAddr rc, mvReceivedAt = rowReceived (mgRow m),
       mvExpiresAt = rowExpires (mgRow m), mvTLS = recTLS rc, mvCreatedAt = rowCreated (mgRow m),
       mvMessageID = recMessageID rc, mvContentType = recContentType rc, mvSize = recSizeBytes rc,
       mvHeaderCount = recHeaderCount rc, mvHelo = recHelo rc, mvStatus = mgStatus m,
       mvAttempts = map newAttemptView (mgAttempts m), mvCount = mgCount m, mvLastCode = mgLastCode m,
       mvLastErr = mgLastErr m\<rparr>)"

definition newBounceView :: "BounceSummary \<Rightarrow> bounceView" where
  "newBounceView b =
     (let rc = rowRec (bsRow b) in
      \<lparr>bvQueueID = recQueueID rc, bvClass = bsClass b, bvClient = recOrigin rc, bvRoute = recRoute rc,
       bvFrom = recFrom rc, bvOriginalFrom = recOriginalFrom rc, bvRecipients = recRecipients rc,
       bvSubject = bsSubject b, bvAttempts = bsCount b, bvFirst = bsFirst b, bvLast = bsLast b,
       bvCode = bsCode b, bvResp = bsResp b\<rparr>)"

record healthRoute =
  hrName :: string
  hrAuth :: string
  hrAuthenticated :: bool

record routeState_view =
  rvRoute :: string
  rvQueued :: int
  rvDeferred :: int
  rvOldest :: "instant option"
  rvDelivered :: "64 word"
  rvBounced :: "64 word"
  rvDeferredTotal :: "64 word"
  rvAuthFailures :: "64 word"
  rvRefused :: "64 word"
  rvLast :: "instant option"

datatype api_body =
    ErrorBody string
  | StatusBody string
  | HealthBody string int "healthRoute list"
  | BouncesBody "bounceView list" "string option"
  | MessagesBody "messageView list" "string option"
  | MessageBody messageView
  | QueueBody "routeState_view list"

record api_reply =
  arStatus :: int
  arRetryAfter :: "int option"
  arBody :: api_body

definition writeJSON :: "int \<Rightarrow> api_body \<Rightarrow> api_reply" where
  "writeJSON st b = \<lparr>arStatus = st, arRetryAfter = None, arBody = b\<rparr>"

definition writeJSONError :: "int \<Rightarrow> string \<Rightarrow> api_reply" where
  "writeJSONError st m = writeJSON st (ErrorBody m)"

definition serverError :: api_reply where
  "serverError = writeJSONError 500 ''internal error''"

section \<open>Server\<close>

record pageCursor =
  pcOffset :: int
  pcLimit :: int

record ('q, 'j) api_env =
  aeCrypt :: crypt
  aeNet :: cfg_env
  aeCfg :: Config
  aeScan :: "fail_table \<Rightarrow> fail_table"
  aeActor :: "('q, 'j) Actor"
  aeFindBounces :: "BounceFilter \<Rightarrow> 'j \<Rightarrow> (store_err + BounceSummary list \<times> bool) \<times> 'j"
  aeFindMessages :: "MessageFilter \<Rightarrow> 'j \<Rightarrow> (store_err + Message list \<times> bool) \<times> 'j"
  aeFindByID :: "id \<Rightarrow> 'j \<Rightarrow> (store_err + Message option) \<times> 'j"
  aeStatus :: "'q \<Rightarrow> RouteStatus list \<times> 'q"
  aeUptime :: duration
  aeVersion :: string
  aeParseTime :: "string \<Rightarrow> instant option"
  aeB64 :: "string \<Rightarrow> string"
  aeUnB64 :: "string \<Rightarrow> string option"
  aeJSON :: "pageCursor \<Rightarrow> string"
  aeUnJSON :: "string \<Rightarrow> pageCursor option"

record ('q, 'j) api_state =
  asQueue :: 'q
  asJournal :: 'j
  asLost :: nat
  asFails :: fail_table
  asRejected :: nat

definition on_desk :: "('q, 'j) desk \<Rightarrow> ('q, 'j) api_state \<Rightarrow> ('q, 'j) api_state" where
  "on_desk d s = (case d of (q, j, n) \<Rightarrow> s\<lparr>asQueue := q, asJournal := j, asLost := n\<rparr>)"

definition desk_of :: "('q, 'j) api_state \<Rightarrow> ('q, 'j) desk" where
  "desk_of s = (asQueue s, asJournal s, asLost s)"

section \<open>Paging\<close>

definition defaultLimit :: int where "defaultLimit = 100"

definition encodeCursor :: "('q, 'j) api_env \<Rightarrow> pageCursor \<Rightarrow> string" where
  "encodeCursor A c = aeB64 A (aeJSON A c)"

definition decodeCursor :: "('q, 'j) api_env \<Rightarrow> string \<Rightarrow> pageCursor" where
  "decodeCursor A s =
     (if s = [] then \<lparr>pcOffset = 0, pcLimit = defaultLimit\<rparr>
      else case aeUnB64 A s of
             None \<Rightarrow> \<lparr>pcOffset = 0, pcLimit = defaultLimit\<rparr>
           | Some b \<Rightarrow>
               (case aeUnJSON A b of
                  None \<Rightarrow> \<lparr>pcOffset = 0, pcLimit = defaultLimit\<rparr>
                | Some c \<Rightarrow>
                    \<lparr>pcOffset = (if pcOffset c < 0 \<or> pcOffset c > MaxOffset then 0 else pcOffset c),
                     pcLimit = (if pcLimit c \<le> 0 \<or> pcLimit c > MaxPageLimit then defaultLimit else pcLimit c)\<rparr>))"

definition limitFromQuery :: "(string \<Rightarrow> string list) \<Rightarrow> int \<Rightarrow> int" where
  "limitFromQuery q fallback =
     (case ParseInt64 (query_Get q ''limit'') of
        None \<Rightarrow> fallback
      | Some n \<Rightarrow> if n \<le> 0 \<or> n > MaxPageLimit then fallback else n)"

definition pageFromQuery :: "('q, 'j) api_env \<Rightarrow> (string \<Rightarrow> string list) \<Rightarrow> pageCursor" where
  "pageFromQuery A q =
     (let c = decodeCursor A (query_Get q ''cursor'') in c\<lparr>pcLimit := limitFromQuery q (pcLimit c)\<rparr>)"

definition nextCursor :: "('q, 'j) api_env \<Rightarrow> pageCursor \<Rightarrow> bool \<Rightarrow> string option" where
  "nextCursor A c hasMore =
     (if \<not> hasMore then None
      else Some (encodeCursor A \<lparr>pcOffset = i64 (pcOffset c + pcLimit c), pcLimit = pcLimit c\<rparr>))"

section \<open>Filters\<close>

definition time_param :: "(string \<Rightarrow> instant option) \<Rightarrow> (string \<Rightarrow> string list) \<Rightarrow> string \<Rightarrow> instant option + instant option" where
  "time_param parse q k =
     (let v = TrimSpace (query_Get q k) in
      if v = [] then Inr None else case parse v of None \<Rightarrow> Inl None | Some t \<Rightarrow> Inr (Some t))"

text \<open>The two times as far as they parsed, and the message for the first that did not.\<close>

definition ParseTimeRange :: "(string \<Rightarrow> instant option) \<Rightarrow> (string \<Rightarrow> string list) \<Rightarrow> instant option \<times> instant option \<times> string" where
  "ParseTimeRange parse q =
     (case time_param parse q ''since'' of
        Inl _ \<Rightarrow> (None, None, ''since must be RFC 3339, e.g. 2026-01-01T00:00:00Z'')
      | Inr since \<Rightarrow>
          (case time_param parse q ''until'' of
             Inl _ \<Rightarrow> (since, None, ''until must be RFC 3339, e.g. 2026-01-01T00:00:00Z'')
           | Inr u \<Rightarrow> (since, u, [])))"

definition ParseCommonFilter :: "(string \<Rightarrow> instant option) \<Rightarrow> (string \<Rightarrow> string list) \<Rightarrow> CommonFilter \<times> string" where
  "ParseCommonFilter parse q =
     (case ParseTimeRange parse q of
        (since, u, msg) \<Rightarrow>
          (\<lparr>cfSince = since, cfUntil = u, cfClient = TrimSpace (query_Get q ''client''),
            cfRoute = TrimSpace (query_Get q ''route''), cfSender = TrimSpace (query_Get q ''sender''),
            cfRecipient = TrimSpace (query_Get q ''recipient''), cfSubject = TrimSpace (query_Get q ''subject'')\<rparr>, msg))"

section \<open>Handlers\<close>

type_synonym ('q, 'j) handler = "request \<Rightarrow> ('q, 'j) api_state \<Rightarrow> api_reply \<times> ('q, 'j) api_state"

definition handleHealth :: "('q, 'j) api_env \<Rightarrow> ('q, 'j) handler" where
  "handleHealth A r s =
     (case aeStatus A (asQueue s) of
        (sts, q) \<Rightarrow>
          (let has = (\<lambda>n. case find (\<lambda>st. stRoute st = n) (rev sts) of Some st \<Rightarrow> stHasToken st | None \<Rightarrow> False);
               rows = map (\<lambda>rt. \<lparr>hrName = rName rt, hrAuth = Auth rt,
                                 hrAuthenticated = (if UsesOAuth2 rt then has (rName rt) else True)\<rparr>) (Routes (aeCfg A))
           in (writeJSON 200 (HealthBody (aeVersion A) (go_div (aeUptime A) second) rows), s\<lparr>asQueue := q\<rparr>)))"

definition handleBounces :: "('q, 'j) api_env \<Rightarrow> ('q, 'j) handler" where
  "handleBounces A r s =
     (let c = pageFromQuery A (rqQuery r); cls = query_Get (rqQuery r) ''class'' in
      if \<not> ValidBounceClass cls then (writeJSONError 400 ''class must be permanent or expired'', s)
      else case ParseCommonFilter (aeParseTime A) (rqQuery r) of
             (common, msg) \<Rightarrow>
               if msg \<noteq> [] then (writeJSONError 400 msg, s)
               else (case aeFindBounces A \<lparr>bfCommon = common, bfClass = cls, bfLimit = pcLimit c, bfOffset = pcOffset c\<rparr> (asJournal s) of
                       (Inl e, j) \<Rightarrow> (serverError, s\<lparr>asJournal := j\<rparr>)
                     | (Inr (rows, hasMore), j) \<Rightarrow>
                         (writeJSON 200 (BouncesBody (map newBounceView rows) (nextCursor A c hasMore)), s\<lparr>asJournal := j\<rparr>)))"

definition validMessageStatus :: "string \<Rightarrow> bool" where
  "validMessageStatus st \<longleftrightarrow> st \<noteq> StatusActive \<and> ValidStatus st"

definition handleMessages :: "('q, 'j) api_env \<Rightarrow> ('q, 'j) handler" where
  "handleMessages A r s =
     (let c = pageFromQuery A (rqQuery r); st = query_Get (rqQuery r) ''status'' in
      if \<not> validMessageStatus st
      then (writeJSONError 400 ''status must be queued, deferred, delivered, bounced or removed'', s)
      else case ParseCommonFilter (aeParseTime A) (rqQuery r) of
             (common, msg) \<Rightarrow>
               if msg \<noteq> [] then (writeJSONError 400 msg, s)
               else (case aeFindMessages A \<lparr>mfCommon = common, mfStatus = st, mfSort = [], mfOrder = [], mfLimit = pcLimit c, mfOffset = pcOffset c\<rparr> (asJournal s) of
                       (Inl e, j) \<Rightarrow> (serverError, s\<lparr>asJournal := j\<rparr>)
                     | (Inr (rows, hasMore), j) \<Rightarrow>
                         (writeJSON 200 (MessagesBody (map newMessageView rows) (nextCursor A c hasMore)), s\<lparr>asJournal := j\<rparr>)))"

definition handleMessage :: "('q, 'j) api_env \<Rightarrow> string \<Rightarrow> ('q, 'j) handler" where
  "handleMessage A pid r s =
     (case Parse pid of
        None \<Rightarrow> (writeJSONError 400 ''invalid queue id'', s)
      | Some i \<Rightarrow>
          (case aeFindByID A i (asJournal s) of
             (Inl e, j) \<Rightarrow> (serverError, s\<lparr>asJournal := j\<rparr>)
           | (Inr None, j) \<Rightarrow> (writeJSONError 404 ''message not found'', s\<lparr>asJournal := j\<rparr>)
           | (Inr (Some m), j) \<Rightarrow> (writeJSON 200 (MessageBody (newMessageView m)), s\<lparr>asJournal := j\<rparr>)))"

definition time_or_none :: "instant \<Rightarrow> instant option" where
  "time_or_none t = (if t = 0 then None else Some t)"

definition route_row :: "RouteStatus \<Rightarrow> routeState_view" where
  "route_row st =
     \<lparr>rvRoute = stRoute st, rvQueued = stQueued st, rvDeferred = stDeferred st, rvOldest = time_or_none (stOldestQueued st),
      rvDelivered = stDelivered st, rvBounced = stBounced st, rvDeferredTotal = stDeferredTotal st,
      rvAuthFailures = stAuthFailures st, rvRefused = stRefused st, rvLast = time_or_none (stLastDelivery st)\<rparr>"

definition handleQueue :: "('q, 'j) api_env \<Rightarrow> ('q, 'j) handler" where
  "handleQueue A r s =
     (case aeStatus A (asQueue s) of
        (sts, q) \<Rightarrow> (writeJSON 200 (QueueBody (map route_row sts)), s\<lparr>asQueue := q\<rparr>))"

definition handleRequeue :: "('q, 'j) api_env \<Rightarrow> string \<Rightarrow> string \<Rightarrow> ('q, 'j) handler" where
  "handleRequeue A tok pid r s =
     (case Parse pid of
        None \<Rightarrow> (writeJSONError 400 ''invalid queue id'', s)
      | Some i \<Rightarrow>
          (case operator_requeue (aeActor A) i tok (SourceAddr (aeNet A) r) [] (desk_of s) of
             (out, d) \<Rightarrow>
               (case out of
                  Done \<Rightarrow> writeJSON 200 (StatusBody ''requeued'')
                | Missing \<Rightarrow> writeJSONError 404 ''message not found''
                | Busy \<Rightarrow> writeJSONError 409 ''message is currently being delivered''
                | _ \<Rightarrow> serverError, on_desk d s)))"

definition handleDelete :: "('q, 'j) api_env \<Rightarrow> string \<Rightarrow> string \<Rightarrow> ('q, 'j) handler" where
  "handleDelete A tok pid r s =
     (case Parse pid of
        None \<Rightarrow> (writeJSONError 400 ''invalid queue id'', s)
      | Some i \<Rightarrow>
          (case operator_delete (aeActor A) i tok (SourceAddr (aeNet A) r) [] (desk_of s) of
             (out, d) \<Rightarrow>
               (case out of
                  Done \<Rightarrow> writeJSON 200 (StatusBody ''deleted'')
                | Cleared \<Rightarrow> writeJSON 200 (StatusBody ''cleared'')
                | Missing \<Rightarrow> writeJSONError 404 ''message not found''
                | Busy \<Rightarrow> writeJSONError 409 ''message is currently being delivered''
                | Failed \<Rightarrow> serverError, on_desk d s)))"

section \<open>Authentication and dispatch\<close>

definition guarded :: "('q, 'j) api_env \<Rightarrow> string \<Rightarrow> instant \<Rightarrow> (string \<Rightarrow> ('q, 'j) handler) \<Rightarrow> ('q, 'j) handler" where
  "guarded A need now nxt r s =
     (case api_auth (aeCrypt A) (aeNet A) (aeCfg A) (aeScan A) need r now (asFails s, asRejected s) of
        (v, l, n) \<Rightarrow>
          (let s' = s\<lparr>asFails := l, asRejected := n\<rparr> in
           case v of
             TooMany w \<Rightarrow> ((writeJSONError 429 ''too many failed authentication attempts'')\<lparr>arRetryAfter := Some w\<rparr>, s')
           | Unauthorized \<Rightarrow> (writeJSONError 401 ''missing or invalid bearer token'', s')
           | Forbidden \<Rightarrow> (writeJSONError 403 ''token scope does not permit this action'', s')
           | Granted tok \<Rightarrow> nxt tok r s'))"

definition is_get :: "request \<Rightarrow> bool" where
  "is_get r \<longleftrightarrow> rqMethod r = ''GET'' \<or> rqMethod r = ''HEAD''"

definition not_found :: api_reply where "not_found = writeJSON 404 (ErrorBody ''404 page not found'')"
definition not_allowed :: api_reply where "not_allowed = writeJSON 405 (ErrorBody ''Method Not Allowed'')"

text \<open>The patterns of \<open>Handler\<close>, without the prefix the caller strips; a pattern for GET also answers HEAD.\<close>

definition api_handler :: "('q, 'j) api_env \<Rightarrow> instant \<Rightarrow> string list \<Rightarrow> ('q, 'j) handler" where
  "api_handler A now path r s =
     (case path of
        [a] \<Rightarrow>
          if a = ''health'' then (if is_get r then handleHealth A r s else (not_allowed, s))
          else if a = ''bounces'' then (if is_get r then guarded A ScopeRead now (\<lambda>_. handleBounces A) r s else (not_allowed, s))
          else if a = ''messages'' then (if is_get r then guarded A ScopeRead now (\<lambda>_. handleMessages A) r s else (not_allowed, s))
          else if a = ''queue'' then (if is_get r then guarded A ScopeRead now (\<lambda>_. handleQueue A) r s else (not_allowed, s))
          else (not_found, s)
      | [a, pid] \<Rightarrow>
          if a = ''messages'' \<and> pid \<noteq> [] then
            (if is_get r then guarded A ScopeRead now (\<lambda>_. handleMessage A pid) r s
             else if rqMethod r = ''DELETE'' then guarded A ScopeAdmin now (\<lambda>tok. handleDelete A tok pid) r s
             else (not_allowed, s))
          else (not_found, s)
      | [a, pid, b] \<Rightarrow>
          if a = ''messages'' \<and> pid \<noteq> [] \<and> b = ''requeue'' then
            (if rqMethod r = ''POST'' then guarded A ScopeAdmin now (\<lambda>tok. handleRequeue A tok pid) r s else (not_allowed, s))
          else (not_found, s)
      | _ \<Rightarrow> (not_found, s))"

end
