(* ===== verification/Config_Page.thy ===== *)
theory Config_Page
  imports Config_Types Metrics_Registry
begin

text \<open>
  The configuration page and the theme of the dashboard: \<open>internal/web/format.go\<close>'s \<open>formatBlock\<close> family and
  \<open>internal/web/theme.go\<close>. The reflection walk becomes a walk over a tree of tagged fields, which \<open>listener_fields\<close> and its
  siblings read off a struct in declaration order with the \<open>toml\<close> tags of \<open>internal/config/config.go\<close>.
\<close>

section \<open>Structs as trees of fields\<close>

datatype field =
    FString string | FInt int | FBool bool | FSecret Secret | FStrings "string list" | FStructs nat
  | FStruct "(string \<times> field) list"

definition listener_fields :: "Listener \<Rightarrow> (string \<times> field) list" where
  "listener_fields l =
     [(''name'', FString (lName l)), (''address'', FString (lAddress l)), (''tls'', FString (lTLS l)),
      (''min_tls'', FString (lMinTLS l)), (''require_tls'', FBool (RequireTLS l))]"

definition rewrite_fields :: "Rewrite \<Rightarrow> (string \<times> field) list" where
  "rewrite_fields w =
     [(''mode'', FString (Mode w)), (''allowed_senders'', FStrings (AllowedSenders w)),
      (''envelope_from'', FString (EnvelopeFrom w)), (''header_from'', FString (HeaderFrom w)),
      (''reply_to'', FString (ReplyTo w))]"

definition client_fields :: "Client \<Rightarrow> (string \<times> field) list" where
  "client_fields c =
     [(''name'', FString (clName c)), (''cidr'', FStrings (CIDR c)), (''route'', FString (clRoute c)),
      (''max_message_mb'', FInt (clMaxMessageMB c)), (''max_recipients'', FInt (MaxRecipients c)),
      (''rate_limit_per_min'', FInt (clRateLimitPerMin c)), (''max_connections'', FInt (clMaxConnections c)),
      (''rewrite'', FStruct (rewrite_fields (clRewrite c))), (''bounce'', FStruct [(''notify'', FStrings (clNotify c))])]"

definition oauth2_fields :: "OAuth2 \<Rightarrow> (string \<times> field) list" where
  "oauth2_fields a =
     [(''tenant_id'', FString (TenantID a)), (''client_id'', FString (ClientID a)),
      (''client_secret'', FSecret (ClientSecret a)), (''secret_expires'', FString (SecretExpires a)),
      (''scope'', FString (Scope a)), (''mailbox'', FString (Mailbox a))]"

definition credentials_fields :: "Credentials \<Rightarrow> (string \<times> field) list" where
  "credentials_fields c = [(''username'', FString (Username c)), (''password'', FSecret (Password c))]"

definition route_fields :: "Route \<Rightarrow> (string \<times> field) list" where
  "route_fields r =
     [(''name'', FString (rName r)), (''default'', FBool (Default r)), (''host'', FString (Host r)),
      (''port'', FInt (Port r)), (''tls'', FString (rTLS r)), (''min_tls'', FString (rMinTLS r)),
      (''auth'', FString (Auth r)), (''domains'', FStrings (Domains r)), (''sources'', FStrings (Sources r)),
      (''max_concurrent'', FInt (MaxConcurrent r)), (''rate_limit_per_min'', FInt (rRateLimitPerMin r)),
      (''ca_pin'', FString (CAPin r)), (''oauth2'', FStruct (oauth2_fields (rOAuth2 r))),
      (''credentials'', FStruct (credentials_fields (rCredentials r)))]"

definition bounce_fields :: "Bounce \<Rightarrow> (string \<times> field) list" where
  "bounce_fields b =
     [(''sender'', FString (bSender b)), (''notify'', FStrings (bNotify b)), (''notify_route'', FString (NotifyRoute b)),
      (''digest_minutes'', FInt (DigestMinutes b)), (''max_per_hour'', FInt (MaxPerHour b))]"

section \<open>Formatting\<close>

definition orNone :: "string \<Rightarrow> string" where
  "orNone s = (if s = [] then ''(none)'' else s)"

definition Secret_String :: "Secret \<Rightarrow> string" where
  "Secret_String s = ''[redacted]''"

fun flattenFields :: "string \<Rightarrow> (string \<Rightarrow> bool) \<Rightarrow> (string \<times> field) list \<Rightarrow> (string \<times> string) list" where
  "flattenFields pfx skip [] = []"
| "flattenFields pfx skip ((tag, f) # fs) =
     (if pfx = [] \<and> tag = ''name'' then []
      else (let key = (if pfx = [] then tag else pfx @ ''.'' @ tag) in
            if skip key then []
            else (case f of
                    FSecret s \<Rightarrow> [(key, if Secret_Empty s then ''(none)'' else Secret_String s)]
                  | FStruct gs \<Rightarrow> flattenFields key skip gs
                  | FStructs n \<Rightarrow> [(key, ''('' @ dec_nat n @ '' entries)'')]
                  | FStrings xs \<Rightarrow> [(key, orNone (Join xs '', ''))]
                  | FString s \<Rightarrow> [(key, orNone s)]
                  | FInt i \<Rightarrow> [(key, dec_int i)]
                  | FBool b \<Rightarrow> [(key, if b then ''true'' else ''false'')])))
     @ flattenFields pfx skip fs"

definition formatBlock :: "string \<Rightarrow> (string \<times> field) list \<Rightarrow> (string \<Rightarrow> bool) \<Rightarrow> string" where
  "formatBlock hdr v skip =
     (let fields = flattenFields [] skip v;
          width = foldr (\<lambda>f w. max w (length (fst f))) fields 0
      in TrimRightP (\<lambda>c. c = LF)
           ((if hdr = [] then [] else hdr @ [LF]) @
            concat (map (\<lambda>(k, x). k @ replicate (width - length k) CHR '' '' @ '' = '' @ x @ [LF]) fields)))"

definition no_skip :: "string \<Rightarrow> bool" where "no_skip k = False"

definition route_skip :: "Route \<Rightarrow> string \<Rightarrow> bool" where
  "route_skip r key =
     (if HasPrefix key ''oauth2.'' then Auth r \<noteq> AuthXOAUTH2
      else if HasPrefix key ''credentials.'' then Auth r \<noteq> AuthPlain \<and> Auth r \<noteq> AuthLogin
      else False)"

definition formatListeners :: "Listener list \<Rightarrow> string" where
  "formatListeners ls =
     (if ls = [] then ''(none configured)''
      else Join (map (\<lambda>l. formatBlock (''[listener '' @ quoted (lName l) @ '']'') (listener_fields l) no_skip) ls) [LF, LF])"

definition formatClients :: "Client list \<Rightarrow> string" where
  "formatClients cs =
     (if cs = [] then ''(none configured)''
      else Join (map (\<lambda>c. formatBlock (''[client '' @ quoted (clName c) @ '']'') (client_fields c) no_skip) cs) [LF, LF])"

definition formatRoutes :: "Route list \<Rightarrow> string" where
  "formatRoutes rs =
     (if rs = [] then ''(none configured)''
      else Join (map (\<lambda>r. formatBlock (''[route '' @ quoted (rName r) @ '']'') (route_fields r) (route_skip r)) rs) [LF, LF])"

definition formatBounce :: "Bounce \<Rightarrow> string" where
  "formatBounce b = formatBlock [] (bounce_fields b) no_skip"

section \<open>Theme\<close>

definition theme_vars :: "(string \<times> string) list" where
  "theme_vars =
     [(''accent'', ''--accent''), (''accent_text'', ''--accent-text''), (''background'', ''--bg''), (''surface'', ''--surface''),
      (''border'', ''--border''), (''text'', ''--text''), (''muted'', ''--muted''), (''ok'', ''--ok''), (''warn'', ''--warn''),
      (''danger'', ''--danger'')]"

definition theme_value :: "Theme \<Rightarrow> string \<Rightarrow> string" where
  "theme_value t key = (case map_of (thColors t) key of Some v \<Rightarrow> v | None \<Rightarrow> [])"

text \<open>The map of \<open>Colors\<close>, as the list of its entries.\<close>

definition Theme_Colors :: "Theme \<Rightarrow> (string \<times> string) list" where
  "Theme_Colors t = concat (map (\<lambda>(key, var). if theme_value t key \<noteq> [] then [(var, theme_value t key)] else []) theme_vars)"

definition themeOverrides :: "Theme \<Rightarrow> string" where
  "themeOverrides t =
     (let colors = Theme_Colors t;
          names = map fst (filter (\<lambda>(n, v). IsHexColor v) colors)
      in if names = [] then []
         else [LF] @ ''/* [web.theme] overrides */'' @ [LF] @
           '':root, :root[data-theme='' @ [DQUOTE] @ ''light'' @ [DQUOTE] @ ''], :root[data-theme='' @ [DQUOTE] @ ''dark'' @ [DQUOTE] @ ''] {'' @ [LF] @
           concat (map (\<lambda>n. [TAB] @ n @ '': '' @ (case map_of colors n of Some v \<Rightarrow> v | None \<Rightarrow> []) @ '';'' @ [LF]) (sort_names names)) @
           ''}'' @ [LF])"

definition themeMode :: "Theme \<Rightarrow> string" where
  "themeMode t = (if thMode t = ''light'' \<or> thMode t = ''dark'' then thMode t else ''auto'')"

section \<open>The page knows no secret\<close>

text \<open>What is left of a secret for the page: whether one is configured.\<close>

definition hidden :: "Secret \<Rightarrow> Secret" where
  "hidden s = \<lparr>secRef = (if secRef s = [] then [] else ''x''), secValue = []\<rparr>"

definition hidden_route :: "Route \<Rightarrow> Route" where
  "hidden_route r = r\<lparr>rOAuth2 := (rOAuth2 r)\<lparr>ClientSecret := hidden (ClientSecret (rOAuth2 r))\<rparr>,
     rCredentials := (rCredentials r)\<lparr>Password := hidden (Password (rCredentials r))\<rparr>\<rparr>"

fun hide_fields :: "(string \<times> field) list \<Rightarrow> (string \<times> field) list" where
  "hide_fields [] = []"
| "hide_fields ((tag, f) # fs) =
     (tag, case f of FSecret s \<Rightarrow> FSecret (hidden s) | FStruct gs \<Rightarrow> FStruct (hide_fields gs) | g \<Rightarrow> g) # hide_fields fs"

lemma hidden_empty [simp]: "Secret_Empty (hidden s) = Secret_Empty s" "Secret_String (hidden s) = Secret_String s"
  by (simp_all add: hidden_def Secret_Empty_def Secret_String_def)

lemma flatten_hidden: "flattenFields p skip (hide_fields fs) = flattenFields p skip fs"
proof (induction p skip fs rule: flattenFields.induct)
  case (2 p skip tag f fs)
  let ?key = "if p = [] then tag else p @ ''.'' @ tag"
  have rest: "flattenFields p skip (hide_fields fs) = flattenFields p skip fs" using 2(2) .
  show ?case
  proof (cases "p = [] \<and> tag = ''name'' \<or> skip ?key")
    case True
    then show ?thesis using rest by (auto simp: Let_def)
  next
    case False
    then have f: "(p = [] \<and> tag = ''name'') = False" "skip ?key = False" by blast+
    have "flattenFields ?key skip (hide_fields gs) = flattenFields ?key skip gs" if "f = FStruct gs" for gs
      using 2(1) [OF _ refl _ that] f by blast
    then show ?thesis
      by (cases f) (simp_all only: hide_fields.simps flattenFields.simps Let_def f if_False field.case rest hidden_empty)
  qed
qed simp

text \<open>The page is the same whatever the secrets are: it is computed from the configuration without them.\<close>

lemma route_block_hidden:
  "formatBlock h (route_fields (hidden_route r)) (route_skip (hidden_route r)) = formatBlock h (route_fields r) (route_skip r)"
proof -
  have "route_skip (hidden_route r) = route_skip r" by (simp add: fun_eq_iff route_skip_def hidden_route_def)
  moreover have "route_fields (hidden_route r) = hide_fields (route_fields r)"
    by (simp add: route_fields_def hidden_route_def oauth2_fields_def credentials_fields_def)
  ultimately show ?thesis by (simp only: formatBlock_def flatten_hidden)
qed

lemma config_page_hides_secrets: "formatRoutes (map hidden_route rs) = formatRoutes rs"
proof -
  have "rName (hidden_route r) = rName r" for r by (simp add: hidden_route_def)
  then show ?thesis by (simp add: formatRoutes_def route_block_hidden comp_def)
qed

text \<open>Every value in the stylesheet is a literal colour of the configuration.\<close>

lemma map_fst_chosen:
  "map fst (concat (map (\<lambda>(k, v). if P k then [(v, g k)] else []) xs)) = map snd (filter (P \<circ> fst) xs)"
  by (induction xs) auto

lemma theme_values_are_colours:
  assumes "n \<in> set (sort_names (map fst (filter (\<lambda>(n, v). IsHexColor v) (Theme_Colors t))))"
  shows "\<exists>v. map_of (Theme_Colors t) n = Some v \<and> IsHexColor v"
proof -
  have "distinct (map snd theme_vars)" by (simp add: theme_vars_def)
  then have d: "distinct (map fst (Theme_Colors t))" unfolding Theme_Colors_def map_fst_chosen by (rule distinct_map_filter)
  obtain v where v: "(n, v) \<in> set (Theme_Colors t)" "IsHexColor v" using assms by (auto simp: sort_names_set)
  then show ?thesis using d by (metis map_of_is_SomeI)
qed

end
