(* ===== verification/Page_Links.thy ===== *)
theory Page_Links
  imports Api_Server Config_Page
begin

text \<open>
  The dashboard's links, \<open>internal/web/format.go\<close> and the link half of \<open>pages.go\<close> and \<open>bulk.go\<close>: \<open>url.Values\<close>
  is an association list with one entry per key, paging links carry the filters forward, and the outcome of a bulk
  action travels to the next page as numbers in the query of a redirect.
\<close>

section \<open>Values of a query\<close>

type_synonym url_values = "(string \<times> string list) list"

definition values_Set :: "string \<Rightarrow> string \<Rightarrow> url_values \<Rightarrow> url_values" where
  "values_Set k v vs = AList.update k [v] vs"

definition values_fn :: "url_values \<Rightarrow> string \<Rightarrow> string list" where
  "values_fn vs k = (case map_of vs k of None \<Rightarrow> [] | Some xs \<Rightarrow> xs)"

text \<open>\<open>Encode\<close> writes the keys in byte order, each with its values in order.\<close>

definition values_Encode :: "url_values \<Rightarrow> string" where
  "values_Encode vs =
     Join (concat (map (\<lambda>k. map (\<lambda>v. QueryEscape k @ ''='' @ QueryEscape v) (values_fn vs k))
       (sort_names (map fst vs)))) ''&''"

section \<open>Paging\<close>

definition pageSize :: int where "pageSize = 50"

definition parseNonNegative :: "string \<Rightarrow> int" where
  "parseNonNegative s = (case ParseInt64 s of None \<Rightarrow> 0 | Some n \<Rightarrow> if n < 0 then 0 else n)"

definition parseOffset :: "string \<Rightarrow> int" where
  "parseOffset s = parseNonNegative s"

definition filterQueryValues :: "(string \<Rightarrow> string list) \<Rightarrow> string list \<Rightarrow> url_values" where
  "filterQueryValues q ks =
     fold (\<lambda>k out. let v = query_Get q k in if v \<noteq> [] then values_Set k v out else out) ks []"

text \<open>Copying the slices of a map whose values are never shared is the map itself.\<close>

definition cloneValues :: "url_values \<Rightarrow> url_values" where
  "cloneValues v = map (\<lambda>(k, vals). (k, vals)) v"

definition sort_cols :: "string list" where
  "sort_cols = [''received_at'', ''status'', ''client'', ''route'']"

definition sortLinks :: "string \<Rightarrow> url_values \<Rightarrow> string \<Rightarrow> string \<Rightarrow> (string \<times> string) list" where
  "sortLinks path extra currentSort currentOrder =
     (let effSort = (if currentSort = [] then ''received_at'' else currentSort);
          effOrder = (if currentOrder \<noteq> ''asc'' then ''desc'' else currentOrder)
      in map (\<lambda>col.
           let order = (if col = effSort \<and> effOrder = ''desc'' then ''asc'' else ''desc'')
           in (col, path @ ''?'' @ values_Encode (values_Set ''order'' order (values_Set ''sort'' col (cloneValues extra)))))
         sort_cols)"

definition pageHref :: "string \<Rightarrow> url_values \<Rightarrow> string \<Rightarrow> string \<Rightarrow> int \<Rightarrow> string" where
  "pageHref path extra sortCol order offset =
     (let v1 = cloneValues extra;
          v2 = (if sortCol \<noteq> [] then values_Set ''sort'' sortCol v1 else v1);
          v3 = (if order \<noteq> [] then values_Set ''order'' order v2 else v2);
          v4 = (if offset > 0 then values_Set ''offset'' (dec_int offset) v3 else v3);
          enc = values_Encode v4
      in if enc \<noteq> [] then path @ ''?'' @ enc else path)"

definition pageLinks :: "string \<Rightarrow> url_values \<Rightarrow> string \<Rightarrow> string \<Rightarrow> int \<Rightarrow> bool \<Rightarrow> string \<times> string" where
  "pageLinks path extra sortCol order offset hasMore =
     (if offset > 0 then pageHref path extra sortCol order (max 0 (i64 (offset - pageSize))) else [],
      if hasMore then pageHref path extra sortCol order (i64 (offset + pageSize)) else [])"

section \<open>The outcome of a bulk action\<close>

record bulkCounts =
  bkOK :: int
  bkCleared :: int
  bkBusy :: int
  bkMissing :: int
  bkFailed :: int
  bkTruncated :: bool

definition no_counts :: bulkCounts where
  "no_counts = \<lparr>bkOK = 0, bkCleared = 0, bkBusy = 0, bkMissing = 0, bkFailed = 0, bkTruncated = False\<rparr>"

text \<open>The range over the map of the five counts sets five different keys, so its order does not show.\<close>

definition bulk_query :: "string \<Rightarrow> bulkCounts \<Rightarrow> url_values" where
  "bulk_query act c =
     (let v = values_Set ''done'' act [];
          v1 = fold (\<lambda>(k, n) v. if n > 0 then values_Set k (dec_int n) v else v)
                 [(''ok'', bkOK c), (''cleared'', bkCleared c), (''busy'', bkBusy c), (''missing'', bkMissing c), (''failed'', bkFailed c)] v
      in if bkTruncated c then values_Set ''more'' ''1'' v1 else v1)"

record flash =
  flLevel :: string
  flText :: string

definition bulk_verb :: "string \<Rightarrow> string option" where
  "bulk_verb act = (if act = ''requeue'' then Some ''requeued'' else if act = ''delete'' then Some ''deleted'' else None)"

definition bulk_counts :: "(string \<Rightarrow> string list) \<Rightarrow> bulkCounts" where
  "bulk_counts q =
     \<lparr>bkOK = parseNonNegative (query_Get q ''ok''), bkCleared = parseNonNegative (query_Get q ''cleared''),
      bkBusy = parseNonNegative (query_Get q ''busy''), bkMissing = parseNonNegative (query_Get q ''missing''),
      bkFailed = parseNonNegative (query_Get q ''failed''), bkTruncated = (query_Get q ''more'' = ''1'')\<rparr>"

definition flash_parts :: "string \<Rightarrow> bulkCounts \<Rightarrow> string list" where
  "flash_parts verb c =
     (if bkOK c > 0 then [dec_int (bkOK c) @ '' '' @ verb] else []) @
     (if bkCleared c > 0 then [dec_int (bkCleared c) @ '' had no spool copy left and were cleared from the queue view''] else []) @
     (if bkBusy c > 0 then [dec_int (bkBusy c) @ '' skipped, currently being delivered''] else []) @
     (if bkMissing c > 0 then [dec_int (bkMissing c) @ '' no longer in the queue''] else []) @
     (if bkFailed c > 0 then [dec_int (bkFailed c) @ '' failed, see the log''] else [])"

definition flash_of :: "string \<Rightarrow> bulkCounts \<Rightarrow> flash" where
  "flash_of verb c =
     (let parts = flash_parts verb c in
      if parts = [] then \<lparr>flLevel = ''warn'', flText = ''No message was selected, so nothing was '' @ verb @ ''.''\<rparr>
      else \<lparr>flLevel = (if bkBusy c > 0 \<or> bkMissing c > 0 \<or> bkFailed c > 0 then ''warn'' else ''ok''),
            flText = Join parts '', '' @ ''.'' @
              (if bkTruncated c then '' Not every message was covered; repeat the action to continue.'' else [])\<rparr>)"

definition bulkFlash :: "(string \<Rightarrow> string list) \<Rightarrow> flash option" where
  "bulkFlash q = map_option (\<lambda>verb. flash_of verb (bulk_counts q)) (bulk_verb (query_Get q ''done''))"

section \<open>What the links carry\<close>

lemma values_fn_Set: "values_fn (values_Set k v vs) k' = (if k' = k then [v] else values_fn vs k')"
  by (simp add: values_fn_def values_Set_def AList.update_conv')

lemma query_Get_Set: "query_Get (values_fn (values_Set k v vs)) k' = (if k' = k then v else query_Get (values_fn vs) k')"
  by (simp add: query_Get_def values_fn_Set)

definition count_ok :: "int \<Rightarrow> bool" where
  "count_ok n \<longleftrightarrow> 0 \<le> n \<and> n < 2 ^ 63"

lemma parse_count: "count_ok n \<Longrightarrow> parseNonNegative (dec_int n) = n"
  by (simp add: parseNonNegative_def count_ok_def ParseInt64_dec_int)

lemma parse_nothing: "parseNonNegative [] = 0"
  by (simp add: parseNonNegative_def ParseInt64_def)

lemma bulk_counts_query:
  assumes "count_ok (bkOK c)" "count_ok (bkCleared c)" "count_ok (bkBusy c)" "count_ok (bkMissing c)" "count_ok (bkFailed c)"
  shows "bulk_counts (values_fn (bulk_query act c)) = c"
  using assms
  by (cases c) (auto simp: bulk_counts_def bulk_query_def query_Get_Set parse_count parse_nothing Let_def
      query_Get_def [of "values_fn []"] values_fn_def [of "[]"] count_ok_def)

text \<open>The banner of the page a bulk action redirects to says what the action counted.\<close>

theorem flash_reports_the_action:
  assumes "count_ok (bkOK c)" "count_ok (bkCleared c)" "count_ok (bkBusy c)" "count_ok (bkMissing c)" "count_ok (bkFailed c)"
  shows "bulkFlash (values_fn (bulk_query act c)) = map_option (\<lambda>verb. flash_of verb c) (bulk_verb act)"
proof -
  have "query_Get (values_fn (bulk_query act c)) ''done'' = act"
    by (simp add: bulk_query_def query_Get_Set Let_def)
  then show ?thesis using bulk_counts_query [OF assms] by (simp add: bulkFlash_def)
qed

lemma cloneValues_id: "cloneValues v = v"
  by (simp add: cloneValues_def)

lemma filterQueryValues_Get:
  "query_Get (values_fn (filterQueryValues q ks)) k = (if k \<in> set ks then query_Get q k else [])"
proof -
  have "query_Get (values_fn (fold (\<lambda>k out. let v = query_Get q k in if v \<noteq> [] then values_Set k v out else out) ks vs)) k =
      (if k \<in> set ks \<and> query_Get q k \<noteq> [] then query_Get q k else query_Get (values_fn vs) k)" for vs
    by (induction ks arbitrary: vs) (auto simp: query_Get_Set Let_def)
  then show ?thesis by (auto simp: filterQueryValues_def query_Get_def values_fn_def)
qed

text \<open>Following the next link and then the previous one leads back to the offset one came from.\<close>

lemma pages_there_and_back:
  assumes "0 \<le> offset" "offset \<le> MaxOffset"
  shows "i64 (offset + pageSize) > 0" and "max 0 (i64 (i64 (offset + pageSize) - pageSize)) = offset"
  using assms by (simp_all add: pageSize_def MaxOffset_def i64_id)

end
