(* ===== verification/Dashboard.thy ===== *)
theory Dashboard
  imports Page_Links
begin

text \<open>
  \<open>internal/web\<close>: the dashboard. A handler takes what one request reads of its surroundings (\<open>web_input\<close>: the
  clock, whether the client is still there, its URI), the request and the state the API's handlers work on, and
  answers a status, headers and a body. \<open>html/template\<close> is the function \<open>weExecute\<close> of the page's data, which is
  None when executing the template fails. Of a redirect the body \<open>net/http\<close> writes is not kept.
\<close>

section \<open>Replies\<close>

record web_reply =
  wrStatus :: int
  wrHeaders :: "(string \<times> string) list"
  wrBody :: string

definition http_Error :: "string \<Rightarrow> int \<Rightarrow> web_reply" where
  "http_Error msg code =
     \<lparr>wrStatus = code, wrHeaders = [(''Content-Type'', ''text/plain; charset=utf-8'')], wrBody = msg @ [LF]\<rparr>"

definition http_Redirect :: "string \<Rightarrow> int \<Rightarrow> web_reply" where
  "http_Redirect to code = \<lparr>wrStatus = code, wrHeaders = [(''Location'', to)], wrBody = []\<rparr>"

definition served :: "string \<Rightarrow> string \<Rightarrow> web_reply" where
  "served typ body = \<lparr>wrStatus = 200, wrHeaders = [(''Content-Type'', typ)], wrBody = body\<rparr>"

section \<open>Pages\<close>

record totals =
  toQueued :: int
  toDeferred :: int
  toDelivered :: "64 word"
  toBounced :: "64 word"

record baseData =
  bdVersion :: string
  bdPage :: string
  bdTheme :: string
  bdRoutes :: "RouteStatus list"
  bdTotals :: totals
  bdRecent :: "Message list"
  bdCurrentURL :: string
  bdJournalFailures :: nat

record queueRow =
  qrMessage :: Message
  qrStale :: bool

record queuePage =
  qpBase :: baseData
  qpRows :: "queueRow list"
  qpSortLinks :: "(string \<times> string) list"
  qpHasMore :: bool
  qpNext :: string
  qpPrev :: string
  qpRequeueToken :: string
  qpDeleteToken :: string
  qpFlash :: "flash option"
  qpConfirm :: bool

datatype filter_view =
    SearchFilter CommonFilter string string string
  | BounceView CommonFilter string string string

record listPage =
  lpBase :: baseData
  lpFilter :: filter_view
  lpError :: string
  lpMessages :: "Message list"
  lpHasMore :: bool
  lpNext :: string
  lpPrev :: string

record messagePage =
  mpBase :: baseData
  mpMessage :: "Message option"
  mpRequeueToken :: string
  mpDeleteToken :: string

record expiryRow =
  exWhat :: string
  exDetail :: string
  exExpires :: instant
  exDays :: int
  exState :: string

record configPage =
  cpBase :: baseData
  cpExpiry :: "expiryRow list"
  cpWarnDays :: int
  cpListeners :: string
  cpClients :: string
  cpRoutes :: string
  cpBounce :: string

datatype pageData =
    QueuePage queuePage
  | SearchPage listPage
  | BouncesPage listPage
  | MessagePage messagePage
  | RoutesPage baseData
  | ConfigPage configPage

section \<open>Server\<close>

record ('q, 'j) web_env =
  weCrypt :: crypt
  weNet :: cfg_env
  weCfg :: Config
  weKey :: string
  weActor :: "('q, 'j) Actor"
  weFindMessages :: "MessageFilter \<Rightarrow> 'j \<Rightarrow> (store_err + Message list \<times> bool) \<times> 'j"
  weFindBounces :: "BounceFilter \<Rightarrow> 'j \<Rightarrow> (store_err + Message list \<times> bool) \<times> 'j"
  weFindByID :: "id \<Rightarrow> 'j \<Rightarrow> (store_err + Message option) \<times> 'j"
  weStatus :: "'q \<Rightarrow> RouteStatus list \<times> 'q"
  weHas :: "id \<Rightarrow> 'q \<Rightarrow> bool"
  weDeadlines :: "item list"
  weVersion :: string
  weCSS :: string
  weTheme :: string
  weHTMX :: string
  weQueueJS :: string
  weParseTime :: "string \<Rightarrow> instant option"
  weExecute :: "pageData \<Rightarrow> string option"

record web_input =
  wiNow :: instant
  wiStart :: instant
  wiChecks :: "(bool \<times> instant) list"
  wiURI :: string

type_synonym ('q, 'j) web_handler = "web_input \<Rightarrow> request \<Rightarrow> ('q, 'j) api_state \<Rightarrow> web_reply \<times> ('q, 'j) api_state"

definition no_filter :: CommonFilter where
  "no_filter = \<lparr>cfSince = None, cfUntil = None, cfClient = [], cfRoute = [], cfSender = [], cfRecipient = [], cfSubject = []\<rparr>"

definition sum_totals :: "RouteStatus list \<Rightarrow> totals" where
  "sum_totals routes =
     foldl (\<lambda>t rt. \<lparr>toQueued = i64 (toQueued t + stQueued rt), toDeferred = i64 (toDeferred t + stDeferred rt),
                    toDelivered = toDelivered t + stDelivered rt, toBounced = toBounced t + stBounced rt\<rparr>)
       \<lparr>toQueued = 0, toDeferred = 0, toDelivered = 0, toBounced = 0\<rparr> routes"

definition base_data :: "('q, 'j) web_env \<Rightarrow> string \<Rightarrow> web_input \<Rightarrow> ('q, 'j) api_state \<Rightarrow> baseData \<times> ('q, 'j) api_state" where
  "base_data W page inp s =
     (case weStatus W (asQueue s) of
        (routes, q) \<Rightarrow>
          (case weFindBounces W \<lparr>bfCommon = no_filter, bfClass = [], bfLimit = 5, bfOffset = 0\<rparr> (asJournal s) of
             (res, j) \<Rightarrow>
               (\<lparr>bdVersion = weVersion W, bdPage = page, bdTheme = weTheme W, bdRoutes = routes, bdTotals = sum_totals routes,
                 bdRecent = (case res of Inl e \<Rightarrow> [] | Inr (ms, hasMore) \<Rightarrow> ms), bdCurrentURL = wiURI inp,
                 bdJournalFailures = asLost s\<rparr>,
                s\<lparr>asQueue := q, asJournal := j\<rparr>)))"

definition render :: "('q, 'j) web_env \<Rightarrow> pageData \<Rightarrow> web_reply" where
  "render W d =
     (case weExecute W d of
        None \<Rightarrow> http_Error ''internal error'' 500
      | Some html \<Rightarrow> served ''text/html; charset=utf-8'' html)"

definition web_error :: web_reply where
  "web_error = http_Error ''internal error'' 500"

section \<open>Read-only pages\<close>

definition web_token :: "('q, 'j) web_env \<Rightarrow> string \<Rightarrow> string \<Rightarrow> instant \<Rightarrow> string" where
  "web_token W act i now = csrf_token (weCrypt W) (weKey W) act i now"

definition web_handleQueue :: "('q, 'j) web_env \<Rightarrow> ('q, 'j) web_handler" where
  "web_handleQueue W inp r s =
     (let q = rqQuery r; sortCol = query_Get q ''sort''; order = query_Get q ''order'';
          offset = parseOffset (query_Get q ''offset'') in
      case weFindMessages W \<lparr>mfCommon = no_filter, mfStatus = StatusActive, mfSort = sortCol, mfOrder = order,
                              mfLimit = pageSize, mfOffset = offset\<rparr> (asJournal s) of
        (Inl e, j) \<Rightarrow> (web_error, s\<lparr>asJournal := j\<rparr>)
      | (Inr (msgs, hasMore), j) \<Rightarrow>
          (let rows = map (\<lambda>m. \<lparr>qrMessage = m, qrStale = \<not> weHas W (rowID (mgRow m)) (asQueue s)\<rparr>) msgs;
               links = pageLinks ''/queue'' [] sortCol order offset hasMore in
           case base_data W ''queue'' inp (s\<lparr>asJournal := j\<rparr>) of
             (b, s') \<Rightarrow>
               (render W (QueuePage
                  \<lparr>qpBase = b, qpRows = rows, qpSortLinks = sortLinks ''/queue'' [] sortCol order, qpHasMore = hasMore,
                   qpNext = snd links, qpPrev = fst links,
                   qpRequeueToken = web_token W ''queue-requeue'' [] (wiNow inp),
                   qpDeleteToken = web_token W ''queue-delete'' [] (wiNow inp),
                   qpFlash = bulkFlash q, qpConfirm = (query_Get q ''confirm'' = ''delete-all'')\<rparr>), s')))"

text \<open>What both filtered lists do once the filter is built; \<open>query\<close> runs only when it has no error.\<close>

definition filtered_list ::
  "('q, 'j) web_env \<Rightarrow> string \<Rightarrow> string list \<Rightarrow> filter_view \<Rightarrow> string \<Rightarrow>
   ('j \<Rightarrow> (store_err + Message list \<times> bool) \<times> 'j) \<Rightarrow> (listPage \<Rightarrow> pageData) \<Rightarrow> ('q, 'j) web_handler" where
  "filtered_list W name keys view err query page inp r s =
     (let q = rqQuery r; offset = parseOffset (query_Get q ''offset'') in
      case (if err = [] then query (asJournal s) else (Inr ([], False), asJournal s)) of
        (Inl e, j) \<Rightarrow> (web_error, s\<lparr>asJournal := j\<rparr>)
      | (Inr (msgs, hasMore), j) \<Rightarrow>
          (let links = pageLinks (''/'' @ name) (filterQueryValues q keys) [] [] offset hasMore in
           case base_data W name inp (s\<lparr>asJournal := j\<rparr>) of
             (b, s') \<Rightarrow>
               (render W (page \<lparr>lpBase = b, lpFilter = view, lpError = err, lpMessages = msgs, lpHasMore = hasMore,
                                lpNext = snd links, lpPrev = fst links\<rparr>), s')))"

definition web_handleSearch :: "('q, 'j) web_env \<Rightarrow> ('q, 'j) web_handler" where
  "web_handleSearch W inp r s =
     (let q = rqQuery r; offset = parseOffset (query_Get q ''offset''); status0 = query_Get q ''status'' in
      case ParseCommonFilter (weParseTime W) q of
        (common, err0) \<Rightarrow>
          (let bad = (err0 = [] \<and> \<not> ValidStatus status0);
               err = (if bad then ''status must be queued, deferred, delivered, bounced or removed'' else err0);
               status = (if bad then [] else status0)
           in filtered_list W ''search''
                [''sender'', ''recipient'', ''subject'', ''client'', ''route'', ''status'', ''since'', ''until'']
                (SearchFilter common status (query_Get q ''since'') (query_Get q ''until'')) err
                (weFindMessages W \<lparr>mfCommon = common, mfStatus = status, mfSort = [], mfOrder = [], mfLimit = pageSize, mfOffset = offset\<rparr>)
                SearchPage inp r s))"

definition web_handleBounces :: "('q, 'j) web_env \<Rightarrow> ('q, 'j) web_handler" where
  "web_handleBounces W inp r s =
     (let q = rqQuery r; offset = parseOffset (query_Get q ''offset''); cls0 = query_Get q ''class'';
          bad = \<not> ValidBounceClass cls0; cls = (if bad then [] else cls0) in
      case ParseCommonFilter (weParseTime W) q of
        (common, err0) \<Rightarrow>
          (let err = (if err0 \<noteq> [] then err0 else if bad then ''class must be permanent or expired'' else [])
           in filtered_list W ''bounces''
                [''sender'', ''recipient'', ''subject'', ''client'', ''route'', ''class'', ''since'', ''until'']
                (BounceView common cls (query_Get q ''since'') (query_Get q ''until'')) err
                (weFindBounces W \<lparr>bfCommon = common, bfClass = cls, bfLimit = pageSize, bfOffset = offset\<rparr>)
                BouncesPage inp r s))"

definition web_handleMessage :: "('q, 'j) web_env \<Rightarrow> string \<Rightarrow> ('q, 'j) web_handler" where
  "web_handleMessage W pid inp r s =
     (case Parse pid of
        None \<Rightarrow> (http_Error ''invalid queue id'' 400, s)
      | Some i \<Rightarrow>
          (case weFindByID W i (asJournal s) of
             (Inl e, j) \<Rightarrow> (web_error, s\<lparr>asJournal := j\<rparr>)
           | (Inr msg, j) \<Rightarrow>
               (case base_data W ''message'' inp (s\<lparr>asJournal := j\<rparr>) of
                  (b, s') \<Rightarrow>
                    (render W (MessagePage
                       \<lparr>mpBase = b, mpMessage = msg,
                        mpRequeueToken = (if msg = None then [] else web_token W ''requeue'' i (wiNow inp)),
                        mpDeleteToken = (if msg = None then [] else web_token W ''delete'' i (wiNow inp))\<rparr>), s'))))"

definition web_handleRoutes :: "('q, 'j) web_env \<Rightarrow> ('q, 'j) web_handler" where
  "web_handleRoutes W inp r s = (case base_data W ''routes'' inp s of (b, s') \<Rightarrow> (render W (RoutesPage b), s'))"

definition expiryRows :: "Config \<Rightarrow> item list \<Rightarrow> instant \<Rightarrow> expiryRow list" where
  "expiryRows cfg deadlines now =
     (let window = WarnWindow cfg in
      map (\<lambda>it. \<lparr>exWhat = itWhat it, exDetail = itDetail it, exExpires = itExpires it, exDays = DaysUntil (itExpires it) now,
                 exState = (if \<not> itExpires it > now then ''expired''
                            else if window > 0 \<and> itExpires it < now + window then ''soon'' else ''ok'')\<rparr>) deadlines)"

definition web_handleConfig :: "('q, 'j) web_env \<Rightarrow> ('q, 'j) web_handler" where
  "web_handleConfig W inp r s =
     (let rows = expiryRows (weCfg W) (weDeadlines W) (wiNow inp) in
      case base_data W ''config'' inp s of
        (b, s') \<Rightarrow>
          (render W (ConfigPage
             \<lparr>cpBase = b, cpExpiry = rows, cpWarnDays = WarnDays (weCfg W), cpListeners = formatListeners (Listeners (weCfg W)),
              cpClients = formatClients (Clients (weCfg W)), cpRoutes = formatRoutes (Routes (weCfg W)),
              cpBounce = formatBounce (cBounce (weCfg W))\<rparr>), s'))"

section \<open>Actions\<close>

record ('q, 'j) messageAction =
  maName :: string
  maApply :: "('q, 'j) web_env \<Rightarrow> request \<Rightarrow> id \<Rightarrow> string \<Rightarrow> ('q, 'j) desk \<Rightarrow> act_outcome \<times> ('q, 'j) desk"
  maRedirect :: "id \<Rightarrow> string"
  maConfirmAll :: bool

definition requeueMessage :: "('q, 'j) web_env \<Rightarrow> request \<Rightarrow> id \<Rightarrow> string \<Rightarrow> ('q, 'j) desk \<Rightarrow> act_outcome \<times> ('q, 'j) desk" where
  "requeueMessage W r i details d = operator_requeue (weActor W) i ''dashboard'' (SourceAddr (weNet W) r) details d"

definition deleteMessage :: "('q, 'j) web_env \<Rightarrow> request \<Rightarrow> id \<Rightarrow> string \<Rightarrow> ('q, 'j) desk \<Rightarrow> act_outcome \<times> ('q, 'j) desk" where
  "deleteMessage W r i details d = operator_delete (weActor W) i ''dashboard'' (SourceAddr (weNet W) r) details d"

definition requeueAction :: "('q, 'j) messageAction" where
  "requeueAction = \<lparr>maName = ''requeue'', maApply = requeueMessage, maRedirect = (\<lambda>i. ''/messages/'' @ i), maConfirmAll = False\<rparr>"

definition deleteAction :: "('q, 'j) messageAction" where
  "deleteAction = \<lparr>maName = ''delete'', maApply = deleteMessage, maRedirect = (\<lambda>i. ''/queue''), maConfirmAll = True\<rparr>"

definition handleMessageAction :: "('q, 'j) messageAction \<Rightarrow> ('q, 'j) web_env \<Rightarrow> string \<Rightarrow> ('q, 'j) web_handler" where
  "handleMessageAction a W pid inp r s =
     (case Parse pid of
        None \<Rightarrow> (http_Error ''invalid queue id'' 400, s)
      | Some i \<Rightarrow>
          if \<not> csrf_verify (weCrypt W) (weKey W) (FormValue r ''csrf'') (maName a) i (wiNow inp)
          then (http_Error ''invalid or expired form token'' 403, s)
          else case maApply a W r i [] (desk_of s) of
                 (out, d) \<Rightarrow>
                   (case out of
                      Done \<Rightarrow> http_Redirect (maRedirect a i) 303
                    | Cleared \<Rightarrow> http_Redirect (maRedirect a i) 303
                    | Missing \<Rightarrow> http_Error ''message not found'' 404
                    | Busy \<Rightarrow> http_Error ''message is currently being delivered, try again shortly'' 409
                    | Failed \<Rightarrow> http_Error ''internal error'' 500, on_desk d s))"

definition bulkMax :: int where "bulkMax = MaxPageLimit"
definition bulkBudget :: duration where "bulkBudget = 30 * second"

definition activeQueueIDs :: "('q, 'j) web_env \<Rightarrow> 'j \<Rightarrow> (store_err + id list \<times> bool) \<times> 'j" where
  "activeQueueIDs W j =
     (case weFindMessages W \<lparr>mfCommon = no_filter, mfStatus = StatusActive, mfSort = [], mfOrder = [], mfLimit = bulkMax, mfOffset = 0\<rparr> j of
        (Inl e, j') \<Rightarrow> (Inl e, j')
      | (Inr (msgs, truncated), j') \<Rightarrow> (Inr (map (\<lambda>m. rowID (mgRow m)) msgs, truncated), j'))"

primrec parse_all :: "string list \<Rightarrow> id list option" where
  "parse_all [] = Some []"
| "parse_all (v # vs) = (case Parse v of None \<Rightarrow> None | Some i \<Rightarrow> map_option ((#) i) (parse_all vs))"

definition bulkTargets ::
  "('q, 'j) web_env \<Rightarrow> request \<Rightarrow> ('q, 'j) messageAction \<Rightarrow> string \<Rightarrow> 'j \<Rightarrow> (web_reply + id list \<times> bool) \<times> 'j" where
  "bulkTargets W r a scope j =
     (if scope = ''selected'' then
        (let selected = rqForm r ''id'' in
         if int (length selected) > bulkMax then (Inl (http_Error ''too many messages selected'' 400), j)
         else case parse_all selected of
                None \<Rightarrow> (Inl (http_Error ''invalid queue id'' 400), j)
              | Some ids \<Rightarrow> (Inr (ids, False), j))
      else if scope = ''all'' then
        (if maConfirmAll a \<and> PostFormValue r ''confirm'' \<noteq> ''delete-all''
         then (Inl (http_Error ''deleting the whole queue must be confirmed'' 400), j)
         else case activeQueueIDs W j of
                (Inl e, j') \<Rightarrow> (Inl web_error, j')
              | (Inr x, j') \<Rightarrow> (Inr x, j'))
      else (Inl (http_Error ''scope must be selected or all'' 400), j))"

definition tally_outcome :: "act_outcome \<Rightarrow> bulkCounts \<Rightarrow> bulkCounts" where
  "tally_outcome out c =
     (case out of
        Done \<Rightarrow> c\<lparr>bkOK := bkOK c + 1\<rparr>
      | Cleared \<Rightarrow> c\<lparr>bkCleared := bkCleared c + 1\<rparr>
      | Busy \<Rightarrow> c\<lparr>bkBusy := bkBusy c + 1\<rparr>
      | Missing \<Rightarrow> c\<lparr>bkMissing := bkMissing c + 1\<rparr>
      | Failed \<Rightarrow> c\<lparr>bkFailed := bkFailed c + 1\<rparr>)"

text \<open>A check reads whether the request was cancelled and the clock; a list that ends is a client that has gone.\<close>

fun bulk_loop ::
  "(id \<Rightarrow> 'd \<Rightarrow> act_outcome \<times> 'd) \<Rightarrow> instant \<Rightarrow> id list \<Rightarrow> (bool \<times> instant) list \<Rightarrow> bulkCounts \<times> 'd \<Rightarrow> bulkCounts \<times> 'd" where
  "bulk_loop act deadline [] checks cd = cd"
| "bulk_loop act deadline (i # ids) [] (c, d) = (c\<lparr>bkTruncated := True\<rparr>, d)"
| "bulk_loop act deadline (i # ids) ((gone_away, now) # checks) (c, d) =
     (if gone_away \<or> now > deadline then (c\<lparr>bkTruncated := True\<rparr>, d)
      else case act i d of (out, d') \<Rightarrow> bulk_loop act deadline ids checks (tally_outcome out c, d'))"

definition handleQueueBulk :: "('q, 'j) messageAction \<Rightarrow> ('q, 'j) web_env \<Rightarrow> ('q, 'j) web_handler" where
  "handleQueueBulk a W inp r s =
     (if \<not> csrf_verify (weCrypt W) (weKey W) (PostFormValue r (''csrf_'' @ maName a)) (''queue-'' @ maName a) [] (wiNow inp)
      then (http_Error ''invalid or expired form token'' 403, s)
      else let scope = PostFormValue r ''scope'' in
           case bulkTargets W r a scope (asJournal s) of
             (Inl rep, j) \<Rightarrow> (rep, s\<lparr>asJournal := j\<rparr>)
           | (Inr (ids, truncated), j) \<Rightarrow>
               (case bulk_loop (\<lambda>i. maApply a W r i (''bulk ('' @ scope @ '')'')) (wiStart inp + bulkBudget) ids (wiChecks inp)
                       (no_counts\<lparr>bkTruncated := truncated\<rparr>, desk_of (s\<lparr>asJournal := j\<rparr>)) of
                  (c, d) \<Rightarrow> (http_Redirect (''/queue?'' @ values_Encode (bulk_query (maName a) c)) 303, on_desk d s)))"

section \<open>Dispatch\<close>

definition security_headers :: "(string \<times> string) list" where
  "security_headers =
     [(''Content-Security-Policy'', ''default-src '' @ [CHR 0x27] @ ''self'' @ [CHR 0x27] @ ''; script-src '' @ [CHR 0x27] @ ''self'' @
        [CHR 0x27] @ ''; frame-ancestors '' @ [CHR 0x27] @ ''none'' @ [CHR 0x27]),
      (''X-Content-Type-Options'', ''nosniff''), (''X-Frame-Options'', ''DENY''),
      (''Referrer-Policy'', ''strict-origin-when-cross-origin'')]"

definition securityHeaders :: "('q, 'j) web_handler \<Rightarrow> ('q, 'j) web_handler" where
  "securityHeaders nxt inp r s =
     (case nxt inp r s of (rep, s') \<Rightarrow> (rep\<lparr>wrHeaders := security_headers @ wrHeaders rep\<rparr>, s'))"

definition page_missing :: web_reply where "page_missing = http_Error ''404 page not found'' 404"
definition method_refused :: web_reply where "method_refused = http_Error ''Method Not Allowed'' 405"

definition on_get :: "('q, 'j) web_handler \<Rightarrow> ('q, 'j) web_handler" where
  "on_get h inp r s = (if is_get r then h inp r s else (method_refused, s))"

definition on_post :: "('q, 'j) web_handler \<Rightarrow> ('q, 'j) web_handler" where
  "on_post h inp r s = (if rqMethod r = ''POST'' then h inp r s else (method_refused, s))"

definition static_file :: "string \<Rightarrow> string \<Rightarrow> ('q, 'j) web_handler" where
  "static_file typ body inp r s = (served typ body, s)"

text \<open>
  The patterns of \<open>Handler\<close> on the segments of a clean path; a pattern for GET also answers HEAD, and a path that
  only other methods have a pattern for is refused with 405.
\<close>

definition web_mux :: "('q, 'j) web_env \<Rightarrow> string list \<Rightarrow> ('q, 'j) web_handler" where
  "web_mux W path =
     (case path of
        [] \<Rightarrow> on_get (\<lambda>inp r s. (http_Redirect ''/queue'' 302, s))
      | [a] \<Rightarrow>
          if a = ''queue'' then on_get (web_handleQueue W)
          else if a = ''search'' then on_get (web_handleSearch W)
          else if a = ''bounces'' then on_get (web_handleBounces W)
          else if a = ''routes'' then on_get (web_handleRoutes W)
          else if a = ''config'' then on_get (web_handleConfig W)
          else (\<lambda>inp r s. (page_missing, s))
      | [a, b] \<Rightarrow>
          if a = ''messages'' \<and> b \<noteq> [] then on_get (web_handleMessage W b)
          else if a = ''queue'' \<and> b = ''requeue'' then on_post (handleQueueBulk requeueAction W)
          else if a = ''queue'' \<and> b = ''delete'' then on_post (handleQueueBulk deleteAction W)
          else if a = ''static'' \<and> b = ''style.css'' then on_get (static_file ''text/css; charset=utf-8'' (weCSS W))
          else if a = ''static'' \<and> b = ''htmx.min.js'' then on_get (static_file ''text/javascript; charset=utf-8'' (weHTMX W))
          else if a = ''static'' \<and> b = ''queue.js'' then on_get (static_file ''text/javascript; charset=utf-8'' (weQueueJS W))
          else (\<lambda>inp r s. (page_missing, s))
      | [a, b, c] \<Rightarrow>
          if a = ''messages'' \<and> b \<noteq> [] \<and> c = ''requeue'' then on_post (handleMessageAction requeueAction W b)
          else if a = ''messages'' \<and> b \<noteq> [] \<and> c = ''delete'' then on_post (handleMessageAction deleteAction W b)
          else (\<lambda>inp r s. (page_missing, s))
      | _ \<Rightarrow> (\<lambda>inp r s. (page_missing, s)))"

definition web_handler :: "('q, 'j) web_env \<Rightarrow> string list \<Rightarrow> ('q, 'j) web_handler" where
  "web_handler W path = securityHeaders (web_mux W path)"

end
