(* ===== verification/Operator_Access.thy ===== *)
theory Operator_Access
  imports Dashboard
begin

text \<open>
  The composition of the HTTP side, \<open>cmd/smtprelayd/main.go\<close>: the dashboard and the JSON API built on the spool, the
  history store and the metrics registry, mounted on one listener behind the check of the Host header; and who can
  change anything through it.
\<close>

section \<open>Construction\<close>

text \<open>
  What the two servers use of the standard library and of the files embedded in the binary, and what a request
  meets when it asks for the metrics: the registry, the order in which the index is scanned and the time it takes.
\<close>

record http_libs =
  hlCrypt :: crypt
  hlNet :: cfg_env
  hlSQL :: sql
  hlParseTime :: "string \<Rightarrow> instant option"
  hlB64 :: "string \<Rightarrow> string"
  hlUnB64 :: "string \<Rightarrow> string option"
  hlJSON :: "pageCursor \<Rightarrow> string"
  hlUnJSON :: "string \<Rightarrow> pageCursor option"
  hlTemplates :: "(pageData \<Rightarrow> string option) option"
  hlStyle :: string
  hlHTMX :: string
  hlQueueJS :: string

record moment =
  moNow :: instant
  moRegistry :: Registry
  moOrder :: "id list"
  moElapsed :: duration
  moScan :: "fail_table \<Rightarrow> fail_table"

definition moment_status :: "moment \<Rightarrow> spool \<Rightarrow> RouteStatus list \<times> spool" where
  "moment_status m sp = Status (moOrder m) (moElapsed m) (moNow m) (moRegistry m) sp"

definition api_New :: "http_libs \<Rightarrow> Config \<Rightarrow> string \<Rightarrow> moment \<Rightarrow> (spool, store) api_env" where
  "api_New L cfg version m =
     \<lparr>aeCrypt = hlCrypt L, aeNet = hlNet L, aeCfg = cfg, aeScan = moScan m, aeActor = desk_actor,
      aeFindBounces = FindBounceSummaries (hlSQL L), aeFindMessages = FindMessages (hlSQL L), aeFindByID = FindMessageByID,
      aeStatus = moment_status m, aeUptime = Uptime (moNow m) (moRegistry m), aeVersion = version,
      aeParseTime = hlParseTime L, aeB64 = hlB64 L, aeUnB64 = hlUnB64 L, aeJSON = hlJSON L, aeUnJSON = hlUnJSON L\<rparr>"

text \<open>\<open>New\<close> of the dashboard fails when a template does not parse or there is no random key for the form tokens.\<close>

definition web_server ::
  "http_libs \<Rightarrow> Config \<Rightarrow> item list \<Rightarrow> string \<Rightarrow> string \<Rightarrow> (pageData \<Rightarrow> string option) \<Rightarrow> moment \<Rightarrow> (spool, store) web_env" where
  "web_server L cfg deadlines version key execute m =
     \<lparr>weCrypt = hlCrypt L, weNet = hlNet L, weCfg = cfg, weKey = key, weActor = desk_actor,
      weFindMessages = FindMessages (hlSQL L), weFindBounces = FindBounces (hlSQL L), weFindByID = FindMessageByID,
      weStatus = moment_status m, weHas = Has, weDeadlines = deadlines, weVersion = version,
      weCSS = hlStyle L @ themeOverrides (webTheme (cWeb cfg)), weTheme = themeMode (webTheme (cWeb cfg)),
      weHTMX = hlHTMX L, weQueueJS = hlQueueJS L, weParseTime = hlParseTime L, weExecute = execute\<rparr>"

definition web_New ::
  "http_libs \<Rightarrow> Config \<Rightarrow> item list \<Rightarrow> string \<Rightarrow> string option \<Rightarrow> moment \<Rightarrow> string + (spool, store) web_env" where
  "web_New L cfg deadlines version random m =
     (case hlTemplates L of
        None \<Rightarrow> Inl ''web: parse template''
      | Some execute \<Rightarrow>
          (case random of
             None \<Rightarrow> Inl ''web: generating CSRF key''
           | Some key \<Rightarrow> Inr (web_server L cfg deadlines version key execute m)))"

section \<open>The listener\<close>

datatype http_reply = Misdirected int | MovedTo string | ApiReply api_reply | WebReply web_reply

text \<open>
  The mux of \<open>loopbackHandler\<close>: what is below \<open>/api/v1/\<close> goes to the API without that prefix, \<open>/api/v1\<close> itself is
  redirected to it and everything else is the dashboard's.
\<close>

definition loopbackHandler ::
  "(spool, store) web_env \<Rightarrow> (spool, store) api_env \<Rightarrow> web_input \<Rightarrow> request \<Rightarrow> (spool, store) api_state \<Rightarrow>
   http_reply \<times> (spool, store) api_state" where
  "loopbackHandler W A inp r s =
     (case RequireLoopbackHost (aeNet A) r of
        Some code \<Rightarrow> (Misdirected code, s)
      | None \<Rightarrow>
          (case rqPath r of
             a # b # rest \<Rightarrow>
               if a = ''api'' \<and> b = ''v1'' then
                 (if rest = [] then (MovedTo ''/api/v1/'', s)
                  else case api_handler A (wiNow inp) rest r s of (rep, s') \<Rightarrow> (ApiReply rep, s'))
               else (case web_handler W (rqPath r) inp r s of (rep, s') \<Rightarrow> (WebReply rep, s'))
           | _ \<Rightarrow> (case web_handler W (rqPath r) inp r s of (rep, s') \<Rightarrow> (WebReply rep, s'))))"

text \<open>What a form token has to verify for: the action and the message of the path, or the action on the whole queue.\<close>

definition form_authorised :: "crypt \<Rightarrow> string \<Rightarrow> string list \<Rightarrow> request \<Rightarrow> instant \<Rightarrow> bool" where
  "form_authorised C key path r now \<longleftrightarrow>
     (\<exists>act \<in> {''requeue'', ''delete''}.
       (\<exists>i. path = [''messages'', i, act] \<and> csrf_verify C key (FormValue r ''csrf'') act i now) \<or>
       path = [''queue'', act] \<and> csrf_verify C key (PostFormValue r (''csrf_'' @ act)) (''queue-'' @ act) [] now)"

section \<open>Reading changes nothing\<close>

text \<open>What is seen of a state: of its queue and of its journal.\<close>

definition seen :: "('q \<Rightarrow> 'v) \<Rightarrow> ('j \<Rightarrow> 'w) \<Rightarrow> ('q, 'j) api_state \<Rightarrow> 'v \<times> 'w" where
  "seen qv jv s = (qv (asQueue s), jv (asJournal s))"

lemma seen_upd [simp]:
  "seen qv jv (s\<lparr>asJournal := j\<rparr>) = (qv (asQueue s), jv j)" "seen qv jv (s\<lparr>asQueue := q\<rparr>) = (qv q, jv (asJournal s))"
  "seen qv jv (s\<lparr>asFails := l, asRejected := n\<rparr>) = seen qv jv s" "seen qv jv (s\<lparr>asQueue := q, asJournal := j\<rparr>) = (qv q, jv j)"
  by (simp_all add: seen_def)

text \<open>The laws of the reads of each server: nothing that is seen changes.\<close>

locale api_reads =
  fixes A :: "('q, 'j) api_env" and qv :: "'q \<Rightarrow> 'v" and jv :: "'j \<Rightarrow> 'w"
  assumes status_seen: "aeStatus A q = (x, q') \<Longrightarrow> qv q' = qv q"
    and messages_seen: "aeFindMessages A mf j = (y, j') \<Longrightarrow> jv j' = jv j"
    and bounces_seen: "aeFindBounces A bf j = (z, j') \<Longrightarrow> jv j' = jv j"
    and by_id_seen: "aeFindByID A i j = (u, j') \<Longrightarrow> jv j' = jv j"
begin

lemma endpoints_same:
  shows "seen qv jv (snd (handleHealth A r s)) = seen qv jv s" and "seen qv jv (snd (handleBounces A r s)) = seen qv jv s"
    and "seen qv jv (snd (handleMessages A r s)) = seen qv jv s" and "seen qv jv (snd (handleMessage A pid r s)) = seen qv jv s"
    and "seen qv jv (snd (handleQueue A r s)) = seen qv jv s"
  using status_seen messages_seen bounces_seen by_id_seen
  by (auto simp: handleHealth_def handleBounces_def handleMessages_def handleMessage_def handleQueue_def Let_def seen_def [of qv jv s]
      split: prod.splits sum.splits option.splits if_splits)

lemma guarded_changes:
  assumes "seen qv jv (snd (guarded A need now nxt r s)) \<noteq> seen qv jv s"
  shows "\<exists>nm l n. api_auth (aeCrypt A) (aeNet A) (aeCfg A) (aeScan A) need r now (asFails s, asRejected s) = (Granted nm, l, n) \<and>
    seen qv jv (snd (nxt nm r (s\<lparr>asFails := l, asRejected := n\<rparr>))) \<noteq> seen qv jv s"
  using assms by (auto simp: guarded_def Let_def split: prod.splits auth_verdict.splits)

text \<open>The API changes something only for a token whose scope is admin, and only on DELETE or POST.\<close>

lemma api_changes:
  assumes "seen qv jv (snd (api_handler A now path r s)) \<noteq> seen qv jv s"
  shows "rqMethod r \<in> {''DELETE'', ''POST''} \<and>
    (\<exists>nm ln. api_auth (aeCrypt A) (aeNet A) (aeCfg A) (aeScan A) ScopeAdmin r now (asFails s, asRejected s) = (Granted nm, ln))"
proof -
  have same: "seen qv jv (snd (guarded A need now (\<lambda>_. h) r s)) = seen qv jv s"
    if "\<And>s. seen qv jv (snd (h r s)) = seen qv jv s" for need h
    using guarded_changes [of need now "\<lambda>_. h" r s] that by auto
  have admin: "\<exists>nm ln. api_auth (aeCrypt A) (aeNet A) (aeCfg A) (aeScan A) ScopeAdmin r now (asFails s, asRejected s) = (Granted nm, ln)"
    if "seen qv jv (snd (guarded A ScopeAdmin now nxt r s)) \<noteq> seen qv jv s" for nxt
    using guarded_changes [OF that] by blast
  show ?thesis
    using assms admin
    by (auto simp: api_handler_def endpoints_same same split: list.splits if_splits)
qed

end

locale dashboard_reads =
  fixes W :: "('q, 'j) web_env" and qv :: "'q \<Rightarrow> 'v" and jv :: "'j \<Rightarrow> 'w"
  assumes status_seen: "weStatus W q = (x, q') \<Longrightarrow> qv q' = qv q"
    and messages_seen: "weFindMessages W mf j = (y, j') \<Longrightarrow> jv j' = jv j"
    and bounces_seen: "weFindBounces W bf j = (z, j') \<Longrightarrow> jv j' = jv j"
    and by_id_seen: "weFindByID W i j = (u, j') \<Longrightarrow> jv j' = jv j"
begin

lemma base_same: "base_data W page inp s = (b, s') \<Longrightarrow> seen qv jv s' = seen qv jv s"
  using status_seen bounces_seen by (auto simp: base_data_def seen_def [of qv jv s] split: prod.splits)

lemma base_after: "jv j = jv (asJournal s) \<Longrightarrow> seen qv jv (snd (base_data W page inp (s\<lparr>asJournal := j\<rparr>))) = seen qv jv s"
  using base_same [of page inp "s\<lparr>asJournal := j\<rparr>"] by (metis prod.collapse seen_def seen_upd(1))

lemma list_same:
  assumes "\<And>j y j'. query j = (y, j') \<Longrightarrow> jv j' = jv j"
  shows "seen qv jv (snd (filtered_list W name keys v err query page inp r s)) = seen qv jv s"
proof -
  obtain res j where e: "(if err = [] then query (asJournal s) else (Inr ([], False), asJournal s)) = (res, j)" by fastforce
  then have j: "jv j = jv (asJournal s)" using assms by (auto split: if_splits)
  show ?thesis
  proof (cases res)
    case (Inl x)
    then show ?thesis using e j by (simp add: filtered_list_def seen_def)
  next
    case (Inr x)
    then show ?thesis using e base_after [OF j] by (cases x) (simp add: filtered_list_def case_prod_beta Let_def)
  qed
qed

lemma pages_same:
  "seen qv jv (snd (web_handleQueue W inp r s)) = seen qv jv s" "seen qv jv (snd (web_handleSearch W inp r s)) = seen qv jv s"
  "seen qv jv (snd (web_handleBounces W inp r s)) = seen qv jv s" "seen qv jv (snd (web_handleMessage W pid inp r s)) = seen qv jv s"
  "seen qv jv (snd (web_handleRoutes W inp r s)) = seen qv jv s" "seen qv jv (snd (web_handleConfig W inp r s)) = seen qv jv s"
proof -
  let ?f = "\<lparr>mfCommon = no_filter, mfStatus = StatusActive, mfSort = query_Get (rqQuery r) ''sort'',
    mfOrder = query_Get (rqQuery r) ''order'', mfLimit = pageSize, mfOffset = parseOffset (query_Get (rqQuery r) ''offset'')\<rparr>"
  obtain res j where e: "weFindMessages W ?f (asJournal s) = (res, j)" by fastforce
  then have j: "jv j = jv (asJournal s)" using messages_seen by blast
  show "seen qv jv (snd (web_handleQueue W inp r s)) = seen qv jv s"
    using e j base_after [OF j]
    by (cases res) (simp_all add: web_handleQueue_def case_prod_beta Let_def seen_def [of qv jv s])
  show "seen qv jv (snd (web_handleSearch W inp r s)) = seen qv jv s"
    using list_same messages_seen by (auto simp: web_handleSearch_def Let_def split: prod.splits)
  show "seen qv jv (snd (web_handleBounces W inp r s)) = seen qv jv s"
    using list_same bounces_seen by (auto simp: web_handleBounces_def Let_def split: prod.splits)
  have "seen qv jv (snd (web_handleMessage W pid inp r s)) = seen qv jv s" if "Parse pid = Some i" for i
  proof -
    obtain res j where e: "weFindByID W i (asJournal s) = (res, j)" by fastforce
    then have j: "jv j = jv (asJournal s)" using by_id_seen by blast
    show ?thesis using e j base_after [OF j] that
      by (cases res) (simp_all add: web_handleMessage_def case_prod_beta seen_def [of qv jv s] del: Parse_Some)
  qed
  then show "seen qv jv (snd (web_handleMessage W pid inp r s)) = seen qv jv s"
    by (cases "Parse pid") (auto simp: web_handleMessage_def simp del: Parse_Some)
  show "seen qv jv (snd (web_handleRoutes W inp r s)) = seen qv jv s" "seen qv jv (snd (web_handleConfig W inp r s)) = seen qv jv s"
    using base_same by (auto simp: web_handleRoutes_def web_handleConfig_def Let_def split: prod.splits)
qed

lemma targets_same: "bulkTargets W r a scope j = (x, j') \<Longrightarrow> jv j' = jv j"
  using messages_seen
  by (auto simp: bulkTargets_def activeQueueIDs_def Let_def split: prod.splits sum.splits option.splits if_splits)

lemma bulk_changes:
  assumes "seen qv jv (snd (handleQueueBulk a W inp r s)) \<noteq> seen qv jv s"
  shows "csrf_verify (weCrypt W) (weKey W) (PostFormValue r (''csrf_'' @ maName a)) (''queue-'' @ maName a) [] (wiNow inp)"
  using assms by (auto simp: handleQueueBulk_def split: if_splits)

lemma message_changes:
  assumes "seen qv jv (snd (handleMessageAction a W pid inp r s)) \<noteq> seen qv jv s"
  shows "csrf_verify (weCrypt W) (weKey W) (FormValue r ''csrf'') (maName a) pid (wiNow inp)"
  using assms Parse_Some by (auto simp: handleMessageAction_def split: if_splits option.splits)

text \<open>The dashboard changes something only for a POST whose form token verifies.\<close>

lemma web_changes:
  assumes "seen qv jv (snd (web_handler W path inp r s)) \<noteq> seen qv jv s"
  shows "rqMethod r = ''POST'' \<and> form_authorised (weCrypt W) (weKey W) path r (wiNow inp)"
proof -
  have get: "seen qv jv (snd (on_get h inp r s)) = seen qv jv s" if "seen qv jv (snd (h inp r s)) = seen qv jv s" for h
    using that by (simp add: on_get_def)
  have mux: "seen qv jv (snd (web_mux W path inp r s)) \<noteq> seen qv jv s"
    using assms by (auto simp: web_handler_def securityHeaders_def split: prod.splits)
  have post: "rqMethod r = ''POST'' \<and> seen qv jv (snd (h inp r s)) \<noteq> seen qv jv s"
    if "seen qv jv (snd (on_post h inp r s)) \<noteq> seen qv jv s" for h
    using that by (simp add: on_post_def split: if_splits)
  have bulk: "rqMethod r = ''POST'' \<and> csrf_verify (weCrypt W) (weKey W) (PostFormValue r (''csrf_'' @ maName a)) (''queue-'' @ maName a) [] (wiNow inp)"
    if "seen qv jv (snd (on_post (handleQueueBulk a W) inp r s)) \<noteq> seen qv jv s" for a
    using post [OF that] bulk_changes by blast
  have message: "rqMethod r = ''POST'' \<and> csrf_verify (weCrypt W) (weKey W) (FormValue r ''csrf'') (maName a) pid (wiNow inp)"
    if "seen qv jv (snd (on_post (handleMessageAction a W pid) inp r s)) \<noteq> seen qv jv s" for a pid
    using post [OF that] message_changes by blast
  have names: "maName requeueAction = ''requeue''" "maName deleteAction = ''delete''"
    by (simp_all add: requeueAction_def deleteAction_def)
  show ?thesis
    using mux bulk [of requeueAction] bulk [of deleteAction] message [of requeueAction] message [of deleteAction]
    by (auto simp: web_mux_def form_authorised_def get pages_same static_file_def names split: list.splits if_splits)
qed

end

section \<open>The spool and the history store\<close>

text \<open>Of the spool: its files, both indexes, the leases and the totals; of the store: its three tables.\<close>

definition queue_view :: "spool \<Rightarrow> _" where
  "queue_view s = (files s, index s, fIndex s, leased s, indexBytes s, fBytes s, reserved s)"

definition journal_view :: "store \<Rightarrow> _" where
  "journal_view j = (messages j, attempts j, audits j)"

lemma Status_seen: "moment_status m q = (x, q') \<Longrightarrow> queue_view q' = queue_view q"
  by (auto simp: moment_status_def Status_def QueueDepth_def queue_view_def Let_def split: option.splits if_splits prod.splits)

lemma db_call_seen: "db_call s = (ok, s') \<Longrightarrow> journal_view s' = journal_view s"
  using db_call_tables by (simp add: journal_view_def)

lemma FindMessages_seen: "FindMessages q f s = (x, s') \<Longrightarrow> journal_view s' = journal_view s"
  using db_call_seen by (auto simp: FindMessages_def Let_def split: prod.splits bool.splits option.splits)

lemma FindBounces_seen: "FindBounces q f s = (x, s') \<Longrightarrow> journal_view s' = journal_view s"
  using db_call_seen by (auto simp: FindBounces_def Let_def split: prod.splits bool.splits)

lemma FindBounceSummaries_seen: "FindBounceSummaries q f s = (x, s') \<Longrightarrow> journal_view s' = journal_view s"
  using db_call_seen by (auto simp: FindBounceSummaries_def Let_def split: prod.splits bool.splits if_splits)

lemma FindMessageByID_seen: "FindMessageByID i s = (x, s') \<Longrightarrow> journal_view s' = journal_view s"
  by (auto simp: FindMessageByID_def split: prod.splits bool.splits option.splits dest!: db_call_seen)

lemmas reads_seen = Status_seen FindMessages_seen FindBounces_seen FindBounceSummaries_seen FindMessageByID_seen

interpretation api: api_reads "api_New L cfg version m" queue_view journal_view for L cfg version m
  by unfold_locales (auto simp: api_New_def intro: reads_seen)

interpretation web: dashboard_reads "web_server L cfg deadlines version key execute m" queue_view journal_view
  for L cfg deadlines version key execute m
  by unfold_locales (auto simp: web_server_def intro: reads_seen)

section \<open>Who can change anything\<close>

text \<open>The bearer token of a request belongs to a configured token with the admin scope.\<close>

definition admin_bearer :: "crypt \<Rightarrow> Config \<Rightarrow> request \<Rightarrow> bool" where
  "admin_bearer C cfg r \<longleftrightarrow> BearerToken r \<noteq> [] \<and>
     (\<exists>t \<in> set (Tokens (cWeb cfg)). ToLower (tkSHA256 t) = ToLower (sha256hex C (BearerToken r)) \<and> tkScope t = ScopeAdmin)"

text \<open>C27: 
  Whatever is sent to the HTTP listener, the queue and the history change only when the Host header names the loopback
  interface and the request is either a DELETE or POST below \<open>/api/v1\<close> that bears a configured admin token, or a POST
  to the dashboard with a form token that verifies for exactly the action and the message of the path.
\<close>

theorem operator_changes_are_authorised:
  assumes "web_New L cfg deadlines version random m = Inr W" and "A = api_New L cfg version' m"
    and "loopbackHandler W A inp r s = (rep, s')"
    and "queue_view (asQueue s') \<noteq> queue_view (asQueue s) \<or> journal_view (asJournal s') \<noteq> journal_view (asJournal s)"
  shows "HostHeader (hlNet L) (rqHost r) \<and>
    (take 2 (rqPath r) = [''api'', ''v1''] \<and> rqMethod r \<in> {''DELETE'', ''POST''} \<and> admin_bearer (hlCrypt L) cfg r \<or>
     rqMethod r = ''POST'' \<and> (\<exists>key. random = Some key \<and> form_authorised (hlCrypt L) key (rqPath r) r (wiNow inp)))"
proof -
  obtain execute key where W: "random = Some key" "W = web_server L cfg deadlines version key execute m"
    using assms(1) by (auto simp: web_New_def split: option.splits)
  have A: "aeNet A = hlNet L" "aeCrypt A = hlCrypt L" "aeCfg A = cfg"
    and W': "weCrypt W = hlCrypt L" "weKey W = key" using assms(2) W by (simp_all add: api_New_def web_server_def)
  have changed: "seen queue_view journal_view s' \<noteq> seen queue_view journal_view s"
    using assms(4) by (auto simp: seen_def)
  then have host: "HostHeader (hlNet L) (rqHost r)"
    using assms(3) A by (auto simp: loopbackHandler_def RequireLoopbackHost_def split: if_splits)
  have admin: "admin_bearer (hlCrypt L) cfg r"
    if "api_auth (hlCrypt L) (hlNet L) cfg sc ScopeAdmin r now ln = (Granted nm, ln')" for sc now ln nm ln'
    using api_auth_granted [OF that] by (auto simp: admin_bearer_def ScopeSatisfies_def)
  have api: "rqMethod r \<in> {''DELETE'', ''POST''} \<and> admin_bearer (hlCrypt L) cfg r"
    if "api_handler A (wiNow inp) rest r s = (x, s')" for rest x
    using api.api_changes [of L cfg version' m "wiNow inp" rest r s] that changed assms(2) A admin by auto
  have web: "rqMethod r = ''POST'' \<and> form_authorised (hlCrypt L) key (rqPath r) r (wiNow inp)"
    if "web_handler W (rqPath r) inp r s = (x, s')" for x
    using web.web_changes [of L cfg deadlines version key execute m "rqPath r" inp r s] that changed W W' by simp
  show ?thesis
    using assms(3) host api web changed W(1)
    by (auto simp: loopbackHandler_def RequireLoopbackHost_def A split: list.splits if_splits prod.splits)
qed

section \<open>An operator clears an orphaned row\<close>

definition demo_libs :: http_libs where
  "demo_libs = \<lparr>hlCrypt = demo_crypt, hlNet = demo_net,
     hlSQL = \<lparr>sqlLike = (\<lambda>_ _. False), jsonList = (\<lambda>_. []), tie = (\<lambda>rows. rows)\<rparr>, hlParseTime = (\<lambda>_. None),
     hlB64 = (\<lambda>s. s), hlUnB64 = Some, hlJSON = (\<lambda>_. []), hlUnJSON = (\<lambda>_. None), hlTemplates = Some (\<lambda>_. Some ''page''),
     hlStyle = [], hlHTMX = [], hlQueueJS = []\<rparr>"

definition demo_moment :: moment where
  "demo_moment = \<lparr>moNow = second, moRegistry = New_registry [] [] [] 0, moOrder = [], moElapsed = 0, moScan = (\<lambda>l. l)\<rparr>"

definition demo_input :: web_input where
  "demo_input = \<lparr>wiNow = second, wiStart = second, wiChecks = [], wiURI = []\<rparr>"

definition demo_delete :: request where
  "demo_delete = (demo_guess ''right'')\<lparr>rqMethod := ''DELETE'', rqPath := [''api'', ''v1'', ''messages'', demo_id]\<rparr>"

definition demo_state :: "(spool, store) api_state" where
  "demo_state = \<lparr>asQueue = demo_spool [], asJournal = demo_orphan, asLost = 0, asFails = [], asRejected = 0\<rparr>"

definition demo_answer :: "http_reply \<times> (spool, store) api_state" where
  "demo_answer = loopbackHandler
     (web_server demo_libs demo_web [] ''1'' ''k'' (\<lambda>_. Some ''page'') demo_moment) (api_New demo_libs demo_web ''1'' demo_moment)
     demo_input demo_delete demo_state"

theorem operator_changes_are_authorised_witness:
  "fst demo_answer = ApiReply (writeJSON 200 (StatusBody ''cleared'')) \<and> HostHeader demo_net (rqHost demo_delete) \<and>
   (admin_bearer demo_crypt demo_web demo_delete \<or> rqMethod demo_delete = ''POST'')"
proof -
  have reply: "fst demo_answer = ApiReply (writeJSON 200 (StatusBody ''cleared''))" by code_simp
  have "length (audits (asJournal (snd demo_answer))) = 1" "length (audits (asJournal demo_state)) = 0" by code_simp+
  then have c: "journal_view (asJournal (snd demo_answer)) \<noteq> journal_view (asJournal demo_state)"
    by (auto simp: journal_view_def)
  have w: "web_New demo_libs demo_web [] ''1'' (Some ''k'') demo_moment =
      Inr (web_server demo_libs demo_web [] ''1'' ''k'' (\<lambda>_. Some ''page'') demo_moment)"
    by (simp add: web_New_def demo_libs_def)
  show ?thesis
    using operator_changes_are_authorised [OF w refl, of "''1''" demo_input demo_delete demo_state "fst demo_answer" "snd demo_answer"]
      reply c by (auto simp: demo_answer_def demo_libs_def)
qed

end
