(* ===== verification/Serve_Mux.thy ===== *)
theory Serve_Mux
  imports Http_Access
begin

text \<open>
  What \<open>http.ServeMux\<close> does with the one pattern the metrics listener registers: how the text of a pattern is
  read, when \<open>Handle\<close> panics, and which requests the pattern answers. A mux with one pattern has no
  precedence to decide. \<open>wide\<close> tells whether a wildcard name with bytes outside ASCII consists of letters
  and digits.
\<close>

section \<open>Paths\<close>

definition SLASH :: char where "SLASH = CHR ''/''"

definition is_hex :: "char \<Rightarrow> bool" where
  "is_hex c \<longleftrightarrow> is_digit c \<or> (65 \<le> byte c \<and> byte c \<le> (70::nat)) \<or> (97 \<le> byte c \<and> byte c \<le> (102::nat))"

definition hex_val :: "char \<Rightarrow> nat" where
  "hex_val c = (if is_digit c then byte c - 48 else if byte c \<le> (70::nat) then byte c - 55 else byte c - 87)"

fun pct_decode :: "string \<Rightarrow> string option" where
  "pct_decode [] = Some []"
| "pct_decode (c # cs) =
     (if c \<noteq> CHR ''%'' then map_option (Cons c) (pct_decode cs)
      else case cs of
             a # b # rest \<Rightarrow> if is_hex a \<and> is_hex b then map_option (Cons (char_of (16 * hex_val a + hex_val b))) (pct_decode rest) else None
           | _ \<Rightarrow> None)"

text \<open>A text that does not decode stays as it is.\<close>

definition pathUnescape :: "string \<Rightarrow> string" where
  "pathUnescape s = (case pct_decode s of None \<Rightarrow> s | Some t \<Rightarrow> t)"

fun split_slash :: "string \<Rightarrow> string list" where
  "split_slash [] = [[]]"
| "split_slash (c # cs) =
     (if c = SLASH then [] # split_slash cs
      else case split_slash cs of [] \<Rightarrow> [[c]] | s # ss \<Rightarrow> (c # s) # ss)"

definition rooted :: "string list \<Rightarrow> string" where
  "rooted ss = concat (map (\<lambda>s. SLASH # s) ss)"

text \<open>\<open>path.Clean\<close> of a rooted path, and the slash at the end that the mux puts back.\<close>

fun clean_segments :: "string list \<Rightarrow> string list \<Rightarrow> string list" where
  "clean_segments acc [] = rev acc"
| "clean_segments acc (s # ss) =
     (if s = [] \<or> s = ''.'' then clean_segments acc ss
      else if s = ''..'' then clean_segments (drop 1 acc) ss
      else clean_segments (s # acc) ss)"

definition cleanPath :: "string \<Rightarrow> string" where
  "cleanPath p =
     (if p = [] then [SLASH]
      else (let q = (if hd p = SLASH then p else SLASH # p);
                ss = clean_segments [] (split_slash (tl q))
            in if ss = [] then [SLASH] else if last q = SLASH then rooted ss @ [SLASH] else rooted ss))"

section \<open>Patterns\<close>

datatype mux_segment = Literal string | Wild | Multi

record mux_pattern =
  pmMethod :: string
  pmHost :: string
  pmSegments :: "mux_segment list"

definition token_char :: "char \<Rightarrow> bool" where
  "token_char c \<longleftrightarrow> alnum c \<or> c \<in> set ''!#$%&*+-.^_`|~'' \<or> c = CHR 0x27"

definition name_start :: "char \<Rightarrow> bool" where
  "name_start c \<longleftrightarrow> is_upper c \<or> is_lower c \<or> c = CHR ''_''"

definition isValidWildcardName :: "(string \<Rightarrow> bool) \<Rightarrow> string \<Rightarrow> bool" where
  "isValidWildcardName wide s =
     (if list_all (\<lambda>c. byte c < (128::nat)) s
      then s \<noteq> [] \<and> name_start (hd s) \<and> list_all (\<lambda>c. name_start c \<or> is_digit c) (tl s)
      else wide s)"

text \<open>The rest of the path starts with a slash. \<open>None\<close> is an error, on which \<open>Handle\<close> panics.\<close>

function parse_segments :: "(string \<Rightarrow> bool) \<Rightarrow> string list \<Rightarrow> string \<Rightarrow> mux_segment list option" where
  "parse_segments wide seen rest =
     (if rest = [] then Some []
      else if tl rest = [] then Some [Multi]
      else (let seg = takeWhile (\<lambda>c. c \<noteq> SLASH) (tl rest); rest' = dropWhile (\<lambda>c. c \<noteq> SLASH) (tl rest) in
            if CHR ''{'' \<notin> set seg then map_option (Cons (Literal (pathUnescape seg))) (parse_segments wide seen rest')
            else if hd seg \<noteq> CHR ''{'' \<or> last seg \<noteq> CHR ''}'' then None
            else (let name = butlast (tl seg) in
                  if name = ''$'' then (if rest' \<noteq> [] then None else Some [Literal [SLASH]])
                  else (let multi = HasSuffix name ''...''; nm = TrimSuffix name ''...'' in
                        if multi \<and> rest' \<noteq> [] \<or> nm = [] \<or> \<not> isValidWildcardName wide nm \<or> nm \<in> set seen then None
                        else map_option (Cons (if multi then Multi else Wild)) (parse_segments wide (nm # seen) rest')))))"
  by pat_completeness auto

termination
proof (relation "measure (\<lambda>(_, _, r). length r)", goal_cases)
  case (2 wide seen rest)
  have "length (dropWhile (\<lambda>c. c \<noteq> SLASH) (tl rest)) \<le> length (tl rest)" by (rule length_dropWhile_le)
  then show ?case using 2 by (cases rest) auto
next
  case (3 wide seen rest)
  have "length (dropWhile (\<lambda>c. c \<noteq> SLASH) (tl rest)) \<le> length (tl rest)" by (rule length_dropWhile_le)
  then show ?case using 3 by (cases rest) auto
qed simp

declare parse_segments.simps [simp del]

definition blank :: "char \<Rightarrow> bool" where "blank c \<longleftrightarrow> c = CHR '' '' \<or> c = TAB"

definition parsePattern :: "(string \<Rightarrow> bool) \<Rightarrow> string \<Rightarrow> mux_pattern option" where
  "parsePattern wide s =
     (let found = list_ex blank s;
          method = (if found then takeWhile (\<lambda>c. \<not> blank c) s else []);
          rest = (if found then dropWhile blank (dropWhile (\<lambda>c. \<not> blank c) s) else s);
          path = dropWhile (\<lambda>c. c \<noteq> SLASH) rest;
          host = takeWhile (\<lambda>c. c \<noteq> SLASH) rest
      in if s = [] \<or> method \<noteq> [] \<and> \<not> list_all token_char method \<or> path = [] \<or> CHR ''{'' \<in> set host \<or>
            method \<noteq> [] \<and> method \<noteq> ''CONNECT'' \<and> path \<noteq> cleanPath path
         then None
         else map_option (\<lambda>ss. \<lparr>pmMethod = method, pmHost = host, pmSegments = ss\<rparr>) (parse_segments wide [] path))"

section \<open>Matching\<close>

text \<open>The first segment of a path, unescaped, and the rest; a path of only a slash is the segment slash.\<close>

definition firstSegment :: "string \<Rightarrow> string \<times> string" where
  "firstSegment p =
     (if p = [SLASH] then ([SLASH], [])
      else (pathUnescape (takeWhile (\<lambda>c. c \<noteq> SLASH) (tl p)), dropWhile (\<lambda>c. c \<noteq> SLASH) (tl p)))"

text \<open>An empty literal segment shares its place in the tree with the wildcard.\<close>

fun segments_match :: "mux_segment list \<Rightarrow> string \<Rightarrow> bool" where
  "segments_match [] p = (p = [])"
| "segments_match (Multi # ss) p = (p \<noteq> [])"
| "segments_match (Wild # ss) p =
     (p \<noteq> [] \<and> fst (firstSegment p) \<noteq> [SLASH] \<and> segments_match ss (snd (firstSegment p)))"
| "segments_match (Literal s # ss) p =
     (p \<noteq> [] \<and> (fst (firstSegment p) = s \<or> s = [] \<and> fst (firstSegment p) \<noteq> [SLASH]) \<and> segments_match ss (snd (firstSegment p)))"

definition stripHostPort :: "cfg_env \<Rightarrow> string \<Rightarrow> string" where
  "stripHostPort E h =
     (if CHR '':'' \<notin> set h then h else case SplitHostPort E h of None \<Rightarrow> h | Some (host, _) \<Rightarrow> host)"

definition pattern_matches :: "mux_pattern \<Rightarrow> string \<Rightarrow> string \<Rightarrow> string \<Rightarrow> bool" where
  "pattern_matches pt host meth p \<longleftrightarrow> (pmHost pt = [] \<or> pmHost pt = host) \<and>
     (pmMethod pt = [] \<or> pmMethod pt = meth \<or> pmMethod pt = ''GET'' \<and> meth = ''HEAD'') \<and> segments_match (pmSegments pt) p"

definition exactMatch :: "mux_pattern \<Rightarrow> string \<Rightarrow> string \<Rightarrow> string \<Rightarrow> bool" where
  "exactMatch pt host meth p \<longleftrightarrow> pattern_matches pt host meth p \<and>
     (last (pmSegments pt) \<noteq> Multi \<or>
      (p \<noteq> [] \<longrightarrow> last p = SLASH) \<and> length (pmSegments pt) = length (filter (\<lambda>c. c = SLASH) p))"

text \<open>The path without a slash at its end, where only the path with it is registered.\<close>

definition slash_redirect :: "mux_pattern \<Rightarrow> string \<Rightarrow> string \<Rightarrow> string \<Rightarrow> bool" where
  "slash_redirect pt host meth p \<longleftrightarrow> \<not> exactMatch pt host meth p \<and> (p = [] \<or> last p \<noteq> SLASH) \<and> exactMatch pt host meth (p @ [SLASH])"

text \<open>\<open>path\<close> is the escaped path of the request. Anything but the registered handler answers with the status
  alone: a redirect to the cleaned path, a method the pattern does not take, or nothing found.\<close>

datatype mux_answer = Handled | Status int

definition mux_find :: "cfg_env \<Rightarrow> mux_pattern \<Rightarrow> string \<Rightarrow> request \<Rightarrow> mux_answer" where
  "mux_find E pt path r =
     (let meth = rqMethod r;
          connect = (meth = ''CONNECT'');
          host = (if connect then rqHost r else stripHostPort E (rqHost r));
          p = (if connect then path else cleanPath path)
      in if slash_redirect pt host meth p then Status 301
         else if p \<noteq> path then Status 301
         else if pattern_matches pt host meth p then Handled
         else if segments_match (pmSegments pt) p \<and> (pmHost pt = [] \<or> pmHost pt = host) then Status 405
         else Status 404)"

section \<open>Plain paths\<close>

text \<open>A path such as /metrics: no wildcard, no escape, no blank, no empty segment and no slash at the end.\<close>

definition plain_path :: "string \<Rightarrow> bool" where
  "plain_path p \<longleftrightarrow> p \<noteq> [] \<and> hd p = SLASH \<and> [] \<notin> set (split_slash (tl p)) \<and>
     set p \<inter> {CHR ''{'', CHR ''%'', CHR '' '', TAB} = {}"

lemma split_slash_not_Nil [simp]: "split_slash s \<noteq> []"
  by (cases s) (auto split: list.split)

lemma split_slash_rooted: "rooted (split_slash s) = SLASH # s"
proof (induction s)
  case (Cons c s)
  then show ?case by (cases "split_slash s") (auto simp: rooted_def)
qed (simp add: rooted_def)

lemma split_slash_parts: "x \<in> set (split_slash s) \<Longrightarrow> SLASH \<notin> set x \<and> set x \<subseteq> set s"
proof (induction s arbitrary: x)
  case (Cons c s)
  obtain y ys where y: "split_slash s = y # ys" by (cases "split_slash s") auto
  show ?case
  proof (cases "c = SLASH")
    case True
    then show ?thesis using Cons by auto
  next
    case False
    then show ?thesis using Cons.IH [of y] Cons.IH [of x] Cons.prems by (auto simp: y)
  qed
qed simp

lemma pct_decode_plain: "CHR ''%'' \<notin> set s \<Longrightarrow> pct_decode s = Some s"
  by (induction s) auto

lemma pathUnescape_plain [simp]: "CHR ''%'' \<notin> set s \<Longrightarrow> pathUnescape s = s"
  by (simp add: pathUnescape_def pct_decode_plain)

text \<open>A plain segment and what follows it.\<close>

lemma rooted_cut:
  assumes "SLASH \<notin> set s"
  shows "takeWhile (\<lambda>c. c \<noteq> SLASH) (s @ rooted ss) = s" "dropWhile (\<lambda>c. c \<noteq> SLASH) (s @ rooted ss) = rooted ss"
proof -
  have "takeWhile (\<lambda>c. c \<noteq> SLASH) (rooted ss) = []" "dropWhile (\<lambda>c. c \<noteq> SLASH) (rooted ss) = rooted ss"
    by (cases ss; simp add: rooted_def)+
  then show "takeWhile (\<lambda>c. c \<noteq> SLASH) (s @ rooted ss) = s" "dropWhile (\<lambda>c. c \<noteq> SLASH) (s @ rooted ss) = rooted ss"
    using assms by (simp_all add: takeWhile_append2 dropWhile_append2 takeWhile_append dropWhile_append)
qed

lemma parse_segments_plain:
  "\<forall>s \<in> set ss. s \<noteq> [] \<and> set s \<inter> {SLASH, CHR ''{'', CHR ''%''} = {} \<Longrightarrow> parse_segments wide seen (rooted ss) = Some (map Literal ss)"
proof (induction ss)
  case Nil
  then show ?case by (simp add: rooted_def parse_segments.simps [of wide seen "[]"])
next
  case (Cons s ss)
  have s: "s \<noteq> []" "SLASH \<notin> set s" "CHR ''{'' \<notin> set s" "CHR ''%'' \<notin> set s" using Cons.prems by auto
  have r: "rooted (s # ss) = SLASH # (s @ rooted ss)" by (simp add: rooted_def)
  show ?case
    using Cons s by (subst parse_segments.simps) (simp add: r rooted_cut)
qed

lemma segments_match_plain:
  "\<forall>s \<in> set ss. s \<noteq> [] \<and> SLASH \<notin> set s \<Longrightarrow> p = [] \<or> hd p = SLASH \<Longrightarrow> CHR ''%'' \<notin> set p \<Longrightarrow>
   segments_match (map Literal ss) p = (p = rooted ss)"
proof (induction ss arbitrary: p)
  case (Cons s ss)
  have s: "s \<noteq> []" "SLASH \<notin> set s" using Cons.prems(1) by simp_all
  have r: "rooted (s # ss) = SLASH # (s @ rooted ss)" by (simp add: rooted_def)
  show ?case
  proof (cases "p = []")
    case True
    then show ?thesis by (simp add: r)
  next
    case ne: False
    then obtain q where p: "p = SLASH # q" using Cons.prems(2) by (cases p) simp_all
    let ?seg = "takeWhile (\<lambda>c. c \<noteq> SLASH) q" and ?rest = "dropWhile (\<lambda>c. c \<noteq> SLASH) q"
    have "CHR ''%'' \<notin> set q" using Cons.prems(3) by (simp add: p)
    then have pc: "CHR ''%'' \<notin> set ?seg" "CHR ''%'' \<notin> set ?rest" by (meson set_takeWhileD set_dropWhileD)+
    have hd: "?rest = [] \<or> hd ?rest = SLASH" using hd_dropWhile [of "\<lambda>c. c \<noteq> SLASH" q] by blast
    show ?thesis
    proof (cases "q = []")
      case True
      have "[SLASH] \<noteq> s" using s(2) by auto
      then show ?thesis using True s(1) by (simp add: p firstSegment_def r)
    next
      case False
      then have f: "firstSegment p = (?seg, ?rest)" using pc(1) by (simp add: p firstSegment_def)
      have ih: "segments_match (map Literal ss) ?rest = (?rest = rooted ss)"
        by (rule Cons.IH) (use Cons.prems(1) hd pc in auto)
      have "q = s @ rooted ss \<longleftrightarrow> ?seg = s \<and> ?rest = rooted ss"
        using rooted_cut [OF s(2), of ss] takeWhile_dropWhile_id [of "\<lambda>c. c \<noteq> SLASH" q] by metis
      then show ?thesis using s(1) f ih ne by (simp add: r p)
    qed
  qed
qed (simp add: rooted_def)

text \<open>The pattern of a plain path parses, and answers that path and no other.\<close>

lemma plain_pattern:
  assumes "plain_path p"
  shows "\<exists>ss. parsePattern wide p = Some \<lparr>pmMethod = [], pmHost = [], pmSegments = ss\<rparr> \<and>
    (\<forall>q. hd q = SLASH \<longrightarrow> CHR ''%'' \<notin> set q \<longrightarrow> segments_match ss q = (q = p))"
proof -
  let ?ss = "split_slash (tl p)"
  have p: "p = SLASH # tl p" "p \<noteq> []" using assms by (cases p; simp add: plain_path_def)+
  have r: "rooted ?ss = p" using split_slash_rooted p(1) by metis
  have clean: "\<forall>s \<in> set ?ss. s \<noteq> [] \<and> set s \<inter> {SLASH, CHR ''{'', CHR ''%''} = {}"
  proof
    fix s assume s: "s \<in> set ?ss"
    then have "SLASH \<notin> set s" "set s \<subseteq> set (tl p)" using split_slash_parts by blast+
    moreover have "set (tl p) \<subseteq> set p" by (cases p) auto
    ultimately show "s \<noteq> [] \<and> set s \<inter> {SLASH, CHR ''{'', CHR ''%''} = {}" using assms s by (auto simp: plain_path_def)
  qed
  have nb: "\<not> list_ex blank p" using assms by (auto simp: plain_path_def list_ex_iff blank_def)
  have "takeWhile (\<lambda>c. c \<noteq> SLASH) p = []" "dropWhile (\<lambda>c. c \<noteq> SLASH) p = p"
    using assms by (cases p; simp add: plain_path_def)+
  moreover have "SLASH \<in> set p" using p(1) by (metis list.set_intros(1))
  ultimately have "parsePattern wide p = Some \<lparr>pmMethod = [], pmHost = [], pmSegments = map Literal ?ss\<rparr>"
    using parse_segments_plain [OF clean, of wide "[]"] nb p(2) by (simp add: parsePattern_def Let_def r)
  moreover have "segments_match (map Literal ?ss) q = (q = p)" if "hd q = SLASH" "CHR ''%'' \<notin> set q" for q
    using segments_match_plain [of ?ss q] clean that r by auto
  ultimately show ?thesis by blast
qed

end
