(* ===== verification/Metrics_Endpoint.thy ===== *)
theory Metrics_Endpoint
  imports Http_Limits Metrics_Registry Listener_Start Serve_Mux
begin

text \<open>
  \<open>internal/metrics/http.go\<close> and \<open>Serve\<close> of \<open>internal/httpx/httpx.go\<close>: who may read the metrics. A listener on the
  loopback interface answers in the clear to whoever names it by a loopback Host; any other is served over TLS and
  asks for a bearer token with read scope. The configured path is a pattern of the mux, which can match more than
  itself, and which can be malformed.
\<close>

section \<open>Serving\<close>

text \<open>The first of the two events \<open>Serve\<close> waits for: the cancelled context, with what \<open>Shutdown\<close> returns, or the end
  of the accept loop.\<close>

datatype serve_end = CtxDone "string option" | AcceptEnded "string option" | ServerClosed

fun httpx_Serve :: "serve_end \<Rightarrow> string option" where
  "httpx_Serve (CtxDone shutdown) = shutdown"
| "httpx_Serve (AcceptEnded err) = err"
| "httpx_Serve ServerClosed = None"

record metrics_reply =
  mrStatus :: int
  mrHeaders :: "(string \<times> string) list"
  mrBody :: string

definition metrics_Error :: "string \<Rightarrow> int \<Rightarrow> (string \<times> string) list \<Rightarrow> metrics_reply" where
  "metrics_Error msg code hs =
     \<lparr>mrStatus = code, mrHeaders = hs @ [(''Content-Type'', ''text/plain; charset=utf-8'')], mrBody = msg @ [LF]\<rparr>"

text \<open>\<open>render\<close> is \<open>text\<close> of the registry on the spool: rendering can refresh the cached queue depths.\<close>

definition Registry_ServeHTTP :: "('q \<Rightarrow> string \<times> 'q) \<Rightarrow> request \<Rightarrow> 'q \<Rightarrow> metrics_reply \<times> 'q" where
  "Registry_ServeHTTP render r q =
     (if rqMethod r \<noteq> ''GET'' \<and> rqMethod r \<noteq> ''HEAD'' then (metrics_Error ''method not allowed'' 405 [], q)
      else let hs = [(''Content-Type'', ''text/plain; version=0.0.4; charset=utf-8'')] in
           if rqMethod r = ''HEAD'' then (\<lparr>mrStatus = 200, mrHeaders = hs, mrBody = []\<rparr>, q)
           else case render q of (body, q') \<Rightarrow> (\<lparr>mrStatus = 200, mrHeaders = hs, mrBody = body\<rparr>, q'))"

definition requireToken ::
  "crypt \<Rightarrow> Config \<Rightarrow> (request \<Rightarrow> 'q \<Rightarrow> metrics_reply \<times> 'q) \<Rightarrow> request \<Rightarrow> 'q \<Rightarrow> metrics_reply \<times> 'q" where
  "requireToken C cfg nxt r q =
     (let refused = (metrics_Error ''unauthorized'' 401
            [(''WWW-Authenticate'', ''Bearer realm='' @ [DQUOTE] @ ''smtprelayd'' @ [DQUOTE])], q) in
      case MatchToken C (Tokens (cWeb cfg)) (BearerToken r) of
        None \<Rightarrow> refused
      | Some t \<Rightarrow> if \<not> ScopeSatisfies (tkScope t) ScopeRead then refused else nxt r q)"

definition isPublic :: "cfg_env \<Rightarrow> Config \<Rightarrow> bool" where
  "isPublic E cfg = (case SplitHostPort E (metAddress (cMetrics cfg)) of
     Some (host, _) \<Rightarrow> \<not> loopback_Host E host | None \<Rightarrow> True)"

text \<open>How the listener is served: over TLS with a minimum version or in the clear, and what answers a request with a
  given escaped path.\<close>

record 'q metrics_server =
  msTLS :: "int option"
  msHandler :: "string \<Rightarrow> request \<Rightarrow> 'q \<Rightarrow> metrics_reply \<times> 'q"

text \<open>What the mux answers by itself, its text and the target of a redirect left out.\<close>

definition mux_reply :: "int \<Rightarrow> metrics_reply" where "mux_reply code = metrics_Error [] code []"

text \<open>\<open>None\<close> is the panic of \<open>Handle\<close> on a malformed pattern.\<close>

definition metrics_Serve ::
  "crypt \<Rightarrow> cfg_env \<Rightarrow> (string \<Rightarrow> bool) \<Rightarrow> Config \<Rightarrow> bool \<Rightarrow> ('q \<Rightarrow> string \<times> 'q) \<Rightarrow> (string + 'q metrics_server) option" where
  "metrics_Serve C E wide cfg cert render =
     (let public = isPublic E cfg in
      if public \<and> \<not> cert then Some (Inl ''metrics: a non-loopback address requires a TLS certificate'')
      else let handler = (if public then requireToken C cfg (Registry_ServeHTTP render)
                          else (\<lambda>r q. case RequireLoopbackHost E r of
                                  Some code \<Rightarrow> (metrics_Error ''misdirected request'' code [], q)
                                | None \<Rightarrow> Registry_ServeHTTP render r q))
           in case parsePattern wide (metPath (cMetrics cfg)) of
                None \<Rightarrow> None
              | Some pt \<Rightarrow>
                  Some (Inr \<lparr>msTLS = (if public then Some VersionTLS12 else None),
                    msHandler = (\<lambda>path r q. case mux_find E pt path r of
                        Handled \<Rightarrow> handler r q
                      | Status code \<Rightarrow> (mux_reply code, q))\<rparr>))"

section \<open>What the validator says of the service\<close>

lemma accepted_service:
  assumes "snd (Validate E c0) = []" and "c = fst (Validate E c0)"
  shows "errs (v_service E c newValidator) = []" and "\<exists>v. errs (v_metrics E c v) = []" and "\<exists>v. errs (v_web E c v) = []"
proof -
  define v1 where "v1 = v_service E c newValidator"
  define v3 where "v3 = v_tls E c (v_listeners E c v1)"
  define v7 where "v7 = v_queue c (v_clientRoutes (Clients c) (v_routes E c (v_clients E c v3)))"
  define v8 where "v8 = v_web E c v7"
  define v12 where "v12 = v_canaries c (v_bounce c (v_history c (v_metrics E c v8)))"
  have c: "c = Normalize (osHostname E) c0" using assms(2) by (simp add: Validate_def Let_def)
  have e: "errs (v_limits c v12) = []"
    using assms(1) unfolding Validate_def Let_def snd_conv c [symmetric]
      v1_def [symmetric] v3_def [symmetric] v7_def [symmetric] v8_def [symmetric] v12_def [symmetric] .
  from v_limits_ok [OF e] have m: "errs (v_metrics E c v8) = []"
    unfolding v12_def by (metis laterD v_canaries_later v_bounce_later v_history_later)
  then show "\<exists>v. errs (v_metrics E c v) = []" by blast
  from m have w: "errs (v_web E c v7) = []" unfolding v8_def [symmetric] by (metis laterD v_metrics_later)
  then show "\<exists>v. errs (v_web E c v) = []" by blast
  from w have "errs v7 = []" by (metis laterD v_web_later)
  then have "errs (v_clients E c v3) = []"
    using v_queue_ok v_clientRoutes_ok v_routes_earlier unfolding v7_def by blast
  then have "errs (v_listeners E c v1) = []"
    using v_clients_earlier v_tls_ok unfolding v3_def by blast
  then show "errs (v_service E c newValidator) = []"
    using v_listener_loop_ok errs_refuse unfolding v_listeners_def v1_def by blast
qed

lemma Validate_normal [simp]:
  "cTLS (fst (Validate E c)) = cTLS c" "cMetrics (fst (Validate E c)) = cMetrics c"
  by (simp_all add: Validate_def Normalize_def Let_def)

lemma accepted_metrics:
  assumes "snd (Validate E c0) = []" and "c = fst (Validate E c0)" and "metEnabled (cMetrics c)" and "isPublic E c"
  shows "CertFile (cTLS c) \<noteq> []" and "HasReadableToken c"
  using accepted_service(2) [OF assms(1,2)] assms(3,4)
  by (auto simp: v_metrics_def isPublic_def Let_def no_errs split: option.splits)

section \<open>Property\<close>

lemma requireToken_passes:
  assumes "requireToken C cfg nxt r q = (rep, q')" and "mrStatus rep \<noteq> 401"
  shows "(\<exists>t \<in> set (Tokens (cWeb cfg)). ToLower (tkSHA256 t) = ToLower (sha256hex C (BearerToken r)) \<and>
      ScopeSatisfies (tkScope t) ScopeRead) \<and> nxt r q = (rep, q')"
  using assms MatchToken_sound [of C "Tokens (cWeb cfg)" "BearerToken r"]
  by (auto simp: requireToken_def metrics_Error_def Let_def split: option.splits if_splits)

lemma mux_find_handled:
  "mux_find E pt path r = Handled \<Longrightarrow> rqMethod r \<noteq> ''CONNECT'' \<Longrightarrow> path = cleanPath path \<and> segments_match (pmSegments pt) path"
  by (auto simp: mux_find_def Let_def pattern_matches_def split: if_splits)

lemma mux_find_status: "mux_find E pt path r = Status code \<Longrightarrow> code \<noteq> 200"
  by (auto simp: mux_find_def Let_def split: if_splits)

lemma cleanPath_rooted: "hd (cleanPath p) = SLASH"
  by (auto simp: cleanPath_def rooted_def Let_def neq_Nil_conv)

lemma Registry_200: "Registry_ServeHTTP render r q = (rep, q') \<Longrightarrow> mrStatus rep = 200 \<Longrightarrow> rqMethod r \<in> {''GET'', ''HEAD''}"
  by (auto simp: Registry_ServeHTTP_def metrics_Error_def split: if_splits)

text \<open>C32: The metrics of an accepted configuration are guarded. With the certificate it names, an accepted configuration
  always gets its metrics listener, unless its path is a pattern the mux refuses, and then \<open>Serve\<close> panics; a
  plain path such as /metrics is never refused. What the listener answers with 200 is a GET or HEAD of a clean
  path that the pattern matches - where the pattern is a plain path and the request has no escapes, of exactly
  that path - and it came either over TLS with a token that can read, or to the loopback interface under a
  loopback name.\<close>

theorem metrics_are_guarded:
  assumes ok: "snd (Validate E c0) = []" "c = fst (Validate E c0)" and on: "metEnabled (cMetrics c)"
    and cert: "loadCertificate E c = Inr cert"
  shows "case metrics_Serve C E wide c cert render of
      None \<Rightarrow> parsePattern wide (metPath (cMetrics c)) = None \<and> \<not> plain_path (metPath (cMetrics c))
    | Some (Inl e) \<Rightarrow> False
    | Some (Inr sv) \<Rightarrow> (\<exists>pt. parsePattern wide (metPath (cMetrics c)) = Some pt \<and>
        (\<forall>path r q rep q'. msHandler sv path r q = (rep, q') \<and> mrStatus rep = 200 \<longrightarrow>
          rqMethod r \<in> {''GET'', ''HEAD''} \<and> path = cleanPath path \<and> segments_match (pmSegments pt) path \<and>
          (plain_path (metPath (cMetrics c)) \<and> CHR ''%'' \<notin> set path \<longrightarrow> path = metPath (cMetrics c)) \<and>
          (if isPublic E c
           then msTLS sv = Some VersionTLS12 \<and> (\<exists>t \<in> set (Tokens (cWeb c)).
             ToLower (tkSHA256 t) = ToLower (sha256hex C (BearerToken r)) \<and> ScopeSatisfies (tkScope t) ScopeRead)
           else HostHeader E (rqHost r))))"
proof -
  have certified: "isPublic E c \<Longrightarrow> cert"
    using accepted_metrics(1) [OF ok on] cert by (auto simp: loadCertificate_def split: if_splits)
  let ?handler = "if isPublic E c then requireToken C c (Registry_ServeHTTP render)
    else (\<lambda>r q. case RequireLoopbackHost E r of Some code \<Rightarrow> (metrics_Error ''misdirected request'' code [], q)
      | None \<Rightarrow> Registry_ServeHTTP render r q)"
  note plain = plain_pattern [of "metPath (cMetrics c)" wide]
  show ?thesis
  proof (cases "parsePattern wide (metPath (cMetrics c))")
    case None
    then show ?thesis using certified plain by (auto simp: metrics_Serve_def Let_def)
  next
    case (Some pt)
    define sv where "sv = \<lparr>msTLS = (if isPublic E c then Some VersionTLS12 else None),
      msHandler = (\<lambda>path r q. case mux_find E pt path r of Handled \<Rightarrow> ?handler r q | Status code \<Rightarrow> (mux_reply code, q))\<rparr>"
    have s: "metrics_Serve C E wide c cert render = Some (Inr sv)"
      using Some certified by (auto simp: metrics_Serve_def Let_def sv_def)
    have "rqMethod r \<in> {''GET'', ''HEAD''} \<and> path = cleanPath path \<and> segments_match (pmSegments pt) path \<and>
        (plain_path (metPath (cMetrics c)) \<and> CHR ''%'' \<notin> set path \<longrightarrow> path = metPath (cMetrics c)) \<and>
        (if isPublic E c
         then msTLS sv = Some VersionTLS12 \<and> (\<exists>t \<in> set (Tokens (cWeb c)).
           ToLower (tkSHA256 t) = ToLower (sha256hex C (BearerToken r)) \<and> ScopeSatisfies (tkScope t) ScopeRead)
         else HostHeader E (rqHost r))"
      if h: "msHandler sv path r q = (rep, q')" "mrStatus rep = 200" for path r q rep q'
    proof -
      have f: "mux_find E pt path r = Handled"
        using h mux_find_status by (cases "mux_find E pt path r") (auto simp: sv_def mux_reply_def metrics_Error_def)
      then have a: "?handler r q = (rep, q')" using h(1) by (simp add: sv_def)
      have g: "Registry_ServeHTTP render r q = (rep, q') \<and> (if isPublic E c
         then msTLS sv = Some VersionTLS12 \<and> (\<exists>t \<in> set (Tokens (cWeb c)).
           ToLower (tkSHA256 t) = ToLower (sha256hex C (BearerToken r)) \<and> ScopeSatisfies (tkScope t) ScopeRead)
         else HostHeader E (rqHost r))"
      proof (cases "isPublic E c")
        case True
        then show ?thesis using a h(2) requireToken_passes [of C c "Registry_ServeHTTP render" r q rep q'] by (simp add: sv_def)
      next
        case False
        then show ?thesis using a h(2) by (auto simp: metrics_Error_def RequireLoopbackHost_def split: if_splits)
      qed
      have m: "rqMethod r \<in> {''GET'', ''HEAD''}" using Registry_200 [OF conjunct1 [OF g] h(2)] .
      then have p: "path = cleanPath path" "segments_match (pmSegments pt) path" using mux_find_handled [OF f] by auto
      have "path = metPath (cMetrics c)" if "plain_path (metPath (cMetrics c))" "CHR ''%'' \<notin> set path"
        using plain [OF that(1)] Some p(2) that(2) cleanPath_rooted [of path] p(1) by (metis mux_pattern.select_convs(3) option.inject)
      then show ?thesis using g m p by blast
    qed
    then show ?thesis unfolding s using Some by (simp only: option.case sum.case) blast
  qed
qed

text \<open>Two paths the validator accepts: one the mux refuses, and one that answers every path below it.\<close>

lemma pattern_panics: "parsePattern wide ''/{'' = None"
  by (simp add: parsePattern_def parse_segments.simps SLASH_def blank_def TAB_def)

lemma pattern_subtree: "parsePattern wide ''/metrics/'' = Some \<lparr>pmMethod = [], pmHost = [], pmSegments = [Literal ''metrics'', Multi]\<rparr>"
  "segments_match [Literal ''metrics'', Multi] ''/metrics/anything''"
  by (simp_all add: parsePattern_def parse_segments.simps firstSegment_def SLASH_def blank_def TAB_def)

definition demo_watched :: Config where
  "demo_watched = demo_config\<lparr>cMetrics := \<lparr>metAddress = ''localhost:25'', metPath = ''/metrics'', metEnabled = True\<rparr>\<rparr>"

lemma demo_watched_valid: "snd (Validate demo_cfg_env demo_watched) = []"
  by code_simp

theorem metrics_are_guarded_witness:
  "\<exists>srv. metrics_Serve demo_crypt demo_cfg_env (\<lambda>_. False) (fst (Validate demo_cfg_env demo_watched)) False (\<lambda>q. (''up 1'', q)) =
     Some (Inr (srv :: unit metrics_server))"
proof -
  have "loadCertificate demo_cfg_env (fst (Validate demo_cfg_env demo_watched)) = Inr False"
    "metEnabled (cMetrics (fst (Validate demo_cfg_env demo_watched)))"
    by (simp_all add: loadCertificate_def Validate_normal demo_watched_def demo_config_def Defaults_def)
  note w = metrics_are_guarded [OF demo_watched_valid refl this(2,1), where C = demo_crypt and wide = "\<lambda>_. False" and render = "\<lambda>q::unit. (''up 1'', q)"]
  have "plain_path (metPath (cMetrics (fst (Validate demo_cfg_env demo_watched))))"
    by (simp add: demo_watched_def plain_path_def SLASH_def TAB_def)
  then show ?thesis using w by (auto split: option.splits sum.splits)
qed

end
