(* ===== verification/Service_Run.thy ===== *)
theory Service_Run
  imports Operator_Access Metrics_Endpoint Token_Properties
begin

text \<open>
  \<open>serve\<close> of \<open>cmd/smtprelayd/main.go\<close>: the service from its configuration file to its end. A run is the list of what
  it does that others can see: what it opens and closes, which workers it launches, which sockets it binds and what
  it reports to the caller that waits for the start. Everything the start asks of the outside is in \<open>outside\<close>; the
  components are the models of the other theories. A deferred call is \<open>deferred\<close>, applied in the order Go runs them.
\<close>

section \<open>Events\<close>

datatype worker = DeliveryRun | HousekeepingRun | NotifierRun | CanaryRun string | ExpiryRun | MetricsRun | WebRun

datatype start_err =
    ConfigRefused load_err | EnvironmentRefused string | TimezoneRefused | LogRefused string | CertificateRefused
  | SpoolRefused spool_err | StoreRefused string | SetRefused set_err | TokensRefused goerr | DeliveryRefused goerr
  | CredentialsRejected goerr | MetricsRefused string | WebRefused string | BindRefused string

datatype service_event =
    StartupLogged | LogOpened | LogClosed | SpoolOpened | StoreOpened | StoreClosed | Unverified | Launched worker
  | SocketBound string | SocketsClosed | Ready "start_err option" | Accepting | DeliveryDone | ContextCancelled
  | WorkersDone | Stopped

text \<open>A step leaves its events and goes on with a value or ends with an error.\<close>

type_synonym 'a step = "service_event list \<times> (start_err + 'a)"

definition and_then :: "'a step \<Rightarrow> ('a \<Rightarrow> 'b step) \<Rightarrow> 'b step" where
  "and_then m f = (case m of
     (ev, Inl e) \<Rightarrow> (ev, Inl e)
   | (ev, Inr a) \<Rightarrow> (case f a of (ev', r) \<Rightarrow> (ev @ ev', r)))"

definition deferred :: "(service_event list \<Rightarrow> start_err option \<Rightarrow> service_event list) \<Rightarrow> 'a step \<Rightarrow> 'a step" where
  "deferred f m = (case m of (ev, r) \<Rightarrow> (ev @ f ev (case r of Inl e \<Rightarrow> Some e | Inr _ \<Rightarrow> None), r))"

definition step_check :: "start_err option \<Rightarrow> unit step" where
  "step_check e = ([], case e of None \<Rightarrow> Inr () | Some e \<Rightarrow> Inl e)"

section \<open>The outside\<close>

record outside =
  oxHost :: host
  oxEnv :: cfg_env
  oxDecode :: "string \<Rightarrow> Config \<Rightarrow> string + Config \<times> string list"
  oxMkdirAll :: "string \<Rightarrow> string option"
  oxExecutable :: "string + string"
  oxLogging :: "string \<Rightarrow> string option"
  oxSpool :: spool
  oxNames :: "dir \<Rightarrow> string list"
  oxStore :: "string \<Rightarrow> string option"
  oxToken :: "string \<Rightarrow> token_err + string"
  oxListen :: "string \<Rightarrow> string option"
  oxLibs :: http_libs
  oxRandom :: "string option"
  oxDeadlines :: "item list"
  oxMoment :: moment

section \<open>Steps\<close>

definition load_step :: "outside \<Rightarrow> string \<Rightarrow> Config step" where
  "load_step X path =
     (case LoadConfig (oxHost X) (oxEnv X) (oxDecode X) path of
        (Some cfg, None) \<Rightarrow> ([], Inr cfg)
      | (cfg, e) \<Rightarrow>
          ((case cfg of
              None \<Rightarrow> []
            | Some c \<Rightarrow>
                let d = DataDir (cService c) in
                if d \<noteq> [] \<and> oxMkdirAll X d = None \<and> CheckDir (oxHost X) d = None \<and>
                   oxLogging X (CleanJoin (oxEnv X) d ''smtprelayd-error.log'') = None then [StartupLogged] else []),
           Inl (ConfigRefused (case e of Some x \<Rightarrow> x | None \<Rightarrow> NoFile))))"

text \<open>On Unix \<open>verifyDataDirSecurity\<close> has nothing to add.\<close>

definition verifyDataDirSecurity :: "string \<Rightarrow> string option" where
  "verifyDataDirSecurity d = None"

definition checkEnvironment :: "outside \<Rightarrow> Config \<Rightarrow> string option" where
  "checkEnvironment X cfg =
     (let d = DataDir (cService cfg) in
      case oxMkdirAll X d of
        Some e \<Rightarrow> Some e
      | None \<Rightarrow>
          (case CheckDir (oxHost X) d of
             Some e \<Rightarrow> Some (''data directory: '' @ e)
           | None \<Rightarrow>
               (case verifyDataDirSecurity d of
                  Some e \<Rightarrow> Some (''data directory ACL: '' @ e)
                | None \<Rightarrow>
                    (case oxExecutable X of
                       Inl e \<Rightarrow> Some e
                     | Inr exe \<Rightarrow>
                         (case CheckDir (oxHost X) (pathDir (oxHost X) exe) of
                            Some e \<Rightarrow> Some (''binary directory: '' @ e)
                          | None \<Rightarrow> None)))))"

definition openLog :: "outside \<Rightarrow> Config \<Rightarrow> unit step" where
  "openLog X cfg =
     (case ParseLevel (LogLevel (cService cfg)) of
        None \<Rightarrow> ([], Inl (LogRefused ''service.log_level''))
      | Some level \<Rightarrow>
          (case LogPath (oxEnv X) (DataDir (cService cfg)) (logFile (cLog cfg)) of
             None \<Rightarrow> ([], Inl (LogRefused ''log.file''))
           | Some p \<Rightarrow> (case oxLogging X p of Some e \<Rightarrow> ([], Inl (LogRefused e)) | None \<Rightarrow> ([LogOpened], Inr ()))))"

definition openSpool :: "outside \<Rightarrow> Config \<Rightarrow> spool step" where
  "openSpool X cfg =
     (case Spool_Recovery.Open (oxNames X) (oxSpool X) of
        (Some e, _) \<Rightarrow> ([], Inl (SpoolRefused e))
      | (None, sp) \<Rightarrow>
          ([SpoolOpened], Inr (setRetention (i64 (FailedRetentionHours (cQueue cfg) * hour))
             (quota_set (SpoolMaxGB (cLimits cfg)) (SpoolWarnPercent (cLimits cfg)) sp))))"

text \<open>\<open>store.Open\<close> up to the schema: the calls in their order; the database is closed again when one after its
  opening fails.\<close>

definition store_calls :: "string list" where
  "store_calls = [''mkdir'', ''open'', ''ping'', ''restrict database'', ''restrict -journal'', ''restrict -wal'', ''restrict -shm'', ''schema'']"

definition store_Open :: "(string \<Rightarrow> string option) \<Rightarrow> string option \<times> bool" where
  "store_Open outcome =
     (case find (\<lambda>c. outcome c \<noteq> None) store_calls of
        None \<Rightarrow> (None, False)
      | Some c \<Rightarrow> (Some (''store: '' @ c), c \<noteq> ''mkdir'' \<and> c \<noteq> ''open''))"

definition store_step :: "outside \<Rightarrow> unit step" where
  "store_step X = (case store_Open (oxStore X) of
     (Some e, closed) \<Rightarrow> ((if closed then [StoreOpened, StoreClosed] else []), Inl (StoreRefused e))
   | (None, _) \<Rightarrow> ([StoreOpened], Inr ()))"

definition routeNames_of :: "Config \<Rightarrow> string list" where
  "routeNames_of cfg = map rName (Routes cfg)"

definition canaryNames :: "Config \<Rightarrow> string list" where
  "canaryNames cfg = map cnName (Canaries cfg)"

definition token_answers :: "outside \<Rightarrow> (string \<rightharpoonup> token_source) \<Rightarrow> string \<Rightarrow> (token_err + string) option" where
  "token_answers X m n = (case m n of None \<Rightarrow> None | Some s \<Rightarrow> Some (oxToken X n))"

definition verify_step :: "outside \<Rightarrow> Config \<Rightarrow> (string \<rightharpoonup> token_source) \<Rightarrow> unit step" where
  "verify_step X cfg m =
     (case verifyTokens (token_answers X m) (Routes cfg) of
        (Some e, _) \<Rightarrow> ([], Inl (CredentialsRejected e))
      | (None, None) \<Rightarrow> ([], Inr ())
      | (None, Some _) \<Rightarrow> ([Unverified], Inr ()))"

definition startWorkers :: "Config \<Rightarrow> service_event list" where
  "startWorkers cfg =
     map Launched ([DeliveryRun, HousekeepingRun, NotifierRun] @ map (\<lambda>c. CanaryRun (cnName c)) (Canaries cfg) @ [ExpiryRun])"

definition listen_step :: "outside \<Rightarrow> (string \<Rightarrow> start_err) \<Rightarrow> string \<Rightarrow> unit step" where
  "listen_step X why address =
     (case oxListen X address of Some e \<Rightarrow> ([], Inl (why e)) | None \<Rightarrow> ([SocketBound address], Inr ()))"

definition startHTTP :: "outside \<Rightarrow> Config \<Rightarrow> unit step" where
  "startHTTP X cfg =
     and_then (if metEnabled (cMetrics cfg)
               then and_then (listen_step X MetricsRefused (metAddress (cMetrics cfg))) (\<lambda>_. ([Launched MetricsRun], Inr ()))
               else ([], Inr ()))
       (\<lambda>_. if \<not> webEnabled (cWeb cfg) then ([], Inr ())
            else case web_New (oxLibs X) cfg (oxDeadlines X) ''dev'' (oxRandom X) (oxMoment X) of
                   Inl e \<Rightarrow> ([], Inl (WebRefused e))
                 | Inr ws \<Rightarrow> and_then (listen_step X WebRefused (webAddress (cWeb cfg))) (\<lambda>_. ([Launched WebRun], Inr ())))"

text \<open>\<open>Set.Bind\<close>: when one listener cannot be bound, \<open>Close\<close> closes those before it.\<close>

fun Bind :: "outside \<Rightarrow> Listener list \<Rightarrow> unit step" where
  "Bind X [] = ([], Inr ())"
| "Bind X (l # ls) =
     (case oxListen X (lAddress l) of
        Some e \<Rightarrow> ([SocketsClosed], Inl (BindRefused e))
      | None \<Rightarrow> (case Bind X ls of (ev, r) \<Rightarrow> (SocketBound (lAddress l) # ev, r)))"

section \<open>The service\<close>

fun is_ready :: "service_event \<Rightarrow> bool" where
  "is_ready (Ready e) = True"
| "is_ready e = False"

definition notify :: "bool \<Rightarrow> service_event list \<Rightarrow> start_err option \<Rightarrow> service_event list" where
  "notify awaited ev e = (if awaited \<and> \<not> list_ex is_ready ev then [Ready e] else [])"

text \<open>From the bound listeners on: the accept loops run until the context ends, then the delivery manager stops.\<close>

definition run_service :: "bool \<Rightarrow> unit step" where
  "run_service awaited =
     ((if awaited then [Ready None] else []) @ [Accepting, SocketsClosed, DeliveryDone, Stopped], Inr ())"

definition with_workers :: "outside \<Rightarrow> bool \<Rightarrow> Config \<Rightarrow> unit step" where
  "with_workers X awaited cfg =
     and_then (startWorkers cfg, Inr ()) (\<lambda>_.
     and_then (startHTTP X cfg) (\<lambda>_.
     and_then (Bind X (Listeners cfg)) (\<lambda>_. run_service awaited)))"

definition with_store :: "outside \<Rightarrow> bool \<Rightarrow> Config \<Rightarrow> bool \<Rightarrow> unit step" where
  "with_store X awaited cfg cert =
     (case New_set (ParsePrefix (oxEnv X)) cfg cert of
        Inl e \<Rightarrow> ([], Inl (SetRefused e))
      | Inr ls \<Rightarrow>
          deferred (\<lambda>_ _. [ContextCancelled, WorkersDone])
            (case buildTokenSources (Routes cfg) Map.empty of
               Inl e \<Rightarrow> ([], Inl (TokensRefused e))
             | Inr srcs \<Rightarrow>
                 (case new_routes (Routes cfg) Map.empty of
                    Inl e \<Rightarrow> ([], Inl (DeliveryRefused e))
                  | Inr dm \<Rightarrow> and_then (verify_step X cfg srcs) (\<lambda>_. with_workers X awaited cfg))))"

definition with_log :: "outside \<Rightarrow> bool \<Rightarrow> Config \<Rightarrow> unit step" where
  "with_log X awaited cfg =
     (case loadCertificate (oxEnv X) cfg of
        Inl _ \<Rightarrow> ([], Inl CertificateRefused)
      | Inr cert \<Rightarrow>
          and_then (openSpool X cfg) (\<lambda>sp.
          and_then (store_step X) (\<lambda>_. deferred (\<lambda>_ _. [StoreClosed]) (with_store X awaited cfg cert))))"

definition serve_service :: "outside \<Rightarrow> string \<Rightarrow> bool \<Rightarrow> unit step" where
  "serve_service X path awaited =
     deferred (notify awaited)
       (and_then (load_step X path) (\<lambda>cfg.
        and_then (step_check (map_option EnvironmentRefused (checkEnvironment X cfg))) (\<lambda>_.
        and_then (step_check (if ParseTimezone (oxEnv X) (Timezone (cService cfg)) then None else Some TimezoneRefused)) (\<lambda>_.
        and_then (openLog X cfg) (\<lambda>_. deferred (\<lambda>_ _. [LogClosed]) (with_log X awaited cfg))))))"

section \<open>Chains of steps\<close>

definition fails :: "(start_err \<Rightarrow> bool) \<Rightarrow> 'a step \<Rightarrow> bool" where
  "fails P m \<longleftrightarrow> (\<forall>e. snd m = Inl e \<longrightarrow> P e)"

lemma and_then_cases:
  "and_then m f = (case snd m of Inl e \<Rightarrow> (fst m, Inl e) | Inr a \<Rightarrow> (fst m @ fst (f a), snd (f a)))"
  by (simp add: and_then_def split: prod.splits sum.splits)

lemma deferred_simps [simp]:
  "snd (deferred f m) = snd m" "fst (deferred f m) = fst m @ f (fst m) (case snd m of Inl e \<Rightarrow> Some e | Inr _ \<Rightarrow> None)"
  by (simp_all add: deferred_def split: prod.splits)

named_theorems fails_intros

lemma fails_and_then [fails_intros]: "fails P m \<Longrightarrow> (\<And>a. snd m = Inr a \<Longrightarrow> fails P (f a)) \<Longrightarrow> fails P (and_then m f)"
  by (auto simp: fails_def and_then_cases split: sum.splits)

lemma fails_deferred [fails_intros]: "fails P m \<Longrightarrow> fails P (deferred f m)"
  by (simp add: fails_def)

lemma fails_leaf [fails_intros]: "fails P (ev, Inr a)" "P e \<Longrightarrow> fails P (ev, Inl e)"
  by (simp_all add: fails_def)

text \<open>What only the outside decides: everything but the steps that depend on the configuration alone.\<close>

fun of_outside :: "start_err \<Rightarrow> bool" where
  "of_outside (ConfigRefused e) = False"
| "of_outside TimezoneRefused = False"
| "of_outside (SetRefused e) = False"
| "of_outside (TokensRefused e) = False"
| "of_outside (DeliveryRefused e) = False"
| "of_outside e = True"

section \<open>What a loaded configuration guarantees\<close>

lemma new_routes_ok: "\<forall>r \<in> set rs. route_secure r \<Longrightarrow> \<exists>m'. new_routes rs m = Inr m'"
proof (induction rs arbitrary: m)
  case (Cons r rs)
  then obtain t where "TLSConfig r = Inr t" by (auto simp: route_secure_def TLSConfig_def split: if_splits)
  then show ?case using Cons by simp
qed simp

lemma loaded_facts:
  assumes "LoadConfig H E decode path = (Some cfg, None)"
  shows "ParseTimezone E (Timezone (cService cfg))" and "ParseLevel (LogLevel (cService cfg)) \<noteq> None"
    and "LogPath E (DataDir (cService cfg)) (logFile (cLog cfg)) \<noteq> None"
    and "loadCertificate E cfg = Inr cert \<Longrightarrow> \<exists>ls. New_set (ParsePrefix E) cfg cert = Inr ls"
    and "\<exists>m. buildTokenSources (Routes cfg) Map.empty = Inr m" and "\<exists>m. new_routes (Routes cfg) Map.empty = Inr m"
proof -
  obtain c0 rs where v: "snd (Validate E (c0\<lparr>Routes := rs\<rparr>)) = []" "cfg = fst (Validate E (c0\<lparr>Routes := rs\<rparr>))"
    by (rule LoadConfig_accepted [OF assms])
  from accepted_service(1) [OF v] have s: "errs (v_service E cfg newValidator) = []" .
  show "ParseTimezone E (Timezone (cService cfg))" "ParseLevel (LogLevel (cService cfg)) \<noteq> None"
    "LogPath E (DataDir (cService cfg)) (logFile (cLog cfg)) \<noteq> None"
    using s by (auto simp: v_service_def Let_def no_errs split: if_splits)
  show "\<exists>ls. New_set (ParsePrefix E) cfg cert = Inr ls" if "loadCertificate E cfg = Inr cert"
    using accepted_config_starts [OF v that] by blast
  show "\<exists>m. buildTokenSources (Routes cfg) Map.empty = Inr m"
    using loaded_sources [OF assms] by blast
  show "\<exists>m. new_routes (Routes cfg) Map.empty = Inr m"
    using Validate_ok(4) [OF v] by (rule new_routes_ok)
qed

section \<open>Why a start fails\<close>

lemma steps_outside [fails_intros]:
  "fails of_outside (openSpool X cfg)" "fails of_outside (store_step X)" "fails of_outside (verify_step X cfg m)"
  "fails of_outside (Bind X ls)" "fails of_outside (step_check (map_option EnvironmentRefused e))"
  "fails of_outside (startHTTP X cfg)" "fails of_outside (run_service aw)" "fails of_outside (openLog X cfg)"
proof -
  show "fails of_outside (Bind X ls)"
    by (induction ls) (auto simp: fails_def split: option.splits prod.splits)
  show "fails of_outside (startHTTP X cfg)"
    unfolding startHTTP_def listen_step_def
    by (auto intro!: fails_intros split: option.splits sum.splits)
qed (auto simp: fails_def openSpool_def store_step_def verify_step_def step_check_def run_service_def openLog_def
    split: option.splits prod.splits sum.splits)

lemma with_workers_outside [fails_intros]: "fails of_outside (with_workers X aw cfg)"
  unfolding with_workers_def by (intro fails_intros)

lemma serve_outside:
  assumes l: "LoadConfig (oxHost X) (oxEnv X) (oxDecode X) path = (Some cfg, None)"
  shows "fails of_outside (serve_service X path aw)"
proof -
  obtain m m' where m: "buildTokenSources (Routes cfg) Map.empty = Inr m" and m': "new_routes (Routes cfg) Map.empty = Inr m'"
    using loaded_facts(5,6) [OF l] by blast
  have "fails of_outside (with_store X aw cfg cert)" if c: "loadCertificate (oxEnv X) cfg = Inr cert" for cert
  proof -
    obtain ls where "New_set (ParsePrefix (oxEnv X)) cfg cert = Inr ls" using loaded_facts(4) [OF l c] by blast
    then show ?thesis using m m' by (simp add: with_store_def) (intro fails_intros)
  qed
  then have "fails of_outside (with_log X aw cfg)"
    by (cases "loadCertificate (oxEnv X) cfg") (auto simp: with_log_def intro!: fails_intros)
  moreover have "load_step X path = ([], Inr cfg)" using l by (simp add: load_step_def)
  ultimately show ?thesis
    using loaded_facts(1) [OF l] unfolding serve_service_def
    by (intro fails_intros) (auto simp: step_check_def fails_def)
qed

section \<open>One report, and everything closed behind it\<close>

text \<open>A step that reports nothing and accepts nothing, and one that ends in the running service: it has reported and
  accepted exactly when it did not fail.\<close>

definition quiet :: "'a step \<Rightarrow> bool" where
  "quiet m \<longleftrightarrow> filter is_ready (fst m) = [] \<and> Accepting \<notin> set (fst m)"

definition final :: "bool \<Rightarrow> unit step \<Rightarrow> bool" where
  "final aw m \<longleftrightarrow> filter is_ready (fst m) = (if aw \<and> snd m = Inr () then [Ready None] else []) \<and>
     (Accepting \<in> set (fst m) \<longleftrightarrow> snd m = Inr ())"

lemma final_and_then: "quiet m \<Longrightarrow> (\<And>a. snd m = Inr a \<Longrightarrow> final aw (f a)) \<Longrightarrow> final aw (and_then m f)"
  by (cases "snd m") (auto simp: quiet_def final_def and_then_cases)

lemma quiet_and_then: "quiet m \<Longrightarrow> (\<And>a. snd m = Inr a \<Longrightarrow> quiet (f a)) \<Longrightarrow> quiet (and_then m f)"
  by (cases "snd m") (auto simp: quiet_def and_then_cases)

lemma final_leaf: "final aw ([], Inl e)"
  by (simp add: final_def)

lemma final_deferred:
  "final aw m \<Longrightarrow> (\<And>ev e. filter is_ready (f ev e) = [] \<and> Accepting \<notin> set (f ev e)) \<Longrightarrow> final aw (deferred f m)"
  by (auto simp: final_def)

lemma steps_quiet:
  "quiet (load_step X path)" "quiet (step_check e)" "quiet (openLog X cfg)" "quiet (openSpool X cfg)" "quiet (store_step X)"
  "quiet (verify_step X cfg m)" "quiet (startWorkers cfg, Inr ())" "quiet (startHTTP X cfg)" "quiet (Bind X ls)"
proof -
  show "quiet (Bind X ls)" by (induction ls) (auto simp: quiet_def split: option.splits prod.splits)
  show "quiet (startHTTP X cfg)"
    unfolding startHTTP_def listen_step_def
    by (auto simp: quiet_def intro!: quiet_and_then [unfolded quiet_def] split: option.splits sum.splits)
qed (auto simp: quiet_def load_step_def step_check_def openLog_def openSpool_def store_step_def verify_step_def startWorkers_def Let_def
    split: option.splits prod.splits sum.splits)

lemma with_workers_final: "final aw (with_workers X aw cfg)"
  unfolding with_workers_def
  by (intro final_and_then steps_quiet) (simp add: final_def run_service_def)

lemma with_store_final: "final aw (with_store X aw cfg cert)"
proof -
  have v: "final aw (and_then (verify_step X cfg m) (\<lambda>_. with_workers X aw cfg))" for m
    by (intro final_and_then steps_quiet with_workers_final)
  show ?thesis
    by (auto simp: with_store_def final_leaf v intro!: final_deferred split: sum.splits)
qed

lemma with_log_final: "final aw (with_log X aw cfg)"
proof -
  have "final aw (and_then (openSpool X cfg) (\<lambda>sp. and_then (store_step X) (\<lambda>_. deferred (\<lambda>_ _. [StoreClosed]) (with_store X aw cfg cert))))"
    for cert by (intro final_and_then steps_quiet final_deferred with_store_final) simp
  then show ?thesis by (simp add: with_log_def final_leaf split: sum.splits)
qed

lemma serve_final:
  "\<exists>m. serve_service X path aw = deferred (notify aw) m \<and> final aw m"
proof -
  let ?m = "and_then (load_step X path) (\<lambda>cfg.
        and_then (step_check (map_option EnvironmentRefused (checkEnvironment X cfg))) (\<lambda>_.
        and_then (step_check (if ParseTimezone (oxEnv X) (Timezone (cService cfg)) then None else Some TimezoneRefused)) (\<lambda>_.
        and_then (openLog X cfg) (\<lambda>_. deferred (\<lambda>_ _. [LogClosed]) (with_log X aw cfg)))))"
  have "final aw ?m" by (intro final_and_then steps_quiet final_deferred with_log_final) simp
  then show ?thesis unfolding serve_service_def by blast
qed

lemma serve_reports:
  assumes "serve_service X path aw = (ev, r)"
  shows "filter is_ready ev = (if aw then [Ready (case r of Inl e \<Rightarrow> Some e | Inr _ \<Rightarrow> None)] else [])"
    and "Accepting \<in> set ev \<longleftrightarrow> r = Inr ()"
proof -
  obtain m where m: "serve_service X path aw = deferred (notify aw) m" "final aw m" using serve_final by blast
  have r: "r = snd m" "ev = fst m @ notify aw (fst m) (case r of Inl e \<Rightarrow> Some e | Inr _ \<Rightarrow> None)"
    using assms m(1) by (metis deferred_simps fst_conv snd_conv)+
  have none: "list_ex is_ready l \<longleftrightarrow> filter is_ready l \<noteq> []" for l
    by (induction l) auto
  show "filter is_ready ev = (if aw then [Ready (case r of Inl e \<Rightarrow> Some e | Inr _ \<Rightarrow> None)] else [])"
    using m(2) r by (cases "snd m") (auto simp: final_def notify_def none)
  show "Accepting \<in> set ev \<longleftrightarrow> r = Inr ()" using m(2) r by (auto simp: final_def notify_def)
qed

definition launches :: "service_event list \<Rightarrow> bool" where
  "launches ev \<longleftrightarrow> (\<exists>w. Launched w \<in> set ev)"

lemma launches_append [simp]: "launches (xs @ ys) \<longleftrightarrow> launches xs \<or> launches ys" "\<not> launches []"
  by (auto simp: launches_def)

lemma early_launches [simp]:
  "\<not> launches (fst (load_step X path))" "\<not> launches (fst (step_check e))" "\<not> launches (fst (openLog X cfg))"
  "\<not> launches (fst (openSpool X cfg))" "\<not> launches (fst (store_step X))" "\<not> launches (notify aw ev e)"
  by (auto simp: launches_def load_step_def step_check_def openLog_def openSpool_def store_step_def notify_def Let_def
      split: option.splits prod.splits)

text \<open>Once a worker runs the events end with the four of the orderly end.\<close>

lemma with_store_closes: "launches (fst (with_store X aw cfg cert)) \<Longrightarrow> \<exists>xs. fst (with_store X aw cfg cert) = xs @ [ContextCancelled, WorkersDone]"
  by (auto simp: with_store_def split: sum.splits)

lemma store_step_opened: "snd (store_step X) = Inr () \<Longrightarrow> fst (store_step X) = [StoreOpened]"
  by (auto simp: store_step_def split: prod.splits option.splits)

lemma with_log_closes:
  assumes "launches (fst (with_log X aw cfg))"
  shows "\<exists>xs. fst (with_log X aw cfg) = xs @ [ContextCancelled, WorkersDone, StoreClosed] \<and> StoreOpened \<in> set xs"
proof -
  obtain cert where c: "loadCertificate (oxEnv X) cfg = Inr cert"
    using assms by (cases "loadCertificate (oxEnv X) cfg") (auto simp: with_log_def)
  obtain sp where sp: "snd (openSpool X cfg) = Inr sp"
    using assms c by (cases "snd (openSpool X cfg)") (auto simp: with_log_def and_then_cases)
  have st: "snd (store_step X) = Inr ()"
    using assms c sp by (cases "snd (store_step X)") (auto simp: with_log_def and_then_cases)
  have e: "fst (with_log X aw cfg) = fst (openSpool X cfg) @ [StoreOpened] @ fst (with_store X aw cfg cert) @ [StoreClosed]"
    using c sp st store_step_opened by (simp add: with_log_def and_then_cases)
  then have "launches (fst (with_store X aw cfg cert))" using assms early_launches(4) [of X cfg]
    by (simp add: launches_def)
  from with_store_closes [OF this] e show ?thesis by auto
qed

lemma launched_by:
  assumes "\<not> launches (fst m)" "\<And>a. \<not> launches (fst (f a))" "\<And>a. \<not> launches (fst (g a))" "\<And>a. \<not> launches (fst (h a))"
    and "launches (fst (and_then m (\<lambda>a. and_then (f a) (\<lambda>_. and_then (g a) (\<lambda>_. and_then (h a) (\<lambda>_. b a))))))"
  shows "\<exists>a xs. fst (and_then m (\<lambda>a. and_then (f a) (\<lambda>_. and_then (g a) (\<lambda>_. and_then (h a) (\<lambda>_. b a))))) = xs @ fst (b a) \<and>
    launches (fst (b a))"
proof -
  have "\<exists>a. launches (fst (b a)) \<and> fst (and_then m (\<lambda>a. and_then (f a) (\<lambda>_. and_then (g a) (\<lambda>_. and_then (h a) (\<lambda>_. b a))))) =
      (fst m @ fst (f a) @ fst (g a) @ fst (h a)) @ fst (b a)"
    using assms by (auto simp: and_then_cases split: sum.splits)
  then show ?thesis by blast
qed

lemma serve_closes:
  assumes "serve_service X path aw = (ev, r)" and "launches ev"
  shows "\<exists>xs ys. ev = xs @ [ContextCancelled, WorkersDone, StoreClosed, LogClosed] @ ys \<and> StoreOpened \<in> set xs \<and>
    (\<forall>e \<in> set ys. is_ready e)"
proof -
  define body where "body cfg = deferred (\<lambda>_ _. [LogClosed]) (with_log X aw cfg)" for cfg
  obtain m where m: "ev = fst m @ notify aw (fst m) (case snd m of Inl e \<Rightarrow> Some e | Inr _ \<Rightarrow> None)"
    "m = and_then (load_step X path) (\<lambda>cfg.
        and_then (step_check (map_option EnvironmentRefused (checkEnvironment X cfg))) (\<lambda>_.
        and_then (step_check (if ParseTimezone (oxEnv X) (Timezone (cService cfg)) then None else Some TimezoneRefused)) (\<lambda>_.
        and_then (openLog X cfg) (\<lambda>_. body cfg))))"
    using assms(1) unfolding serve_service_def body_def by (metis deferred_simps(2) fst_conv)
  have l: "launches (fst m)" using assms(2) m(1) by simp
  have "\<exists>cfg xs. fst m = xs @ fst (body cfg) \<and> launches (fst (body cfg))"
    using l unfolding m(2) by (intro launched_by) simp_all
  then obtain cfg xs where b: "fst m = xs @ fst (body cfg)" "launches (fst (body cfg))" by blast
  then have "launches (fst (with_log X aw cfg))" by (simp add: body_def launches_def)
  from with_log_closes [OF this] obtain zs where
    "fst (with_log X aw cfg) = zs @ [ContextCancelled, WorkersDone, StoreClosed]" "StoreOpened \<in> set zs" by blast
  moreover have "\<forall>e \<in> set (notify aw (fst m) e'). is_ready e" for e' by (simp add: notify_def)
  ultimately show ?thesis unfolding m(1)
    by (intro exI [of _ "xs @ zs"] exI [of _ "notify aw (fst m) (case snd m of Inl e \<Rightarrow> Some e | Inr _ \<Rightarrow> None)"])
      (auto simp: body_def b(1))
qed

section \<open>A service that runs\<close>

lemma and_then_ok: "snd (and_then m f) = Inr b \<Longrightarrow> \<exists>a. snd m = Inr a \<and> snd (f a) = Inr b"
  by (auto simp: and_then_cases split: sum.splits)

lemma Bind_ok: "snd (Bind X ls) = Inr () \<Longrightarrow> \<forall>l \<in> set ls. oxListen X (lAddress l) = None"
  by (induction ls) (auto split: option.splits prod.splits)

lemma serve_ok:
  assumes "snd (serve_service X path aw) = Inr ()"
  shows "\<exists>cfg. LoadConfig (oxHost X) (oxEnv X) (oxDecode X) path = (Some cfg, None) \<and>
    guarded_dir (oxHost X) (DataDir (cService cfg)) \<and> (\<forall>l \<in> set (Listeners cfg). oxListen X (lAddress l) = None)"
proof -
  obtain cfg where l: "snd (load_step X path) = Inr cfg"
    and c: "snd (step_check (map_option EnvironmentRefused (checkEnvironment X cfg))) = Inr ()"
    and w: "snd (with_log X aw cfg) = Inr ()"
    using assms unfolding serve_service_def by (auto dest!: and_then_ok)
  have load: "LoadConfig (oxHost X) (oxEnv X) (oxDecode X) path = (Some cfg, None)"
    using l by (auto simp: load_step_def split: prod.splits option.splits)
  have "CheckDir (oxHost X) (DataDir (cService cfg)) = None"
    using c by (auto simp: step_check_def checkEnvironment_def Let_def split: option.splits)
  then have dir: "guarded_dir (oxHost X) (DataDir (cService cfg))"
    by (simp add: CheckDir_def checkTrusted_dir)
  obtain cert where "loadCertificate (oxEnv X) cfg = Inr cert" "snd (with_store X aw cfg cert) = Inr ()"
    using w by (auto simp: with_log_def split: sum.splits dest!: and_then_ok)
  then have "snd (with_workers X aw cfg) = Inr ()"
    by (auto simp: with_store_def split: sum.splits dest!: and_then_ok)
  then have "snd (Bind X (Listeners cfg)) = Inr ()"
    unfolding with_workers_def by (auto dest!: and_then_ok)
  with load dir show ?thesis using Bind_ok by blast
qed

text \<open>C28: However the start goes, a caller that waits for it is told exactly once, of success exactly when the accept loops
  run; whatever was launched is cancelled and waited for before the history store and the log are closed, and
  nothing happens after that but the report; a configuration that the loader accepts is only refused later for
  reasons outside it, never for its timezone, its listeners, its routes or its token sources; and a service that
  runs loaded its configuration, found its data directory guarded and could bind every listener.\<close>

theorem service_start_and_shutdown:
  assumes "serve_service X path awaited = (ev, r)"
  shows "filter is_ready ev = (if awaited then [Ready (case r of Inl e \<Rightarrow> Some e | Inr _ \<Rightarrow> None)] else []) \<and>
    (Accepting \<in> set ev \<longleftrightarrow> r = Inr ()) \<and>
    (launches ev \<longrightarrow> (\<exists>xs ys. ev = xs @ [ContextCancelled, WorkersDone, StoreClosed, LogClosed] @ ys \<and> StoreOpened \<in> set xs \<and>
      (\<forall>e \<in> set ys. is_ready e))) \<and>
    (\<forall>cfg e. LoadConfig (oxHost X) (oxEnv X) (oxDecode X) path = (Some cfg, None) \<and> r = Inl e \<longrightarrow> of_outside e) \<and>
    (r = Inr () \<longrightarrow> (\<exists>cfg. LoadConfig (oxHost X) (oxEnv X) (oxDecode X) path = (Some cfg, None) \<and>
      guarded_dir (oxHost X) (DataDir (cService cfg)) \<and> (\<forall>l \<in> set (Listeners cfg). oxListen X (lAddress l) = None)))"
  using serve_reports [OF assms] serve_closes [OF assms] serve_outside [of X path _ awaited] serve_ok [of X path awaited] assms
  by (auto simp: fails_def)

section \<open>A start that succeeds\<close>

definition demo_world :: host where
  "demo_world = \<lparr>hLstat = (\<lambda>p. Inr \<lparr>fiSymlink = False, fiIsDir = (p \<noteq> ''/c''), fiPerm = 0x1A0, fiUid = Some 0\<rparr>),
     hGetuid = 7, hGetenv = (\<lambda>_. []), hReadFile = (\<lambda>_. Inl ''absent''), pathDir = (\<lambda>_. ''/'')\<rparr>"

definition demo_outside :: outside where
  "demo_outside = \<lparr>oxHost = demo_world, oxEnv = demo_cfg_env, oxDecode = (\<lambda>_ _. Inr (demo_config, [])), oxMkdirAll = (\<lambda>_. None),
     oxExecutable = Inr ''/bin/smtprelayd'', oxLogging = (\<lambda>_. None), oxSpool = demo_spool [], oxNames = (\<lambda>_. []),
     oxStore = (\<lambda>_. None), oxToken = (\<lambda>_. Inl (OtherError (Opaque []))), oxListen = (\<lambda>_. None), oxLibs = demo_libs,
     oxRandom = Some ''k'', oxDeadlines = [], oxMoment = demo_moment\<rparr>"

lemma demo_serves: "snd (serve_service demo_outside ''/c'' True) = Inr ()"
  by code_simp

theorem service_start_and_shutdown_witness:
  "filter is_ready (fst (serve_service demo_outside ''/c'' True)) = [Ready None]"
proof -
  have "serve_service demo_outside ''/c'' True = (fst (serve_service demo_outside ''/c'' True), Inr ())"
    using demo_serves by (metis prod.collapse)
  from service_start_and_shutdown [OF this] show ?thesis by simp
qed

end
