(* ===== verification/Self_Test.thy ===== *)
theory Self_Test
  imports Session_Streams Http_Limits
begin

text \<open>
  \<open>internal/selftest/selftest.go\<close>: the active open-relay check. A probe talks to one listener over a connection,
  which is the bytes the listener has still to be read from, the ones a TLS handshake would open with the certificates
  presented there, and the writes that fail; the messages it would print are constructors. What it concludes is
  compared with the listener's own handlers.
\<close>

section \<open>Connections\<close>

record probe_conn =
  pcIn :: string
  pcAhead :: bool
  pcTLS :: "(string list \<times> string) option"
  pcWrites :: "bool list"
  pcSent :: "string list"
  pcLocal :: "addr option"

datatype probe_err =
    ConnectFailed | WriteFailed | ReadFailed | MalformedReply string | UnexpectedCode int int string
  | NoCertificate | CertificateUnreadable | StartTLSRefused probe_err | DataBeforeHandshake | HandshakeFailed
  | AcceptedUnknown int string | AcceptedUnmatched addr int string | AcceptedCatchAll addr Client

datatype probe_note = RequiresTLS string int string | TemporaryRefusal string int string | AllowlistedSource addr Client

definition probeRecipient :: string where "probeRecipient = ''open-relay-probe@example.net''"

definition probe_send :: "string \<Rightarrow> probe_conn \<Rightarrow> probe_err option \<times> probe_conn" where
  "probe_send line c =
     (case pcWrites c of
        True # fs \<Rightarrow> (Some WriteFailed, c\<lparr>pcWrites := fs\<rparr>)
      | False # fs \<Rightarrow> (None, c\<lparr>pcWrites := fs, pcSent := pcSent c @ [line]\<rparr>)
      | [] \<Rightarrow> (None, c\<lparr>pcSent := pcSent c @ [line]\<rparr>))"

text \<open>\<open>ReadString\<close> up to a line feed; without one it fails.\<close>

definition ReadLF :: "string \<Rightarrow> (string \<times> string) option" where
  "ReadLF s = (if LF \<in> set s then Some (takeWhile (\<lambda>c. c \<noteq> LF) s @ [LF], tl (dropWhile (\<lambda>c. c \<noteq> LF) s)) else None)"

text \<open>\<open>Sscanf\<close> with \<open>%d\<close>: spaces, a sign, digits; what follows is left.\<close>

definition Sscanf_d :: "string \<Rightarrow> int option" where
  "Sscanf_d s0 =
     (let s = dropWhile is_space s0;
          neg = (s \<noteq> [] \<and> hd s = CHR ''-'');
          u = (if s \<noteq> [] \<and> (hd s = CHR ''-'' \<or> hd s = CHR ''+'') then tl s else s);
          ds = takeWhile is_digit u
      in if ds = [] then None
         else map_option (\<lambda>n. if neg then - int n else int n) (digits_value ds 0))"

lemma ReadLF_shorter: "ReadLF s = Some (l, rest) \<Longrightarrow> length rest < length s"
proof -
  assume a: "ReadLF s = Some (l, rest)"
  then have "LF \<in> set s" "rest = tl (dropWhile (\<lambda>c. c \<noteq> LF) s)" by (auto simp: ReadLF_def split: if_splits)
  moreover from this have "dropWhile (\<lambda>c. c \<noteq> LF) s \<noteq> []" by (auto simp: dropWhile_eq_Nil_conv)
  ultimately show ?thesis
    by (metis length_dropWhile_le length_tl diff_Suc_less length_greater_0_conv One_nat_def order_less_le_trans)
qed

function expectAny :: "string \<Rightarrow> (probe_err + int \<times> string) \<times> string" where
  "expectAny s =
     (case ReadLF s of
        None \<Rightarrow> (Inl ReadFailed, [])
      | Some (raw, rest) \<Rightarrow>
          (let line = TrimRightP (\<lambda>c. c = CR \<or> c = LF) raw in
           if length line < 4 then (Inl (MalformedReply line), rest)
           else if line ! 3 = CHR ''-'' then expectAny rest
           else case Sscanf_d (take 3 line) of
                  None \<Rightarrow> (Inl (MalformedReply line), rest)
                | Some code \<Rightarrow> (Inr (code, drop 4 line), rest)))"
  by auto
termination by (relation "measure length") (auto dest: ReadLF_shorter)

declare expectAny.simps [simp del]

definition read_any :: "probe_conn \<Rightarrow> (probe_err + int \<times> string) \<times> probe_conn" where
  "read_any c = (case expectAny (pcIn c) of (r, rest) \<Rightarrow> (r, c\<lparr>pcIn := rest\<rparr>))"

definition expect :: "int \<Rightarrow> probe_conn \<Rightarrow> (probe_err + string) \<times> probe_conn" where
  "expect want c =
     (case read_any c of
        (Inl e, c') \<Rightarrow> (Inl e, c')
      | (Inr (code, line), c') \<Rightarrow> (if code \<noteq> want then Inl (UnexpectedCode want code line) else Inr line, c'))"

definition greet :: "probe_conn \<Rightarrow> probe_err option \<times> probe_conn" where
  "greet c =
     (case probe_send ''EHLO selftest.invalid'' c of
        (Some e, c1) \<Rightarrow> (Some e, c1)
      | (None, c1) \<Rightarrow> (case expect 250 c1 of (Inl e, c2) \<Rightarrow> (Some e, c2) | (Inr _, c2) \<Rightarrow> (None, c2)))"

section \<open>TLS\<close>

text \<open>\<open>read_certs\<close> is the certificates of the PEM blocks of a file; \<open>None\<close> when it cannot be read. The pin replaces the
  verification of the chain: one presented certificate has to be one of the file.\<close>

definition probe_tlsConfig :: "(string \<Rightarrow> string list option) \<Rightarrow> Config \<Rightarrow> probe_err + string list" where
  "probe_tlsConfig read_certs cfg =
     (if CertFile (cTLS cfg) = [] then Inl NoCertificate
      else case read_certs (CertFile (cTLS cfg)) of
             None \<Rightarrow> Inl CertificateUnreadable
           | Some want \<Rightarrow> if want = [] then Inl NoCertificate else Inr want)"

definition handshake :: "string list \<Rightarrow> probe_conn \<Rightarrow> probe_conn option" where
  "handshake want c =
     (case pcTLS c of
        None \<Rightarrow> None
      | Some (presented, rest) \<Rightarrow>
          if list_ex (\<lambda>g. g \<in> set want) presented then Some (c\<lparr>pcIn := rest, pcTLS := None, pcAhead := False\<rparr>) else None)"

definition probe_startTLS :: "(string \<Rightarrow> string list option) \<Rightarrow> Config \<Rightarrow> probe_conn \<Rightarrow> probe_err + probe_conn" where
  "probe_startTLS read_certs cfg c =
     (case probe_tlsConfig read_certs cfg of
        Inl e \<Rightarrow> Inl e
      | Inr want \<Rightarrow>
          (case probe_send ''STARTTLS'' c of
             (Some e, _) \<Rightarrow> Inl e
           | (None, c1) \<Rightarrow>
               (case expect 220 c1 of
                  (Inl e, _) \<Rightarrow> Inl (StartTLSRefused e)
                | (Inr _, c2) \<Rightarrow>
                    if pcAhead c2 \<and> pcIn c2 \<noteq> [] then Inl DataBeforeHandshake
                    else (case handshake want c2 of
                            None \<Rightarrow> Inl HandshakeFailed
                          | Some c3 \<Rightarrow> (case greet c3 of (Some e, _) \<Rightarrow> Inl e | (None, c4) \<Rightarrow> Inr c4)))))"

section \<open>Verdicts\<close>

text \<open>A note and an error, as \<open>probe\<close> returns them.\<close>

type_synonym verdict = "probe_note option \<times> probe_err option"

definition passed :: verdict where "passed = (None, None)"

definition refusalVerdict :: "string \<Rightarrow> int \<Rightarrow> string \<Rightarrow> verdict" where
  "refusalVerdict stage code line =
     (if code = 530 then (Some (RequiresTLS stage code line), None)
      else if code < 500 then (Some (TemporaryRefusal stage code line), None)
      else passed)"

definition acceptedVerdict :: "matcher \<Rightarrow> probe_conn \<Rightarrow> int \<Rightarrow> string \<Rightarrow> verdict" where
  "acceptedVerdict m c code line =
     (case map_option Unmap (pcLocal c) of
        None \<Rightarrow> (None, Some (AcceptedUnknown code line))
      | Some src \<Rightarrow>
          (case Match m src of
             (None, _) \<Rightarrow> (None, Some (AcceptedUnmatched src code line))
           | (Some cl, bits, _) \<Rightarrow>
               if bits = 0 then (None, Some (AcceptedCatchAll src cl)) else (Some (AllowlistedSource src cl), None)))"

text \<open>From the envelope on.\<close>

definition attempt_relay :: "matcher \<Rightarrow> probe_conn \<Rightarrow> verdict" where
  "attempt_relay m c =
     (case probe_send ''MAIL FROM:<probe@selftest.invalid>'' c of
        (Some e, _) \<Rightarrow> (None, Some e)
      | (None, c1) \<Rightarrow>
          (case read_any c1 of
             (Inl e, _) \<Rightarrow> (None, Some e)
           | (Inr (code, line), c2) \<Rightarrow>
               if code \<ge> 400 then refusalVerdict ''MAIL FROM'' code line
               else (case probe_send (''RCPT TO:<'' @ probeRecipient @ ''>'') c2 of
                       (Some e, _) \<Rightarrow> (None, Some e)
                     | (None, c3) \<Rightarrow>
                         (case read_any c3 of
                            (Inl e, _) \<Rightarrow> (None, Some e)
                          | (Inr (code', line'), c4) \<Rightarrow>
                              if code' \<ge> 400 then refusalVerdict ''RCPT TO'' code' line'
                              else acceptedVerdict m (snd (probe_send ''RSET'' c4)) code' line'))))"

definition dialAddress :: "(string \<Rightarrow> (string \<times> string) option) \<Rightarrow> string \<Rightarrow> string" where
  "dialAddress split bind =
     (case split bind of
        None \<Rightarrow> bind
      | Some (host, port) \<Rightarrow>
          (let h = (if host = [] \<or> host = ''0.0.0.0'' \<or> host = ''::'' then ''127.0.0.1'' else host) in
           if CHR '':'' \<in> set h then ''['' @ h @ '']:'' @ port else h @ '':'' @ port))"

text \<open>\<open>dial\<close> is what connecting to an address gives; for implicit TLS the handshake comes first.\<close>

definition dialListener ::
  "cfg_env \<Rightarrow> (string \<Rightarrow> string list option) \<Rightarrow> (string \<Rightarrow> probe_conn option) \<Rightarrow> Config \<Rightarrow> Listener \<Rightarrow> probe_err + probe_conn" where
  "dialListener E read_certs dial cfg l =
     (let addr = dialAddress (SplitHostPort E) (lAddress l) in
      if lTLS l \<noteq> TLSImplicit then (case dial addr of None \<Rightarrow> Inl ConnectFailed | Some c \<Rightarrow> Inr c)
      else case probe_tlsConfig read_certs cfg of
             Inl e \<Rightarrow> Inl e
           | Inr want \<Rightarrow>
               (case dial addr of
                  None \<Rightarrow> Inl ConnectFailed
                | Some c \<Rightarrow> (case handshake want c of None \<Rightarrow> Inl ConnectFailed | Some c' \<Rightarrow> Inr c')))"

definition probe ::
  "cfg_env \<Rightarrow> (string \<Rightarrow> string list option) \<Rightarrow> (string \<Rightarrow> probe_conn option) \<Rightarrow> Config \<Rightarrow> matcher \<Rightarrow> Listener \<Rightarrow> verdict" where
  "probe E read_certs dial cfg m l =
     (case dialListener E read_certs dial cfg l of
        Inl e \<Rightarrow> (None, Some e)
      | Inr c \<Rightarrow>
          (case expect 220 c of
             (Inl e, _) \<Rightarrow> (None, Some e)
           | (Inr _, c1) \<Rightarrow>
               (case greet c1 of
                  (Some e, _) \<Rightarrow> (None, Some e)
                | (None, c2) \<Rightarrow>
                    if lTLS l = TLSStartTLS
                    then (case probe_startTLS read_certs cfg c2 of Inl e \<Rightarrow> (None, Some e) | Inr c3 \<Rightarrow> attempt_relay m c3)
                    else attempt_relay m c2)))"

fun probe_all :: "(Listener \<Rightarrow> verdict) \<Rightarrow> Listener list \<Rightarrow> (string \<times> probe_note) list \<times> (string \<times> probe_err) list" where
  "probe_all pr [] = ([], [])"
| "probe_all pr (l # ls) =
     (case pr l of
        (note, err) \<Rightarrow>
          (case probe_all pr ls of
             (ns, fs) \<Rightarrow> ((case note of None \<Rightarrow> ns | Some n \<Rightarrow> (lName l, n) # ns), (case err of None \<Rightarrow> fs | Some e \<Rightarrow> (lName l, e) # fs))))"

text \<open>\<open>None\<close> when the matcher does not build; the test failed when its second list is not empty.\<close>

definition selftest_Run ::
  "cfg_env \<Rightarrow> (string \<Rightarrow> string list option) \<Rightarrow> (string \<Rightarrow> probe_conn option) \<Rightarrow> Config \<Rightarrow>
   ((string \<times> probe_note) list \<times> (string \<times> probe_err) list) option" where
  "selftest_Run E read_certs dial cfg =
     (case NewMatcher (ParsePrefix E) (Clients cfg) of
        None \<Rightarrow> None
      | Some m \<Rightarrow> Some (probe_all (probe E read_certs dial cfg m) (Listeners cfg)))"

section \<open>Reading a listener's replies\<close>

fun wire_lines :: "nat \<Rightarrow> string list \<Rightarrow> string" where
  "wire_lines code [] = []"
| "wire_lines code [l] = dec_nat code @ '' '' @ l @ CRLF"
| "wire_lines code (l # ls) = dec_nat code @ ''-'' @ l @ CRLF @ wire_lines code ls"

definition wire_replies :: "(nat \<times> string list) list \<Rightarrow> string" where
  "wire_replies rs = concat (map (\<lambda>(code, ls). wire_lines code ls) rs)"

definition clean_line :: "string \<Rightarrow> bool" where
  "clean_line l \<longleftrightarrow> CR \<notin> set l \<and> LF \<notin> set l"

lemma code_digits:
  assumes "100 \<le> n" "n < 1000"
  shows "length (dec_nat n) = 3" and "Sscanf_d (dec_nat n) = Some (int n)"
proof -
  have "\<not> n < 10" "\<not> n div 10 < 10" "n div 10 div 10 < 10" using assms by auto
  then show "length (dec_nat n) = 3"
    by (simp add: dec_nat.simps [of n] dec_nat.simps [of "n div 10"] dec_nat.simps [of "n div 10 div 10"])
  obtain d ds where d: "dec_nat n = d # ds" using dec_nat_ne by (cases "dec_nat n") auto
  have dig: "\<forall>c \<in> set (dec_nat n). is_digit c" using dec_nat_digits by blast
  then have "\<not> is_space d" "d \<noteq> CHR ''-''" "d \<noteq> CHR ''+''"
    unfolding d by (auto simp: is_digit_def is_space_def)
  moreover have "takeWhile is_digit ds = ds" using dig d by (simp add: takeWhile_eq_all_conv)
  ultimately show "Sscanf_d (dec_nat n) = Some (int n)"
    using dig digits_value_dec [of n] by (simp add: Sscanf_d_def Let_def d del: takeWhile_eq_all_conv)
qed

lemma ReadLF_line:
  assumes "LF \<notin> set l"
  shows "ReadLF (l @ CRLF @ rest) = Some (l @ CRLF, rest)"
proof -
  have "takeWhile (\<lambda>c. c \<noteq> LF) (l @ CRLF @ rest) = l @ [CR]" "dropWhile (\<lambda>c. c \<noteq> LF) (l @ CRLF @ rest) = LF # rest"
    using assms by (induction l) (auto simp: CRLF_def CR_neq)
  then show ?thesis by (simp add: ReadLF_def CRLF_def)
qed

lemma TrimRight_line: "clean_line l \<Longrightarrow> TrimRightP (\<lambda>c. c = CR \<or> c = LF) (l @ CRLF) = l"
proof -
  assume "clean_line l"
  then have "dropWhile (\<lambda>c. c = CR \<or> c = LF) (rev l) = rev l"
    by (cases l rule: rev_cases) (auto simp: clean_line_def)
  then show ?thesis by (simp add: TrimRightP_def CRLF_def)
qed

lemma code_clean: "100 \<le> n \<Longrightarrow> n < 1000 \<Longrightarrow> clean_line (dec_nat n @ [c] @ l) \<longleftrightarrow> c \<noteq> CR \<and> c \<noteq> LF \<and> clean_line l"
proof -
  have "\<not> is_digit CR" "\<not> is_digit LF" by (simp_all add: is_digit_def CR_def LF_def)
  then have "clean_line (dec_nat n)" using dec_nat_digits unfolding clean_line_def by blast
  then show ?thesis by (auto simp: clean_line_def)
qed

lemma expectAny_wire:
  assumes "100 \<le> n" "n < 1000" "ls \<noteq> []" "\<forall>l \<in> set ls. clean_line l"
  shows "expectAny (wire_lines n ls @ rest) = (Inr (int n, last ls), rest)"
  using assms(3,4)
proof (induction ls)
  case (Cons l ls)
  show ?case
  proof (cases ls)
    case Nil
    have c: "clean_line (dec_nat n @ '' '' @ l)" using code_clean [OF assms(1,2), of "CHR '' ''" l] Cons by (simp add: CR_def LF_def)
    then have r: "ReadLF ((dec_nat n @ '' '' @ l) @ CRLF @ rest) = Some ((dec_nat n @ '' '' @ l) @ CRLF, rest)"
      by (intro ReadLF_line) (simp add: clean_line_def)
    show ?thesis
      using r TrimRight_line [OF c] code_digits [OF assms(1,2)] Nil
      by (simp add: expectAny.simps [of "dec_nat n @ _"] nth_append Let_def)
  next
    case more: (Cons k ks)
    have c: "clean_line (dec_nat n @ ''-'' @ l)" using code_clean [OF assms(1,2), of "CHR ''-''" l] Cons by (simp add: CR_def LF_def)
    then have r: "ReadLF ((dec_nat n @ ''-'' @ l) @ CRLF @ wire_lines n ls @ rest) =
        Some ((dec_nat n @ ''-'' @ l) @ CRLF, wire_lines n ls @ rest)"
      by (intro ReadLF_line) (simp add: clean_line_def)
    have "expectAny (wire_lines n (l # ls) @ rest) = expectAny (wire_lines n ls @ rest)"
      using r TrimRight_line [OF c] code_digits [OF assms(1,2)] more
      by (simp add: expectAny.simps [of "dec_nat n @ _"] nth_append Let_def)
    then show ?thesis using Cons more by simp
  qed
qed simp

section \<open>What the listener answers the probe\<close>

definition probe_mail :: string where "probe_mail = ''FROM:<probe@selftest.invalid>''"
definition probe_rcpt :: string where "probe_rcpt = ''TO:<'' @ probeRecipient @ ''>''"

text \<open>The listener's greeting and its handlers on the commands of the probe.\<close>

definition listener_talk :: "('q, 'j) Server \<Rightarrow> ('q, 'j) session \<Rightarrow> ('q, 'j) session" where
  "listener_talk sv s =
     doRcpt sv probe_rcpt (doMail sv probe_mail (doHelo sv ''EHLO'' ''selftest.invalid''
       (reply 220 (Hostname (cService (svCfg sv)) @ '' ESMTP smtprelayd'') s)))"

text \<open>A connection that is being served: admitted with what the matcher said of its source, nothing written yet.\<close>

definition admitted :: "matcher \<Rightarrow> addr \<Rightarrow> ('q, 'j) session \<Rightarrow> bool" where
  "admitted m a s \<longleftrightarrow> \<not> seWriteFailed s \<and> seWrites s = [] \<and> seOut s = [] \<and> \<not> seTLS s \<and>
     (case Match m (Unmap a) of (cl, bits, _) \<Rightarrow> seClient s = cl)"

lemma probe_paths:
  "HasPrefix (ToUpper probe_mail) ''FROM:''" "parsePath (drop 5 probe_mail) = Some (''probe@selftest.invalid'', [])"
  "HasPrefix (ToUpper probe_rcpt) ''TO:''" "parsePath (drop 3 probe_rcpt) = Some (probeRecipient, [])"
  "TrimSpace ''selftest.invalid'' = ''selftest.invalid''" "\<not> ContainsAny ''selftest.invalid'' [CR, LF, NUL]"
  by code_simp+

text \<open>What one conversation of the probe leads to, in terms of the listener's own state.\<close>

definition expected_verdict :: "matcher \<Rightarrow> addr \<Rightarrow> instant \<Rightarrow> limiter \<Rightarrow> verdict" where
  "expected_verdict m a now rate =
     (case Match m (Unmap a) of
        (None, _) \<Rightarrow> passed
      | (Some cl, bits, _) \<Rightarrow>
          if \<not> fst (snd (Allow (clName cl) (clRateLimitPerMin cl) now rate))
          then (Some (TemporaryRefusal ''MAIL FROM'' 451 ''4.7.0 rate limit exceeded, try again later''), None)
          else if MaxRecipients cl \<le> 0 then (Some (TemporaryRefusal ''RCPT TO'' 452 ''4.5.3 too many recipients''), None)
          else if bits = 0 then (None, Some (AcceptedCatchAll (Unmap a) cl))
          else (Some (AllowlistedSource (Unmap a) cl), None))"

lemma reply_out: "\<not> seWriteFailed s \<Longrightarrow> seWrites s = [] \<Longrightarrow>
   write_reply c ls s = s\<lparr>seOut := seOut s @ [(c, ls)]\<rparr>"
  by (simp add: write_reply_def)

lemma seWrites_reset [simp]: "seWrites (resetTransaction s) = seWrites s" "seWriteFailed (resetTransaction s) = seWriteFailed s"
  "seOut (resetTransaction s) = seOut s" "seClient (resetTransaction s) = seClient s" "seHelo (resetTransaction s) = seHelo s"
  "seFromSet (resetTransaction s) = False" "seRcpts (resetTransaction s) = []" "seRate (resetTransaction s) = seRate s"
  "seTimes (resetTransaction s) = seTimes s" "seLast (resetTransaction s) = seLast s" "seTLS (resetTransaction s) = seTLS s"
  by (simp_all add: resetTransaction_def)

definition capabilities :: "('q, 'j) Server \<Rightarrow> ('q, 'j) session \<Rightarrow> string list" where
  "capabilities sv s =
     [Hostname (cService (svCfg sv)), ''SIZE '' @ dec_int (maxMessageBytes sv s), ''8BITMIME'', ''PIPELINING'', ''ENHANCEDSTATUSCODES'']"

lemma doMail_unmatched: "seClient s = None \<Longrightarrow> doMail sv arg s = reply 550 ''5.7.1 relay access denied'' s"
  by (simp only: doMail_def option.case)

lemma doRcpt_early: "\<not> seFromSet s \<Longrightarrow> doRcpt sv arg s = reply 503 ''5.5.1 send MAIL FROM first'' s"
  by (simp only: doRcpt_def if_True simp_thms)

lemma doRcpt_probe:
  assumes "seFromSet s" "seClient s = Some cl" "seRcpts s = []"
  shows "\<exists>s'. doRcpt sv probe_rcpt s =
    (if MaxRecipients cl \<le> 0 then reply 452 ''4.5.3 too many recipients'' s else reply 250 ''2.1.5 OK'' s') \<and>
    seOut s' = seOut s \<and> seWrites s' = seWrites s \<and> seWriteFailed s' = seWriteFailed s"
proof -
  have "probeRecipient \<noteq> []" by (simp add: probeRecipient_def)
  then have "doRcpt sv probe_rcpt s =
    (if MaxRecipients cl \<le> 0 then reply 452 ''4.5.3 too many recipients'' s
     else reply 250 ''2.1.5 OK'' (s\<lparr>seRcpts := seRcpts s @ [probeRecipient]\<rparr>))"
    using assms probe_paths(3,4) by (simp add: doRcpt_def)
  then show ?thesis by (intro exI [of _ "s\<lparr>seRcpts := seRcpts s @ [probeRecipient]\<rparr>"]) simp
qed

lemma reply_fields:
  assumes "\<not> seWriteFailed s" "seWrites s = []"
  shows "seOut (reply c t s) = seOut s @ [(c, [t])]" "seWrites (reply c t s) = []" "\<not> seWriteFailed (reply c t s)"
    "seFromSet (reply c t s) = seFromSet s" "seClient (reply c t s) = seClient s" "seRcpts (reply c t s) = seRcpts s"
  using assms by (simp_all add: reply_def reply_out)

lemma talk_out:
  assumes s: "\<not> seWriteFailed s" "seWrites s = []" "seOut s = []" and sv: "\<not> RequireTLS (svLc sv)" "lTLS (svLc sv) = TLSNone"
  shows "seOut (listener_talk sv s) =
    [(220, [Hostname (cService (svCfg sv)) @ '' ESMTP smtprelayd'']), (250, capabilities sv s)] @
    (case seClient s of
       None \<Rightarrow> [(550, [''5.7.1 relay access denied'']), (503, [''5.5.1 send MAIL FROM first''])]
     | Some cl \<Rightarrow>
         if \<not> fst (snd (Allow (clName cl) (clRateLimitPerMin cl) (fst (time_now s)) (seRate s)))
         then [(451, [''4.7.0 rate limit exceeded, try again later'']), (503, [''5.5.1 send MAIL FROM first''])]
         else [(250, [''2.1.0 OK'']),
               if MaxRecipients cl \<le> 0 then (452, [''4.5.3 too many recipients'']) else (250, [''2.1.5 OK''])])"
proof -
  define s1 where "s1 = resetTransaction (s\<lparr>seOut := [(220, [Hostname (cService (svCfg sv)) @ '' ESMTP smtprelayd''])], seHelo := ''selftest.invalid''\<rparr>)"
  define s2 where "s2 = s1\<lparr>seOut := [(220, [Hostname (cService (svCfg sv)) @ '' ESMTP smtprelayd'']), (250, capabilities sv s)]\<rparr>"
  have m: "maxMessageBytes sv s1 = maxMessageBytes sv s" by (simp add: s1_def maxMessageBytes_def)
  have h: "doHelo sv ''EHLO'' ''selftest.invalid'' (reply 220 (Hostname (cService (svCfg sv)) @ '' ESMTP smtprelayd'') s) = s2"
    using s sv m probe_paths(5,6)
    by (simp add: doHelo_def reply_def multiline_def reply_out Let_def s1_def [symmetric] s2_def capabilities_def)
      (simp add: s1_def resetTransaction_def TLSNone_def TLSStartTLS_def reply_out)
  have f: "\<not> seWriteFailed s2" "seWrites s2 = []" "seClient s2 = seClient s" "seFromSet s2 = False" "seRcpts s2 = []" "seHelo s2 \<noteq> []"
    "seRate s2 = seRate s" "fst (time_now s2) = fst (time_now s)"
    "seOut s2 = [(220, [Hostname (cService (svCfg sv)) @ '' ESMTP smtprelayd'']), (250, capabilities sv s)]"
    using s by (simp_all add: s2_def s1_def resetTransaction_def time_now_def split: list.splits)
  obtain now s3 where t: "time_now s2 = (now, s3)" by fastforce
  have f3: "now = fst (time_now s)" "\<not> seWriteFailed s3" "seWrites s3 = []" "seClient s3 = seClient s" "seFromSet s3 = False"
    "seRcpts s3 = []" "seRate s3 = seRate s" "seOut s3 = seOut s2"
    using f t by (auto simp: time_now_def split: list.splits)
  note rf = reply_fields
  show ?thesis
  proof (cases "seClient s")
    case None
    then have "doMail sv probe_mail s2 = reply 550 ''5.7.1 relay access denied'' s2" using f(3) by (simp add: doMail_unmatched)
    moreover have "doRcpt sv probe_rcpt (reply 550 ''5.7.1 relay access denied'' s2) =
        reply 503 ''5.5.1 send MAIL FROM first'' (reply 550 ''5.7.1 relay access denied'' s2)"
      using f(4) rf(4) [OF f(1,2)] by (intro doRcpt_early) simp
    ultimately show ?thesis using rf(1-3) [OF f(1,2)] f(9) None by (simp add: listener_talk_def h rf(1))
  next
    case (Some cl)
    obtain w ok rate where al: "Allow (clName cl) (clRateLimitPerMin cl) now (seRate s3) = (w, ok, rate)" by (metis prod_cases3)
    then have ok: "ok = fst (snd (Allow (clName cl) (clRateLimitPerMin cl) (fst (time_now s)) (seRate s)))"
      using f3 by simp
    have mail: "doMail sv probe_mail s2 =
        (if \<not> ok then reply 451 ''4.7.0 rate limit exceeded, try again later'' (s3\<lparr>seRate := rate\<rparr>)
         else reply 250 ''2.1.0 OK'' (s3\<lparr>seRate := rate, seFrom := ''probe@selftest.invalid'', seFromSet := True\<rparr>))"
      using f(3,4,6) Some sv(1) t al probe_paths(1,2) by (simp add: doMail_def Let_def)
    show ?thesis
    proof (cases ok)
      case False
      define s4 where "s4 = s3\<lparr>seRate := rate\<rparr>"
      have g: "\<not> seWriteFailed s4" "seWrites s4 = []" "seFromSet s4 = False" "seOut s4 = seOut s2" using f3 by (simp_all add: s4_def)
      have "doRcpt sv probe_rcpt (reply 451 ''4.7.0 rate limit exceeded, try again later'' s4) =
          reply 503 ''5.5.1 send MAIL FROM first'' (reply 451 ''4.7.0 rate limit exceeded, try again later'' s4)"
        using g(3) rf(4) [OF g(1,2)] by (intro doRcpt_early) simp
      then show ?thesis using rf(1-3) [OF g(1,2)] g(4) f(9) Some False ok
        by (simp add: listener_talk_def h mail s4_def [symmetric] rf(1))
    next
      case True
      define s4 where "s4 = s3\<lparr>seRate := rate, seFrom := ''probe@selftest.invalid'', seFromSet := True\<rparr>"
      define s5 where "s5 = reply 250 ''2.1.0 OK'' s4"
      have g: "\<not> seWriteFailed s4" "seWrites s4 = []" "seFromSet s4" "seOut s4 = seOut s2" "seClient s4 = Some cl" "seRcpts s4 = []"
        using f3 Some by (simp_all add: s4_def)
      have g5: "\<not> seWriteFailed s5" "seWrites s5 = []" "seFromSet s5" "seOut s5 = seOut s2 @ [(250, [''2.1.0 OK''])]"
        "seClient s5 = Some cl" "seRcpts s5 = []"
        using rf [OF g(1,2)] g by (simp_all add: s5_def)
      obtain s6 where r: "doRcpt sv probe_rcpt s5 =
          (if MaxRecipients cl \<le> 0 then reply 452 ''4.5.3 too many recipients'' s5 else reply 250 ''2.1.5 OK'' s6)"
        "seOut s6 = seOut s5" "seWrites s6 = seWrites s5" "seWriteFailed s6 = seWriteFailed s5"
        using doRcpt_probe [OF g5(3,5,6)] by metis
      have talk: "listener_talk sv s = doRcpt sv probe_rcpt s5"
        using True by (simp add: listener_talk_def h mail s4_def [symmetric] s5_def)
      have "seOut (listener_talk sv s) = seOut s2 @ [(250, [''2.1.0 OK'']),
          if MaxRecipients cl \<le> 0 then (452, [''4.5.3 too many recipients'']) else (250, [''2.1.5 OK''])]"
        unfolding talk r(1) using rf(1) [OF g5(1,2)] rf(1) [of s6] r(2-4) g5 by (simp split: if_splits)
      then show ?thesis using f(9) Some True ok by simp
    qed
  qed
qed

lemma capabilities_clean: "clean_line (Hostname (cService (svCfg sv))) \<Longrightarrow> \<forall>l \<in> set (capabilities sv s). clean_line l"
proof -
  have "clean_line (dec_int i)" for i using dec_int_chars [of _ i] by (force simp: clean_line_def is_digit_def CR_def LF_def)
  then show "clean_line (Hostname (cService (svCfg sv))) \<Longrightarrow> \<forall>l \<in> set (capabilities sv s). clean_line l"
    by (auto simp: capabilities_def clean_line_def CR_def LF_def)
qed

lemma wire_one: "wire_replies ((c, ls) # rs) = wire_lines c ls @ wire_replies rs" "wire_replies [] = []"
  by (simp_all add: wire_replies_def)

text \<open>C29: On a listener without TLS, whose host name is one line, the self test concludes exactly what is true of the source it
  came from: it passes without a note if and only if no client's network covers that source, it fails if and only if
  one does whose network covers every address and the probe was let through, and otherwise it says why it proved
  nothing.\<close>

theorem selftest_tells_open_relays:
  assumes l: "lTLS l = TLSNone" "\<not> RequireTLS l" and sv: "svLc sv = l" "clean_line (Hostname (cService (svCfg sv)))"
    and s: "admitted m a s"
    and c: "dial (dialAddress (SplitHostPort E) (lAddress l)) = Some c" "pcWrites c = []" "pcLocal c = Some a"
      "pcIn c = wire_replies (seOut (listener_talk sv s))"
  shows "probe E read_certs dial cfg m l = expected_verdict m a (fst (time_now s)) (seRate s)"
proof -
  let ?host = "Hostname (cService (svCfg sv))"
  obtain cl bits b where M: "Match m (Unmap a) = (cl, bits, b)" by (metis prod_cases3)
  have w: "\<not> seWriteFailed s" "seWrites s = []" "seOut s = []" "seClient s = cl" using s M by (auto simp: admitted_def)
  define rest where "rest = wire_replies (drop 2 (seOut (listener_talk sv s)))"
  have out: "seOut (listener_talk sv s) = [(220, [?host @ '' ESMTP smtprelayd'']), (250, capabilities sv s)] @ drop 2 (seOut (listener_talk sv s))"
    using talk_out [OF w(1-3)] l sv by (simp add: split: option.splits)
  have p: "pcIn c = wire_lines 220 [?host @ '' ESMTP smtprelayd''] @ wire_lines 250 (capabilities sv s) @ rest"
    unfolding c(4) rest_def by (subst out) (simp add: wire_one)
  have e1: "expectAny (pcIn c) = (Inr (220, ?host @ '' ESMTP smtprelayd''), wire_lines 250 (capabilities sv s) @ rest)"
    unfolding p using expectAny_wire [of 220 "[?host @ '' ESMTP smtprelayd'']"] sv(2) by (simp add: clean_line_def CR_def LF_def)
  have e2: "expectAny (wire_lines 250 (capabilities sv s) @ rest) = (Inr (250, last (capabilities sv s)), rest)"
    using expectAny_wire [of 250 "capabilities sv s"] capabilities_clean [OF sv(2)] by (simp add: capabilities_def)
  have d: "dialListener E read_certs dial cfg l = Inr c"
    using c(1) l by (simp add: dialListener_def TLSNone_def TLSImplicit_def)
  define c2 where "c2 = c\<lparr>pcSent := pcSent c @ [''EHLO selftest.invalid''], pcIn := rest\<rparr>"
  have probed: "probe E read_certs dial cfg m l = attempt_relay m c2"
    using d e1 e2 c(2) l(1)
    by (simp add: probe_def expect_def read_any_def greet_def probe_send_def c2_def TLSNone_def TLSStartTLS_def)
  have one: "expectAny (wire_lines n [t] @ r) = (Inr (int n, t), r)" if "100 \<le> n" "n < 1000" "clean_line t" for n t r
    using expectAny_wire [OF that(1,2), of "[t]" r] that(3) by simp
  note clean = clean_line_def CR_def LF_def
  have c2: "pcIn c2 = rest" "pcWrites c2 = []" "pcLocal c2 = Some a" using c by (simp_all add: c2_def)
  show ?thesis
  proof (cases cl)
    case None
    then have "rest = wire_lines 550 [''5.7.1 relay access denied''] @ wire_lines 503 [''5.5.1 send MAIL FROM first'']"
      using talk_out [OF w(1-3)] l sv w(4) by (simp add: rest_def wire_one)
    then show ?thesis
      using c2 one [of 550 "''5.7.1 relay access denied''"] M None
      by (simp add: probed attempt_relay_def probe_send_def read_any_def refusalVerdict_def expected_verdict_def clean)
  next
    case (Some k)
    let ?ok = "fst (snd (Allow (clName k) (clRateLimitPerMin k) (fst (time_now s)) (seRate s)))"
    show ?thesis
    proof (cases ?ok)
      case False
      then have "rest = wire_lines 451 [''4.7.0 rate limit exceeded, try again later''] @ wire_lines 503 [''5.5.1 send MAIL FROM first'']"
        using talk_out [OF w(1-3)] l sv w(4) Some by (simp add: rest_def wire_one)
      then show ?thesis
        using c2 one [of 451 "''4.7.0 rate limit exceeded, try again later''"] M Some False
        by (simp add: probed attempt_relay_def probe_send_def read_any_def refusalVerdict_def expected_verdict_def clean)
    next
      case True
      define answer where "answer = (if MaxRecipients k \<le> 0 then (452, ''4.5.3 too many recipients'') else (250::nat, ''2.1.5 OK''))"
      have "rest = wire_lines 250 [''2.1.0 OK''] @ wire_lines (fst answer) [snd answer] @ []"
        using talk_out [OF w(1-3)] l sv w(4) Some True by (simp add: rest_def wire_one answer_def)
      then show ?thesis
        using c2 one [of 250 "''2.1.0 OK''"] one [of "fst answer" "snd answer" "[]"] M Some True
        by (simp add: probed attempt_relay_def probe_send_def read_any_def refusalVerdict_def acceptedVerdict_def expected_verdict_def
            clean answer_def split: if_splits)
    qed
  qed
qed

section \<open>An open relay\<close>

definition demo_open :: matcher where
  "demo_open = [(\<lparr>pfAddr = V4 0, pfBits = 0\<rparr>, demo_app)]"

definition demo_plain :: Listener where
  "demo_plain = \<lparr>lName = ''in'', lAddress = ''0.0.0.0:25'', lTLS = TLSNone, lMinTLS = [], RequireTLS = False\<rparr>"

definition demo_talk :: "(spool_tape, store) session" where
  "demo_talk = (demo_session [] [] [])\<lparr>seFrom := [], seFromSet := False, seRcpts := [], seHelo := []\<rparr>"

definition demo_probe :: probe_conn where
  "demo_probe = \<lparr>pcIn = wire_replies (seOut (listener_talk (demo_server\<lparr>svLc := demo_plain\<rparr>) demo_talk)), pcAhead = False, pcTLS = None,
     pcWrites = [], pcSent = [], pcLocal = Some (V4 0x7F000001)\<rparr>"

lemma demo_open_match: "Match demo_open (V4 0x7F000001) = (Some demo_app, 0, True)"
  by (simp add: Match_def demo_open_def Contains_ip_def)

theorem selftest_tells_open_relays_witness:
  "probe demo_cfg_env (\<lambda>_. None) (\<lambda>_. Some demo_probe) Defaults demo_open demo_plain = (None, Some (AcceptedCatchAll (V4 0x7F000001) demo_app))"
proof -
  have l: "lTLS demo_plain = TLSNone" "\<not> RequireTLS demo_plain" by (simp_all add: demo_plain_def)
  have sv: "svLc (demo_server\<lparr>svLc := demo_plain\<rparr>) = demo_plain"
    "clean_line (Hostname (cService (svCfg (demo_server\<lparr>svLc := demo_plain\<rparr>))))"
    by (simp_all add: demo_server_def Defaults_def clean_line_def)
  have s: "admitted demo_open (V4 0x7F000001) demo_talk"
    by (simp add: admitted_def demo_talk_def demo_session_def demo_open_match)
  have e: "expected_verdict demo_open (V4 0x7F000001) (fst (time_now demo_talk)) (seRate demo_talk) =
      (None, Some (AcceptedCatchAll (V4 0x7F000001) demo_app))"
    by (simp add: expected_verdict_def demo_open_match demo_app_def demo_client_def Allow_def)
  have c: "pcWrites demo_probe = []" "pcLocal demo_probe = Some (V4 0x7F000001)"
    "pcIn demo_probe = wire_replies (seOut (listener_talk (demo_server\<lparr>svLc := demo_plain\<rparr>) demo_talk))"
    by (simp_all add: demo_probe_def)
  show ?thesis using selftest_tells_open_relays [OF l sv s, of "\<lambda>_. Some demo_probe", OF refl c] by (simp add: e)
qed

end
