(* ===== verification/Command_Line.thy ===== *)
theory Command_Line
  imports Service_Run Self_Test
begin

text \<open>
  The commands of \<open>cmd/smtprelayd\<close>: the table of \<open>commands.go\<close> and its dispatch, \<open>check\<close> with \<open>bind.go\<close>, the two
  verdicts of \<open>selftest\<close> and \<open>token new\<close> of \<open>token.go\<close>. Output is a list of lines. A handler is named by a
  constructor; on Unix the commands of the Windows service manager only say where they exist.
\<close>

section \<open>Binding what the daemon would bind\<close>

datatype listen_result = Bindable | AddrInUse | NotPermitted | Unbindable string

definition check_targets :: "Config \<Rightarrow> (string \<times> string) list" where
  "check_targets cfg =
     map (\<lambda>l. (''listener '' @ lName l, lAddress l)) (Listeners cfg) @
     (if webEnabled (cWeb cfg) then [(''web'', webAddress (cWeb cfg))] else []) @
     (if metEnabled (cMetrics cfg) then [(''metrics'', metAddress (cMetrics cfg))] else [])"

fun check_each :: "(string \<Rightarrow> listen_result) \<Rightarrow> (string \<times> string) list \<Rightarrow> string list \<times> string list" where
  "check_each listen [] = ([], [])"
| "check_each listen ((what, addr) # ts) =
     (case check_each listen ts of
        (notes, fatal) \<Rightarrow>
          (case listen addr of
             Bindable \<Rightarrow> (notes, fatal)
           | AddrInUse \<Rightarrow> ((''note: '' @ what @ '' ('' @ addr @ '') is already in use, not verified'') # notes, fatal)
           | NotPermitted \<Rightarrow> ((''note: '' @ what @ '' ('' @ addr @ '') needs privileges to bind, not verified'') # notes, fatal)
           | Unbindable e \<Rightarrow> (notes, (what @ '': '' @ e) # fatal)))"

definition checkBind :: "(string \<Rightarrow> listen_result) \<Rightarrow> Config \<Rightarrow> string list \<times> string option" where
  "checkBind listen cfg =
     (case check_each listen (check_targets cfg) of
        (notes, fatal) \<Rightarrow>
          (notes, if fatal \<noteq> [] then Some (''address not bindable:'' @ [LF] @ ''  - '' @ Join fatal ([LF] @ ''  - '')) else None))"

datatype command_err = CheckLoad "load_err option" | CheckAddress string | SelftestFailed | SelftestMatcher | UnknownCommand string
  | TokenScope string | NoRandom | OnlyWindows

definition cmdCheck :: "(Config option \<times> load_err option) \<Rightarrow> (string \<Rightarrow> listen_result) \<Rightarrow> string list \<times> command_err option" where
  "cmdCheck loaded listen =
     (case loaded of
        (Some cfg, None) \<Rightarrow>
          (case checkBind listen cfg of
             (notes, Some e) \<Rightarrow> (notes, Some (CheckAddress e))
           | (notes, None) \<Rightarrow>
               (notes @ [''configuration OK: '' @ dec_nat (length (Listeners cfg)) @ '' listener(s), '' @
                  dec_nat (length (Clients cfg)) @ '' client(s), '' @ dec_nat (length (Routes cfg)) @ '' route(s)''], None))
      | (_, e) \<Rightarrow> ([], Some (CheckLoad e)))"

definition cmdSelftest ::
  "(Config option \<times> load_err option) \<Rightarrow> (Config \<Rightarrow> ((string \<times> probe_note) list \<times> (string \<times> probe_err) list) option) \<Rightarrow>
   nat \<times> string list \<times> command_err option" where
  "cmdSelftest loaded run_tests =
     (case loaded of
        (Some cfg, None) \<Rightarrow>
          (case run_tests cfg of
             None \<Rightarrow> (0, [], Some SelftestMatcher)
           | Some (notes, failures) \<Rightarrow>
               if failures \<noteq> [] then (length notes, [], Some SelftestFailed)
               else if notes \<noteq> [] then
                 (length notes, [''open relay self-test found no open relay, but '' @ dec_nat (length notes) @
                    '' listener(s) were not exercised; see the note(s) above''], None)
               else (0, [''open relay self-test passed''], None))
      | (_, e) \<Rightarrow> (0, [], Some (CheckLoad e)))"

section \<open>A new API token\<close>

definition tokenBytes :: nat where "tokenBytes = 32"

text \<open>\<open>random\<close> is the 32 random bytes or the failure to get them, \<open>b64\<close> the unpadded URL encoding. The result is the
  token, its digest and the block to paste; the text around them is fixed.\<close>

definition newToken ::
  "crypt \<Rightarrow> (string \<Rightarrow> string) \<Rightarrow> string option \<Rightarrow> string \<Rightarrow> command_err + string \<times> string \<times> Token" where
  "newToken C b64 random scope =
     (if scope \<noteq> ScopeRead \<and> scope \<noteq> ScopeAdmin then Inl (TokenScope scope)
      else case random of
             None \<Rightarrow> Inl NoRandom
           | Some raw \<Rightarrow>
               (let token = b64 raw; digest = sha256hex C token in
                Inr (token, digest, \<lparr>tkName = ''changeme'', tkScope = scope, tkSHA256 = digest\<rparr>)))"

section \<open>The command set\<close>

datatype handler_name = HRun | HCheck | HSelftest | HGenCert | HNewToken | HVersion | HService string | HSecure | HPurge | HProtect

record cli_command =
  cmName :: string
  cmWindows :: bool
  cmControls :: bool
  cmHandler :: handler_name

definition commands :: "cli_command list" where
  "commands =
     [\<lparr>cmName = ''run'', cmWindows = False, cmControls = False, cmHandler = HRun\<rparr>,
      \<lparr>cmName = ''check'', cmWindows = False, cmControls = False, cmHandler = HCheck\<rparr>,
      \<lparr>cmName = ''selftest'', cmWindows = False, cmControls = False, cmHandler = HSelftest\<rparr>,
      \<lparr>cmName = ''gen-cert'', cmWindows = False, cmControls = False, cmHandler = HGenCert\<rparr>,
      \<lparr>cmName = ''token new'', cmWindows = False, cmControls = False, cmHandler = HNewToken\<rparr>,
      \<lparr>cmName = ''version'', cmWindows = False, cmControls = False, cmHandler = HVersion\<rparr>,
      \<lparr>cmName = ''install'', cmWindows = True, cmControls = True, cmHandler = HService ''install''\<rparr>,
      \<lparr>cmName = ''uninstall'', cmWindows = True, cmControls = True, cmHandler = HService ''uninstall''\<rparr>,
      \<lparr>cmName = ''start'', cmWindows = True, cmControls = True, cmHandler = HService ''start''\<rparr>,
      \<lparr>cmName = ''stop'', cmWindows = True, cmControls = True, cmHandler = HService ''stop''\<rparr>,
      \<lparr>cmName = ''secure-datadir'', cmWindows = True, cmControls = False, cmHandler = HSecure\<rparr>,
      \<lparr>cmName = ''purge-datadir'', cmWindows = True, cmControls = False, cmHandler = HPurge\<rparr>,
      \<lparr>cmName = ''protect-secret'', cmWindows = True, cmControls = False, cmHandler = HProtect\<rparr>]"

definition verb :: "cli_command \<Rightarrow> string" where
  "verb c = (case IndexByte (cmName c) CHR '' '' of Some i \<Rightarrow> take i (cmName c) | None \<Rightarrow> cmName c)"

definition lookupCommand :: "string \<Rightarrow> cli_command option" where
  "lookupCommand v = find (\<lambda>c. verb c = v) commands"

text \<open>What \<open>main\<close> does with the arguments after the flags: the handler, or why it refuses.\<close>

definition dispatch_args :: "string list \<Rightarrow> string + handler_name" where
  "dispatch_args args =
     (let cmd = (case args of [] \<Rightarrow> ''run'' | a # _ \<Rightarrow> a) in
      if cmd = ''token'' \<and> length args > 1 \<and> args ! 1 \<noteq> ''new'' then Inl ''only new exists''
      else if cmd = ''token'' \<and> length args > 2 then Inl ''flags are not read after the command''
      else case lookupCommand cmd of None \<Rightarrow> Inl (''unknown command '' @ cmd) | Some c \<Rightarrow> Inr (cmHandler c))"

section \<open>What the commands promise\<close>

text \<open>Every command of the table is reached by its first word, and only by it.\<close>

lemma commands_reachable: "list_all (\<lambda>c. lookupCommand (verb c) = Some c) commands \<and> distinct (map verb commands)"
  by code_simp

text \<open>A token as \<open>token new\<close> prints it is accepted for its scope once its block is configured, and the configuration
  holds only its digest.\<close>

lemma new_token_works:
  assumes "newToken C b64 random scope = Inr (token, digest, block)" and "token \<noteq> []"
    and "tkName block' = nm \<and> tkScope block' = tkScope block \<and> tkSHA256 block' = tkSHA256 block"
  shows "MatchToken C [block'] token = Some block' \<and> tkScope block' = scope \<and> (scope = ScopeRead \<or> scope = ScopeAdmin) \<and>
    ScopeSatisfies (tkScope block') ScopeRead"
  using assms by (auto simp: newToken_def MatchToken_def ScopeSatisfies_def Let_def split: if_splits option.splits)

text \<open>\<open>check\<close> approves only a configuration the loader accepts and none of whose addresses is refused by the host for
  good; a bound or privileged address is named in a note.\<close>

lemma check_each_fatal: "snd (check_each listen ts) = [] \<longleftrightarrow> (\<forall>(what, addr) \<in> set ts. \<forall>e. listen addr \<noteq> Unbindable e)"
  by (induction listen ts rule: check_each.induct) (auto split: prod.splits listen_result.splits)

lemma check_each_notes:
  "length (fst (check_each listen ts)) = length (filter (\<lambda>t. listen (snd t) = AddrInUse \<or> listen (snd t) = NotPermitted) ts)"
  by (induction listen ts rule: check_each.induct) (auto split: prod.splits listen_result.splits)

lemma check_approves:
  assumes "cmdCheck loaded listen = (out, None)"
  shows "\<exists>cfg. loaded = (Some cfg, None) \<and> (\<forall>l \<in> set (Listeners cfg). \<forall>e. listen (lAddress l) \<noteq> Unbindable e)"
proof -
  obtain cfg where l: "loaded = (Some cfg, None)" using assms by (auto simp: cmdCheck_def split: prod.splits option.splits)
  then have "snd (check_each listen (check_targets cfg)) = []"
    using assms by (auto simp: cmdCheck_def checkBind_def split: prod.splits option.splits if_splits)
  then show ?thesis using l by (auto simp: check_each_fatal check_targets_def)
qed

text \<open>\<open>selftest\<close> calls itself passed only when every listener refused the probe's relay for good.\<close>

lemma probe_all_passed: "probe_all pr ls = ([], []) \<longleftrightarrow> (\<forall>l \<in> set ls. pr l = passed)"
  by (induction ls) (auto simp: passed_def split: prod.splits option.splits)

lemma selftest_passed:
  assumes "cmdSelftest (Some cfg, None) (selftest_Run E read_certs dialer) = (0, [''open relay self-test passed''], None)"
  shows "\<exists>m. NewMatcher (ParsePrefix E) (Clients cfg) = Some m \<and>
    (\<forall>l \<in> set (Listeners cfg). probe E read_certs dialer cfg m l = passed)"
  using assms probe_all_passed
  by (fastforce simp: cmdSelftest_def selftest_Run_def split: option.splits prod.splits if_splits)

end
