(* ===== verification/Gen_Cert.thy ===== *)
theory Gen_Cert
  imports Config_Load
begin

unbundle bit_operations_syntax

text \<open>
  \<open>cmd/smtprelayd/gencert.go\<close> with \<open>internal/certgen\<close> and the Unix side of \<open>internal/fsmode\<close>: the names a self-signed
  certificate carries, its template, and the files the command writes with their modes and groups. The file system
  maps cleaned paths to nodes (no symbolic links); its calls fail by the list of faults, one entry a call. RSA,
  \<open>crypto/x509\<close> and PEM are the record \<open>cert_lib\<close>, \<open>filepath.Dir\<close> the argument \<open>dir\<close>. Modes are in hexadecimal:
  0x1C0 is octal 0700, 0x180 0600, 0x1A4 0644, 0x1E8 0750 and 0x1A0 0640.
\<close>

section \<open>Certificates\<close>

record x509_template =
  ctSerial :: int
  ctCommonName :: string
  ctOrganization :: "string list"
  ctNotBefore :: int
  ctNotAfter :: int
  ctKeyUsage :: "string list"
  ctExtKeyUsage :: "string list"
  ctIsCA :: bool
  ctIPAddresses :: "addr list"
  ctDNSNames :: "string list"

record cert_lib =
  clNow :: int
  clKey :: "string option"
  clSerial :: "int option"
  clParseIP :: "string \<Rightarrow> addr option"
  clSign :: "x509_template \<Rightarrow> string \<Rightarrow> string option"
  clPemCert :: "string \<Rightarrow> string"
  clPemKey :: "string \<Rightarrow> string"

datatype cert_err =
    NoHosts | NoKey | NoSerial | NotSigned
  | DaysOutOfRange | CertConfig "load_err option" | NoCertPaths | CertExists string
  | NoCertDir | KeyNotWritten | KeyNotRestricted | CertNotWritten

definition DefaultValidity :: int where "DefaultValidity = 825 * 24 * hour"

fun dedupe_loop :: "string list \<Rightarrow> string list \<Rightarrow> string list" where
  "dedupe_loop [] out = out"
| "dedupe_loop (s # ss) out = (if s = [] \<or> s \<in> set out then dedupe_loop ss out else dedupe_loop ss (out @ [s]))"

definition dedupe :: "string list \<Rightarrow> string list" where "dedupe ss = dedupe_loop ss []"

definition add_san :: "(string \<Rightarrow> addr option) \<Rightarrow> string \<Rightarrow> x509_template \<Rightarrow> x509_template" where
  "add_san parse h t =
     (case parse h of
        Some ip \<Rightarrow> t\<lparr>ctIPAddresses := ctIPAddresses t @ [ip]\<rparr>
      | None \<Rightarrow> t\<lparr>ctDNSNames := ctDNSNames t @ [h]\<rparr>)"

definition cert_template :: "cert_lib \<Rightarrow> string list \<Rightarrow> int \<Rightarrow> int \<Rightarrow> x509_template" where
  "cert_template L hosts validity serial =
     fold (add_san (clParseIP L)) hosts
       \<lparr>ctSerial = serial, ctCommonName = hd hosts, ctOrganization = [''smtprelayd self-signed''],
        ctNotBefore = clNow L - hour, ctNotAfter = clNow L + validity,
        ctKeyUsage = [''DigitalSignature'', ''KeyEncipherment''], ctExtKeyUsage = [''ServerAuth''], ctIsCA = False,
        ctIPAddresses = [], ctDNSNames = []\<rparr>"

text \<open>The options are the hosts and the validity; the result is the certificate and the key in PEM.\<close>

definition Generate :: "cert_lib \<Rightarrow> string list \<Rightarrow> int \<Rightarrow> cert_err + string \<times> string" where
  "Generate L names validity0 =
     (let hosts = dedupe names; validity = (if validity0 \<le> 0 then DefaultValidity else validity0) in
      if hosts = [] then Inl NoHosts
      else case clKey L of
             None \<Rightarrow> Inl NoKey
           | Some key \<Rightarrow>
               (case clSerial L of
                  None \<Rightarrow> Inl NoSerial
                | Some serial \<Rightarrow>
                    (case clSign L (cert_template L hosts validity serial) key of
                       None \<Rightarrow> Inl NotSigned
                     | Some der \<Rightarrow> Inr (clPemCert L der, clPemKey L key))))"

section \<open>The names of the relay\<close>

definition add_host :: "string \<Rightarrow> string list \<Rightarrow> string list" where
  "add_host s hosts = (if s = [] \<or> s \<in> set hosts then hosts else hosts @ [s])"

definition add_address :: "cfg_env \<Rightarrow> string \<Rightarrow> string list \<Rightarrow> string list" where
  "add_address E address hosts =
     (case SplitHostPort E address of
        None \<Rightarrow> hosts
      | Some (h, _) \<Rightarrow> if h = [] \<or> h = ''0.0.0.0'' \<or> h = ''::'' then hosts else add_host h hosts)"

definition certHosts :: "cfg_env \<Rightarrow> Config \<Rightarrow> string list" where
  "certHosts E cfg =
     (let h0 = add_host (Hostname (cService cfg)) [];
          h1 = fold (\<lambda>l. add_address E (lAddress l)) (Listeners cfg) h0;
          h2 = (if metEnabled (cMetrics cfg) then add_address E (metAddress (cMetrics cfg)) h1 else h1)
      in add_host ''::1'' (add_host ''127.0.0.1'' (add_host ''localhost'' h2)))"

section \<open>Files with modes and groups\<close>

record inode =
  inDir :: bool
  inData :: string
  inMode :: "9 word"
  inGid :: nat

datatype os_fault = CallFine | CallRefused | WriteShort nat
datatype os_err = OsNotExist | OsOther

record mode_fs =
  mfNodes :: "string \<rightharpoonup> inode"
  mfFaults :: "os_fault list"
  mfUmask :: "9 word"
  mfGid :: nat

definition os_call :: "mode_fs \<Rightarrow> os_fault \<times> mode_fs" where
  "os_call st = (case mfFaults st of [] \<Rightarrow> (CallFine, st) | f # fs \<Rightarrow> (f, st\<lparr>mfFaults := fs\<rparr>))"

definition set_node :: "string \<Rightarrow> inode \<Rightarrow> mode_fs \<Rightarrow> mode_fs" where
  "set_node p n st = st\<lparr>mfNodes := (mfNodes st)(p \<mapsto> n)\<rparr>"

definition os_Stat :: "string \<Rightarrow> mode_fs \<Rightarrow> (os_err + inode) \<times> mode_fs" where
  "os_Stat p st =
     (case os_call st of
        (CallFine, s) \<Rightarrow> ((case mfNodes s p of None \<Rightarrow> Inl OsNotExist | Some n \<Rightarrow> Inr n), s)
      | (_, s) \<Rightarrow> (Inl OsOther, s))"

text \<open>A call that changes one existing node by \<open>f\<close>: \<open>Chmod\<close> and \<open>Chown\<close> of the group.\<close>

definition os_change :: "(inode \<Rightarrow> inode) \<Rightarrow> string \<Rightarrow> mode_fs \<Rightarrow> os_err option \<times> mode_fs" where
  "os_change f p st =
     (case os_call st of
        (CallFine, s) \<Rightarrow> (case mfNodes s p of None \<Rightarrow> (Some OsNotExist, s) | Some n \<Rightarrow> (None, set_node p (f n) s))
      | (_, s) \<Rightarrow> (Some OsOther, s))"

definition os_Chmod :: "string \<Rightarrow> 9 word \<Rightarrow> mode_fs \<Rightarrow> os_err option \<times> mode_fs" where
  "os_Chmod p m = os_change (inMode_update (\<lambda>_. m)) p"

definition os_Chgrp :: "string \<Rightarrow> nat \<Rightarrow> mode_fs \<Rightarrow> os_err option \<times> mode_fs" where
  "os_Chgrp p g = os_change (inGid_update (\<lambda>_. g)) p"

text \<open>\<open>WriteFile\<close> truncates a file or creates it with the mode the umask leaves; a short write leaves a prefix.\<close>

definition os_WriteFile :: "(string \<Rightarrow> string) \<Rightarrow> string \<Rightarrow> string \<Rightarrow> 9 word \<Rightarrow> mode_fs \<Rightarrow> os_err option \<times> mode_fs" where
  "os_WriteFile dir p data perm st =
     (case os_call st of
        (CallRefused, s) \<Rightarrow> (Some OsOther, s)
      | (f, s) \<Rightarrow>
          (let put = (\<lambda>n. case f of WriteShort k \<Rightarrow> (Some OsOther, set_node p (n\<lparr>inData := take k data\<rparr>) s)
                               | _ \<Rightarrow> (None, set_node p (n\<lparr>inData := data\<rparr>) s)) in
           case mfNodes s p of
             Some n \<Rightarrow> if inDir n then (Some OsOther, s) else put n
           | None \<Rightarrow>
               (case mfNodes s (dir p) of
                  None \<Rightarrow> (Some OsNotExist, s)
                | Some d \<Rightarrow>
                    if inDir d then put \<lparr>inDir = False, inData = [], inMode = perm AND NOT (mfUmask s), inGid = mfGid s\<rparr>
                    else (Some OsOther, s))))"

definition dir_prefixes :: "string \<Rightarrow> string list" where
  "dir_prefixes p = map (\<lambda>i. take i p) (filter (\<lambda>i. p ! i = CHR ''/'') [1..<length p]) @ [p]"

fun mkdir_each :: "string list \<Rightarrow> 9 word \<Rightarrow> mode_fs \<Rightarrow> os_err option \<times> mode_fs" where
  "mkdir_each [] perm st = (None, st)"
| "mkdir_each (p # ps) perm st =
     (case mfNodes st p of
        Some n \<Rightarrow> if inDir n then mkdir_each ps perm st else (Some OsOther, st)
      | None \<Rightarrow>
          (case os_call st of
             (CallFine, s) \<Rightarrow>
               mkdir_each ps perm (set_node p \<lparr>inDir = True, inData = [], inMode = perm AND NOT (mfUmask s), inGid = mfGid s\<rparr> s)
           | (_, s) \<Rightarrow> (Some OsOther, s)))"

definition os_MkdirAll :: "string \<Rightarrow> 9 word \<Rightarrow> mode_fs \<Rightarrow> os_err option \<times> mode_fs" where
  "os_MkdirAll p = mkdir_each (dir_prefixes p)"

section \<open>internal/fsmode\<close>

definition restrictFile :: "string \<Rightarrow> mode_fs \<Rightarrow> os_err option \<times> mode_fs" where
  "restrictFile p st =
     (case os_Chmod p 0x180 st of
        (Some OsNotExist, s) \<Rightarrow> (None, s)
      | r \<Rightarrow> r)"

definition groupName :: "(nat \<Rightarrow> string option) \<Rightarrow> nat \<Rightarrow> string" where
  "groupName lookup gid = (case lookup gid of Some n \<Rightarrow> if n \<noteq> [] then n else dec_nat gid | None \<Rightarrow> dec_nat gid)"

definition shareWithGroupOf :: "(nat \<Rightarrow> string option) \<Rightarrow> string \<Rightarrow> string \<Rightarrow> mode_fs \<Rightarrow> (os_err + string) \<times> mode_fs" where
  "shareWithGroupOf lookup p reference st =
     (case os_Stat reference st of
        (Inl e, s) \<Rightarrow> (Inl e, s)
      | (Inr ref, s) \<Rightarrow>
          (case os_Stat p s of
             (Inl e, s) \<Rightarrow> (Inl e, s)
           | (Inr n, s) \<Rightarrow>
               (case os_Chgrp p (inGid ref) s of
                  (Some e, s) \<Rightarrow> (Inl e, s)
                | (None, s) \<Rightarrow>
                    (case os_Chmod p (if inDir n then 0x1E8 else 0x1A0) s of
                       (Some e, s) \<Rightarrow> (Inl e, s)
                     | (None, s) \<Rightarrow> (Inr (groupName lookup (inGid ref)), s)))))"

section \<open>The command\<close>

text \<open>The group is the one the last path that could be shared was given; the error is the first.\<close>

fun share_loop :: "(nat \<Rightarrow> string option) \<Rightarrow> string \<Rightarrow> string list \<Rightarrow> string \<times> os_err option \<Rightarrow> mode_fs \<Rightarrow>
    (string \<times> os_err option) \<times> mode_fs" where
  "share_loop lookup reference [] acc st = (acc, st)"
| "share_loop lookup reference (p # ps) (grp, firstErr) st =
     (case shareWithGroupOf lookup p reference st of
        (Inl e, s) \<Rightarrow> share_loop lookup reference ps (grp, if firstErr = None then Some e else firstErr) s
      | (Inr name, s) \<Rightarrow> share_loop lookup reference ps (name, firstErr) s)"

definition shareWithService :: "(nat \<Rightarrow> string option) \<Rightarrow> string \<Rightarrow> string list \<Rightarrow> mode_fs \<Rightarrow> (string \<times> os_err option) \<times> mode_fs" where
  "shareWithService lookup reference paths st = share_loop lookup reference paths ([], None) st"

fun first_existing :: "string list \<Rightarrow> mode_fs \<Rightarrow> string option \<times> mode_fs" where
  "first_existing [] st = (None, st)"
| "first_existing (p # ps) st = (case os_Stat p st of (Inr _, s) \<Rightarrow> (Some p, s) | (Inl _, s) \<Rightarrow> first_existing ps s)"

definition write_pair ::
  "(string \<Rightarrow> string) \<Rightarrow> string \<Rightarrow> string \<Rightarrow> string \<Rightarrow> string \<Rightarrow> mode_fs \<Rightarrow> cert_err option \<times> mode_fs" where
  "write_pair dir keyFile certFile keyPEM certPEM st =
     (case os_MkdirAll (dir keyFile) 0x1C0 st of
        (Some _, s) \<Rightarrow> (Some NoCertDir, s)
      | (None, s) \<Rightarrow>
     (case os_MkdirAll (dir certFile) 0x1C0 s of
        (Some _, s) \<Rightarrow> (Some NoCertDir, s)
      | (None, s) \<Rightarrow>
     (case os_WriteFile dir keyFile keyPEM 0x180 s of
        (Some _, s) \<Rightarrow> (Some KeyNotWritten, s)
      | (None, s) \<Rightarrow>
     (case restrictFile keyFile s of
        (Some _, s) \<Rightarrow> (Some KeyNotRestricted, s)
      | (None, s) \<Rightarrow>
     (case os_WriteFile dir certFile certPEM 0x1A4 s of
        (Some _, s) \<Rightarrow> (Some CertNotWritten, s)
      | (None, s) \<Rightarrow> (None, s))))))"

datatype cert_note =
    NotValidYet load_err | WroteCert string | WroteKey string | KeyReadableBy string string | NamesOf "string list"
  | KeyNotShared os_err | NotSignedByCA

definition maxValidityDays :: int where "maxValidityDays = 7300"

definition validity_of :: "int \<Rightarrow> int" where "validity_of days = i64 (i64 (days * 24) * hour)"

definition genCert ::
  "cfg_env \<Rightarrow> cert_lib \<Rightarrow> (string \<Rightarrow> string) \<Rightarrow> (nat \<Rightarrow> string option) \<Rightarrow> Config option \<times> load_err option \<Rightarrow> string \<Rightarrow> bool \<Rightarrow> int \<Rightarrow>
   mode_fs \<Rightarrow> cert_err option \<times> cert_note list \<times> mode_fs" where
  "genCert E L dir lookup loaded configPath force days st =
     (if days < 0 \<or> days > maxValidityDays then (Some DaysOutOfRange, [], st)
      else case loaded of
        (None, e) \<Rightarrow> (Some (CertConfig e), [], st)
      | (Some cfg, e) \<Rightarrow>
          (let warn = (case e of Some x \<Rightarrow> [NotValidYet x] | None \<Rightarrow> []);
               certFile = CertFile (cTLS cfg); keyFile = KeyFile (cTLS cfg) in
           if certFile = [] \<or> keyFile = [] then (Some NoCertPaths, warn, st)
           else case (if force then (None, st) else first_existing [certFile, keyFile] st) of
             (Some p, s) \<Rightarrow> (Some (CertExists p), warn, s)
           | (None, s) \<Rightarrow>
               (case Generate L (certHosts E cfg) (validity_of days) of
                  Inl x \<Rightarrow> (Some x, warn, s)
                | Inr (certPEM, keyPEM) \<Rightarrow>
                    (case write_pair dir keyFile certFile keyPEM certPEM s of
                       (Some x, s) \<Rightarrow> (Some x, warn, s)
                     | (None, s) \<Rightarrow>
                         (case shareWithService lookup configPath [dir keyFile, keyFile] s of
                            ((grp, shareErr), s) \<Rightarrow>
                              (None,
                               warn @ [WroteCert certFile, WroteKey keyFile] @
                                 (if grp \<noteq> [] then [KeyReadableBy grp configPath] else []) @ [NamesOf (certHosts E cfg)] @
                                 (case shareErr of Some x \<Rightarrow> [KeyNotShared x] | None \<Rightarrow> []) @ [NotSignedByCA], s))))))"

section \<open>Names and validity\<close>

lemma dedupe_loop_distinct: "distinct out \<Longrightarrow> [] \<notin> set out \<Longrightarrow>
  distinct (dedupe_loop ss out) \<and> [] \<notin> set (dedupe_loop ss out) \<and> set (dedupe_loop ss out) = set out \<union> (set ss - {[]})"
  by (induction ss out rule: dedupe_loop.induct) auto

lemma dedupe_loop_id: "distinct (out @ ss) \<Longrightarrow> [] \<notin> set ss \<Longrightarrow> dedupe_loop ss out = out @ ss"
  by (induction ss out rule: dedupe_loop.induct) auto

lemma add_host_wf: "distinct hs \<and> [] \<notin> set hs \<Longrightarrow> distinct (add_host h hs) \<and> [] \<notin> set (add_host h hs)"
  by (auto simp: add_host_def)

lemma add_host_set: "set (add_host h hs) = set hs \<union> ({h} - {[]})"
  by (auto simp: add_host_def)

lemma add_address_wf: "distinct hs \<and> [] \<notin> set hs \<Longrightarrow> distinct (add_address E a hs) \<and> [] \<notin> set (add_address E a hs)"
  by (auto simp: add_address_def add_host_wf split: option.splits prod.splits)

definition named_host :: "cfg_env \<Rightarrow> string \<Rightarrow> string set" where
  "named_host E a = (case SplitHostPort E a of None \<Rightarrow> {} | Some (h, _) \<Rightarrow> {h} - {[], ''0.0.0.0'', ''::''})"

lemma add_address_set: "set (add_address E a hs) = set hs \<union> named_host E a"
  by (auto simp: add_address_def named_host_def add_host_def split: option.splits prod.splits)

lemma fold_address_wf: "distinct hs \<and> [] \<notin> set hs \<Longrightarrow>
  distinct (fold (\<lambda>l. add_address E (lAddress l)) ls hs) \<and> [] \<notin> set (fold (\<lambda>l. add_address E (lAddress l)) ls hs)"
  by (induction ls arbitrary: hs) (simp_all add: add_address_wf)

lemma fold_address_set: "set (fold (\<lambda>l. add_address E (lAddress l)) ls hs) = set hs \<union> (\<Union>l \<in> set ls. named_host E (lAddress l))"
  by (induction ls arbitrary: hs) (auto simp: add_address_set)

text \<open>The certificate carries the configured hostname, every concrete address a listener or the metrics bind, loopback,
  and nothing else; no name twice and none empty, so \<open>certgen\<close> has nothing left to drop and never lacks a host.\<close>

lemma certHosts_set:
  "set (certHosts E cfg) = ({Hostname (cService cfg)} - {[]}) \<union> (\<Union>l \<in> set (Listeners cfg). named_host E (lAddress l)) \<union>
     (if metEnabled (cMetrics cfg) then named_host E (metAddress (cMetrics cfg)) else {}) \<union> {''localhost'', ''127.0.0.1'', ''::1''}"
  by (auto simp: certHosts_def Let_def add_host_set add_address_set fold_address_set)

lemma certHosts_wf: "distinct (certHosts E cfg) \<and> [] \<notin> set (certHosts E cfg)"
  unfolding certHosts_def Let_def
  by (intro add_host_wf) (auto intro!: add_address_wf fold_address_wf add_host_wf simp del: fold.simps split: if_splits)

lemma certHosts_dedupe: "dedupe (certHosts E cfg) = certHosts E cfg"
  using certHosts_wf[of E cfg] dedupe_loop_id[of "[]" "certHosts E cfg"] by (simp add: dedupe_def)

lemma certHosts_some: "certHosts E cfg \<noteq> []"
proof -
  have "''localhost'' \<in> set (certHosts E cfg)" unfolding certHosts_set by simp
  then show ?thesis by (metis empty_iff empty_set)
qed

lemma no_wildcard_san: "''0.0.0.0'' \<in> set (certHosts E cfg) \<Longrightarrow> Hostname (cService cfg) = ''0.0.0.0''"
  by (auto simp: certHosts_set named_host_def split: option.splits prod.splits if_splits)

text \<open>No day count the command accepts overflows the 64 bit duration, and 0 is the default.\<close>

lemma validity_exact: "0 \<le> days \<Longrightarrow> days \<le> maxValidityDays \<Longrightarrow> validity_of days = days * 24 * hour \<and> in_i64 (days * 24 * hour)"
proof -
  assume d: "0 \<le> days" "days \<le> maxValidityDays"
  have h: "hour = 3600000000000" by (simp add: time_units)
  have "in_i64 (days * 24)" "in_i64 (days * 24 * hour)" using d by (simp_all add: maxValidityDays_def h)
  then show ?thesis by (simp only: validity_of_def i64_id)
qed

lemma add_sans: "fold (add_san parse) hs t =
    t\<lparr>ctIPAddresses := ctIPAddresses t @ List.map_filter parse hs, ctDNSNames := ctDNSNames t @ filter (\<lambda>h. parse h = None) hs\<rparr>"
  by (induction hs arbitrary: t) (auto simp: add_san_def map_filter_simps split: option.splits)

text \<open>A template made for the relay is a server certificate already valid, for as long as asked, and each name is in it
  as an address or as a DNS name.\<close>

lemma template_covers:
  assumes "0 < validity" and "hosts \<noteq> []"
  shows "let t = cert_template L hosts validity serial in
    ctNotBefore t < clNow L \<and> clNow L < ctNotAfter t \<and> ctNotAfter t - clNow L = validity \<and> \<not> ctIsCA t \<and> ctCommonName t = hd hosts \<and>
    set (ctDNSNames t) = {h \<in> set hosts. clParseIP L h = None} \<and> set (ctIPAddresses t) = {a. \<exists>h \<in> set hosts. clParseIP L h = Some a}"
proof -
  have "set (List.map_filter (clParseIP L) hosts) = {a. \<exists>h \<in> set hosts. clParseIP L h = Some a}"
    by (induction hosts) (auto simp: map_filter_simps split: option.splits)
  then show ?thesis using assms by (auto simp: cert_template_def add_sans Let_def time_units)
qed

section \<open>What a call leaves alone\<close>

lemma os_call_frame: "os_call st = (f, s) \<Longrightarrow> mfNodes s = mfNodes st \<and> mfUmask s = mfUmask st \<and> mfGid s = mfGid st"
  by (auto simp: os_call_def split: list.splits)

lemma os_Stat_nodes: "os_Stat p st = (r, s) \<Longrightarrow> mfNodes s = mfNodes st \<and> (\<forall>n. r = Inr n \<longrightarrow> mfNodes st p = Some n)"
  by (auto simp: os_Stat_def dest!: os_call_frame split: prod.splits os_fault.splits option.splits)

lemma os_change_other: "os_change f p st = (r, s) \<Longrightarrow> q \<noteq> p \<Longrightarrow> mfNodes s q = mfNodes st q"
  by (auto simp: os_change_def set_node_def dest!: os_call_frame split: prod.splits os_fault.splits option.splits)

lemma os_change_at: "os_change f p st = (r, s) \<Longrightarrow> mfNodes s p = (if r = None then map_option f (mfNodes st p) else mfNodes st p)"
  by (auto simp: os_change_def set_node_def dest!: os_call_frame split: prod.splits os_fault.splits option.splits)

lemma os_change_exists: "os_change f p st = (None, s) \<Longrightarrow> mfNodes st p \<noteq> None"
  by (auto simp: os_change_def dest!: os_call_frame split: prod.splits os_fault.splits option.splits)

lemma os_WriteFile_other: "os_WriteFile dir p d m st = (r, s) \<Longrightarrow> q \<noteq> p \<Longrightarrow> mfNodes s q = mfNodes st q"
  by (auto simp: os_WriteFile_def set_node_def Let_def dest!: os_call_frame split: prod.splits os_fault.splits option.splits if_splits)

lemma os_WriteFile_ok: "os_WriteFile dir p d m st = (None, s) \<Longrightarrow> \<exists>n. mfNodes s p = Some n \<and> \<not> inDir n \<and> inData n = d"
  by (auto simp: os_WriteFile_def set_node_def Let_def dest!: os_call_frame split: prod.splits os_fault.splits option.splits if_splits)

lemma mkdir_each_grows: "mkdir_each ps m st = (r, s) \<Longrightarrow>
  mfNodes s p = mfNodes st p \<or> (mfNodes st p = None \<and> (\<exists>n. mfNodes s p = Some n \<and> inDir n))"
proof (induction ps m st arbitrary: r rule: mkdir_each.induct)
  case (2 q ps m st)
  show ?case
  proof (cases "mfNodes st q")
    case None
    obtain f s1 where c: "os_call st = (f, s1)" by fastforce
    show ?thesis using 2 None c os_call_frame[OF c] by (cases f) (fastforce simp: set_node_def split: if_splits)+
  qed (use 2 in \<open>auto split: if_splits\<close>)
qed simp

lemmas file_frames = os_change_other os_WriteFile_other os_Chmod_def os_Chgrp_def

section \<open>The pair on disk\<close>

lemma os_MkdirAll_keeps: "os_MkdirAll p m st = (r, s) \<Longrightarrow> mfNodes st q = Some n \<Longrightarrow> mfNodes s q = Some n"
  unfolding os_MkdirAll_def by (drule mkdir_each_grows[where p=q]) auto

lemma os_MkdirAll_files: "os_MkdirAll p m st = (r, s) \<Longrightarrow> mfNodes s q = Some n \<Longrightarrow> \<not> inDir n \<Longrightarrow> mfNodes st q = Some n"
  unfolding os_MkdirAll_def by (drule mkdir_each_grows[where p=q]) auto

lemma restrictFile_other: "restrictFile p st = (r, s) \<Longrightarrow> q \<noteq> p \<Longrightarrow> mfNodes s q = mfNodes st q"
  unfolding restrictFile_def
  by (auto simp: os_Chmod_def dest: os_change_other split: prod.splits option.splits os_err.splits)

lemma restrictFile_ok: "restrictFile p st = (None, s) \<Longrightarrow> mfNodes st p = Some n \<Longrightarrow> mfNodes s p = Some (n\<lparr>inMode := 0x180\<rparr>)"
  unfolding restrictFile_def os_Chmod_def os_change_def
  by (auto simp: set_node_def dest!: os_call_frame split: prod.splits option.splits os_err.splits os_fault.splits)

text \<open>The certificate never reaches the disk before its key is there complete and readable by its owner only, whatever
  call fails; and when the pair is reported written, both files hold what was generated.\<close>

lemma key_before_certificate:
  assumes "write_pair dir keyFile certFile keyPEM certPEM st = (r, st')" and "keyFile \<noteq> certFile"
    and "mfNodes st' certFile = Some n" and "\<not> inDir n" and "mfNodes st' certFile \<noteq> mfNodes st certFile"
  shows "\<exists>k. mfNodes st' keyFile = Some k \<and> \<not> inDir k \<and> inData k = keyPEM \<and> inMode k = 0x180"
proof -
  obtain r1 s1 r2 s2 r3 s3 r4 s4 r5 s5 where
    c1: "os_MkdirAll (dir keyFile) 0x1C0 st = (r1, s1)" and c2: "os_MkdirAll (dir certFile) 0x1C0 s1 = (r2, s2)" and
    c3: "os_WriteFile dir keyFile keyPEM 0x180 s2 = (r3, s3)" and c4: "restrictFile keyFile s3 = (r4, s4)" and
    c5: "os_WriteFile dir certFile certPEM 0x1A4 s4 = (r5, s5)" by (metis surj_pair)
  note keep = os_MkdirAll_files[OF c1] os_MkdirAll_files[OF c2]
  have "r1 = None \<and> r2 = None \<and> r3 = None \<and> r4 = None \<and> st' = s5"
    using assms c1 c2 c3 c4 c5 keep os_WriteFile_other[OF c3] restrictFile_other[OF c4]
    by (auto simp: write_pair_def split: option.splits)
  moreover obtain k where "mfNodes s3 keyFile = Some k" "\<not> inDir k" "inData k = keyPEM"
    using calculation os_WriteFile_ok c3 by blast
  ultimately show ?thesis using restrictFile_ok[of keyFile s3 s4 k] c4 os_WriteFile_other[OF c5, of keyFile] assms(2) by auto
qed

lemma pair_written:
  assumes "write_pair dir keyFile certFile keyPEM certPEM st = (None, st')" and "keyFile \<noteq> certFile"
  shows "\<exists>k c. mfNodes st' keyFile = Some k \<and> \<not> inDir k \<and> inData k = keyPEM \<and> inMode k = 0x180 \<and>
    mfNodes st' certFile = Some c \<and> \<not> inDir c \<and> inData c = certPEM"
proof -
  obtain s2 s3 s4 where c3: "os_WriteFile dir keyFile keyPEM 0x180 s2 = (None, s3)" and c4: "restrictFile keyFile s3 = (None, s4)" and
    c5: "os_WriteFile dir certFile certPEM 0x1A4 s4 = (None, st')"
    using assms(1) by (auto simp: write_pair_def split: prod.splits option.splits)
  obtain k where "mfNodes s3 keyFile = Some k" "\<not> inDir k" "inData k = keyPEM" using os_WriteFile_ok[OF c3] by blast
  then show ?thesis using restrictFile_ok[OF c4] os_WriteFile_other[OF c5 assms(2)] os_WriteFile_ok[OF c5] by fastforce
qed

text \<open>No other file is touched but by the change of group and mode, which the command makes to the key and its directory.\<close>

lemma write_pair_other:
  assumes "write_pair dir keyFile certFile keyPEM certPEM st = (r, st')" and "mfNodes st p = Some n" and "p \<noteq> keyFile" and "p \<noteq> certFile"
  shows "mfNodes st' p = Some n"
  using assms
  by (auto simp: write_pair_def split: prod.splits option.splits)
     (metis os_MkdirAll_keeps os_WriteFile_other restrictFile_other)+

text \<open>The comment calls a certificate without its key the safer half to leave behind, but writing the key first leaves the
  key without its certificate when the second write fails.\<close>

lemma key_without_certificate:
  "let d = \<lparr>inDir = True, inData = [], inMode = 0x1C0, inGid = 0\<rparr>;
       st = \<lparr>mfNodes = [''/t'' \<mapsto> d], mfFaults = [CallFine, CallFine, CallRefused], mfUmask = 0x12, mfGid = 0\<rparr>;
       (r, st') = write_pair (\<lambda>_. ''/t'') ''/t/k'' ''/t/c'' ''key'' ''cert'' st
   in r = Some CertNotWritten \<and> mfNodes st' ''/t/c'' = None \<and> map_option inData (mfNodes st' ''/t/k'') = Some ''key''"
  by (simp add: write_pair_def os_MkdirAll_def dir_prefixes_def os_WriteFile_def restrictFile_def os_Chmod_def os_change_def
      os_call_def set_node_def upt_rec)

section \<open>Giving the key to the service\<close>

lemma share_changes: "shareWithGroupOf lookup p reference st = (r, s) \<Longrightarrow> q \<noteq> p \<Longrightarrow> mfNodes s q = mfNodes st q"
  by (auto simp: shareWithGroupOf_def os_Chmod_def os_Chgrp_def dest!: os_Stat_nodes
        split: prod.splits sum.splits option.splits) (metis os_change_other)+

text \<open>On success the path has the group of the configuration file and the mode its group can read it by, whatever mode it
  had: an existing directory others could enter is closed to them. On failure it has that mode or its old one, and
  the reader it was widened to can only be that group.\<close>

lemma share_result:
  assumes "shareWithGroupOf lookup p reference st = (r, s)" and "mfNodes st p = Some n" and "mfNodes st reference = Some c" and "p \<noteq> reference"
  shows "\<exists>n'. mfNodes s p = Some n' \<and> inDir n' = inDir n \<and> inData n' = inData n \<and>
    (case r of Inr g \<Rightarrow> inGid n' = inGid c \<and> inMode n' = (if inDir n then 0x1E8 else 0x1A0) \<and> g = groupName lookup (inGid c)
     | Inl _ \<Rightarrow> inMode n' = inMode n \<and> (inGid n' = inGid n \<or> inGid n' = inGid c))"
  using assms
  by (auto simp: shareWithGroupOf_def os_Chmod_def os_Chgrp_def dest!: os_Stat_nodes os_change_at
        split: prod.splits sum.splits option.splits)

text \<open>So a key named directly in a shared directory takes the directory away from the others who used it.\<close>

lemma shared_directory_is_closed:
  "let d = \<lparr>inDir = True, inData = [], inMode = 0x1ED, inGid = 0\<rparr>;
       c = \<lparr>inDir = False, inData = [], inMode = 0x1A0, inGid = 7\<rparr>;
       st = \<lparr>mfNodes = [''/etc'' \<mapsto> d, ''/s/c'' \<mapsto> c], mfFaults = [], mfUmask = 0x12, mfGid = 0\<rparr>;
       (_, st') = shareWithGroupOf (\<lambda>_. None) ''/etc'' ''/s/c'' st
   in mfNodes st' ''/etc'' = Some (d\<lparr>inMode := 0x1E8, inGid := 7\<rparr>)"
  by (simp add: shareWithGroupOf_def os_Stat_def os_Chgrp_def os_Chmod_def os_change_def os_call_def set_node_def)

lemma share_exists: "shareWithGroupOf lookup p reference st = (Inr g, s) \<Longrightarrow> \<exists>n. mfNodes st p = Some n"
  by (auto simp: shareWithGroupOf_def dest!: os_Stat_nodes split: prod.splits sum.splits option.splits)

lemma share_two:
  assumes "shareWithService lookup reference [d, p] st = ((grp, err), s)"
  obtains r1 s1 r2 where "shareWithGroupOf lookup d reference st = (r1, s1)" and "shareWithGroupOf lookup p reference s1 = (r2, s)"
    and "err = None \<Longrightarrow> (\<exists>g. r1 = Inr g) \<and> (\<exists>g. r2 = Inr g)"
  using assms by (auto simp: shareWithService_def split: prod.splits sum.splits)

section \<open>What the command promises\<close>

lemma first_existing_nodes: "first_existing ps st = (r, s) \<Longrightarrow> mfNodes s = mfNodes st"
  by (induction ps st rule: first_existing.induct) (auto dest!: os_Stat_nodes split: prod.splits sum.splits)

lemma genCert_steps:
  assumes "genCert E L dir lookup (Some cfg, e) configPath force days st = (None, notes, st')"
  obtains s certPEM keyPEM s1 grp err where "0 \<le> days" and "days \<le> maxValidityDays" and "mfNodes s = mfNodes st"
    and "Generate L (certHosts E cfg) (validity_of days) = Inr (certPEM, keyPEM)"
    and "write_pair dir (KeyFile (cTLS cfg)) (CertFile (cTLS cfg)) keyPEM certPEM s = (None, s1)"
    and "shareWithService lookup configPath [dir (KeyFile (cTLS cfg)), KeyFile (cTLS cfg)] s1 = ((grp, err), st')"
    and "\<And>x. err = Some x \<Longrightarrow> KeyNotShared x \<in> set notes"
proof -
  obtain r s where pre: "(if force then (None, st) else first_existing [CertFile (cTLS cfg), KeyFile (cTLS cfg)] st) = (r, s)"
    by (metis surj_pair)
  have n: "mfNodes s = mfNodes st" using pre by (auto simp del: first_existing.simps dest: first_existing_nodes split: if_splits)
  have d: "0 \<le> days" "days \<le> maxValidityDays" using assms by (auto simp: genCert_def split: if_splits)
  have r: "r = None" and p: "CertFile (cTLS cfg) \<noteq> []" "KeyFile (cTLS cfg) \<noteq> []"
    using assms d by (auto simp: genCert_def Let_def pre split: if_splits option.splits)
  obtain certPEM keyPEM where g: "Generate L (certHosts E cfg) (validity_of days) = Inr (certPEM, keyPEM)"
    using assms d p by (auto simp: genCert_def Let_def pre r simp del: first_existing.simps split: sum.splits prod.splits)
  obtain s1 where w: "write_pair dir (KeyFile (cTLS cfg)) (CertFile (cTLS cfg)) keyPEM certPEM s = (None, s1)"
    using assms d p by (auto simp: genCert_def Let_def pre r g simp del: first_existing.simps split: option.splits prod.splits)
  obtain grp err s2 where sh: "shareWithService lookup configPath [dir (KeyFile (cTLS cfg)), KeyFile (cTLS cfg)] s1 = ((grp, err), s2)"
    by (metis surj_pair)
  have "s2 = st'" "\<And>x. err = Some x \<Longrightarrow> KeyNotShared x \<in> set notes"
    using assms d p by (auto simp: genCert_def Let_def pre r g w sh simp del: first_existing.simps)
  then show ?thesis using that n d g w sh by blast
qed

text \<open>Without \<open>force\<close> a pair that is there, even half of it, is left alone, as long as \<open>Stat\<close> can see it.\<close>

lemma existing_pair_refused:
  assumes "\<forall>f \<in> set (take 2 (mfFaults st)). f = CallFine" and "0 \<le> days" and "days \<le> maxValidityDays"
    and "CertFile (cTLS cfg) \<noteq> []" and "KeyFile (cTLS cfg) \<noteq> []"
    and "mfNodes st (CertFile (cTLS cfg)) \<noteq> None \<or> mfNodes st (KeyFile (cTLS cfg)) \<noteq> None"
  shows "\<exists>p notes st'. genCert E L dir lookup (Some cfg, e) configPath False days st = (Some (CertExists p), notes, st') \<and>
    mfNodes st' = mfNodes st"
proof -
  have "\<exists>p s. first_existing [CertFile (cTLS cfg), KeyFile (cTLS cfg)] st = (Some p, s)"
    using assms(1,6) by (auto simp: os_Stat_def os_call_def split: list.splits option.splits)
  then obtain p s where p: "first_existing [CertFile (cTLS cfg), KeyFile (cTLS cfg)] st = (Some p, s)" by blast
  show ?thesis using assms(2-5) p first_existing_nodes[OF p] by (simp add: genCert_def Let_def del: first_existing.simps)
qed

text \<open>After a successful run the key on disk is the generated one, for its owner only or for the group of the configuration
  file besides; unless the command warned, that group can read it and enter its directory, which is all the service
  needs.\<close>

lemma generated_key_is_guarded:
  assumes run: "genCert E L dir lookup (Some cfg, e) configPath force days st = (None, notes, st')"
    and paths: "distinct [CertFile (cTLS cfg), KeyFile (cTLS cfg), dir (KeyFile (cTLS cfg)), configPath]"
    and conf: "mfNodes st configPath = Some c"
  shows "\<exists>certPEM keyPEM k crt. Generate L (certHosts E cfg) (days * 24 * hour) = Inr (certPEM, keyPEM) \<and>
    mfNodes st' (KeyFile (cTLS cfg)) = Some k \<and> inData k = keyPEM \<and>
    mfNodes st' (CertFile (cTLS cfg)) = Some crt \<and> inData crt = certPEM \<and>
    (inMode k = 0x180 \<or> inMode k = 0x1A0 \<and> inGid k = inGid c) \<and>
    ((\<forall>x. KeyNotShared x \<notin> set notes) \<longrightarrow> inMode k = 0x1A0 \<and> inGid k = inGid c \<and>
       (\<forall>n. mfNodes st' (dir (KeyFile (cTLS cfg))) = Some n \<and> inDir n \<longrightarrow> inMode n = 0x1E8 \<and> inGid n = inGid c))"
proof -
  let ?k = "KeyFile (cTLS cfg)" and ?c = "CertFile (cTLS cfg)"
  obtain s certPEM keyPEM s1 grp err where days: "0 \<le> days" "days \<le> maxValidityDays" and
    s: "mfNodes s = mfNodes st" and gen: "Generate L (certHosts E cfg) (validity_of days) = Inr (certPEM, keyPEM)" and
    wr: "write_pair dir ?k ?c keyPEM certPEM s = (None, s1)" and
    sh: "shareWithService lookup configPath [dir ?k, ?k] s1 = ((grp, err), st')" and
    err: "\<And>x. err = Some x \<Longrightarrow> KeyNotShared x \<in> set notes"
    using genCert_steps[OF run] by blast
  obtain r1 s2 r2 where sh1: "shareWithGroupOf lookup (dir ?k) configPath s1 = (r1, s2)" and
    sh2: "shareWithGroupOf lookup ?k configPath s2 = (r2, st')" and ok: "err = None \<Longrightarrow> (\<exists>g. r1 = Inr g) \<and> (\<exists>g. r2 = Inr g)"
    using share_two[OF sh] by blast
  obtain k crt where k: "mfNodes s1 ?k = Some k" "\<not> inDir k" "inData k = keyPEM" "inMode k = 0x180" and
    crt: "mfNodes s1 ?c = Some crt" "inData crt = certPEM" using pair_written[OF wr] paths by auto
  have conf1: "mfNodes s1 configPath = Some c" using write_pair_other[OF wr, of configPath c] conf s paths by auto
  have k2: "mfNodes s2 ?k = Some k" "mfNodes s2 configPath = Some c" using share_changes[OF sh1] k conf1 paths by auto
  obtain k' where k': "mfNodes st' ?k = Some k'" "inData k' = keyPEM" and
    res: "case r2 of Inr g \<Rightarrow> inGid k' = inGid c \<and> inMode k' = 0x1A0 | Inl _ \<Rightarrow> inMode k' = 0x180"
    using share_result[OF sh2 k2] k paths by (cases r2) auto
  have crt': "mfNodes st' ?c = Some crt" using share_changes[OF sh1, of ?c] share_changes[OF sh2, of ?c] crt paths by auto
  have "inMode n = 0x1E8 \<and> inGid n = inGid c" if "r1 = Inr g" "mfNodes st' (dir ?k) = Some n" "inDir n" for g n
  proof -
    note shared = sh1[unfolded that(1)]
    obtain n0 where n0: "mfNodes s1 (dir ?k) = Some n0" using share_exists[OF shared] by blast
    show ?thesis using share_result[OF shared n0 conf1] share_changes[OF sh2, of "dir ?k"] that paths by auto
  qed
  then show ?thesis
    using gen validity_exact[OF days] k' res crt' crt(2) ok err by (cases err) (fastforce split: sum.splits)+
qed

end
