(* ===== verification/Spec2Isabelle.thy ===== *)
theory Spec2Isabelle
  imports Spool_Properties Rate_Limit Sender_Rewrite Smtp_Wire Journal_Query Session_Streams Delivery_Dispatch
    Bounce_Notifier Queue_Action Listener_Start Canary Expiry_Watch Housekeeping
    Token_Properties Api_Server Config_Page Command_Line Gen_Cert
begin

text \<open>
  A verification library for smtprelayd, an SMTP relay: devices hand it mail over SMTP, it keeps the mail in a spool on
  disk, and delivers it to a smarthost, mainly Microsoft 365.

  \<^bold>\<open>The program and its parts.\<close> Listeners (\<open>internal/listener\<close>) accept connections, match the peer against the
  configured clients, run the SMTP dialogue and stream a message into the spool (\<open>internal/spool\<close>), one copy per
  route the router (\<open>internal/router\<close>) chooses, after the sender policy (\<open>internal/rewrite\<close>) has edited its header. The
  delivery manager (\<open>internal/delivery\<close>) claims due messages, gives each to a worker of its route and settles it by
  the outcome of the conversation with the smarthost (\<open>internal/delivery/smarthost\<close>), with a token of
  \<open>internal/authms365\<close> where the route needs one. Everything is also recorded in the history store
  (\<open>internal/store\<close>), a journal for the operator: the dashboard (\<open>internal/web\<close>), the JSON API (\<open>internal/api\<close>) and the
  metrics (\<open>internal/metrics\<close>) read it and the spool, and the two former requeue and delete through
  \<open>internal/queueaction\<close>. The relay also writes mail of its own: bounce digests (\<open>internal/bounce\<close>), probes
  (\<open>internal/canary\<close>) and expiry warnings (\<open>internal/expiry\<close>), all through \<open>internal/selfmail\<close>. \<open>cmd/smtprelayd\<close> loads
  the configuration (\<open>internal/config\<close>), checks what it rests on (\<open>internal/ostrust\<close>), builds all this and shuts it down.

  \<^bold>\<open>Conventions.\<close> A Go struct is a record, an enumeration or a family of errors a datatype, an operation a function
  from its arguments and the state to its result and the new state; an interface value is a record of operations over
  an abstract state. \<open>int64\<close> and durations are integers kept in range by \<open>i64\<close>, counters of the metrics are
  \<open>64 word\<close>, addresses are words. Every call to the file system or the database can fail: the failures are a list
  consumed from the front, and a crash stops all further effect. The clock is a list of readings or an argument,
  random bytes are a list or an argument, and the order in which Go ranges over a map is a list argument.

  \<^bold>\<open>Concurrency.\<close> Goroutines are interleaved as sequences of steps over which the theorems quantify; what one step holds
  differs by part. The accept loops and their shutdown (\<open>Listener_Accept\<close>) step at every lock, semaphore and wait
  group; the limiter of failed tokens (\<open>auth_step\<close>) at its two critical sections; the dispatcher and its workers
  (\<open>serving_step\<close>) at one scan, one message handed out or given back, one send, one record, one slot returned, with
  the listener and the operators between. A whole operation of the spool (\<open>spool_step\<close>), with the file calls it makes
  outside its locks, is one step, and so is a whole request of the HTTP servers and a whole write of the history store;
  what could happen between the parts of one of these is not covered.

  \<^bold>\<open>Theories.\<close>
  \<^item> \<open>Relay_Prelude\<close>: 64 bit integers, durations, and the functions of \<open>strings\<close> and \<open>strconv\<close> the source uses; \<open>Utf8\<close>:
    decoding, and what \<open>encoding/json\<close> does to bytes that are no UTF-8; \<open>Go_Heap\<close>: \<open>container/heap\<close>; \<open>Net_Ip\<close>: \<open>netip\<close>.
  \<^item> \<open>Queue_Id\<close> (\<open>queueid\<close>), \<open>Rate_Limit\<close> (\<open>ratelimit\<close>), \<open>Mail_Addr\<close> (\<open>mailaddr\<close> and \<open>listener/address.go\<close>).
  \<^item> The spool: \<open>Spool_Meta\<close> (records), \<open>Filesys\<close> (system calls with faults and crashes, and the retrying helpers),
    \<open>Spool_State\<close> (indexes and quota), \<open>Spool_Queue\<close> (every operation), \<open>Spool_Recovery\<close> (\<open>Open\<close>, the failed store, the
    sweep). On them \<open>Spool_Frames\<close> (what an operation leaves alone; the accounts), \<open>Spool_Crash\<close> (commits cut short),
    \<open>Spool_Claim\<close> (leases), \<open>Spool_Fates\<close> (what each result says of the files), \<open>Spool_Limits\<close> (round trips of the failed
    store, and two ways to lose a body), \<open>Spool_Quota\<close> and \<open>Spool_Properties\<close>.
  \<^item> The configuration: \<open>Config_Types\<close> (structs, defaults, normalisation), \<open>Config_Validate\<close> (every rule of \<open>validate.go\<close>),
    \<open>Config_Accepted\<close> (what an accepted configuration guarantees), \<open>Config_Load\<close> (files, secrets, \<open>Load\<close>), \<open>Router\<close>
    (\<open>router\<close>, \<open>listener/match.go\<close>, \<open>admission.go\<close>).
  \<^item> The listener: \<open>Smtp_Wire\<close> (lines, DATA and header scanning on a byte stream), \<open>Header_Block\<close> and \<open>Sender_Rewrite\<close>
    (\<open>rewrite\<close>), \<open>Listener_Journal\<close>, \<open>Listener_Session\<close> (the command loop and every handler), \<open>Session_Queue\<close>,
    \<open>Session_Properties\<close> and \<open>Session_Streams\<close> (what a session may do to queue and journal, and to what it reads),
    \<open>Listener_Accept\<close> (accept loops and shutdown as interleaved steps), \<open>Listener_Start\<close>.
  \<^item> The history store: \<open>Journal_Store\<close> (tables and writes), \<open>Journal_Run\<close> (every journal the program can write),
    \<open>Journal_Query\<close> (the list queries and paging).
  \<^item> Delivery: \<open>Smarthost\<close> (the client, over a conversation of answers), \<open>Smarthost_Properties\<close>, \<open>Delivery\<close> (the manager),
    \<open>Delivery_Attempt\<close>, \<open>Delivery_Retry\<close>, \<open>Delivery_Dispatch\<close>; \<open>Token_Source\<close> and \<open>Token_Properties\<close> (\<open>authms365\<close>).
  \<^item> The relay's own mail and its chores: \<open>Self_Mail\<close>, \<open>Bounce_Notifier\<close>, \<open>Canary\<close>, \<open>Expiry_Watch\<close>, \<open>Housekeeping\<close>.
  \<^item> The operator's side: \<open>Queue_Action\<close>, \<open>Http_Access\<close> (tokens, Host check, limiter, form tokens), \<open>Http_Limits\<close>,
    \<open>Metrics_Registry\<close>, \<open>Serve_Mux\<close> (the pattern the metrics path is to \<open>net/http\<close>) and \<open>Metrics_Endpoint\<close>, \<open>Api_Server\<close>, \<open>Config_Page\<close>, \<open>Page_Links\<close>, \<open>Dashboard\<close>, and
    \<open>Operator_Access\<close>, the listener both servers share.
  \<^item> The program: \<open>Service_Run\<close> (\<open>serve\<close> with its deferred calls), \<open>Self_Test\<close> (\<open>selftest\<close>), \<open>Gen_Cert\<close>
    (\<open>gen-cert\<close>, \<open>certgen\<close> and \<open>fsmode\<close>, on files with modes and groups), \<open>Command_Line\<close>.

  \<^bold>\<open>Interfaces.\<close> Where one part relies on another its contract is a locale, interpreted on the model of the provider:
  the limiter for listener and dispatcher, the queue and the journal behind a session, the queue under the dispatcher,
  the store under the operator's actions, the token source under delivery, the reads of the two HTTP servers.

  \<^bold>\<open>What the theorems show.\<close>
  \<^item> Mail is not lost between the 250 and the delivery: commits are atomic under faults and crashes, recovery rebuilds
    exactly what is on disk, DATA queues one copy per route or withdraws what it can, an attempt takes an accepted message
    out of the queue and keeps the body of any other, retries and dispatch passes end, leases exclude each other and the byte accounts balance after every run.
  \<^item> Nothing is relayed for strangers: a session commits only what its client may send, the body reader cannot be
    made to see a second message, clear-text input behind STARTTLS is dropped, and the self test tells an open relay
    from a closed one when it talks to these very handlers.
  \<^item> Nothing secret leaves in clear, credentials are verified before use, secrets come only from guarded files or the
    environment, tokens are asked for no faster than the cooldown allows and never served expired.
  \<^item> The operator's view is right: summaries agree with attempts in the order of writing, even where the wall clock
    stepped back, paging shows every message that shares its sort value with no other once, answers to delete are true, every failure is reported once, and whatever changes through HTTP was authorised.
  \<^item> The program starts and stops in order: an accepted configuration can be built and run, a start is reported once,
    sessions drain, and stores close after their users.

  \<^bold>\<open>Bounds.\<close> Loops are structural or have measures. The attempts of a message are a list, so the bound on
  retries is on the length of the list; the steps of a dispatch pass are bounded by the messages available to it; eviction
  from the table of failed authentications is given as many rounds as it has entries, and each deletes one; what a run
  meets outside (faults, readings, answers) are lists of any length, and where one ends the outside has no
  more to say: no fault, the last reading again, a client that has gone. Readings may go back unless a theorem says
  that the clock only moves forward.

  \<^bold>\<open>Not modelled.\<close> TOML, JSON, base64, SHA-256, HMAC, X.509, the TLS handshake, SQLite, \<open>html/template\<close>, name
  resolution and \<open>net/http\<close> (but for the mux pattern of the metrics) are parameters or outcomes, as is the time zone database. Not modelled: what only runs on
  Windows (service manager, ACLs, DPAPI), \<open>logging\<close> and log lines as such, tickers and socket deadlines, the
  usage text and flag parsing, the texts that only format a table cell, and the static assets.
\<close>

end
